(* ===== verification/Prelude.thy ===== *)
theory Prelude
  imports Main "HOL-Library.Word" "HOL-Library.Sublist"
begin

unbundle bit_operations_syntax

text \<open>
  Shared material of the development.

  \<^item> The ways a run of the compiler can end without a result: a failed \<open>assert\<close>, a call
    of \<open>error\<close> (which prints its message and exits, \<open>compiler/main.cpp\<close>), a
    failed \<open>CAST\<close>, a null pointer read, or an operation the C++ language leaves undefined.
  \<^item> The arithmetic of a 32-bit \<open>int\<close> as the compiler's own code uses it. Signed
    overflow and shift counts outside 0..31 are undefined in C++ and are the value \<open>None\<close>.
  \<^item> Lists without repetition used as sets, and the loop over an index range that several
    components share.
\<close>

section \<open>Failure\<close>

datatype cerror = AssertFail | CompileError | BadCast | NullPointer | Undefined

type_synonym 'a res = "cerror + 'a"

definition res_bind :: "'a res \<Rightarrow> ('a \<Rightarrow> 'b res) \<Rightarrow> 'b res" where
  "res_bind r f = (case r of Inl e \<Rightarrow> Inl e | Inr a \<Rightarrow> f a)"

lemma res_bind_simps [simp]:
  "res_bind (Inl e) f = Inl e"
  "res_bind (Inr a) f = f a"
  by (simp_all add: res_bind_def)

lemma res_bind_eq_Inr_iff:
  "res_bind r f = Inr b \<longleftrightarrow> (\<exists>a. r = Inr a \<and> f a = Inr b)"
  by (cases r) auto

definition res_of_option :: "cerror \<Rightarrow> 'a option \<Rightarrow> 'a res" where
  "res_of_option e x = (case x of None \<Rightarrow> Inl e | Some a \<Rightarrow> Inr a)"

lemma res_of_option_simps [simp]:
  "res_of_option e None = Inl e"
  "res_of_option e (Some a) = Inr a"
  by (simp_all add: res_of_option_def)

section \<open>32-bit int arithmetic\<close>

named_theorems cint_defs \<open>definitions of the C integer operations\<close>

definition in_int32 :: "int \<Rightarrow> bool" where
  [cint_defs]: "in_int32 x \<longleftrightarrow> - 2147483648 \<le> x \<and> x \<le> 2147483647"

definition wrap32 :: "int \<Rightarrow> int" where
  [cint_defs]: "wrap32 x = (x + 2147483648) mod 4294967296 - 2147483648"

definition uint32 :: "int \<Rightarrow> int" where
  [cint_defs]: "uint32 x = x mod 4294967296"

definition c_checked :: "int \<Rightarrow> int option" where
  [cint_defs]: "c_checked x = (if in_int32 x then Some x else None)"

definition c_add :: "int \<Rightarrow> int \<Rightarrow> int option" where
  [cint_defs]: "c_add a b = c_checked (a + b)"

definition c_sub :: "int \<Rightarrow> int \<Rightarrow> int option" where
  [cint_defs]: "c_sub a b = c_checked (a - b)"

definition c_mul :: "int \<Rightarrow> int \<Rightarrow> int option" where
  [cint_defs]: "c_mul a b = c_checked (a * b)"

text \<open>\<open>a << b\<close>: the count must be in range; the bits shifted out are lost (GCC).\<close>

definition c_shl :: "int \<Rightarrow> int \<Rightarrow> int option" where
  [cint_defs]: "c_shl a b = (if 0 \<le> b \<and> b < 32 then Some (wrap32 (a * 2 ^ nat b)) else None)"

text \<open>\<open>a >> b\<close> on a signed operand is the arithmetic shift (GCC).\<close>

definition c_shr :: "int \<Rightarrow> int \<Rightarrow> int option" where
  [cint_defs]: "c_shr a b = (if 0 \<le> b \<and> b < 32 then Some (a div 2 ^ nat b) else None)"

text \<open>\<open>(unsigned)a >> (unsigned)b\<close>, read back as an \<open>int\<close>.\<close>

definition c_lshr :: "int \<Rightarrow> int \<Rightarrow> int option" where
  [cint_defs]: "c_lshr a b =
     (if uint32 b < 32 then Some (wrap32 (uint32 a div 2 ^ nat (uint32 b))) else None)"

lemma wrap32_range: "in_int32 (wrap32 x)"
proof -
  have "0 \<le> (x + 2147483648) mod 4294967296" "(x + 2147483648) mod 4294967296 < 4294967296"
    by simp_all
  then show ?thesis by (simp add: in_int32_def wrap32_def)
qed

lemma wrap32_id [simp]: "in_int32 x \<Longrightarrow> wrap32 x = x"
  by (simp add: in_int32_def wrap32_def)

lemma c_checked_Some_iff: "c_checked x = Some y \<longleftrightarrow> in_int32 x \<and> y = x"
  by (auto simp: c_checked_def)

section \<open>Lists used as sets\<close>

text \<open>\<open>y\<close> is appended unless it is there already.\<close>

definition add_new :: "'a list \<Rightarrow> 'a \<Rightarrow> 'a list" where
  "add_new xs y = (if y \<in> set xs then xs else xs @ [y])"

lemma set_add_new [simp]: "set (add_new xs y) = insert y (set xs)"
  by (auto simp: add_new_def)

lemma distinct_add_new [simp]: "distinct xs \<Longrightarrow> distinct (add_new xs y)"
  by (auto simp: add_new_def)

lemma set_fold_add_new [simp]:
  "set (fold (\<lambda>y xs. add_new xs y) ys xs) = set xs \<union> set ys"
  by (induction ys arbitrary: xs) auto

lemma distinct_fold_add_new [simp]:
  "distinct xs \<Longrightarrow> distinct (fold (\<lambda>y xs. add_new xs y) ys xs)"
  by (induction ys arbitrary: xs) auto

lemma distinct_subset_length_eq:
  assumes "distinct xs" "distinct ys" "set xs \<subseteq> set ys" "length xs = length ys"
  shows "set xs = set ys"
  using assms by (metis card_subset_eq distinct_card finite_set)

text \<open>The first position of a list that satisfies a predicate.\<close>

fun find_index :: "('a \<Rightarrow> bool) \<Rightarrow> 'a list \<Rightarrow> nat option" where
  "find_index P [] = None"
| "find_index P (x # xs) = (if P x then Some 0 else map_option Suc (find_index P xs))"

lemma find_index_Some:
  "find_index P xs = Some i \<Longrightarrow> i < length xs \<and> P (xs ! i) \<and> (\<forall>j<i. \<not> P (xs ! j))"
proof (induction xs arbitrary: i)
  case (Cons x xs)
  then show ?case
    by (auto split: if_splits simp: less_Suc_eq_0_disj)
qed simp

lemma find_index_None: "find_index P xs = None \<longleftrightarrow> (\<forall>x\<in>set xs. \<not> P x)"
  by (induction xs) auto

end
