(* ===== verification/CList.thy ===== *)
theory CList
  imports Prelude "HOL-Library.While_Combinator"
begin

text \<open>
  The intrusive doubly linked list of \<open>SW/compiler/util.cpp\<close> (\<open>cList\<close>, \<open>cListItem\<close>).
  The instructions of the program, the identifiers of a block and the children of a syntax tree
  node are kept in such lists. The model keeps the pointer fields as they are and each operation
  updates them in the order of the code; the lemmas show that the operations refine the obvious
  ones on sequences, which the other theories use.
\<close>

section \<open>Pointer fields and operations\<close>

text \<open>Items and lists are addresses; \<open>None\<close> is the null pointer.\<close>

record cListHeap =
  m_parent :: "nat \<Rightarrow> nat option"
  m_next :: "nat \<Rightarrow> nat option"
  m_prev :: "nat \<Rightarrow> nat option"
  m_first :: "nat \<Rightarrow> nat option"
  m_last :: "nat \<Rightarrow> nat option"

definition cList_create :: "nat \<Rightarrow> cListHeap \<Rightarrow> cListHeap" where
  "cList_create l h = h\<lparr>m_first := (m_first h)(l := None), m_last := (m_last h)(l := None)\<rparr>"

definition cList_isEmpty :: "nat \<Rightarrow> cListHeap \<Rightarrow> bool" where
  "cList_isEmpty l h \<longleftrightarrow> m_first h l = None \<and> m_last h l = None"

definition set_next :: "nat option \<Rightarrow> nat option \<Rightarrow> cListHeap \<Rightarrow> cListHeap" where
  "set_next p v h = (case p of None \<Rightarrow> h | Some q \<Rightarrow> h\<lparr>m_next := (m_next h)(q := v)\<rparr>)"

definition set_prev :: "nat option \<Rightarrow> nat option \<Rightarrow> cListHeap \<Rightarrow> cListHeap" where
  "set_prev p v h = (case p of None \<Rightarrow> h | Some q \<Rightarrow> h\<lparr>m_prev := (m_prev h)(q := v)\<rparr>)"

definition cList_remove :: "nat \<Rightarrow> cListHeap \<Rightarrow> cListHeap" where
  "cList_remove item h =
     (case m_parent h item of None \<Rightarrow> h
      | Some l \<Rightarrow>
        let h1 = set_next (m_prev h item) (m_next h item) h;
            h2 = set_prev (m_next h1 item) (m_prev h1 item) h1;
            h3 = (if m_first h2 l = Some item then h2\<lparr>m_first := (m_first h2)(l := m_next h2 item)\<rparr> else h2);
            h4 = (if m_last h3 l = Some item then h3\<lparr>m_last := (m_last h3)(l := m_prev h3 item)\<rparr> else h3)
        in h4\<lparr>m_parent := (m_parent h4)(item := None), m_next := (m_next h4)(item := None),
               m_prev := (m_prev h4)(item := None)\<rparr>)"

definition cList_insert :: "nat \<Rightarrow> nat \<Rightarrow> nat option \<Rightarrow> cListHeap \<Rightarrow> cListHeap res" where
  "cList_insert l item beforeItem h0 =
     (let h = cList_remove item h0;
          h1 = h\<lparr>m_parent := (m_parent h)(item := Some l)\<rparr>
      in case beforeItem of
          Some b \<Rightarrow>
            if m_parent h1 b \<noteq> Some l then Inl AssertFail
            else
              let h2 = set_next (Some item) (m_next h1 b) h1;
                  h3 = set_next (Some b) (Some item) h2;
                  h4 = (if m_last h3 l = Some b then h3\<lparr>m_last := (m_last h3)(l := Some item)\<rparr> else h3);
                  h5 = set_prev (Some item) (Some b) h4
              in Inr (set_prev (m_next h5 item) (Some item) h5)
        | None \<Rightarrow>
              let h2 = set_next (Some item) (m_first h1 l) h1;
                  h3 = set_prev (Some item) None h2;
                  h4 = set_prev (m_first h3 l) (Some item) h3;
                  h5 = h4\<lparr>m_first := (m_first h4)(l := Some item)\<rparr>
              in Inr (if m_last h5 l = None then h5\<lparr>m_last := (m_last h5)(l := Some item)\<rparr> else h5))"

definition cList_append :: "nat \<Rightarrow> nat \<Rightarrow> cListHeap \<Rightarrow> cListHeap res" where
  "cList_append l item h = cList_insert l item (m_last h l) h"

text \<open>
  The loops over another list. Each round takes an item out of the source list, so the source
  list bounds the number of rounds; the bound \<open>fuel\<close> is proved to be enough below.
\<close>

text \<open>\<open>insert(cList *items,cListItem *beforeItem)\<close>: from the last item to the first.\<close>

fun cList_insert_all :: "nat \<Rightarrow> nat \<Rightarrow> nat \<Rightarrow> nat option \<Rightarrow> cListHeap \<Rightarrow> cListHeap res option" where
  "cList_insert_all 0 l items b h = None"
| "cList_insert_all (Suc fuel) l items b h =
     (case m_last h items of
        None \<Rightarrow> Some (Inr h)
      | Some item \<Rightarrow>
          (case cList_insert l item b (cList_remove item h) of
             Inl e \<Rightarrow> Some (Inl e)
           | Inr h' \<Rightarrow> cList_insert_all fuel l items b h'))"

text \<open>\<open>append(cList *items)\<close>: from the first item to the last.\<close>

fun cList_append_all :: "nat \<Rightarrow> nat \<Rightarrow> nat \<Rightarrow> cListHeap \<Rightarrow> cListHeap res option" where
  "cList_append_all 0 l items h = None"
| "cList_append_all (Suc fuel) l items h =
     (case m_first h items of
        None \<Rightarrow> Some (Inr h)
      | Some item \<Rightarrow>
          (case cList_append l item (cList_remove item h) of
             Inl e \<Rightarrow> Some (Inl e)
           | Inr h' \<Rightarrow> cList_append_all fuel l items h'))"

text \<open>\<open>insertList(cListItem *items,cListItem *beforeItem)\<close>: an item and all that follow it.\<close>

fun cList_insertList :: "nat \<Rightarrow> nat \<Rightarrow> nat option \<Rightarrow> nat option \<Rightarrow> cListHeap \<Rightarrow> cListHeap res option" where
  "cList_insertList 0 l item b h = None"
| "cList_insertList (Suc fuel) l item b h =
     (case item of
        None \<Rightarrow> Some (Inr h)
      | Some i \<Rightarrow>
          (case cList_insert l i b (cList_remove i h) of
             Inl e \<Rightarrow> Some (Inl e)
           | Inr h' \<Rightarrow> cList_insertList fuel l (m_next h i) (Some i) h'))"

section \<open>Sequences\<close>

fun list_next :: "'a list \<Rightarrow> 'a \<Rightarrow> 'a option" where
  "list_next [] x = None"
| "list_next [y] x = None"
| "list_next (y # z # ys) x = (if x = y then Some z else list_next (z # ys) x)"

definition list_prev :: "'a list \<Rightarrow> 'a \<Rightarrow> 'a option" where
  "list_prev xs x = list_next (rev xs) x"

fun list_insert_after :: "'a option \<Rightarrow> 'a list \<Rightarrow> 'a list \<Rightarrow> 'a list" where
  "list_insert_after None ys xs = ys @ xs"
| "list_insert_after (Some b) ys [] = []"
| "list_insert_after (Some b) ys (x # xs) =
     (if x = b then x # ys @ xs else x # list_insert_after (Some b) ys xs)"

definition hd_or :: "'a list \<Rightarrow> 'a option \<Rightarrow> 'a option" where
  "hd_or xs q = (case xs of [] \<Rightarrow> q | x # _ \<Rightarrow> Some x)"

definition last_or :: "'a option \<Rightarrow> 'a list \<Rightarrow> 'a option" where
  "last_or p xs = (if xs = [] then p else Some (last xs))"

lemma hd_or_simps [simp]: "hd_or [] q = q" "hd_or (x # xs) q = Some x"
  by (simp_all add: hd_or_def)

lemma hd_or_append [simp]: "hd_or (xs @ ys) q = hd_or xs (hd_or ys q)"
  by (cases xs) auto

lemma last_or_simps [simp]: "last_or p [] = p" "last_or p (x # xs) = last_or (Some x) xs"
  by (simp_all add: last_or_def)

lemma last_or_append [simp]: "last_or p (xs @ ys) = last_or (last_or p xs) ys"
  by (auto simp: last_or_def)

lemma last_or_in: "last_or p xs = Some b \<Longrightarrow> xs \<noteq> [] \<Longrightarrow> b \<in> set xs"
  by (auto simp: last_or_def)

lemma last_or_Some_eq_None [simp]: "last_or (Some x) xs = None \<longleftrightarrow> False"
  by (auto simp: last_or_def)

lemma last_or_None_iff [simp]: "last_or None xs = None \<longleftrightarrow> xs = []"
  by (auto simp: last_or_def)

lemma hd_or_None_iff [simp]: "hd_or xs None = None \<longleftrightarrow> xs = []"
  by (cases xs) auto

lemma hd_or_last_or_in:
  "hd_or ys (Some y) = Some x \<Longrightarrow> x = y \<or> x \<in> set ys"
  "last_or (Some y) ys = Some x \<Longrightarrow> x = y \<or> x \<in> set ys"
  by (auto simp: hd_or_def last_or_def split: list.splits if_splits)

lemma list_next_append:
  "distinct (xs @ x # ys) \<Longrightarrow> list_next (xs @ x # ys) x = hd_or ys None"
proof (induction xs)
  case Nil
  then show ?case by (cases ys) auto
next
  case (Cons a xs)
  then show ?case by (cases xs) auto
qed

lemma list_prev_append:
  "distinct (xs @ x # ys) \<Longrightarrow> list_prev (xs @ x # ys) x = last_or None xs"
  using list_next_append [of "rev ys" x "rev xs"]
  by (cases xs rule: rev_cases) (auto simp: list_prev_def)

lemma list_next_Some:
  "list_next xs x = Some y \<Longrightarrow> x \<in> set xs \<and> y \<in> set xs"
  by (induction xs x rule: list_next.induct) (auto split: if_splits)

lemma list_next_notin: "x \<notin> set xs \<Longrightarrow> list_next xs x = None"
  by (induction xs x rule: list_next.induct) auto

lemma list_insert_after_split:
  "b \<notin> set xs \<Longrightarrow> list_insert_after (Some b) ys (xs @ b # zs) = xs @ b # ys @ zs"
  by (induction xs) auto

section \<open>Representation of a sequence\<close>

fun chain :: "(nat \<Rightarrow> nat option) \<Rightarrow> (nat \<Rightarrow> nat option) \<Rightarrow> nat option \<Rightarrow> nat list \<Rightarrow> nat option \<Rightarrow> bool"
where
  "chain nx pv p [] q \<longleftrightarrow> True"
| "chain nx pv p (x # xs) q \<longleftrightarrow> pv x = p \<and> nx x = hd_or xs q \<and> chain nx pv (Some x) xs q"

lemma chain_append [simp]:
  "chain nx pv p (xs @ ys) q \<longleftrightarrow> chain nx pv p xs (hd_or ys q) \<and> chain nx pv (last_or p xs) ys q"
  by (induction xs arbitrary: p) auto

lemma chain_frame [simp]:
  "x \<notin> set xs \<Longrightarrow> chain (nx(x := v)) pv p xs q = chain nx pv p xs q"
  "x \<notin> set xs \<Longrightarrow> chain nx (pv(x := v)) p xs q = chain nx pv p xs q"
  by (induction xs arbitrary: p) auto

definition represents :: "cListHeap \<Rightarrow> nat \<Rightarrow> nat list \<Rightarrow> bool" where
  "represents h l xs \<longleftrightarrow>
     distinct xs \<and> (\<forall>x. m_parent h x = Some l \<longleftrightarrow> x \<in> set xs) \<and>
     m_first h l = hd_or xs None \<and> m_last h l = last_or None xs \<and>
     chain (m_next h) (m_prev h) None xs None"

definition free_item :: "cListHeap \<Rightarrow> nat \<Rightarrow> bool" where
  "free_item h x \<longleftrightarrow> m_parent h x = None \<and> m_next h x = None \<and> m_prev h x = None"

lemma representsD:
  assumes "represents h l xs"
  shows "distinct xs" "x \<in> set xs \<Longrightarrow> m_parent h x = Some l" "m_parent h x = Some l \<Longrightarrow> x \<in> set xs"
    "m_first h l = hd_or xs None" "m_last h l = last_or None xs"
    "chain (m_next h) (m_prev h) None xs None"
  using assms by (auto simp: represents_def)

lemma represents_next:
  assumes "represents h l xs" "x \<in> set xs"
  shows "m_next h x = list_next xs x" "m_prev h x = list_prev xs x"
proof -
  obtain as bs where xs: "xs = as @ x # bs" using assms(2) by (meson split_list)
  with assms(1) show "m_next h x = list_next xs x" "m_prev h x = list_prev xs x"
    by (auto simp: represents_def list_next_append list_prev_append)
qed

section \<open>The operations refine the operations on sequences\<close>

lemmas heap_defs = cList_remove_def cList_insert_def set_next_def set_prev_def Let_def

lemma last_or_snoc_cases:
  obtains "xs = []" | ys y where "xs = ys @ [y]"
  by (cases xs rule: rev_cases) auto

lemma remove_represents:
  assumes "represents h l (as @ x # bs)"
  shows "represents (cList_remove x h) l (as @ bs)"
proof -
  note R = representsD [OF assms]
  have p: "m_parent h x = Some l" using R(2) by simp
  have mp: "m_parent h y = Some l \<longleftrightarrow> y \<in> set (as @ x # bs)" for y
    using assms by (auto simp: represents_def)
  show ?thesis
    using R(1,4,5,6) mp
    by (cases as rule: rev_cases; cases bs)
      (auto simp: represents_def heap_defs p dest: hd_or_last_or_in)
qed

lemma remove_free:
  assumes "represents h l (as @ x # bs)"
  shows "free_item (cList_remove x h) x"
  using representsD(2) [OF assms, of x] by (auto simp: free_item_def heap_defs)

lemma remove_free_id:
  "free_item h x \<Longrightarrow> cList_remove x h = h"
  by (simp add: free_item_def cList_remove_def)

lemma remove_other:
  assumes "represents h l (as @ x # bs)" "represents h l' ys" "l' \<noteq> l"
  shows "represents (cList_remove x h) l' ys"
proof -
  note R = representsD [OF assms(1)] and R' = representsD [OF assms(2)]
  have p: "m_parent h x = Some l" using R(2) by simp
  have disj: "y \<notin> set ys" if "y \<in> set (as @ x # bs)" for y
    using R(2) [OF that] R'(2) [of y] assms(3) by auto
  have mp: "m_parent h y = Some l' \<longleftrightarrow> y \<in> set ys" for y
    using assms(2) by (auto simp: represents_def)
  show ?thesis
    using R(1,4,5,6) R'(1,4,5,6) mp disj assms(3)
    by (cases as rule: rev_cases; cases bs)
      (auto simp: represents_def heap_defs p dest: hd_or_last_or_in)
qed

lemma chain_cong:
  "(\<And>x. x \<in> set xs \<Longrightarrow> nx' x = nx x \<and> pv' x = pv x) \<Longrightarrow> chain nx' pv' p xs q = chain nx pv p xs q"
  by (induction xs arbitrary: p) auto

lemma represents_frame:
  assumes "represents h l ys"
    and "\<And>x. m_parent h' x = Some l \<longleftrightarrow> m_parent h x = Some l"
    and "m_first h' l = m_first h l" "m_last h' l = m_last h l"
    and "\<And>x. x \<in> set ys \<Longrightarrow> m_next h' x = m_next h x \<and> m_prev h' x = m_prev h x"
  shows "represents h' l ys"
  using assms chain_cong [of ys "m_next h'" "m_next h" "m_prev h'" "m_prev h" None None]
  by (simp add: represents_def)

lemma insert_after_represents:
  assumes "represents h l (as @ b # bs)" "free_item h x"
  shows "\<exists>h'. cList_insert l x (Some b) h = Inr h' \<and> represents h' l (as @ b # x # bs)"
proof -
  note R = representsD [OF assms(1)]
  have nx: "x \<notin> set (as @ b # bs)"
    using R(2) [of x] assms(2) by (auto simp: free_item_def)
  have mp: "m_parent h y = Some l \<longleftrightarrow> y \<in> set (as @ b # bs)" for y
    using assms(1) by (auto simp: represents_def)
  show ?thesis
    using R(1,4,5,6) mp nx assms(2)
    unfolding cList_insert_def remove_free_id [OF assms(2)]
    by (cases bs)
      (auto simp: represents_def set_next_def set_prev_def Let_def free_item_def last_or_def)
qed

lemma insert_front_represents:
  assumes "represents h l bs" "free_item h x"
  shows "\<exists>h'. cList_insert l x None h = Inr h' \<and> represents h' l (x # bs)"
proof -
  note R = representsD [OF assms(1)]
  have nx: "x \<notin> set bs"
    using R(2) [of x] assms(2) by (auto simp: free_item_def)
  have mp: "m_parent h y = Some l \<longleftrightarrow> y \<in> set bs" for y
    using assms(1) by (auto simp: represents_def)
  show ?thesis
    using R(1,4,5,6) mp nx assms(2)
    unfolding cList_insert_def remove_free_id [OF assms(2)]
    by (cases bs)
      (auto simp: represents_def set_next_def set_prev_def Let_def free_item_def last_or_def)
qed

lemma insert_other:
  assumes "represents h l xs" "represents h l' ys" "l' \<noteq> l" "free_item h x"
    and "cList_insert l x b h = Inr h'"
  shows "represents h' l' ys"
proof -
  note R = representsD [OF assms(1)] and R' = representsD [OF assms(2)]
  have mp: "m_parent h y = Some l' \<longleftrightarrow> y \<in> set ys" for y
    using assms(2) by (auto simp: represents_def)
  have nx: "x \<notin> set ys" using mp [of x] assms(4) by (auto simp: free_item_def)
  have disj: "y \<notin> set ys" if "m_parent h y = Some l" for y
    using that mp [of y] assms(3) by auto
  have nxt: "y \<notin> set ys" if "m_parent h z = Some l" "m_next h z = Some y" for y z
    using represents_next(1) [OF assms(1) R(3)] list_next_Some [of xs z y] R(2) disj that by metis
  have fst: "y \<notin> set ys" if "m_first h l = Some y" for y
    using that R(2,4) disj by (cases xs) auto
  have b: "m_parent h c = Some l" if "b = Some c" "c \<noteq> x" for c
    using assms(5) that unfolding cList_insert_def remove_free_id [OF assms(4)]
    by (auto simp: Let_def split: if_splits)
  show ?thesis
  proof (rule represents_frame [OF assms(2)])
    show "m_parent h' y = Some l' \<longleftrightarrow> m_parent h y = Some l'" for y
      using assms(3-5) unfolding cList_insert_def remove_free_id [OF assms(4)]
      by (auto simp: set_next_def set_prev_def Let_def free_item_def split: option.splits if_splits)
    show "m_first h' l' = m_first h l'" "m_last h' l' = m_last h l'"
      using assms(3-5) unfolding cList_insert_def remove_free_id [OF assms(4)]
      by (auto simp: set_next_def set_prev_def Let_def split: option.splits if_splits)
    fix y assume y: "y \<in> set ys"
    have ne: "y \<noteq> x" using y nx by auto
    have nb: "b \<noteq> Some y" using b [of y] disj [of y] y ne by auto
    have n1: "m_next h c \<noteq> Some y" if "b = Some c" "c \<noteq> x" for c
      using nxt [OF b [OF that], of y] y by auto
    have n2: "m_first h l \<noteq> Some y" using fst [of y] y by auto
    show "m_next h' y = m_next h y \<and> m_prev h' y = m_prev h y"
      using assms(5) ne nb n1 n2 unfolding cList_insert_def remove_free_id [OF assms(4)]
      by (cases b) (auto simp: set_next_def set_prev_def Let_def split: option.splits if_splits)
  qed
qed

lemma insert_represents:
  assumes "represents h l xs" "free_item h x" "b = None \<or> (\<exists>c\<in>set xs. b = Some c)"
  shows "\<exists>h'. cList_insert l x b h = Inr h' \<and> represents h' l (list_insert_after b [x] xs)"
proof (cases b)
  case None
  with insert_front_represents [OF assms(1,2)] show ?thesis by simp
next
  case (Some c)
  with assms(3) obtain as bs where xs: "xs = as @ c # bs" by (auto dest: split_list)
  with representsD(1) [OF assms(1)] have "c \<notin> set as" by auto
  with insert_after_represents [of h l as c bs x] assms(1,2) show ?thesis
    by (simp add: xs Some list_insert_after_split)
qed

lemma append_represents:
  assumes "represents h l xs" "free_item h x"
  shows "\<exists>h'. cList_append l x h = Inr h' \<and> represents h' l (xs @ [x])"
proof (cases xs rule: rev_cases)
  case Nil
  with insert_front_represents [OF assms] representsD(5) [OF assms(1)] show ?thesis
    by (simp add: cList_append_def)
next
  case (snoc ys y)
  with insert_after_represents [of h l ys y "[]" x] assms representsD(5) [OF assms(1)] show ?thesis
    by (simp add: cList_append_def)
qed

text \<open>Moving one item from one list to another.\<close>

lemma move_item:
  assumes "represents h l xs" "represents h k (as @ x # bs)" "l \<noteq> k"
    and "b = None \<or> (\<exists>c\<in>set xs. b = Some c)"
  shows "\<exists>h'. cList_insert l x b (cList_remove x h) = Inr h' \<and>
    represents h' l (list_insert_after b [x] xs) \<and> represents h' k (as @ bs)"
proof -
  let ?h = "cList_remove x h"
  have R: "represents ?h k (as @ bs)" by (rule remove_represents [OF assms(2)])
  have F: "free_item ?h x" by (rule remove_free [OF assms(2)])
  have L: "represents ?h l xs" by (rule remove_other [OF assms(2,1,3)])
  from insert_represents [OF L F assms(4)] obtain h' where
    h': "cList_insert l x b ?h = Inr h'" "represents h' l (list_insert_after b [x] xs)" by blast
  have "represents h' k (as @ bs)"
    by (rule insert_other [OF L R not_sym [OF assms(3)] F h'(1)])
  with h' show ?thesis by blast
qed

lemma list_insert_after_snoc:
  "b = None \<or> (\<exists>c\<in>set xs. b = Some c) \<Longrightarrow>
     list_insert_after b ys (list_insert_after b [x] xs) = list_insert_after b (ys @ [x]) xs"
proof (cases b)
  case (Some c)
  assume "b = None \<or> (\<exists>c\<in>set xs. b = Some c)"
  with Some have "c \<in> set xs" by simp
  then have "\<exists>as bs. xs = as @ c # bs \<and> c \<notin> set as" by (rule split_list_first)
  then show ?thesis by (auto simp: Some list_insert_after_split)
qed simp

lemma set_list_insert_after:
  "b = None \<or> (\<exists>c\<in>set xs. b = Some c) \<Longrightarrow> set (list_insert_after b ys xs) = set xs \<union> set ys"
proof (cases b)
  case (Some c)
  assume "b = None \<or> (\<exists>c\<in>set xs. b = Some c)"
  with Some have "c \<in> set xs" by simp
  then have "\<exists>as bs. xs = as @ c # bs \<and> c \<notin> set as" by (rule split_list_first)
  then show ?thesis by (auto simp: Some list_insert_after_split)
qed auto

lemma insert_all_represents:
  assumes "represents h l xs" "represents h k ys" "l \<noteq> k" "length ys < fuel"
    and "b = None \<or> (\<exists>c\<in>set xs. b = Some c)"
  shows "\<exists>h'. cList_insert_all fuel l k b h = Some (Inr h') \<and>
    represents h' l (list_insert_after b ys xs) \<and> represents h' k []"
  using assms
proof (induction fuel arbitrary: h xs ys)
  case (Suc fuel)
  show ?case
  proof (cases ys rule: rev_cases)
    case Nil
    with Suc.prems representsD(5) [OF Suc.prems(2)]
    show ?thesis by (cases b) (auto simp: list_insert_after_split dest!: split_list_first)
  next
    case (snoc zs y)
    obtain h1 where h1: "cList_insert l y b (cList_remove y h) = Inr h1"
        "represents h1 l (list_insert_after b [y] xs)" "represents h1 k zs"
      using move_item [of h l xs k zs y "[]" b] Suc.prems snoc by auto
    have b: "b = None \<or> (\<exists>c\<in>set (list_insert_after b [y] xs). b = Some c)"
      using Suc.prems(5) set_list_insert_after [OF Suc.prems(5), of "[y]"] by auto
    have len: "length zs < fuel" using Suc.prems(4) snoc by simp
    from Suc.IH [OF h1(2,3) Suc.prems(3) len b] obtain h' where
      "cList_insert_all fuel l k b h1 = Some (Inr h')"
      "represents h' l (list_insert_after b ys xs)" "represents h' k []"
      by (auto simp: list_insert_after_snoc [OF Suc.prems(5)] snoc)
    with h1(1) representsD(5) [OF Suc.prems(2)] snoc show ?thesis by auto
  qed
qed simp

text \<open>
  Appending a list to another one ends, leaves the source empty and the target holding both
  sequences in order, with consistent pointer fields.
\<close>

theorem append_all_represents:
  assumes "represents h l xs" "represents h k ys" "l \<noteq> k" "length ys < fuel"
  shows "\<exists>h'. cList_append_all fuel l k h = Some (Inr h') \<and>
    represents h' l (xs @ ys) \<and> represents h' k []"
  using assms
proof (induction fuel arbitrary: h xs ys)
  case (Suc fuel)
  show ?case
  proof (cases ys)
    case Nil
    with Suc.prems representsD(4) [OF Suc.prems(2)] show ?thesis by auto
  next
    case (Cons y zs)
    let ?h = "cList_remove y h"
    have L: "represents ?h l xs"
      using remove_other [of h k "[]" y zs l xs] Suc.prems Cons by simp
    have R: "represents ?h k zs" using remove_represents [of h k "[]" y zs] Suc.prems Cons by simp
    have F: "free_item ?h y" using remove_free [of h k "[]" y zs] Suc.prems Cons by simp
    from append_represents [OF L F] obtain h1 where
      h1: "cList_append l y ?h = Inr h1" "represents h1 l (xs @ [y])" by blast
    have "represents h1 k zs"
      by (rule insert_other [OF L R not_sym [OF Suc.prems(3)] F]) (use h1(1) in \<open>simp add: cList_append_def\<close>)
    from Suc.IH [OF h1(2) this Suc.prems(3)] Suc.prems(4) Cons
    obtain h' where "cList_append_all fuel l k h1 = Some (Inr h')"
      "represents h' l (xs @ ys)" "represents h' k []" by auto
    with h1(1) representsD(4) [OF Suc.prems(2)] Cons show ?thesis by auto
  qed
qed simp

lemma list_insert_after_chain:
  assumes "b = None \<or> (\<exists>c\<in>set xs. b = Some c)" "y \<notin> set xs"
  shows "list_insert_after (Some y) zs (list_insert_after b [y] xs) = list_insert_after b (y # zs) xs"
proof (cases b)
  case (Some c)
  with assms(1) have "c \<in> set xs" by simp
  then have "\<exists>as bs. xs = as @ c # bs \<and> c \<notin> set as" by (rule split_list_first)
  then obtain as bs where xs: "xs = as @ c # bs" "c \<notin> set as" by blast
  with assms(2) list_insert_after_split [of y "as @ [c]" zs bs] show ?thesis
    by (auto simp: Some list_insert_after_split)
qed simp

text \<open>
  \<open>insertList\<close> moves an item and everything that follows it out of its list, and keeps the order.
\<close>

text \<open>
  C22: \<open>insertList\<close> moves an item and everything behind it to another list: whatever list the
  tail is cut from, it ends, the target holds the tail in order right after \<open>beforeItem\<close> (at its
  front for a null pointer), the source keeps what was in front of the tail, and the pointer fields
  of both lists are consistent.
\<close>

theorem insertList_represents:
  assumes "represents h l xs" "represents h k (as @ ys)" "l \<noteq> k" "length ys < fuel"
    and "b = None \<or> (\<exists>c\<in>set xs. b = Some c)"
  shows "\<exists>h'. cList_insertList fuel l (hd_or ys None) b h = Some (Inr h') \<and>
    represents h' l (list_insert_after b ys xs) \<and> represents h' k as"
  using assms
proof (induction fuel arbitrary: h xs ys b)
  case (Suc fuel)
  show ?case
  proof (cases ys)
    case Nil
    with Suc.prems show ?thesis
      by (cases b) (auto simp: list_insert_after_split dest!: split_list_first)
  next
    case (Cons y zs)
    obtain h1 where h1: "cList_insert l y b (cList_remove y h) = Inr h1"
        "represents h1 l (list_insert_after b [y] xs)" "represents h1 k (as @ zs)"
      using move_item [of h l xs k as y zs b] Suc.prems Cons by auto
    have nx: "m_next h y = hd_or zs None"
      using represents_next(1) [OF Suc.prems(2), of y] representsD(1) [OF Suc.prems(2)]
      by (simp add: Cons list_next_append)
    have "y \<notin> set xs"
      using representsD(2) [OF Suc.prems(1), of y] representsD(2) [OF Suc.prems(2), of y]
        Suc.prems(3) Cons by auto
    note ch = list_insert_after_chain [OF Suc.prems(5) this]
    have b: "Some y = None \<or> (\<exists>c\<in>set (list_insert_after b [y] xs). Some y = Some c)"
      using set_list_insert_after [OF Suc.prems(5), of "[y]"] by auto
    have len: "length zs < fuel" using Suc.prems(4) Cons by simp
    from Suc.IH [OF h1(2,3) Suc.prems(3) len b] h1(1) nx show ?thesis
      by (auto simp: ch Cons)
  qed
qed simp

text \<open>The list 0 with the items 1 and 2, and the list 5 with the items 3 and 4.\<close>

definition sample_heap :: cListHeap where
  "sample_heap = \<lparr>m_parent = [1 \<mapsto> 0, 2 \<mapsto> 0, 3 \<mapsto> 5, 4 \<mapsto> 5], m_next = [1 \<mapsto> 2, 3 \<mapsto> 4],
     m_prev = [2 \<mapsto> 1, 4 \<mapsto> 3], m_first = [0 \<mapsto> 1, 5 \<mapsto> 3], m_last = [0 \<mapsto> 2, 5 \<mapsto> 4]\<rparr>"

lemma sample_heap_represents: "represents sample_heap 0 [1, 2]" "represents sample_heap 5 [3, 4]"
  by (auto simp: represents_def sample_heap_def)

theorem insertList_represents_witness:
  "\<exists>h. cList_insertList 2 0 (Some 4) (Some 1) sample_heap = Some (Inr h) \<and>
     represents h 0 [1, 4, 2] \<and> represents h 5 [3]"
proof -
  have "represents sample_heap 5 ([3] @ [4])" using sample_heap_represents(2) by simp
  from insertList_represents [OF sample_heap_represents(1) this, of 2 "Some 1"] show ?thesis by simp
qed

theorem append_all_represents_witness:
  "\<exists>h. cList_append_all 3 0 5 sample_heap = Some (Inr h) \<and> represents h 0 [1, 2, 3, 4] \<and> represents h 5 []"
  using append_all_represents [OF sample_heap_represents, of 3] by simp

end
