(* ===== verification/CFloat.thy ===== *)
theory CFloat
  imports Prelude
begin

text \<open>
  The C \<open>float\<close> (IEEE 754 binary32) as its 32-bit pattern, with the operations the compiler
  uses on constants: conversion from and to \<open>int\<close>, and comparison. Conversion from
  \<open>int\<close> rounds to nearest, ties to even. Conversion to \<open>int\<close> truncates and is undefined
  (\<open>None\<close>) for a NaN, an infinity or a value outside the range of \<open>int\<close>.
\<close>

type_synonym f32 = "32 word"

section \<open>Fields and values\<close>

definition f32_pack :: "bool \<Rightarrow> nat \<Rightarrow> nat \<Rightarrow> f32" where
  "f32_pack s e m = word_of_nat ((if s then 2147483648 else 0) + e * 8388608 + m)"

definition f32_sign :: "f32 \<Rightarrow> bool" where
  "f32_sign w \<longleftrightarrow> 2147483648 \<le> unat w"

definition f32_exp :: "f32 \<Rightarrow> nat" where
  "f32_exp w = unat w div 8388608 mod 256"

definition f32_man :: "f32 \<Rightarrow> nat" where
  "f32_man w = unat w mod 8388608"

definition f32_is_nan :: "f32 \<Rightarrow> bool" where
  "f32_is_nan w \<longleftrightarrow> f32_exp w = 255 \<and> f32_man w \<noteq> 0"

definition f32_is_finite :: "f32 \<Rightarrow> bool" where
  "f32_is_finite w \<longleftrightarrow> f32_exp w \<noteq> 255"

text \<open>A finite float is \<open>f32_sig w * 2 ^ f32_scale w\<close>, with its sign.\<close>

definition f32_sig :: "f32 \<Rightarrow> nat" where
  "f32_sig w = (if f32_exp w = 0 then f32_man w else f32_man w + 8388608)"

definition f32_scale :: "f32 \<Rightarrow> int" where
  "f32_scale w = (if f32_exp w = 0 then - 149 else int (f32_exp w) - 150)"

text \<open>The position of a non-NaN float on the number line; both zeros are at 0.\<close>

definition f32_key :: "f32 \<Rightarrow> int" where
  "f32_key w = (if f32_sign w then - int (unat w - 2147483648) else int (unat w))"

definition f32_eq :: "f32 \<Rightarrow> f32 \<Rightarrow> bool" where
  "f32_eq a b \<longleftrightarrow> \<not> f32_is_nan a \<and> \<not> f32_is_nan b \<and> f32_key a = f32_key b"

definition f32_lt :: "f32 \<Rightarrow> f32 \<Rightarrow> bool" where
  "f32_lt a b \<longleftrightarrow> \<not> f32_is_nan a \<and> \<not> f32_is_nan b \<and> f32_key a < f32_key b"

definition f32_le :: "f32 \<Rightarrow> f32 \<Rightarrow> bool" where
  "f32_le a b \<longleftrightarrow> \<not> f32_is_nan a \<and> \<not> f32_is_nan b \<and> f32_key a \<le> f32_key b"

section \<open>Rounding\<close>

fun bitlen :: "nat \<Rightarrow> nat" where
  "bitlen n = (if n = 0 then 0 else Suc (bitlen (n div 2)))"

declare bitlen.simps [simp del]

definition round_shift :: "nat \<Rightarrow> nat \<Rightarrow> nat" where
  "round_shift n k =
     (if k = 0 then n
      else let q = n div 2 ^ k; r = n mod 2 ^ k; half = 2 ^ (k - 1)
           in if r > half \<or> (r = half \<and> odd q) then q + 1 else q)"

definition f32_round :: "bool \<Rightarrow> nat \<Rightarrow> int \<Rightarrow> f32" where
  "f32_round s n e =
     (if n = 0 then f32_pack s 0 0
      else
        let e1 = max (e + int (bitlen n) - 24) (- 149);
            m = (if e1 \<le> e then n * 2 ^ nat (e - e1) else round_shift n (nat (e1 - e)));
            (m1, e2) = (if m = 16777216 then (8388608, e1 + 1) else (m, e1))
        in if m1 < 8388608 then f32_pack s 0 m1
           else if e2 + 150 \<ge> 255 then f32_pack s 255 0
           else f32_pack s (nat (e2 + 150)) (m1 - 8388608))"

definition f32_of_int :: "int \<Rightarrow> f32" where
  "f32_of_int i = f32_round (i < 0) (nat \<bar>i\<bar>) 0"

definition f32_to_int :: "f32 \<Rightarrow> int option" where
  "f32_to_int w =
     (if \<not> f32_is_finite w then None
      else let a = (if f32_scale w \<ge> 0 then f32_sig w * 2 ^ nat (f32_scale w)
                    else f32_sig w div 2 ^ nat (- f32_scale w))
           in c_checked (if f32_sign w then - int a else int a))"

text \<open>
  \<open>+\<close>, \<open>-\<close> and \<open>*\<close>. The exact value of the result is rounded once. A NaN result is the
  quiet NaN of the processor, whatever the operands carry.
\<close>

definition f32_qnan :: f32 where
  "f32_qnan = 0x7FC00000"

definition f32_is_inf :: "f32 \<Rightarrow> bool" where
  "f32_is_inf w \<longleftrightarrow> f32_exp w = 255 \<and> f32_man w = 0"

definition f32_neg :: "f32 \<Rightarrow> f32" where
  "f32_neg w = w XOR 0x80000000"

definition f32_signed_sig :: "f32 \<Rightarrow> int \<Rightarrow> int" where
  "f32_signed_sig w e =
     (if f32_sign w then -1 else 1) * int (f32_sig w) * 2 ^ nat (f32_scale w - e)"

definition f32_add :: "f32 \<Rightarrow> f32 \<Rightarrow> f32" where
  "f32_add a b =
     (if f32_is_nan a \<or> f32_is_nan b then f32_qnan
      else if f32_is_inf a then (if f32_is_inf b \<and> f32_sign a \<noteq> f32_sign b then f32_qnan else a)
      else if f32_is_inf b then b
      else
        let e = min (f32_scale a) (f32_scale b); v = f32_signed_sig a e + f32_signed_sig b e
        in if v = 0 then f32_pack (f32_sign a \<and> f32_sign b) 0 0
           else f32_round (v < 0) (nat \<bar>v\<bar>) e)"

definition f32_sub :: "f32 \<Rightarrow> f32 \<Rightarrow> f32" where
  "f32_sub a b = (if f32_is_nan a \<or> f32_is_nan b then f32_qnan else f32_add a (f32_neg b))"

definition f32_mul :: "f32 \<Rightarrow> f32 \<Rightarrow> f32" where
  "f32_mul a b =
     (let s = (f32_sign a \<noteq> f32_sign b) in
      if f32_is_nan a \<or> f32_is_nan b then f32_qnan
      else if f32_is_inf a \<or> f32_is_inf b then
        (if f32_key a = 0 \<or> f32_key b = 0 then f32_qnan else f32_pack s 255 0)
      else f32_round s (f32_sig a * f32_sig b) (f32_scale a + f32_scale b))"

section \<open>Lemmas\<close>

lemma bitlen_bounds: "n > 0 \<Longrightarrow> 2 ^ (bitlen n - 1) \<le> n \<and> n < 2 ^ bitlen n \<and> bitlen n > 0"
proof (induction n rule: bitlen.induct)
  case (1 n)
  show ?case
  proof (cases "n div 2 = 0")
    case True
    with 1 have "n = 1" by auto
    then show ?thesis by (simp add: bitlen.simps)
  next
    case False
    with 1 have ih: "2 ^ (bitlen (n div 2) - 1) \<le> n div 2" "n div 2 < 2 ^ bitlen (n div 2)"
      "bitlen (n div 2) > 0" by auto
    have b: "bitlen n = Suc (bitlen (n div 2))" using 1 by (simp add: bitlen.simps [of n])
    obtain k where k: "bitlen (n div 2) = Suc k" using ih(3) by (cases "bitlen (n div 2)") auto
    have "n < 2 * 2 ^ bitlen (n div 2)" using ih(2) by linarith
    moreover have "2 * 2 ^ k \<le> n" using ih(1) k by auto
    ultimately show ?thesis using b k by simp
  qed
qed

lemma bitlen_le: "0 < n \<Longrightarrow> n < 2 ^ k \<Longrightarrow> bitlen n \<le> k"
  using bitlen_bounds [of n]
  by (metis One_nat_def Suc_pred less_Suc_eq_le linorder_not_less nat_power_less_imp_less
      numeral_2_eq_2 order_le_less_trans zero_less_Suc Suc_leI)

lemma unat_word_of_nat: "n < 4294967296 \<Longrightarrow> unat (word_of_nat n :: f32) = n"
  by (simp add: unsigned_of_nat take_bit_nat_eq_self)

lemma f32_pack_fields:
  assumes "e < 256" "m < 8388608"
  shows "unat (f32_pack s e m) = (if s then 2147483648 else 0) + e * 8388608 + m"
    and "f32_sign (f32_pack s e m) = s"
    and "f32_exp (f32_pack s e m) = e"
    and "f32_man (f32_pack s e m) = m"
proof -
  have "e * 8388608 + m < 2147483648" using assms by auto
  then have u: "unat (f32_pack s e m) = (if s then 2147483648 else 0) + e * 8388608 + m"
    unfolding f32_pack_def by (intro unat_word_of_nat) auto
  then show "unat (f32_pack s e m) = (if s then 2147483648 else 0) + e * 8388608 + m" .
  show "f32_sign (f32_pack s e m) = s"
    using \<open>e * 8388608 + m < 2147483648\<close> by (simp add: f32_sign_def u)
  have q: "unat (f32_pack s e m) = ((if s then 256 else 0) + e) * 8388608 + m"
    by (simp add: u)
  have "unat (f32_pack s e m) div 8388608 = (if s then 256 else 0) + e"
    unfolding q using assms(2) by simp
  then show "f32_exp (f32_pack s e m) = e"
    using assms(1) by (simp add: f32_exp_def)
  show "f32_man (f32_pack s e m) = m"
    unfolding f32_man_def q mod_mult_self3 using assms(2) by simp
qed

text \<open>Integers of at most 24 bits are represented exactly.\<close>

lemma f32_of_small_int:
  assumes "\<bar>i\<bar> < 16777216" "i \<noteq> 0"
  defines "n \<equiv> nat \<bar>i\<bar>" and "k \<equiv> bitlen (nat \<bar>i\<bar>)"
  shows "f32_of_int i = f32_pack (i < 0) (k + 126) (n * 2 ^ (24 - k) - 8388608)"
    and "8388608 \<le> n * 2 ^ (24 - k)" and "n * 2 ^ (24 - k) < 16777216" and "k \<le> 24" and "0 < k"
proof -
  have n: "0 < n" "n < 2 ^ 24" using assms by (auto simp: n_def)
  have k: "k \<le> 24" "0 < k" "2 ^ (k - 1) \<le> n" "n < 2 ^ k"
    using bitlen_bounds [of n] bitlen_le [OF n] n unfolding k_def n_def by auto
  have "(8388608::nat) = 2 ^ (k - 1) * 2 ^ (24 - k)"
    using k by (simp flip: power_add)
  also have "\<dots> \<le> n * 2 ^ (24 - k)" using k(3) by (rule mult_le_mono1)
  finally show lo: "8388608 \<le> n * 2 ^ (24 - k)" .
  have "n * 2 ^ (24 - k) < 2 ^ k * 2 ^ (24 - k)" using k(4) by simp
  moreover have "(2::nat) ^ k * 2 ^ (24 - k) = 2 ^ 24"
    using k by (simp flip: power_add)
  ultimately show hi: "n * 2 ^ (24 - k) < 16777216" by simp
  show "k \<le> 24" "0 < k" by (fact k)+
  have e1: "max (0 + int (bitlen n) - 24) (- 149) = int k - 24" "nat (0 - (int k - 24)) = 24 - k"
    using k(1,2) by (simp add: k_def n_def, linarith)
  have r: "nat (int k - 24 + 150) = k + 126" by simp
  show "f32_of_int i = f32_pack (i < 0) (k + 126) (n * 2 ^ (24 - k) - 8388608)"
    unfolding f32_of_int_def f32_round_def n_def [symmetric] e1 Let_def
    using n lo hi k r by simp
qed

lemma f32_of_int_0: "f32_of_int 0 = f32_pack False 0 0"
  by (simp add: f32_of_int_def f32_round_def)

lemma f32_to_of_int:
  assumes "\<bar>i\<bar> < 16777216"
  shows "f32_to_int (f32_of_int i) = Some i" and "f32_is_finite (f32_of_int i)"
proof -
  have "f32_to_int (f32_of_int i) = Some i \<and> f32_is_finite (f32_of_int i)"
  proof (cases "i = 0")
    case True
    have "f32_to_int (f32_pack False 0 0) = Some 0 \<and> f32_is_finite (f32_pack False 0 0)"
      by (simp add: f32_to_int_def f32_is_finite_def f32_pack_fields f32_scale_def f32_sig_def
          c_checked_def in_int32_def)
    with True show ?thesis by (simp add: f32_of_int_0)
  next
    case False
    define n where "n = nat \<bar>i\<bar>"
    define k where "k = bitlen (nat \<bar>i\<bar>)"
    note p = f32_of_small_int [OF assms False, folded n_def k_def]
    let ?w = "f32_pack (i < 0) (k + 126) (n * 2 ^ (24 - k) - 8388608)"
    have b: "k + 126 < 256" "n * 2 ^ (24 - k) - 8388608 < 8388608" using p by auto
    note fl = f32_pack_fields [OF b, of "i < 0"]
    have sig: "f32_sig ?w = n * 2 ^ (24 - k)" using fl p by (simp add: f32_sig_def)
    have sc: "f32_scale ?w = int k - 24" using fl by (simp add: f32_scale_def)
    have val: "(if f32_scale ?w \<ge> 0 then f32_sig ?w * 2 ^ nat (f32_scale ?w)
           else f32_sig ?w div 2 ^ nat (- f32_scale ?w)) = n"
    proof (cases "k = 24")
      case False
      with p(4) have "nat (24 - int k) = 24 - k" "\<not> 0 \<le> int k - 24" by linarith+
      then show ?thesis unfolding sig sc by simp
    next
      case True
      then have "int k - 24 = 0" "24 - k = 0" by simp_all
      then show ?thesis unfolding sig sc by simp
    qed
    have fin: "f32_is_finite ?w" unfolding f32_is_finite_def fl(3) using p(4) by simp
    have "f32_to_int ?w = c_checked (if i < 0 then - int n else int n)"
      unfolding f32_to_int_def Let_def val fl(2) using fin by simp
    also have "(if i < 0 then - int n else int n) = i" by (simp add: n_def)
    also have "c_checked i = Some i"
      unfolding c_checked_Some_iff in_int32_def using assms by linarith
    finally have "f32_to_int ?w = Some i" .
    with fin show ?thesis unfolding p(1) by simp
  qed
  then show "f32_to_int (f32_of_int i) = Some i" "f32_is_finite (f32_of_int i)" by auto
qed

lemma f32_finite_not_nan: "f32_is_finite w \<Longrightarrow> \<not> f32_is_nan w"
  by (simp add: f32_is_finite_def f32_is_nan_def)

lemma f32_eq_refl: "f32_eq w w \<longleftrightarrow> \<not> f32_is_nan w"
  by (auto simp: f32_eq_def)

lemma f32_eq_sym: "f32_eq a b \<Longrightarrow> f32_eq b a"
  by (auto simp: f32_eq_def)

lemma f32_eq_trans: "f32_eq a b \<Longrightarrow> f32_eq b c \<Longrightarrow> f32_eq a c"
  by (auto simp: f32_eq_def)

end
