(* ===== verification/ConstTab.thy ===== *)
theory ConstTab
  imports CFloat
begin

text \<open>
  The table of constants of the integer core: \<open>SW/compiler/const.cpp\<close>. \<open>M_space\<close> is the list
  of the constants in the order they were added. Constants are found by the \<open>==\<close> of
  \<open>float\<close>, so a NaN is never found and the two zeros are one constant.
\<close>

definition const_Size :: "f32 list \<Rightarrow> nat" where
  "const_Size M_space = length M_space"

definition const_Find :: "f32 list \<Rightarrow> f32 \<Rightarrow> int" where
  "const_Find M_space c =
     (case find_index (\<lambda>x. f32_eq x c) M_space of Some i \<Rightarrow> int i | None \<Rightarrow> -1)"

text \<open>\<open>Add\<close> returns the index of the constant and the table.\<close>

definition const_Add :: "f32 list \<Rightarrow> f32 \<Rightarrow> int \<times> f32 list" where
  "const_Add M_space c =
     (let index = const_Find M_space c
      in if index \<ge> 0 then (index, M_space) else (int (length M_space), M_space @ [c]))"

text \<open>
  \<open>Gen\<close> writes each constant as a 16-bit word: \<open>(uint16_t)(unsigned int)((int)val)\<close>.
  A constant outside the range of \<open>int\<close> is undefined.
\<close>

fun const_Gen :: "f32 list \<Rightarrow> (16 word) list res" where
  "const_Gen [] = Inr []"
| "const_Gen (v # vs) =
     (case f32_to_int v of
        None \<Rightarrow> Inl Undefined
      | Some i \<Rightarrow> res_bind (const_Gen vs) (\<lambda>img. Inr (word_of_int i # img)))"

section \<open>Lemmas\<close>

definition const_inv :: "f32 list \<Rightarrow> bool" where
  "const_inv M_space \<longleftrightarrow>
     (\<forall>i j. i < j \<longrightarrow> j < length M_space \<longrightarrow> \<not> f32_eq (M_space ! i) (M_space ! j))"

lemma const_Find_nonneg:
  assumes "const_Find S c \<ge> 0"
  shows "nat (const_Find S c) < length S" "f32_eq (S ! nat (const_Find S c)) c"
  using assms
  by (auto simp: const_Find_def split: option.splits dest: find_index_Some)

lemma const_Find_neg: "const_Find S c < 0 \<longleftrightarrow> (\<forall>x\<in>set S. \<not> f32_eq x c)"
  by (auto simp: const_Find_def find_index_None split: option.splits)
    (metis find_index_None option.distinct(1))

lemma find_index_append:
  "find_index P xs = Some i \<Longrightarrow> find_index P (xs @ ys) = Some i"
  by (induction xs arbitrary: i) (auto split: if_splits)

lemma find_index_append_new:
  "find_index P xs = None \<Longrightarrow> P y \<Longrightarrow> find_index P (xs @ [y]) = Some (length xs)"
  by (induction xs) (auto split: if_splits)

text \<open>Adding keeps the constants distinct and never moves a constant that has an index.\<close>

lemma const_Add_inv: "const_inv S \<Longrightarrow> const_inv (snd (const_Add S c))"
proof -
  assume inv: "const_inv S"
  show ?thesis
  proof (cases "const_Find S c \<ge> 0")
    case False
    then have "\<forall>x\<in>set S. \<not> f32_eq x c" using const_Find_neg by (metis not_le)
    with inv False show ?thesis
      by (auto simp: const_Add_def const_inv_def nth_append less_Suc_eq)
  qed (use inv in \<open>simp add: const_Add_def\<close>)
qed

lemma const_Find_Add_keep:
  assumes "const_Find S d \<ge> 0"
  shows "const_Find (snd (const_Add S c)) d = const_Find S d"
proof -
  obtain i where "find_index (\<lambda>x. f32_eq x d) S = Some i"
    using assms by (auto simp: const_Find_def split: option.splits)
  then show ?thesis
    by (auto simp: const_Add_def const_Find_def Let_def find_index_append split: option.splits)
qed

lemma const_Find_Add:
  assumes "\<not> f32_is_nan c"
  shows "const_Find (snd (const_Add S c)) c = fst (const_Add S c)"
proof (cases "const_Find S c \<ge> 0")
  case False
  then have "find_index (\<lambda>x. f32_eq x c) S = None"
    by (auto simp: const_Find_def split: option.splits)
  with assms show ?thesis
    using False by (simp add: const_Add_def const_Find_def find_index_append_new f32_eq_refl)
qed (simp add: const_Add_def)

lemma const_Gen_length: "const_Gen S = Inr img \<Longrightarrow> length img = length S"
  by (induction S arbitrary: img) (auto simp: res_bind_eq_Inr_iff split: option.splits)

lemma const_Gen_nth:
  "const_Gen S = Inr img \<Longrightarrow> i < length S \<Longrightarrow>
     \<exists>v. f32_to_int (S ! i) = Some v \<and> img ! i = word_of_int v"
proof (induction S arbitrary: img i)
  case (Cons s S)
  then obtain v img' where v: "f32_to_int s = Some v" "const_Gen S = Inr img'"
    "img = word_of_int v # img'"
    by (auto simp: res_bind_eq_Inr_iff split: option.splits)
  with Cons show ?case by (cases i) auto
qed simp

end
