(* ===== verification/Config.thy ===== *)
theory Config
  imports Prelude "HOL-Library.Char_ord"
begin

text \<open>
  The instruction set tables of the compiler: \<open>SW/compiler/config.h\<close> and
  \<open>SW/compiler/config.cpp\<close>, and the machine constants of \<open>SW/base/zta.h\<close> that the
  compiler depends on. Opcodes are the \<open>int\<close> values the C++ code stores; \<open>-1\<close> in an
  instruction slot means that the slot is empty.
\<close>

section \<open>Machine constants\<close>

abbreviation (input) VECTOR_DEPTH :: int where "VECTOR_DEPTH \<equiv> 3"
abbreviation (input) VECTOR_WIDTH :: int where "VECTOR_WIDTH \<equiv> 8"
abbreviation (input) REGISTER_FILE_DEPTH :: nat where "REGISTER_FILE_DEPTH \<equiv> 12"
abbreviation (input) REGISTER_ACTUAL_FILE_DEPTH :: nat where "REGISTER_ACTUAL_FILE_DEPTH \<equiv> 11"
abbreviation (input) LOCAL_ADDR_DEPTH :: nat where "LOCAL_ADDR_DEPTH \<equiv> 12"
abbreviation (input) IREGISTER_WIDTH :: nat where "IREGISTER_WIDTH \<equiv> 13"
abbreviation (input) MAX_INT_SIZE :: int where "MAX_INT_SIZE \<equiv> 4"
abbreviation (input) MAX_POINTER_SIZE :: int where "MAX_POINTER_SIZE \<equiv> 4"
abbreviation (input) MAX_PRIVATE_SIZE :: int where "MAX_PRIVATE_SIZE \<equiv> 256"
abbreviation (input) MAX_EXREG_SIZE :: int where "MAX_EXREG_SIZE \<equiv> 64"
abbreviation (input) MAX_IREGISTER_AUTO_SIZE :: nat where "MAX_IREGISTER_AUTO_SIZE \<equiv> 2"
abbreviation (input) DATAMODEL_WIDTH :: nat where "DATAMODEL_WIDTH \<equiv> 2"
abbreviation (input) NUM_THREAD_PER_CORE :: int where "NUM_THREAD_PER_CORE \<equiv> 16"
abbreviation (input) MAX_VAR_DIM :: nat where "MAX_VAR_DIM \<equiv> 3"

text \<open>Attribute fields of a vector operand (\<open>INSTRUCTION_ATTR_*\<close>).\<close>

abbreviation (input) INSTRUCTION_ATTR_POINTER :: int where "INSTRUCTION_ATTR_POINTER \<equiv> 11"
abbreviation (input) INSTRUCTION_ATTR_POINTER_N_INDEX :: int where "INSTRUCTION_ATTR_POINTER_N_INDEX \<equiv> 12"
abbreviation (input) INSTRUCTION_ATTR_CONST :: int where "INSTRUCTION_ATTR_CONST \<equiv> 10"
abbreviation (input) INSTRUCTION_ATTR_SHARE :: int where "INSTRUCTION_ATTR_SHARE \<equiv> 8"
abbreviation (input) INSTRUCTION_ATTR_SHARE_N_INDEX :: int where "INSTRUCTION_ATTR_SHARE_N_INDEX \<equiv> 0"
abbreviation (input) INSTRUCTION_ATTR_PRIVATE :: int where "INSTRUCTION_ATTR_PRIVATE \<equiv> 9"
abbreviation (input) INSTRUCTION_ATTR_PRIVATE_N_INDEX :: int where "INSTRUCTION_ATTR_PRIVATE_N_INDEX \<equiv> 4"

text \<open>Offset values of a constant operand (\<open>eOpcodeConstantType\<close>).\<close>

definition ATTR_CONST_P0 :: int where "ATTR_CONST_P0 = 16"
definition ATTR_CONST_NULL :: int where "ATTR_CONST_NULL = 32"
definition ATTR_CONST_RESULT :: int where "ATTR_CONST_RESULT = 64"
definition ATTR_CONST_TID :: int where "ATTR_CONST_TID = 128"

text \<open>Attributes of a scalar operand (\<open>eIOpcodeParameterAttribute\<close>).\<close>

abbreviation (input) IATTR_I0 :: int where "IATTR_I0 \<equiv> 0"
abbreviation (input) IATTR_P0 :: int where "IATTR_P0 \<equiv> 4"
abbreviation (input) IATTR_LANE :: int where "IATTR_LANE \<equiv> 8"
abbreviation (input) IATTR_ZERO :: int where "IATTR_ZERO \<equiv> 10"
abbreviation (input) IATTR_CONST :: int where "IATTR_CONST \<equiv> 11"
abbreviation (input) IATTR_TID :: int where "IATTR_TID \<equiv> 12"
abbreviation (input) IATTR_PID :: int where "IATTR_PID \<equiv> 13"
abbreviation (input) IATTR_RESULT1 :: int where "IATTR_RESULT1 \<equiv> 14"
abbreviation (input) IATTR_STACK :: int where "IATTR_STACK \<equiv> 15"

section \<open>Opcodes\<close>

abbreviation (input) OPCODE_NULL :: int where "OPCODE_NULL \<equiv> 0"
abbreviation (input) OPCODE_ASSIGN :: int where "OPCODE_ASSIGN \<equiv> 1"
abbreviation (input) OPCODE_ASSIGN_RAW :: int where "OPCODE_ASSIGN_RAW \<equiv> 2"
abbreviation (input) OPCODE_ADD :: int where "OPCODE_ADD \<equiv> 3"
abbreviation (input) OPCODE_SUB :: int where "OPCODE_SUB \<equiv> 4"
abbreviation (input) OPCODE_CONV :: int where "OPCODE_CONV \<equiv> 5"
abbreviation (input) OPCODE_CMP_LT :: int where "OPCODE_CMP_LT \<equiv> 6"
abbreviation (input) OPCODE_CMP_LE :: int where "OPCODE_CMP_LE \<equiv> 7"
abbreviation (input) OPCODE_CMP_GT :: int where "OPCODE_CMP_GT \<equiv> 8"
abbreviation (input) OPCODE_CMP_GE :: int where "OPCODE_CMP_GE \<equiv> 9"
abbreviation (input) OPCODE_CMP_EQ :: int where "OPCODE_CMP_EQ \<equiv> 10"
abbreviation (input) OPCODE_CMP_NE :: int where "OPCODE_CMP_NE \<equiv> 11"
abbreviation (input) OPCODE_MUL :: int where "OPCODE_MUL \<equiv> 12"
abbreviation (input) OPCODE_LSB4 :: int where "OPCODE_LSB4 \<equiv> 15"
abbreviation (input) OPCODE_MSB4 :: int where "OPCODE_MSB4 \<equiv> 16"
abbreviation (input) OPCODE_CONV_BFLOAT :: int where "OPCODE_CONV_BFLOAT \<equiv> 17"
abbreviation (input) OPCODE_SET_FLOAT :: int where "OPCODE_SET_FLOAT \<equiv> 18"
abbreviation (input) OPCODE_SHL :: int where "OPCODE_SHL \<equiv> 19"
abbreviation (input) OPCODE_SHLA :: int where "OPCODE_SHLA \<equiv> 20"
abbreviation (input) OPCODE_SHR :: int where "OPCODE_SHR \<equiv> 21"
abbreviation (input) OPCODE_SHRA :: int where "OPCODE_SHRA \<equiv> 22"
abbreviation (input) OPCODE_FMS :: int where "OPCODE_FMS \<equiv> 24"
abbreviation (input) OPCODE_FMA :: int where "OPCODE_FMA \<equiv> 25"
abbreviation (input) OPCODE_FNMS :: int where "OPCODE_FNMS \<equiv> 26"
abbreviation (input) OPCODE_FNMA :: int where "OPCODE_FNMA \<equiv> 27"
abbreviation (input) OPCODE_FMS2 :: int where "OPCODE_FMS2 \<equiv> 28"
abbreviation (input) OPCODE_FMA2 :: int where "OPCODE_FMA2 \<equiv> 29"
abbreviation (input) OPCODE_FNMS2 :: int where "OPCODE_FNMS2 \<equiv> 30"
abbreviation (input) OPCODE_FNMA2 :: int where "OPCODE_FNMA2 \<equiv> 31"

abbreviation (input) IOPCODE_ADD :: int where "IOPCODE_ADD \<equiv> 1"
abbreviation (input) IOPCODE_SUB :: int where "IOPCODE_SUB \<equiv> 2"
abbreviation (input) IOPCODE_MUL :: int where "IOPCODE_MUL \<equiv> 3"
abbreviation (input) IOPCODE_SHL :: int where "IOPCODE_SHL \<equiv> 4"
abbreviation (input) IOPCODE_SHR :: int where "IOPCODE_SHR \<equiv> 5"
abbreviation (input) IOPCODE_OR :: int where "IOPCODE_OR \<equiv> 6"
abbreviation (input) IOPCODE_AND :: int where "IOPCODE_AND \<equiv> 7"
abbreviation (input) IOPCODE_XOR :: int where "IOPCODE_XOR \<equiv> 8"
abbreviation (input) IOPCODE_LSHR :: int where "IOPCODE_LSHR \<equiv> 9"

abbreviation (input) OPCODE_RETURN :: int where "OPCODE_RETURN \<equiv> 1"
abbreviation (input) OPCODE_JUMP_LT :: int where "OPCODE_JUMP_LT \<equiv> 2"
abbreviation (input) OPCODE_JUMP_LE :: int where "OPCODE_JUMP_LE \<equiv> 3"
abbreviation (input) OPCODE_JUMP_GT :: int where "OPCODE_JUMP_GT \<equiv> 4"
abbreviation (input) OPCODE_JUMP_GE :: int where "OPCODE_JUMP_GE \<equiv> 5"
abbreviation (input) OPCODE_JUMP_EQ :: int where "OPCODE_JUMP_EQ \<equiv> 6"
abbreviation (input) OPCODE_JUMP_NE :: int where "OPCODE_JUMP_NE \<equiv> 7"
abbreviation (input) OPCODE_JUMP :: int where "OPCODE_JUMP \<equiv> 8"
abbreviation (input) OPCODE_FUNC :: int where "OPCODE_FUNC \<equiv> 9"

datatype eMuOpcodeDefAlu =
  eMuOpcodeDefAlu1 | eMuOpcodeDefAlu2 | eMuOpcodeDefAluBoth | eMuOpcodeDefAluInvalid

datatype eMuOpcodeDefDataType =
  eMuOpcodeDefDataTypeFloat | eMuOpcodeDefDataTypeInt | eMuOpcodeDefDataTypeRaw
| eMuOpcodeDefDataTypeNull | eMuOpcodeDefDataTypeInvalid

record sMuOpcodeDef =
  od_oc :: int
  od_name :: "string option"
  od_alu :: eMuOpcodeDefAlu
  od_y_type :: eMuOpcodeDefDataType
  od_y_vector :: bool
  od_x1_type :: eMuOpcodeDefDataType
  od_x1_vector :: bool
  od_x2_type :: eMuOpcodeDefDataType
  od_x2_vector :: bool
  od_latency :: int
  od_tap :: int
  od_x_latches :: int
  od_group :: int

definition mu_def ::
  "int \<Rightarrow> string option \<Rightarrow> eMuOpcodeDefAlu \<Rightarrow> eMuOpcodeDefDataType \<Rightarrow> bool \<Rightarrow>
   eMuOpcodeDefDataType \<Rightarrow> bool \<Rightarrow> eMuOpcodeDefDataType \<Rightarrow> bool \<Rightarrow> int \<Rightarrow> int \<Rightarrow> int \<Rightarrow> int \<Rightarrow> sMuOpcodeDef"
where
  "mu_def oc nm alu yt yv x1t x1v x2t x2v lat tap lt grp =
     \<lparr>od_oc = oc, od_name = nm, od_alu = alu, od_y_type = yt, od_y_vector = yv,
      od_x1_type = x1t, od_x1_vector = x1v, od_x2_type = x2t, od_x2_vector = x2v,
      od_latency = lat, od_tap = tap, od_x_latches = lt, od_group = grp\<rparr>"

text \<open>
  The initialised rows of \<open>mu_opcode_def\<close>, up to the row without a name that ends the
  table. The array has 256 rows; the ones after it are zero-initialised.
\<close>

definition mu_opcode_def :: "sMuOpcodeDef list" where
  "mu_opcode_def = [
  mu_def 0 (Some ''NULL'') eMuOpcodeDefAlu1 eMuOpcodeDefDataTypeNull True eMuOpcodeDefDataTypeNull True eMuOpcodeDefDataTypeNull True (-1) 0 0 (-1),
  mu_def 1 (Some ''ASN'') eMuOpcodeDefAlu1 eMuOpcodeDefDataTypeFloat True eMuOpcodeDefDataTypeFloat True eMuOpcodeDefDataTypeNull True (-1) 0 0 (-1),
  mu_def 2 (Some ''ASN_RAW'') eMuOpcodeDefAlu1 eMuOpcodeDefDataTypeInt True eMuOpcodeDefDataTypeFloat True eMuOpcodeDefDataTypeNull True (-1) 0 0 (-1),
  mu_def 3 (Some ''ADD'') eMuOpcodeDefAlu1 eMuOpcodeDefDataTypeFloat True eMuOpcodeDefDataTypeFloat True eMuOpcodeDefDataTypeFloat True (-1) 0 0 (-1),
  mu_def 4 (Some ''SUB'') eMuOpcodeDefAlu1 eMuOpcodeDefDataTypeFloat True eMuOpcodeDefDataTypeFloat True eMuOpcodeDefDataTypeFloat True (-1) 0 0 (-1),
  mu_def 5 (Some ''CONV'') eMuOpcodeDefAlu1 eMuOpcodeDefDataTypeFloat True eMuOpcodeDefDataTypeFloat True eMuOpcodeDefDataTypeNull False (-1) 0 0 (-1),
  mu_def 6 (Some ''LT'') eMuOpcodeDefAlu1 eMuOpcodeDefDataTypeInt False eMuOpcodeDefDataTypeFloat True eMuOpcodeDefDataTypeFloat True (-1) 0 0 (-1),
  mu_def 7 (Some ''LE'') eMuOpcodeDefAlu1 eMuOpcodeDefDataTypeInt False eMuOpcodeDefDataTypeFloat True eMuOpcodeDefDataTypeFloat True (-1) 0 0 (-1),
  mu_def 8 (Some ''GT'') eMuOpcodeDefAlu1 eMuOpcodeDefDataTypeInt False eMuOpcodeDefDataTypeFloat True eMuOpcodeDefDataTypeFloat True (-1) 0 0 (-1),
  mu_def 9 (Some ''GE'') eMuOpcodeDefAlu1 eMuOpcodeDefDataTypeInt False eMuOpcodeDefDataTypeFloat True eMuOpcodeDefDataTypeFloat True (-1) 0 0 (-1),
  mu_def 10 (Some ''EQ'') eMuOpcodeDefAlu1 eMuOpcodeDefDataTypeInt False eMuOpcodeDefDataTypeFloat True eMuOpcodeDefDataTypeFloat True (-1) 0 0 (-1),
  mu_def 11 (Some ''NE'') eMuOpcodeDefAlu1 eMuOpcodeDefDataTypeInt False eMuOpcodeDefDataTypeFloat True eMuOpcodeDefDataTypeFloat True (-1) 0 0 (-1),
  mu_def 12 (Some ''MUL'') eMuOpcodeDefAlu1 eMuOpcodeDefDataTypeFloat True eMuOpcodeDefDataTypeFloat True eMuOpcodeDefDataTypeFloat True (-1) 0 0 (-1),
  mu_def 13 (Some ''NULL'') eMuOpcodeDefAlu1 eMuOpcodeDefDataTypeNull True eMuOpcodeDefDataTypeNull True eMuOpcodeDefDataTypeNull True (-1) 0 0 (-1),
  mu_def 14 (Some ''NULL'') eMuOpcodeDefAlu1 eMuOpcodeDefDataTypeNull True eMuOpcodeDefDataTypeNull True eMuOpcodeDefDataTypeNull True (-1) 0 0 (-1),
  mu_def 15 (Some ''LSB4'') eMuOpcodeDefAlu1 eMuOpcodeDefDataTypeFloat True eMuOpcodeDefDataTypeFloat True eMuOpcodeDefDataTypeNull True (-1) 0 0 (-1),
  mu_def 16 (Some ''MSB4'') eMuOpcodeDefAlu1 eMuOpcodeDefDataTypeFloat False eMuOpcodeDefDataTypeFloat False eMuOpcodeDefDataTypeNull False (-1) 0 0 (-1),
  mu_def 17 (Some ''CONV_BFLOAT'') eMuOpcodeDefAlu1 eMuOpcodeDefDataTypeFloat False eMuOpcodeDefDataTypeFloat False eMuOpcodeDefDataTypeNull False (-1) 0 0 (-1),
  mu_def 18 (Some ''SET_FLOAT'') eMuOpcodeDefAlu1 eMuOpcodeDefDataTypeFloat False eMuOpcodeDefDataTypeInt False eMuOpcodeDefDataTypeInt False (-1) 0 0 (-1),
  mu_def 19 (Some ''SHL'') eMuOpcodeDefAlu1 eMuOpcodeDefDataTypeFloat True eMuOpcodeDefDataTypeFloat True eMuOpcodeDefDataTypeFloat True (-1) 0 0 (-1),
  mu_def 20 (Some ''SHLA'') eMuOpcodeDefAlu1 eMuOpcodeDefDataTypeFloat True eMuOpcodeDefDataTypeFloat True eMuOpcodeDefDataTypeNull True (-1) 0 0 (-1),
  mu_def 21 (Some ''SHR'') eMuOpcodeDefAlu1 eMuOpcodeDefDataTypeFloat True eMuOpcodeDefDataTypeFloat True eMuOpcodeDefDataTypeFloat True (-1) 0 0 (-1),
  mu_def 22 (Some ''SHRA'') eMuOpcodeDefAlu1 eMuOpcodeDefDataTypeFloat True eMuOpcodeDefDataTypeFloat True eMuOpcodeDefDataTypeNull True (-1) 0 0 (-1),
  mu_def 23 (Some ''NULL'') eMuOpcodeDefAlu1 eMuOpcodeDefDataTypeNull True eMuOpcodeDefDataTypeNull True eMuOpcodeDefDataTypeNull True (-1) 0 0 (-1),
  mu_def 24 (Some ''FMS'') eMuOpcodeDefAlu1 eMuOpcodeDefDataTypeFloat True eMuOpcodeDefDataTypeFloat True eMuOpcodeDefDataTypeFloat True (-1) 0 0 (-1),
  mu_def 25 (Some ''FMA'') eMuOpcodeDefAlu1 eMuOpcodeDefDataTypeFloat True eMuOpcodeDefDataTypeFloat True eMuOpcodeDefDataTypeFloat True (-1) 0 0 (-1),
  mu_def 26 (Some ''FNMS'') eMuOpcodeDefAlu1 eMuOpcodeDefDataTypeFloat True eMuOpcodeDefDataTypeFloat True eMuOpcodeDefDataTypeFloat True (-1) 0 0 (-1),
  mu_def 27 (Some ''FNMA'') eMuOpcodeDefAlu1 eMuOpcodeDefDataTypeFloat True eMuOpcodeDefDataTypeFloat True eMuOpcodeDefDataTypeFloat True (-1) 0 0 (-1),
  mu_def 28 (Some ''FMS2'') eMuOpcodeDefAlu1 eMuOpcodeDefDataTypeFloat True eMuOpcodeDefDataTypeFloat True eMuOpcodeDefDataTypeFloat True (-1) 0 0 (-1),
  mu_def 29 (Some ''FMA2'') eMuOpcodeDefAlu1 eMuOpcodeDefDataTypeFloat True eMuOpcodeDefDataTypeFloat True eMuOpcodeDefDataTypeFloat True (-1) 0 0 (-1),
  mu_def 30 (Some ''FNMS2'') eMuOpcodeDefAlu1 eMuOpcodeDefDataTypeFloat True eMuOpcodeDefDataTypeFloat True eMuOpcodeDefDataTypeFloat True (-1) 0 0 (-1),
  mu_def 31 (Some ''FNMA2'') eMuOpcodeDefAlu1 eMuOpcodeDefDataTypeFloat True eMuOpcodeDefDataTypeFloat True eMuOpcodeDefDataTypeFloat True (-1) 0 0 (-1),
  mu_def 0 (None) eMuOpcodeDefAluInvalid eMuOpcodeDefDataTypeInvalid True eMuOpcodeDefDataTypeInvalid True eMuOpcodeDefDataTypeInvalid True (-1) 0 0 (-1)]"

definition MAX_NUM_OPCODE :: nat where "MAX_NUM_OPCODE = 256"

definition mu_zero_row :: sMuOpcodeDef where
  "mu_zero_row = mu_def 0 None eMuOpcodeDefAlu1 eMuOpcodeDefDataTypeFloat False
     eMuOpcodeDefDataTypeFloat False eMuOpcodeDefDataTypeFloat False 0 0 0 0"

definition GetMuOpcodeDef :: "int \<Rightarrow> sMuOpcodeDef res" where
  "GetMuOpcodeDef oc =
     (if 0 \<le> oc \<and> nat oc < length mu_opcode_def then Inr (mu_opcode_def ! nat oc)
      else if 0 \<le> oc \<and> nat oc < MAX_NUM_OPCODE then Inr mu_zero_row
      else Inl Undefined)"

definition GetMuOpcode :: "int \<Rightarrow> int res" where
  "GetMuOpcode oc = res_bind (GetMuOpcodeDef oc) (\<lambda>d. Inr (od_oc d))"

text \<open>\<open>Load\<close>: the number of instructions is the index of the first row without a name.\<close>

fun count_named :: "sMuOpcodeDef list \<Rightarrow> nat" where
  "count_named [] = 0"
| "count_named (d # ds) = (case od_name d of None \<Rightarrow> 0 | Some _ \<Rightarrow> Suc (count_named ds))"

definition m_numInstruction :: nat where
  "m_numInstruction = count_named mu_opcode_def"

definition IsImuCommutative :: "int \<Rightarrow> bool res" where
  "IsImuCommutative oc =
     (if oc = IOPCODE_ADD then Inr True
      else if oc = IOPCODE_SUB then Inr False
      else if oc = IOPCODE_MUL then Inr True
      else if oc = IOPCODE_SHL then Inr False
      else if oc = IOPCODE_SHR then Inr False
      else if oc = IOPCODE_LSHR then Inr False
      else if oc = IOPCODE_OR then Inr True
      else if oc = IOPCODE_AND then Inr True
      else if oc = IOPCODE_XOR then Inr True
      else Inl AssertFail)"

definition IsMuCommutative :: "int \<Rightarrow> bool res" where
  "IsMuCommutative oc =
     (if oc = OPCODE_NULL then Inr False
      else if oc = OPCODE_ADD then Inr True
      else if oc = OPCODE_SUB then Inr False
      else if oc = OPCODE_MUL then Inr True
      else if oc = OPCODE_ASSIGN \<or> oc = OPCODE_CONV then Inr False
      else if oc = OPCODE_CMP_LT \<or> oc = OPCODE_CMP_LE \<or> oc = OPCODE_CMP_GT \<or> oc = OPCODE_CMP_GE
        then Inr False
      else if oc = OPCODE_CMP_EQ \<or> oc = OPCODE_CMP_NE then Inr True
      else if oc = OPCODE_ASSIGN_RAW then Inr False
      else if oc = OPCODE_FMA \<or> oc = OPCODE_FMS \<or> oc = OPCODE_FNMA \<or> oc = OPCODE_FNMS then Inr True
      else if oc = OPCODE_FMA2 \<or> oc = OPCODE_FMS2 \<or> oc = OPCODE_FNMA2 \<or> oc = OPCODE_FNMS2
        then Inr False
      else if oc = OPCODE_LSB4 \<or> oc = OPCODE_MSB4 \<or> oc = OPCODE_CONV_BFLOAT \<or> oc = OPCODE_SET_FLOAT
        then Inr False
      else if oc = OPCODE_SHL \<or> oc = OPCODE_SHR \<or> oc = OPCODE_SHLA \<or> oc = OPCODE_SHRA then Inr False
      else Inl AssertFail)"

definition ioc_string :: "string list" where
  "ioc_string = [''NOP'', ''ADD'', ''SUB'', ''MUL'', ''SHL'', ''SHR'', ''OR'', ''AND'', ''XOR'', ''LSHR'']"

definition GetImuOpcodeName :: "int \<Rightarrow> string res" where
  "GetImuOpcodeName oc =
     (if 0 \<le> oc \<and> nat oc < length ioc_string then Inr (ioc_string ! nat oc) else Inl Undefined)"

definition control_string :: "string list" where
  "control_string =
     [''NOP'', ''***********RETURN****************'', ''OPCODE_JUMP_LT'', ''OPCODE_JUMP_LE'',
      ''OPCODE_JUMP_GT'', ''OPCODE_JUMP_GE'', ''OPCODE_JUMP_EQ'', ''OPCODE_JUMP_NE'',
      ''OPCODE_JUMP'', ''OPCODE_FUNC'']"

definition GetControlOpcodeName :: "int \<Rightarrow> string res" where
  "GetControlOpcodeName oc =
     (if 0 \<le> oc \<and> nat oc < length control_string then Inr (control_string ! nat oc)
      else Inl Undefined)"

text \<open>\<open>strcasecmp(a,b)==0\<close> in the C locale.\<close>

definition c_tolower :: "char \<Rightarrow> char" where
  "c_tolower c = (if CHR ''A'' \<le> c \<and> c \<le> CHR ''Z'' then char_of ((of_char c :: nat) + 32) else c)"

definition strcaseeq :: "string \<Rightarrow> string \<Rightarrow> bool" where
  "strcaseeq a b \<longleftrightarrow> map c_tolower a = map c_tolower b"

definition decode_mu_oc :: "string \<Rightarrow> int option" where
  "decode_mu_oc nm =
     map_option int
       (find_index (\<lambda>d. case od_name d of None \<Rightarrow> False | Some n \<Rightarrow> strcaseeq n nm)
          (take m_numInstruction mu_opcode_def))"

lemma length_mu_opcode_def: "length mu_opcode_def = 33"
  by (simp add: mu_opcode_def_def)

lemma m_numInstruction_eq: "m_numInstruction = 32"
  by (simp add: m_numInstruction_def mu_opcode_def_def mu_def_def)

text \<open>Every row is at its own opcode and has no operand group, so its group is \<open>-1\<close>.\<close>

lemma mu_opcode_def_rows:
  "\<forall>i<32. od_oc (mu_opcode_def ! i) = int i \<and> od_group (mu_opcode_def ! i) = -1
      \<and> od_alu (mu_opcode_def ! i) = eMuOpcodeDefAlu1"
  by code_simp

end
