(* ===== verification/CStrings.thy ===== *)
theory CStrings
  imports Prelude
begin

text \<open>
  The string utilities of \<open>SW/compiler/util.cpp\<close>. A C string is the list of the characters
  before its terminating NUL. The buffers of \<open>IsValidScopedName\<close> and \<open>ParseName\<close> hold
  \<open>MAX_STRING_LEN\<close> characters: a longer name overruns them, which is \<open>Undefined\<close>.
\<close>

section \<open>Operations\<close>

definition MAX_STRING_LEN :: nat where "MAX_STRING_LEN = 256"

definition isWS :: "char \<Rightarrow> bool" where
  "isWS ch \<longleftrightarrow> ch = CHR '' '' \<or> ch = CHR 0x09 \<or> ch = CHR 0x0D \<or> ch = CHR 0x0A"

definition isDigit :: "char \<Rightarrow> bool" where
  "isDigit c \<longleftrightarrow> 48 \<le> (of_char c :: nat) \<and> (of_char c :: nat) \<le> 57"

definition isNumeric :: "string \<Rightarrow> bool" where
  "isNumeric s = (if s = [] then False else list_all isDigit s)"

text \<open>Leading white space is dropped first, then the string is cut from the end.\<close>

fun trim_back :: "string \<Rightarrow> string" where
  "trim_back [] = []"
| "trim_back (c # cs) =
     (case trim_back cs of [] \<Rightarrow> (if isWS c then [] else [c]) | t \<Rightarrow> c # t)"

definition trim :: "string \<Rightarrow> string" where
  "trim token = trim_back (dropWhile isWS token)"

definition str_replace :: "string \<Rightarrow> char \<Rightarrow> char \<Rightarrow> string" where
  "str_replace s from_ch to_ch = map (\<lambda>c. if c = from_ch then to_ch else c) s"

text \<open>\<open>str_scan\<close> returns the token and the rest of the string it points to on return.\<close>

definition str_scan :: "string \<Rightarrow> string \<Rightarrow> string \<times> string" where
  "str_scan s matchSeq =
     (let p = dropWhile isWS s
      in (takeWhile (\<lambda>c. c \<in> set matchSeq) p,
          dropWhile isWS (dropWhile (\<lambda>c. c \<in> set matchSeq) p)))"

text \<open>\<open>strstr\<close>: the offset of the first occurrence.\<close>

fun strstr :: "string \<Rightarrow> string \<Rightarrow> nat option" where
  "strstr [] pat = (if pat = [] then Some 0 else None)"
| "strstr (c # cs) pat =
     (if prefix pat (c # cs) then Some 0 else map_option Suc (strstr cs pat))"

definition IsValidScopedName :: "string \<Rightarrow> bool res" where
  "IsValidScopedName name =
     (if MAX_STRING_LEN \<le> length name then Inl Undefined
      else Inr (case strstr name ''::'' of
          None \<Rightarrow> False
        | Some p \<Rightarrow>
            let name1 = take p name; name2 = drop (p + 2) name
            in name1 \<noteq> [] \<and> strstr name1 '':'' = None \<and> name2 \<noteq> [] \<and> strstr name2 '':'' = None))"

text \<open>
  \<open>ParseName\<close> returns \<open>-1\<close> and leaves its outputs alone, or \<open>0\<close> with the name and
  the context: \<open>None\<close> and \<open>Some (name, context)\<close> here.
\<close>

definition ParseName :: "string \<Rightarrow> (string \<times> string) option res" where
  "ParseName fullname =
     res_bind (IsValidScopedName fullname) (\<lambda>valid.
       if \<not> valid then
         (if strstr fullname '':'' \<noteq> None then Inr None else Inr (Some (fullname, [])))
       else
         (case strstr fullname ''::'' of
            Some p \<Rightarrow> Inr (Some (drop (p + 2) fullname, take p fullname))
          | None \<Rightarrow> Inr (Some (fullname, []))))"

section \<open>Lemmas\<close>

lemma strstr_Some:
  "strstr s pat = Some p \<Longrightarrow> p \<le> length s \<and> prefix pat (drop p s) \<and> (\<forall>q<p. \<not> prefix pat (drop q s))"
proof (induction s arbitrary: p)
  case (Cons c cs)
  show ?case
  proof (cases "prefix pat (c # cs)")
    case False
    with Cons.prems obtain q where q: "strstr cs pat = Some q" "p = Suc q" by auto
    with Cons.IH [OF q(1)] False show ?thesis
      by (auto simp: less_Suc_eq_0_disj)
  qed (use Cons.prems in auto)
qed (auto split: if_splits)

lemma strstr_None: "strstr s pat = None \<longleftrightarrow> (\<forall>q\<le>length s. \<not> prefix pat (drop q s))"
proof (induction s)
  case (Cons c cs)
  have "(\<forall>q\<le>length (c # cs). \<not> prefix pat (drop q (c # cs))) \<longleftrightarrow>
        \<not> prefix pat (c # cs) \<and> (\<forall>q\<le>length cs. \<not> prefix pat (drop q cs))"
    by (metis drop0 drop_Suc_Cons le_0_eq length_Cons not0_implies_Suc Suc_le_mono zero_le)
  with Cons show ?case by auto
qed auto

lemma strstr_single_None: "strstr s [c] = None \<longleftrightarrow> c \<notin> set s"
  by (induction s) auto

lemma trim_back_eq: "trim_back s = rev (dropWhile isWS (rev s))"
proof (induction s)
  case (Cons c cs)
  show ?case
  proof (cases "\<forall>x\<in>set cs. isWS x")
    case True
    then have a: "dropWhile isWS (rev cs) = []" by (simp add: dropWhile_eq_Nil_conv)
    have b: "dropWhile isWS (rev cs @ [c]) = dropWhile isWS [c]"
      by (rule dropWhile_append2) (use True in auto)
    show ?thesis unfolding trim_back.simps Cons.IH rev.simps a b by simp
  next
    case False
    then have "dropWhile isWS (rev cs) \<noteq> []" by (simp add: dropWhile_eq_Nil_conv)
    with Cons False show ?thesis by (auto simp: dropWhile_append1 split: list.split)
  qed
qed simp

lemma trim_back_Nil_iff: "trim_back s = [] \<longleftrightarrow> (\<forall>c\<in>set s. isWS c)"
  by (simp add: trim_back_eq dropWhile_eq_Nil_conv)

lemma trim_back_last: "trim_back s \<noteq> [] \<Longrightarrow> \<not> isWS (last (trim_back s))"
  by (simp add: trim_back_eq last_rev hd_dropWhile)

lemma trim_back_hd: "trim_back s \<noteq> [] \<Longrightarrow> hd (trim_back s) = hd s"
  by (cases s) (auto split: list.splits)

lemma trim_back_decomp: "\<exists>w. s = trim_back s @ w \<and> (\<forall>c\<in>set w. isWS c)"
proof -
  have "rev s = takeWhile isWS (rev s) @ dropWhile isWS (rev s)" by simp
  then have "s = rev (dropWhile isWS (rev s)) @ rev (takeWhile isWS (rev s))"
    by (metis rev_append rev_rev_ident)
  then show ?thesis
    by (metis set_rev set_takeWhileD trim_back_eq)
qed

lemma trim_decomp:
  "\<exists>w1 w2. token = w1 @ trim token @ w2 \<and> (\<forall>c\<in>set w1. isWS c) \<and> (\<forall>c\<in>set w2. isWS c)"
proof -
  obtain w2 where w2: "dropWhile isWS token = trim token @ w2" "\<forall>c\<in>set w2. isWS c"
    using trim_back_decomp [of "dropWhile isWS token"] unfolding trim_def by blast
  have "token = takeWhile isWS token @ dropWhile isWS token" by simp
  with w2 show ?thesis by (metis set_takeWhileD)
qed

lemma trim_ends:
  assumes "trim token \<noteq> []"
  shows "\<not> isWS (hd (trim token)) \<and> \<not> isWS (last (trim token))"
proof -
  have ne: "dropWhile isWS token \<noteq> []"
    using assms unfolding trim_def by (metis trim_back.simps(1))
  have "hd (trim token) = hd (dropWhile isWS token)"
    using assms by (simp add: trim_def trim_back_hd)
  with hd_dropWhile [OF ne] assms show ?thesis
    by (simp add: trim_def trim_back_last)
qed

lemma strstr_scope:
  assumes "CHR '':'' \<notin> set c"
  shows "strstr (c @ CHR '':'' # CHR '':'' # n) ''::'' = Some (length c)"
  using assms by (induction c) (auto simp: prefix_def)

lemma IsValidScopedName_iff:
  assumes "length name < MAX_STRING_LEN"
  shows "IsValidScopedName name = Inr True \<longleftrightarrow>
    (\<exists>c n. name = c @ ''::'' @ n \<and> c \<noteq> [] \<and> n \<noteq> [] \<and> CHR '':'' \<notin> set c \<and> CHR '':'' \<notin> set n)"
    (is "?L \<longleftrightarrow> ?R")
proof
  assume ?L
  then obtain p where p: "strstr name ''::'' = Some p"
    and c: "take p name \<noteq> []" "CHR '':'' \<notin> set (take p name)"
    and n: "drop (p + 2) name \<noteq> []" "CHR '':'' \<notin> set (drop (p + 2) name)"
    using assms
    by (auto simp: IsValidScopedName_def Let_def strstr_single_None split: option.splits)
  from strstr_Some [OF p] obtain r where r: "drop p name = ''::'' @ r"
    by (auto simp: prefix_def)
  then have "r = drop (p + 2) name"
    by (metis add.commute append_eq_conv_conj drop_drop length_Cons list.size(3) numeral_2_eq_2)
  with r have "name = take p name @ ''::'' @ drop (p + 2) name"
    by (metis append_take_drop_id)
  with c n show ?R by blast
next
  assume ?R
  then show ?L using assms
    by (auto simp: IsValidScopedName_def strstr_scope strstr_single_None)
qed

end
