(* ===== verification/Ident.thy ===== *)
theory Ident
  imports Config CStrings
begin

text \<open>
  Identifiers: \<open>SW/compiler/ident.h\<close> and \<open>SW/compiler/ident.cpp\<close>.

  The class hierarchy is the datatype \<open>clsid\<close> (one value per class idn of
  \<open>DECLARE_OBJECT\<close>), ordered by inheritance. An identifier object is a record with its class
  and the fields of all classes; a field that a class does not have is never read for it.
  Identifiers are allocated once and numbered by \<open>M_id\<close>; a pointer to one is its number
  (\<open>m_id\<close>), and the objects are the list \<open>idents\<close> indexed by it.
\<close>

section \<open>Class ids\<close>

datatype clsid =
  CIdentifier | CFloat | CStorage | CShared | CPrivate | CParameter | CStack | CReturnValue
| CConst | CFixed | CPointer | CInteger | CResult | CLane | CExReg

fun cls_base :: "clsid \<Rightarrow> clsid option" where
  "cls_base CIdentifier = None"
| "cls_base CFloat = Some CIdentifier"
| "cls_base CStorage = Some CFloat"
| "cls_base CShared = Some CStorage"
| "cls_base CPrivate = Some CStorage"
| "cls_base CParameter = Some CPrivate"
| "cls_base CStack = Some CPrivate"
| "cls_base CReturnValue = Some CPrivate"
| "cls_base CConst = Some CFloat"
| "cls_base CFixed = Some CIdentifier"
| "cls_base CPointer = Some CFixed"
| "cls_base CInteger = Some CFixed"
| "cls_base CResult = Some CFixed"
| "cls_base CLane = Some CFixed"
| "cls_base CExReg = Some CStorage"

fun cls_depth :: "clsid \<Rightarrow> nat" where
  "cls_depth CIdentifier = 0"
| "cls_depth CFloat = 1"
| "cls_depth CFixed = 1"
| "cls_depth CStorage = 2"
| "cls_depth CConst = 2"
| "cls_depth CPointer = 2"
| "cls_depth CInteger = 2"
| "cls_depth CResult = 2"
| "cls_depth CLane = 2"
| "cls_depth CShared = 3"
| "cls_depth CPrivate = 3"
| "cls_depth CExReg = 3"
| "cls_depth CParameter = 4"
| "cls_depth CStack = 4"
| "cls_depth CReturnValue = 4"

text \<open>\<open>isKindOf\<close> compares with the own class idn, then asks the base class.\<close>

function cls_isKindOf :: "clsid \<Rightarrow> clsid \<Rightarrow> bool" where
  "cls_isKindOf c d =
     (if c = d then True
      else (case cls_base c of None \<Rightarrow> False | Some b \<Rightarrow> cls_isKindOf b d))"
  by pat_completeness auto
termination
proof (relation "measure (\<lambda>(c, d). cls_depth c)")
  fix c d b assume "cls_base c = Some b"
  then show "((b, d), (c, d)) \<in> measure (\<lambda>(c, d). cls_depth c)" by (cases c) auto
qed simp

declare cls_isKindOf.simps [simp del]

lemma cls_isKindOf_refl [simp]: "cls_isKindOf c c"
  by (simp add: cls_isKindOf.simps)

lemma cls_base_depth: "cls_base c = Some b \<Longrightarrow> cls_depth c = Suc (cls_depth b)"
  by (cases c) auto

lemma cls_isKindOf_depth: "cls_isKindOf c d \<Longrightarrow> cls_depth d \<le> cls_depth c"
proof (induction c d rule: cls_isKindOf.induct)
  case (1 c d)
  then show ?case
    by (subst (asm) (2) cls_isKindOf.simps)
      (force split: if_splits option.splits dest: cls_base_depth)
qed

lemma cls_isKindOf_trans: "cls_isKindOf a b \<Longrightarrow> cls_isKindOf b c \<Longrightarrow> cls_isKindOf a c"
proof (induction a b rule: cls_isKindOf.induct)
  case (1 a b)
  show ?case
  proof (cases "a = b")
    case False
    with 1 show ?thesis
      by (cases "cls_base a") (auto simp: cls_isKindOf.simps [of a])
  qed (use 1 in simp)
qed

lemma cls_isKindOf_same_depth: "cls_isKindOf c d \<Longrightarrow> cls_depth c = cls_depth d \<Longrightarrow> c = d"
  by (subst (asm) cls_isKindOf.simps)
    (auto split: if_splits option.splits dest!: cls_base_depth cls_isKindOf_depth)

lemma cls_isKindOf_antisym: "cls_isKindOf c d \<Longrightarrow> cls_isKindOf d c \<Longrightarrow> c = d"
  by (meson cls_isKindOf_depth cls_isKindOf_same_depth le_antisym)

text \<open>A class is below the classes it derives from.\<close>

instantiation clsid :: order
begin

definition less_eq_clsid :: "clsid \<Rightarrow> clsid \<Rightarrow> bool" where
  "less_eq_clsid c d = cls_isKindOf c d"

definition less_clsid :: "clsid \<Rightarrow> clsid \<Rightarrow> bool" where
  "less_clsid c d = (cls_isKindOf c d \<and> \<not> cls_isKindOf d c)"

instance
  by standard
    (auto simp: less_eq_clsid_def less_clsid_def intro: cls_isKindOf_trans cls_isKindOf_antisym)

end

lemma cls_isKindOf_code [simp]:
  "cls_isKindOf c CFixed \<longleftrightarrow> c \<in> {CFixed, CPointer, CInteger, CResult, CLane}"
  "cls_isKindOf c CStorage \<longleftrightarrow>
     c \<in> {CStorage, CShared, CPrivate, CParameter, CStack, CReturnValue, CExReg}"
  "cls_isKindOf c CPrivate \<longleftrightarrow> c \<in> {CPrivate, CParameter, CStack, CReturnValue}"
  "cls_isKindOf c CShared \<longleftrightarrow> c = CShared"
  "cls_isKindOf c CPointer \<longleftrightarrow> c = CPointer"
  "cls_isKindOf c CInteger \<longleftrightarrow> c = CInteger"
  "cls_isKindOf c CExReg \<longleftrightarrow> c = CExReg"
  "cls_isKindOf c CParameter \<longleftrightarrow> c = CParameter"
  "cls_isKindOf c CStack \<longleftrightarrow> c = CStack"
  "cls_isKindOf c CReturnValue \<longleftrightarrow> c = CReturnValue"
  by (cases c; simp add: cls_isKindOf.simps)+

section \<open>Identifier objects\<close>

record cIdentifier =
  m_class :: clsid
  m_name :: string
  m_context :: string
  m_len :: int
  m_offset :: int
  m_byteOffset :: int
  m_num_dim :: nat
  m_dim :: "int list"
  m_interference :: int
  m_color :: "nat option"
  m_defCount :: int
  m_useCount :: int
  m_w :: int
  m_alias :: "nat option"
  m_pos :: int
  m_float :: bool
  m_persistent :: bool
  m_persistentIndex :: int
  m_scope :: "nat list"
  m_isConst :: bool
  m_width :: int
  m_isUnsigned :: bool
  m_useForMuIndex :: bool

type_synonym idents = "cIdentifier list"

text \<open>
  The constructors. \<open>decl\<close> is the declaration (the name and the array dimensions written
  after it), or \<open>None\<close> for a temporary. The base constructor parses the name, checks the
  dimensions, and refuses a reserved name when the variable has an owner.
\<close>

definition isReservedName :: "string \<Rightarrow> bool" where
  "isReservedName name \<longleftrightarrow>
     strcaseeq name ''tid'' \<or> strcaseeq name ''pid'' \<or> strcaseeq name ''_VMASK'' \<or>
     decode_mu_oc name \<noteq> None"

definition blank_cIdentifier :: "clsid \<Rightarrow> cIdentifier" where
  "blank_cIdentifier c =
     \<lparr>m_class = c, m_name = [], m_context = [], m_len = 1, m_offset = -1, m_byteOffset = -1,
      m_num_dim = 0, m_dim = [], m_interference = 0, m_color = None, m_defCount = 0,
      m_useCount = 0, m_w = 0, m_alias = None, m_pos = 0, m_float = False, m_persistent = False,
      m_persistentIndex = -1, m_scope = [], m_isConst = False, m_width = 0,
      m_isUnsigned = False, m_useForMuIndex = False\<rparr>"

fun add_dims :: "int list \<Rightarrow> cIdentifier \<Rightarrow> cIdentifier res" where
  "add_dims [] idn = Inr idn"
| "add_dims (d # ds) idn =
     (if m_num_dim idn \<ge> MAX_VAR_DIM then Inl CompileError
      else if d \<le> 0 then Inl CompileError
      else add_dims ds (idn\<lparr>m_len := m_len idn * d, m_dim := m_dim idn @ [d],
                            m_num_dim := Suc (m_num_dim idn)\<rparr>))"

type_synonym decl = "(string \<times> int list) option"

definition new_cIdentifier :: "clsid \<Rightarrow> bool \<Rightarrow> decl \<Rightarrow> cIdentifier res" where
  "new_cIdentifier c owned decl =
     res_bind
       (case decl of
          None \<Rightarrow> Inr (blank_cIdentifier c)
        | Some (nm, dims) \<Rightarrow>
            res_bind (ParseName nm) (\<lambda>r. case r of
                None \<Rightarrow> Inl CompileError
              | Some (name, context) \<Rightarrow>
                  add_dims dims ((blank_cIdentifier c)\<lparr>m_name := name, m_context := context\<rparr>)))
       (\<lambda>idn. if owned \<and> isReservedName (m_name idn) then Inl CompileError else Inr idn)"

definition new_cIdentifierStorage :: "clsid \<Rightarrow> bool \<Rightarrow> decl \<Rightarrow> int \<Rightarrow> cIdentifier res" where
  "new_cIdentifierStorage c owned decl w =
     res_bind (new_cIdentifier c owned decl) (\<lambda>idn. Inr (idn\<lparr>m_w := w\<rparr>))"

definition new_cIdentifierShared :: "bool \<Rightarrow> decl \<Rightarrow> nat option \<Rightarrow> int \<Rightarrow> cIdentifier res" where
  "new_cIdentifierShared owned decl al w =
     res_bind (new_cIdentifierStorage CShared owned decl w) (\<lambda>idn. Inr (idn\<lparr>m_alias := al\<rparr>))"

definition new_cIdentifierPrivate :: "bool \<Rightarrow> decl \<Rightarrow> int \<Rightarrow> cIdentifier res" where
  "new_cIdentifierPrivate owned decl w = new_cIdentifierStorage CPrivate owned decl w"

definition new_cIdentifierParameter :: "bool \<Rightarrow> decl \<Rightarrow> nat option \<Rightarrow> int \<Rightarrow> cIdentifier res" where
  "new_cIdentifierParameter owned decl al w =
     res_bind (new_cIdentifierStorage CParameter owned decl w) (\<lambda>idn. Inr (idn\<lparr>m_alias := al\<rparr>))"

definition new_cIdentifierStack :: "bool \<Rightarrow> decl \<Rightarrow> int \<Rightarrow> int \<Rightarrow> cIdentifier res" where
  "new_cIdentifierStack owned decl pos w =
     res_bind (new_cIdentifierStorage CStack owned decl w) (\<lambda>idn. Inr (idn\<lparr>m_pos := pos\<rparr>))"

definition new_cIdentifierReturnValue :: "bool \<Rightarrow> decl \<Rightarrow> bool \<Rightarrow> int \<Rightarrow> cIdentifier res" where
  "new_cIdentifierReturnValue owned decl fl w =
     res_bind (new_cIdentifierStorage CReturnValue owned decl w) (\<lambda>idn. Inr (idn\<lparr>m_float := fl\<rparr>))"

text \<open>An array is refused for the classes below \<open>cIdentifierFixed\<close>.\<close>

definition new_cIdentifierFixed :: "clsid \<Rightarrow> bool \<Rightarrow> decl \<Rightarrow> bool \<Rightarrow> int \<Rightarrow> cIdentifier res" where
  "new_cIdentifierFixed c owned decl persistent idx =
     res_bind (new_cIdentifier c owned decl) (\<lambda>idn.
       if m_num_dim idn > 0 then Inl CompileError
       else Inr (idn\<lparr>m_persistent := persistent, m_persistentIndex := idx\<rparr>))"

definition new_cIdentifierPointer :: "bool \<Rightarrow> decl \<Rightarrow> bool \<Rightarrow> int \<Rightarrow> bool \<Rightarrow> cIdentifier res" where
  "new_cIdentifierPointer owned decl isConst wd persistent =
     res_bind (new_cIdentifierFixed CPointer owned decl persistent (-1))
       (\<lambda>idn. Inr (idn\<lparr>m_isConst := isConst, m_width := wd\<rparr>))"

definition new_cIdentifierInteger :: "bool \<Rightarrow> decl \<Rightarrow> bool \<Rightarrow> bool \<Rightarrow> int \<Rightarrow> cIdentifier res" where
  "new_cIdentifierInteger owned decl isUnsigned persistent idx =
     res_bind (new_cIdentifierFixed CInteger owned decl persistent idx)
       (\<lambda>idn. Inr (idn\<lparr>m_isUnsigned := isUnsigned, m_useForMuIndex := False\<rparr>))"

definition new_cIdentifierExReg :: "bool \<Rightarrow> decl \<Rightarrow> int \<Rightarrow> bool \<Rightarrow> cIdentifier res" where
  "new_cIdentifierExReg owned decl w persistent =
     res_bind (new_cIdentifierStorage CExReg owned decl w) (\<lambda>idn. Inr (idn\<lparr>m_persistent := persistent\<rparr>))"

section \<open>Queries and allocation\<close>

definition isKindOf :: "cIdentifier \<Rightarrow> clsid \<Rightarrow> bool" where
  "isKindOf idn c = cls_isKindOf (m_class idn) c"

definition getAlias :: "cIdentifier \<Rightarrow> nat option" where
  "getAlias idn =
     (if isKindOf idn CParameter then m_alias idn
      else if isKindOf idn CShared then m_alias idn
      else None)"

definition isParameter :: "cIdentifier \<Rightarrow> bool" where
  "isParameter idn \<longleftrightarrow>
     isKindOf idn CParameter \<or> isKindOf idn CShared \<or>
     (isKindOf idn CFixed \<and> m_persistentIndex idn \<ge> 0) \<or> isKindOf idn CReturnValue"

definition isStack :: "cIdentifier \<Rightarrow> bool" where
  "isStack idn = isKindOf idn CStack"

definition isFixed :: "cIdentifier \<Rightarrow> bool" where
  "isFixed idn \<longleftrightarrow>
     isParameter idn \<or> isStack idn \<or> (isKindOf idn CFixed \<and> m_persistent idn) \<or>
     (isKindOf idn CExReg \<and> m_persistent idn)"

text \<open>\<open>funcName\<close> is the declarator's identifier that the code reads from the syntax tree.\<close>

definition isSameContext :: "cIdentifier \<Rightarrow> string \<Rightarrow> bool" where
  "isSameContext idn funcName \<longleftrightarrow>
     m_context idn = [] \<or>
     (prefix (m_context idn) funcName \<and> prefix ''::'' (drop (length (m_context idn)) funcName)) \<or>
     (strstr funcName ''::'' = None \<and> prefix (m_context idn) funcName)"

text \<open>\<open>1 << w\<close> for a vector width, which is 0 to \<open>VECTOR_DEPTH\<close>.\<close>

definition lanes :: "int \<Rightarrow> int" where
  "lanes w = 2 ^ nat w"

definition allocate :: "int \<Rightarrow> cIdentifier \<Rightarrow> cIdentifier res" where
  "allocate offset idn =
     (if isKindOf idn CStorage then
        (if offset AND (lanes (m_w idn) - 1) \<noteq> 0 then Inl CompileError
         else Inr (idn\<lparr>m_byteOffset := offset, m_offset := offset div lanes (m_w idn)\<rparr>))
      else Inr (idn\<lparr>m_offset := offset, m_byteOffset := offset\<rparr>))"

definition getLen :: "cIdentifier \<Rightarrow> int" where
  "getLen idn = (if isKindOf idn CStorage then m_len idn * lanes (m_w idn) else m_len idn)"

definition id_getVectorWidth :: "cIdentifier \<Rightarrow> int" where
  "id_getVectorWidth idn = (if isKindOf idn CStorage then m_w idn else 0)"

definition getDimSize :: "cIdentifier \<Rightarrow> nat \<Rightarrow> int res" where
  "getDimSize idn index =
     (if index < m_num_dim idn
      then Inr (prod_list (map (\<lambda>i. m_dim idn ! i) [index + 1..<m_num_dim idn]))
      else Inl AssertFail)"

section \<open>Lists of identifiers\<close>

definition iv_exist :: "nat list \<Rightarrow> nat \<Rightarrow> bool" where
  "iv_exist v x = list_ex (\<lambda>y. y = x) v"

definition iv_append :: "nat list \<Rightarrow> nat \<Rightarrow> nat list" where
  "iv_append v x = (if iv_exist v x then v else v @ [x])"

definition iv_clone :: "nat list \<Rightarrow> nat list" where
  "iv_clone x = fold (\<lambda>y v. iv_append v y) x []"

definition iv_union :: "nat list \<Rightarrow> nat list \<Rightarrow> nat list" where
  "iv_union v x = fold (\<lambda>y u. if iv_exist u y then u else iv_append u y) x v"

definition iv_minus :: "nat list \<Rightarrow> nat list \<Rightarrow> nat list" where
  "iv_minus v x = iv_clone (fold (\<lambda>y t. if iv_exist x y then t else iv_append t y) v [])"

definition iv_isOverlap :: "nat list \<Rightarrow> nat list \<Rightarrow> bool" where
  "iv_isOverlap v x = list_ex (iv_exist x) v"

definition iv_equal :: "nat list \<Rightarrow> nat list \<Rightarrow> bool" where
  "iv_equal v x = (if length x \<noteq> length v then False else list_all (iv_exist v) x)"

definition iv_exist_any :: "nat list \<Rightarrow> nat list \<Rightarrow> bool" where
  "iv_exist_any v x = list_ex (iv_exist v) x"

section \<open>The interface of a list of identifiers\<close>

text \<open>
  What the clients of \<open>cIdentifierVector\<close> rely on: it holds a set, every operation keeps it
  free of repetitions, and \<open>equal\<close> on such lists is equality of the sets.
\<close>

locale identifier_set =
  fixes mt :: "'v"
    and append :: "'v \<Rightarrow> 'a \<Rightarrow> 'v"
    and union :: "'v \<Rightarrow> 'v \<Rightarrow> 'v"
    and minus :: "'v \<Rightarrow> 'v \<Rightarrow> 'v"
    and equal :: "'v \<Rightarrow> 'v \<Rightarrow> bool"
    and exist :: "'v \<Rightarrow> 'a \<Rightarrow> bool"
    and elems :: "'v \<Rightarrow> 'a set"
    and inv :: "'v \<Rightarrow> bool"
  assumes elems_mt: "elems mt = {}"
    and elems_append: "elems (append v x) = insert x (elems v)"
    and elems_union: "elems (union v u) = elems v \<union> elems u"
    and elems_minus: "elems (minus v u) = elems v - elems u"
    and exist_iff: "exist v x \<longleftrightarrow> x \<in> elems v"
    and equal_iff: "inv v \<Longrightarrow> inv u \<Longrightarrow> equal v u \<longleftrightarrow> elems v = elems u"
    and inv_mt: "inv mt"
    and inv_append: "inv v \<Longrightarrow> inv (append v x)"
    and inv_union: "inv v \<Longrightarrow> inv (union v u)"
    and inv_minus: "inv (minus v u)"
begin

text \<open>Adding the elements of another list twice, or a part of the list itself, changes nothing.\<close>

lemma union_absorb: "inv v \<Longrightarrow> elems u \<subseteq> elems v \<Longrightarrow> equal (union v u) v"
  by (simp add: equal_iff elems_union inv_union sup_absorb1)

lemma minus_union_cancel: "elems (minus (union v u) u) = elems v - elems u"
  by (auto simp: elems_minus elems_union)

lemma append_exist: "exist (append v x) y \<longleftrightarrow> y = x \<or> exist v y"
  by (auto simp: exist_iff elems_append)

end

lemma iv_exist_iff [simp]: "iv_exist v x \<longleftrightarrow> x \<in> set v"
  by (auto simp: iv_exist_def list_ex_iff)

lemma iv_append_eq [simp]: "iv_append v x = add_new v x"
  by (simp add: iv_append_def add_new_def)

lemma iv_clone_eq: "iv_clone x = fold (\<lambda>y v. add_new v y) x []"
  by (simp add: iv_clone_def)

lemma set_iv_clone [simp]: "set (iv_clone x) = set x"
  by (simp add: iv_clone_eq)

lemma distinct_iv_clone [simp]: "distinct (iv_clone x)"
  by (simp add: iv_clone_eq)

lemma iv_union_eq: "iv_union v x = fold (\<lambda>y u. add_new u y) x v"
proof -
  have "(\<lambda>y u. if iv_exist u y then u else iv_append u y) = (\<lambda>y u. add_new u y)"
    by (auto simp: fun_eq_iff add_new_def)
  then show ?thesis by (simp only: iv_union_def)
qed

lemma set_iv_union [simp]: "set (iv_union v x) = set v \<union> set x"
  by (simp add: iv_union_eq)

lemma distinct_iv_union [simp]: "distinct v \<Longrightarrow> distinct (iv_union v x)"
  by (simp add: iv_union_eq)

lemma set_iv_minus_aux:
  "set (fold (\<lambda>y t. if iv_exist x y then t else iv_append t y) v t) = set t \<union> (set v - set x)"
  by (induction v arbitrary: t) auto

lemma set_iv_minus [simp]: "set (iv_minus v x) = set v - set x"
  by (simp only: iv_minus_def set_iv_clone set_iv_minus_aux) simp

lemma distinct_iv_minus [simp]: "distinct (iv_minus v x)"
  by (simp add: iv_minus_def)

lemma iv_equal_iff:
  assumes "distinct v" "distinct x"
  shows "iv_equal v x \<longleftrightarrow> set v = set x"
proof
  assume "iv_equal v x"
  then have "length x = length v" "set x \<subseteq> set v"
    by (auto simp: iv_equal_def list_all_iff split: if_splits)
  with assms show "set v = set x"
    by (metis distinct_subset_length_eq)
next
  assume "set v = set x"
  with assms have "length x = length v" by (metis distinct_card)
  with \<open>set v = set x\<close> show "iv_equal v x"
    by (simp add: iv_equal_def list_all_iff)
qed

interpretation iv: identifier_set "[]" iv_append iv_union iv_minus iv_equal iv_exist set distinct
  by unfold_locales (auto simp: iv_equal_iff)

lemma iv_isOverlap_iff [simp]: "iv_isOverlap v x \<longleftrightarrow> set v \<inter> set x \<noteq> {}"
  by (auto simp: iv_isOverlap_def list_ex_iff)

lemma iv_exist_any_iff [simp]: "iv_exist_any v x \<longleftrightarrow> set v \<inter> set x \<noteq> {}"
  by (auto simp: iv_exist_any_def list_ex_iff)

section \<open>Allocation\<close>

lemma lanes_pos [simp]: "0 < lanes w"
  by (simp add: lanes_def)

lemma and_lanes: "x AND (lanes w - 1) = x mod lanes w"
  by (simp add: lanes_def take_bit_eq_mask [symmetric] mask_eq_exp_minus_1 [symmetric]
      take_bit_eq_mod)

text \<open>
  An allocated identifier keeps its class and length, its byte offset is the address asked
  for, and a storage identifier is refused exactly when the address is not a multiple of its
  vector width; its offset counts vectors.
\<close>

lemma allocate_Inr_iff:
  "allocate off idn = Inr idn' \<longleftrightarrow>
     (if isKindOf idn CStorage
      then lanes (m_w idn) dvd off \<and> idn' = idn\<lparr>m_byteOffset := off, m_offset := off div lanes (m_w idn)\<rparr>
      else idn' = idn\<lparr>m_offset := off, m_byteOffset := off\<rparr>)"
  by (auto simp: allocate_def and_lanes dvd_eq_mod_eq_0)

lemma allocate_byteOffset: "allocate off idn = Inr idn' \<Longrightarrow> m_byteOffset idn' = off"
  by (auto simp: allocate_Inr_iff split: if_splits)

lemma allocate_getLen: "allocate off idn = Inr idn' \<Longrightarrow> getLen idn' = getLen idn"
  by (auto simp: allocate_Inr_iff getLen_def isKindOf_def split: if_splits)

lemma allocate_offset_scaled:
  "allocate off idn = Inr idn' \<Longrightarrow> isKindOf idn CStorage \<Longrightarrow> m_offset idn' * lanes (m_w idn) = off"
  by (auto simp: allocate_Inr_iff)

end
