(* ===== verification/Scope.thy ===== *)
theory Scope
  imports Ident
begin

text \<open>
  What a pointer may reference: \<open>getIdentifierScope\<close> and \<open>isPointerOverlap\<close> of
  \<open>SW/compiler/ident.cpp\<close>. \<open>m_scope\<close> of a pointer lists the variables assigned to it,
  other pointers included; the scope follows those transitively and keeps a list of the
  pointers already visited.

  A pointer to an identifier is valid for the whole run, since identifiers are never freed;
  \<open>ident_at\<close> reads a number that was never allocated as an object of the base class.
\<close>

definition ident_at :: "idents \<Rightarrow> nat \<Rightarrow> cIdentifier" where
  "ident_at I i = (if i < length I then I ! i else blank_cIdentifier CIdentifier)"

definition is_ptr :: "idents \<Rightarrow> nat \<Rightarrow> bool" where
  "is_ptr I i = isKindOf (ident_at I i) CPointer"

lemma is_ptr_less: "is_ptr I i \<Longrightarrow> i < length I"
  by (auto simp: is_ptr_def ident_at_def isKindOf_def blank_cIdentifier_def split: if_splits)

text \<open>
  \<open>_getIdentifierScope\<close>. The first argument is what is left of the loops over \<open>m_scope\<close>:
  a recursive call runs its own loop and then returns to the rest of its caller's, so the
  scope of the pointer entered goes in front. The result is the list and the dirty list.
\<close>

function scope_walk :: "idents \<Rightarrow> nat list \<Rightarrow> nat list \<Rightarrow> nat list \<Rightarrow> nat list \<times> nat list" where
  "scope_walk I [] lst dirtyLst = (lst, dirtyLst)"
| "scope_walk I (i # rest) lst dirtyLst =
     (if is_ptr I i then
        (if \<not> iv_exist dirtyLst i
         then scope_walk I (m_scope (ident_at I i) @ rest) lst (iv_append dirtyLst i)
         else scope_walk I rest lst dirtyLst)
      else
        (if \<not> iv_exist lst i then scope_walk I rest (iv_append lst i) dirtyLst
         else scope_walk I rest lst dirtyLst))"
  by pat_completeness auto
termination
proof (relation "measures [\<lambda>(I, w, l, d). card ({i. is_ptr I i} - set d), \<lambda>(I, w, l, d). length w]")
  fix I :: idents and i rest lst dirtyLst
  assume a: "is_ptr I i" "\<not> iv_exist dirtyLst i"
  have "finite {i. is_ptr I i}"
    by (rule finite_subset [of _ "{..<length I}"]) (auto dest: is_ptr_less)
  then have "card ({i. is_ptr I i} - set (iv_append dirtyLst i)) < card ({i. is_ptr I i} - set dirtyLst)"
    using a by (intro psubset_card_mono) auto
  then show "((I, m_scope (ident_at I i) @ rest, lst, iv_append dirtyLst i), I, i # rest, lst, dirtyLst)
      \<in> measures [\<lambda>(I, w, l, d). card ({i. is_ptr I i} - set d), \<lambda>(I, w, l, d). length w]"
    by simp
qed auto

definition getIdentifierScope :: "idents \<Rightarrow> nat \<Rightarrow> nat list \<Rightarrow> nat list" where
  "getIdentifierScope I p lst = fst (scope_walk I (m_scope (ident_at I p)) lst [])"

text \<open>\<open>this->isPointerOverlap(pointer)\<close>.\<close>

definition isPointerOverlap :: "idents \<Rightarrow> nat \<Rightarrow> nat \<Rightarrow> bool res" where
  "isPointerOverlap I this pointer =
     (if \<not> is_ptr I pointer then Inl AssertFail
      else if m_scope (ident_at I pointer) = [] then Inl CompileError
      else if is_ptr I this then
        (if m_scope (ident_at I this) = [] then Inl AssertFail
         else Inr (iv_isOverlap (getIdentifierScope I pointer []) (getIdentifierScope I this [])))
      else if isKindOf (ident_at I this) CPrivate \<or> isKindOf (ident_at I this) CShared then
        Inr (iv_exist (getIdentifierScope I pointer []) this)
      else Inr False)"

section \<open>The scope is what is reachable\<close>

text \<open>A variable is in the scope of a pointer directly or through a pointer in its scope.\<close>

inductive points_to :: "idents \<Rightarrow> nat \<Rightarrow> nat \<Rightarrow> bool" for I where
  direct: "i \<in> set (m_scope (ident_at I p)) \<Longrightarrow> points_to I p i"
| via: "q \<in> set (m_scope (ident_at I p)) \<Longrightarrow> is_ptr I q \<Longrightarrow> points_to I q i \<Longrightarrow> points_to I p i"

inductive_cases points_toE: "points_to I p i"

lemma points_to_step:
  "points_to I p i \<Longrightarrow> is_ptr I i \<Longrightarrow> j \<in> set (m_scope (ident_at I i)) \<Longrightarrow> points_to I p j"
proof (induction rule: points_to.induct)
  case (direct i p)
  show ?case by (rule points_to.via [OF direct(1,2) points_to.direct [OF direct(3)]])
next
  case (via q p i)
  show ?case by (rule points_to.via [OF via(1,2) via.IH [OF via(5,6)]])
qed

lemma scope_walk_sound:
  assumes "\<forall>i\<in>set w. points_to I p i"
    and "\<forall>i\<in>set lst. \<not> is_ptr I i \<and> points_to I p i"
  shows "\<forall>i\<in>set (fst (scope_walk I w lst d)). \<not> is_ptr I i \<and> points_to I p i"
  using assms
proof (induction I w lst d rule: scope_walk.induct)
  case (1 I lst d)
  then show ?case by simp
next
  case (2 I i rest lst d)
  have pi: "points_to I p i" and prest: "\<forall>i\<in>set rest. points_to I p i" using 2(5) by simp_all
  consider (a) "is_ptr I i" "i \<notin> set d" | (b) "is_ptr I i" "i \<in> set d"
    | (c) "\<not> is_ptr I i" "i \<notin> set lst" | (e) "\<not> is_ptr I i" "i \<in> set lst" by blast
  then show ?case
  proof cases
    case a
    have "\<forall>j\<in>set (m_scope (ident_at I i) @ rest). points_to I p j"
      using prest points_to_step [OF pi a(1)] by (simp add: ball_Un)
    from 2(1) [OF a(1) _ this 2(6)] a show ?thesis by simp
  next
    case b
    from 2(2) [OF b(1) _ prest 2(6)] b show ?thesis by simp
  next
    case c
    have "\<forall>j\<in>set (iv_append lst i). \<not> is_ptr I j \<and> points_to I p j" using 2(6) c pi by simp
    from 2(3) [OF c(1) _ prest this] c show ?thesis by simp
  next
    case e
    from 2(4) [OF e(1) _ prest 2(6)] e show ?thesis by simp
  qed
qed

text \<open>
  Completeness: the result contains the variables already collected and the pending ones, and
  the scope of every pointer that was visited is covered.
\<close>

definition walk_closed :: "idents \<Rightarrow> nat list \<Rightarrow> nat set \<Rightarrow> nat set \<Rightarrow> bool" where
  "walk_closed I w L D \<longleftrightarrow>
     (\<forall>q\<in>D. \<forall>i\<in>set (m_scope (ident_at I q)).
        i \<in> set w \<or> (if is_ptr I i then i \<in> D else i \<in> L))"

lemma scope_walk_complete:
  assumes "scope_walk I w lst d = (lst', d')" and "walk_closed I w (set lst) (set d)"
  shows "set lst \<subseteq> set lst' \<and> set d \<subseteq> set d'
    \<and> (\<forall>i\<in>set w. if is_ptr I i then i \<in> set d' else i \<in> set lst')
    \<and> walk_closed I [] (set lst') (set d')"
  using assms
proof (induction I w lst d arbitrary: lst' d' rule: scope_walk.induct)
  case (2 I i rest lst d)
  show ?case
  proof (cases "is_ptr I i")
    case True
    show ?thesis
    proof (cases "i \<in> set d")
      case False
      have cl: "walk_closed I (m_scope (ident_at I i) @ rest) (set lst) (set (iv_append d i))"
        using 2(6) True unfolding walk_closed_def by (auto split: if_splits)
      from 2(5) True False
      have "scope_walk I (m_scope (ident_at I i) @ rest) lst (iv_append d i) = (lst', d')" by simp
      from 2(1) [OF True _ this cl] False True show ?thesis by auto
    next
      case inD: True
      have cl: "walk_closed I rest (set lst) (set d)"
        using 2(6) True inD unfolding walk_closed_def by (auto split: if_splits)
      from 2(5) True inD have "scope_walk I rest lst d = (lst', d')" by simp
      from 2(2) [OF True _ this cl] inD True show ?thesis by auto
    qed
  next
    case False
    show ?thesis
    proof (cases "i \<in> set lst")
      case notin: False
      have cl: "walk_closed I rest (set (iv_append lst i)) (set d)"
        using 2(6) False unfolding walk_closed_def by (auto split: if_splits)
      from 2(5) False notin have "scope_walk I rest (iv_append lst i) d = (lst', d')" by simp
      from 2(3) [OF False _ this cl] notin False show ?thesis by auto
    next
      case inL: True
      have cl: "walk_closed I rest (set lst) (set d)"
        using 2(6) False inL unfolding walk_closed_def by (auto split: if_splits)
      from 2(5) False inL have "scope_walk I rest lst d = (lst', d')" by simp
      from 2(4) [OF False _ this cl] inL False show ?thesis by auto
    qed
  qed
qed (auto simp: walk_closed_def)

lemma set_getIdentifierScope:
  "set (getIdentifierScope I p []) = {i. \<not> is_ptr I i \<and> points_to I p i}"
proof
  show "set (getIdentifierScope I p []) \<subseteq> {i. \<not> is_ptr I i \<and> points_to I p i}"
    using scope_walk_sound [of "m_scope (ident_at I p)" I p "[]" "[]"]
    by (simp add: getIdentifierScope_def points_to.direct subset_iff)
next
  obtain lst' d' where w: "scope_walk I (m_scope (ident_at I p)) [] [] = (lst', d')"
    by fastforce
  from scope_walk_complete [OF w]
  have top: "\<forall>i\<in>set (m_scope (ident_at I p)). if is_ptr I i then i \<in> set d' else i \<in> set lst'"
    and cl: "walk_closed I [] (set lst') (set d')"
    by (simp_all add: walk_closed_def)
  have "i \<in> set lst'" if "points_to I q i" "q = p \<or> q \<in> set d'" "\<not> is_ptr I i" for q i
    using that
  proof (induction rule: points_to.induct)
    case (direct i q)
    then show ?case using top cl by (auto simp: walk_closed_def)
  next
    case (via r q i)
    then have "r \<in> set d'" using top cl by (auto simp: walk_closed_def)
    with via show ?case by blast
  qed
  then show "{i. \<not> is_ptr I i \<and> points_to I p i} \<subseteq> set (getIdentifierScope I p [])"
    using w by (auto simp: getIdentifierScope_def)
qed

lemma set_scope_walk_mono: "set lst \<subseteq> set (fst (scope_walk I w lst d))"
  by (induction I w lst d rule: scope_walk.induct) auto

lemma distinct_scope_walk: "distinct lst \<Longrightarrow> distinct (fst (scope_walk I w lst d))"
  by (induction I w lst d rule: scope_walk.induct) auto


end
