(* ===== verification/Term.thy ===== *)
theory Term
  imports Scope ConstTab
begin

text \<open>
  Operands of instructions: \<open>SW/compiler/term.h\<close> and \<open>SW/compiler/term.cpp\<close>. The class
  hierarchy below \<open>cTerm\<close> is a datatype with one constructor per class that is
  instantiated. A term is never changed after it was built and shared, so it is a value.
  Identifiers are numbers; the virtual functions that look into them take the list \<open>I\<close> of
  identifiers.
\<close>

section \<open>The classes\<close>

datatype cTerm =
  IMU_Integer nat
| IMU_Pointer nat
| IMU_Result
| IMU_Zero
| IMU_Stack
| IMU_Lane
| IMU_Null
| IMU_Constant int
| IMU_TID
| IMU_PID
| IMU_SharedPointerConstant nat int bool
| IMU_ConstPointerConstant nat int
| IMU_PrivatePointerConstant nat int bool
| MU_Null
| MU_Constant f32 bool
| MU_TID
| MU_PointerWithoutIndex nat int
| MU_PointerWithIndex nat nat int
| MU_Storage nat int bool
| MU_StorageWithIndex nat nat int bool
| MU_Result
| MU_Integer nat

text \<open>The two constructors of a vector constant: from a \<open>float\<close> and from an \<open>int\<close>.\<close>

definition new_MU_Constant_float :: "f32 \<Rightarrow> cTerm" where
  "new_MU_Constant_float c = MU_Constant c True"

definition new_MU_Constant_int :: "int \<Rightarrow> cTerm" where
  "new_MU_Constant_int c = MU_Constant (f32_of_int c) False"

text \<open>\<open>isKindOf\<close> for the classes that have subclasses.\<close>

fun is_MU :: "cTerm \<Rightarrow> bool" where
  "is_MU (IMU_Integer _) = False"
| "is_MU (IMU_Pointer _) = False"
| "is_MU IMU_Result = False"
| "is_MU IMU_Zero = False"
| "is_MU IMU_Stack = False"
| "is_MU IMU_Lane = False"
| "is_MU IMU_Null = False"
| "is_MU (IMU_Constant _) = False"
| "is_MU IMU_TID = False"
| "is_MU IMU_PID = False"
| "is_MU (IMU_SharedPointerConstant _ _ _) = False"
| "is_MU (IMU_ConstPointerConstant _ _) = False"
| "is_MU (IMU_PrivatePointerConstant _ _ _) = False"
| "is_MU _ = True"

definition is_IMU :: "cTerm \<Rightarrow> bool" where
  "is_IMU t = (\<not> is_MU t)"

fun is_AddressConstant :: "cTerm \<Rightarrow> bool" where
  "is_AddressConstant (IMU_SharedPointerConstant _ _ _) = True"
| "is_AddressConstant (IMU_ConstPointerConstant _ _) = True"
| "is_AddressConstant (IMU_PrivatePointerConstant _ _ _) = True"
| "is_AddressConstant _ = False"

fun is_IMU_Const :: "cTerm \<Rightarrow> bool" where
  "is_IMU_Const (IMU_Constant _) = True"
| "is_IMU_Const t = is_AddressConstant t"

fun is_MU_Const :: "cTerm \<Rightarrow> bool" where
  "is_MU_Const (MU_Constant _ _) = True"
| "is_MU_Const _ = False"

fun is_MU_Sto :: "cTerm \<Rightarrow> bool" where
  "is_MU_Sto (MU_Storage _ _ _) = True"
| "is_MU_Sto _ = False"

fun is_IMU_Int :: "cTerm \<Rightarrow> bool" where
  "is_IMU_Int (IMU_Integer _) = True"
| "is_IMU_Int _ = False"

section \<open>Constants\<close>

text \<open>
  The field \<open>m_c\<close> that a scalar constant is built with, and the virtual \<open>getConstant\<close>. The
  address of a variable that has no offset yet is the object's own address cast to \<open>int\<close>:
  the parameter \<open>objaddr\<close>.
\<close>

definition ADDR_SHARED :: int where "ADDR_SHARED = 4096"

fun imu_m_c :: "cTerm \<Rightarrow> int" where
  "imu_m_c (IMU_Constant c) = c"
| "imu_m_c (IMU_SharedPointerConstant _ off _) = off OR ADDR_SHARED"
| "imu_m_c (IMU_ConstPointerConstant _ off) = off OR ADDR_SHARED"
| "imu_m_c (IMU_PrivatePointerConstant _ off _) = off"
| "imu_m_c _ = 0"

fun imu_getConstant :: "(nat \<Rightarrow> int) \<Rightarrow> idents \<Rightarrow> cTerm \<Rightarrow> int" where
  "imu_getConstant objaddr I (IMU_Constant c) = c"
| "imu_getConstant objaddr I (IMU_SharedPointerConstant i m_off sub) =
     (let off = m_offset (ident_at I i); offset = (if off < 0 then objaddr i else off)
      in if sub \<and> m_w (ident_at I i) > 0 then (offset * 8 + m_off) OR ADDR_SHARED
         else (offset + m_off) OR ADDR_SHARED)"
| "imu_getConstant objaddr I (IMU_ConstPointerConstant i m_off) =
     (if m_offset (ident_at I i) \<ge> 0 then (m_offset (ident_at I i) + m_off) OR ADDR_SHARED
      else objaddr i + m_off)"
| "imu_getConstant objaddr I (IMU_PrivatePointerConstant i m_off sub) =
     (let off = m_offset (ident_at I i); offset = (if off < 0 then objaddr i else off)
      in if sub \<and> m_w (ident_at I i) > 0 then offset * 8 + m_off else offset + m_off)"
| "imu_getConstant objaddr I _ = 0"

fun isValid :: "idents \<Rightarrow> cTerm \<Rightarrow> bool" where
  "isValid I (IMU_SharedPointerConstant i _ _) \<longleftrightarrow> m_offset (ident_at I i) \<ge> 0"
| "isValid I (IMU_ConstPointerConstant i _) \<longleftrightarrow> m_offset (ident_at I i) \<ge> 0"
| "isValid I (IMU_PrivatePointerConstant i _ _) \<longleftrightarrow> m_offset (ident_at I i) \<ge> 0"
| "isValid I _ = False"

fun mu_getConstant :: "cTerm \<Rightarrow> f32" where
  "mu_getConstant (MU_Constant c _) = c"
| "mu_getConstant _ = f32_of_int 0"

section \<open>Equality\<close>

text \<open>
  \<open>term_eq objaddr I this other\<close> is \<open>this == other\<close>, in the order of the tests of the code:
  first on the class of \<open>other\<close>. \<open>(int)c\<close> of a float outside the range of \<open>int\<close> equals no
  integer constant here (in C++ the conversion is undefined).
\<close>

definition int_const_eq_float :: "int \<Rightarrow> f32 \<Rightarrow> bool" where
  "int_const_eq_float i c \<longleftrightarrow> f32_to_int c = Some i"

fun term_eq_MU :: "cTerm \<Rightarrow> cTerm \<Rightarrow> bool" where
  "term_eq_MU this MU_Null \<longleftrightarrow> (this = MU_Null)"
| "term_eq_MU this (MU_Constant c f) \<longleftrightarrow>
     (case this of MU_Constant c' f' \<Rightarrow> f32_eq c c' | _ \<Rightarrow> False)"
| "term_eq_MU this MU_TID \<longleftrightarrow> (this = MU_TID)"
| "term_eq_MU this (MU_PointerWithoutIndex b off) \<longleftrightarrow>
     (case this of MU_PointerWithoutIndex b' off' \<Rightarrow> b = b' \<and> off = off' | _ \<Rightarrow> False)"
| "term_eq_MU this (MU_PointerWithIndex b x off) \<longleftrightarrow>
     (case this of MU_PointerWithIndex b' x' off' \<Rightarrow> b = b' \<and> x = x' \<and> off = off' | _ \<Rightarrow> False)"
| "term_eq_MU this (MU_Storage i off sub) \<longleftrightarrow>
     (case this of MU_Storage i' off' sub' \<Rightarrow> i = i' \<and> off = off' \<and> sub = sub' | _ \<Rightarrow> False)"
| "term_eq_MU this (MU_StorageWithIndex i x off sub) \<longleftrightarrow>
     (case this of MU_StorageWithIndex i' x' off' sub' \<Rightarrow> i = i' \<and> off = off' \<and> x = x' \<and> sub = sub'
      | _ \<Rightarrow> False)"
| "term_eq_MU this MU_Result \<longleftrightarrow> (this = MU_Result)"
| "term_eq_MU this (MU_Integer i) \<longleftrightarrow>
     (case this of MU_Integer i' \<Rightarrow> i = i' | _ \<Rightarrow> False)"
| "term_eq_MU this _ = False"

fun term_eq_IMU :: "cTerm \<Rightarrow> cTerm \<Rightarrow> bool" where
  "term_eq_IMU (IMU_Integer i) other \<longleftrightarrow> (case other of IMU_Integer i' \<Rightarrow> i' = i | _ \<Rightarrow> False)"
| "term_eq_IMU (IMU_Pointer i) other \<longleftrightarrow> (case other of IMU_Pointer i' \<Rightarrow> i' = i | _ \<Rightarrow> False)"
| "term_eq_IMU IMU_Result other \<longleftrightarrow> other = IMU_Result"
| "term_eq_IMU IMU_Stack other \<longleftrightarrow> other = IMU_Stack"
| "term_eq_IMU IMU_Lane other \<longleftrightarrow> other = IMU_Lane"
| "term_eq_IMU IMU_Null other \<longleftrightarrow> other = IMU_Null"
| "term_eq_IMU IMU_TID other \<longleftrightarrow> other = IMU_TID"
| "term_eq_IMU IMU_PID other \<longleftrightarrow> other = IMU_PID"
| "term_eq_IMU (IMU_SharedPointerConstant i off sub) other \<longleftrightarrow>
     (case other of IMU_SharedPointerConstant i' off' sub' \<Rightarrow> i' = i \<and> off' = off | _ \<Rightarrow> False)"
| "term_eq_IMU (IMU_ConstPointerConstant i off) other \<longleftrightarrow>
     (case other of IMU_ConstPointerConstant i' off' \<Rightarrow> i' = i \<and> off' = off | _ \<Rightarrow> False)"
| "term_eq_IMU (IMU_PrivatePointerConstant i off sub) other \<longleftrightarrow>
     (case other of IMU_PrivatePointerConstant i' off' sub' \<Rightarrow> i' = i \<and> off' = off | _ \<Rightarrow> False)"
| "term_eq_IMU (IMU_Constant c) other \<longleftrightarrow>
     (case other of IMU_Constant c' \<Rightarrow> c' = c | IMU_Zero \<Rightarrow> c = 0 | _ \<Rightarrow> False)"
| "term_eq_IMU _ _ = False"

text \<open>The remaining case of a scalar \<open>this\<close>, \<open>cTerm_IMU_Zero\<close>, asks \<open>other\<close> for its constant.\<close>

definition term_eq :: "(nat \<Rightarrow> int) \<Rightarrow> idents \<Rightarrow> cTerm \<Rightarrow> cTerm \<Rightarrow> bool" where
  "term_eq objaddr I this other \<longleftrightarrow>
     (if is_MU other then
        (if \<not> is_MU this then
           (if this = IMU_Result \<and> other = MU_Result then True
            else (case other of
                MU_Constant c f \<Rightarrow>
                  is_IMU_Const this \<and> int_const_eq_float (imu_getConstant objaddr I this) c \<and> \<not> f
              | _ \<Rightarrow> False))
         else term_eq_MU this other)
      else
        (if \<not> is_IMU this then
           (if this = MU_Result \<and> other = IMU_Result then True
            else (case this of
                MU_Constant c f \<Rightarrow>
                  is_IMU_Const other \<and> f32_eq c (f32_of_int (imu_getConstant objaddr I other)) \<and> \<not> f
              | _ \<Rightarrow> False))
         else if this = IMU_Zero then
           other = IMU_Zero \<or> (is_IMU_Const other \<and> imu_getConstant objaddr I other = 0)
         else term_eq_IMU this other))"

section \<open>Variables\<close>

text \<open>
  \<open>getUse\<close> appends the variables that evaluating the operand's address reads; \<open>getDef\<close>
  appends the variables the operand denotes, which for a pointer is its whole scope.
\<close>

definition Result_id :: nat where "Result_id = 0"
definition Lane_id :: nat where "Lane_id = 1"

fun term_getUse :: "cTerm \<Rightarrow> nat list \<Rightarrow> nat list" where
  "term_getUse (MU_PointerWithIndex b x _) lst = iv_append (iv_append lst x) b"
| "term_getUse (MU_PointerWithoutIndex b _) lst = iv_append lst b"
| "term_getUse (MU_StorageWithIndex _ x _ _) lst = iv_append lst x"
| "term_getUse _ lst = lst"

fun term_getDef :: "idents \<Rightarrow> cTerm \<Rightarrow> nat list \<Rightarrow> nat list" where
  "term_getDef I (IMU_Integer i) lst = iv_append lst i"
| "term_getDef I (IMU_Pointer i) lst = iv_append lst i"
| "term_getDef I IMU_Result lst = iv_append lst Result_id"
| "term_getDef I IMU_Lane lst = iv_append lst Lane_id"
| "term_getDef I (MU_PointerWithIndex b _ _) lst = getIdentifierScope I b lst"
| "term_getDef I (MU_PointerWithoutIndex b _) lst = getIdentifierScope I b lst"
| "term_getDef I (MU_Storage i _ _) lst = iv_append lst i"
| "term_getDef I (MU_StorageWithIndex i _ _ _) lst = iv_append lst i"
| "term_getDef I MU_Result lst = iv_append lst Result_id"
| "term_getDef I (MU_Integer i) lst = iv_append lst i"
| "term_getDef I _ lst = lst"

definition isDouble :: "idents \<Rightarrow> cTerm \<Rightarrow> bool" where
  "isDouble I t = (case term_getDef I t [] of [i] \<Rightarrow> isKindOf (ident_at I i) CExReg | _ \<Rightarrow> False)"

section \<open>Conversions\<close>

text \<open>
  \<open>Convert2MU\<close> as the optimiser calls it, without a list to append instructions to: the
  thread and processor ids cannot be converted then. An integer constant becomes a float one.
\<close>

fun Convert2MU :: "(nat \<Rightarrow> int) \<Rightarrow> idents \<Rightarrow> cTerm \<Rightarrow> cTerm option" where
  "Convert2MU objaddr I x =
     (if is_MU x then Some x
      else (case x of
          IMU_Integer i \<Rightarrow> Some (MU_Integer i)
        | IMU_Result \<Rightarrow> Some MU_Result
        | IMU_TID \<Rightarrow> None
        | IMU_PID \<Rightarrow> None
        | _ \<Rightarrow> if is_IMU_Const x
               then Some (new_MU_Constant_float (f32_of_int (imu_getConstant objaddr I x)))
               else None))"

text \<open>\<open>Convert2IMU\<close>: a float constant has no conversion.\<close>

fun Convert2IMU :: "cTerm \<Rightarrow> cTerm option res" where
  "Convert2IMU x =
     (if is_IMU x then Inr (Some x)
      else (case x of
          MU_Integer i \<Rightarrow> Inr (Some (IMU_Integer i))
        | MU_Result \<Rightarrow> Inr (Some IMU_Result)
        | MU_TID \<Rightarrow> Inr (Some IMU_TID)
        | MU_Constant c f \<Rightarrow>
            if \<not> f then (case f32_to_int c of Some i \<Rightarrow> Inr (Some (IMU_Constant i)) | None \<Rightarrow> Inl Undefined)
            else Inr None
        | _ \<Rightarrow> Inr None))"

text \<open>\<open>updateIdentifier\<close>: the new identifier must have the class of the field (\<open>CAST\<close>).\<close>

definition subst_ident :: "idents \<Rightarrow> clsid \<Rightarrow> nat \<Rightarrow> nat \<Rightarrow> nat \<Rightarrow> nat res" where
  "subst_ident I c old new i =
     (if i = old then (if isKindOf (ident_at I new) c then Inr new else Inl BadCast) else Inr i)"

fun term_updateIdentifier :: "idents \<Rightarrow> nat \<Rightarrow> nat \<Rightarrow> cTerm \<Rightarrow> cTerm res" where
  "term_updateIdentifier I old new (IMU_Integer i) =
     res_bind (subst_ident I CInteger old new i) (\<lambda>j. Inr (IMU_Integer j))"
| "term_updateIdentifier I old new (IMU_Pointer i) =
     res_bind (subst_ident I CPointer old new i) (\<lambda>j. Inr (IMU_Pointer j))"
| "term_updateIdentifier I old new (IMU_SharedPointerConstant i off sub) =
     Inr (IMU_SharedPointerConstant (if i = old then new else i) off sub)"
| "term_updateIdentifier I old new (IMU_ConstPointerConstant i off) =
     Inr (IMU_ConstPointerConstant (if i = old then new else i) off)"
| "term_updateIdentifier I old new (IMU_PrivatePointerConstant i off sub) =
     Inr (IMU_PrivatePointerConstant (if i = old then new else i) off sub)"
| "term_updateIdentifier I old new (MU_PointerWithIndex b x off) =
     res_bind (subst_ident I CPointer old new b) (\<lambda>b'.
       res_bind (subst_ident I CInteger old new x) (\<lambda>x'. Inr (MU_PointerWithIndex b' x' off)))"
| "term_updateIdentifier I old new (MU_PointerWithoutIndex b off) =
     res_bind (subst_ident I CPointer old new b) (\<lambda>b'. Inr (MU_PointerWithoutIndex b' off))"
| "term_updateIdentifier I old new (MU_Storage i off sub) =
     res_bind (subst_ident I CStorage old new i) (\<lambda>j. Inr (MU_Storage j off sub))"
| "term_updateIdentifier I old new (MU_StorageWithIndex i x off sub) =
     res_bind (subst_ident I CStorage old new i) (\<lambda>j.
       res_bind (subst_ident I CInteger old new x) (\<lambda>x'. Inr (MU_StorageWithIndex j x' off sub)))"
| "term_updateIdentifier I old new (MU_Integer i) =
     res_bind (subst_ident I CInteger old new i) (\<lambda>j. Inr (MU_Integer j))"
| "term_updateIdentifier I old new t = Inr t"

section \<open>Fields of the encoded instruction\<close>

fun imu_getAttr :: "idents \<Rightarrow> cTerm \<Rightarrow> int" where
  "imu_getAttr I (IMU_Integer i) = IATTR_I0 + m_offset (ident_at I i)"
| "imu_getAttr I (IMU_Pointer i) = IATTR_P0 + m_offset (ident_at I i)"
| "imu_getAttr I IMU_Result = IATTR_RESULT1"
| "imu_getAttr I IMU_Zero = IATTR_ZERO"
| "imu_getAttr I IMU_Stack = IATTR_STACK"
| "imu_getAttr I IMU_Lane = IATTR_LANE"
| "imu_getAttr I IMU_Null = IATTR_ZERO"
| "imu_getAttr I (IMU_Constant _) = IATTR_CONST"
| "imu_getAttr I (IMU_SharedPointerConstant _ _ _) = IATTR_CONST"
| "imu_getAttr I (IMU_ConstPointerConstant _ _) = IATTR_CONST"
| "imu_getAttr I (IMU_PrivatePointerConstant _ _ _) = IATTR_CONST"
| "imu_getAttr I IMU_TID = IATTR_TID"
| "imu_getAttr I IMU_PID = IATTR_PID"
| "imu_getAttr I _ = IATTR_I0"

datatype eTermMemoryReference =
  eTermMemoryReferenceShared | eTermMemoryReferencePrivate
| eTermMemoryReferenceConst | eTermMemoryReferencePointer

definition storage_attr :: "idents \<Rightarrow> nat \<Rightarrow> eTermMemoryReference" where
  "storage_attr I i =
     (if isKindOf (ident_at I i) CShared then eTermMemoryReferenceShared
      else eTermMemoryReferencePrivate)"

text \<open>\<open>isfloat\<close> is the compiler's \<open>M_ISFLOAT\<close>, which \<open>main\<close> clears.\<close>

fun mu_getAttr :: "bool \<Rightarrow> idents \<Rightarrow> cTerm \<Rightarrow> eTermMemoryReference" where
  "mu_getAttr isfloat I MU_Null = eTermMemoryReferenceConst"
| "mu_getAttr isfloat I (MU_Constant _ _) =
     (if isfloat then eTermMemoryReferenceConst else eTermMemoryReferenceShared)"
| "mu_getAttr isfloat I MU_TID = eTermMemoryReferenceConst"
| "mu_getAttr isfloat I (MU_PointerWithoutIndex _ _) = eTermMemoryReferencePointer"
| "mu_getAttr isfloat I (MU_PointerWithIndex _ _ _) = eTermMemoryReferencePointer"
| "mu_getAttr isfloat I (MU_Storage i _ _) = storage_attr I i"
| "mu_getAttr isfloat I (MU_StorageWithIndex i _ _ _) = storage_attr I i"
| "mu_getAttr isfloat I MU_Result = eTermMemoryReferenceConst"
| "mu_getAttr isfloat I (MU_Integer _) = eTermMemoryReferenceConst"
| "mu_getAttr isfloat I _ = eTermMemoryReferenceShared"

fun mu_getIndex :: "idents \<Rightarrow> cTerm \<Rightarrow> int" where
  "mu_getIndex I (MU_PointerWithIndex _ x _) = m_offset (ident_at I x)"
| "mu_getIndex I (MU_StorageWithIndex _ x _ _) = m_offset (ident_at I x)"
| "mu_getIndex I _ = -1"

fun mu_getVectorWidth :: "idents \<Rightarrow> cTerm \<Rightarrow> int" where
  "mu_getVectorWidth I (MU_Constant _ _) = 0"
| "mu_getVectorWidth I (MU_PointerWithoutIndex b _) = m_width (ident_at I b)"
| "mu_getVectorWidth I (MU_PointerWithIndex b _ _) = m_width (ident_at I b)"
| "mu_getVectorWidth I (MU_Storage i _ sub) = (if \<not> sub then m_w (ident_at I i) else 0)"
| "mu_getVectorWidth I (MU_StorageWithIndex i _ _ sub) = (if \<not> sub then m_w (ident_at I i) else 0)"
| "mu_getVectorWidth I _ = -1"

text \<open>\<open>getOffset\<close>; a constant of the integer core is its index in the constant table.\<close>

fun mu_getOffset :: "bool \<Rightarrow> f32 list \<Rightarrow> idents \<Rightarrow> cTerm \<Rightarrow> int res" where
  "mu_getOffset isfloat S I MU_Null = Inr ATTR_CONST_NULL"
| "mu_getOffset isfloat S I (MU_Constant c _) =
     (if isfloat then Inr ATTR_CONST_P0
      else if const_Find S c \<ge> 0 then Inr (const_Find S c) else Inl AssertFail)"
| "mu_getOffset isfloat S I MU_TID = Inr ATTR_CONST_TID"
| "mu_getOffset isfloat S I (MU_PointerWithoutIndex b off) = Inr (m_offset (ident_at I b) * 8 + off)"
| "mu_getOffset isfloat S I (MU_PointerWithIndex b _ off) =
     Inr (if off \<ge> 0 then m_offset (ident_at I b) * 8 + off
          else m_offset (ident_at I b) * 8 + (off AND 7))"
| "mu_getOffset isfloat S I (MU_Storage i off sub) =
     Inr (if sub then m_offset (ident_at I i) * 8 + off else m_offset (ident_at I i) + off)"
| "mu_getOffset isfloat S I (MU_StorageWithIndex i _ off sub) =
     Inr (if \<not> sub then m_offset (ident_at I i) + off else m_offset (ident_at I i) * 8 + off)"
| "mu_getOffset isfloat S I MU_Result = Inr ATTR_CONST_RESULT"
| "mu_getOffset isfloat S I (MU_Integer i) = Inr (m_offset (ident_at I i) * 8)"
| "mu_getOffset isfloat S I _ = Inr 0"

definition mu_getExtAttr :: "bool \<Rightarrow> idents \<Rightarrow> cTerm \<Rightarrow> int" where
  "mu_getExtAttr isfloat I t =
     (case mu_getAttr isfloat I t of
        eTermMemoryReferencePointer \<Rightarrow>
          (if mu_getIndex I t < 0 then INSTRUCTION_ATTR_POINTER
           else INSTRUCTION_ATTR_POINTER_N_INDEX + mu_getIndex I t)
      | eTermMemoryReferenceConst \<Rightarrow> INSTRUCTION_ATTR_CONST
      | eTermMemoryReferenceShared \<Rightarrow>
          (if mu_getIndex I t < 0 then INSTRUCTION_ATTR_SHARE
           else INSTRUCTION_ATTR_SHARE_N_INDEX + mu_getIndex I t)
      | eTermMemoryReferencePrivate \<Rightarrow>
          (if mu_getIndex I t < 0 then INSTRUCTION_ATTR_PRIVATE
           else INSTRUCTION_ATTR_PRIVATE_N_INDEX + mu_getIndex I t))"

end
