(* ===== verification/Indep.thy ===== *)
theory Indep
  imports Term
begin

text \<open>
  \<open>x->independent(y)\<close> of \<open>SW/compiler/term.cpp\<close>: whether an operand \<open>x\<close> can be moved across
  a write of the result operand \<open>y\<close>. The instruction scheduler asks it for every pair of
  operands before it merges two instructions into one.
\<close>

section \<open>Definitions\<close>

text \<open>
  \<open>ovl\<close>: whether vector \<open>off1\<close> of \<open>2^w1\<close> words and vector \<open>off2\<close> of \<open>2^w2\<close> words of one
  variable overlap. Widths are 0 to \<open>VECTOR_DEPTH\<close>.
\<close>

definition ovl :: "int \<Rightarrow> int \<Rightarrow> int \<Rightarrow> int \<Rightarrow> bool" where
  "ovl off1 w1 off2 w2 =
     (let w = (if w1 > w2 then w1 else w2);
          v1 = off1 * 2 ^ nat w1;
          v2 = off2 * 2 ^ nat w2
      in (v1 AND NOT (2 ^ nat w - 1)) = (v2 AND NOT (2 ^ nat w - 1)))"

text \<open>Operands that are never the result of an instruction stop the compiler (\<open>error\<close>).\<close>

fun not_a_result :: "cTerm \<Rightarrow> bool" where
  "not_a_result IMU_Result = True"
| "not_a_result IMU_Zero = True"
| "not_a_result IMU_TID = True"
| "not_a_result IMU_PID = True"
| "not_a_result (MU_Constant _ _) = True"
| "not_a_result MU_TID = True"
| "not_a_result (MU_Integer _) = True"
| "not_a_result t = is_IMU_Const t"

definition res_not :: "bool res \<Rightarrow> bool res" where
  "res_not r = res_bind r (\<lambda>b. Inr (\<not> b))"

fun independent :: "idents \<Rightarrow> cTerm \<Rightarrow> cTerm \<Rightarrow> bool res" where
  "independent I (IMU_Integer i) y =
     (if not_a_result y then Inl CompileError
      else case y of IMU_Integer j \<Rightarrow> Inr (j \<noteq> i) | _ \<Rightarrow> Inr True)"
| "independent I (IMU_Pointer i) y =
     (if not_a_result y then Inl CompileError
      else case y of IMU_Pointer j \<Rightarrow> Inr (j \<noteq> i) | _ \<Rightarrow> Inr True)"
| "independent I IMU_Result y =
     (if not_a_result y then Inl CompileError
      else case y of MU_Result \<Rightarrow> Inr False | _ \<Rightarrow> Inr True)"
| "independent I IMU_Lane y = (case y of IMU_Lane \<Rightarrow> Inr False | _ \<Rightarrow> Inr True)"
| "independent I (MU_PointerWithoutIndex b off) y =
     (if not_a_result y then Inl CompileError
      else case y of
          IMU_Pointer j \<Rightarrow> Inr (j \<noteq> b)
        | IMU_Lane \<Rightarrow> Inr (mu_getVectorWidth I (MU_PointerWithoutIndex b off) < 1)
        | MU_PointerWithoutIndex b' _ \<Rightarrow> res_not (isPointerOverlap I b b')
        | MU_PointerWithIndex b' _ _ \<Rightarrow> res_not (isPointerOverlap I b b')
        | MU_Storage j _ _ \<Rightarrow> res_not (isPointerOverlap I j b)
        | MU_StorageWithIndex j _ _ _ \<Rightarrow> res_not (isPointerOverlap I j b)
        | _ \<Rightarrow> Inr True)"
| "independent I (MU_PointerWithIndex b x off) y =
     (if not_a_result y then Inl CompileError
      else case y of
          IMU_Integer j \<Rightarrow> Inr (j \<noteq> x)
        | IMU_Pointer j \<Rightarrow> Inr (j \<noteq> b)
        | IMU_Lane \<Rightarrow> Inr (mu_getVectorWidth I (MU_PointerWithIndex b x off) < 1)
        | MU_PointerWithoutIndex b' _ \<Rightarrow> res_not (isPointerOverlap I b b')
        | MU_PointerWithIndex b' _ _ \<Rightarrow> res_not (isPointerOverlap I b b')
        | MU_Storage j _ _ \<Rightarrow> res_not (isPointerOverlap I j b)
        | MU_StorageWithIndex j _ _ _ \<Rightarrow> res_not (isPointerOverlap I j b)
        | _ \<Rightarrow> Inr True)"
| "independent I (MU_Storage i off sub) y =
     (if not_a_result y then Inl CompileError
      else case y of
          IMU_Lane \<Rightarrow> Inr (mu_getVectorWidth I (MU_Storage i off sub) < 1)
        | MU_PointerWithoutIndex b _ \<Rightarrow> res_not (isPointerOverlap I i b)
        | MU_PointerWithIndex b _ _ \<Rightarrow> res_not (isPointerOverlap I i b)
        | MU_Storage j off' sub' \<Rightarrow>
            Inr (i \<noteq> j \<or> \<not> ovl off (mu_getVectorWidth I (MU_Storage i off sub))
                              off' (mu_getVectorWidth I (MU_Storage j off' sub')))
        | MU_StorageWithIndex j _ _ _ \<Rightarrow> Inr (i \<noteq> j)
        | _ \<Rightarrow> Inr True)"
| "independent I (MU_StorageWithIndex i x off sub) y =
     (if not_a_result y then Inl CompileError
      else case y of
          IMU_Integer j \<Rightarrow> Inr (x \<noteq> j)
        | IMU_Lane \<Rightarrow> Inr (mu_getVectorWidth I (MU_StorageWithIndex i x off sub) < 1)
        | MU_PointerWithoutIndex b _ \<Rightarrow> res_not (isPointerOverlap I i b)
        | MU_PointerWithIndex b _ _ \<Rightarrow> res_not (isPointerOverlap I i b)
        | MU_Storage j _ _ \<Rightarrow> Inr (i \<noteq> j)
        | MU_StorageWithIndex j x' off' sub' \<Rightarrow>
            (let w = mu_getVectorWidth I (MU_StorageWithIndex i x off sub);
                 w' = mu_getVectorWidth I (MU_StorageWithIndex j x' off' sub')
             in Inr (i \<noteq> j \<or> (x = x' \<and> w = w' \<and> \<not> ovl off w off' w')))
        | _ \<Rightarrow> Inr True)"
| "independent I MU_Result y =
     (if not_a_result y then Inl CompileError
      else case y of MU_Result \<Rightarrow> Inr False | _ \<Rightarrow> Inr True)"
| "independent I (MU_Integer i) y =
     (if not_a_result y then Inl CompileError
      else case y of IMU_Integer j \<Rightarrow> Inr (j \<noteq> i) | _ \<Rightarrow> Inr True)"
| "independent I _ y = Inr True"

text \<open>\<open>check_independent(y,x)\<close>: a missing operand is independent of everything.\<close>

definition check_independent :: "idents \<Rightarrow> cTerm option \<Rightarrow> cTerm option \<Rightarrow> bool res" where
  "check_independent I y x =
     (case (y, x) of (Some y', Some x') \<Rightarrow> independent I x' y' | _ \<Rightarrow> Inr True)"

section \<open>Overlap of vectors\<close>

definition words_of :: "int \<Rightarrow> int \<Rightarrow> int set" where
  "words_of off w = {off * 2 ^ nat w ..< (off + 1) * 2 ^ nat w}"

lemma and_not_mask: "(v::int) AND NOT (2 ^ n - 1) = v - v mod 2 ^ n"
proof -
  have "NOT v AND take_bit n v = 0"
    by (rule bit_eqI) (auto simp: bit_simps)
  then have "v - take_bit n v = v AND NOT (take_bit n v)"
    by (rule disjunctive_diff_eq_and_not)
  also have "\<dots> = v AND NOT (mask n)"
    by (rule bit_eqI) (auto simp: bit_simps)
  finally show ?thesis by (simp add: mask_eq_exp_minus_1 take_bit_eq_mod)
qed

lemma aligned_block_meets:
  fixes a b :: int
  assumes "0 < m" "0 < n" "n dvd m" "n dvd b" "m dvd a"
  shows "{a ..< a + m} \<inter> {b ..< b + n} \<noteq> {} \<longleftrightarrow> a = b - b mod m"
proof -
  obtain k where k: "b = n * k" using assms(4) by blast
  obtain q where q: "m = n * q" using assms(3) by blast
  obtain r where r: "a = m * r" using assms(5) by blast
  have q0: "0 < q" using assms q by (simp add: zero_less_mult_iff)
  have "{a ..< a + m} \<inter> {b ..< b + n} \<noteq> {} \<longleftrightarrow> a < b + n \<and> b < a + m"
    using assms(1,2) by (auto simp: Int_def intro!: exI [of _ "max a b"])
  also have "\<dots> \<longleftrightarrow> q * r \<le> k \<and> k < q * r + q"
  proof -
    have "a < b + n \<longleftrightarrow> n * (q * r) < n * (k + 1)" by (simp add: k q r algebra_simps)
    moreover have "b < a + m \<longleftrightarrow> n * k < n * (q * r + q)" by (simp add: k q r algebra_simps)
    ultimately show ?thesis using assms(2) by auto
  qed
  also have "\<dots> \<longleftrightarrow> k div q = r"
  proof
    assume "q * r \<le> k \<and> k < q * r + q"
    then have "k = q * r + (k - q * r)" "0 \<le> k - q * r" "k - q * r < q" by auto
    then show "k div q = r" by (metis int_div_pos_eq mult.commute)
  next
    assume "k div q = r"
    then have "k = q * r + k mod q" by (metis mult_div_mod_eq)
    then show "q * r \<le> k \<and> k < q * r + q"
      using q0 pos_mod_sign [of q k] pos_mod_bound [of q k] by linarith
  qed
  also have "\<dots> \<longleftrightarrow> a = b - b mod m"
  proof -
    have "b - b mod m = m * (b div m)" by (simp add: minus_mod_eq_mult_div)
    moreover have "b div m = k div q" using assms(2) by (simp add: k q)
    ultimately show ?thesis using assms(1) by (auto simp: r)
  qed
  finally show ?thesis .
qed

text \<open>\<open>ovl\<close> is exactly that the two vectors have a word in common.\<close>

lemma ovl_iff_words: "ovl off1 w1 off2 w2 \<longleftrightarrow> words_of off1 w1 \<inter> words_of off2 w2 \<noteq> {}"
proof -
  have main: "words_of o1 v1 \<inter> words_of o2 v2 \<noteq> {} \<longleftrightarrow>
      o1 * 2 ^ nat v1 = o2 * 2 ^ nat v2 - (o2 * 2 ^ nat v2) mod 2 ^ nat v1"
    if "nat v2 \<le> nat v1" for o1 o2 v1 v2 :: int
  proof -
    have "(2::int) ^ nat v2 dvd 2 ^ nat v1" using that by (rule le_imp_power_dvd)
    from aligned_block_meets [OF _ _ this, of "o2 * 2 ^ nat v2" "o1 * 2 ^ nat v1"]
    show ?thesis by (simp add: words_of_def algebra_simps)
  qed
  show ?thesis
  proof (cases "w1 > w2")
    case True
    then have "nat w2 \<le> nat w1" by simp
    from main [OF this, of off1 off2] True show ?thesis
      by (simp add: ovl_def Let_def and_not_mask)
  next
    case False
    then have "nat w1 \<le> nat w2" by simp
    from main [OF this, of off2 off1] False show ?thesis
      by (auto simp: ovl_def Let_def and_not_mask Int_commute)
  qed
qed

section \<open>What independence promises\<close>

text \<open>
  The machine cells an operand touches: integer and pointer registers, the result flag, the
  lane register, and the words of a variable. A pointer may touch every word of every variable
  in its scope; an indexed operand touches the vector that the index register selects.
\<close>

datatype cell = CellInt nat | CellPtr nat | CellResult | CellLane | CellWord nat int

definition scope_cells :: "idents \<Rightarrow> nat \<Rightarrow> cell set" where
  "scope_cells I b = {CellWord i k | i k. i \<in> set (getIdentifierScope I b [])}"

definition var_cells :: "nat \<Rightarrow> int \<Rightarrow> int \<Rightarrow> cell set" where
  "var_cells i off w = CellWord i ` words_of off w"

definition lane_cells :: "int \<Rightarrow> cell set" where
  "lane_cells w = (if w \<ge> 1 then {CellLane} else {})"

fun written_cells :: "idents \<Rightarrow> (nat \<Rightarrow> int) \<Rightarrow> cTerm \<Rightarrow> cell set" where
  "written_cells I idx (IMU_Integer i) = {CellInt i}"
| "written_cells I idx (IMU_Pointer i) = {CellPtr i}"
| "written_cells I idx IMU_Lane = {CellLane}"
| "written_cells I idx (MU_PointerWithoutIndex b _) = scope_cells I b"
| "written_cells I idx (MU_PointerWithIndex b _ _) = scope_cells I b"
| "written_cells I idx (MU_Storage i off sub) =
     var_cells i off (mu_getVectorWidth I (MU_Storage i off sub))"
| "written_cells I idx (MU_StorageWithIndex i x off sub) =
     var_cells i (idx x + off) (mu_getVectorWidth I (MU_StorageWithIndex i x off sub))"
| "written_cells I idx MU_Result = {CellResult}"
| "written_cells I idx _ = {}"

fun touched_cells :: "idents \<Rightarrow> (nat \<Rightarrow> int) \<Rightarrow> cTerm \<Rightarrow> cell set" where
  "touched_cells I idx (IMU_Integer i) = {CellInt i}"
| "touched_cells I idx (IMU_Pointer i) = {CellPtr i}"
| "touched_cells I idx IMU_Result = {CellResult}"
| "touched_cells I idx IMU_Lane = {CellLane}"
| "touched_cells I idx (MU_PointerWithoutIndex b off) =
     {CellPtr b} \<union> scope_cells I b \<union> lane_cells (mu_getVectorWidth I (MU_PointerWithoutIndex b off))"
| "touched_cells I idx (MU_PointerWithIndex b x off) =
     {CellPtr b, CellInt x} \<union> scope_cells I b \<union>
     lane_cells (mu_getVectorWidth I (MU_PointerWithIndex b x off))"
| "touched_cells I idx (MU_Storage i off sub) =
     var_cells i off (mu_getVectorWidth I (MU_Storage i off sub)) \<union>
     lane_cells (mu_getVectorWidth I (MU_Storage i off sub))"
| "touched_cells I idx (MU_StorageWithIndex i x off sub) =
     {CellInt x} \<union> var_cells i (idx x + off) (mu_getVectorWidth I (MU_StorageWithIndex i x off sub)) \<union>
     lane_cells (mu_getVectorWidth I (MU_StorageWithIndex i x off sub))"
| "touched_cells I idx MU_Result = {CellResult}"
| "touched_cells I idx (MU_Integer i) = {CellInt i}"
| "touched_cells I idx _ = {}"

text \<open>
  The scopes hold only private and shared variables: \<open>gen.cpp\<close> assigns a pointer the
  address of nothing else (or another pointer). Pointer operands name pointers.
\<close>

definition scopes_ok :: "idents \<Rightarrow> bool" where
  "scopes_ok I \<longleftrightarrow> (\<forall>p\<in>set (filter (is_ptr I) [0..<length I]). \<forall>i\<in>set (m_scope (ident_at I p)).
     is_ptr I i \<or> isKindOf (ident_at I i) CPrivate \<or> isKindOf (ident_at I i) CShared)"

definition ptr_operand_ok :: "idents \<Rightarrow> cTerm \<Rightarrow> bool" where
  "ptr_operand_ok I t \<longleftrightarrow>
     (case t of MU_PointerWithoutIndex b _ \<Rightarrow> is_ptr I b
      | MU_PointerWithIndex b _ _ \<Rightarrow> is_ptr I b
      | MU_Storage i _ _ \<Rightarrow> \<not> is_ptr I i
      | MU_StorageWithIndex i _ _ _ \<Rightarrow> \<not> is_ptr I i
      | _ \<Rightarrow> True)"

lemma scope_member_kind:
  assumes "scopes_ok I" "is_ptr I p" "i \<in> set (getIdentifierScope I p [])"
  shows "isKindOf (ident_at I i) CPrivate \<or> isKindOf (ident_at I i) CShared"
proof -
  have "points_to I p i" "\<not> is_ptr I i" using assms(3) by (auto simp: set_getIdentifierScope)
  then show ?thesis using assms(2)
  proof (induction rule: points_to.induct)
    case (direct i p)
    then have "p \<in> set (filter (is_ptr I) [0..<length I])" by (auto dest: is_ptr_less)
    with direct assms(1) show ?case unfolding scopes_ok_def by blast
  qed blast
qed

lemma not_overlap_ptr:
  assumes "isPointerOverlap I b b' = Inr False" "is_ptr I b"
  shows "scope_cells I b \<inter> scope_cells I b' = {}"
  using assms
  by (auto simp: isPointerOverlap_def scope_cells_def split: if_splits)

lemma not_overlap_var:
  assumes "isPointerOverlap I i b = Inr False" "\<not> is_ptr I i" "scopes_ok I"
  shows "i \<notin> set (getIdentifierScope I b [])"
  using assms scope_member_kind [OF assms(3), of b i]
  by (auto simp: isPointerOverlap_def split: if_splits)

lemma var_scope_disjoint:
  "i \<notin> set (getIdentifierScope I b []) \<Longrightarrow> var_cells i off w \<inter> scope_cells I b = {}"
  by (auto simp: var_cells_def scope_cells_def)

lemma var_cells_disjoint:
  "i \<noteq> j \<or> \<not> ovl off w off' w' \<Longrightarrow> var_cells i off w \<inter> var_cells j off' w' = {}"
  by (auto simp: var_cells_def ovl_iff_words)

lemma words_of_shift: "words_of (d + a) w = (\<lambda>k. d * 2 ^ nat w + k) ` words_of a w"
  by (auto simp: words_of_def algebra_simps image_iff Bex_def intro: exI [of _ "_ - d * 2 ^ nat w"])

lemma ovl_shift: "ovl (d + a) w (d + b) w \<longleftrightarrow> ovl a w b w"
  unfolding ovl_iff_words words_of_shift by (auto simp: image_Int [symmetric] inj_on_def)

text \<open>No cell is on both sides: the facts above, cell by cell.\<close>

lemma lane_cells_simps [simp]:
  "w < 1 \<Longrightarrow> lane_cells w = {}"
  by (simp add: lane_cells_def)

lemma lane_disjoint [simp]:
  "lane_cells w \<inter> var_cells i off v = {}" "lane_cells w \<inter> scope_cells I b = {}"
  by (auto simp: lane_cells_def var_cells_def scope_cells_def)

lemma scope_scope_disjoint:
  "isPointerOverlap I b b' = Inr False \<Longrightarrow> is_ptr I b \<Longrightarrow> scope_cells I b \<inter> scope_cells I b' = {}"
  by (rule not_overlap_ptr)

lemma scope_var_disjoint:
  assumes "isPointerOverlap I i b = Inr False" "\<not> is_ptr I i" "scopes_ok I"
  shows "var_cells i off v \<inter> scope_cells I b = {}" "scope_cells I b \<inter> var_cells i off v = {}"
  using var_scope_disjoint [OF not_overlap_var [OF assms]] by auto

lemma indexed_disjoint:
  "i \<noteq> j \<or> (d = d' \<and> v = v' \<and> \<not> ovl off v off' v') \<Longrightarrow>
     var_cells i (d + off) v \<inter> var_cells j (d' + off') v' = {}"
  using var_cells_disjoint [of i j "d + off" v "d' + off'" v'] by (auto simp: ovl_shift)

lemma reg_not_in_memory [simp]:
  "CellInt i \<notin> scope_cells I b" "CellPtr i \<notin> scope_cells I b" "CellResult \<notin> scope_cells I b"
  "CellInt i \<notin> var_cells j off v" "CellPtr i \<notin> var_cells j off v" "CellResult \<notin> var_cells j off v"
  "CellInt i \<notin> lane_cells v" "CellPtr i \<notin> lane_cells v" "CellResult \<notin> lane_cells v"
  "CellLane \<notin> scope_cells I b" "CellLane \<notin> var_cells j off v"
  by (auto simp: lane_cells_def scope_cells_def var_cells_def)

lemma res_not_True [simp]: "res_not r = Inr True \<longleftrightarrow> r = Inr False"
  by (cases r) (auto simp: res_not_def)

lemma lane_scope_other [simp]:
  "scope_cells I b \<inter> lane_cells w = {}" "var_cells i off v \<inter> lane_cells w = {}"
  by (auto simp: lane_cells_def var_cells_def scope_cells_def)

lemmas cells_disjoint = scope_scope_disjoint scope_var_disjoint var_cells_disjoint
  indexed_disjoint Int_Un_distrib2 ptr_operand_ok_def

lemma indep_ptr_sound:
  assumes "scopes_ok I" "is_ptr I b" "ptr_operand_ok I y"
    and "x = MU_PointerWithoutIndex b off \<or> x = MU_PointerWithIndex b i off"
    and "independent I x y = Inr True"
  shows "touched_cells I idx x \<inter> written_cells I idx y = {}"
  using assms
  by (elim disjE; cases y)
    (simp_all add: cells_disjoint Int_insert_left del: mu_getVectorWidth.simps split: if_splits)

lemma indep_var_sound:
  assumes "scopes_ok I" "\<not> is_ptr I i" "ptr_operand_ok I y"
    and "x = MU_Storage i off sub \<or> x = MU_StorageWithIndex i j off sub"
    and "independent I x y = Inr True"
  shows "touched_cells I idx x \<inter> written_cells I idx y = {}"
  using assms
  by (elim disjE; cases y;
    simp_all add: cells_disjoint Let_def Int_insert_left del: mu_getVectorWidth.simps split: if_splits)

text \<open>
  C18: An operand that the compiler reports as independent of a result shares no machine cell
  with it: the write of the result changes neither the words, registers and lanes the operand
  reads, nor, when the operand is itself a result, the cells it writes.
\<close>

theorem independent_sound:
  assumes "independent I x y = Inr True"
    and "scopes_ok I" and "ptr_operand_ok I x" and "ptr_operand_ok I y"
  shows "touched_cells I idx x \<inter> written_cells I idx y = {}"
proof (cases "(\<exists>b off i. x = MU_PointerWithoutIndex b off \<or> x = MU_PointerWithIndex b i off)
    \<or> (\<exists>i j off sub. x = MU_Storage i off sub \<or> x = MU_StorageWithIndex i j off sub)")
  case True
  with assms indep_ptr_sound indep_var_sound show ?thesis
    by (elim disjE exE) (fastforce simp: ptr_operand_ok_def)+
next
  case False
  with assms(1) show ?thesis by (cases x; cases y) (auto split: if_splits)
qed

text \<open>Two vectors of one private array that are next to each other.\<close>

theorem independent_sound_witness:
  "touched_cells [blank_cIdentifier CResult, blank_cIdentifier CLane, (blank_cIdentifier CPrivate)\<lparr>m_w := 3\<rparr>]
     (\<lambda>_. 0) (MU_Storage 2 0 False) \<inter>
   written_cells [blank_cIdentifier CResult, blank_cIdentifier CLane, (blank_cIdentifier CPrivate)\<lparr>m_w := 3\<rparr>]
     (\<lambda>_. 0) (MU_Storage 2 1 False) = {}"
  by (rule independent_sound) code_simp+

end
