(* ===== verification/Instr.thy ===== *)
theory Instr
  imports Term CList
begin

text \<open>
  Instructions: the data of \<open>SW/compiler/instruction.h\<close> and the operations of
  \<open>SW/compiler/instruction.cpp\<close> that build, query and simplify one instruction, or walk
  the instruction list without changing its order.

  An instruction object is a record; a pointer to one is its number in \<open>p_code\<close>. The list
  \<open>PROGRAM\<close> is the sequence \<open>p_order\<close> of such numbers (theory \<open>CList\<close> shows that the
  linked list behaves as a sequence). The syntax tree node of a function is a record with what
  the code reads from it.
\<close>

section \<open>Data\<close>

record Instruction_alu =
  alu_oc :: int
  alu_which :: eMuOpcodeDefAlu
  alu_x1 :: "cTerm option"
  alu_x2 :: "cTerm option"
  alu_y :: "cTerm option"
  alu_xacc :: "cTerm option"

record Instruction_ialu =
  imu_oc :: int
  imu_x1 :: "cTerm option"
  imu_x2 :: "cTerm option"
  imu_y :: "cTerm option"

record Instruction_control =
  ctl_oc :: int
  ctl_jumpInstruction :: "nat option"
  ctl_jumpFunction :: string
  ctl_jumpAfter :: bool

record cInstruction =
  m_alu1 :: Instruction_alu
  m_alu2 :: Instruction_alu
  m_imu :: Instruction_ialu
  m_control :: Instruction_control
  m_addr :: int
  m_maxNumThreads :: int
  m_dataModel :: int
  m_label :: string
  m_jumpDestination :: bool
  m_beginFunc :: "nat option"
  m_seq :: int
  m_flag :: bool
  m_x_stack :: "nat list"
  m_y_stack :: "nat option"

text \<open>
  What is read from the syntax tree of a function: the declarator's identifier, whether the
  specifiers have \<open>_kernel\<close>, and the tree of blocks below it with the identifiers that each
  block declares (\<open>None\<close> for a node that is not a block).
\<close>

datatype cAstBlock = AstBlock (ast_ids: "nat list option") (ast_children: "cAstBlock list")

record cFuncNode =
  fn_name :: string
  fn_kernel :: bool
  fn_block :: cAstBlock

definition fn_ids :: "cFuncNode \<Rightarrow> nat list" where
  "fn_ids f = (case ast_ids (fn_block f) of None \<Rightarrow> [] | Some xs \<Rightarrow> xs)"

record program =
  p_code :: "cInstruction list"
  p_order :: "nat list"
  p_funcs :: "cFuncNode list"

text \<open>
  The constructor. It leaves \<open>m_seq\<close>, \<open>m_flag\<close>, \<open>which_alu\<close> and \<open>jumpAfter\<close> as they are; they
  are written before they are read.
\<close>

definition empty_alu :: Instruction_alu where
  "empty_alu = \<lparr>alu_oc = -1, alu_which = eMuOpcodeDefAluInvalid, alu_x1 = None, alu_x2 = None,
                alu_y = None, alu_xacc = None\<rparr>"

definition new_cInstruction :: cInstruction where
  "new_cInstruction =
     \<lparr>m_alu1 = empty_alu, m_alu2 = empty_alu,
      m_imu = \<lparr>imu_oc = -1, imu_x1 = None, imu_x2 = None, imu_y = None\<rparr>,
      m_control = \<lparr>ctl_oc = -1, ctl_jumpInstruction = None, ctl_jumpFunction = [], ctl_jumpAfter = False\<rparr>,
      m_addr = 0, m_maxNumThreads = 0, m_dataModel = 0, m_label = [], m_jumpDestination = False,
      m_beginFunc = None, m_seq = 0, m_flag = False, m_x_stack = [], m_y_stack = None\<rparr>"

definition instr_at :: "program \<Rightarrow> nat \<Rightarrow> cInstruction" where
  "instr_at P i = (if i < length (p_code P) then p_code P ! i else new_cInstruction)"

definition upd_instr :: "nat \<Rightarrow> (cInstruction \<Rightarrow> cInstruction) \<Rightarrow> program \<Rightarrow> program" where
  "upd_instr i f P = P\<lparr>p_code := (p_code P)[i := f (instr_at P i)]\<rparr>"

definition next_of :: "program \<Rightarrow> nat \<Rightarrow> nat option" where
  "next_of P i = list_next (p_order P) i"

definition prev_of :: "program \<Rightarrow> nat \<Rightarrow> nat option" where
  "prev_of P i = list_prev (p_order P) i"

definition deref :: "'a option \<Rightarrow> 'a res" where
  "deref x = res_of_option NullPointer x"

lemma deref_simps [simp]: "deref None = Inl NullPointer" "deref (Some a) = Inr a"
  by (simp_all add: deref_def)

lemma instr_at_upd [simp]:
  "instr_at (upd_instr i f P) j =
     (if j = i \<and> i < length (p_code P) then f (instr_at P i) else instr_at P j)"
  by (auto simp: instr_at_def upd_instr_def)

lemma upd_instr_sel [simp]:
  "p_order (upd_instr i f P) = p_order P" "p_funcs (upd_instr i f P) = p_funcs P"
  "length (p_code (upd_instr i f P)) = length (p_code P)"
  by (simp_all add: upd_instr_def)

lemma next_of_upd [simp]: "next_of (upd_instr i f P) = next_of P"
  by (auto simp: next_of_def fun_eq_iff)

section \<open>Building an instruction\<close>

definition createIMU ::
  "int \<Rightarrow> cTerm option \<Rightarrow> cTerm option \<Rightarrow> cTerm option \<Rightarrow> cInstruction \<Rightarrow> cInstruction" where
  "createIMU oc x1 x2 y ins =
     ins\<lparr>m_imu := \<lparr>imu_oc = oc, imu_x1 = x1, imu_x2 = x2, imu_y = y\<rparr>\<rparr>"

definition createUnconditionalJump :: "int \<Rightarrow> nat option \<Rightarrow> bool \<Rightarrow> cInstruction \<Rightarrow> cInstruction" where
  "createUnconditionalJump oc j after ins =
     ins\<lparr>m_control := (m_control ins)\<lparr>ctl_oc := oc, ctl_jumpInstruction := j, ctl_jumpAfter := after\<rparr>\<rparr>"

definition createConditionalJump ::
  "int \<Rightarrow> int \<Rightarrow> cTerm option \<Rightarrow> cTerm option \<Rightarrow> cTerm option \<Rightarrow> nat option \<Rightarrow> bool \<Rightarrow>
   cInstruction \<Rightarrow> cInstruction" where
  "createConditionalJump control_oc oc x1 x2 y j after ins =
     createUnconditionalJump control_oc j after
       (createIMU oc x1 x2 (case y of Some t \<Rightarrow> Some t | None \<Rightarrow> Some IMU_Null) ins)"

definition createFunctionJump ::
  "string \<Rightarrow> int \<Rightarrow> nat list \<Rightarrow> nat option \<Rightarrow> cInstruction \<Rightarrow> cInstruction" where
  "createFunctionJump func stackSize x_stack y_stack ins =
     (createIMU IOPCODE_ADD (Some IMU_Stack) (Some (IMU_Constant stackSize)) (Some IMU_Stack) ins)
       \<lparr>m_control := (m_control ins)\<lparr>ctl_oc := OPCODE_FUNC, ctl_jumpFunction := func, ctl_jumpAfter := False\<rparr>,
        m_x_stack := iv_clone x_stack, m_y_stack := y_stack\<rparr>"

text \<open>Operations that return \<open>OK\<close> or \<open>FAIL\<close> have the result code as a \<open>bool\<close>.\<close>

definition updateStackInfo :: "int \<Rightarrow> cInstruction \<Rightarrow> (bool \<times> cInstruction) res" where
  "updateStackInfo stackSize ins =
     (if ctl_oc (m_control ins) \<noteq> OPCODE_FUNC then Inr (False, ins)
      else res_bind (deref (imu_x2 (m_imu ins))) (\<lambda>x2. case x2 of
          IMU_Constant c \<Rightarrow> Inr (True, ins\<lparr>m_imu := (m_imu ins)\<lparr>imu_x2 := Some (IMU_Constant stackSize)\<rparr>\<rparr>)
        | _ \<Rightarrow> if is_IMU_Const x2 then Inr (True, ins) else Inl BadCast))"

definition updateConditionalJump :: "int \<Rightarrow> nat option \<Rightarrow> bool \<Rightarrow> cInstruction \<Rightarrow> bool \<times> cInstruction" where
  "updateConditionalJump control_oc j after ins =
     (if imu_oc (m_imu ins) \<le> 0 then (False, ins)
      else (True, createUnconditionalJump control_oc j after ins))"

fun isMuParmValid :: "eMuOpcodeDefDataType \<Rightarrow> cTerm \<Rightarrow> bool res" where
  "isMuParmValid dataType x =
     (if \<not> is_MU x then Inr False
      else (case dataType of
          eMuOpcodeDefDataTypeFloat \<Rightarrow>
            Inr (case x of MU_Null \<Rightarrow> False | MU_Result \<Rightarrow> False | MU_TID \<Rightarrow> False
                 | MU_Constant c f \<Rightarrow> f | _ \<Rightarrow> True)
        | eMuOpcodeDefDataTypeInt \<Rightarrow>
            Inr (case x of MU_Integer _ \<Rightarrow> True | MU_Result \<Rightarrow> True | MU_TID \<Rightarrow> True
                 | MU_Constant c f \<Rightarrow> \<not> f | _ \<Rightarrow> False)
        | eMuOpcodeDefDataTypeNull \<Rightarrow> Inr (x = MU_Null)
        | eMuOpcodeDefDataTypeRaw \<Rightarrow> Inr True
        | eMuOpcodeDefDataTypeInvalid \<Rightarrow> Inl AssertFail))"

definition createMU ::
  "int \<Rightarrow> cTerm \<Rightarrow> cTerm \<Rightarrow> cTerm option \<Rightarrow> cTerm option \<Rightarrow> cInstruction \<Rightarrow> cInstruction res" where
  "createMU oc x1 x2 y xacc ins =
     res_bind (GetMuOpcodeDef oc) (\<lambda>d.
       let a = \<lparr>alu_oc = oc, alu_which = od_alu d, alu_x1 = Some x1, alu_x2 = Some x2,
                alu_y = y, alu_xacc = xacc\<rparr>
       in res_bind (isMuParmValid (od_x1_type d) x1) (\<lambda>v1.
          if \<not> v1 then Inl CompileError
          else res_bind (isMuParmValid (od_x2_type d) x2) (\<lambda>v2.
          if \<not> v2 then Inl CompileError
          else if od_alu d = eMuOpcodeDefAlu2 then Inr (ins\<lparr>m_alu2 := a\<rparr>)
          else Inr (ins\<lparr>m_alu1 := a\<rparr>))))"

definition isNull :: "cInstruction \<Rightarrow> bool" where
  "isNull ins \<longleftrightarrow> alu_oc (m_alu1 ins) \<le> 0 \<and> alu_oc (m_alu2 ins) \<le> 0 \<and>
     imu_oc (m_imu ins) \<le> 0 \<and> ctl_oc (m_control ins) \<le> 0"

definition isMU :: "cInstruction \<Rightarrow> bool" where
  "isMU ins \<longleftrightarrow> alu_oc (m_alu1 ins) > 0 \<or> alu_oc (m_alu2 ins) > 0"

definition setNOP :: "cInstruction \<Rightarrow> cInstruction" where
  "setNOP ins =
     ins\<lparr>m_alu1 := (m_alu1 ins)\<lparr>alu_oc := -1\<rparr>, m_alu2 := (m_alu2 ins)\<lparr>alu_oc := -1\<rparr>,
         m_imu := (m_imu ins)\<lparr>imu_oc := -1\<rparr>, m_control := (m_control ins)\<lparr>ctl_oc := -1\<rparr>\<rparr>"

definition setBeginFunc :: "nat option \<Rightarrow> cInstruction \<Rightarrow> cInstruction" where
  "setBeginFunc f ins = ins\<lparr>m_beginFunc := f\<rparr>"

definition setLabel :: "string option \<Rightarrow> cInstruction \<Rightarrow> cInstruction" where
  "setLabel l ins = ins\<lparr>m_label := (case l of None \<Rightarrow> [] | Some s \<Rightarrow> s)\<rparr>"

definition getLabel :: "cInstruction \<Rightarrow> string option" where
  "getLabel ins = (if m_label ins \<noteq> [] then Some (m_label ins) else None)"

section \<open>Variables an instruction reads and writes\<close>

text \<open>
  A function call reads the variables passed on the stack, and nothing else. The three slots
  of the instruction append to one list.
\<close>

definition alu_getUse :: "bool \<Rightarrow> idents \<Rightarrow> Instruction_alu \<Rightarrow> nat list \<Rightarrow> nat list res" where
  "alu_getUse lane I a lst =
     (if alu_oc a \<le> 0 then Inr lst
      else
        let lst = (case alu_y a of
              None \<Rightarrow> lst
            | Some y \<Rightarrow> (let l = term_getUse y lst
                        in if lane \<and> mu_getVectorWidth I y \<ge> 1 then iv_append l Lane_id else l))
        in res_bind (deref (alu_x1 a)) (\<lambda>x1. res_bind (deref (alu_x2 a)) (\<lambda>x2.
           let l1 = term_getDef I x1 (term_getUse x1 lst);
               l2 = term_getDef I x2 (term_getUse x2 l1)
           in Inr (case alu_xacc a of None \<Rightarrow> l2 | Some x \<Rightarrow> term_getDef I x (term_getUse x l2)))))"

definition imu_getUse :: "idents \<Rightarrow> Instruction_ialu \<Rightarrow> nat list \<Rightarrow> nat list res" where
  "imu_getUse I u lst =
     (if imu_oc u \<le> 0 then Inr lst
      else
        let lst = (case imu_y u of None \<Rightarrow> lst | Some y \<Rightarrow> term_getUse y lst)
        in res_bind (deref (imu_x1 u)) (\<lambda>x1. res_bind (deref (imu_x2 u)) (\<lambda>x2.
           let l1 = term_getDef I x1 (term_getUse x1 lst)
           in Inr (term_getDef I x2 (term_getUse x2 l1)))))"

definition getUse :: "idents \<Rightarrow> cInstruction \<Rightarrow> nat list res" where
  "getUse I ins =
     (if ctl_oc (m_control ins) = OPCODE_FUNC then Inr (iv_clone (m_x_stack ins))
      else res_bind (alu_getUse True I (m_alu1 ins) []) (\<lambda>l1.
           res_bind (alu_getUse False I (m_alu2 ins) l1) (\<lambda>l2.
           imu_getUse I (m_imu ins) l2)))"

text \<open>The function that an instruction is in: backwards to an instruction that begins one.\<close>

fun func_backwards :: "program \<Rightarrow> nat list \<Rightarrow> nat option" where
  "func_backwards P [] = None"
| "func_backwards P (i # is) =
     (case m_beginFunc (instr_at P i) of Some f \<Rightarrow> Some f | None \<Rightarrow> func_backwards P is)"

definition func_of :: "program \<Rightarrow> nat \<Rightarrow> cFuncNode res" where
  "func_of P i =
     res_bind (deref (func_backwards P (i # rev (takeWhile (\<lambda>j. j \<noteq> i) (p_order P)))))
       (\<lambda>f. if f < length (p_funcs P) then Inr (p_funcs P ! f) else Inl NullPointer)"

definition getDef :: "program \<Rightarrow> idents \<Rightarrow> nat \<Rightarrow> nat list res" where
  "getDef P I i =
     (let ins = instr_at P i in
      if ctl_oc (m_control ins) = OPCODE_FUNC then
        res_bind (func_of P i) (\<lambda>f.
          let l0 = (case m_y_stack ins of None \<Rightarrow> [] | Some y \<Rightarrow> iv_append [] y);
              l1 = fold (\<lambda>x l. if isKindOf (ident_at I x) CStack then iv_append l x else l) (fn_ids f) l0
          in Inr (iv_append l1 Result_id))
      else
        let l1 = (if alu_oc (m_alu1 ins) > 0
                  then (case alu_y (m_alu1 ins) of None \<Rightarrow> [] | Some y \<Rightarrow> term_getDef I y []) else []);
            l2 = (if alu_oc (m_alu2 ins) > 0
                  then (case alu_y (m_alu2 ins) of None \<Rightarrow> l1 | Some y \<Rightarrow> term_getDef I y l1) else l1)
        in Inr (if imu_oc (m_imu ins) > 0
                then (case imu_y (m_imu ins) of None \<Rightarrow> l2 | Some y \<Rightarrow> term_getDef I y l2) else l2))"

definition alu_updateIdentifier :: "idents \<Rightarrow> nat \<Rightarrow> nat \<Rightarrow> cTerm option \<Rightarrow> cTerm option res" where
  "alu_updateIdentifier I old new t =
     (case t of None \<Rightarrow> Inr None
      | Some x \<Rightarrow> res_bind (term_updateIdentifier I old new x) (\<lambda>x'. Inr (Some x')))"

text \<open>The accumulator operand is not renamed.\<close>

definition instr_updateIdentifier :: "idents \<Rightarrow> nat \<Rightarrow> nat \<Rightarrow> cInstruction \<Rightarrow> cInstruction res" where
  "instr_updateIdentifier I old new ins =
     (let u = alu_updateIdentifier I old new;
          alu = (\<lambda>a. if alu_oc a > 0 then
                   res_bind (u (alu_y a)) (\<lambda>y. res_bind (u (alu_x1 a)) (\<lambda>x1. res_bind (u (alu_x2 a)) (\<lambda>x2.
                     Inr (a\<lparr>alu_y := y, alu_x1 := x1, alu_x2 := x2\<rparr>))))
                 else Inr a)
      in res_bind (alu (m_alu1 ins)) (\<lambda>a1. res_bind (alu (m_alu2 ins)) (\<lambda>a2.
         let ins' = ins\<lparr>m_alu1 := a1, m_alu2 := a2\<rparr>; m = m_imu ins in
         if imu_oc m > 0 then
           res_bind (u (imu_y m)) (\<lambda>y. res_bind (u (imu_x1 m)) (\<lambda>x1. res_bind (u (imu_x2 m)) (\<lambda>x2.
             Inr (ins'\<lparr>m_imu := m\<lparr>imu_y := y, imu_x1 := x1, imu_x2 := x2\<rparr>\<rparr>))))
         else Inr ins')))"

section \<open>Control flow\<close>

text \<open>\<open>getBranch\<close>: the target of a jump. The target pointer of a jump is not null.\<close>

definition getBranch :: "program \<Rightarrow> cInstruction \<Rightarrow> nat option res" where
  "getBranch P ins =
     (let c = m_control ins in
      if ctl_oc c \<le> 0 then Inr None
      else if ctl_oc c = OPCODE_RETURN then Inr None
      else if ctl_oc c \<in> {OPCODE_JUMP_LT, OPCODE_JUMP_LE, OPCODE_JUMP_GT, OPCODE_JUMP_GE,
                          OPCODE_JUMP_EQ, OPCODE_JUMP_NE, OPCODE_JUMP} then
        (if ctl_jumpAfter c
         then res_bind (deref (ctl_jumpInstruction c)) (\<lambda>j. Inr (next_of P j))
         else Inr (ctl_jumpInstruction c))
      else if ctl_oc c = OPCODE_FUNC then Inr None
      else Inl AssertFail)"

definition reverseLogic :: "int \<Rightarrow> int res" where
  "reverseLogic oc =
     (if oc \<le> 0 then Inr oc
      else if oc = OPCODE_RETURN then Inr OPCODE_RETURN
      else if oc = OPCODE_JUMP_LT then Inr OPCODE_JUMP_GE
      else if oc = OPCODE_JUMP_LE then Inr OPCODE_JUMP_GT
      else if oc = OPCODE_JUMP_GT then Inr OPCODE_JUMP_LE
      else if oc = OPCODE_JUMP_GE then Inr OPCODE_JUMP_LT
      else if oc = OPCODE_JUMP_EQ then Inr OPCODE_JUMP_NE
      else if oc = OPCODE_JUMP_NE then Inr OPCODE_JUMP_EQ
      else if oc = OPCODE_JUMP then Inr OPCODE_JUMP
      else if oc = OPCODE_FUNC then Inr OPCODE_FUNC
      else Inl AssertFail)"

definition getNextInstruction :: "program \<Rightarrow> nat \<Rightarrow> nat option" where
  "getNextInstruction P i =
     (case next_of P i of
        None \<Rightarrow> None
      | Some j \<Rightarrow>
          if m_beginFunc (instr_at P j) \<noteq> None then None
          else if ctl_oc (m_control (instr_at P i)) = OPCODE_RETURN \<or>
                  ctl_oc (m_control (instr_at P i)) = OPCODE_JUMP then None
          else Some j)"

definition getJumpInstruction :: "program \<Rightarrow> nat \<Rightarrow> nat option" where
  "getJumpInstruction P i =
     (let c = m_control (instr_at P i);
          n0 = (if ctl_oc c > 0 \<and> ctl_oc c \<noteq> OPCODE_RETURN then ctl_jumpInstruction c else None);
          n1 = (case n0 of Some j \<Rightarrow> (if ctl_jumpAfter c then next_of P j else Some j) | None \<Rightarrow> None)
      in if n1 = getNextInstruction P i then None else n1)"

text \<open>\<open>GetFunctionEnd\<close>: the last instruction before the next one that begins a function.\<close>

fun func_end :: "program \<Rightarrow> nat list \<Rightarrow> nat \<Rightarrow> nat" where
  "func_end P [] i = i"
| "func_end P (j # js) i =
     (if m_beginFunc (instr_at P j) \<noteq> None then i else func_end P js j)"

definition items_after :: "nat list \<Rightarrow> nat \<Rightarrow> nat list" where
  "items_after xs i = tl (dropWhile (\<lambda>j. j \<noteq> i) xs)"

definition GetFunctionEnd :: "program \<Rightarrow> nat \<Rightarrow> nat" where
  "GetFunctionEnd P i = func_end P (items_after (p_order P) i) i"

text \<open>
  The loop over the instructions from \<open>begin\<close> to \<open>end\<close>, both included, that most functions
  have: it also stops where the list ends.
\<close>

definition upto_incl :: "nat \<Rightarrow> nat list \<Rightarrow> nat list" where
  "upto_incl e xs = (let ys = takeWhile (\<lambda>j. j \<noteq> e) xs in if e \<in> set xs then ys @ [e] else ys)"

definition instr_range :: "program \<Rightarrow> nat \<Rightarrow> nat \<Rightarrow> nat list" where
  "instr_range P b e = upto_incl e (dropWhile (\<lambda>j. j \<noteq> b) (p_order P))"

end
