(* ===== verification/Simplify.thy ===== *)
theory Simplify
  imports Instr
begin

text \<open>
  Simplification of one instruction (\<open>SW/compiler/instruction.cpp\<close>): \<open>simplifyIMU\<close>,
  \<open>simplifyMU\<close>, \<open>simplify\<close>, \<open>getConstantAssignment\<close> and \<open>isCommon\<close>.
\<close>

section \<open>Scalar operations\<close>

text \<open>
  The result of a scalar operation on two constants, computed by the compiler as an \<open>int\<close>. An
  overflow of \<open>+\<close>, \<open>-\<close>, \<open>*\<close> and a shift count out of range are undefined in C++.
\<close>

definition imu_compute :: "int \<Rightarrow> int \<Rightarrow> int \<Rightarrow> int res" where
  "imu_compute oc a b =
     (if oc = IOPCODE_ADD then res_of_option Undefined (c_add a b)
      else if oc = IOPCODE_SUB then res_of_option Undefined (c_sub a b)
      else if oc = IOPCODE_MUL then res_of_option Undefined (c_mul a b)
      else if oc = IOPCODE_SHL then res_of_option Undefined (c_shl a b)
      else if oc = IOPCODE_SHR then res_of_option Undefined (c_shr a b)
      else if oc = IOPCODE_LSHR then res_of_option Undefined (c_lshr a b)
      else if oc = IOPCODE_OR then Inr (a OR b)
      else if oc = IOPCODE_AND then Inr (a AND b)
      else if oc = IOPCODE_XOR then Inr (a XOR b)
      else Inl AssertFail)"

text \<open>Whether a conditional jump on the sign of \<open>result\<close> is taken.\<close>

definition jump_taken :: "int \<Rightarrow> int \<Rightarrow> bool res" where
  "jump_taken oc result =
     (if oc = OPCODE_JUMP_LT then Inr (result < 0)
      else if oc = OPCODE_JUMP_LE then Inr (result \<le> 0)
      else if oc = OPCODE_JUMP_GT then Inr (result > 0)
      else if oc = OPCODE_JUMP_GE then Inr (result \<ge> 0)
      else if oc = OPCODE_JUMP_EQ then Inr (result = 0)
      else if oc = OPCODE_JUMP_NE then Inr (result \<noteq> 0)
      else Inl AssertFail)"

definition plain_const :: "cTerm \<Rightarrow> bool" where
  "plain_const t \<longleftrightarrow> is_IMU_Const t \<and> \<not> is_AddressConstant t"

definition const_or_zero :: "cTerm \<Rightarrow> bool" where
  "const_or_zero t \<longleftrightarrow> plain_const t \<or> t = IMU_Zero"

text \<open>Adding nothing to the destination: one operand is zero, the other is the destination.\<close>

definition adds_zero :: "(nat \<Rightarrow> int) \<Rightarrow> idents \<Rightarrow> Instruction_ialu \<Rightarrow> cTerm \<Rightarrow> cTerm \<Rightarrow> bool res" where
  "adds_zero objaddr I u x1 x2 =
     (if imu_oc u \<noteq> IOPCODE_ADD then Inr False
      else
        let gc = imu_getConstant objaddr I;
            c1 = (is_IMU_Const x1 \<and> gc x1 = 0) \<or> x1 = IMU_Zero;
            c2 = (is_IMU_Const x2 \<and> gc x2 = 0) \<or> x2 = IMU_Zero
        in if c1 \<or> c2 then res_bind (deref (imu_y u)) (\<lambda>y.
             Inr ((c1 \<and> term_eq objaddr I y x2) \<or> (c2 \<and> term_eq objaddr I y x1)))
           else Inr False)"

definition simplifyIMU ::
  "(nat \<Rightarrow> int) \<Rightarrow> idents \<Rightarrow> Instruction_ialu \<Rightarrow> Instruction_control \<Rightarrow>
   (bool \<times> Instruction_ialu \<times> Instruction_control) res" where
  "simplifyIMU objaddr I u c =
     (let gc = imu_getConstant objaddr I in
      if imu_oc u > 0 \<and> ctl_oc c \<le> 0 then
        res_bind (deref (imu_x1 u)) (\<lambda>x1. res_bind (deref (imu_x2 u)) (\<lambda>x2.
          if plain_const x1 \<and> plain_const x2 then
            res_bind (imu_compute (imu_oc u) (gc x1) (gc x2)) (\<lambda>r.
              Inr (True, u\<lparr>imu_x1 := Some (IMU_Constant r), imu_x2 := Some IMU_Zero,
                           imu_oc := IOPCODE_ADD\<rparr>, c))
          else res_bind (adds_zero objaddr I u x1 x2) (\<lambda>z.
            if z then Inr (True, u\<lparr>imu_oc := -1\<rparr>, c) else Inr (False, u, c))))
      else if imu_oc u > 0 \<and> ctl_oc c > 0 then
        res_bind (deref (imu_x1 u)) (\<lambda>x1. res_bind (deref (imu_x2 u)) (\<lambda>x2.
          if const_or_zero x1 \<and> const_or_zero x2 then
            res_bind (imu_compute (imu_oc u) (gc x1) (gc x2)) (\<lambda>r.
            res_bind (jump_taken (ctl_oc c) r) (\<lambda>t.
              Inr (True, u\<lparr>imu_oc := -1\<rparr>, c\<lparr>ctl_oc := (if t then OPCODE_JUMP else -1)\<rparr>)))
          else Inr (False, u, c)))
      else Inr (False, u, c))"

section \<open>Vector operations\<close>

text \<open>
  \<open>OPCODE_SET_FLOAT\<close> builds a float from a sign and mantissa (\<open>IREGISTER_WIDTH\<close> bits) and an
  exponent.
\<close>

definition set_float_bits :: "int \<Rightarrow> int \<Rightarrow> f32" where
  "set_float_bits mantissa e0 =
     (let e = (e0 + 127) AND 255;
          v = (push_bit 23 e) OR (push_bit 11 (mantissa AND 4095));
          v' = (if mantissa AND 4096 \<noteq> 0 then v OR 2147483648 else v)
      in word_of_int v')"

definition simplifyMU ::
  "(nat \<Rightarrow> int) \<Rightarrow> idents \<Rightarrow> Instruction_alu \<Rightarrow> (bool \<times> Instruction_alu) res" where
  "simplifyMU objaddr I a =
     (if alu_oc a \<le> 0 then Inr (False, a)
      else res_bind (deref (alu_x1 a)) (\<lambda>x1. res_bind (deref (alu_x2 a)) (\<lambda>x2.
        case (x1, x2) of
          (MU_Constant c1 f1, MU_Constant c2 f2) \<Rightarrow>
            (let oc = alu_oc a;
                 assign = (\<lambda>v. Inr (True, a\<lparr>alu_x1 := Some (new_MU_Constant_float v),
                                   alu_x2 := Some MU_Null, alu_oc := OPCODE_ASSIGN\<rparr>));
                 flag = (\<lambda>b. Inr (True, a\<lparr>alu_x1 := Some (new_MU_Constant_int (if b then 1 else 0)),
                                   alu_x2 := Some MU_Null, alu_oc := OPCODE_ASSIGN_RAW\<rparr>))
             in if oc = OPCODE_ADD then assign (f32_add c1 c2)
                else if oc = OPCODE_SUB then assign (f32_sub c1 c2)
                else if oc = OPCODE_MUL then assign (f32_mul c1 c2)
                else if oc = OPCODE_CMP_LT then flag (f32_lt c1 c2)
                else if oc = OPCODE_CMP_LE then flag (f32_le c1 c2)
                else if oc = OPCODE_CMP_GT then flag (f32_lt c2 c1)
                else if oc = OPCODE_CMP_GE then flag (f32_le c2 c1)
                else if oc = OPCODE_CMP_EQ then flag (f32_eq c1 c2)
                else if oc = OPCODE_CMP_NE then flag (\<not> f32_eq c1 c2)
                else if oc = OPCODE_SET_FLOAT then
                  (case (f32_to_int c1, f32_to_int c2) of
                     (Some m, Some e) \<Rightarrow>
                       (if in_int32 (e + 127) then
                          Inr (False, a\<lparr>alu_x1 := Some (new_MU_Constant_float (set_float_bits m e)),
                                        alu_x2 := Some MU_Null, alu_oc := OPCODE_ASSIGN\<rparr>)
                        else Inl Undefined)
                   | _ \<Rightarrow> Inl Undefined)
                else Inl AssertFail)
        | (MU_Constant c1 f1, _) \<Rightarrow>
            if alu_oc a = OPCODE_ADD \<and> f32_eq c1 0 then
              res_bind (deref (alu_y a)) (\<lambda>y.
                if term_eq objaddr I y x2 then Inr (True, a\<lparr>alu_oc := -1\<rparr>) else Inr (False, a))
            else Inr (False, a)
        | (_, MU_Constant c2 f2) \<Rightarrow>
            if alu_oc a = OPCODE_ADD \<and> f32_eq c2 0 then
              res_bind (deref (alu_y a)) (\<lambda>y.
                if term_eq objaddr I y x1 then Inr (True, a\<lparr>alu_oc := -1\<rparr>) else Inr (False, a))
            else Inr (False, a)
        | _ \<Rightarrow> Inr (False, a))))"

definition simplify :: "(nat \<Rightarrow> int) \<Rightarrow> idents \<Rightarrow> cInstruction \<Rightarrow> (bool \<times> cInstruction) res" where
  "simplify objaddr I ins =
     res_bind (simplifyMU objaddr I (m_alu1 ins)) (\<lambda>(r1, a1).
     res_bind (simplifyMU objaddr I (m_alu2 ins)) (\<lambda>(r2, a2).
     res_bind (simplifyIMU objaddr I (m_imu ins) (m_control ins)) (\<lambda>(r3, u, c).
       Inr (r1 \<or> r2 \<or> r3, ins\<lparr>m_alu1 := a1, m_alu2 := a2, m_imu := u, m_control := c\<rparr>))))"

section \<open>Queries on one or two instructions\<close>

text \<open>
  \<open>getConstantAssignment\<close>: the destination and the constant, when the instruction assigns a
  constant to one operand.
\<close>

definition alu_const_assign :: "Instruction_alu \<Rightarrow> (cTerm option \<times> cTerm) option res" where
  "alu_const_assign a =
     (if alu_oc a = OPCODE_ASSIGN \<or> alu_oc a = OPCODE_ASSIGN_RAW then
        res_bind (deref (alu_x1 a)) (\<lambda>x1.
          Inr (if is_MU_Const x1 then Some (alu_y a, x1) else None))
      else Inr None)"

definition imu_const_assign :: "Instruction_ialu \<Rightarrow> Instruction_control \<Rightarrow> (cTerm option \<times> cTerm) option res" where
  "imu_const_assign u c =
     (if imu_oc u = IOPCODE_ADD \<and> ctl_oc c \<le> 0 then
        res_bind (deref (imu_x2 u)) (\<lambda>x2. res_bind (deref (imu_x1 u)) (\<lambda>x1.
          Inr (if x2 = IMU_Zero then (if plain_const x1 then Some (imu_y u, x1) else None)
               else if x1 = IMU_Zero then (if plain_const x2 then Some (imu_y u, x2) else None)
               else None)))
      else Inr None)"

definition getConstantAssignment :: "cInstruction \<Rightarrow> (cTerm option \<times> cTerm) option res" where
  "getConstantAssignment ins =
     res_bind (alu_const_assign (m_alu1 ins)) (\<lambda>r1. case r1 of Some r \<Rightarrow> Inr (Some r) | None \<Rightarrow>
     res_bind (alu_const_assign (m_alu2 ins)) (\<lambda>r2. case r2 of Some r \<Rightarrow> Inr (Some r) | None \<Rightarrow>
     imu_const_assign (m_imu ins) (m_control ins)))"

text \<open>
  \<open>isCommon\<close>: whether two instructions compute the same value in the first slot that both use
  with the same opcode, up to the order of the operands of a commutative operation; with the two
  destinations.
\<close>

definition opt_eq :: "(cTerm \<Rightarrow> cTerm \<Rightarrow> bool) \<Rightarrow> cTerm option \<Rightarrow> cTerm option \<Rightarrow> bool res" where
  "opt_eq eq a b = res_bind (deref a) (\<lambda>x. res_bind (deref b) (\<lambda>y. Inr (eq x y)))"

definition res_and :: "bool res \<Rightarrow> bool res \<Rightarrow> bool res" where
  "res_and a b = res_bind a (\<lambda>x. if x then b else Inr False)"

definition same_operands ::
  "(cTerm \<Rightarrow> cTerm \<Rightarrow> bool) \<Rightarrow> bool res \<Rightarrow> cTerm option \<Rightarrow> cTerm option \<Rightarrow> cTerm option \<Rightarrow> cTerm option \<Rightarrow> bool res"
where
  "same_operands eq commutative x1 x2 x1' x2' =
     res_bind (res_and (opt_eq eq x1 x1') (opt_eq eq x2 x2')) (\<lambda>s.
       if s then Inr True
       else res_bind commutative (\<lambda>c.
         if c then res_and (opt_eq eq x1 x2') (opt_eq eq x2 x1') else Inr False))"

definition isCommon ::
  "(nat \<Rightarrow> int) \<Rightarrow> idents \<Rightarrow> cInstruction \<Rightarrow> cInstruction \<Rightarrow> (cTerm option \<times> cTerm option) option res" where
  "isCommon objaddr I ins other =
     (let eq = term_eq objaddr I;
          alu = (\<lambda>a b. res_bind (same_operands eq (IsMuCommutative (alu_oc a))
                        (alu_x1 a) (alu_x2 a) (alu_x1 b) (alu_x2 b))
                   (\<lambda>s. Inr (if s then Some (alu_y a, alu_y b) else None)));
          both = (\<lambda>a b. alu_oc a > 0 \<and> alu_oc b > 0 \<and> alu_oc a = alu_oc b);
          u = m_imu ins; v = m_imu other
      in if both (m_alu1 ins) (m_alu1 other) then alu (m_alu1 ins) (m_alu1 other)
         else if both (m_alu2 ins) (m_alu2 other) then alu (m_alu2 ins) (m_alu2 other)
         else if ctl_oc (m_control ins) \<le> 0 \<and> imu_oc u > 0 \<and> imu_oc v > 0 \<and> imu_oc u = imu_oc v then
           res_bind (same_operands eq (IsImuCommutative (imu_oc u)) (imu_x1 u) (imu_x2 u) (imu_x1 v) (imu_x2 v))
             (\<lambda>s. Inr (if s then Some (imu_y u, imu_y v) else None))
         else Inr None)"

section \<open>The scalar slot keeps its meaning\<close>

text \<open>
  What the scalar and control slots of an instruction do, on the registers \<open>\<rho>\<close> (the value of
  every operand that is not a constant): the new registers, and whether the jump is taken.
  A result written to \<open>IMU_Null\<close> is discarded.
\<close>

definition imu_operand :: "(nat \<Rightarrow> int) \<Rightarrow> idents \<Rightarrow> (cTerm \<Rightarrow> int) \<Rightarrow> cTerm \<Rightarrow> int" where
  "imu_operand objaddr I \<rho> t =
     (if is_IMU_Const t \<or> t = IMU_Zero then imu_getConstant objaddr I t else \<rho> t)"

definition imu_effect ::
  "(nat \<Rightarrow> int) \<Rightarrow> idents \<Rightarrow> (cTerm \<Rightarrow> int) \<Rightarrow> Instruction_ialu \<Rightarrow> ((cTerm \<Rightarrow> int) \<times> int option) res" where
  "imu_effect objaddr I \<rho> u =
     (if imu_oc u \<le> 0 then Inr (\<rho>, None)
      else res_bind (deref (imu_x1 u)) (\<lambda>x1. res_bind (deref (imu_x2 u)) (\<lambda>x2.
           res_bind (deref (imu_y u)) (\<lambda>y.
           res_bind (imu_compute (imu_oc u) (imu_operand objaddr I \<rho> x1) (imu_operand objaddr I \<rho> x2)) (\<lambda>r.
             Inr (if y = IMU_Null then \<rho> else \<rho>(y := r), Some r))))))"

definition ctl_effect :: "Instruction_control \<Rightarrow> int option \<Rightarrow> bool res" where
  "ctl_effect c r =
     (if ctl_oc c \<le> 0 then Inr False
      else if ctl_oc c = OPCODE_JUMP then Inr True
      else res_bind (deref r) (jump_taken (ctl_oc c)))"

definition scalar_step ::
  "(nat \<Rightarrow> int) \<Rightarrow> idents \<Rightarrow> (cTerm \<Rightarrow> int) \<Rightarrow> Instruction_ialu \<Rightarrow> Instruction_control \<Rightarrow>
   ((cTerm \<Rightarrow> int) \<times> bool) res" where
  "scalar_step objaddr I \<rho> u c =
     res_bind (imu_effect objaddr I \<rho> u) (\<lambda>(\<rho>', r).
       res_bind (ctl_effect c r) (\<lambda>t. Inr (\<rho>', t)))"

definition imu_dest_ok :: "cTerm \<Rightarrow> bool" where
  "imu_dest_ok y \<longleftrightarrow>
     (case y of IMU_Integer _ \<Rightarrow> True | IMU_Pointer _ \<Rightarrow> True | IMU_Lane \<Rightarrow> True
      | IMU_Stack \<Rightarrow> True | IMU_Null \<Rightarrow> True | _ \<Rightarrow> False)"

definition imu_slot_ok :: "Instruction_ialu \<Rightarrow> Instruction_control \<Rightarrow> bool" where
  "imu_slot_ok u c \<longleftrightarrow>
     (\<forall>y. imu_y u = Some y \<longrightarrow> imu_dest_ok y) \<and> (ctl_oc c > 0 \<longrightarrow> imu_y u = Some IMU_Null) \<and>
     (\<forall>n. imu_x1 u = Some (IMU_Constant n) \<or> imu_x2 u = Some (IMU_Constant n) \<longrightarrow> in_int32 n) \<and>
     imu_x1 u \<noteq> Some IMU_Null \<and> imu_x2 u \<noteq> Some IMU_Null \<and>
     (\<forall>x. imu_x1 u = Some x \<or> imu_x2 u = Some x \<longrightarrow> is_IMU x)"

lemma in_int32_signed: "in_int32 x \<longleftrightarrow> signed_take_bit 31 x = x"
  by (auto simp: in_int32_def signed_take_bit_int_eq_self_iff)

lemma in_int32_bits:
  assumes "in_int32 a" "in_int32 b"
  shows "in_int32 (a OR b)" "in_int32 (a AND b)" "in_int32 (a XOR b)"
proof -
  have "signed_take_bit 31 (a OR b) = signed_take_bit 31 a OR signed_take_bit 31 b"
    "signed_take_bit 31 (a AND b) = signed_take_bit 31 a AND signed_take_bit 31 b"
    "signed_take_bit 31 (a XOR b) = signed_take_bit 31 a XOR signed_take_bit 31 b"
    by (rule bit_eqI; auto simp: bit_simps)+
  with assms show "in_int32 (a OR b)" "in_int32 (a AND b)" "in_int32 (a XOR b)"
    by (simp_all add: in_int32_signed)
qed

lemma in_int32_div:
  assumes "in_int32 a"
  shows "in_int32 (a div 2 ^ n)"
proof (cases "a \<ge> 0")
  case True
  with zdiv_mono2 [of a 1 "2 ^ n"] pos_imp_zdiv_nonneg_iff [of "2 ^ n" a] assms show ?thesis
    by (simp add: in_int32_def)
next
  case False
  with zdiv_mono2_neg [of a 1 "2 ^ n"] pos_imp_zdiv_neg_iff [of "2 ^ n" a] assms show ?thesis
    by (simp add: in_int32_def)
qed

lemma imu_compute_range:
  assumes "imu_compute oc a b = Inr r" "in_int32 a" "in_int32 b"
  shows "in_int32 r"
  using assms(1) in_int32_bits [OF assms(2,3)] in_int32_div [OF assms(2)]
  by (auto simp: imu_compute_def c_add_def c_sub_def c_mul_def c_shl_def c_shr_def c_lshr_def
      c_checked_def res_of_option_def wrap32_range split: if_splits option.splits)

lemma dest_eq:
  "imu_dest_ok y \<Longrightarrow> is_IMU x \<Longrightarrow> term_eq objaddr I y x \<Longrightarrow> x = y"
  by (cases y; cases x) (auto simp: imu_dest_ok_def term_eq_def is_IMU_def)

lemma dest_not_const:
  "imu_dest_ok y \<Longrightarrow> \<not> is_IMU_Const y \<and> y \<noteq> IMU_Zero"
  by (cases y) (auto simp: imu_dest_ok_def)

lemma jump_taken_None: "jump_taken oc r = Inr t \<Longrightarrow> oc \<noteq> OPCODE_JUMP"
  by (auto simp: jump_taken_def)

lemma const_slot:
  assumes "plain_const x" "imu_x1 u = Some x \<or> imu_x2 u = Some x" "imu_slot_ok u c"
  shows "in_int32 (imu_getConstant objaddr I x)"
  using assms by (cases x) (auto simp: plain_const_def imu_slot_ok_def)

lemma simplifyIMU_scalar:
  assumes ok: "imu_slot_ok u c" and oc: "imu_oc u > 0" "ctl_oc c \<le> 0"
    and simp: "simplifyIMU objaddr I u c = Inr (ch, u', c')"
    and step: "scalar_step objaddr I \<rho> u c = Inr (\<rho>', t)"
  shows "scalar_step objaddr I \<rho> u' c' = Inr (\<rho>', t)"
proof -
  from simp oc obtain x1 x2 where x: "imu_x1 u = Some x1" "imu_x2 u = Some x2"
    by (cases "imu_x1 u"; cases "imu_x2 u") (auto simp: simplifyIMU_def)
  from step oc x obtain y r where y: "imu_y u = Some y" and
    r: "imu_compute (imu_oc u) (imu_operand objaddr I \<rho> x1) (imu_operand objaddr I \<rho> x2) = Inr r"
    and res: "\<rho>' = (if y = IMU_Null then \<rho> else \<rho>(y := r))" "\<not> t"
    by (cases "imu_y u")
      (auto simp: scalar_step_def imu_effect_def ctl_effect_def res_bind_eq_Inr_iff)
  have yok: "imu_dest_ok y" using ok y by (simp add: imu_slot_ok_def)
  show ?thesis
  proof (cases "plain_const x1 \<and> plain_const x2")
    case True
    then have v: "imu_operand objaddr I \<rho> x1 = imu_getConstant objaddr I x1"
      "imu_operand objaddr I \<rho> x2 = imu_getConstant objaddr I x2"
      by (auto simp: imu_operand_def plain_const_def)
    have "in_int32 r"
      using imu_compute_range [OF r] const_slot [of x1 u c] const_slot [of x2 u c] True ok x v by auto
    then have "imu_compute IOPCODE_ADD r 0 = Inr r" by (simp add: imu_compute_def c_add_def c_checked_def)
    with True simp oc x r v y res show ?thesis
      by (auto simp: simplifyIMU_def scalar_step_def imu_effect_def ctl_effect_def imu_operand_def)
  next
    case False
    show ?thesis
    proof (cases "adds_zero objaddr I u x1 x2 = Inr True")
      case True
      then have add: "imu_oc u = IOPCODE_ADD" by (auto simp: adds_zero_def split: if_splits)
      from True y add have "\<exists>z w. (z = x1 \<and> w = x2 \<or> z = x2 \<and> w = x1) \<and>
          (is_IMU_Const z \<and> imu_getConstant objaddr I z = 0 \<or> z = IMU_Zero) \<and> term_eq objaddr I y w"
        by (simp add: adds_zero_def Let_def split: if_splits) blast+
      then obtain z w where zw: "z = x1 \<and> w = x2 \<or> z = x2 \<and> w = x1"
          "is_IMU_Const z \<and> imu_getConstant objaddr I z = 0 \<or> z = IMU_Zero" "term_eq objaddr I y w"
        by blast
      then have w: "w = y" using dest_eq [OF yok] ok x by (auto simp: imu_slot_ok_def)
      have 0: "imu_operand objaddr I \<rho> z = 0" using zw(2) by (auto simp: imu_operand_def)
      have "imu_operand objaddr I \<rho> w = \<rho> y" using w dest_not_const [OF yok] by (simp add: imu_operand_def)
      with 0 zw(1) r add have "r = \<rho> y"
        by (auto simp: imu_compute_def c_add_def c_checked_def split: if_splits)
      with res have "\<rho>' = \<rho>" by simp
      with True False simp oc x res show ?thesis
        by (auto simp: simplifyIMU_def scalar_step_def imu_effect_def ctl_effect_def Let_def)
    next
      case no: False
      with False simp oc x have "u' = u" "c' = c"
        by (cases "adds_zero objaddr I u x1 x2"; auto simp: simplifyIMU_def Let_def split: if_splits)+
      with step show ?thesis by simp
    qed
  qed
qed

lemma simplifyIMU_jump:
  assumes ok: "imu_slot_ok u c" and oc: "imu_oc u > 0" "ctl_oc c > 0"
    and simp: "simplifyIMU objaddr I u c = Inr (ch, u', c')"
    and step: "scalar_step objaddr I \<rho> u c = Inr (\<rho>', t)"
  shows "scalar_step objaddr I \<rho> u' c' = Inr (\<rho>', t)"
proof -
  from simp oc obtain x1 x2 where x: "imu_x1 u = Some x1" "imu_x2 u = Some x2"
    by (cases "imu_x1 u"; cases "imu_x2 u") (auto simp: simplifyIMU_def)
  have y: "imu_y u = Some IMU_Null" using ok oc(2) by (simp add: imu_slot_ok_def)
  show ?thesis
  proof (cases "const_or_zero x1 \<and> const_or_zero x2")
    case True
    then have v: "imu_operand objaddr I \<rho> x1 = imu_getConstant objaddr I x1"
      "imu_operand objaddr I \<rho> x2 = imu_getConstant objaddr I x2"
      by (auto simp: imu_operand_def plain_const_def const_or_zero_def)
    from True simp oc x obtain r s where
      r: "imu_compute (imu_oc u) (imu_getConstant objaddr I x1) (imu_getConstant objaddr I x2) = Inr r"
      and s: "jump_taken (ctl_oc c) r = Inr s"
      and u': "u' = u\<lparr>imu_oc := -1\<rparr>" "c' = c\<lparr>ctl_oc := (if s then OPCODE_JUMP else -1)\<rparr>"
      by (auto simp: simplifyIMU_def res_bind_eq_Inr_iff Let_def)
    from step oc x y v r s jump_taken_None [OF s] have "\<rho>' = \<rho>" "t = s"
      by (auto simp: scalar_step_def imu_effect_def ctl_effect_def)
    with u' show ?thesis
      by (simp add: scalar_step_def imu_effect_def ctl_effect_def)
  next
    case False
    with simp oc x have "u' = u" "c' = c" by (auto simp: simplifyIMU_def Let_def)
    with step show ?thesis by simp
  qed
qed


text \<open>A conditional jump \<open>5 - 7 < 0\<close>, which is always taken.\<close>

definition sample_jump_imu :: Instruction_ialu where
  "sample_jump_imu = \<lparr>imu_oc = IOPCODE_SUB, imu_x1 = Some (IMU_Constant 5),
     imu_x2 = Some (IMU_Constant 7), imu_y = Some IMU_Null\<rparr>"

definition sample_jump_control :: Instruction_control where
  "sample_jump_control = \<lparr>ctl_oc = OPCODE_JUMP_LT, ctl_jumpInstruction = Some 3,
     ctl_jumpFunction = [], ctl_jumpAfter = False\<rparr>"

lemmas sample_jump = sample_jump_imu_def sample_jump_control_def


end
