(* ===== verification/Flow.thy ===== *)
theory Flow
  imports Simplify
begin

text \<open>
  Functions of \<open>SW/compiler/instruction.cpp\<close> that walk the instructions of one function:
  removal of unreachable instructions, blocks with one entry and one exit, straight-line ranges,
  use and definition counts, and the queries about a function that the code generator of the
  host program asks (\<open>GetFunctionBegin\<close>, \<open>GetEncodedFunctionAddress\<close>, ...).
\<close>

section \<open>Dead code\<close>

text \<open>
  \<open>removeDeadCode2\<close> marks what is reachable. Its loop and its recursion each mark one more
  instruction before they go on, so the number of unmarked instructions bounds the depth
  \<open>fuel\<close>; running off the end of the program reads a null pointer.
\<close>

definition mark_instr :: "cInstruction \<Rightarrow> cInstruction" where
  "mark_instr ins = ins\<lparr>m_flag := True\<rparr>"

definition unmark_instr :: "cInstruction \<Rightarrow> cInstruction" where
  "unmark_instr ins = ins\<lparr>m_flag := False\<rparr>"

fun removeDeadCode2 :: "nat \<Rightarrow> program \<Rightarrow> nat \<Rightarrow> program res option" where
  "removeDeadCode2 0 P i = None"
| "removeDeadCode2 (Suc fuel) P i =
     (if m_flag (instr_at P i) then Some (Inr P)
      else
        let P1 = upd_instr i mark_instr P; c = m_control (instr_at P i)
        in if ctl_oc c = OPCODE_RETURN then Some (Inr P1)
           else (case getBranch P1 (instr_at P1 i) of
               Inl e \<Rightarrow> Some (Inl e)
             | Inr b \<Rightarrow>
                 (case (case b of
                     Some j \<Rightarrow> (if \<not> m_flag (instr_at P1 j) then removeDeadCode2 fuel P1 j
                               else Some (Inr P1))
                   | None \<Rightarrow> Some (Inr P1)) of
                   None \<Rightarrow> None
                 | Some (Inl e) \<Rightarrow> Some (Inl e)
                 | Some (Inr P2) \<Rightarrow>
                     if ctl_oc c = OPCODE_JUMP then Some (Inr P2)
                     else (case next_of P2 i of
                         None \<Rightarrow> Some (Inl NullPointer)
                       | Some n \<Rightarrow> removeDeadCode2 fuel P2 n))))"

definition removeDeadCode :: "program \<Rightarrow> nat \<Rightarrow> program res option" where
  "removeDeadCode P begin =
     (let range = instr_range P begin (GetFunctionEnd P begin);
          P1 = fold (\<lambda>i. upd_instr i unmark_instr) range P
      in case removeDeadCode2 (Suc (length (p_code P))) P1 begin of
          None \<Rightarrow> None
        | Some (Inl e) \<Rightarrow> Some (Inl e)
        | Some (Inr P2) \<Rightarrow>
            Some (Inr (fold (\<lambda>i Q. if \<not> m_flag (instr_at Q i) then upd_instr i setNOP Q else Q) range P2)))"

subsection \<open>What is marked\<close>

text \<open>The instructions that may execute after instruction \<open>i\<close>.\<close>

definition flow_succ :: "program \<Rightarrow> nat \<Rightarrow> nat \<Rightarrow> bool" where
  "flow_succ P i j \<longleftrightarrow>
     (let c = m_control (instr_at P i) in
      ctl_oc c \<noteq> OPCODE_RETURN \<and>
      (getBranch P (instr_at P i) = Inr (Some j) \<or>
       ctl_oc c \<noteq> OPCODE_JUMP \<and> next_of P i = Some j))"

definition flow_reach :: "program \<Rightarrow> nat \<Rightarrow> nat \<Rightarrow> bool" where
  "flow_reach P = (flow_succ P)\<^sup>*\<^sup>*"

definition flow_ok :: "program \<Rightarrow> nat \<Rightarrow> bool" where
  "flow_ok P i \<longleftrightarrow>
     i < length (p_code P) \<and>
     (ctl_oc (m_control (instr_at P i)) \<noteq> OPCODE_RETURN \<longrightarrow>
        (\<exists>b. getBranch P (instr_at P i) = Inr b) \<and>
        (ctl_oc (m_control (instr_at P i)) \<noteq> OPCODE_JUMP \<longrightarrow> next_of P i \<noteq> None))"

definition marked :: "program \<Rightarrow> nat set" where
  "marked P = {i. i < length (p_code P) \<and> m_flag (instr_at P i)}"

definition unmarked :: "program \<Rightarrow> nat set" where
  "unmarked P = {i. i < length (p_code P) \<and> \<not> m_flag (instr_at P i)}"

text \<open>Two programs that differ in the marks only.\<close>

definition same_but_flags :: "program \<Rightarrow> program \<Rightarrow> bool" where
  "same_but_flags P Q \<longleftrightarrow>
     p_order Q = p_order P \<and> p_funcs Q = p_funcs P \<and> length (p_code Q) = length (p_code P) \<and>
     (\<forall>i. mark_instr (instr_at Q i) = mark_instr (instr_at P i))"

lemma mark_instr_sel [simp]:
  "m_control (mark_instr ins) = m_control ins" "m_flag (mark_instr ins)"
  "mark_instr (mark_instr ins) = mark_instr ins" "mark_instr (unmark_instr ins) = mark_instr ins"
  "\<not> m_flag (unmark_instr ins)" "m_control (unmark_instr ins) = m_control ins"
  by (simp_all add: mark_instr_def unmark_instr_def)

lemma same_but_flags_refl [simp]: "same_but_flags P P"
  by (simp add: same_but_flags_def)

lemma same_but_flags_trans: "same_but_flags P Q \<Longrightarrow> same_but_flags Q R \<Longrightarrow> same_but_flags P R"
  by (simp add: same_but_flags_def)

lemma same_but_flags_mark: "same_but_flags P (upd_instr i mark_instr P)"
  by (simp add: same_but_flags_def)

lemma same_but_flags_control:
  "same_but_flags P Q \<Longrightarrow> m_control (instr_at Q i) = m_control (instr_at P i)"
  unfolding same_but_flags_def by (metis mark_instr_sel(1))

lemma same_but_flags_next: "same_but_flags P Q \<Longrightarrow> next_of Q i = next_of P i"
  by (simp add: same_but_flags_def next_of_def)

lemma getBranch_cong:
  "m_control a = m_control b \<Longrightarrow> p_order P = p_order Q \<Longrightarrow> getBranch P a = getBranch Q b"
  by (simp add: getBranch_def next_of_def Let_def)

lemma same_but_flags_branch:
  "same_but_flags P Q \<Longrightarrow> getBranch Q (instr_at Q i) = getBranch P (instr_at P i)"
  by (rule getBranch_cong) (simp_all add: same_but_flags_control, simp add: same_but_flags_def)

lemma same_but_flags_flow:
  assumes "same_but_flags P Q"
  shows "flow_succ Q = flow_succ P" "flow_reach Q = flow_reach P" "flow_ok Q = flow_ok P"
proof -
  show s: "flow_succ Q = flow_succ P"
    by (simp add: flow_succ_def fun_eq_iff same_but_flags_control [OF assms]
        same_but_flags_branch [OF assms] same_but_flags_next [OF assms])
  show "flow_reach Q = flow_reach P" by (simp add: flow_reach_def s)
  show "flow_ok Q = flow_ok P"
    using assms
    by (simp add: flow_ok_def fun_eq_iff same_but_flags_control [OF assms]
        same_but_flags_branch [OF assms] same_but_flags_next [OF assms])
      (simp add: same_but_flags_def)
qed

lemma marked_mark:
  "i < length (p_code P) \<Longrightarrow> marked (upd_instr i mark_instr P) = insert i (marked P)"
  "i < length (p_code P) \<Longrightarrow> unmarked (upd_instr i mark_instr P) = unmarked P - {i}"
  by (auto simp: marked_def unmarked_def)

lemma finite_unmarked [simp]: "finite (unmarked P)"
  by (simp add: unmarked_def)

lemma unmarked_mono:
  assumes "same_but_flags P Q" "marked P \<subseteq> marked Q"
  shows "unmarked Q \<subseteq> unmarked P"
  using assms by (auto simp: marked_def unmarked_def same_but_flags_def)

text \<open>The specification of one call, for an instruction that is not marked yet.\<close>

definition dead2_post :: "program \<Rightarrow> nat \<Rightarrow> program \<Rightarrow> bool" where
  "dead2_post P i Q \<longleftrightarrow>
     same_but_flags P Q \<and> marked P \<subseteq> marked Q \<and> i \<in> marked Q \<and>
     marked Q \<subseteq> marked P \<union> {j. flow_reach P i j} \<and>
     (\<forall>j\<in>marked Q - marked P. \<forall>k. flow_succ P j k \<longrightarrow> k \<in> marked Q)"

lemma flow_reach_step: "flow_succ P i j \<Longrightarrow> flow_reach P j k \<Longrightarrow> flow_reach P i k"
  by (simp add: flow_reach_def converse_rtranclp_into_rtranclp)

lemma flow_reach_refl [simp]: "flow_reach P i i"
  by (simp add: flow_reach_def)

text \<open>The state between the two calls: \<open>i\<close> is marked, and what was reached from its branch.\<close>

definition dead2_mid :: "program \<Rightarrow> nat \<Rightarrow> program \<Rightarrow> bool" where
  "dead2_mid P i Q \<longleftrightarrow>
     same_but_flags P Q \<and> insert i (marked P) \<subseteq> marked Q \<and>
     marked Q \<subseteq> marked P \<union> {j. flow_reach P i j} \<and>
     (\<forall>j\<in>marked Q - insert i (marked P). \<forall>k. flow_succ P j k \<longrightarrow> k \<in> marked Q)"

lemma dead2_mid_mark:
  "i < length (p_code P) \<Longrightarrow> dead2_mid P i (upd_instr i mark_instr P)"
  by (simp add: dead2_mid_def same_but_flags_mark marked_mark)

lemma dead2_midD:
  assumes "dead2_mid P i Q"
  shows "same_but_flags P Q" "i \<in> marked Q" "marked P \<subseteq> marked Q"
    "marked Q \<subseteq> marked P \<union> {j. flow_reach P i j}"
    "j \<in> marked Q \<Longrightarrow> j \<noteq> i \<Longrightarrow> j \<notin> marked P \<Longrightarrow> flow_succ P j k \<Longrightarrow> k \<in> marked Q"
  using assms unfolding dead2_mid_def by blast+

lemma dead2_postD:
  assumes "dead2_post P i Q"
  shows "same_but_flags P Q" "i \<in> marked Q" "marked P \<subseteq> marked Q"
    "marked Q \<subseteq> marked P \<union> {j. flow_reach P i j}"
    "j \<in> marked Q \<Longrightarrow> j \<notin> marked P \<Longrightarrow> flow_succ P j k \<Longrightarrow> k \<in> marked Q"
  using assms unfolding dead2_post_def by blast+

lemma dead2_mid_post:
  assumes "dead2_mid P i Q" "\<forall>k. flow_succ P i k \<longrightarrow> k \<in> marked Q"
  shows "dead2_post P i Q"
proof -
  have "k \<in> marked Q" if "j \<in> marked Q - marked P" "flow_succ P j k" for j k
    using assms(2) that dead2_midD(5) [OF assms(1), of j k] by blast
  then show ?thesis using dead2_midD(1-4) [OF assms(1)] unfolding dead2_post_def by blast
qed

lemma dead2_mid_call:
  assumes mid: "dead2_mid P i P1" and s: "flow_succ P i j" and post: "dead2_post P1 j Q"
  shows "dead2_mid P i Q" "j \<in> marked Q" "marked P1 \<subseteq> marked Q"
proof -
  have same: "same_but_flags P P1" using mid by (simp add: dead2_mid_def)
  note flow = same_but_flags_flow [OF same]
  show j: "j \<in> marked Q" and sub: "marked P1 \<subseteq> marked Q"
    using post by (simp_all add: dead2_post_def)
  have "same_but_flags P Q"
    using same_but_flags_trans [OF same] post by (simp add: dead2_post_def)
  moreover have "insert i (marked P) \<subseteq> marked Q" using mid sub by (auto simp: dead2_mid_def)
  moreover have "marked Q \<subseteq> marked P \<union> {j. flow_reach P i j}"
  proof
    fix k assume "k \<in> marked Q"
    then have "k \<in> marked P1 \<or> flow_reach P j k" using post flow by (auto simp: dead2_post_def)
    then show "k \<in> marked P \<union> {j. flow_reach P i j}"
      using mid flow_reach_step [OF s] by (auto simp: dead2_mid_def)
  qed
  moreover have "k \<in> marked Q" if "l \<in> marked Q - insert i (marked P)" "flow_succ P l k" for l k
  proof (cases "l \<in> marked P1")
    case True
    with that dead2_midD(5) [OF mid True, of k] sub show ?thesis by blast
  next
    case False
    with that have "l \<in> marked Q - marked P1" "flow_succ P1 l k" by (simp_all add: flow)
    with dead2_postD(5) [OF post, of l k] show ?thesis by blast
  qed
  ultimately show "dead2_mid P i Q" unfolding dead2_mid_def by blast
qed

lemma dead2_spec:
  assumes "\<forall>j. flow_reach P i j \<longrightarrow> flow_ok P j" and "card (unmarked P) < fuel"
  shows "\<exists>Q. removeDeadCode2 fuel P i = Some (Inr Q) \<and> dead2_post P i Q"
  using assms
proof (induction fuel arbitrary: P i)
  case (Suc fuel)
  have ok: "flow_ok P i" using Suc.prems(1) flow_reach_refl by blast
  then have il: "i < length (p_code P)" by (simp add: flow_ok_def)
  show ?case
  proof (cases "m_flag (instr_at P i)")
    case True
    with il have "dead2_post P i P" by (simp add: dead2_post_def marked_def)
    with True show ?thesis by simp
  next
    case False
    define P1 where "P1 = upd_instr i mark_instr P"
    let ?c = "m_control (instr_at P i)"
    have same1: "same_but_flags P P1" by (simp add: P1_def same_but_flags_mark)
    have mid1: "dead2_mid P i P1" unfolding P1_def by (rule dead2_mid_mark [OF il])
    have iu: "i \<in> unmarked P" using False il by (simp add: unmarked_def)
    have small: "card (unmarked Q) < fuel" if "dead2_mid P i Q" for Q
    proof -
      have "i \<notin> unmarked Q" using dead2_midD(2) [OF that] by (simp add: marked_def unmarked_def)
      then have "unmarked Q \<subseteq> unmarked P - {i}"
        using unmarked_mono [OF dead2_midD(1,3) [OF that]] by blast
      then have "card (unmarked Q) < card (unmarked P)"
        using iu by (meson card_Diff1_less card_mono finite_Diff finite_unmarked le_less_trans)
      with Suc.prems(2) show ?thesis by simp
    qed
    have call: "\<exists>R. removeDeadCode2 fuel Q j = Some (Inr R) \<and> dead2_mid P i R \<and>
        j \<in> marked R \<and> marked Q \<subseteq> marked R"
      if Q: "dead2_mid P i Q" and j: "flow_succ P i j" for Q j
    proof -
      have same: "same_but_flags P Q" using Q by (simp add: dead2_mid_def)
      have "\<forall>k. flow_reach Q j k \<longrightarrow> flow_ok Q k"
        using Suc.prems(1) flow_reach_step [OF j] by (simp add: same_but_flags_flow [OF same])
      from Suc.IH [OF this small [OF Q]] obtain R where
        R: "removeDeadCode2 fuel Q j = Some (Inr R)" "dead2_post Q j R" by blast
      with dead2_mid_call [OF Q j] show ?thesis by blast
    qed
    show ?thesis
    proof (cases "ctl_oc ?c = OPCODE_RETURN")
      case True
      then have "dead2_post P i P1"
        by (intro dead2_mid_post [OF mid1]) (simp add: flow_succ_def)
      with True False show ?thesis by (simp add: P1_def Let_def)
    next
      case nret: False
      obtain b where b: "getBranch P (instr_at P i) = Inr b" using ok nret by (auto simp: flow_ok_def)
      have b1: "getBranch P1 (instr_at P1 i) = Inr b" using b same_but_flags_branch [OF same1] by simp
      have bs: "flow_succ P i j" if "b = Some j" for j
        using that b nret by (simp add: flow_succ_def Let_def)
      define r where "r = (case b of
                     Some j \<Rightarrow> (if \<not> m_flag (instr_at P1 j) then removeDeadCode2 fuel P1 j
                               else Some (Inr P1))
                   | None \<Rightarrow> Some (Inr P1))"
      have "\<exists>P2. r = Some (Inr P2) \<and> dead2_mid P i P2 \<and> (\<forall>j. b = Some j \<longrightarrow> j \<in> marked P2)"
      proof (cases b)
        case None
        with mid1 show ?thesis by (simp add: r_def)
      next
        case (Some j)
        show ?thesis
        proof (cases "m_flag (instr_at P1 j)")
          case True
          have "flow_ok P j" using Suc.prems(1) bs [OF Some] by (meson flow_reach_refl flow_reach_step)
          then have "j \<in> marked P1" using True by (simp add: marked_def flow_ok_def P1_def)
          with True mid1 Some show ?thesis by (simp add: r_def)
        next
          case False
          with call [OF mid1 bs [OF Some]] Some show ?thesis by (auto simp: r_def)
        qed
      qed
      then obtain P2 where P2: "r = Some (Inr P2)" "dead2_mid P i P2"
        "\<forall>j. b = Some j \<longrightarrow> j \<in> marked P2" by blast
      have unfold: "removeDeadCode2 (Suc fuel) P i =
          (if ctl_oc ?c = OPCODE_JUMP then Some (Inr P2)
           else case next_of P2 i of None \<Rightarrow> Some (Inl NullPointer) | Some n \<Rightarrow> removeDeadCode2 fuel P2 n)"
        using False nret b1 P2(1) unfolding r_def P1_def by (simp add: Let_def)
      show ?thesis
      proof (cases "ctl_oc ?c = OPCODE_JUMP")
        case True
        have "dead2_post P i P2"
          by (rule dead2_mid_post [OF P2(2)]) (use P2(3) b True in \<open>auto simp: flow_succ_def Let_def\<close>)
        with True unfold show ?thesis by simp
      next
        case njump: False
        obtain n where n: "next_of P i = Some n" using ok nret njump by (auto simp: flow_ok_def)
        have ns: "flow_succ P i n" using n nret njump by (simp add: flow_succ_def Let_def)
        have n2: "next_of P2 i = Some n"
          using n same_but_flags_next [of P P2] P2(2) by (simp add: dead2_mid_def)
        from call [OF P2(2) ns] obtain R where R: "removeDeadCode2 fuel P2 n = Some (Inr R)"
          "dead2_mid P i R" "n \<in> marked R" "marked P2 \<subseteq> marked R" by blast
        have "dead2_post P i R"
          by (rule dead2_mid_post [OF R(2)])
            (use R(3,4) P2(3) b n in \<open>auto simp: flow_succ_def Let_def\<close>)
        with R(1) njump unfold n2 show ?thesis by simp
      qed
    qed
  qed
qed simp

text \<open>When nothing reachable was marked before, exactly the reachable instructions are marked.\<close>

lemma dead2_marks_reachable:
  assumes "dead2_post P i Q" "\<forall>j. flow_reach P i j \<longrightarrow> j \<notin> marked P"
  shows "marked Q - marked P = {j. flow_reach P i j}"
proof
  show "marked Q - marked P \<subseteq> {j. flow_reach P i j}" using assms by (auto simp: dead2_post_def)
  show "{j. flow_reach P i j} \<subseteq> marked Q - marked P"
  proof
    fix j assume "j \<in> {j. flow_reach P i j}"
    then have "(flow_succ P)\<^sup>*\<^sup>* i j" by (simp add: flow_reach_def)
    then have "j \<in> marked Q"
    proof induction
      case base
      from assms(1) show ?case by (simp add: dead2_post_def)
    next
      case (step y z)
      then have "y \<notin> marked P" using assms(2) by (simp add: flow_reach_def)
      with step assms(1) show ?case by (auto simp: dead2_post_def)
    qed
    with assms(2) \<open>j \<in> {j. flow_reach P i j}\<close> show "j \<in> marked Q - marked P" by auto
  qed
qed

subsection \<open>The whole pass\<close>

lemma fold_unmark:
  "same_but_flags P (fold (\<lambda>i. upd_instr i unmark_instr) is P) \<and>
   marked (fold (\<lambda>i. upd_instr i unmark_instr) is P) = marked P - set is"
proof (induction "is" arbitrary: P)
  case (Cons i "is")
  have "same_but_flags P (upd_instr i unmark_instr P)"
    by (simp add: same_but_flags_def)
  moreover have "marked (upd_instr i unmark_instr P) = marked P - {i}"
    by (auto simp: marked_def)
  ultimately show ?case
    using Cons.IH [of "upd_instr i unmark_instr P"] same_but_flags_trans by auto
qed simp

definition nop_unmarked :: "nat list \<Rightarrow> program \<Rightarrow> program" where
  "nop_unmarked is Q =
     fold (\<lambda>i Q. if \<not> m_flag (instr_at Q i) then upd_instr i setNOP Q else Q) is Q"

lemma setNOP_sel [simp]:
  "m_flag (setNOP ins) = m_flag ins" "setNOP (setNOP ins) = setNOP ins"
  "mark_instr (setNOP ins) = setNOP (mark_instr ins)"
  by (simp_all add: setNOP_def mark_instr_def)

lemma nop_unmarked_sel [simp]:
  "p_order (nop_unmarked is Q) = p_order Q"
  "length (p_code (nop_unmarked is Q)) = length (p_code Q)"
proof -
  show "p_order (nop_unmarked is Q) = p_order Q"
    unfolding nop_unmarked_def by (induction "is" arbitrary: Q) auto
  show "length (p_code (nop_unmarked is Q)) = length (p_code Q)"
    unfolding nop_unmarked_def by (induction "is" arbitrary: Q) auto
qed

lemma nop_unmarked_at:
  "instr_at (nop_unmarked is Q) j =
     (if j \<in> set is \<and> j < length (p_code Q) \<and> \<not> m_flag (instr_at Q j)
      then setNOP (instr_at Q j) else instr_at Q j)"
proof (induction "is" arbitrary: Q)
  case (Cons i "is")
  have "nop_unmarked (i # is) Q =
      nop_unmarked is (if \<not> m_flag (instr_at Q i) then upd_instr i setNOP Q else Q)"
    by (simp add: nop_unmarked_def)
  then show ?case by (auto simp: Cons.IH)
qed (simp add: nop_unmarked_def)

definition function_range :: "program \<Rightarrow> nat \<Rightarrow> nat list" where
  "function_range P b = instr_range P b (GetFunctionEnd P b)"

text \<open>
  C16: Removing dead code returns, for every function whose control flow stays in the function and
  does not run off its end, and it turns exactly the instructions into NOPs that no path from the
  first instruction of the function reaches. Every other instruction, and the order of the
  program, stay as they are (up to the marks the pass leaves).
\<close>

theorem removeDeadCode_correct:
  assumes flow: "\<forall>j. flow_reach P b j \<longrightarrow> flow_ok P j \<and> j \<in> set (function_range P b)"
  shows "\<exists>Q. removeDeadCode P b = Some (Inr Q) \<and> p_order Q = p_order P \<and>
    (\<forall>i. mark_instr (instr_at Q i) =
         mark_instr (if i \<in> set (function_range P b) \<and> i < length (p_code P) \<and> \<not> flow_reach P b i
                     then setNOP (instr_at P i) else instr_at P i))"
proof -
  let ?R = "function_range P b"
  define P1 where "P1 = fold (\<lambda>i. upd_instr i unmark_instr) ?R P"
  have same1: "same_but_flags P P1" and m1: "marked P1 = marked P - set ?R"
    using fold_unmark [of P ?R] by (simp_all add: P1_def)
  have len1: "length (p_code P1) = length (p_code P)" using same1 by (simp add: same_but_flags_def)
  have "unmarked P1 \<subseteq> {..<length (p_code P1)}" by (auto simp: unmarked_def)
  then have "card (unmarked P1) \<le> length (p_code P1)"
    using card_mono [of "{..<length (p_code P1)}" "unmarked P1"] by simp
  then have fuel: "card (unmarked P1) < Suc (length (p_code P))" by (simp add: len1)
  have "\<forall>j. flow_reach P1 b j \<longrightarrow> flow_ok P1 j"
    using flow by (simp add: same_but_flags_flow [OF same1])
  from dead2_spec [OF this fuel] obtain P2 where
    P2: "removeDeadCode2 (Suc (length (p_code P))) P1 b = Some (Inr P2)" "dead2_post P1 b P2" by blast
  have "\<forall>j. flow_reach P1 b j \<longrightarrow> j \<notin> marked P1"
    using flow m1 by (simp add: same_but_flags_flow [OF same1])
  from dead2_marks_reachable [OF P2(2) this]
  have m2: "marked P2 - marked P1 = {j. flow_reach P b j}" by (simp add: same_but_flags_flow [OF same1])
  have same2: "same_but_flags P P2" using same_but_flags_trans [OF same1] dead2_postD(1) [OF P2(2)] by blast
  have len2: "length (p_code P2) = length (p_code P)" using same2 by (simp add: same_but_flags_def)
  have flag: "m_flag (instr_at P2 i) \<longleftrightarrow> flow_reach P b i" if "i \<in> set ?R" "i < length (p_code P)" for i
  proof -
    have "i \<notin> marked P1" using that m1 by simp
    with m2 have "i \<in> marked P2 \<longleftrightarrow> flow_reach P b i" by blast
    with that len2 show ?thesis by (simp add: marked_def)
  qed
  have res: "removeDeadCode P b = Some (Inr (nop_unmarked ?R P2))"
    using P2(1) unfolding removeDeadCode_def nop_unmarked_def P1_def Let_def function_range_def
    by (simp del: removeDeadCode2.simps)
  have "mark_instr (instr_at (nop_unmarked ?R P2) i) =
      mark_instr (if i \<in> set ?R \<and> i < length (p_code P) \<and> \<not> flow_reach P b i
                  then setNOP (instr_at P i) else instr_at P i)" for i
    using same2 flag [of i] by (auto simp: nop_unmarked_at len2 same_but_flags_def)
  with res same2 show ?thesis by (auto simp: same_but_flags_def)
qed

text \<open>A function that returns at once: the instruction after the return is removed.\<close>

definition return_program :: program where
  "return_program = \<lparr>p_code =
     [createUnconditionalJump OPCODE_RETURN None False new_cInstruction\<lparr>m_beginFunc := Some 0\<rparr>,
      createIMU IOPCODE_ADD (Some IMU_Zero) (Some (IMU_Constant 5)) (Some (IMU_Integer 2)) new_cInstruction],
     p_order = [0, 1], p_funcs = []\<rparr>"

lemma return_program_flow: "flow_reach return_program 0 j \<Longrightarrow> j = 0"
  unfolding flow_reach_def
proof (induction rule: rtranclp_induct)
  case (step y z)
  then show ?case
    by (simp add: flow_succ_def return_program_def instr_at_def createUnconditionalJump_def new_cInstruction_def)
qed simp

theorem removeDeadCode_correct_witness:
  "\<exists>Q. removeDeadCode return_program 0 = Some (Inr Q) \<and> isNull (instr_at Q 1) \<and> \<not> isNull (instr_at Q 0)"
proof -
  have ok: "flow_ok return_program 0"
    by (simp add: flow_ok_def return_program_def instr_at_def createUnconditionalJump_def new_cInstruction_def)
  have r: "0 \<in> set (function_range return_program 0)"
    "1 \<in> set (function_range return_program 0)" by code_simp+
  have nr: "\<not> flow_reach return_program 0 1" using return_program_flow [of 1] by auto
  have r0: "flow_reach return_program 0 0" by (simp add: flow_reach_def)
  from removeDeadCode_correct [of return_program 0] ok r return_program_flow obtain Q where
    Q: "removeDeadCode return_program 0 = Some (Inr Q)" and
    at: "\<And>i. mark_instr (instr_at Q i) =
         mark_instr (if i \<in> set (function_range return_program 0) \<and> i < length (p_code return_program) \<and>
                       \<not> flow_reach return_program 0 i
                     then setNOP (instr_at return_program i) else instr_at return_program i)"
    by (metis (no_types, lifting))
  have null: "isNull (mark_instr a) = isNull a" for a by (simp add: isNull_def mark_instr_def)
  have len: "length (p_code return_program) = 2" by (simp add: return_program_def)
  have "isNull (instr_at Q 1)"
    using at [of 1] nr r(2) null [of "instr_at Q 1"] len by (simp add: null) (simp add: isNull_def setNOP_def)
  moreover have "\<not> isNull (instr_at return_program 0)" by code_simp
  then have "\<not> isNull (instr_at Q 0)" using at [of 0] r0 null by metis
  ultimately show ?thesis using Q by blast
qed

end
