(* ===== verification/Blocks.thy ===== *)
theory Blocks
  imports Flow
begin

text \<open>
  More walks over one function (\<open>SW/compiler/instruction.cpp\<close>): straight-line ranges and their
  uses and definitions, and the blocks with one entry and one exit that the constant folding
  works on.
\<close>

section \<open>Ranges\<close>

text \<open>
  \<open>skip\<close> drops the first instruction of the range when \<open>after\<close> is set and the last one when
  \<open>before\<close> is set.
\<close>

definition skip :: "nat \<Rightarrow> nat \<Rightarrow> bool \<Rightarrow> bool \<Rightarrow> nat list \<Rightarrow> nat list" where
  "skip b e after before xs = filter (\<lambda>i. \<not> (i = b \<and> after) \<and> \<not> (i = e \<and> before)) xs"

definition InstructionsLinearFlow :: "program \<Rightarrow> nat \<Rightarrow> nat \<Rightarrow> bool \<Rightarrow> bool \<Rightarrow> bool" where
  "InstructionsLinearFlow P b e after before =
     list_all (\<lambda>i. \<not> m_jumpDestination (instr_at P i) \<and> ctl_oc (m_control (instr_at P i)) \<le> 0)
       (skip b e after before (instr_range P b e))"

fun any_instr :: "(nat \<Rightarrow> nat list res) \<Rightarrow> nat list \<Rightarrow> nat list \<Rightarrow> bool res" where
  "any_instr f lst [] = Inr False"
| "any_instr f lst (i # is) =
     res_bind (f i) (\<lambda>v. if iv_exist_any lst v then Inr True else any_instr f lst is)"

definition InstructionsUse :: "program \<Rightarrow> idents \<Rightarrow> nat \<Rightarrow> nat \<Rightarrow> bool \<Rightarrow> bool \<Rightarrow> nat list \<Rightarrow> bool res" where
  "InstructionsUse P I b e after before lst =
     any_instr (\<lambda>i. getUse I (instr_at P i)) lst (skip b e after before (instr_range P b e))"

definition InstructionsDef :: "program \<Rightarrow> idents \<Rightarrow> nat \<Rightarrow> nat \<Rightarrow> bool \<Rightarrow> bool \<Rightarrow> nat list \<Rightarrow> bool res" where
  "InstructionsDef P I b e after before lst =
     any_instr (getDef P I) lst (skip b e after before (instr_range P b e))"

section \<open>Blocks with one entry and one exit\<close>

definition set_seq :: "nat \<times> nat \<Rightarrow> program \<Rightarrow> program" where
  "set_seq s = upd_instr (fst s) (\<lambda>ins. ins\<lparr>m_seq := int (snd s)\<rparr>)"

definition number_range :: "nat list \<Rightarrow> program \<Rightarrow> program" where
  "number_range rng P = fold set_seq (zip rng [0..<length rng]) P"

definition seq_of :: "program \<Rightarrow> nat \<Rightarrow> int" where
  "seq_of P i = m_seq (instr_at P i)"

text \<open>Whether an instruction outside \<open>lo..hi\<close> branches into it.\<close>

fun entered :: "program \<Rightarrow> int \<Rightarrow> int \<Rightarrow> nat list \<Rightarrow> bool res" where
  "entered P lo hi [] = Inr False"
| "entered P lo hi (i # is) =
     (if lo \<le> seq_of P i \<and> seq_of P i \<le> hi then entered P lo hi is
      else res_bind (getBranch P (instr_at P i)) (\<lambda>b. case b of
          Some j \<Rightarrow> (if lo \<le> seq_of P j \<and> seq_of P j \<le> hi then Inr True else entered P lo hi is)
        | None \<Rightarrow> entered P lo hi is))"

fun block_scan :: "program \<Rightarrow> nat list \<Rightarrow> int \<Rightarrow> nat \<Rightarrow> nat list \<Rightarrow> nat option res" where
  "block_scan P rng lo endBlock [] = Inr None"
| "block_scan P rng lo endBlock (i # is) =
     res_bind (getBranch P (instr_at P i)) (\<lambda>b.
       if b = Some i then block_scan P rng lo endBlock is
       else if (case b of Some j \<Rightarrow> seq_of P j < lo | None \<Rightarrow> False) then Inr None
       else
         let e1 = (if seq_of P i > seq_of P endBlock then i else endBlock);
             e2 = (case b of Some j \<Rightarrow> (if seq_of P e1 < seq_of P j then j else e1) | None \<Rightarrow> e1)
         in res_bind (entered P lo (seq_of P e2) rng) (\<lambda>ent.
              if \<not> ent \<and> i = e2 then Inr (Some e2) else block_scan P rng lo e2 is))"

definition getInstructionBlock :: "program \<Rightarrow> nat \<Rightarrow> nat \<Rightarrow> nat \<Rightarrow> (program \<times> nat option) res" where
  "getInstructionBlock P b e cur =
     (let rng = instr_range P b e; P1 = number_range rng P
      in res_bind (block_scan P1 rng (seq_of P1 cur) cur (instr_range P cur e)) (\<lambda>r. Inr (P1, r)))"

section \<open>Lemmas\<close>

subsection \<open>Ranges of the program\<close>

lemma upto_incl_split: "e \<notin> set ys \<Longrightarrow> upto_incl e (ys @ e # vs) = ys @ [e]"
proof -
  assume "e \<notin> set ys"
  then have "takeWhile (\<lambda>j. j \<noteq> e) (ys @ e # vs) = ys" by (induction ys) auto
  then show ?thesis by (simp add: upto_incl_def)
qed

lemma upto_incl_decomp:
  assumes "e \<in> set xs"
  obtains ys vs where "xs = ys @ e # vs" "e \<notin> set ys" "upto_incl e xs = ys @ [e]"
  using split_list_first [OF assms] upto_incl_split by metis

lemma dropWhile_split: "b \<notin> set us \<Longrightarrow> dropWhile (\<lambda>j. j \<noteq> b) (us @ b # vs) = b # vs"
  by (induction us) auto

lemma instr_range_tail:
  assumes d: "distinct (p_order P)" and e: "e \<in> set (instr_range P b e)" and c: "cur \<in> set (instr_range P b e)"
  obtains as bs where "instr_range P b e = as @ cur # bs" "instr_range P cur e = cur # bs"
proof -
  have b: "b \<in> set (p_order P)"
  proof (rule ccontr)
    assume "b \<notin> set (p_order P)"
    then have "dropWhile (\<lambda>j. j \<noteq> b) (p_order P) = []" by (auto simp: dropWhile_eq_Nil_conv)
    with e show False by (simp add: instr_range_def upto_incl_def)
  qed
  then obtain us ms where o: "p_order P = us @ b # ms" "b \<notin> set us" by (meson split_list_first)
  have rng: "instr_range P b e = upto_incl e (b # ms)"
    by (simp add: instr_range_def o dropWhile_split)
  have "e \<in> set (b # ms)"
    using e unfolding rng by (auto simp: upto_incl_def Let_def split: if_splits dest: set_takeWhileD)
  then obtain ys vs where ev: "b # ms = ys @ e # vs" "e \<notin> set ys" "upto_incl e (b # ms) = ys @ [e]"
    by (rule upto_incl_decomp)
  from c obtain as bs where ab: "ys @ [e] = as @ cur # bs" unfolding rng ev(3) by (meson split_list)
  have ord: "p_order P = (us @ as) @ cur # bs @ vs" using o ev(1) ab by simp
  have nc: "cur \<notin> set (us @ as)" using d unfolding ord by auto
  have "\<exists>zs. cur # bs = zs @ [e] \<and> e \<notin> set zs"
  proof (cases bs rule: rev_cases)
    case Nil
    with ab show ?thesis by simp
  next
    case (snoc ws w)
    with ab ev(2) show ?thesis by (intro exI [of _ "cur # ws"]) auto
  qed
  then obtain zs where zs: "cur # bs = zs @ [e]" "e \<notin> set zs" by blast
  have cat: "cur # bs @ vs = zs @ e # vs" using zs(1) arg_cong [of "cur # bs" "zs @ [e]" "\<lambda>l. l @ vs"] by simp
  have "instr_range P cur e = upto_incl e (zs @ e # vs)"
  proof -
    have "dropWhile (\<lambda>j. j \<noteq> cur) (p_order P) = zs @ e # vs"
      unfolding ord dropWhile_split [OF nc] by (rule cat)
    then show ?thesis by (simp only: instr_range_def)
  qed
  then have "instr_range P cur e = cur # bs" using zs upto_incl_split by simp
  with that ab rng ev(3) show ?thesis by simp
qed

subsection \<open>Blocks\<close>

lemma entered_False:
  "entered P lo hi is = Inr False \<Longrightarrow> i \<in> set is \<Longrightarrow>
     lo \<le> seq_of P i \<and> seq_of P i \<le> hi \<or>
     (\<exists>b. getBranch P (instr_at P i) = Inr b \<and>
        (\<forall>j. b = Some j \<longrightarrow> \<not> (lo \<le> seq_of P j \<and> seq_of P j \<le> hi)))"
  by (induction P lo hi "is" rule: entered.induct)
    (auto simp: res_bind_eq_Inr_iff split: if_splits option.splits)

text \<open>The branch of an instruction of the block stays in the block, or goes to itself.\<close>

definition stays :: "program \<Rightarrow> int \<Rightarrow> int \<Rightarrow> nat \<Rightarrow> bool" where
  "stays P lo hi i \<longleftrightarrow>
     (\<exists>b. getBranch P (instr_at P i) = Inr b \<and>
        (\<forall>j. b = Some j \<longrightarrow> j = i \<or> lo \<le> seq_of P j \<and> seq_of P j \<le> hi))"

lemma stays_mono: "stays P lo hi i \<Longrightarrow> hi \<le> hi' \<Longrightarrow> stays P lo hi' i"
  unfolding stays_def by force

lemma block_scan_sound:
  assumes "block_scan P rng lo endBlock is = Inr (Some e)"
    and "\<And>i. i \<in> seen \<Longrightarrow> stays P lo (seq_of P endBlock) i"
  shows "\<exists>xs ys. is = xs @ e # ys \<and>
    (\<forall>i\<in>seen \<union> set xs \<union> {e}. stays P lo (seq_of P e) i) \<and> entered P lo (seq_of P e) rng = Inr False"
  using assms
proof (induction P rng lo endBlock "is" arbitrary: seen rule: block_scan.induct)
  case (2 P rng lo endBlock i "is")
  from "2.prems"(1) obtain b where b: "getBranch P (instr_at P i) = Inr b"
    by (auto simp: res_bind_eq_Inr_iff)
  show ?case
  proof (cases "b = Some i")
    case True
    have st: "stays P lo (seq_of P endBlock) k" if "k \<in> insert i seen" for k
      using that "2.prems"(2) b True by (auto simp: stays_def)
    have "block_scan P rng lo endBlock is = Inr (Some e)" using "2.prems"(1) b True by simp
    from "2.IH"(1) [OF True this st] obtain xs ys where
      "is = xs @ e # ys" "\<forall>k\<in>insert i seen \<union> set xs \<union> {e}. stays P lo (seq_of P e) k"
      "entered P lo (seq_of P e) rng = Inr False" by blast
    then show ?thesis by (intro exI [of _ "i # xs"] exI [of _ ys]) auto
  next
    case False
    define e1 where "e1 = (if seq_of P i > seq_of P endBlock then i else endBlock)"
    define e2 where "e2 = (case b of Some j \<Rightarrow> (if seq_of P e1 < seq_of P j then j else e1) | None \<Rightarrow> e1)"
    have nlow: "\<not> (case b of Some j \<Rightarrow> seq_of P j < lo | None \<Rightarrow> False)"
      using "2.prems"(1) b False by (auto split: if_splits)
    have "res_bind (entered P lo (seq_of P e2) rng)
        (\<lambda>ent. if \<not> ent \<and> i = e2 then Inr (Some e2) else block_scan P rng lo e2 is) = Inr (Some e)"
      using "2.prems"(1) b False nlow unfolding e2_def e1_def by (simp add: Let_def)
    then obtain ent where ent: "entered P lo (seq_of P e2) rng = Inr ent" and
      rest: "(if \<not> ent \<and> i = e2 then Inr (Some e2) else block_scan P rng lo e2 is) = Inr (Some e)"
      by (auto simp: res_bind_eq_Inr_iff)
    have mono: "seq_of P endBlock \<le> seq_of P e2" by (auto simp: e1_def e2_def split: option.splits)
    have "stays P lo (seq_of P e2) i"
      using b nlow by (auto simp: stays_def e2_def split: if_splits)
    then have st: "stays P lo (seq_of P e2) k" if "k \<in> insert i seen" for k
      using that "2.prems"(2) stays_mono [OF _ mono] by auto
    show ?thesis
    proof (cases "\<not> ent \<and> i = e2")
      case True
      with rest ent st show ?thesis by (intro exI [of _ "[]"] exI [of _ "is"]) auto
    next
      case no: False
      with rest have scan: "block_scan P rng lo e2 is = Inr (Some e)" by auto
      from "2.IH"(2) [OF False nlow e1_def e2_def no scan st] obtain xs ys where
        "is = xs @ e # ys" "\<forall>k\<in>insert i seen \<union> set xs \<union> {e}. stays P lo (seq_of P e) k"
        "entered P lo (seq_of P e) rng = Inr False" by blast
      then show ?thesis by (intro exI [of _ "i # xs"] exI [of _ ys]) auto
    qed
  qed
qed simp

subsection \<open>Numbering\<close>

lemma set_seq_sel [simp]:
  "p_order (set_seq s P) = p_order P" "length (p_code (set_seq s P)) = length (p_code P)"
  "m_control (instr_at (set_seq s P) i) = m_control (instr_at P i)"
  by (simp_all add: set_seq_def)

lemma fold_set_seq_sel [simp]:
  "p_order (fold set_seq ss P) = p_order P"
  "length (p_code (fold set_seq ss P)) = length (p_code P)"
  "m_control (instr_at (fold set_seq ss P) i) = m_control (instr_at P i)"
  by (induction ss arbitrary: P) simp_all

lemma fold_set_seq_other:
  "i \<notin> fst ` set ss \<Longrightarrow> seq_of (fold set_seq ss P) i = seq_of P i"
  by (induction ss arbitrary: P) (auto simp: seq_of_def set_seq_def)

lemma number_range_sel [simp]:
  "p_order (number_range rng P) = p_order P"
  "m_control (instr_at (number_range rng P) i) = m_control (instr_at P i)"
  by (simp_all add: number_range_def)

lemma number_range_branch [simp]:
  "getBranch (number_range rng P) (instr_at (number_range rng P) i) = getBranch P (instr_at P i)"
  by (rule getBranch_cong) simp_all

lemma fold_set_seq_at:
  "distinct (map fst ss) \<Longrightarrow> (i, n) \<in> set ss \<Longrightarrow> i < length (p_code P) \<Longrightarrow>
     seq_of (fold set_seq ss P) i = int n"
proof (induction ss arbitrary: P)
  case (Cons s ss)
  show ?case
  proof (cases "s = (i, n)")
    case True
    with Cons.prems have "i \<notin> fst ` set ss" by auto
    with True Cons.prems show ?thesis
      by (simp add: fold_set_seq_other) (simp add: seq_of_def set_seq_def)
  next
    case False
    with Cons.prems have "(i, n) \<in> set ss" by auto
    with Cons show ?thesis by simp
  qed
qed simp

lemma number_range_seq:
  assumes "distinct rng" "k < length rng" "rng ! k < length (p_code P)"
  shows "seq_of (number_range rng P) (rng ! k) = int k"
proof -
  have "(rng ! k, k) \<in> set (zip rng [0..<length rng])"
    using assms(2) by (auto simp: set_zip intro!: exI [of _ k])
  with assms(1,3) show ?thesis
    unfolding number_range_def by (intro fold_set_seq_at) auto
qed

lemma block_closed:
  assumes d: "distinct (p_order P)" and code: "set (p_order P) \<subseteq> {..<length (p_code P)}"
    and e: "e \<in> set (instr_range P b e)" and c: "cur \<in> set (instr_range P b e)"
    and tgt: "\<forall>i\<in>set (instr_range P b e). \<forall>j. getBranch P (instr_at P i) = Inr (Some j) \<longrightarrow>
                j \<in> set (instr_range P b e)"
    and blk: "getInstructionBlock P b e cur = Inr (P1, Some x)"
  shows "\<exists>xs ys zs. instr_range P b e = xs @ (cur # ys) @ zs \<and> last (cur # ys) = x \<and>
    (\<forall>i\<in>set (cur # ys). \<forall>j. getBranch P (instr_at P i) = Inr (Some j) \<longrightarrow> j \<in> set (cur # ys)) \<and>
    (\<forall>i\<in>set (xs @ zs). \<forall>j. getBranch P (instr_at P i) = Inr (Some j) \<longrightarrow> j \<notin> set (cur # ys))"
proof -
  let ?rng = "instr_range P b e"
  from instr_range_tail [OF d e c] obtain as bs where
    rng: "?rng = as @ cur # bs" "instr_range P cur e = cur # bs" by blast
  define Q where "Q = number_range ?rng P"
  have sub: "set ?rng \<subseteq> set (p_order P)"
    unfolding instr_range_def upto_incl_def
    by (auto simp: Let_def split: if_splits dest!: set_takeWhileD set_dropWhileD)
  have dr: "distinct ?rng" using d
    unfolding instr_range_def upto_incl_def by (auto simp: Let_def dest!: set_takeWhileD)
  have br: "getBranch Q (instr_at Q i) = getBranch P (instr_at P i)" for i by (simp add: Q_def)
  have seq: "seq_of Q (?rng ! k) = int k" if "k < length ?rng" for k
    unfolding Q_def using number_range_seq [OF dr that] sub code nth_mem [OF that] by auto
  have cs: "seq_of Q cur = int (length as)"
    using seq [of "length as"] by (simp add: rng(1) nth_append)
  from blk have "block_scan Q ?rng (seq_of Q cur) cur (cur # bs) = Inr (Some x)"
    by (auto simp: getInstructionBlock_def Let_def res_bind_eq_Inr_iff Q_def rng(2) simp del: block_scan.simps)
  from block_scan_sound [OF this, of "{}"] obtain xs ys where
    xs: "cur # bs = xs @ x # ys" "\<forall>i\<in>set xs \<union> {x}. stays Q (seq_of Q cur) (seq_of Q x) i"
      "entered Q (seq_of Q cur) (seq_of Q x) ?rng = Inr False" by auto
  define n where "n = length as + length xs"
  have full: "?rng = as @ (xs @ [x]) @ ys" using rng(1) xs(1) by simp
  have sx: "seq_of Q x = int n"
    using seq [of n] full by (simp add: nth_append n_def)
  have inblk: "i \<in> set (xs @ [x]) \<longleftrightarrow> int (length as) \<le> seq_of Q i \<and> seq_of Q i \<le> int n"
    if "i \<in> set ?rng" for i
  proof -
    from that obtain k where k: "k < length ?rng" "i = ?rng ! k" by (auto simp: in_set_conv_nth)
    have len: "length ?rng = Suc n + length ys" using full by (simp add: n_def)
    have "i \<in> set (xs @ [x]) \<longleftrightarrow> length as \<le> k \<and> k \<le> n"
    proof
      assume "i \<in> set (xs @ [x])"
      then obtain l where l: "l < length (xs @ [x])" "i = (xs @ [x]) ! l" by (metis in_set_conv_nth)
      then have "i = ?rng ! (length as + l)" unfolding full by (simp add: nth_append)
      with k l dr len have "k = length as + l"
        by (simp add: nth_eq_iff_index_eq n_def)
      with l show "length as \<le> k \<and> k \<le> n" by (simp add: n_def)
    next
      assume kk: "length as \<le> k \<and> k \<le> n"
      then have "?rng ! k = (xs @ [x]) ! (k - length as)"
        unfolding full by (auto simp: nth_append n_def)
      moreover have "k - length as < length (xs @ [x])" using kk unfolding n_def by simp linarith
      ultimately show "i \<in> set (xs @ [x])" using k(2) nth_mem by metis
    qed
    then show ?thesis using seq [OF k(1)] k(2) by simp
  qed
  obtain ws where ws: "xs @ [x] = cur # ws" using xs(1) by (cases xs) auto
  have into: "j \<in> set (xs @ [x])"
    if i: "i \<in> set (xs @ [x])" and j: "getBranch P (instr_at P i) = Inr (Some j)" for i j
  proof -
    have "i \<in> set ?rng" using i full by auto
    then have jr: "j \<in> set ?rng" using tgt j by blast
    have "stays Q (seq_of Q cur) (seq_of Q x) i" using xs(2) i by auto
    with j i show ?thesis using inblk [OF jr] by (auto simp: stays_def br cs sx)
  qed
  have outof: "j \<notin> set (xs @ [x])"
    if i: "i \<in> set (as @ ys)" and j: "getBranch P (instr_at P i) = Inr (Some j)" for i j
  proof -
    have ir: "i \<in> set ?rng" using i full by auto
    then have jr: "j \<in> set ?rng" using tgt j by blast
    have "i \<notin> set (xs @ [x])" using dr i unfolding full by auto
    then show ?thesis
      using entered_False [OF xs(3) ir] inblk [OF ir] inblk [OF jr] j by (auto simp: br cs sx)
  qed
  show ?thesis
  proof (rule exI [of _ as], rule exI [of _ ws], rule exI [of _ ys], intro conjI)
    show "?rng = as @ (cur # ws) @ ys" using full ws by simp
    show "last (cur # ws) = x" using ws by (metis last_snoc)
    show "\<forall>i\<in>set (cur # ws). \<forall>j. getBranch P (instr_at P i) = Inr (Some j) \<longrightarrow> j \<in> set (cur # ws)"
      using into unfolding ws by blast
    show "\<forall>i\<in>set (as @ ys). \<forall>j. getBranch P (instr_at P i) = Inr (Some j) \<longrightarrow> j \<notin> set (cur # ws)"
      using outof unfolding ws by blast
  qed
qed

text \<open>
  C17: The block that the constant folding propagates through has one entry and one exit: it is
  the stretch of the function from the given instruction to the returned one, every branch out of
  an instruction of the block leads into the block, and no instruction of the function outside it
  branches into it. This holds for every function whose branches stay in the function.
\<close>

theorem getInstructionBlock_closed:
  assumes d: "distinct (p_order P)" and code: "set (p_order P) \<subseteq> {..<length (p_code P)}"
    and e: "e \<in> set (instr_range P b e)" and c: "cur \<in> set (instr_range P b e)"
    and tgt: "\<forall>i\<in>set (instr_range P b e). \<forall>j. getBranch P (instr_at P i) = Inr (Some j) \<longrightarrow>
                j \<in> set (instr_range P b e)"
    and blk: "getInstructionBlock P b e cur = Inr (P1, Some x)"
  shows "\<exists>xs ys zs. instr_range P b e = xs @ (cur # ys) @ zs \<and> last (cur # ys) = x \<and>
    (\<forall>i\<in>set (cur # ys). \<forall>j. getBranch P (instr_at P i) = Inr (Some j) \<longrightarrow> j \<in> set (cur # ys)) \<and>
    (\<forall>i\<in>set (xs @ zs). \<forall>j. getBranch P (instr_at P i) = Inr (Some j) \<longrightarrow> j \<notin> set (cur # ys))"
  using assms by (rule block_closed)

text \<open>A loop of two instructions in the middle of a function is a block.\<close>

definition loop_program :: program where
  "loop_program = \<lparr>p_code =
     [createIMU IOPCODE_ADD (Some IMU_Zero) (Some (IMU_Constant 5)) (Some (IMU_Integer 2)) new_cInstruction,
      createIMU IOPCODE_SUB (Some (IMU_Integer 2)) (Some (IMU_Constant 1)) (Some (IMU_Integer 2)) new_cInstruction,
      createConditionalJump OPCODE_JUMP_NE IOPCODE_SUB (Some (IMU_Integer 2)) (Some IMU_Zero) None (Some 1) False
        new_cInstruction,
      createUnconditionalJump OPCODE_RETURN None False new_cInstruction],
     p_order = [0, 1, 2, 3], p_funcs = []\<rparr>"

theorem getInstructionBlock_closed_witness:
  "\<exists>P1 xs ys zs. getInstructionBlock loop_program 0 3 1 = Inr (P1, Some 2) \<and>
     instr_range loop_program 0 3 = xs @ (1 # ys) @ zs \<and> last (1 # ys) = 2"
proof -
  have blk: "map_sum id snd (getInstructionBlock loop_program 0 3 1) = Inr (Some 2)" by code_simp
  then obtain P1 where P1: "getInstructionBlock loop_program 0 3 1 = Inr (P1, Some 2)"
    by (cases "getInstructionBlock loop_program 0 3 1") auto
  have rng: "instr_range loop_program 0 3 = [0, 1, 2, 3]" by code_simp
  have br: "getBranch loop_program (instr_at loop_program 0) = Inr None"
    "getBranch loop_program (instr_at loop_program 1) = Inr None"
    "getBranch loop_program (instr_at loop_program 2) = Inr (Some 1)"
    "getBranch loop_program (instr_at loop_program 3) = Inr None" by code_simp+
  have "distinct (p_order loop_program)" "set (p_order loop_program) \<subseteq> {..<length (p_code loop_program)}"
    by (auto simp: loop_program_def)
  moreover have "\<forall>i\<in>set (instr_range loop_program 0 3). \<forall>j.
      getBranch loop_program (instr_at loop_program i) = Inr (Some j) \<longrightarrow> j \<in> set (instr_range loop_program 0 3)"
    by (simp add: rng br del: One_nat_def)
  moreover have "3 \<in> set (instr_range loop_program 0 3)" "1 \<in> set (instr_range loop_program 0 3)"
    by (simp_all add: rng)
  ultimately show ?thesis using getInstructionBlock_closed [OF _ _ _ _ _ P1] P1 by blast
qed

end
