(* ===== verification/Usage.thy ===== *)
theory Usage
  imports Instr
begin

text \<open>
  Use and definition counts (\<open>UpdateVariableUsage\<close>), and the facts about \<open>getUse\<close> and
  \<open>getDef\<close> that the counts and the register allocator rely on: the lists have no repetitions,
  and they depend on the declarations of the variables only.
\<close>

section \<open>Use counts\<close>

definition bump_use :: "nat \<Rightarrow> idents \<Rightarrow> idents" where
  "bump_use i I = I[i := (ident_at I i)\<lparr>m_useCount := m_useCount (ident_at I i) + 1\<rparr>]"

definition bump_def :: "nat \<Rightarrow> idents \<Rightarrow> idents" where
  "bump_def i I = I[i := (ident_at I i)\<lparr>m_defCount := m_defCount (ident_at I i) + 1\<rparr>]"

definition reset_counts :: "nat \<Rightarrow> idents \<Rightarrow> idents" where
  "reset_counts i I = I[i := (ident_at I i)\<lparr>m_defCount := 0, m_useCount := 0\<rparr>]"

fun count_range :: "program \<Rightarrow> nat list \<Rightarrow> idents \<Rightarrow> idents res" where
  "count_range P [] I = Inr I"
| "count_range P (i # is) I =
     res_bind (getUse I (instr_at P i)) (\<lambda>u.
     res_bind (getDef P I i) (\<lambda>d.
       count_range P is (fold bump_def d (fold bump_use u I))))"

text \<open>The counts are reset for the variables of the outermost block of the function only.\<close>

definition UpdateVariableUsage :: "program \<Rightarrow> nat \<Rightarrow> nat \<Rightarrow> idents \<Rightarrow> idents res" where
  "UpdateVariableUsage P b e I =
     res_bind (deref (m_beginFunc (instr_at P b))) (\<lambda>f.
     if f < length (p_funcs P)
     then count_range P (instr_range P b e) (fold reset_counts (fn_ids (p_funcs P ! f)) I)
     else Inl NullPointer)"

section \<open>The lists have no repetitions\<close>

lemma distinct_scope_of: "distinct lst \<Longrightarrow> distinct (getIdentifierScope I p lst)"
  by (simp add: getIdentifierScope_def distinct_scope_walk)

lemma distinct_term_getUse: "distinct lst \<Longrightarrow> distinct (term_getUse t lst)"
  by (cases t) auto

lemma distinct_term_getDef: "distinct lst \<Longrightarrow> distinct (term_getDef I t lst)"
  by (cases t) (auto simp: distinct_scope_of)

lemmas distinct_term = distinct_term_getUse distinct_term_getDef

lemma distinct_alu_getUse: "alu_getUse lane I a lst = Inr u \<Longrightarrow> distinct lst \<Longrightarrow> distinct u"
  by (auto simp: alu_getUse_def Let_def res_bind_eq_Inr_iff distinct_term
      split: if_splits option.splits)

lemma distinct_imu_getUse: "imu_getUse I a lst = Inr u \<Longrightarrow> distinct lst \<Longrightarrow> distinct u"
  by (auto simp: imu_getUse_def Let_def res_bind_eq_Inr_iff distinct_term
      split: if_splits option.splits)

lemma distinct_getUse: "getUse I ins = Inr u \<Longrightarrow> distinct u"
  by (auto simp: getUse_def res_bind_eq_Inr_iff dest!: distinct_alu_getUse distinct_imu_getUse split: if_splits)

lemma distinct_fold_stack:
  "distinct l \<Longrightarrow> distinct (fold (\<lambda>x l. if isKindOf (ident_at I x) CStack then iv_append l x else l) xs l)"
  by (induction xs arbitrary: l) auto

lemma distinct_getDef: "getDef P I i = Inr d \<Longrightarrow> distinct d"
  by (auto simp: getDef_def Let_def res_bind_eq_Inr_iff distinct_term distinct_fold_stack
      split: if_splits option.splits)

section \<open>The lists depend on the declarations only\<close>

definition same_decl :: "idents \<Rightarrow> idents \<Rightarrow> bool" where
  "same_decl I J \<longleftrightarrow>
     (\<forall>i. m_class (ident_at J i) = m_class (ident_at I i) \<and> m_scope (ident_at J i) = m_scope (ident_at I i) \<and>
          m_w (ident_at J i) = m_w (ident_at I i) \<and> m_width (ident_at J i) = m_width (ident_at I i))"

lemma same_declD:
  assumes "same_decl I J"
  shows "m_scope (ident_at J i) = m_scope (ident_at I i)" "m_w (ident_at J i) = m_w (ident_at I i)"
    "m_width (ident_at J i) = m_width (ident_at I i)"
    "isKindOf (ident_at J i) c = isKindOf (ident_at I i) c" "is_ptr J i = is_ptr I i"
  using assms by (simp_all add: same_decl_def isKindOf_def is_ptr_def)

lemma same_decl_trans: "same_decl I J \<Longrightarrow> same_decl J K \<Longrightarrow> same_decl I K"
  by (simp add: same_decl_def)

lemma scope_walk_cong: "same_decl I J \<Longrightarrow> scope_walk J w lst d = scope_walk I w lst d"
proof (induction I w lst d rule: scope_walk.induct)
  case (2 I i rest lst d)
  note eq = same_declD [OF "2.prems"]
  from 2 show ?case by (simp add: eq)
qed simp

lemma getIdentifierScope_cong:
  assumes same: "same_decl I J"
  shows "getIdentifierScope J = getIdentifierScope I"
  by (simp add: getIdentifierScope_def fun_eq_iff scope_walk_cong [OF same] same_declD [OF same])

lemma term_getDef_cong:
  assumes same: "same_decl I J"
  shows "term_getDef J = term_getDef I"
proof (intro ext)
  fix t lst
  show "term_getDef J t lst = term_getDef I t lst"
    by (cases t) (simp_all add: getIdentifierScope_cong [OF same])
qed

lemma mu_getVectorWidth_cong:
  assumes same: "same_decl I J"
  shows "mu_getVectorWidth J = mu_getVectorWidth I"
proof (intro ext)
  fix t
  show "mu_getVectorWidth J t = mu_getVectorWidth I t"
    by (cases t) (simp_all add: same_declD [OF same])
qed

lemma getUse_cong:
  assumes same: "same_decl I J"
  shows "getUse J = getUse I"
  by (intro ext) (simp only: getUse_def alu_getUse_def imu_getUse_def term_getDef_cong [OF same] mu_getVectorWidth_cong [OF same])

lemma getDef_cong:
  assumes same: "same_decl I J"
  shows "getDef P J = getDef P I"
  by (intro ext) (simp only: getDef_def term_getDef_cong [OF same] same_declD [OF same])

section \<open>The counts are exact\<close>

definition uses_var :: "program \<Rightarrow> idents \<Rightarrow> nat \<Rightarrow> nat \<Rightarrow> bool" where
  "uses_var P I v i \<longleftrightarrow> (case getUse I (instr_at P i) of Inr u \<Rightarrow> v \<in> set u | Inl _ \<Rightarrow> False)"

definition defines_var :: "program \<Rightarrow> idents \<Rightarrow> nat \<Rightarrow> nat \<Rightarrow> bool" where
  "defines_var P I v i \<longleftrightarrow> (case getDef P I i of Inr u \<Rightarrow> v \<in> set u | Inl _ \<Rightarrow> False)"

lemma bump_at:
  "i < length I \<Longrightarrow> ident_at (bump_use i I) j =
     (if j = i then (ident_at I i)\<lparr>m_useCount := m_useCount (ident_at I i) + 1\<rparr> else ident_at I j)"
  "i < length I \<Longrightarrow> ident_at (bump_def i I) j =
     (if j = i then (ident_at I i)\<lparr>m_defCount := m_defCount (ident_at I i) + 1\<rparr> else ident_at I j)"
  "i < length I \<Longrightarrow> ident_at (reset_counts i I) j =
     (if j = i then (ident_at I i)\<lparr>m_defCount := 0, m_useCount := 0\<rparr> else ident_at I j)"
  by (auto simp: ident_at_def bump_use_def bump_def_def reset_counts_def)

lemma bump_out [simp]:
  "\<not> i < length I \<Longrightarrow> bump_use i I = I" "\<not> i < length I \<Longrightarrow> bump_def i I = I"
  "\<not> i < length I \<Longrightarrow> reset_counts i I = I"
  by (simp_all add: bump_use_def bump_def_def reset_counts_def list_update_beyond)

lemma bump_same_decl [simp]:
  "same_decl I (bump_use i I)" "same_decl I (bump_def i I)" "same_decl I (reset_counts i I)"
  by (cases "i < length I"; simp add: same_decl_def bump_at)+

lemma bump_length [simp]:
  "length (bump_use i I) = length I" "length (bump_def i I) = length I"
  "length (reset_counts i I) = length I"
  by (simp_all add: bump_use_def bump_def_def reset_counts_def)

lemma fold_keeps:
  assumes "\<And>i J. same_decl J (f i J) \<and> length (f i J) = length J"
  shows "same_decl I (fold f xs I) \<and> length (fold f xs I) = length I"
proof (induction xs arbitrary: I)
  case (Cons x xs)
  then show ?case using assms [of I x] same_decl_trans by fastforce
qed (simp add: same_decl_def)

lemmas fold_bump = fold_keeps [of bump_use] fold_keeps [of bump_def] fold_keeps [of reset_counts]

lemma bump_use_counts:
  assumes "v < length I" "distinct u"
  shows "m_useCount (ident_at (fold bump_use u I) v) = m_useCount (ident_at I v) + (if v \<in> set u then 1 else 0)"
    and "m_defCount (ident_at (fold bump_use u I) v) = m_defCount (ident_at I v)"
proof -
  have "m_useCount (ident_at (fold bump_use u I) v) = m_useCount (ident_at I v) + (if v \<in> set u then 1 else 0)
      \<and> m_defCount (ident_at (fold bump_use u I) v) = m_defCount (ident_at I v)"
    using assms
  proof (induction u arbitrary: I)
    case (Cons x u)
    then have "v < length (bump_use x I)" "distinct u" by simp_all
    from Cons.IH [OF this] Cons.prems show ?case by (cases "x < length I") (auto simp: bump_at)
  qed simp
  then show "m_useCount (ident_at (fold bump_use u I) v) = m_useCount (ident_at I v) + (if v \<in> set u then 1 else 0)"
    "m_defCount (ident_at (fold bump_use u I) v) = m_defCount (ident_at I v)" by simp_all
qed

lemma bump_def_counts:
  assumes "v < length I" "distinct u"
  shows "m_defCount (ident_at (fold bump_def u I) v) = m_defCount (ident_at I v) + (if v \<in> set u then 1 else 0)"
    and "m_useCount (ident_at (fold bump_def u I) v) = m_useCount (ident_at I v)"
proof -
  have "m_defCount (ident_at (fold bump_def u I) v) = m_defCount (ident_at I v) + (if v \<in> set u then 1 else 0)
      \<and> m_useCount (ident_at (fold bump_def u I) v) = m_useCount (ident_at I v)"
    using assms
  proof (induction u arbitrary: I)
    case (Cons x u)
    then have "v < length (bump_def x I)" "distinct u" by simp_all
    from Cons.IH [OF this] Cons.prems show ?case by (cases "x < length I") (auto simp: bump_at)
  qed simp
  then show "m_defCount (ident_at (fold bump_def u I) v) = m_defCount (ident_at I v) + (if v \<in> set u then 1 else 0)"
    "m_useCount (ident_at (fold bump_def u I) v) = m_useCount (ident_at I v)" by simp_all
qed

lemma count_range_counts:
  assumes "count_range P is I = Inr J" "v < length I"
  shows "m_useCount (ident_at J v) = m_useCount (ident_at I v) + int (length (filter (uses_var P I v) is))"
    and "m_defCount (ident_at J v) = m_defCount (ident_at I v) + int (length (filter (defines_var P I v) is))"
proof -
  have "m_useCount (ident_at J v) = m_useCount (ident_at I v) + int (length (filter (uses_var P I v) is)) \<and>
      m_defCount (ident_at J v) = m_defCount (ident_at I v) + int (length (filter (defines_var P I v) is))"
    using assms
  proof (induction "is" arbitrary: I)
    case (Cons i "is")
    from Cons.prems(1) obtain u d where u: "getUse I (instr_at P i) = Inr u" and d: "getDef P I i = Inr d"
      and r: "count_range P is (fold bump_def d (fold bump_use u I)) = Inr J"
      by (auto simp: res_bind_eq_Inr_iff)
    let ?I1 = "fold bump_use u I" and ?I2 = "fold bump_def d (fold bump_use u I)"
    have k: "same_decl I ?I2" "length ?I1 = length I" "length ?I2 = length I"
      using fold_bump(1) [of I u] fold_bump(2) [of ?I1 d] same_decl_trans by auto
    have same: "uses_var P ?I2 v = uses_var P I v" "defines_var P ?I2 v = defines_var P I v"
      by (simp_all add: fun_eq_iff uses_var_def defines_var_def getUse_cong [OF k(1)] getDef_cong [OF k(1)])
    have v: "v < length ?I1" "v < length ?I2" using Cons.prems(2) k by simp_all
    have "uses_var P I v i \<longleftrightarrow> v \<in> set u" "defines_var P I v i \<longleftrightarrow> v \<in> set d"
      by (simp_all add: uses_var_def defines_var_def u d)
    with Cons.IH [OF r v(2)] show ?case
      unfolding same bump_def_counts [OF v(1) distinct_getDef [OF d]]
        bump_use_counts [OF Cons.prems(2) distinct_getUse [OF u]]
      by auto
  qed simp
  then show "m_useCount (ident_at J v) = m_useCount (ident_at I v) + int (length (filter (uses_var P I v) is))"
    "m_defCount (ident_at J v) = m_defCount (ident_at I v) + int (length (filter (defines_var P I v) is))"
    by simp_all
qed

lemma reset_counts_zero:
  assumes "v \<in> set xs" "v < length I"
  shows "m_useCount (ident_at (fold reset_counts xs I) v) = 0" "m_defCount (ident_at (fold reset_counts xs I) v) = 0"
proof -
  have keep: "m_useCount (ident_at (fold reset_counts ys K) v) = 0 \<and> m_defCount (ident_at (fold reset_counts ys K) v) = 0"
    if "m_useCount (ident_at K v) = 0 \<and> m_defCount (ident_at K v) = 0" for ys K
    using that
  proof (induction ys arbitrary: K)
    case (Cons y ys)
    then show ?case by (cases "y < length K") (auto simp: bump_at intro!: Cons.IH)
  qed simp
  have "m_useCount (ident_at (fold reset_counts xs I) v) = 0 \<and> m_defCount (ident_at (fold reset_counts xs I) v) = 0"
    using assms
  proof (induction xs arbitrary: I)
    case (Cons x xs)
    show ?case
    proof (cases "v = x")
      case True
      with Cons.prems keep [of "reset_counts x I" xs] show ?thesis by (simp add: bump_at)
    next
      case False
      with Cons show ?thesis by simp
    qed
  qed simp
  then show "m_useCount (ident_at (fold reset_counts xs I) v) = 0" "m_defCount (ident_at (fold reset_counts xs I) v) = 0"
    by simp_all
qed

text \<open>
  After \<open>UpdateVariableUsage\<close> the use and definition counts of every variable of the
  function's outermost block are the numbers of instructions of the range that use and that
  define it. The optimiser decides from them which assignments can go.
\<close>

theorem UpdateVariableUsage_counts:
  assumes "UpdateVariableUsage P b e I = Inr J"
    and "m_beginFunc (instr_at P b) = Some f" and "v \<in> set (fn_ids (p_funcs P ! f))" and "v < length I"
  shows "m_useCount (ident_at J v) = int (length (filter (uses_var P I v) (instr_range P b e))) \<and>
         m_defCount (ident_at J v) = int (length (filter (defines_var P I v) (instr_range P b e)))"
proof -
  let ?I0 = "fold reset_counts (fn_ids (p_funcs P ! f)) I"
  have k: "same_decl I ?I0" "length ?I0 = length I" using fold_bump(3) [of I] by auto
  have r: "count_range P (instr_range P b e) ?I0 = Inr J"
    using assms(1,2) by (auto simp: UpdateVariableUsage_def split: if_splits)
  have same: "uses_var P ?I0 v = uses_var P I v" "defines_var P ?I0 v = defines_var P I v"
    by (simp_all add: fun_eq_iff uses_var_def defines_var_def getUse_cong [OF k(1)] getDef_cong [OF k(1)])
  have "v < length ?I0" using assms(4) k by simp
  from count_range_counts [OF r this] reset_counts_zero [OF assms(3,4)] show ?thesis
    by (simp add: same)
qed

text \<open>One instruction that reads variable 2 and writes variable 3.\<close>

definition count_program :: program where
  "count_program = \<lparr>p_code =
     [(createIMU IOPCODE_ADD (Some (IMU_Integer 2)) (Some (IMU_Constant 5)) (Some (IMU_Integer 3)) new_cInstruction)
        \<lparr>m_beginFunc := Some 0\<rparr>],
     p_order = [0], p_funcs = [\<lparr>fn_name = ''f'', fn_kernel = False, fn_block = AstBlock (Some [2, 3]) []\<rparr>]\<rparr>"

definition count_idents :: idents where
  "count_idents = [blank_cIdentifier CResult, blank_cIdentifier CLane,
     (blank_cIdentifier CInteger)\<lparr>m_useCount := 9\<rparr>, blank_cIdentifier CInteger]"

theorem UpdateVariableUsage_counts_witness:
  "\<exists>J. UpdateVariableUsage count_program 0 0 count_idents = Inr J \<and>
     m_useCount (ident_at J 2) = int (length (filter (uses_var count_program count_idents 2) [0])) \<and>
     m_useCount (ident_at J 2) = 1"
proof -
  have "\<not> isl (UpdateVariableUsage count_program 0 0 count_idents)" by code_simp
  then obtain J where J: "UpdateVariableUsage count_program 0 0 count_idents = Inr J"
    by (cases "UpdateVariableUsage count_program 0 0 count_idents") auto
  have f: "m_beginFunc (instr_at count_program 0) = Some 0" "(2::nat) \<in> set (fn_ids (p_funcs count_program ! 0))"
    "2 < length count_idents" by code_simp+
  have r: "instr_range count_program 0 0 = [0]"
    "length (filter (uses_var count_program count_idents 2) [0]) = 1" by code_simp+
  from UpdateVariableUsage_counts [OF J f] show ?thesis using J r by simp
qed

end
