(* ===== verification/FuncInfo.thy ===== *)
theory FuncInfo
  imports Usage
begin

text \<open>
  What the rest of the tool chain asks about a function (\<open>SW/compiler/instruction.cpp\<close>): where it
  begins, its class, and the encoded address that the host program passes to the cores.
\<close>

section \<open>Queries about a function\<close>

text \<open>
  \<open>GetFunctionBegin\<close>: the first instruction with that label; a name that ends in \<open>::\<close>
  matches every label it is a prefix of.
\<close>

definition GetFunctionBegin :: "program \<Rightarrow> string \<Rightarrow> nat option" where
  "GetFunctionBegin P funcName =
     (let contextMatchOnly = (length funcName > 2 \<and> suffix ''::'' funcName)
      in List.find (\<lambda>i. let l = m_label (instr_at P i) in
             l \<noteq> [] \<and> (if contextMatchOnly then prefix funcName l else l = funcName)) (p_order P))"

text \<open>One bit per integer parameter that is passed in a register.\<close>

definition GetFunctionGlobalAttr :: "program \<Rightarrow> idents \<Rightarrow> nat \<Rightarrow> int" where
  "GetFunctionGlobalAttr P I b =
     (case m_beginFunc (instr_at P b) of
        None \<Rightarrow> 0
      | Some f \<Rightarrow>
          if f < length (p_funcs P) \<and> fn_kernel (p_funcs P ! f) then
            fold (\<lambda>i attr. let v = ident_at I i in
                if isParameter v \<and> isKindOf v CFixed \<and> m_persistentIndex v \<ge> 0
                then attr OR push_bit (nat (m_persistentIndex v)) 1 else attr)
              (fn_ids (p_funcs P ! f)) 0
          else 0)"

definition GetFunctionFullName :: "program \<Rightarrow> nat \<Rightarrow> string res" where
  "GetFunctionFullName P b =
     res_bind (deref (m_beginFunc (instr_at P b))) (\<lambda>f.
       if f < length (p_funcs P) then Inr (fn_name (p_funcs P ! f)) else Inl AssertFail)"

text \<open>The part before the first \<open>::\<close>. A name without one is undefined: the length is computed from null.\<close>

definition GetFunctionClassName :: "program \<Rightarrow> nat \<Rightarrow> string res" where
  "GetFunctionClassName P b =
     res_bind (GetFunctionFullName P b) (\<lambda>n. case strstr n ''::'' of
        Some k \<Rightarrow> Inr (take k n)
      | None \<Rightarrow> Inl Undefined)"

definition GetEncodedFunctionAddress :: "program \<Rightarrow> idents \<Rightarrow> nat \<Rightarrow> int" where
  "GetEncodedFunctionAddress P I b =
     (let addr = uint32 (push_bit (MAX_IREGISTER_AUTO_SIZE + DATAMODEL_WIDTH) (m_addr (instr_at P b)))
      in (addr OR uint32 (GetFunctionGlobalAttr P I b)) OR
           uint32 (push_bit MAX_IREGISTER_AUTO_SIZE (m_dataModel (instr_at P b))))"

section \<open>Lemmas\<close>

lemma attr_fold_bit:
  "bit (fold (\<lambda>i attr. let v = ident_at I i in
                if isParameter v \<and> isKindOf v CFixed \<and> m_persistentIndex v \<ge> 0
                then attr OR push_bit (nat (m_persistentIndex v)) 1 else attr) xs (a::int)) k \<longleftrightarrow>
     bit a k \<or> (\<exists>i\<in>set xs. isParameter (ident_at I i) \<and> isKindOf (ident_at I i) CFixed \<and>
                          m_persistentIndex (ident_at I i) = int k)"
  by (induction xs arbitrary: a)
    (auto simp: Let_def bit_or_iff bit_exp_iff nat_eq_iff)

definition param_bit :: "program \<Rightarrow> idents \<Rightarrow> nat \<Rightarrow> nat \<Rightarrow> bool" where
  "param_bit P I b k \<longleftrightarrow>
     (\<exists>f. m_beginFunc (instr_at P b) = Some f \<and> f < length (p_funcs P) \<and> fn_kernel (p_funcs P ! f) \<and>
        (\<exists>i\<in>set (fn_ids (p_funcs P ! f)). isParameter (ident_at I i) \<and> isKindOf (ident_at I i) CFixed \<and>
           m_persistentIndex (ident_at I i) = int k))"

lemma bit_GetFunctionGlobalAttr: "bit (GetFunctionGlobalAttr P I b) k \<longleftrightarrow> param_bit P I b k"
  unfolding GetFunctionGlobalAttr_def param_bit_def
  by (auto simp: attr_fold_bit split: option.splits)

lemma uint32_bits: "uint32 x = take_bit 32 x"
  by (simp add: uint32_def take_bit_eq_mod)

lemma uint32_small: "0 \<le> x \<Longrightarrow> x < 4294967296 \<Longrightarrow> uint32 x = x"
  by (simp add: uint32_def)

lemma bit_small:
  assumes "0 \<le> x" "x < 2 ^ n" "n \<le> k"
  shows "\<not> bit (x::int) k"
proof -
  have "take_bit n x = x" using assms by (simp add: take_bit_int_eq_self)
  then have "bit x k \<longleftrightarrow> k < n \<and> bit x k" by (metis bit_take_bit_iff)
  with assms(3) show ?thesis by simp
qed

text \<open>
  The encoded address of a function determines its parts: the code address, the data model and
  one bit for each of the two parameter registers, set exactly when the function is a kernel with
  an integer parameter in that register. The bounds hold for a program that fits the code memory,
  the four data models and the two parameter registers.
\<close>

theorem GetEncodedFunctionAddress_decode:
  assumes addr: "0 \<le> m_addr (instr_at P b)" "m_addr (instr_at P b) < 2 ^ 28"
    and dm: "0 \<le> m_dataModel (instr_at P b)" "m_dataModel (instr_at P b) < 4"
    and par: "\<forall>k. param_bit P I b k \<longrightarrow> k < MAX_IREGISTER_AUTO_SIZE"
  shows "drop_bit 4 (GetEncodedFunctionAddress P I b) = m_addr (instr_at P b) \<and>
    take_bit 2 (drop_bit 2 (GetEncodedFunctionAddress P I b)) = m_dataModel (instr_at P b) \<and>
    (\<forall>k<MAX_IREGISTER_AUTO_SIZE. bit (GetEncodedFunctionAddress P I b) k \<longleftrightarrow> param_bit P I b k)"
proof -
  let ?a = "m_addr (instr_at P b)" and ?d = "m_dataModel (instr_at P b)"
  let ?v = "GetEncodedFunctionAddress P I b"
  have ab: "\<not> bit ?a k" if "28 \<le> k" for k using bit_small [OF addr that] .
  have db: "\<not> bit ?d k" if "2 \<le> k" for k using bit_small [OF dm(1), of 2 k] dm(2) that by simp
  have v: "bit ?v k \<longleftrightarrow> (if k < 2 then param_bit P I b k else if k < 4 then bit ?d (k - 2) else bit ?a (k - 4))"
    for k
  proof -
    have "bit ?v k \<longleftrightarrow> k < 32 \<and> (4 \<le> k \<and> bit ?a (k - 4) \<or> param_bit P I b k \<or> 2 \<le> k \<and> bit ?d (k - 2))"
      by (auto simp: GetEncodedFunctionAddress_def Let_def uint32_bits bit_or_iff bit_take_bit_iff
          bit_push_bit_iff bit_GetFunctionGlobalAttr)
    moreover have "param_bit P I b k \<Longrightarrow> k < 2" using par by auto
    ultimately show ?thesis using ab [of "k - 4"] db [of "k - 2"] by (cases "k < 32") auto
  qed
  have "drop_bit 4 ?v = ?a" by (rule bit_eqI) (simp add: bit_drop_bit_eq v)
  moreover have "take_bit 2 (drop_bit 2 ?v) = ?d"
  proof (rule bit_eqI)
    fix k
    show "bit (take_bit 2 (drop_bit 2 ?v)) k \<longleftrightarrow> bit ?d k"
      using db [of k] by (cases "k < 2") (auto simp: bit_take_bit_iff bit_drop_bit_eq v)
  qed
  ultimately show ?thesis by (simp add: v)
qed

text \<open>The class of a function is what stands before the first \<open>::\<close>.\<close>

lemma GetFunctionClassName_prefix:
  assumes "GetFunctionClassName P b = Inr c"
  shows "\<exists>rest. GetFunctionFullName P b = Inr (c @ ''::'' @ rest)"
proof -
  from assms obtain n k where n: "GetFunctionFullName P b = Inr n" "strstr n ''::'' = Some k" "c = take k n"
    by (auto simp: GetFunctionClassName_def res_bind_eq_Inr_iff split: option.splits)
  from strstr_Some [OF n(2)] have "prefix ''::'' (drop k n)" by simp
  then obtain rest where "drop k n = ''::'' @ rest" by (auto simp: prefix_def)
  then have "n = c @ ''::'' @ rest" using n(3) by (metis append_take_drop_id)
  with n(1) show ?thesis by blast
qed

text \<open>A function at address 6 in data model 1 without parameters in registers.\<close>

theorem GetEncodedFunctionAddress_decode_witness:
  "drop_bit 4 (GetEncodedFunctionAddress
     \<lparr>p_code = [new_cInstruction\<lparr>m_addr := 6, m_dataModel := 1\<rparr>], p_order = [0], p_funcs = []\<rparr> [] 0) = 6 \<and>
   take_bit 2 (drop_bit 2 (GetEncodedFunctionAddress
     \<lparr>p_code = [new_cInstruction\<lparr>m_addr := 6, m_dataModel := 1\<rparr>], p_order = [0], p_funcs = []\<rparr> [] 0)) = 1"
  using GetEncodedFunctionAddress_decode
    [of "\<lparr>p_code = [new_cInstruction\<lparr>m_addr := 6, m_dataModel := 1\<rparr>], p_order = [0], p_funcs = []\<rparr>" 0 "[]"]
  by (simp add: instr_at_def new_cInstruction_def param_bit_def)

end
