(* ===== verification/Encode.thy ===== *)
theory Encode
  imports FuncInfo
begin

text \<open>
  The binary encoding of instructions: \<open>genPreprocess\<close>, \<open>setField\<close>, \<open>gen\<close>, \<open>genHex\<close> and
  \<open>Generate\<close> of \<open>SW/compiler/instruction.cpp\<close>. An instruction is \<open>INSTRUCTION_BYTE_WIDTH\<close> = 16
  bytes, the most significant one first: 80 bits for the vector unit, 32 for the scalar unit and 16
  for the branch.
\<close>

section \<open>Field positions\<close>

definition MU_BASE :: nat where "MU_BASE = 48"
definition CTRL_BASE :: nat where "CTRL_BASE = 16"
definition MU_INSTRUCTION_Y_ATTR_LO :: nat where "MU_INSTRUCTION_Y_ATTR_LO = 0"
definition MU_INSTRUCTION_Y_LO :: nat where "MU_INSTRUCTION_Y_LO = 4"
definition MU_INSTRUCTION_Y_VECTOR :: nat where "MU_INSTRUCTION_Y_VECTOR = 16"
definition MU_INSTRUCTION_X2_ATTR_LO :: nat where "MU_INSTRUCTION_X2_ATTR_LO = 17"
definition MU_INSTRUCTION_X2_LO :: nat where "MU_INSTRUCTION_X2_LO = 21"
definition MU_INSTRUCTION_X2_VECTOR :: nat where "MU_INSTRUCTION_X2_VECTOR = 33"
definition MU_INSTRUCTION_X1_ATTR_LO :: nat where "MU_INSTRUCTION_X1_ATTR_LO = 34"
definition MU_INSTRUCTION_X1_LO :: nat where "MU_INSTRUCTION_X1_LO = 38"
definition MU_INSTRUCTION_X1_VECTOR :: nat where "MU_INSTRUCTION_X1_VECTOR = 50"
definition MU_INSTRUCTION_XACC_ATTR_LO :: nat where "MU_INSTRUCTION_XACC_ATTR_LO = 51"
definition MU_INSTRUCTION_XACC_LO :: nat where "MU_INSTRUCTION_XACC_LO = 55"
definition MU_INSTRUCTION_XACC_VECTOR :: nat where "MU_INSTRUCTION_XACC_VECTOR = 67"
definition MU_INSTRUCTION_TYPE_SAVE :: nat where "MU_INSTRUCTION_TYPE_SAVE = 74"
definition MU_INSTRUCTION_OC_LO :: nat where "MU_INSTRUCTION_OC_LO = 75"
definition IMU_INSTRUCTION_OC_LO :: nat where "IMU_INSTRUCTION_OC_LO = 27"
definition IMU_X1_LO :: nat where "IMU_X1_LO = 23"
definition IMU_X2_LO :: nat where "IMU_X2_LO = 19"
definition IMU_Y_LO :: nat where "IMU_Y_LO = 15"
definition IMU_CONST_LO :: nat where "IMU_CONST_LO = 2"
definition CTRL_INSTRUCTION_OC_LO :: nat where "CTRL_INSTRUCTION_OC_LO = 11"

lemmas field_pos = MU_BASE_def CTRL_BASE_def MU_INSTRUCTION_Y_ATTR_LO_def MU_INSTRUCTION_Y_LO_def
  MU_INSTRUCTION_Y_VECTOR_def MU_INSTRUCTION_X2_ATTR_LO_def MU_INSTRUCTION_X2_LO_def
  MU_INSTRUCTION_X2_VECTOR_def MU_INSTRUCTION_X1_ATTR_LO_def MU_INSTRUCTION_X1_LO_def
  MU_INSTRUCTION_X1_VECTOR_def MU_INSTRUCTION_XACC_ATTR_LO_def MU_INSTRUCTION_XACC_LO_def
  MU_INSTRUCTION_XACC_VECTOR_def MU_INSTRUCTION_TYPE_SAVE_def MU_INSTRUCTION_OC_LO_def
  IMU_INSTRUCTION_OC_LO_def IMU_X1_LO_def IMU_X2_LO_def IMU_Y_LO_def IMU_CONST_LO_def
  CTRL_INSTRUCTION_OC_LO_def

section \<open>Encoding\<close>

text \<open>\<open>setField\<close> ORs the 32 bits of a value into the byte array; bits past the end are dropped.\<close>

definition setField_bit :: "32 word \<Rightarrow> nat \<Rightarrow> nat \<Rightarrow> 8 word list \<Rightarrow> 8 word list" where
  "setField_bit val pos i oc =
     (if bit val i then
        let byte = (i + pos) div 8; b = (i + pos) mod 8
        in if byte < 16 then oc[15 - byte := (oc ! (15 - byte)) OR push_bit b 1] else oc
      else oc)"

definition setField :: "8 word list \<Rightarrow> 32 word \<Rightarrow> nat \<Rightarrow> 8 word list" where
  "setField oc val pos = fold (setField_bit val pos) [0..<32] oc"

text \<open>
  The fields of one instruction, in the order of the calls of \<open>setField\<close> in \<open>gen\<close>: a value and
  its position. \<open>put\<close> converts the \<open>int\<close> argument to \<open>unsigned int\<close>.
\<close>

type_synonym fields = "(32 word \<times> nat) list"

definition put :: "int \<Rightarrow> nat \<Rightarrow> 32 word \<times> nat" where
  "put v pos = (word_of_int v, pos)"

definition operand_fields ::
  "bool \<Rightarrow> f32 list \<Rightarrow> idents \<Rightarrow> cTerm \<Rightarrow> nat \<Rightarrow> nat \<Rightarrow> nat \<Rightarrow> fields res" where
  "operand_fields isfloat S I t vector lo attr =
     res_bind (mu_getOffset isfloat S I t) (\<lambda>off.
       Inr ((if mu_getVectorWidth I t \<ge> 1 then [put 1 (vector + MU_BASE)] else []) @
            [put (off AND 4095) (lo + MU_BASE), put (mu_getExtAttr isfloat I t) (attr + MU_BASE)]))"

definition alu_fields :: "bool \<Rightarrow> f32 list \<Rightarrow> idents \<Rightarrow> Instruction_alu \<Rightarrow> fields res" where
  "alu_fields isfloat S I a =
     (let save = (case alu_y a of Some y \<Rightarrow> (if isDouble I y then [put 1 (MU_INSTRUCTION_TYPE_SAVE + MU_BASE)] else [])
                  | None \<Rightarrow> []);
          acc = (case alu_xacc a of
              Some x \<Rightarrow> res_bind (mu_getOffset isfloat S I x) (\<lambda>off.
                 Inr [put (off AND 4095) (MU_INSTRUCTION_XACC_LO + MU_BASE),
                      put (mu_getExtAttr isfloat I x) (MU_INSTRUCTION_XACC_ATTR_LO + MU_BASE)])
            | None \<Rightarrow> Inr [put INSTRUCTION_ATTR_PRIVATE (MU_INSTRUCTION_XACC_ATTR_LO + MU_BASE)]);
          ops = (if alu_oc a > 0 then
              res_bind (GetMuOpcode (alu_oc a)) (\<lambda>code.
              res_bind (deref (alu_x1 a)) (\<lambda>x1.
              res_bind (operand_fields isfloat S I x1 MU_INSTRUCTION_X1_VECTOR MU_INSTRUCTION_X1_LO
                          MU_INSTRUCTION_X1_ATTR_LO) (\<lambda>f1.
              res_bind (deref (alu_x2 a)) (\<lambda>x2.
              res_bind (operand_fields isfloat S I x2 MU_INSTRUCTION_X2_VECTOR MU_INSTRUCTION_X2_LO
                          MU_INSTRUCTION_X2_ATTR_LO) (\<lambda>f2.
              res_bind (deref (alu_y a)) (\<lambda>y.
              res_bind (operand_fields isfloat S I y MU_INSTRUCTION_Y_VECTOR MU_INSTRUCTION_Y_LO
                          MU_INSTRUCTION_Y_ATTR_LO) (\<lambda>fy.
                Inr ([put code (MU_INSTRUCTION_OC_LO + MU_BASE)] @ f1 @ f2 @ fy))))))))
              else Inr [])
      in res_bind ops (\<lambda>o1. res_bind acc (\<lambda>a1.
           Inr (save @ o1 @ [put 1 (MU_INSTRUCTION_XACC_VECTOR + MU_BASE)] @ a1))))"

text \<open>The constant field holds the constant of the first operand if it is one, else of the second.\<close>

definition imu_fields :: "(nat \<Rightarrow> int) \<Rightarrow> idents \<Rightarrow> Instruction_ialu \<Rightarrow> fields res" where
  "imu_fields objaddr I u =
     (if imu_oc u > 0 then
        res_bind (deref (imu_x1 u)) (\<lambda>x1. res_bind (deref (imu_x2 u)) (\<lambda>x2.
        res_bind (deref (imu_y u)) (\<lambda>y.
          let c = (if is_IMU_Const x1 then imu_getConstant objaddr I x1 else imu_getConstant objaddr I x2)
          in Inr [put (imu_oc u) (IMU_INSTRUCTION_OC_LO + CTRL_BASE), put (imu_getAttr I x1) (IMU_X1_LO + CTRL_BASE),
                  put (imu_getAttr I x2) (IMU_X2_LO + CTRL_BASE), put (imu_getAttr I y) (IMU_Y_LO + CTRL_BASE),
                  put (c AND 8191) (IMU_CONST_LO + CTRL_BASE)])))
      else Inr [])"

definition jump_address :: "program \<Rightarrow> Instruction_control \<Rightarrow> int res" where
  "jump_address P c =
     (case ctl_jumpInstruction c of
        Some j \<Rightarrow> Inr (m_addr (instr_at P j) + (if ctl_jumpAfter c then 2 else 0))
      | None \<Rightarrow>
          if ctl_jumpFunction c \<noteq> [] then
            res_bind (deref (GetFunctionBegin P (ctl_jumpFunction c))) (\<lambda>j. Inr (m_addr (instr_at P j)))
          else Inr 0)"

definition control_fields :: "program \<Rightarrow> Instruction_control \<Rightarrow> fields res" where
  "control_fields P c =
     (if ctl_oc c > 0 then
        res_bind (jump_address P c) (\<lambda>a. Inr [put (ctl_oc c) CTRL_INSTRUCTION_OC_LO, put a 0])
      else Inr [])"

definition gen_fields :: "(nat \<Rightarrow> int) \<Rightarrow> bool \<Rightarrow> f32 list \<Rightarrow> idents \<Rightarrow> program \<Rightarrow> cInstruction \<Rightarrow> fields res" where
  "gen_fields objaddr isfloat S I P ins =
     res_bind (alu_fields isfloat S I (m_alu1 ins)) (\<lambda>f1.
     res_bind (imu_fields objaddr I (m_imu ins)) (\<lambda>f2.
     res_bind (control_fields P (m_control ins)) (\<lambda>f3. Inr (f1 @ f2 @ f3))))"

definition gen_instr :: "(nat \<Rightarrow> int) \<Rightarrow> bool \<Rightarrow> f32 list \<Rightarrow> idents \<Rightarrow> program \<Rightarrow> cInstruction \<Rightarrow> 8 word list res" where
  "gen_instr objaddr isfloat S I P ins =
     res_bind (gen_fields objaddr isfloat S I P ins) (\<lambda>fs.
       Inr (fold (\<lambda>(v, pos) oc. setField oc v pos) fs (replicate 16 0)))"

text \<open>\<open>genPreprocess\<close>: an instruction has two addresses; \<open>addr\<close> is a \<open>short\<close>.\<close>

definition genPreprocess :: "program \<Rightarrow> program" where
  "genPreprocess P =
     fold (\<lambda>(i, k). upd_instr i (\<lambda>ins. ins\<lparr>m_addr := sint (word_of_nat (2 * k) :: 16 word)\<rparr>))
       (zip (p_order P) [0..<length (p_order P)]) P"

fun gen_image :: "(nat \<Rightarrow> int) \<Rightarrow> bool \<Rightarrow> f32 list \<Rightarrow> idents \<Rightarrow> program \<Rightarrow> nat list \<Rightarrow> 8 word list res" where
  "gen_image objaddr isfloat S I P [] = Inr []"
| "gen_image objaddr isfloat S I P (i # is) =
     res_bind (gen_instr objaddr isfloat S I P (instr_at P i)) (\<lambda>oc.
     res_bind (gen_image objaddr isfloat S I P is) (\<lambda>img. Inr (oc @ img)))"

text \<open>
  \<open>genHex\<close>: the record of four bytes at an address. The checksum makes the bytes of the record
  (count, address, type, data and checksum) add up to 0.
\<close>

definition hex_checksum :: "16 word \<Rightarrow> 8 word list \<Rightarrow> 8 word" where
  "hex_checksum addr op =
     NOT (3 + ucast addr + ucast (drop_bit 8 addr) + op ! 0 + op ! 1 + op ! 2 + op ! 3) + 1"

definition hex_digit :: "nat \<Rightarrow> char" where
  "hex_digit d = (if d < 10 then char_of (48 + d) else char_of (55 + d))"

fun hex_pad :: "nat \<Rightarrow> nat \<Rightarrow> string" where
  "hex_pad 0 n = []"
| "hex_pad (Suc k) n = hex_pad k (n div 16) @ [hex_digit (n mod 16)]"

definition genHex :: "16 word \<Rightarrow> 8 word list \<Rightarrow> string" where
  "genHex addr op =
     '':03'' @ hex_pad (if sint addr < 0 then 8 else 4) (nat (uint32 (sint addr))) @ ''00'' @
     concat (map (\<lambda>b. hex_pad 2 (unat b)) (take 4 op @ [hex_checksum addr op])) @ [CHR 0x0A]"

text \<open>
  \<open>Generate\<close>: the 16-bit words of \<open>zta_pcore_img\<close> and the length the array is declared with.
  The words of an instruction are swapped in pairs.
\<close>

fun image_words :: "8 word list \<Rightarrow> nat list" where
  "image_words (b0 # b1 # b2 # b3 # bs) =
     (unat b2 * 256 + unat b3) # (unat b0 * 256 + unat b1) # image_words bs"
| "image_words _ = []"

definition Generate :: "(nat \<Rightarrow> int) \<Rightarrow> bool \<Rightarrow> f32 list \<Rightarrow> idents \<Rightarrow> program \<Rightarrow> (nat \<times> nat list) res" where
  "Generate objaddr isfloat S I P =
     (let Q = genPreprocess P in
      res_bind (gen_image objaddr isfloat S I Q (p_order Q)) (\<lambda>img.
      res_bind (const_Gen S) (\<lambda>cimg.
        Inr (length img div 2 + length cimg + 2,
             length img # image_words img @ (length cimg * 2) # map unat cimg))))"

section \<open>Bits of the encoded instruction\<close>

definition img_bit :: "8 word list \<Rightarrow> nat \<Rightarrow> bool" where
  "img_bit oc n = bit (oc ! (15 - n div 8)) (n mod 8)"

lemma length_setField_bit [simp]: "length (setField_bit val pos i oc) = length oc"
  by (simp add: setField_bit_def Let_def)

lemma length_fold_setField_bit [simp]: "length (fold (setField_bit val pos) is oc) = length oc"
  by (induction "is" arbitrary: oc) simp_all

lemma length_setField [simp]: "length (setField oc val pos) = length oc"
  by (simp add: setField_def)

lemma img_bit_setField_bit:
  assumes "length oc = 16" "n < 128"
  shows "img_bit (setField_bit val pos i oc) n \<longleftrightarrow> img_bit oc n \<or> (bit val i \<and> n = i + pos)"
proof -
  have eq: "n div 8 = m div 8 \<and> n mod 8 = m mod 8 \<longleftrightarrow> n = m" for m
    by (metis div_mult_mod_eq)
  have n: "n div 8 < 16" using assms(2) by (simp add: div_less_iff_less_mult)
  define m where "m = i + pos"
  show ?thesis
  proof (cases "bit val i \<and> m div 8 < 16")
    case False
    then have "m \<noteq> n" if "bit val i" using that n by auto
    with False show ?thesis
      by (auto simp: setField_bit_def Let_def m_def [symmetric] img_bit_def)
  next
    case True
    have idx: "15 - n div 8 = 15 - m div 8 \<longleftrightarrow> n div 8 = m div 8" using n True by auto
    have "bit (push_bit (m mod 8) 1 :: 8 word) (n mod 8) \<longleftrightarrow> n mod 8 = m mod 8"
      by (auto simp: bit_exp_iff)
    with True idx assms(1) eq [of m] show ?thesis
      by (auto simp: setField_bit_def Let_def m_def [symmetric] img_bit_def nth_list_update bit_or_iff)
  qed
qed

lemma img_bit_fold_bits:
  assumes "length oc = 16" "n < 128"
  shows "img_bit (fold (setField_bit val pos) is oc) n \<longleftrightarrow>
     img_bit oc n \<or> (\<exists>i\<in>set is. bit val i \<and> n = i + pos)"
  using assms(1) by (induction "is" arbitrary: oc) (auto simp: img_bit_setField_bit [OF _ assms(2)])

lemma img_bit_setField:
  assumes "length oc = 16" "n < 128"
  shows "img_bit (setField oc val pos) n \<longleftrightarrow> img_bit oc n \<or> (pos \<le> n \<and> bit val (n - pos))"
proof -
  have "bit val k \<Longrightarrow> k < 32" for k using bit_imp_le_length [of val k] by simp
  then show ?thesis
    unfolding setField_def img_bit_fold_bits [OF assms]
    by (auto simp: Bex_def intro!: exI [of _ "n - pos"])
qed

definition encode_fields :: "fields \<Rightarrow> 8 word list" where
  "encode_fields fs = fold (\<lambda>(v, pos) oc. setField oc v pos) fs (replicate 16 0)"

lemma length_fold_setField [simp]:
  "length (fold (\<lambda>(v, pos) oc. setField oc v pos) fs oc) = length oc"
  by (induction fs arbitrary: oc) (auto split: prod.split)

lemma length_encode_fields [simp]: "length (encode_fields fs) = 16"
  by (simp add: encode_fields_def)

lemma img_bit_fold_setField:
  assumes "length oc = 16" "n < 128"
  shows "img_bit (fold (\<lambda>(v, pos) oc. setField oc v pos) fs oc) n \<longleftrightarrow>
     img_bit oc n \<or> (\<exists>(v, pos)\<in>set fs. pos \<le> n \<and> bit v (n - pos))"
  using assms(1)
proof (induction fs arbitrary: oc)
  case (Cons f fs)
  obtain v pos where f: "f = (v, pos)" by (cases f)
  show ?case using Cons.IH [of "setField oc v pos"] Cons.prems
    by (simp add: f img_bit_setField [OF _ assms(2)] disj_assoc)
qed simp

lemma img_bit_encode:
  "n < 128 \<Longrightarrow> img_bit (encode_fields fs) n \<longleftrightarrow> (\<exists>(v, pos)\<in>set fs. pos \<le> n \<and> bit v (n - pos))"
  unfolding encode_fields_def
  by (subst img_bit_fold_setField) (auto simp: img_bit_def)

section \<open>Addresses, records and the image\<close>

lemma genPreprocess_fold:
  assumes "distinct (map fst ks)" "set (map fst ks) \<subseteq> {..<length (p_code P)}" "(i, k) \<in> set ks"
  shows "m_addr (instr_at (fold (\<lambda>(i, k). upd_instr i (\<lambda>ins. ins\<lparr>m_addr := f k\<rparr>)) ks P) i) = f k"
proof -
  have other: "m_addr (instr_at (fold (\<lambda>(i, k). upd_instr i (\<lambda>ins. ins\<lparr>m_addr := f k\<rparr>)) js Q) i) =
      m_addr (instr_at Q i)" if "i \<notin> fst ` set js" for js Q
    using that by (induction js arbitrary: Q) auto
  show ?thesis
    using assms
  proof (induction ks arbitrary: P)
    case (Cons x xs)
    obtain j l where x: "x = (j, l)" by (cases x)
    show ?case
    proof (cases "(j, l) = (i, k)")
      case True
      with Cons.prems x have "i \<notin> fst ` set xs" by auto
      with other [OF this] True Cons.prems x show ?thesis by simp
    next
      case False
      with Cons.prems x have "(i, k) \<in> set xs" by auto
      with Cons x show ?thesis by simp
    qed
  qed simp
qed

text \<open>
  C26: \<open>genPreprocess\<close> gives the instruction at position \<open>k\<close> of the program the address \<open>2 * k\<close>, for
  every program that the 16-bit address counter can count: the addresses are distinct, increase in
  program order, and the address after an instruction is that of the next one, which is what a jump
  \<open>after\<close> an instruction is encoded with.
\<close>

theorem genPreprocess_addresses:
  assumes "distinct (p_order P)" and "set (p_order P) \<subseteq> {..<length (p_code P)}"
    and "length (p_order P) \<le> 16384" and "k < length (p_order P)"
  shows "m_addr (instr_at (genPreprocess P) (p_order P ! k)) = 2 * int k"
proof -
  have "(p_order P ! k, k) \<in> set (zip (p_order P) [0..<length (p_order P)])"
    using assms(4) by (auto simp: set_zip intro!: exI [of _ k])
  from genPreprocess_fold [OF _ _ this, of P "\<lambda>k. sint (word_of_nat (2 * k) :: 16 word)"] assms(1,2)
  have "m_addr (instr_at (genPreprocess P) (p_order P ! k)) = sint (word_of_nat (2 * k) :: 16 word)"
    by (simp add: genPreprocess_def)
  also have "\<dots> = int (2 * k)"
  proof -
    have "sint (word_of_nat n :: 16 word) = int n" if "n < 32768" for n
      using that by (simp add: signed_of_nat signed_take_bit_int_eq_self)
    moreover have "2 * k < 32768" using assms(3,4) by simp
    ultimately show ?thesis by blast
  qed
  finally show ?thesis by simp
qed

text \<open>
  The bytes of a hex record add up to 0: the count 3, the two address bytes, the type 0, the four
  bytes of data and the checksum.
\<close>

theorem hex_checksum_zero:
  "3 + ucast addr + ucast (drop_bit 8 addr) + 0 + op ! 0 + op ! 1 + op ! 2 + op ! 3 + hex_checksum addr op
     = (0 :: 8 word)"
proof -
  have "NOT x + 1 = - x" for x :: "8 word" by (simp add: minus_eq_not_plus_1)
  then show ?thesis by (simp add: hex_checksum_def add.assoc)
qed

lemma length_gen_instr: "gen_instr objaddr isfloat S I P ins = Inr img \<Longrightarrow> length img = 16"
  by (auto simp: gen_instr_def res_bind_eq_Inr_iff)

lemma length_gen_image:
  "gen_image objaddr isfloat S I P is = Inr img \<Longrightarrow> length img = 16 * length is"
  by (induction "is" arbitrary: img) (auto simp: res_bind_eq_Inr_iff length_gen_instr)

lemma length_image_words: "4 dvd length bs \<Longrightarrow> length (image_words bs) = length bs div 2"
proof (induction bs rule: image_words.induct)
  case (1 b0 b1 b2 b3 bs)
  from 1(2) have "4 dvd Suc (Suc (Suc (Suc (length bs))))" by simp
  then have "4 dvd length bs" by presburger
  with 1 show ?case by simp
qed (auto simp: dvd_def, presburger+)

text \<open>
  The array \<open>zta_pcore_img\<close> is declared with exactly as many elements as are written: two size
  words, eight words for each instruction and one for each constant.
\<close>

theorem Generate_length:
  assumes "Generate objaddr isfloat S I P = Inr (n, ws)"
  shows "length ws = n \<and> n = 8 * length (p_order P) + length S + 2"
proof -
  from assms obtain img cimg where
    g: "gen_image objaddr isfloat S I (genPreprocess P) (p_order (genPreprocess P)) = Inr img"
      "const_Gen S = Inr cimg" and
    n: "n = length img div 2 + length cimg + 2"
      "ws = length img # image_words img @ (length cimg * 2) # map unat cimg"
    by (auto simp: Generate_def Let_def res_bind_eq_Inr_iff)
  have ord: "p_order (fold (\<lambda>(i, k). upd_instr i (f k)) ks Q) = p_order Q" for f ks Q
    by (induction ks arbitrary: Q) auto
  have l: "length img = 16 * length (p_order P)"
    using length_gen_image [OF g(1)] by (simp add: genPreprocess_def ord)
  have "length cimg = length S" using const_Gen_length [OF g(2)] .
  with n l length_image_words [of img] show ?thesis by simp
qed

text \<open>Two instructions in program order 1, 0: a return, and an empty one.\<close>

definition order_program :: program where
  "order_program = \<lparr>p_code = [new_cInstruction, createUnconditionalJump OPCODE_RETURN None False new_cInstruction],
     p_order = [1, 0], p_funcs = []\<rparr>"

theorem genPreprocess_addresses_witness:
  "m_addr (instr_at (genPreprocess order_program) 0) = 2"
  using genPreprocess_addresses [of order_program 1] by (simp add: order_program_def)

theorem Generate_length_witness:
  "\<exists>n ws. Generate (\<lambda>_. 0) False [] [] order_program = Inr (n, ws) \<and> length ws = n \<and> n = 18"
proof -
  have "\<not> isl (Generate (\<lambda>_. 0) False [] [] order_program)"
    by (simp add: order_program_def Generate_def genPreprocess_def gen_instr_def gen_fields_def alu_fields_def
        operand_fields_def imu_fields_def control_fields_def jump_address_def instr_at_def upd_instr_def
        new_cInstruction_def empty_alu_def createUnconditionalJump_def Let_def res_bind_def)
  then obtain n ws where g: "Generate (\<lambda>_. 0) False [] [] order_program = Inr (n, ws)"
    by (cases "Generate (\<lambda>_. 0) False [] [] order_program") auto
  from Generate_length [OF g] g show ?thesis by (simp add: order_program_def)
qed

end
