(* ===== verification/Decode.thy ===== *)
theory Decode
  imports Encode
begin

text \<open>
  The fields of an encoded instruction can be read back: no two fields overlap, every value fits its
  field, and so the bytes that \<open>gen\<close> writes determine what each unit executes.
\<close>

section \<open>Decoding\<close>

text \<open>Positions and widths of all fields of an instruction. No two overlap.\<close>

definition layout :: "(nat \<times> nat) list" where
  "layout =
     [(MU_INSTRUCTION_Y_ATTR_LO + MU_BASE, 4), (MU_INSTRUCTION_Y_LO + MU_BASE, 12), (MU_INSTRUCTION_Y_VECTOR + MU_BASE, 1),
      (MU_INSTRUCTION_X2_ATTR_LO + MU_BASE, 4), (MU_INSTRUCTION_X2_LO + MU_BASE, 12), (MU_INSTRUCTION_X2_VECTOR + MU_BASE, 1),
      (MU_INSTRUCTION_X1_ATTR_LO + MU_BASE, 4), (MU_INSTRUCTION_X1_LO + MU_BASE, 12), (MU_INSTRUCTION_X1_VECTOR + MU_BASE, 1),
      (MU_INSTRUCTION_XACC_ATTR_LO + MU_BASE, 4), (MU_INSTRUCTION_XACC_LO + MU_BASE, 12), (MU_INSTRUCTION_XACC_VECTOR + MU_BASE, 1),
      (MU_INSTRUCTION_TYPE_SAVE + MU_BASE, 1), (MU_INSTRUCTION_OC_LO + MU_BASE, 5),
      (IMU_INSTRUCTION_OC_LO + CTRL_BASE, 5), (IMU_X1_LO + CTRL_BASE, 4), (IMU_X2_LO + CTRL_BASE, 4),
      (IMU_Y_LO + CTRL_BASE, 4), (IMU_CONST_LO + CTRL_BASE, 13), (CTRL_INSTRUCTION_OC_LO, 5), (0, 11)]"

definition fields_disjoint :: "nat \<times> nat \<Rightarrow> nat \<times> nat \<Rightarrow> bool" where
  "fields_disjoint a b \<longleftrightarrow> fst a + snd a \<le> fst b \<or> fst b + snd b \<le> fst a"

lemma layout_numbers:
  "layout = [(48, 4), (52, 12), (64, 1), (65, 4), (69, 12), (81, 1), (82, 4), (86, 12), (98, 1),
     (99, 4), (103, 12), (115, 1), (122, 1), (123, 5), (43, 5), (39, 4), (35, 4), (31, 4), (18, 13),
     (11, 5), (0, 11)]"
  by (simp add: layout_def field_pos)

lemma layout_disjoint:
  assumes "a \<in> set layout" "b \<in> set layout" "a \<noteq> b"
  shows "fields_disjoint a b"
proof -
  have "list_all (\<lambda>a. list_all (\<lambda>b. a = b \<or> fields_disjoint a b) layout) layout"
    unfolding layout_numbers by code_simp
  with assms show ?thesis by (auto simp: list_all_iff)
qed

lemma layout_bounds: "(pos, w) \<in> set layout \<Longrightarrow> pos + w \<le> 128 \<and> w \<le> 32 \<and> 0 < w"
  by (auto simp: layout_numbers)

text \<open>The value of \<open>w\<close> bits from bit \<open>lo\<close>.\<close>

definition field :: "8 word list \<Rightarrow> nat \<Rightarrow> nat \<Rightarrow> nat" where
  "field img lo w = horner_sum of_bool 2 (map (img_bit img) [lo..<lo + w])"

definition fields_fit :: "fields \<Rightarrow> bool" where
  "fields_fit fs \<longleftrightarrow> distinct (map snd fs) \<and>
     (\<forall>(v, pos)\<in>set fs. \<exists>w. (pos, w) \<in> set layout \<and> unat v < 2 ^ w)"

definition field_value :: "fields \<Rightarrow> nat \<Rightarrow> nat" where
  "field_value fs pos = (case map_of (map (\<lambda>(v, p). (p, v)) fs) pos of Some v \<Rightarrow> unat v | None \<Rightarrow> 0)"

lemma bit_small_word: "unat (v :: 32 word) < 2 ^ w \<Longrightarrow> bit v k \<Longrightarrow> k < w"
proof (rule ccontr)
  assume a: "unat v < 2 ^ w" "bit v k" "\<not> k < w"
  have "bit (unat v) k" using a(2) by (simp add: bit_unsigned_iff)
  moreover have "take_bit w (unat v) = unat v" using a(1) by (simp add: take_bit_nat_eq_self)
  ultimately show False using a(3) by (metis bit_take_bit_iff)
qed

lemma field_unique:
  "distinct (map snd fs) \<Longrightarrow> (v, pos) \<in> set fs \<Longrightarrow> (v', pos) \<in> set fs \<Longrightarrow> v' = v"
  by (induction fs) (auto simp: image_iff)

lemma map_of_field:
  "distinct (map snd fs) \<Longrightarrow> (v, pos) \<in> set fs \<Longrightarrow> field_value fs pos = unat v"
  by (induction fs) (auto simp: field_value_def image_iff split: option.splits)

lemma map_of_no_field:
  "(\<nexists>v. (v, pos) \<in> set fs) \<Longrightarrow> field_value fs pos = 0"
  by (induction fs) (auto simp: field_value_def)

lemma field_encode:
  assumes fit: "fields_fit fs" and l: "(pos, w) \<in> set layout"
  shows "field (encode_fields fs) pos w = field_value fs pos"
proof -
  have bnd: "pos + w \<le> 128" using layout_bounds [OF l] by simp
  have bits: "img_bit (encode_fields fs) (pos + k) \<longleftrightarrow> bit (field_value fs pos) k" if k: "k < w" for k
  proof -
    have n: "pos + k < 128" using k bnd by simp
    show ?thesis
    proof (cases "\<exists>v. (v, pos) \<in> set fs")
      case True
      then obtain v where v: "(v, pos) \<in> set fs" by blast
      have only: "bit v k" if "(v', pos') \<in> set fs" "pos' \<le> pos + k" "bit v' (pos + k - pos')" for v' pos'
      proof -
        from fit that(1) obtain w' where w': "(pos', w') \<in> set layout" "unat v' < 2 ^ w'"
          by (auto simp: fields_fit_def)
        from bit_small_word [OF w'(2) that(3)] that(2) have "pos + k < pos' + w'" by linarith
        then have "\<not> fields_disjoint (pos, w) (pos', w')" using k that(2) by (simp add: fields_disjoint_def)
        then have "pos' = pos" using layout_disjoint [OF l w'(1)] by auto
        have d: "distinct (map snd fs)" using fit by (simp add: fields_fit_def)
        have "v' = v" using field_unique [OF d v] that(1) \<open>pos' = pos\<close> by simp
        with that(3) \<open>pos' = pos\<close> show ?thesis by simp
      qed
      then have "img_bit (encode_fields fs) (pos + k) \<longleftrightarrow> bit v k"
      proof -
        have "bit v k \<Longrightarrow> \<exists>(v, p)\<in>set fs. p \<le> pos + k \<and> bit v (pos + k - p)"
          by (rule bexI [OF _ v]) simp
        with only show ?thesis unfolding img_bit_encode [OF n] by blast
      qed
      then show ?thesis
        using map_of_field [OF _ v] fit by (simp add: fields_fit_def bit_unsigned_iff) 
    next
      case False
      have "\<not> img_bit (encode_fields fs) (pos + k)"
      proof
        assume "img_bit (encode_fields fs) (pos + k)"
        then obtain v' pos' where f: "(v', pos') \<in> set fs" "pos' \<le> pos + k" "bit v' (pos + k - pos')"
          by (auto simp: img_bit_encode [OF n])
        from fit f(1) obtain w' where w': "(pos', w') \<in> set layout" "unat v' < 2 ^ w'"
          by (auto simp: fields_fit_def)
        from bit_small_word [OF w'(2) f(3)] f(2) have "pos + k < pos' + w'" by linarith
        then have "\<not> fields_disjoint (pos, w) (pos', w')" using k f(2) by (simp add: fields_disjoint_def)
        then have "pos' = pos" using layout_disjoint [OF l w'(1)] by auto
        with False f(1) show False by blast
      qed
      with map_of_no_field [OF False] show ?thesis by simp
    qed
  qed
  have fits: "field_value fs pos < 2 ^ w"
  proof (cases "\<exists>v. (v, pos) \<in> set fs")
    case True
    then obtain v where v: "(v, pos) \<in> set fs" by blast
    with fit obtain w' where "(pos, w') \<in> set layout" "unat v < 2 ^ w'" by (auto simp: fields_fit_def)
    moreover have "w' = w"
    proof (rule ccontr)
      assume ne: "w' \<noteq> w"
      with layout_disjoint [OF l \<open>(pos, w') \<in> set layout\<close>] have "w = 0 \<or> w' = 0"
        by (auto simp: fields_disjoint_def)
      with layout_bounds [OF l] layout_bounds [OF \<open>(pos, w') \<in> set layout\<close>] show False by simp
    qed
    ultimately show ?thesis using map_of_field [OF _ v] fit by (simp add: fields_fit_def)
  qed (simp add: map_of_no_field)
  have "field (encode_fields fs) pos w = horner_sum of_bool 2 (map (bit (field_value fs pos)) [0..<w])"
    unfolding field_def
    by (rule arg_cong [of _ _ "horner_sum of_bool 2"], rule nth_equalityI) (simp_all add: bits)
  also have "\<dots> = field_value fs pos"
    using fits by (simp add: horner_sum_bit_eq_take_bit take_bit_nat_eq_self)
  finally show ?thesis .
qed

section \<open>The fields of an instruction fit and are read back\<close>

lemma fields_fit_append:
  "fields_fit xs \<Longrightarrow> fields_fit ys \<Longrightarrow> snd ` set xs \<inter> snd ` set ys = {} \<Longrightarrow> fields_fit (xs @ ys)"
  by (auto simp: fields_fit_def)

lemma field_value_append:
  "field_value (xs @ ys) pos = (if pos \<in> snd ` set xs then field_value xs pos else field_value ys pos)"
proof (induction xs)
  case (Cons a xs)
  then show ?case by (cases a) (auto simp: field_value_def image_iff)
qed (simp add: field_value_def)

lemma field_value_simps [simp]:
  "field_value [] pos = 0"
  "field_value ((v, p) # fs) pos = (if pos = p then unat v else field_value fs pos)"
  by (auto simp: field_value_def)

lemma put_sel [simp]: "snd (put v p) = p" "fst (put v p) = word_of_int v"
  by (simp_all add: put_def)

lemma field_value_put [simp]:
  "field_value (put v p # fs) pos = (if pos = p then nat (uint32 v) else field_value fs pos)"
  by (simp add: put_def uint32_def unsigned_of_int take_bit_eq_mod nat_mod_distrib flip: unat_eq_nat_uint)

lemma unat_put: "0 \<le> v \<Longrightarrow> v < 4294967296 \<Longrightarrow> unat (word_of_int v :: 32 word) = nat v"
  by (simp add: unsigned_of_int take_bit_int_eq_self flip: unat_eq_nat_uint)

lemma fields_fit_put:
  assumes "(p, w) \<in> set layout" "0 \<le> v" "v < 2 ^ w" "p \<notin> snd ` set fs" "fields_fit fs"
  shows "fields_fit (put v p # fs)"
proof -
  have w: "w \<le> 32" using layout_bounds [OF assms(1)] by simp
  have "v < 2 ^ 32" using assms(3) power_increasing [OF w, of "2::int"] by linarith
  then have "unat (word_of_int v :: 32 word) = nat v" using assms(2) by (simp add: unat_put)
  then have "unat (fst (put v p)) < 2 ^ w" using assms(2,3) by (simp add: nat_less_iff)
  with assms(1,4,5) show ?thesis by (auto simp: fields_fit_def put_def)
qed

lemma fields_fit_Nil [simp]: "fields_fit []"
  by (simp add: fields_fit_def)

text \<open>The parts of an operand: vector or scalar, the address modulo 4096, and the attribute.\<close>

definition operand_ok :: "bool \<Rightarrow> idents \<Rightarrow> cTerm \<Rightarrow> bool" where
  "operand_ok isfloat I t \<longleftrightarrow> 0 \<le> mu_getExtAttr isfloat I t \<and> mu_getExtAttr isfloat I t < 16"

lemma operand_ok_index: "mu_getIndex I t \<le> 3 \<Longrightarrow> operand_ok isfloat I t"
  by (auto simp: operand_ok_def mu_getExtAttr_def split: eTermMemoryReference.split)

lemma and_4095: "(x::int) AND 4095 = x mod 4096"
  using take_bit_eq_mask [of 12 x] by (simp add: take_bit_eq_mod mask_eq_exp_minus_1)

lemma and_8191: "(x::int) AND 8191 = x mod 8192"
  using take_bit_eq_mask [of 13 x] by (simp add: take_bit_eq_mod mask_eq_exp_minus_1)

lemma operand_fields_eq:
  "operand_fields isfloat S I t v lo at = Inr f \<longleftrightarrow>
     (\<exists>off. mu_getOffset isfloat S I t = Inr off \<and>
        f = (if mu_getVectorWidth I t \<ge> 1 then [put 1 (v + MU_BASE)] else []) @
            [put (off mod 4096) (lo + MU_BASE), put (mu_getExtAttr isfloat I t) (at + MU_BASE)])"
  by (auto simp: operand_fields_def res_bind_eq_Inr_iff and_4095)

text \<open>What the decoder reads back from the vector part.\<close>

definition decode_operand :: "8 word list \<Rightarrow> nat \<Rightarrow> nat \<Rightarrow> nat \<Rightarrow> bool \<times> nat \<times> nat" where
  "decode_operand img v lo at =
     (field img (v + MU_BASE) 1 = 1, field img (lo + MU_BASE) 12, field img (at + MU_BASE) 4)"

definition operand_code :: "bool \<Rightarrow> f32 list \<Rightarrow> idents \<Rightarrow> cTerm \<Rightarrow> bool \<times> nat \<times> nat" where
  "operand_code isfloat S I t =
     (mu_getVectorWidth I t \<ge> 1,
      (case mu_getOffset isfloat S I t of Inr off \<Rightarrow> nat (off mod 4096) | Inl _ \<Rightarrow> 0),
      nat (mu_getExtAttr isfloat I t))"

definition alu_encodable :: "bool \<Rightarrow> idents \<Rightarrow> Instruction_alu \<Rightarrow> bool" where
  "alu_encodable isfloat I a \<longleftrightarrow> alu_oc a < 32 \<and>
     (\<forall>t. alu_x1 a = Some t \<or> alu_x2 a = Some t \<or> alu_y a = Some t \<or> alu_xacc a = Some t \<longrightarrow>
        operand_ok isfloat I t)"

definition imu_encodable :: "idents \<Rightarrow> Instruction_ialu \<Rightarrow> bool" where
  "imu_encodable I u \<longleftrightarrow> imu_oc u < 32 \<and>
     (\<forall>t. imu_x1 u = Some t \<or> imu_x2 u = Some t \<or> imu_y u = Some t \<longrightarrow>
        0 \<le> imu_getAttr I t \<and> imu_getAttr I t < 16)"

definition control_encodable :: "program \<Rightarrow> Instruction_control \<Rightarrow> bool" where
  "control_encodable P c \<longleftrightarrow> ctl_oc c < 32 \<and>
     (\<forall>a. jump_address P c = Inr a \<longrightarrow> 0 \<le> a \<and> a < 2048)"

lemma GetMuOpcode_eq: "0 < oc \<Longrightarrow> oc < 32 \<Longrightarrow> GetMuOpcode oc = Inr oc"
proof -
  assume oc: "0 < oc" "oc < 32"
  then have "nat oc < 32" by simp
  with mu_opcode_def_rows have "od_oc (mu_opcode_def ! nat oc) = oc" using oc by simp
  moreover have "nat oc < length mu_opcode_def" using oc by (simp add: length_mu_opcode_def)
  ultimately show ?thesis using oc by (simp add: GetMuOpcode_def GetMuOpcodeDef_def)
qed

lemma layout_mem:
  "(p, w) \<in> set layout \<longleftrightarrow> (p, w) \<in> {(48, 4), (52, 12), (64, 1), (65, 4), (69, 12), (81, 1), (82, 4),
     (86, 12), (98, 1), (99, 4), (103, 12), (115, 1), (122, 1), (123, 5), (43, 5), (39, 4), (35, 4),
     (31, 4), (18, 13), (11, 5), (0, 11)}"
  by (simp add: layout_numbers)

text \<open>The vector part in closed form.\<close>

definition flag_field :: "bool \<Rightarrow> nat \<Rightarrow> fields" where
  "flag_field b p = (if b then [put 1 p] else [])"

lemma flag_field_simps [simp]:
  "snd ` set (flag_field b p) = (if b then {p} else {})"
  "field_value (flag_field b p @ fs) pos = (if b \<and> pos = p then 1 else field_value fs pos)"
  by (simp_all add: flag_field_def uint32_def)

lemma fields_fit_flag:
  "(p, 1) \<in> set layout \<Longrightarrow> p \<notin> snd ` set fs \<Longrightarrow> fields_fit fs \<Longrightarrow> fields_fit (flag_field b p @ fs)"
  by (simp add: flag_field_def fields_fit_put)

definition acc_fields :: "bool \<Rightarrow> f32 list \<Rightarrow> idents \<Rightarrow> cTerm option \<Rightarrow> fields" where
  "acc_fields isfloat S I x =
     (case x of
        Some t \<Rightarrow> [put ((case mu_getOffset isfloat S I t of Inr off \<Rightarrow> off | Inl _ \<Rightarrow> 0) mod 4096) 103,
                   put (mu_getExtAttr isfloat I t) 99]
      | None \<Rightarrow> [put INSTRUCTION_ATTR_PRIVATE 99])"

lemma alu_fields_form:
  assumes "alu_fields isfloat S I a = Inr f" "alu_oc a > 0" "alu_oc a < 32"
  obtains x1 x2 y o1 o2 oy b where "alu_x1 a = Some x1" "alu_x2 a = Some x2" "alu_y a = Some y"
    "mu_getOffset isfloat S I x1 = Inr o1" "mu_getOffset isfloat S I x2 = Inr o2"
    "mu_getOffset isfloat S I y = Inr oy"
    "f = flag_field b 122 @ put (alu_oc a) 123 #
         flag_field (mu_getVectorWidth I x1 \<ge> 1) 98 @ put (o1 mod 4096) 86 # put (mu_getExtAttr isfloat I x1) 82 #
         flag_field (mu_getVectorWidth I x2 \<ge> 1) 81 @ put (o2 mod 4096) 69 # put (mu_getExtAttr isfloat I x2) 65 #
         flag_field (mu_getVectorWidth I y \<ge> 1) 64 @ put (oy mod 4096) 52 # put (mu_getExtAttr isfloat I y) 48 #
         put 1 115 # acc_fields isfloat S I (alu_xacc a)"
proof -
  from assms(1,2) obtain x1 x2 y where t: "alu_x1 a = Some x1" "alu_x2 a = Some x2" "alu_y a = Some y"
    by (cases "alu_x1 a"; cases "alu_x2 a"; cases "alu_y a")
      (auto simp: alu_fields_def Let_def res_bind_eq_Inr_iff)
  from assms t obtain o1 o2 oy where o: "mu_getOffset isfloat S I x1 = Inr o1"
    "mu_getOffset isfloat S I x2 = Inr o2" "mu_getOffset isfloat S I y = Inr oy"
    by (auto simp: alu_fields_def Let_def res_bind_eq_Inr_iff operand_fields_eq)
  from assms t o have "f = flag_field (isDouble I y) 122 @ put (alu_oc a) 123 #
         flag_field (mu_getVectorWidth I x1 \<ge> 1) 98 @ put (o1 mod 4096) 86 # put (mu_getExtAttr isfloat I x1) 82 #
         flag_field (mu_getVectorWidth I x2 \<ge> 1) 81 @ put (o2 mod 4096) 69 # put (mu_getExtAttr isfloat I x2) 65 #
         flag_field (mu_getVectorWidth I y \<ge> 1) 64 @ put (oy mod 4096) 52 # put (mu_getExtAttr isfloat I y) 48 #
         put 1 115 # acc_fields isfloat S I (alu_xacc a)"
    by (cases "alu_xacc a")
      (auto simp: alu_fields_def Let_def res_bind_eq_Inr_iff operand_fields_eq GetMuOpcode_eq
        flag_field_def acc_fields_def field_pos and_4095)
  with that t o show ?thesis by blast
qed

lemma acc_fields_pos: "snd ` set (acc_fields isfloat S I x) \<subseteq> {99, 103}"
  by (auto simp: acc_fields_def split: option.splits)

lemma acc_fields_fit:
  assumes "\<forall>t. x = Some t \<longrightarrow> operand_ok isfloat I t"
  shows "fields_fit (acc_fields isfloat S I x)"
proof (cases x)
  case None
  show ?thesis unfolding acc_fields_def None option.case
    by (intro fields_fit_put [of 99 4] fields_fit_Nil) (simp_all add: layout_mem)
next
  case (Some t)
  with assms have "operand_ok isfloat I t" by simp
  then show ?thesis unfolding acc_fields_def Some option.case
    by (intro fields_fit_put [of 103 12] fields_fit_put [of 99 4] fields_fit_Nil)
      (simp_all add: layout_mem operand_ok_def)
qed

lemma mod_range: "0 \<le> x mod 4096" "x mod 4096 < 2 ^ 12" for x :: int
  by simp_all

lemma alu_fields_empty:
  assumes "alu_fields isfloat S I a = Inr f" "alu_oc a \<le> 0"
  obtains b where "f = flag_field b 122 @ put 1 115 # acc_fields isfloat S I (alu_xacc a)"
proof -
  have "f = flag_field (case alu_y a of Some y \<Rightarrow> isDouble I y | None \<Rightarrow> False) 122 @
      put 1 115 # acc_fields isfloat S I (alu_xacc a)"
    using assms
    by (cases "alu_xacc a"; cases "alu_y a")
      (auto simp: alu_fields_def Let_def res_bind_eq_Inr_iff flag_field_def acc_fields_def field_pos and_4095)
  with that show ?thesis by blast
qed

lemma alu_fields_fit_used:
  assumes "alu_fields isfloat S I a = Inr f" "alu_oc a > 0" "alu_encodable isfloat I a"
  shows "fields_fit f" "snd ` set f \<subseteq> {48..}"
proof -
  have oc: "alu_oc a < 32" using assms(3) by (simp add: alu_encodable_def)
  from alu_fields_form [OF assms(1,2) oc] obtain x1 x2 y o1 o2 oy b where
    t: "alu_x1 a = Some x1" "alu_x2 a = Some x2" "alu_y a = Some y" and
    f: "f = flag_field b 122 @ put (alu_oc a) 123 #
         flag_field (mu_getVectorWidth I x1 \<ge> 1) 98 @ put (o1 mod 4096) 86 # put (mu_getExtAttr isfloat I x1) 82 #
         flag_field (mu_getVectorWidth I x2 \<ge> 1) 81 @ put (o2 mod 4096) 69 # put (mu_getExtAttr isfloat I x2) 65 #
         flag_field (mu_getVectorWidth I y \<ge> 1) 64 @ put (oy mod 4096) 52 # put (mu_getExtAttr isfloat I y) 48 #
         put 1 115 # acc_fields isfloat S I (alu_xacc a)" by metis
  have ok: "operand_ok isfloat I x1" "operand_ok isfloat I x2" "operand_ok isfloat I y"
    "fields_fit (acc_fields isfloat S I (alu_xacc a))"
    using assms(3) t acc_fields_fit by (auto simp: alu_encodable_def)
  note pos = acc_fields_pos [of isfloat S I "alu_xacc a"]
  show "snd ` set f \<subseteq> {48..}" using pos by (auto simp: f flag_field_def)
  show "fields_fit f"
    unfolding f
    apply (intro fields_fit_flag fields_fit_put [of 123 5] fields_fit_put [of 86 12] fields_fit_put [of 82 4]
        fields_fit_put [of 69 12] fields_fit_put [of 65 4] fields_fit_put [of 52 12] fields_fit_put [of 48 4]
        fields_fit_put [of 115 1])
    using ok pos assms(2) oc by (auto simp: layout_mem operand_ok_def flag_field_def)
qed

lemma alu_fields_fit:
  assumes "alu_fields isfloat S I a = Inr f" "alu_encodable isfloat I a"
  shows "fields_fit f" "snd ` set f \<subseteq> {48..}"
proof -
  have acc: "fields_fit (acc_fields isfloat S I (alu_xacc a))"
    using assms(2) acc_fields_fit by (auto simp: alu_encodable_def)
  note pos = acc_fields_pos [of isfloat S I "alu_xacc a"]
  have "fields_fit f \<and> snd ` set f \<subseteq> {48..}"
  proof (cases "alu_oc a > 0")
    case True
    with alu_fields_fit_used [OF assms(1) True assms(2)] show ?thesis by simp
  next
    case False
    then have "alu_oc a \<le> 0" by simp
    from alu_fields_empty [OF assms(1) this] obtain b where
      f: "f = flag_field b 122 @ put 1 115 # acc_fields isfloat S I (alu_xacc a)" by metis
    have "fields_fit f" unfolding f
      by (intro fields_fit_flag fields_fit_put [of 115 1]) (use acc pos in \<open>auto simp: layout_mem\<close>)
    moreover have "snd ` set f \<subseteq> {48..}" using pos by (auto simp: f flag_field_def)
    ultimately show ?thesis by blast
  qed
  then show "fields_fit f" "snd ` set f \<subseteq> {48..}" by simp_all
qed

lemma imu_fields_fit:
  assumes "imu_fields objaddr I u = Inr f" "imu_encodable I u"
  shows "fields_fit f" "snd ` set f \<subseteq> {16..<48}"
proof -
  have "fields_fit f \<and> snd ` set f \<subseteq> {16..<48}"
  proof (cases "imu_oc u > 0")
    case True
    with assms obtain x1 x2 y c where t: "imu_x1 u = Some x1" "imu_x2 u = Some x2" "imu_y u = Some y"
      and f: "f = [put (imu_oc u) 43, put (imu_getAttr I x1) 39, put (imu_getAttr I x2) 35,
                   put (imu_getAttr I y) 31, put (c mod 8192) 18]"
      by (cases "imu_x1 u"; cases "imu_x2 u"; cases "imu_y u")
        (auto simp: imu_fields_def Let_def field_pos and_8191)
    have "fields_fit f" unfolding f
      by (intro fields_fit_put [of 43 5] fields_fit_put [of 39 4] fields_fit_put [of 35 4]
          fields_fit_put [of 31 4] fields_fit_put [of 18 13] fields_fit_Nil)
        (use assms(2) t True in \<open>auto simp: layout_mem imu_encodable_def\<close>)
    then show ?thesis by (simp add: f)
  qed (use assms in \<open>auto simp: imu_fields_def\<close>)
  then show "fields_fit f" "snd ` set f \<subseteq> {16..<48}" by simp_all
qed

lemma control_fields_fit:
  assumes "control_fields P c = Inr f" "control_encodable P c"
  shows "fields_fit f" "snd ` set f \<subseteq> {..<16}"
proof -
  have "fields_fit f \<and> snd ` set f \<subseteq> {..<16}"
  proof (cases "ctl_oc c > 0")
    case True
    with assms(1) obtain a where a: "jump_address P c = Inr a" "f = [put (ctl_oc c) 11, put a 0]"
      by (auto simp: control_fields_def res_bind_eq_Inr_iff field_pos)
    have "fields_fit f" unfolding a(2)
      by (intro fields_fit_put [of 11 5] fields_fit_put [of 0 11] fields_fit_Nil)
        (use assms(2) a(1) True in \<open>auto simp: layout_mem control_encodable_def\<close>)
    then show ?thesis by (simp add: a(2))
  qed (use assms in \<open>auto simp: control_fields_def\<close>)
  then show "fields_fit f" "snd ` set f \<subseteq> {..<16}" by simp_all
qed

definition instr_encodable :: "bool \<Rightarrow> idents \<Rightarrow> program \<Rightarrow> cInstruction \<Rightarrow> bool" where
  "instr_encodable isfloat I P ins \<longleftrightarrow>
     alu_encodable isfloat I (m_alu1 ins) \<and> imu_encodable I (m_imu ins) \<and>
     control_encodable P (m_control ins)"

lemma gen_instr_parts:
  assumes "gen_instr objaddr isfloat S I P ins = Inr img" "instr_encodable isfloat I P ins"
  obtains f1 f2 f3 where "alu_fields isfloat S I (m_alu1 ins) = Inr f1"
    "imu_fields objaddr I (m_imu ins) = Inr f2" "control_fields P (m_control ins) = Inr f3"
    "fields_fit (f1 @ f2 @ f3)" "img = encode_fields (f1 @ f2 @ f3)"
    "snd ` set f1 \<subseteq> {48..}" "snd ` set f2 \<subseteq> {16..<48}" "snd ` set f3 \<subseteq> {..<16}"
proof -
  from assms(1) obtain f1 f2 f3 where f: "alu_fields isfloat S I (m_alu1 ins) = Inr f1"
    "imu_fields objaddr I (m_imu ins) = Inr f2" "control_fields P (m_control ins) = Inr f3"
    "img = encode_fields (f1 @ f2 @ f3)"
    by (auto simp: gen_instr_def gen_fields_def res_bind_eq_Inr_iff encode_fields_def)
  note a = alu_fields_fit [OF f(1)] and i = imu_fields_fit [OF f(2)] and c = control_fields_fit [OF f(3)]
  have e: "alu_encodable isfloat I (m_alu1 ins)" "imu_encodable I (m_imu ins)"
    "control_encodable P (m_control ins)" using assms(2) by (simp_all add: instr_encodable_def)
  note pos = a(2) [OF e(1)] i(2) [OF e(2)] c(2) [OF e(3)]
  have "snd ` set f2 \<inter> snd ` set f3 \<subseteq> {16..<48} \<inter> {..<16}" using pos(2,3) by (rule Int_mono)
  moreover have "{16..<48} \<inter> {..<16::nat} = {}" by auto
  ultimately have "snd ` set f2 \<inter> snd ` set f3 = {}" by blast
  then have "fields_fit (f2 @ f3)"
    by (rule fields_fit_append [OF i(1) [OF e(2)] c(1) [OF e(3)]])
  moreover have "snd ` set f1 \<inter> snd ` set (f2 @ f3) \<subseteq> {48..} \<inter> ({16..<48} \<union> {..<16})"
    unfolding set_append image_Un by (intro Int_mono Un_mono pos)
  moreover have "{48..} \<inter> ({16..<48} \<union> {..<16::nat}) = {}" by auto
  ultimately have "snd ` set f1 \<inter> snd ` set (f2 @ f3) = {}" by blast
  with \<open>fields_fit (f2 @ f3)\<close> have "fields_fit (f1 @ f2 @ f3)"
    by (rule fields_fit_append [OF a(1) [OF e(1)]])
  from that [OF f(1-3) this f(4) pos] show ?thesis .
qed

lemma parts_value:
  assumes "snd ` set f1 \<subseteq> {48..}" "snd ` set f2 \<subseteq> {16..<48}" "snd ` set f3 \<subseteq> {..<16::nat}"
  shows "48 \<le> pos \<Longrightarrow> field_value (f1 @ f2 @ f3) pos = field_value f1 pos"
    "16 \<le> pos \<Longrightarrow> pos < 48 \<Longrightarrow> field_value (f1 @ f2 @ f3) pos = field_value f2 pos"
    "pos < 16 \<Longrightarrow> field_value (f1 @ f2 @ f3) pos = field_value f3 pos"
proof -
  have none: "field_value f pos = 0" if "pos \<notin> snd ` set f" for f :: fields and pos
    using that by (intro map_of_no_field) (force simp: image_iff)
  have n1: "pos \<notin> snd ` set f1" if "pos < 48" using assms(1) that by auto
  have n2: "pos \<notin> snd ` set f2" if "pos < 16 \<or> 48 \<le> pos" using assms(2) that by auto
  have n3: "pos \<notin> snd ` set f3" if "16 \<le> pos" using assms(3) that by auto
  show "48 \<le> pos \<Longrightarrow> field_value (f1 @ f2 @ f3) pos = field_value f1 pos"
    using n2 n3 none by (auto simp: field_value_append)
  show "16 \<le> pos \<Longrightarrow> pos < 48 \<Longrightarrow> field_value (f1 @ f2 @ f3) pos = field_value f2 pos"
    using n1 n3 none by (auto simp: field_value_append)
  show "pos < 16 \<Longrightarrow> field_value (f1 @ f2 @ f3) pos = field_value f3 pos"
    using n1 n2 none by (auto simp: field_value_append)
qed

lemma unit_fields_empty:
  "imu_oc u \<le> 0 \<Longrightarrow> imu_fields objaddr I u = Inr f \<Longrightarrow> f = []"
  "ctl_oc c \<le> 0 \<Longrightarrow> control_fields P c = Inr f \<Longrightarrow> f = []"
  by (auto simp: imu_fields_def control_fields_def)

lemma nat_uint32: "0 \<le> v \<Longrightarrow> v < 4294967296 \<Longrightarrow> nat (uint32 v) = nat v"
  by (simp add: uint32_def)

lemma nat_uint32_mod [simp]:
  "nat (uint32 (v mod 4096)) = nat (v mod 4096)" "nat (uint32 (v mod 8192)) = nat (v mod 8192)"
  by (rule nat_uint32; (simp | rule order.strict_trans [OF pos_mod_bound]))+


text \<open>
  C19: The scalar and branch parts are read back as well: the scalar opcode, its three operands and
  the constant modulo 8192 (the constant of the first operand if it is one, else of the second), and
  the branch opcode and target address. An empty slot has opcode 0.
\<close>

theorem gen_decode_scalar_branch:
  assumes "gen_instr objaddr isfloat S I P ins = Inr img" and "instr_encodable isfloat I P ins"
  shows "(if imu_oc (m_imu ins) > 0 then
      \<exists>x1 x2 y. imu_x1 (m_imu ins) = Some x1 \<and> imu_x2 (m_imu ins) = Some x2 \<and> imu_y (m_imu ins) = Some y \<and>
        field img (IMU_INSTRUCTION_OC_LO + CTRL_BASE) 5 = nat (imu_oc (m_imu ins)) \<and>
        field img (IMU_X1_LO + CTRL_BASE) 4 = nat (imu_getAttr I x1) \<and>
        field img (IMU_X2_LO + CTRL_BASE) 4 = nat (imu_getAttr I x2) \<and>
        field img (IMU_Y_LO + CTRL_BASE) 4 = nat (imu_getAttr I y) \<and>
        field img (IMU_CONST_LO + CTRL_BASE) 13 =
          nat (imu_getConstant objaddr I (if is_IMU_Const x1 then x1 else x2) mod 8192)
    else field img (IMU_INSTRUCTION_OC_LO + CTRL_BASE) 5 = 0) \<and>
    (if ctl_oc (m_control ins) > 0 then
      \<exists>a. jump_address P (m_control ins) = Inr a \<and>
        field img CTRL_INSTRUCTION_OC_LO 5 = nat (ctl_oc (m_control ins)) \<and> field img 0 11 = nat a
    else field img CTRL_INSTRUCTION_OC_LO 5 = 0)"
proof -
  from gen_instr_parts [OF assms] obtain f1 f2 f3 where
    f: "imu_fields objaddr I (m_imu ins) = Inr f2" "control_fields P (m_control ins) = Inr f3"
      "fields_fit (f1 @ f2 @ f3)" "img = encode_fields (f1 @ f2 @ f3)" and
    pos: "snd ` set f1 \<subseteq> {48..}" "snd ` set f2 \<subseteq> {16..<48}" "snd ` set f3 \<subseteq> {..<16}" by metis
  have e: "imu_encodable I (m_imu ins)" "control_encodable P (m_control ins)"
    using assms(2) by (simp_all add: instr_encodable_def)
  have rd2: "field img p w = field_value f2 p" if "(p, w) \<in> set layout" "16 \<le> p" "p < 48" for p w
    using field_encode [OF f(3) that(1)] parts_value(2) [OF pos that(2,3)] f(4) by simp
  have rd3: "field img p w = field_value f3 p" if "(p, w) \<in> set layout" "p < 16" for p w
    using field_encode [OF f(3) that(1)] parts_value(3) [OF pos that(2)] f(4) by simp
  show ?thesis
  proof (intro conjI)
    show "if imu_oc (m_imu ins) > 0 then
      \<exists>x1 x2 y. imu_x1 (m_imu ins) = Some x1 \<and> imu_x2 (m_imu ins) = Some x2 \<and> imu_y (m_imu ins) = Some y \<and>
        field img (IMU_INSTRUCTION_OC_LO + CTRL_BASE) 5 = nat (imu_oc (m_imu ins)) \<and>
        field img (IMU_X1_LO + CTRL_BASE) 4 = nat (imu_getAttr I x1) \<and>
        field img (IMU_X2_LO + CTRL_BASE) 4 = nat (imu_getAttr I x2) \<and>
        field img (IMU_Y_LO + CTRL_BASE) 4 = nat (imu_getAttr I y) \<and>
        field img (IMU_CONST_LO + CTRL_BASE) 13 =
          nat (imu_getConstant objaddr I (if is_IMU_Const x1 then x1 else x2) mod 8192)
      else field img (IMU_INSTRUCTION_OC_LO + CTRL_BASE) 5 = 0"
    proof (cases "imu_oc (m_imu ins) > 0")
      case True
      with f(1) obtain x1 x2 y where
        t: "imu_x1 (m_imu ins) = Some x1" "imu_x2 (m_imu ins) = Some x2" "imu_y (m_imu ins) = Some y"
        by (cases "imu_x1 (m_imu ins)"; cases "imu_x2 (m_imu ins)"; cases "imu_y (m_imu ins)")
          (auto simp: imu_fields_def)
      have f2: "f2 = [put (imu_oc (m_imu ins)) 43, put (imu_getAttr I x1) 39, put (imu_getAttr I x2) 35,
           put (imu_getAttr I y) 31, put (imu_getConstant objaddr I (if is_IMU_Const x1 then x1 else x2) mod 8192) 18]"
        using f(1) t True by (auto simp: imu_fields_def Let_def field_pos and_8191)
      have at: "nat (uint32 (imu_getAttr I t)) = nat (imu_getAttr I t)" if "t \<in> {x1, x2, y}" for t
        using e(1) t that by (auto simp: imu_encodable_def intro!: nat_uint32)
      have oc: "nat (uint32 (imu_oc (m_imu ins))) = nat (imu_oc (m_imu ins))"
        using e(1) True by (auto simp: imu_encodable_def intro!: nat_uint32)
      from True t show ?thesis
        using rd2 [of 43 5] rd2 [of 39 4] rd2 [of 35 4] rd2 [of 31 4] rd2 [of 18 13] at oc
        by (simp add: layout_mem field_pos f2)
    next
      case False
      then have "f2 = []" using unit_fields_empty(1) [OF _ f(1)] by simp
      with False rd2 [of 43 5] show ?thesis by (simp add: layout_mem field_pos)
    qed
    show "if ctl_oc (m_control ins) > 0 then
      \<exists>a. jump_address P (m_control ins) = Inr a \<and>
        field img CTRL_INSTRUCTION_OC_LO 5 = nat (ctl_oc (m_control ins)) \<and> field img 0 11 = nat a
      else field img CTRL_INSTRUCTION_OC_LO 5 = 0"
    proof (cases "ctl_oc (m_control ins) > 0")
      case True
      with f(2) obtain a where a: "jump_address P (m_control ins) = Inr a"
        "f3 = [put (ctl_oc (m_control ins)) 11, put a 0]"
        by (auto simp: control_fields_def res_bind_eq_Inr_iff field_pos)
      have n: "nat (uint32 a) = nat a" "nat (uint32 (ctl_oc (m_control ins))) = nat (ctl_oc (m_control ins))"
        using e(2) a(1) True by (auto simp: control_encodable_def intro!: nat_uint32)
      from True a(1) show ?thesis
        using rd3 [of 11 5] rd3 [of 0 11] n by (simp add: layout_mem field_pos a(2))
    next
      case False
      then have "f3 = []" using unit_fields_empty(2) [OF _ f(2)] by simp
      with False rd3 [of 11 5] show ?thesis by (simp add: layout_mem field_pos)
    qed
  qed
qed

section \<open>An instruction that uses every unit\<close>

text \<open>
  A vector addition on a private variable, an integer assignment and a jump, as the compiler builds
  them: \<open>v[3] = v[1] + v[0]\<close>, \<open>i = 0 + 5\<close>, and a jump to address 6.
\<close>

definition sample_idents :: idents where
  "sample_idents = [blank_cIdentifier CResult, blank_cIdentifier CLane,
     (blank_cIdentifier CPrivate)\<lparr>m_w := 3, m_offset := 2, m_byteOffset := 16\<rparr>,
     (blank_cIdentifier CInteger)\<lparr>m_offset := 1, m_byteOffset := 1\<rparr>]"

definition sample_instr :: cInstruction where
  "sample_instr = new_cInstruction\<lparr>
     m_alu1 := \<lparr>alu_oc = OPCODE_ADD, alu_which = eMuOpcodeDefAlu1, alu_x1 = Some (MU_Storage 2 1 False),
       alu_x2 = Some (MU_Storage 2 0 False), alu_y = Some (MU_Storage 2 3 False), alu_xacc = None\<rparr>,
     m_imu := \<lparr>imu_oc = IOPCODE_ADD, imu_x1 = Some IMU_Zero, imu_x2 = Some (IMU_Constant 5),
       imu_y = Some (IMU_Integer 3)\<rparr>,
     m_control := \<lparr>ctl_oc = OPCODE_JUMP, ctl_jumpInstruction = Some 1, ctl_jumpFunction = [],
       ctl_jumpAfter = False\<rparr>\<rparr>"

definition sample_program :: program where
  "sample_program = \<lparr>p_code = [sample_instr, new_cInstruction\<lparr>m_addr := 6\<rparr>], p_order = [0, 1], p_funcs = []\<rparr>"

lemmas sample_defs = sample_idents_def sample_instr_def sample_program_def

lemma sample_encodable: "instr_encodable False sample_idents sample_program sample_instr"
  by (auto simp: sample_defs instr_encodable_def alu_encodable_def imu_encodable_def control_encodable_def
      operand_ok_def mu_getExtAttr_def storage_attr_def ident_at_def isKindOf_def blank_cIdentifier_def
      jump_address_def instr_at_def new_cInstruction_def)

lemma sample_gen: "\<exists>img. gen_instr (\<lambda>i. 0) False [] sample_idents sample_program sample_instr = Inr img"
  by (simp add: sample_defs gen_instr_def gen_fields_def alu_fields_def operand_fields_def imu_fields_def
      control_fields_def jump_address_def ident_at_def isKindOf_def blank_cIdentifier_def new_cInstruction_def
      GetMuOpcode_eq Let_def)


theorem gen_decode_scalar_branch_witness:
  "\<exists>img. gen_instr (\<lambda>i. 0) False [] sample_idents sample_program sample_instr = Inr img \<and>
     field img 43 5 = 1 \<and> field img 31 4 = 1 \<and> field img 18 13 = 5 \<and> field img 11 5 = 8 \<and> field img 0 11 = 6"
proof -
  from sample_gen obtain img where
    img: "gen_instr (\<lambda>i. 0) False [] sample_idents sample_program sample_instr = Inr img" by blast
  from gen_decode_scalar_branch [OF img sample_encodable] img show ?thesis
    by (auto simp: sample_defs field_pos ident_at_def blank_cIdentifier_def jump_address_def instr_at_def
        new_cInstruction_def)
qed

end
