(* ===== verification/Liveness.thy ===== *)
theory Liveness
  imports Usage
begin

text \<open>
  The flow graph of a function and the live variables at each instruction
  (\<open>SW/compiler/graph.cpp\<close>, the first half of \<open>buildFunc\<close>).

  A node keeps the instruction with the variables it uses and defines (\<open>getUse\<close> and \<open>getDef\<close> do
  not change while the graph is built), the indices of its successors, and the sets \<open>m_in\<close> and
  \<open>m_out\<close>. The loop over the nodes updates them in place until nothing changes.
\<close>

section \<open>The loop that runs until nothing changes\<close>

text \<open>
  What such a loop needs to end: a round keeps the invariant, and a round that reports a change
  makes a bounded measure grow.
\<close>

locale fixpoint_loop =
  fixes inv :: "'s \<Rightarrow> bool"
    and changed :: "'s \<Rightarrow> bool"
    and round :: "'s \<Rightarrow> 's"
    and size :: "'s \<Rightarrow> nat"
    and bound :: "'s \<Rightarrow> nat"
  assumes inv_round: "inv s \<Longrightarrow> inv (round s)"
    and size_round: "inv s \<Longrightarrow> changed (round s) \<Longrightarrow> size s < size (round s)"
    and size_bound: "inv s \<Longrightarrow> size s \<le> bound s"
    and bound_round: "inv s \<Longrightarrow> bound (round s) = bound s"
begin

lemma loop_ends:
  assumes "inv s" "changed s"
  shows "\<exists>t u. while_option changed round s = Some t \<and> inv u \<and> t = round u \<and> \<not> changed t"
  using assms
proof (induction "bound s - size s" arbitrary: s rule: less_induct)
  case less
  note r = while_option_unfold [of changed round s]
  show ?case
  proof (cases "changed (round s)")
    case True
    have "bound (round s) - size (round s) < bound s - size s"
      using size_round [OF less.prems(1) True] bound_round [OF less.prems(1)]
        size_bound [OF inv_round [OF less.prems(1)]] by linarith
    from less.hyps [OF this inv_round [OF less.prems(1)] True] r less.prems(2) show ?thesis by simp
  next
    case False
    with r less.prems while_option_unfold [of changed round "round s"] show ?thesis by auto
  qed
qed

end

section \<open>Nodes\<close>

record cGraphNode =
  g_instruction :: nat
  g_use :: "nat list"
  g_def :: "nat list"
  g_in :: "nat list"
  g_out :: "nat list"
  g_succ :: "nat list"

text \<open>The instructions of the function that begins at \<open>b\<close>.\<close>

definition func_instrs :: "program \<Rightarrow> nat \<Rightarrow> nat list" where
  "func_instrs P b = b # takeWhile (\<lambda>j. m_beginFunc (instr_at P j) = None) (items_after (p_order P) b)"

definition int_only :: "idents \<Rightarrow> nat \<Rightarrow> bool" where
  "int_only I x \<longleftrightarrow> isKindOf (ident_at I x) CInteger \<and> m_useForMuIndex (ident_at I x)"

text \<open>One node per instruction; the lists of all variables and of the integer-only ones.\<close>

fun scan_nodes :: "program \<Rightarrow> idents \<Rightarrow> nat list \<Rightarrow> (cGraphNode list \<times> nat list \<times> nat list) \<Rightarrow>
    (cGraphNode list \<times> nat list \<times> nat list) res" where
  "scan_nodes P I [] s = Inr s"
| "scan_nodes P I (i # is) (ns, regLst, intOnlyLst) =
     res_bind (getDef P I i) (\<lambda>d. res_bind (getUse I (instr_at P i)) (\<lambda>u.
       let regLst' = iv_union (iv_union regLst d) u;
           intOnlyLst' = (if isMU (instr_at P i)
                          then fold (\<lambda>x l. if int_only I x then iv_append l x else l) u intOnlyLst
                          else intOnlyLst);
           n = \<lparr>g_instruction = i, g_use = u, g_def = d, g_in = [], g_out = [], g_succ = []\<rparr>
       in scan_nodes P I is (ns @ [n], regLst', intOnlyLst')))"

definition succ_index :: "nat list \<Rightarrow> nat option \<Rightarrow> nat list res" where
  "succ_index is t =
     (case t of None \<Rightarrow> Inr []
      | Some j \<Rightarrow> (case find_index (\<lambda>x. x = j) is of Some k \<Rightarrow> Inr [k] | None \<Rightarrow> Inl AssertFail))"

definition node_succ :: "program \<Rightarrow> nat list \<Rightarrow> nat \<Rightarrow> nat list res" where
  "node_succ P is i =
     res_bind (succ_index is (getNextInstruction P i)) (\<lambda>a.
     res_bind (succ_index is (getJumpInstruction P i)) (\<lambda>b. Inr (a @ b)))"

fun add_succs :: "program \<Rightarrow> nat list \<Rightarrow> cGraphNode list \<Rightarrow> cGraphNode list res" where
  "add_succs P is [] = Inr []"
| "add_succs P is (n # ns) =
     res_bind (node_succ P is (g_instruction n)) (\<lambda>s.
     res_bind (add_succs P is ns) (\<lambda>ns'. Inr (n\<lparr>g_succ := s\<rparr> # ns')))"

definition build_nodes :: "program \<Rightarrow> idents \<Rightarrow> nat \<Rightarrow> (cGraphNode list \<times> nat list \<times> nat list) res" where
  "build_nodes P I b =
     (let is = func_instrs P b in
      res_bind (scan_nodes P I is ([], [], [])) (\<lambda>(ns, regLst, intOnlyLst).
      res_bind (add_succs P is ns) (\<lambda>ns'. Inr (ns', regLst, intOnlyLst))))"

section \<open>Live variables\<close>

text \<open>The update of node \<open>i\<close>, and whether it changed.\<close>

definition live_out :: "cGraphNode list \<Rightarrow> nat \<Rightarrow> nat list" where
  "live_out ns i = fold (\<lambda>s l. iv_union l (g_in (ns ! s))) (g_succ (ns ! i)) []"

definition live_in :: "cGraphNode list \<Rightarrow> nat \<Rightarrow> nat list" where
  "live_in ns i = iv_union (g_use (ns ! i)) (iv_minus (iv_clone (live_out ns i)) (g_def (ns ! i)))"

definition live_node :: "nat \<Rightarrow> bool \<times> cGraphNode list \<Rightarrow> bool \<times> cGraphNode list" where
  "live_node i s =
     (let ns = snd s; n = ns ! i; in2 = iv_clone (g_in n); out2 = iv_clone (g_out n);
          n' = n\<lparr>g_out := live_out ns i, g_in := live_in ns i\<rparr>
      in (fst s \<or> \<not> iv_equal in2 (g_in n') \<or> \<not> iv_equal out2 (g_out n'), ns[i := n']))"

definition live_pass :: "bool \<times> cGraphNode list \<Rightarrow> bool \<times> cGraphNode list" where
  "live_pass s = fold live_node [0..<length (snd s)] (False, snd s)"

definition liveness :: "cGraphNode list \<Rightarrow> cGraphNode list option" where
  "liveness ns = map_option snd (while_option fst live_pass (True, ns))"

section \<open>What live means\<close>

text \<open>
  A variable is live before an instruction when some path from it leads to an instruction that uses
  the variable, and no instruction before that on the path defines it.
\<close>

inductive live :: "cGraphNode list \<Rightarrow> nat \<Rightarrow> nat \<Rightarrow> bool" for ns where
  used: "i < length ns \<Longrightarrow> v \<in> set (g_use (ns ! i)) \<Longrightarrow> live ns i v"
| passed: "i < length ns \<Longrightarrow> v \<notin> set (g_def (ns ! i)) \<Longrightarrow> j \<in> set (g_succ (ns ! i)) \<Longrightarrow>
    live ns j v \<Longrightarrow> live ns i v"

inductive_cases liveE: "live ns i v"

definition wf_nodes :: "cGraphNode list \<Rightarrow> bool" where
  "wf_nodes ns \<longleftrightarrow> (\<forall>n\<in>set ns. distinct (g_use n) \<and> distinct (g_in n) \<and> distinct (g_out n) \<and>
     (\<forall>j\<in>set (g_succ n). j < length ns))"

text \<open>Two graphs that differ in the live sets only.\<close>

definition same_graph :: "cGraphNode list \<Rightarrow> cGraphNode list \<Rightarrow> bool" where
  "same_graph ns ms \<longleftrightarrow> length ms = length ns \<and>
     (\<forall>i<length ns. g_instruction (ms ! i) = g_instruction (ns ! i) \<and> g_use (ms ! i) = g_use (ns ! i) \<and>
        g_def (ms ! i) = g_def (ns ! i) \<and> g_succ (ms ! i) = g_succ (ns ! i))"

lemma same_graph_refl [simp]: "same_graph ns ns"
  by (simp add: same_graph_def)

lemma same_graph_trans: "same_graph a b \<Longrightarrow> same_graph b c \<Longrightarrow> same_graph a c"
  by (simp add: same_graph_def)

lemma same_graph_live_aux: "live ns i v \<Longrightarrow> same_graph ns ms \<Longrightarrow> live ms i v"
proof (induction rule: live.induct)
  case (used i v)
  then show ?case by (intro live.used) (simp_all add: same_graph_def)
next
  case (passed i v j)
  then show ?case by (intro live.passed [of i ms v j]) (simp_all add: same_graph_def)
qed

lemma same_graph_sym: "same_graph ns ms \<Longrightarrow> same_graph ms ns"
  by (simp add: same_graph_def)

lemma same_graph_live: "same_graph ns ms \<Longrightarrow> live ms i v \<longleftrightarrow> live ns i v"
  using same_graph_live_aux same_graph_sym by blast

section \<open>One update\<close>

definition OUT :: "cGraphNode list \<Rightarrow> nat \<Rightarrow> nat set" where
  "OUT ns i = (\<Union>s\<in>set (g_succ (ns ! i)). set (g_in (ns ! s)))"

definition IN :: "cGraphNode list \<Rightarrow> nat \<Rightarrow> nat set" where
  "IN ns i = set (g_use (ns ! i)) \<union> (OUT ns i - set (g_def (ns ! i)))"

lemma live_out_aux:
  "set (fold (\<lambda>s l. iv_union l (f s)) ss l) = set l \<union> (\<Union>s\<in>set ss. set (f s)) \<and>
   (distinct l \<longrightarrow> distinct (fold (\<lambda>s l. iv_union l (f s)) ss l))"
  by (induction ss arbitrary: l) auto

lemma set_live_out [simp]: "set (live_out ns i) = OUT ns i" "distinct (live_out ns i)"
  using live_out_aux [of "\<lambda>s. g_in (ns ! s)" "g_succ (ns ! i)" "[]"]
  by (simp_all add: live_out_def OUT_def)

lemma set_live_in [simp]: "set (live_in ns i) = IN ns i"
  by (simp add: live_in_def IN_def)

lemma distinct_live_in: "distinct (g_use (ns ! i)) \<Longrightarrow> distinct (live_in ns i)"
  by (simp add: live_in_def)

text \<open>The invariant: the sets never exceed what the next update would give, and only hold live variables.\<close>

definition live_inv :: "bool \<times> cGraphNode list \<Rightarrow> bool" where
  "live_inv s \<longleftrightarrow> wf_nodes (snd s) \<and>
     (\<forall>i<length (snd s). set (g_in (snd s ! i)) \<subseteq> IN (snd s) i \<and> set (g_out (snd s ! i)) \<subseteq> OUT (snd s) i \<and>
        (\<forall>v\<in>set (g_in (snd s ! i)). live (snd s) i v))"

definition upd_node :: "cGraphNode list \<Rightarrow> nat \<Rightarrow> cGraphNode list" where
  "upd_node ns i = ns[i := (ns ! i)\<lparr>g_out := live_out ns i, g_in := live_in ns i\<rparr>]"

lemma snd_live_node [simp]: "snd (live_node i s) = upd_node (snd s) i"
  by (simp add: live_node_def upd_node_def Let_def)

lemma upd_node_sel:
  "length (upd_node ns i) = length ns"
  "i < length ns \<Longrightarrow> upd_node ns i ! j =
     (if j = i then (ns ! i)\<lparr>g_out := live_out ns i, g_in := live_in ns i\<rparr> else ns ! j)"
  by (simp_all add: upd_node_def nth_list_update)

lemma same_graph_upd: "same_graph ns (upd_node ns i)"
  by (cases "i < length ns") (auto simp: same_graph_def upd_node_sel, simp_all add: upd_node_def)

lemma wf_nodes_nth: "wf_nodes ns \<Longrightarrow> i < length ns \<Longrightarrow>
    distinct (g_use (ns ! i)) \<and> distinct (g_in (ns ! i)) \<and> distinct (g_out (ns ! i)) \<and>
    (\<forall>j\<in>set (g_succ (ns ! i)). j < length ns)"
  unfolding wf_nodes_def by (metis nth_mem)

lemma wf_nodes_iff: "wf_nodes ns \<longleftrightarrow> (\<forall>i<length ns.
    distinct (g_use (ns ! i)) \<and> distinct (g_in (ns ! i)) \<and> distinct (g_out (ns ! i)) \<and>
    (\<forall>j\<in>set (g_succ (ns ! i)). j < length ns))"
  by (auto simp: wf_nodes_def all_set_conv_all_nth)

lemma live_node_step:
  assumes inv: "live_inv (c, ns)" and i: "i < length ns"
  shows "live_inv (c', upd_node ns i)"
    and "\<forall>j<length ns. set (g_in (ns ! j)) \<subseteq> set (g_in (upd_node ns i ! j)) \<and>
           set (g_out (ns ! j)) \<subseteq> set (g_out (upd_node ns i ! j))"
proof -
  let ?ms = "upd_node ns i"
  note sel = upd_node_sel(2) [OF i] and len = upd_node_sel(1) [of ns i]
  have wf: "wf_nodes ns" using inv by (simp add: live_inv_def)
  have ii: "set (g_in (ns ! j)) \<subseteq> IN ns j" "set (g_out (ns ! j)) \<subseteq> OUT ns j"
    "\<And>v. v \<in> set (g_in (ns ! j)) \<Longrightarrow> live ns j v" if "j < length ns" for j
    using inv that by (simp_all add: live_inv_def)
  show mono: "\<forall>j<length ns. set (g_in (ns ! j)) \<subseteq> set (g_in (?ms ! j)) \<and>
           set (g_out (ns ! j)) \<subseteq> set (g_out (?ms ! j))"
    using ii(1,2) by (simp add: sel)
  have OUT: "OUT ns j \<subseteq> OUT ?ms j" if "j < length ns" for j
  proof -
    have "g_succ (?ms ! j) = g_succ (ns ! j)" using same_graph_upd [of ns i] that by (simp add: same_graph_def)
    moreover have "\<forall>s\<in>set (g_succ (ns ! j)). s < length ns" using wf_nodes_nth [OF wf that] by simp
    ultimately show ?thesis using mono unfolding OUT_def by fastforce
  qed
  have IN: "IN ns j \<subseteq> IN ?ms j" if "j < length ns" for j
    using OUT [OF that] same_graph_upd [of ns i] that by (auto simp: IN_def same_graph_def)
  have liv: "live ns i v" if v: "v \<in> IN ns i" for v
  proof (cases "v \<in> set (g_use (ns ! i))")
    case True
    then show ?thesis by (rule live.used [OF i])
  next
    case False
    with v obtain s where s: "v \<notin> set (g_def (ns ! i))" "s \<in> set (g_succ (ns ! i))" "v \<in> set (g_in (ns ! s))"
      by (auto simp: IN_def OUT_def)
    then have "s < length ns" using wf_nodes_nth [OF wf i] by simp
    from live.passed [OF i s(1,2) ii(3) [OF this s(3)]] show ?thesis .
  qed
  have wf': "wf_nodes ?ms"
    unfolding wf_nodes_iff len
  proof (intro allI impI)
    fix j assume j: "j < length ns"
    show "distinct (g_use (?ms ! j)) \<and> distinct (g_in (?ms ! j)) \<and> distinct (g_out (?ms ! j)) \<and>
      (\<forall>k\<in>set (g_succ (?ms ! j)). k < length ns)"
      using wf_nodes_nth [OF wf j] by (auto simp: sel distinct_live_in)
  qed
  show "live_inv (c', ?ms)"
    unfolding live_inv_def snd_conv len
  proof (intro conjI allI impI wf')
    fix j assume j: "j < length ns"
    show "set (g_in (?ms ! j)) \<subseteq> IN ?ms j" using ii(1) [OF j] IN [OF j] by (auto simp: sel)
    show "set (g_out (?ms ! j)) \<subseteq> OUT ?ms j" using ii(2) [OF j] OUT [OF j] by (auto simp: sel)
    show "\<forall>v\<in>set (g_in (?ms ! j)). live ?ms j v"
      unfolding same_graph_live [OF same_graph_upd] using ii(3) [OF j] liv by (auto simp: sel)
  qed
qed

section \<open>One round, and the loop\<close>

definition node_size :: "cGraphNode \<Rightarrow> nat" where
  "node_size n = card (set (g_in n)) + card (set (g_out n))"

definition live_size :: "bool \<times> cGraphNode list \<Rightarrow> nat" where
  "live_size s = sum_list (map node_size (snd s))"

definition all_uses :: "cGraphNode list \<Rightarrow> nat set" where
  "all_uses ns = (\<Union>n\<in>set ns. set (g_use n))"

definition live_bound :: "bool \<times> cGraphNode list \<Rightarrow> nat" where
  "live_bound s = length (snd s) * (2 * card (all_uses (snd s)))"

lemma node_size_mono:
  "set (g_in a) \<subseteq> set (g_in b) \<Longrightarrow> set (g_out a) \<subseteq> set (g_out b) \<Longrightarrow> node_size a \<le> node_size b"
  by (simp add: node_size_def add_mono card_mono)

lemma node_size_strict:
  assumes "set (g_in a) \<subseteq> set (g_in b)" "set (g_out a) \<subseteq> set (g_out b)"
    and "set (g_in a) \<noteq> set (g_in b) \<or> set (g_out a) \<noteq> set (g_out b)"
  shows "node_size a < node_size b"
proof -
  have "card (set (g_in a)) \<le> card (set (g_in b))" "card (set (g_out a)) \<le> card (set (g_out b))"
    using assms(1,2) by (simp_all add: card_mono)
  moreover have "card (set (g_in a)) < card (set (g_in b)) \<or> card (set (g_out a)) < card (set (g_out b))"
    using assms by (metis List.finite_set psubsetI psubset_card_mono)
  ultimately show ?thesis unfolding node_size_def by linarith
qed

lemma sum_list_upd:
  "i < length xs \<Longrightarrow> sum_list (map f (xs[i := y])) + f (xs ! i) = sum_list (map f xs) + (f y :: nat)"
  by (induction xs arbitrary: i) (auto simp: nth_Cons split: nat.splits)

lemma live_size_upd:
  "i < length ns \<Longrightarrow> live_size (c', upd_node ns i) + node_size (ns ! i) =
     live_size (c, ns) + node_size (upd_node ns i ! i)"
  by (simp add: live_size_def upd_node_def sum_list_upd)

definition node_same :: "cGraphNode \<Rightarrow> cGraphNode \<Rightarrow> bool" where
  "node_same a b \<longleftrightarrow> set (g_in a) = set (g_in b) \<and> set (g_out a) = set (g_out b)"

lemma live_node_changed:
  assumes "live_inv (c, ns)" "i < length ns"
  shows "fst (live_node i (c, ns)) \<longleftrightarrow> c \<or> \<not> node_same (ns ! i) (upd_node ns i ! i)"
proof -
  have "distinct (g_use (ns ! i))" using wf_nodes_nth [of ns i] assms by (simp add: live_inv_def)
  then show ?thesis
    using upd_node_sel(2) [OF assms(2), of i]
    by (auto simp: live_node_def Let_def iv_equal_iff distinct_live_in node_same_def)
qed

lemma live_fold:
  assumes "live_inv s" "\<forall>i\<in>set is. i < length (snd s)"
  defines "t \<equiv> fold live_node is s"
  shows "live_inv t \<and> same_graph (snd s) (snd t) \<and> live_size s \<le> live_size t \<and>
    (fst t \<longrightarrow> fst s \<or> live_size s < live_size t) \<and>
    (\<not> fst t \<longrightarrow> \<not> fst s \<and> (\<forall>j<length (snd s). node_same (snd s ! j) (snd t ! j)) \<and>
       (\<forall>i\<in>set is. set (g_in (snd t ! i)) = IN (snd t) i \<and> set (g_out (snd t ! i)) = OUT (snd t) i))"
  using assms(1,2) unfolding t_def
proof (induction "is" arbitrary: s)
  case (Cons i "is")
  obtain c ns where s: "s = (c, ns)" by (cases s)
  have i: "i < length ns" using Cons.prems(2) by (simp add: s)
  let ?u = "live_node i s" and ?t = "fold live_node is (live_node i s)"
  have u: "?u = (fst ?u, upd_node ns i)" by (metis prod.collapse s snd_conv snd_live_node)
  have inv: "live_inv ?u" using live_node_step(1) [of c ns i "fst ?u"] Cons.prems(1) i s u by simp
  have mono: "set (g_in (ns ! j)) \<subseteq> set (g_in (upd_node ns i ! j)) \<and>
      set (g_out (ns ! j)) \<subseteq> set (g_out (upd_node ns i ! j))" if "j < length ns" for j
    using live_node_step(2) [of c ns i] Cons.prems(1) i s that by simp
  have bound: "\<forall>k\<in>set is. k < length (snd ?u)" using Cons.prems(2) by (simp add: s upd_node_sel)
  note IH = Cons.IH [OF inv bound]
  have chg: "fst ?u \<longleftrightarrow> c \<or> \<not> node_same (ns ! i) (upd_node ns i ! i)"
    using live_node_changed [of c ns i] Cons.prems(1) i s by simp
  have same: "same_graph (snd s) (snd ?t)"
    using IH same_graph_trans [OF same_graph_upd [of ns i]] by (simp add: s)
  have size: "live_size s \<le> live_size ?u"
    using live_size_upd [OF i, of "fst ?u" c] node_size_mono mono [OF i] u s by (metis add_le_cancel_right add_left_mono)
  have grow: "live_size s < live_size ?u" if "\<not> node_same (ns ! i) (upd_node ns i ! i)"
  proof -
    have "node_size (ns ! i) < node_size (upd_node ns i ! i)"
      using mono [OF i] that by (intro node_size_strict) (auto simp: node_same_def)
    with live_size_upd [OF i, of "fst ?u" c] show ?thesis using u s by (metis add_less_cancel_left add_less_cancel_right nat_add_left_cancel_less)
  qed
  have other: "node_same (ns ! j) (upd_node ns i ! j)" if "node_same (ns ! i) (upd_node ns i ! i)" for j
    using that upd_node_sel(2) [OF i, of j] by (cases "j = i") (auto simp: node_same_def)
  show ?case
  proof (intro conjI)
    show "live_inv (fold live_node (i # is) s)" using IH by simp
    show "same_graph (snd s) (snd (fold live_node (i # is) s))" using same by simp
    show "live_size s \<le> live_size (fold live_node (i # is) s)" using IH size by simp
    show "fst (fold live_node (i # is) s) \<longrightarrow> fst s \<or> live_size s < live_size (fold live_node (i # is) s)"
      using IH size chg grow by (auto simp: s)
    show "\<not> fst (fold live_node (i # is) s) \<longrightarrow> \<not> fst s \<and>
       (\<forall>j<length (snd s). node_same (snd s ! j) (snd (fold live_node (i # is) s) ! j)) \<and>
       (\<forall>k\<in>set (i # is). set (g_in (snd (fold live_node (i # is) s) ! k)) = IN (snd (fold live_node (i # is) s)) k \<and>
          set (g_out (snd (fold live_node (i # is) s) ! k)) = OUT (snd (fold live_node (i # is) s)) k)"
    proof
      assume "\<not> fst (fold live_node (i # is) s)"
      then have nt: "\<not> fst ?t" by simp
      with IH have nu: "\<not> fst ?u" and st: "\<And>j. j < length (snd ?u) \<Longrightarrow> node_same (snd ?u ! j) (snd ?t ! j)"
        and eq: "\<And>k. k \<in> set is \<Longrightarrow> set (g_in (snd ?t ! k)) = IN (snd ?t) k \<and> set (g_out (snd ?t ! k)) = OUT (snd ?t) k"
        by auto
      have ns: "node_same (ns ! j) (snd ?t ! j)" if "j < length ns" for j
        using st [of j] other [of j] nu chg that by (auto simp: s upd_node_sel node_same_def)
      have wf: "wf_nodes ns" using Cons.prems(1) by (simp add: s live_inv_def)
      have tsame: "same_graph ns (snd ?t)" using same by (simp add: s)
      have O: "OUT (snd ?t) k = OUT ns k" if "k < length ns" for k
      proof -
        have "g_succ (snd ?t ! k) = g_succ (ns ! k)" using tsame that by (simp add: same_graph_def)
        moreover have "set (g_in (snd ?t ! j)) = set (g_in (ns ! j))" if "j \<in> set (g_succ (ns ! k))" for j
          using ns [of j] wf_nodes_nth [OF wf \<open>k < length ns\<close>] that by (auto simp: node_same_def)
        ultimately show ?thesis by (simp add: OUT_def)
      qed
      have I: "IN (snd ?t) k = IN ns k" if "k < length ns" for k
        using O [OF that] tsame that by (simp add: IN_def same_graph_def)
      have "set (g_in (snd ?t ! i)) = IN (snd ?t) i \<and> set (g_out (snd ?t ! i)) = OUT (snd ?t) i"
        using st [of i] i O [OF i] I [OF i] by (auto simp: node_same_def s upd_node_sel)
      with eq ns nu chg show "\<not> fst s \<and>
       (\<forall>j<length (snd s). node_same (snd s ! j) (snd (fold live_node (i # is) s) ! j)) \<and>
       (\<forall>k\<in>set (i # is). set (g_in (snd (fold live_node (i # is) s) ! k)) = IN (snd (fold live_node (i # is) s)) k \<and>
          set (g_out (snd (fold live_node (i # is) s) ! k)) = OUT (snd (fold live_node (i # is) s)) k)"
        by (auto simp: s)
    qed
  qed
qed (auto simp: node_same_def)

lemma live_all_uses: "live ns i v \<Longrightarrow> v \<in> all_uses ns"
  by (induction rule: live.induct) (auto simp: all_uses_def)

lemma same_graph_all_uses:
  assumes "same_graph ns ms"
  shows "all_uses ms = all_uses ns"
proof -
  have "(\<Union>i<length ms. set (g_use (ms ! i))) = (\<Union>i<length ns. set (g_use (ns ! i)))"
    using assms by (simp add: same_graph_def)
  moreover have "all_uses xs = (\<Union>i<length xs. set (g_use (xs ! i)))" for xs
    by (simp add: all_uses_def set_conv_nth) blast
  ultimately show ?thesis by simp
qed

lemma live_pass_fold:
  assumes "live_inv s"
  shows "live_inv (live_pass s) \<and> same_graph (snd s) (snd (live_pass s)) \<and>
    (fst (live_pass s) \<longrightarrow> live_size s < live_size (live_pass s)) \<and>
    (\<not> fst (live_pass s) \<longrightarrow> (\<forall>i<length (snd s). set (g_in (snd (live_pass s) ! i)) = IN (snd (live_pass s)) i \<and>
       set (g_out (snd (live_pass s) ! i)) = OUT (snd (live_pass s)) i))"
proof -
  have inv: "live_inv (False, snd s)" and size: "live_size (False, snd s) = live_size s"
    using assms by (simp_all add: live_inv_def live_size_def)
  from live_fold [OF inv, of "[0..<length (snd s)]"] show ?thesis
    unfolding size by (simp add: live_pass_def)
qed

lemma live_size_le:
  assumes "live_inv s"
  shows "live_size s \<le> live_bound s"
proof -
  obtain c ns where s: "s = (c, ns)" by (cases s)
  have fin: "finite (all_uses ns)" by (simp add: all_uses_def)
  have i: "set (g_in (ns ! i)) \<subseteq> all_uses ns" if "i < length ns" for i
    using assms that live_all_uses by (fastforce simp: live_inv_def s)
  have o: "set (g_out (ns ! i)) \<subseteq> all_uses ns" if "i < length ns" for i
  proof -
    have "set (g_out (ns ! i)) \<subseteq> OUT ns i" "\<forall>j\<in>set (g_succ (ns ! i)). j < length ns"
      using assms that wf_nodes_nth [OF _ that] by (auto simp: live_inv_def s)
    with i show ?thesis by (fastforce simp: OUT_def)
  qed
  have "node_size n \<le> 2 * card (all_uses ns)" if n: "n \<in> set ns" for n
  proof -
    from n obtain j where "j < length ns" "n = ns ! j" by (auto simp: in_set_conv_nth)
    with i [of j] o [of j] fin show ?thesis
      unfolding node_size_def using card_mono [OF fin] by (metis add_mono mult_2)
  qed
  then have "sum_list (map node_size ns) \<le> sum_list (map (\<lambda>_. 2 * card (all_uses ns)) ns)"
    by (rule sum_list_mono)
  then show ?thesis by (simp add: live_size_def live_bound_def s sum_list_triv)
qed

interpretation live: fixpoint_loop live_inv fst live_pass live_size live_bound
proof
  fix s :: "bool \<times> cGraphNode list"
  assume inv: "live_inv s"
  note p = live_pass_fold [OF inv]
  show "live_inv (live_pass s)" using p by simp
  show "fst (live_pass s) \<Longrightarrow> live_size s < live_size (live_pass s)" using p by simp
  show "live_size s \<le> live_bound s" by (rule live_size_le [OF inv])
  have "same_graph (snd s) (snd (live_pass s))" using p by simp
  from this same_graph_all_uses [OF this] show "live_bound (live_pass s) = live_bound s"
    by (simp add: live_bound_def same_graph_def)
qed

section \<open>The result\<close>

text \<open>A solution of the equations that holds live variables only holds all of them.\<close>

lemma live_subset_solution:
  assumes "live ns i v" "\<forall>i<length ns. set (g_in (ns ! i)) = IN ns i"
  shows "v \<in> set (g_in (ns ! i))"
  using assms
proof (induction rule: live.induct)
  case (passed i v j)
  then show ?case by (auto simp: IN_def OUT_def)
qed (simp add: IN_def)

definition fresh_nodes :: "cGraphNode list \<Rightarrow> bool" where
  "fresh_nodes ns \<longleftrightarrow> wf_nodes ns \<and> (\<forall>n\<in>set ns. g_in n = [] \<and> g_out n = [])"

lemma fresh_live_inv: "fresh_nodes ns \<Longrightarrow> live_inv (c, ns)"
  by (auto simp: fresh_nodes_def live_inv_def)

lemma liveness_ok:
  assumes "fresh_nodes ns"
  shows "\<exists>ms. liveness ns = Some ms \<and> same_graph ns ms \<and>
    (\<forall>i<length ns. set (g_in (ms ! i)) = {v. live ns i v} \<and>
       set (g_out (ms ! i)) = {v. \<exists>j\<in>set (g_succ (ns ! i)). live ns j v})"
proof -
  obtain t u where w: "while_option fst live_pass (True, ns) = Some t"
    and u: "live_inv u" "t = live_pass u" "\<not> fst t"
    using live.loop_ends [OF fresh_live_inv [OF assms], of True, unfolded fst_conv] by blast
  note p = live_pass_fold [OF u(1), folded u(2)]
  have "same_graph ns (snd t)"
    using while_option_rule [of "\<lambda>s. live_inv s \<and> same_graph ns (snd s)" fst live_pass, OF _ w]
      live_pass_fold fresh_live_inv [OF assms] same_graph_trans
    by (metis same_graph_refl snd_conv)
  note same = this same_graph_live [OF this]
  have len: "length (snd t) = length ns" "length (snd u) = length ns"
    using same(1) p by (simp_all add: same_graph_def)
  have eq: "set (g_in (snd t ! i)) = IN (snd t) i" "set (g_out (snd t ! i)) = OUT (snd t) i" if "i < length ns" for i
    using p u(3) len that by auto
  have I: "set (g_in (snd t ! i)) = {v. live ns i v}" if i: "i < length ns" for i
  proof -
    have "v \<in> set (g_in (snd t ! i))" if "live ns i v" for v
      using live_subset_solution [of "snd t" i v] eq(1) len that same(2) by simp
    moreover have "live ns i v" if "v \<in> set (g_in (snd t ! i))" for v
      using p that i len same(2) by (simp add: live_inv_def)
    ultimately show ?thesis by blast
  qed
  have O: "set (g_out (snd t ! i)) = {v. \<exists>j\<in>set (g_succ (ns ! i)). live ns j v}" if i: "i < length ns" for i
  proof -
    have "wf_nodes ns" using assms by (simp add: fresh_nodes_def)
    from wf_nodes_nth [OF this i] have "\<forall>j\<in>set (g_succ (ns ! i)). j < length ns" by simp
    moreover have "g_succ (snd t ! i) = g_succ (ns ! i)" using same(1) i by (simp add: same_graph_def)
    ultimately show ?thesis unfolding eq(2) [OF i] OUT_def using I by auto
  qed
  show ?thesis
    using w same(1) I O by (intro exI [of _ "snd t"]) (simp add: liveness_def)
qed

text \<open>
  C3: The liveness loop of \<open>buildFunc\<close> always ends, and at its end \<open>m_in\<close> of every node is exactly the
  set of the variables that are live before its instruction (some path leads to a use with no
  definition before it), and \<open>m_out\<close> the set of those live before one of its successors. The graph
  itself is unchanged.
\<close>

theorem liveness_correct:
  assumes "fresh_nodes ns"
  shows "\<exists>ms. liveness ns = Some ms \<and> same_graph ns ms \<and>
    (\<forall>i<length ns. set (g_in (ms ! i)) = {v. live ns i v} \<and>
       set (g_out (ms ! i)) = {v. \<exists>j\<in>set (g_succ (ns ! i)). live ns j v})"
  by (rule liveness_ok [OF assms])

text \<open>A loop that counts a variable down: it is live throughout, and a variable set before the loop
  and never read is not.\<close>

definition sample_nodes :: "cGraphNode list" where
  "sample_nodes =
     [\<lparr>g_instruction = 0, g_use = [], g_def = [7], g_in = [], g_out = [], g_succ = [1]\<rparr>,
      \<lparr>g_instruction = 1, g_use = [5], g_def = [5], g_in = [], g_out = [], g_succ = [2]\<rparr>,
      \<lparr>g_instruction = 2, g_use = [6], g_def = [], g_in = [], g_out = [], g_succ = [3, 1]\<rparr>,
      \<lparr>g_instruction = 3, g_use = [], g_def = [], g_in = [], g_out = [], g_succ = []\<rparr>]"

theorem liveness_correct_witness:
  "\<exists>ms. liveness sample_nodes = Some ms \<and> set (g_in (ms ! 0)) = {v. live sample_nodes 0 v} \<and> 5 \<in> set (g_in (ms ! 0))"
proof -
  have "fresh_nodes sample_nodes" by (simp add: fresh_nodes_def wf_nodes_def sample_nodes_def)
  from liveness_correct [OF this] obtain ms where ms: "liveness sample_nodes = Some ms"
    "\<forall>i<length sample_nodes. set (g_in (ms ! i)) = {v. live sample_nodes i v}" by auto
  have "live sample_nodes 1 5" by (rule live.used) (simp_all add: sample_nodes_def)
  then have "live sample_nodes 0 5" by (intro live.passed [of 0 _ 5 1]) (simp_all add: sample_nodes_def)
  with ms show ?thesis by (auto simp: sample_nodes_def)
qed

section \<open>The graph that is built is ready for the loop\<close>

lemma scan_nodes_fresh:
  assumes "scan_nodes P I is (ns, r, il) = Inr (ns', r', il')"
    and "\<forall>n\<in>set ns. distinct (g_use n) \<and> g_in n = [] \<and> g_out n = []"
  shows "(\<forall>n\<in>set ns'. distinct (g_use n) \<and> g_in n = [] \<and> g_out n = []) \<and> length ns' = length ns + length is \<and>
    map g_instruction ns' = map g_instruction ns @ is \<and>
    (distinct r \<longrightarrow> distinct r') \<and> set r \<subseteq> set r' \<and>
    ((\<forall>n\<in>set ns. set (g_use n) \<union> set (g_def n) \<subseteq> set r) \<longrightarrow> (\<forall>n\<in>set ns'. set (g_use n) \<union> set (g_def n) \<subseteq> set r'))"
  using assms
proof (induction P I "is" "(ns, r, il)" arbitrary: ns r il rule: scan_nodes.induct)
  case (2 P I i "is" ns r il)
  from "2.prems"(1) obtain d u where d: "getDef P I i = Inr d" and u: "getUse I (instr_at P i) = Inr u"
    by (auto simp: res_bind_eq_Inr_iff)
  have rest: "scan_nodes P I is (ns @ [\<lparr>g_instruction = i, g_use = u, g_def = d, g_in = [], g_out = [], g_succ = []\<rparr>],
      iv_union (iv_union r d) u,
      if isMU (instr_at P i) then fold (\<lambda>x l. if int_only I x then iv_append l x else l) u il else il) =
      Inr (ns', r', il')"
    using "2.prems"(1) by (simp add: d u Let_def)
  have "\<forall>n\<in>set (ns @ [\<lparr>g_instruction = i, g_use = u, g_def = d, g_in = [], g_out = [], g_succ = []\<rparr>]).
      distinct (g_use n) \<and> g_in n = [] \<and> g_out n = []"
    using "2.prems"(2) distinct_getUse [OF u] by auto
  note IH = "2.hyps" [OF refl refl refl rest this]
  then show ?case by force
qed simp

lemma succ_index_less: "succ_index is t = Inr ss \<Longrightarrow> \<forall>j\<in>set ss. j < length is"
  by (auto simp: succ_index_def dest: find_index_Some split: option.splits)

lemma add_succs_spec:
  "add_succs P is ns = Inr ns' \<Longrightarrow>
     length ns' = length ns \<and> (\<forall>n'\<in>set ns'. \<exists>n\<in>set ns. \<exists>s. node_succ P is (g_instruction n) = Inr s \<and> n' = n\<lparr>g_succ := s\<rparr>)"
  by (induction ns arbitrary: ns') (fastforce simp: res_bind_eq_Inr_iff)+

text \<open>The nodes are well formed, and the variables that they use or define are the listed ones.\<close>

lemma build_nodes_fresh:
  assumes "build_nodes P I b = Inr (ns, regLst, intOnlyLst)"
  shows "fresh_nodes ns" "distinct regLst" "\<forall>n\<in>set ns. set (g_use n) \<union> set (g_def n) \<subseteq> set regLst"
    "length ns = length (func_instrs P b)"
proof -
  let ?is = "func_instrs P b"
  from assms obtain ms where m: "scan_nodes P I ?is ([], [], []) = Inr (ms, regLst, intOnlyLst)"
    and a: "add_succs P ?is ms = Inr ns"
    by (auto simp: build_nodes_def Let_def res_bind_eq_Inr_iff)
  note s = scan_nodes_fresh [OF m, simplified] and t = add_succs_spec [OF a]
  have "\<forall>j\<in>set (g_succ n). j < length ns" if n: "n \<in> set ns" for n
  proof -
    from n t obtain m' ss where "node_succ P ?is (g_instruction m') = Inr ss" "n = m'\<lparr>g_succ := ss\<rparr>" by blast
    then show ?thesis using succ_index_less s t
      by (fastforce simp: node_succ_def res_bind_eq_Inr_iff)
  qed
  then show "fresh_nodes ns" using s t by (fastforce simp: fresh_nodes_def wf_nodes_def)
  show "distinct regLst" using s by simp
  show "\<forall>n\<in>set ns. set (g_use n) \<union> set (g_def n) \<subseteq> set regLst" using s t by fastforce
  show "length ns = length ?is" using s t by simp
qed

end
