(* ===== verification/Coloring.thy ===== *)
theory Coloring
  imports Liveness
begin

text \<open>
  Register allocation by graph colouring: the interference edges and \<open>colorGraph\<close>
  (\<open>SW/compiler/graph.cpp\<close>).

  A colour is a record; a pointer to a colour of the class that is being coloured is its index in
  the list of that class's colours (\<open>M_pointerColor\<close>, \<open>M_intColor\<close> and so on).
\<close>

section \<open>Interference\<close>

record cGraphColor =
  k_offset :: int
  k_len :: int
  k_flag :: bool
  k_intOnly :: bool
  k_vectorWidth :: int

definition new_cGraphColor :: cGraphColor where
  "new_cGraphColor = \<lparr>k_offset = -1, k_len = 0, k_flag = False, k_intOnly = False, k_vectorWidth = -1\<rparr>"

text \<open>Two variables get an edge when, at some instruction, both are live out, or one is live out and the
  instruction writes the other.\<close>

definition overlap :: "cGraphNode \<Rightarrow> nat \<Rightarrow> nat \<Rightarrow> bool" where
  "overlap n x y \<longleftrightarrow>
     (iv_exist (g_out n) x \<and> iv_exist (g_out n) y) \<or>
     (iv_exist (g_out n) x \<and> iv_exist (g_def n) y) \<or>
     (iv_exist (g_out n) y \<and> iv_exist (g_def n) x)"

definition edges :: "cGraphNode list \<Rightarrow> nat list \<Rightarrow> (nat \<times> nat) list" where
  "edges ns R =
     concat (map (\<lambda>i. map (\<lambda>j. (R ! i, R ! j))
       (filter (\<lambda>j. list_ex (\<lambda>n. overlap n (R ! i) (R ! j)) ns) [i + 1..<length R])) [0..<length R])"

definition colorable :: "clsid \<Rightarrow> idents \<Rightarrow> nat \<Rightarrow> bool" where
  "colorable c I x \<longleftrightarrow> isKindOf (ident_at I x) c \<and> \<not> isFixed (ident_at I x)"

definition interference :: "clsid \<Rightarrow> idents \<Rightarrow> (nat \<times> nat) list \<Rightarrow> nat \<Rightarrow> int" where
  "interference c I es x =
     int (length (filter (\<lambda>(a, b). (a = x \<and> colorable c I b) \<or> (b = x \<and> colorable c I a)) es))"

section \<open>Colouring one variable\<close>

definition neighbour :: "nat \<times> nat \<Rightarrow> nat \<Rightarrow> nat option" where
  "neighbour e x = (if fst e = x then Some (snd e) else if snd e = x then Some (fst e) else None)"

text \<open>The colours of the coloured neighbours are flagged.\<close>

fun flag_neighbours :: "(nat \<times> nat) list \<Rightarrow> nat \<Rightarrow> nat list \<Rightarrow> idents \<Rightarrow> cGraphColor list \<Rightarrow> cGraphColor list res" where
  "flag_neighbours [] x lst I ks = Inr ks"
| "flag_neighbours (e # es) x lst I ks =
     (case neighbour e x of
        None \<Rightarrow> flag_neighbours es x lst I ks
      | Some y \<Rightarrow>
          if \<not> iv_exist lst y then flag_neighbours es x lst I ks
          else (case m_color (ident_at I y) of
                  None \<Rightarrow> Inl NullPointer
                | Some k \<Rightarrow> flag_neighbours es x lst I (ks[k := (ks ! k)\<lparr>k_flag := True\<rparr>])))"

text \<open>The first of the longest colours without a flag.\<close>

definition best_color :: "cGraphColor list \<Rightarrow> nat option" where
  "best_color ks = fold (\<lambda>i found.
     if \<not> k_flag (ks ! i) then
       (case found of None \<Rightarrow> Some i | Some f \<Rightarrow> if k_len (ks ! i) > k_len (ks ! f) then Some i else found)
     else found) [0..<length ks] None"

text \<open>The colour grows to hold the variable.\<close>

definition widen :: "clsid \<Rightarrow> nat list \<Rightarrow> nat \<Rightarrow> cIdentifier \<Rightarrow> cGraphColor \<Rightarrow> cGraphColor" where
  "widen c intOnlyLst x v k =
     k\<lparr>k_len := max (k_len k) (getLen v),
       k_vectorWidth := (if isKindOf v CStorage then max (k_vectorWidth k) (m_w v) else k_vectorWidth k),
       k_intOnly := (if c = CInteger \<and> iv_exist intOnlyLst x then True else k_intOnly k)\<rparr>"

definition color :: "clsid \<Rightarrow> nat list \<Rightarrow> (nat \<times> nat) list \<Rightarrow> nat \<Rightarrow> nat list \<Rightarrow>
    cGraphColor list \<times> idents \<Rightarrow> (cGraphColor list \<times> idents) res" where
  "color c intOnlyLst es x lst s =
     (let I = snd s; v = ident_at I x in
      res_bind (flag_neighbours es x lst I (map (\<lambda>k. k\<lparr>k_flag := False\<rparr>) (fst s))) (\<lambda>ks.
        let (f, ks') = (case best_color ks of
                Some f \<Rightarrow> (f, ks)
              | None \<Rightarrow> (length ks, ks @ [new_cGraphColor\<lparr>k_len := getLen v\<rparr>]))
        in Inr (ks'[f := widen c intOnlyLst x v (ks' ! f)], I[x := v\<lparr>m_color := Some f\<rparr>])))"

section \<open>Colouring the graph\<close>

definition init_color :: "clsid \<Rightarrow> (nat \<times> nat) list \<Rightarrow> nat list \<Rightarrow> idents \<Rightarrow> idents" where
  "init_color c es R I = fold (\<lambda>x J.
     if colorable c J x
     then J[x := (ident_at J x)\<lparr>m_interference := interference c J es x, m_color := None\<rparr>] else J) R I"

text \<open>The first of the variables with the fewest neighbours, among those not yet taken.\<close>

definition pick :: "clsid \<Rightarrow> nat list \<Rightarrow> idents \<Rightarrow> nat option" where
  "pick c R I = fold (\<lambda>x found.
     if \<not> colorable c I x then found
     else if m_interference (ident_at I x) < 0 then found
     else (case found of
             None \<Rightarrow> Some x
           | Some f \<Rightarrow> if m_interference (ident_at I f) > m_interference (ident_at I x) then Some x else found))
     R None"

definition can_pick :: "clsid \<Rightarrow> nat list \<Rightarrow> nat list \<times> idents \<Rightarrow> bool" where
  "can_pick c R s \<longleftrightarrow> pick c R (snd s) \<noteq> None"

definition pick_step :: "clsid \<Rightarrow> nat list \<Rightarrow> nat list \<times> idents \<Rightarrow> nat list \<times> idents" where
  "pick_step c R s =
     (case pick c R (snd s) of
        None \<Rightarrow> s
      | Some x \<Rightarrow> (iv_append (fst s) x, (snd s)[x := (ident_at (snd s) x)\<lparr>m_interference := -1\<rparr>]))"

fun color_all :: "clsid \<Rightarrow> nat list \<Rightarrow> (nat \<times> nat) list \<Rightarrow> nat list \<Rightarrow> nat list \<Rightarrow>
    cGraphColor list \<times> idents \<Rightarrow> (cGraphColor list \<times> idents) res" where
  "color_all c intOnlyLst es [] lst s = Inr s"
| "color_all c intOnlyLst es (x # xs) lst s =
     res_bind (color c intOnlyLst es x lst s) (color_all c intOnlyLst es xs (iv_append lst x))"

text \<open>\<open>None\<close> is a selection loop that does not end.\<close>

definition colorGraph :: "clsid \<Rightarrow> nat list \<Rightarrow> (nat \<times> nat) list \<Rightarrow> nat list \<Rightarrow>
    cGraphColor list \<times> idents \<Rightarrow> (cGraphColor list \<times> idents) res option" where
  "colorGraph c intOnlyLst es R s =
     map_option (\<lambda>(stack, J). color_all c intOnlyLst es stack [] (fst s, J))
       (while_option (can_pick c R) (pick_step c R) ([], init_color c es R (snd s)))"

section \<open>What colouring keeps\<close>

definition uncolored :: "cIdentifier \<Rightarrow> cIdentifier" where
  "uncolored v = v\<lparr>m_color := None, m_interference := 0\<rparr>"

definition same_but_color :: "idents \<Rightarrow> idents \<Rightarrow> bool" where
  "same_but_color I J \<longleftrightarrow> length J = length I \<and> (\<forall>x. uncolored (ident_at J x) = uncolored (ident_at I x))"

lemma same_but_color_refl [simp]: "same_but_color I I"
  by (simp add: same_but_color_def)

lemma same_but_color_trans: "same_but_color I J \<Longrightarrow> same_but_color J K \<Longrightarrow> same_but_color I K"
  by (simp add: same_but_color_def)

lemma ident_at_upd: "ident_at (I[x := v]) y = (if y = x \<and> x < length I then v else ident_at I y)"
  by (auto simp: ident_at_def)

lemma same_but_color_upd:
  "same_but_color I (I[x := (ident_at I x)\<lparr>m_color := k\<rparr>])"
  "same_but_color I (I[x := (ident_at I x)\<lparr>m_interference := n\<rparr>])"
  "same_but_color I (I[x := (ident_at I x)\<lparr>m_interference := n, m_color := k\<rparr>])"
  by (simp_all add: same_but_color_def ident_at_upd uncolored_def)

lemma uncolored_cong:
  "uncolored v = uncolored w \<Longrightarrow> getLen v = getLen w \<and> isKindOf v d = isKindOf w d \<and> isFixed v = isFixed w \<and>
     m_w v = m_w w"
  by (cases v; cases w)
    (simp add: uncolored_def getLen_def isKindOf_def isFixed_def isParameter_def isStack_def)

lemma same_but_colorD:
  assumes "same_but_color I J"
  shows "length J = length I" "getLen (ident_at J x) = getLen (ident_at I x)"
    "isKindOf (ident_at J x) d = isKindOf (ident_at I x) d" "isFixed (ident_at J x) = isFixed (ident_at I x)"
    "m_w (ident_at J x) = m_w (ident_at I x)" "colorable c J x = colorable c I x"
  using assms uncolored_cong [of "ident_at J x" "ident_at I x"]
  by (simp_all add: same_but_color_def colorable_def)

lemma colorable_in: "colorable c I x \<Longrightarrow> c \<noteq> CIdentifier \<Longrightarrow> x < length I"
  by (auto simp: colorable_def isKindOf_def ident_at_def cls_isKindOf.simps blank_cIdentifier_def split: if_splits)

section \<open>One variable gets a colour that no coloured neighbour has\<close>

definition joined :: "(nat \<times> nat) list \<Rightarrow> nat \<Rightarrow> nat \<Rightarrow> bool" where
  "joined es x y \<longleftrightarrow> (x, y) \<in> set es \<or> (y, x) \<in> set es"

lemma joined_sym: "joined es x y \<longleftrightarrow> joined es y x"
  by (auto simp: joined_def)

text \<open>The colour of \<open>x\<close> is a colour of the list that is large enough for \<open>x\<close>.\<close>

definition fits :: "cGraphColor list \<Rightarrow> idents \<Rightarrow> nat \<Rightarrow> bool" where
  "fits ks I x \<longleftrightarrow> (\<exists>k<length ks. m_color (ident_at I x) = Some k \<and> getLen (ident_at I x) \<le> k_len (ks ! k) \<and>
     (isKindOf (ident_at I x) CStorage \<longrightarrow> m_w (ident_at I x) \<le> k_vectorWidth (ks ! k)))"

lemma flag_neighbours_spec:
  assumes "\<forall>y\<in>set lst. \<exists>k<length ks. m_color (ident_at I y) = Some k"
  shows "\<exists>ks'. flag_neighbours es x lst I ks = Inr ks' \<and> length ks' = length ks \<and>
    (\<forall>k<length ks. ks' ! k = (ks ! k)\<lparr>k_flag := k_flag (ks' ! k)\<rparr> \<and>
       (k_flag (ks ! k) \<longrightarrow> k_flag (ks' ! k))) \<and>
    (\<forall>y\<in>set lst. (\<exists>e\<in>set es. neighbour e x = Some y) \<longrightarrow> (\<forall>k. m_color (ident_at I y) = Some k \<longrightarrow> k_flag (ks' ! k)))"
  using assms
proof (induction es arbitrary: ks)
  case (Cons e es)
  show ?case
  proof (cases "\<exists>y\<in>set lst. neighbour e x = Some y")
    case False
    then have "flag_neighbours (e # es) x lst I ks = flag_neighbours es x lst I ks"
      by (auto split: option.splits)
    with Cons.IH [OF Cons.prems] False show ?thesis by auto
  next
    case True
    then obtain y where y: "y \<in> set lst" "neighbour e x = Some y" by blast
    with Cons.prems obtain k where k: "k < length ks" "m_color (ident_at I y) = Some k" by blast
    let ?ks = "ks[k := (ks ! k)\<lparr>k_flag := True\<rparr>]"
    from Cons.prems have "\<forall>z\<in>set lst. \<exists>k<length ?ks. m_color (ident_at I z) = Some k" by simp
    from Cons.IH [OF this] obtain ks' where
      ks': "flag_neighbours es x lst I ?ks = Inr ks'" "length ks' = length ks"
      "\<And>l. l < length ks \<Longrightarrow> ks' ! l = (?ks ! l)\<lparr>k_flag := k_flag (ks' ! l)\<rparr>"
      "\<And>l. l < length ks \<Longrightarrow> k_flag (?ks ! l) \<Longrightarrow> k_flag (ks' ! l)"
      "\<And>z l. z \<in> set lst \<Longrightarrow> \<exists>e\<in>set es. neighbour e x = Some z \<Longrightarrow> m_color (ident_at I z) = Some l \<Longrightarrow> k_flag (ks' ! l)"
      by auto
    have "ks' ! l = (ks ! l)\<lparr>k_flag := k_flag (ks' ! l)\<rparr>" if "l < length ks" for l
      using ks'(3) [OF that] that by (cases "l = k") simp_all
    moreover have "k_flag (ks ! l) \<longrightarrow> k_flag (ks' ! l)" if "l < length ks" for l
      using ks'(4) [OF that] that by (cases "l = k") simp_all
    moreover have "k_flag (ks' ! k)" using ks'(4) [OF k(1)] k(1) by simp
    moreover have "k_flag (ks' ! l)"
      if z: "z \<in> set lst" "\<exists>f\<in>set (e # es). neighbour f x = Some z" "m_color (ident_at I z) = Some l" for z l
    proof (cases "neighbour e x = Some z")
      case True
      with y k z(3) \<open>k_flag (ks' ! k)\<close> show ?thesis by simp
    next
      case False
      with z ks'(5) show ?thesis by auto
    qed
    moreover have "flag_neighbours (e # es) x lst I ks = Inr ks'" using ks'(1) y k by simp
    ultimately show ?thesis using ks'(2) by blast
  qed
qed simp

lemma best_color_aux:
  fixes xs :: "nat list" and ks :: "cGraphColor list"
  defines "better \<equiv> \<lambda>i found.
     if \<not> k_flag (ks ! i) then
       (case found of None \<Rightarrow> Some i | Some f \<Rightarrow> if k_len (ks ! i) > k_len (ks ! f) then Some i else found)
     else found"
  assumes "\<forall>f. found = Some f \<longrightarrow> \<not> k_flag (ks ! f)"
  shows "(fold better xs found = None \<longleftrightarrow> found = None \<and> (\<forall>i\<in>set xs. k_flag (ks ! i))) \<and>
    (\<forall>f. fold better xs found = Some f \<longrightarrow> \<not> k_flag (ks ! f) \<and> (f \<in> set xs \<or> found = Some f) \<and>
       (\<forall>i. (i \<in> set xs \<and> \<not> k_flag (ks ! i) \<or> found = Some i) \<longrightarrow> k_len (ks ! i) \<le> k_len (ks ! f)))"
  using assms(2)
proof (induction xs arbitrary: found)
  case (Cons i xs)
  have "\<forall>f. better i found = Some f \<longrightarrow> \<not> k_flag (ks ! f)"
    using Cons.prems by (auto simp: better_def split: option.splits)
  note IH = Cons.IH [OF this]
  have none: "better i found = None \<longleftrightarrow> found = None \<and> k_flag (ks ! i)"
    by (auto simp: better_def split: option.splits)
  have ge: "\<exists>g. better i found = Some g \<and> k_len (ks ! j) \<le> k_len (ks ! g)"
    if "j = i \<and> \<not> k_flag (ks ! i) \<or> found = Some j" for j
    using that by (auto simp: better_def split: option.splits)
  show ?case
  proof (intro conjI allI impI)
    show "fold better (i # xs) found = None \<longleftrightarrow> found = None \<and> (\<forall>j\<in>set (i # xs). k_flag (ks ! j))"
      using IH none by simp
    fix f assume f: "fold better (i # xs) found = Some f"
    then show "\<not> k_flag (ks ! f)" using IH by simp
    have "f \<in> set xs \<or> better i found = Some f" using IH f by simp
    then show "f \<in> set (i # xs) \<or> found = Some f"
      by (auto simp: better_def split: option.splits if_splits)
    fix j assume j: "j \<in> set (i # xs) \<and> \<not> k_flag (ks ! j) \<or> found = Some j"
    show "k_len (ks ! j) \<le> k_len (ks ! f)"
    proof (cases "j = i \<and> \<not> k_flag (ks ! i) \<or> found = Some j")
      case True
      from ge [OF this] obtain g where "better i found = Some g" "k_len (ks ! j) \<le> k_len (ks ! g)" by blast
      with IH f show ?thesis by force
    next
      case False
      with j IH f show ?thesis by auto
    qed
  qed
qed auto

lemma best_color_spec:
  "best_color ks = None \<longleftrightarrow> (\<forall>i<length ks. k_flag (ks ! i))"
  "best_color ks = Some f \<Longrightarrow> f < length ks \<and> \<not> k_flag (ks ! f) \<and>
     (\<forall>i<length ks. \<not> k_flag (ks ! i) \<longrightarrow> k_len (ks ! i) \<le> k_len (ks ! f))"
proof -
  note a = best_color_aux [of None ks "[0..<length ks]", folded best_color_def, simplified]
  show "best_color ks = None \<longleftrightarrow> (\<forall>i<length ks. k_flag (ks ! i))" using a by fastforce
  show "best_color ks = Some f \<Longrightarrow> f < length ks \<and> \<not> k_flag (ks ! f) \<and>
     (\<forall>i<length ks. \<not> k_flag (ks ! i) \<longrightarrow> k_len (ks ! i) \<le> k_len (ks ! f))" using a by simp
qed

text \<open>Every edge joins two different variables.\<close>

definition loopless :: "(nat \<times> nat) list \<Rightarrow> bool" where
  "loopless es \<longleftrightarrow> (\<forall>(a, b)\<in>set es. a \<noteq> b)"

lemma neighbour_joined:
  "(\<exists>e\<in>set es. neighbour e x = Some y) \<Longrightarrow> joined es x y"
  "loopless es \<Longrightarrow> joined es x y \<Longrightarrow> \<exists>e\<in>set es. neighbour e x = Some y"
proof -
  assume "\<exists>e\<in>set es. neighbour e x = Some y"
  then show "joined es x y" by (auto simp: neighbour_def joined_def split: if_splits)
next
  assume l: "loopless es" and "joined es x y"
  then consider "(x, y) \<in> set es" | "(y, x) \<in> set es" by (auto simp: joined_def)
  then show "\<exists>e\<in>set es. neighbour e x = Some y"
  proof cases
    case 1
    then show ?thesis by (intro bexI [of _ "(x, y)"]) (simp_all add: neighbour_def)
  next
    case 2
    with l have "y \<noteq> x" by (auto simp: loopless_def)
    with 2 show ?thesis by (intro bexI [of _ "(y, x)"]) (simp_all add: neighbour_def)
  qed
qed

text \<open>The colours only grow.\<close>

definition grown :: "cGraphColor list \<Rightarrow> cGraphColor list \<Rightarrow> bool" where
  "grown ks ks' \<longleftrightarrow> length ks \<le> length ks' \<and>
     (\<forall>k<length ks. k_len (ks ! k) \<le> k_len (ks' ! k) \<and> k_vectorWidth (ks ! k) \<le> k_vectorWidth (ks' ! k) \<and>
        k_offset (ks' ! k) = k_offset (ks ! k) \<and> (k_intOnly (ks ! k) \<longrightarrow> k_intOnly (ks' ! k)))"

lemma grown_trans: "grown a b \<Longrightarrow> grown b c \<Longrightarrow> grown a c"
  unfolding grown_def
proof (elim conjE, intro conjI allI impI)
  fix k
  assume a: "length a \<le> length b" "k < length a"
    "\<forall>k<length a. k_len (a ! k) \<le> k_len (b ! k) \<and> k_vectorWidth (a ! k) \<le> k_vectorWidth (b ! k) \<and>
        k_offset (b ! k) = k_offset (a ! k) \<and> (k_intOnly (a ! k) \<longrightarrow> k_intOnly (b ! k))"
    "\<forall>k<length b. k_len (b ! k) \<le> k_len (c ! k) \<and> k_vectorWidth (b ! k) \<le> k_vectorWidth (c ! k) \<and>
        k_offset (c ! k) = k_offset (b ! k) \<and> (k_intOnly (b ! k) \<longrightarrow> k_intOnly (c ! k))"
  then have "k < length b" by simp
  with a show "k_len (a ! k) \<le> k_len (c ! k)" "k_vectorWidth (a ! k) \<le> k_vectorWidth (c ! k)"
    "k_offset (c ! k) = k_offset (a ! k)" "k_intOnly (a ! k) \<Longrightarrow> k_intOnly (c ! k)"
    by (auto intro: order_trans)
qed simp

lemma fits_grown: "fits ks I x \<Longrightarrow> grown ks ks' \<Longrightarrow> fits ks' I x"
  unfolding fits_def grown_def by (meson less_le_trans order_trans)

definition colored :: "idents \<Rightarrow> (nat \<times> nat) list \<Rightarrow> nat list \<Rightarrow> cGraphColor list \<times> idents \<Rightarrow> bool" where
  "colored I es lst s \<longleftrightarrow> same_but_color I (snd s) \<and> (\<forall>y\<in>set lst. fits (fst s) (snd s) y) \<and>
     (\<forall>y\<in>set lst. \<forall>z\<in>set lst. joined es y z \<longrightarrow> m_color (ident_at (snd s) y) \<noteq> m_color (ident_at (snd s) z)) \<and>
     (\<forall>y. y \<notin> set lst \<longrightarrow> ident_at (snd s) y = ident_at I y)"

lemma widen_spec [simp]:
  "k_len (widen c il x v k) = max (k_len k) (getLen v)" "k_len k \<le> k_len (widen c il x v k)"
  "getLen v \<le> k_len (widen c il x v k)"
  "k_offset (widen c il x v k) = k_offset k" "k_vectorWidth k \<le> k_vectorWidth (widen c il x v k)"
  "isKindOf v CStorage \<Longrightarrow> m_w v \<le> k_vectorWidth (widen c il x v k)"
  "k_intOnly k \<Longrightarrow> k_intOnly (widen c il x v k)"
  by (simp_all add: widen_def)

lemma color_step:
  assumes inv: "colored I es lst (ks, J)" and x: "x \<notin> set lst" "x < length I" and l: "loopless es"
  shows "\<exists>ks' J'. color c il es x lst (ks, J) = Inr (ks', J') \<and> grown ks ks' \<and> colored I es (iv_append lst x) (ks', J')"
proof -
  let ?v = "ident_at J x" and ?k0 = "map (\<lambda>k. k\<lparr>k_flag := False\<rparr>) ks"
  have fitl: "fits ks J y" if "y \<in> set lst" for y using inv that by (simp add: colored_def)
  then have "\<forall>y\<in>set lst. \<exists>k<length ?k0. m_color (ident_at J y) = Some k" by (auto simp: fits_def)
  from flag_neighbours_spec [OF this, of es x] obtain k1 where
    k1: "flag_neighbours es x lst J ?k0 = Inr k1" "length k1 = length ks"
    "\<And>k. k < length ks \<Longrightarrow> k1 ! k = (ks ! k)\<lparr>k_flag := k_flag (k1 ! k)\<rparr>"
    "\<And>y k. y \<in> set lst \<Longrightarrow> \<exists>e\<in>set es. neighbour e x = Some y \<Longrightarrow> m_color (ident_at J y) = Some k \<Longrightarrow> k_flag (k1 ! k)"
    by auto
  define f where "f = (case best_color k1 of Some f \<Rightarrow> f | None \<Rightarrow> length k1)"
  define k2 where "k2 = (case best_color k1 of Some f \<Rightarrow> k1 | None \<Rightarrow> k1 @ [new_cGraphColor\<lparr>k_len := getLen ?v\<rparr>])"
  define k3 where "k3 = k2[f := widen c il x ?v (k2 ! f)]"
  define J' where "J' = J[x := ?v\<lparr>m_color := Some f\<rparr>]"
  have res: "color c il es x lst (ks, J) = Inr (k3, J')"
    by (simp add: color_def Let_def k1(1) k3_def k2_def f_def J'_def split: option.splits)
  have f: "f < length k2" "length ks \<le> length k2" "\<And>k. k < length ks \<Longrightarrow> k2 ! k = k1 ! k"
    using best_color_spec(2) [of k1] by (auto simp: f_def k2_def k1(2) nth_append split: option.splits)
  have ff: "m_color (ident_at J y) \<noteq> Some f" if y: "y \<in> set lst" "joined es x y" for y
  proof
    assume c: "m_color (ident_at J y) = Some f"
    then have "f < length ks" using fitl [OF y(1)] by (auto simp: fits_def)
    moreover have "k_flag (k1 ! f)" using k1(4) [OF y(1) neighbour_joined(2) [OF l y(2)] c] .
    ultimately show False
      using best_color_spec(2) [of k1 f] k1(2) by (auto simp: f_def split: option.splits)
  qed
  have g: "grown ks k3"
    unfolding grown_def
  proof (intro conjI allI impI)
    show "length ks \<le> length k3" using f(2) by (simp add: k3_def)
    fix k assume k: "k < length ks"
    have k2: "k2 ! k = (ks ! k)\<lparr>k_flag := k_flag (k1 ! k)\<rparr>" using f(3) [OF k] k1(3) [OF k] by simp
    show "k_len (ks ! k) \<le> k_len (k3 ! k)" "k_vectorWidth (ks ! k) \<le> k_vectorWidth (k3 ! k)"
      "k_offset (k3 ! k) = k_offset (ks ! k)" "k_intOnly (ks ! k) \<Longrightarrow> k_intOnly (k3 ! k)"
      using k2 f(1) by (auto simp: k3_def nth_list_update intro: order_trans [OF _ widen_spec(5)])
  qed
  have same: "same_but_color J J'" unfolding J'_def by (rule same_but_color_upd)
  have JI: "same_but_color I J" using inv by (simp add: colored_def)
  have xJ: "x < length J" using x(2) same_but_colorD(1) [OF JI] by simp
  have at: "ident_at J' y = (if y = x then ?v\<lparr>m_color := Some f\<rparr> else ident_at J y)" for y
    using xJ by (simp add: J'_def ident_at_upd)
  have fx: "fits k3 J' x"
    unfolding fits_def
  proof (intro exI [of _ f] conjI impI)
    show "f < length k3" using f(1) by (simp add: k3_def)
    show "m_color (ident_at J' x) = Some f" by (simp add: at)
    show "getLen (ident_at J' x) \<le> k_len (k3 ! f)"
      using f(1) by (simp add: k3_def same_but_colorD [OF same])
    assume "isKindOf (ident_at J' x) CStorage"
    then show "m_w (ident_at J' x) \<le> k_vectorWidth (k3 ! f)"
      using f(1) by (simp add: k3_def same_but_colorD [OF same])
  qed
  have fy: "fits k3 J' y" if y: "y \<in> set lst" for y
  proof -
    from y x have "y \<noteq> x" by blast
    with fits_grown [OF fitl [OF y] g] show ?thesis by (simp add: fits_def at)
  qed
  have "colored I es (iv_append lst x) (k3, J')"
    unfolding colored_def
  proof (intro conjI ballI allI impI)
    show "same_but_color I (snd (k3, J'))" using same_but_color_trans [OF JI same] by simp
    fix y assume "y \<in> set (iv_append lst x)"
    then show "fits (fst (k3, J')) (snd (k3, J')) y" using fx fy by auto
  next
    fix y z assume yz: "y \<in> set (iv_append lst x)" "z \<in> set (iv_append lst x)" "joined es y z"
    have "y \<noteq> z" using yz(3) l by (auto simp: joined_def loopless_def)
    with yz ff [of y] ff [of z] inv joined_sym [of es y z]
    show "m_color (ident_at (snd (k3, J')) y) \<noteq> m_color (ident_at (snd (k3, J')) z)"
      by (auto simp: at colored_def)
  next
    fix y assume "y \<notin> set (iv_append lst x)"
    then show "ident_at (snd (k3, J')) y = ident_at I y" using inv by (simp add: at colored_def)
  qed
  with res g show ?thesis by blast
qed

lemma color_all_spec:
  assumes "colored I es lst (ks, J)" "distinct xs" "set xs \<inter> set lst = {}" "\<forall>x\<in>set xs. x < length I" "loopless es"
  shows "\<exists>ks' J'. color_all c il es xs lst (ks, J) = Inr (ks', J') \<and> grown ks ks' \<and> colored I es (lst @ xs) (ks', J')"
  using assms
proof (induction xs arbitrary: lst ks J)
  case (Cons x xs)
  then have x: "x \<notin> set lst" "x < length I" by auto
  from color_step [OF Cons.prems(1) x Cons.prems(5)] obtain k1 J1 where
    s: "color c il es x lst (ks, J) = Inr (k1, J1)" "grown ks k1" "colored I es (iv_append lst x) (k1, J1)" by blast
  have "iv_append lst x = lst @ [x]" using x by (simp add: add_new_def)
  with s(3) have col: "colored I es (lst @ [x]) (k1, J1)" by simp
  have "set xs \<inter> set (lst @ [x]) = {}" using Cons.prems by auto
  from Cons.IH [OF col _ this _ Cons.prems(5)] Cons.prems obtain k2 J2 where
    "color_all c il es xs (lst @ [x]) (k1, J1) = Inr (k2, J2)" "grown k1 k2" "colored I es ((lst @ [x]) @ xs) (k2, J2)"
    by auto
  with s(1,2) \<open>iv_append lst x = lst @ [x]\<close> grown_trans show ?case by (auto simp del: iv_append_eq)
qed (simp add: grown_def)

section \<open>The order in which the variables are coloured\<close>

definition open_var :: "clsid \<Rightarrow> idents \<Rightarrow> nat \<Rightarrow> bool" where
  "open_var c I x \<longleftrightarrow> colorable c I x \<and> 0 \<le> m_interference (ident_at I x)"

lemma pick_aux:
  fixes R :: "nat list" and I :: idents and c :: clsid
  defines "better \<equiv> \<lambda>x found.
     if \<not> colorable c I x then found
     else if m_interference (ident_at I x) < 0 then found
     else (case found of
             None \<Rightarrow> Some x
           | Some f \<Rightarrow> if m_interference (ident_at I f) > m_interference (ident_at I x) then Some x else found)"
  assumes "\<forall>f. found = Some f \<longrightarrow> open_var c I f"
  shows "(fold better R found = None \<longleftrightarrow> found = None \<and> (\<forall>x\<in>set R. \<not> open_var c I x)) \<and>
    (\<forall>f. fold better R found = Some f \<longrightarrow> open_var c I f \<and> (f \<in> set R \<or> found = Some f))"
  using assms(2)
proof (induction R arbitrary: found)
  case (Cons x R)
  have "\<forall>f. better x found = Some f \<longrightarrow> open_var c I f"
    using Cons.prems by (auto simp: better_def open_var_def split: option.splits)
  note IH = Cons.IH [OF this]
  have none: "better x found = None \<longleftrightarrow> found = None \<and> \<not> open_var c I x"
    by (auto simp: better_def open_var_def split: option.splits)
  have some: "better x found = Some f \<Longrightarrow> f = x \<or> found = Some f" for f
    by (auto simp: better_def split: option.splits if_splits)
  from IH none some show ?case by simp blast
qed auto

lemma pick_None: "pick c R I = None \<longleftrightarrow> (\<forall>x\<in>set R. \<not> open_var c I x)"
  and pick_Some: "pick c R I = Some x \<Longrightarrow> open_var c I x \<and> x \<in> set R"
  using pick_aux [of None c I R] by (simp_all add: pick_def)

text \<open>What the selection loop keeps: the stack holds, once each, the variables already taken.\<close>

definition sel_inv :: "clsid \<Rightarrow> nat list \<Rightarrow> idents \<Rightarrow> nat list \<times> idents \<Rightarrow> bool" where
  "sel_inv c R I s \<longleftrightarrow> same_but_color I (snd s) \<and> distinct (fst s) \<and> (\<forall>x\<in>set R. x < length I) \<and>
     set (fst s) = {x \<in> set R. colorable c I x \<and> m_interference (ident_at (snd s) x) < 0} \<and>
     (\<forall>y. y \<notin> set R \<or> \<not> colorable c I y \<longrightarrow> ident_at (snd s) y = ident_at I y)"

lemma pick_step_inv:
  assumes inv: "sel_inv c R I (st, J)"
  shows "sel_inv c R I (pick_step c R (st, J))"
    and "can_pick c R (st, J) \<Longrightarrow> length (fst (pick_step c R (st, J))) = Suc (length st)"
proof -
  have "sel_inv c R I (pick_step c R (st, J)) \<and>
    (can_pick c R (st, J) \<longrightarrow> length (fst (pick_step c R (st, J))) = Suc (length st))"
  proof (cases "pick c R J")
    case None
    with inv show ?thesis by (simp add: pick_step_def can_pick_def)
  next
    case (Some x)
    note x = pick_Some [OF Some]
    have same: "same_but_color I J" and lx: "x < length I" using inv x by (simp_all add: sel_inv_def)
    then have xJ: "x < length J" using same_but_colorD(1) by simp
    have col: "colorable c I x" "0 \<le> m_interference (ident_at J x)"
      using x same_but_colorD(6) [OF same] by (simp_all add: open_var_def)
    then have ns: "x \<notin> set st" using inv by (simp add: sel_inv_def)
    have app: "iv_append st x = st @ [x]" using ns by (simp add: add_new_def)
    let ?J = "J[x := (ident_at J x)\<lparr>m_interference := -1\<rparr>]"
    have at: "ident_at ?J y = (if y = x then (ident_at J x)\<lparr>m_interference := -1\<rparr> else ident_at J y)" for y
      using xJ by (simp add: ident_at_upd)
    have "same_but_color I ?J" using same_but_color_trans [OF same same_but_color_upd(2)] .
    moreover have "set (st @ [x]) = {z \<in> set R. colorable c I z \<and> m_interference (ident_at ?J z) < 0}"
      using inv x col by (auto simp: at sel_inv_def)
    moreover have "\<forall>y. y \<notin> set R \<or> \<not> colorable c I y \<longrightarrow> ident_at ?J y = ident_at I y"
      using inv x col by (auto simp: at sel_inv_def)
    ultimately have "sel_inv c R I (st @ [x], ?J)" using inv ns by (simp add: sel_inv_def)
    with Some app show ?thesis by (simp add: pick_step_def can_pick_def)
  qed
  then show "sel_inv c R I (pick_step c R (st, J))"
    "can_pick c R (st, J) \<Longrightarrow> length (fst (pick_step c R (st, J))) = Suc (length st)" by simp_all
qed

interpretation sel: fixpoint_loop "sel_inv c R I" "can_pick c R" "pick_step c R"
    "\<lambda>s. length (fst s)" "\<lambda>s. card (set R)"
  for c R I
proof
  fix s :: "nat list \<times> idents"
  assume inv: "sel_inv c R I s"
  obtain st J where s: "s = (st, J)" by (cases s)
  note step = pick_step_inv [OF inv [unfolded s], folded s]
  show "sel_inv c R I (pick_step c R s)" by (rule step(1))
  have "pick_step c R s = s" if "\<not> can_pick c R s" using that by (simp add: can_pick_def pick_step_def)
  then show "can_pick c R (pick_step c R s) \<Longrightarrow> length (fst s) < length (fst (pick_step c R s))"
    using step(2) by (cases "can_pick c R s") (simp_all add: s)
  have "set st \<subseteq> set R" "distinct st" using inv by (auto simp: sel_inv_def s)
  then show "length (fst s) \<le> card (set R)" by (metis List.finite_set card_mono distinct_card fst_conv s)
  show "card (set R) = card (set R)" by simp
qed

lemma init_color_spec:
  assumes "\<forall>x\<in>set R. x < length I"
  shows "sel_inv c R I ([], init_color c es R I)"
    and "\<forall>x\<in>set R. colorable c I x \<longrightarrow> 0 \<le> m_interference (ident_at (init_color c es R I) x)"
proof -
  have "same_but_color I (init_color c es xs J) \<and>
    (\<forall>x\<in>set xs. colorable c I x \<longrightarrow> 0 \<le> m_interference (ident_at (init_color c es xs J) x)) \<and>
    (\<forall>y. (y \<notin> set xs \<or> \<not> colorable c I y) \<longrightarrow> ident_at (init_color c es xs J) y = ident_at J y) \<and>
    (\<forall>y. 0 \<le> m_interference (ident_at J y) \<longrightarrow> 0 \<le> m_interference (ident_at (init_color c es xs J) y))"
    if "same_but_color I J" "\<forall>x\<in>set xs. x < length I" for xs J
    using that
  proof (induction xs arbitrary: J)
    case (Cons x xs)
    let ?J = "if colorable c J x then J[x := (ident_at J x)\<lparr>m_interference := interference c J es x, m_color := None\<rparr>] else J"
    have step: "init_color c es (x # xs) J = init_color c es xs ?J" by (simp add: init_color_def)
    have eq: "colorable c J x = colorable c I x" using same_but_colorD(6) [OF Cons.prems(1)] .
    have same: "same_but_color I ?J" using Cons.prems(1) same_but_color_trans same_but_color_upd(3) by simp
    have xJ: "x < length J" using Cons.prems same_but_colorD(1) by simp
    have at: "ident_at ?J y = (if y = x \<and> colorable c I x
        then (ident_at J x)\<lparr>m_interference := interference c J es x, m_color := None\<rparr> else ident_at J y)" for y
      using xJ eq by (auto simp: ident_at_upd)
    have nn: "0 \<le> interference c J es x" by (simp add: interference_def)
    have IH: "same_but_color I (init_color c es xs ?J)"
      "\<And>z. z \<in> set xs \<Longrightarrow> colorable c I z \<Longrightarrow> 0 \<le> m_interference (ident_at (init_color c es xs ?J) z)"
      "\<And>y. y \<notin> set xs \<or> \<not> colorable c I y \<Longrightarrow> ident_at (init_color c es xs ?J) y = ident_at ?J y"
      "\<And>y. 0 \<le> m_interference (ident_at ?J y) \<Longrightarrow> 0 \<le> m_interference (ident_at (init_color c es xs ?J) y)"
      using Cons.IH [OF same] Cons.prems(2) by simp_all
    show ?case unfolding step
    proof (intro conjI ballI allI impI IH(1))
      fix z assume z: "z \<in> set (x # xs)" "colorable c I z"
      show "0 \<le> m_interference (ident_at (init_color c es xs ?J) z)"
      proof (cases "z = x")
        case True
        have "0 \<le> m_interference (ident_at ?J x)" using z True nn by (simp add: at)
        with IH(4) True show ?thesis by blast
      qed (use IH(2) z in simp)
    next
      fix y assume "y \<notin> set (x # xs) \<or> \<not> colorable c I y"
      then show "ident_at (init_color c es xs ?J) y = ident_at J y" using IH(3) [of y] at [of y] by auto
    next
      fix y assume "0 \<le> m_interference (ident_at J y)"
      then have "0 \<le> m_interference (ident_at ?J y)" using nn by (simp add: at)
      then show "0 \<le> m_interference (ident_at (init_color c es xs ?J) y)" by (rule IH(4))
    qed
  qed (simp add: init_color_def)
  from this [OF same_but_color_refl assms] show "sel_inv c R I ([], init_color c es R I)"
    "\<forall>x\<in>set R. colorable c I x \<longrightarrow> 0 \<le> m_interference (ident_at (init_color c es R I) x)"
    using assms by (auto simp: sel_inv_def)
qed

section \<open>The colouring is proper\<close>

lemma colorGraph_ok:
  assumes R: "\<forall>x\<in>set R. x < length I" and l: "loopless es"
  shows "\<exists>ks' J. colorGraph c il es R (ks, I) = Some (Inr (ks', J)) \<and> same_but_color I J \<and> grown ks ks' \<and>
    (\<forall>x\<in>set R. colorable c I x \<longrightarrow> fits ks' J x) \<and>
    (\<forall>x\<in>set R. \<forall>y\<in>set R. colorable c I x \<longrightarrow> colorable c I y \<longrightarrow> joined es x y \<longrightarrow>
       m_color (ident_at J x) \<noteq> m_color (ident_at J y)) \<and>
    (\<forall>y. y \<notin> set R \<or> \<not> colorable c I y \<longrightarrow> ident_at J y = ident_at I y)"
proof -
  let ?s0 = "([], init_color c es R I)"
  have inv0: "sel_inv c R I ?s0" by (rule init_color_spec(1) [OF R])
  have "\<exists>t. while_option (can_pick c R) (pick_step c R) ?s0 = Some t \<and> sel_inv c R I t \<and> \<not> can_pick c R t"
  proof (cases "can_pick c R ?s0")
    case True
    from sel.loop_ends [OF inv0 True] show ?thesis using sel.inv_round by blast
  next
    case False
    then have "while_option (can_pick c R) (pick_step c R) ?s0 = Some ?s0" by (subst while_option_unfold) simp
    with False inv0 show ?thesis by blast
  qed
  then obtain st K where w: "while_option (can_pick c R) (pick_step c R) ?s0 = Some (st, K)"
    and inv: "sel_inv c R I (st, K)" and stop: "\<not> can_pick c R (st, K)" by (metis prod.collapse)
  have same: "same_but_color I K" using inv by (simp add: sel_inv_def)
  have st: "set st = {x \<in> set R. colorable c I x}" "distinct st"
    using inv stop same_but_colorD(6) [OF same]
    by (auto simp: sel_inv_def can_pick_def pick_None open_var_def)
  have "colored K es [] (ks, K)" by (simp add: colored_def)
  moreover have "\<forall>x\<in>set st. x < length K" using R st same_but_colorD(1) [OF same] by simp
  ultimately obtain ks' J where
    c: "color_all c il es st [] (ks, K) = Inr (ks', J)" "grown ks ks'" "colored K es st (ks', J)"
    using color_all_spec [of K es "[]" ks K st c il] l st(2) by auto
  have "colorGraph c il es R (ks, I) = Some (Inr (ks', J))" using w c(1) by (simp add: colorGraph_def)
  moreover have "same_but_color I J" using same_but_color_trans [OF same] c(3) by (simp add: colored_def)
  moreover have "ident_at J y = ident_at I y" if "y \<notin> set R \<or> \<not> colorable c I y" for y
  proof -
    have "ident_at J y = ident_at K y" using c(3) st(1) that by (auto simp: colored_def)
    with inv that show ?thesis by (simp add: sel_inv_def)
  qed
  ultimately show ?thesis using c(2,3) st(1)
    by (intro exI [of _ ks'] exI [of _ J]) (auto simp: colored_def)
qed

section \<open>All classes of a function\<close>

text \<open>The classes in the order in which \<open>buildFunc\<close> colours them; each has its own list of colours.\<close>

fun color_classes :: "clsid list \<Rightarrow> nat list \<Rightarrow> (nat \<times> nat) list \<Rightarrow> nat list \<Rightarrow> idents \<Rightarrow>
    ((clsid \<times> cGraphColor list) list \<times> idents) res option" where
  "color_classes [] il es R I = Some (Inr ([], I))"
| "color_classes (c # cs) il es R I =
     (case colorGraph c il es R ([], I) of
        None \<Rightarrow> None
      | Some (Inl e) \<Rightarrow> Some (Inl e)
      | Some (Inr (ks, J)) \<Rightarrow>
          (case color_classes cs il es R J of
             None \<Rightarrow> None
           | Some (Inl e) \<Rightarrow> Some (Inl e)
           | Some (Inr (kss, K)) \<Rightarrow> Some (Inr ((c, ks) # kss, K))))"

definition reg_classes :: "clsid list" where
  "reg_classes = [CPointer, CInteger, CPrivate, CShared, CExReg]"

definition colors_of :: "(clsid \<times> cGraphColor list) list \<Rightarrow> clsid \<Rightarrow> cGraphColor list" where
  "colors_of kss c = (case map_of kss c of Some ks \<Rightarrow> ks | None \<Rightarrow> [])"

text \<open>The first part of \<open>buildFunc\<close>: graph, liveness, interference and colours.\<close>

definition color_func :: "program \<Rightarrow> idents \<Rightarrow> nat \<Rightarrow>
    ((clsid \<times> cGraphColor list) list \<times> idents) res option" where
  "color_func P I b =
     (case build_nodes P I b of
        Inl e \<Rightarrow> Some (Inl e)
      | Inr (ns, R, il) \<Rightarrow>
          (case liveness ns of
             None \<Rightarrow> None
           | Some ms \<Rightarrow> color_classes reg_classes il (edges ms R) R I))"

lemma reg_class_unique:
  "c \<in> set reg_classes \<Longrightarrow> d \<in> set reg_classes \<Longrightarrow> isKindOf v c \<Longrightarrow> isKindOf v d \<Longrightarrow> c = d"
  by (auto simp: reg_classes_def isKindOf_def)

text \<open>What the colours of some classes promise.\<close>

definition proper :: "nat list \<Rightarrow> (nat \<times> nat) list \<Rightarrow> idents \<Rightarrow> clsid \<Rightarrow> cGraphColor list \<Rightarrow> bool" where
  "proper R es J c ks \<longleftrightarrow> (\<forall>x\<in>set R. colorable c J x \<longrightarrow> fits ks J x) \<and>
     (\<forall>x\<in>set R. \<forall>y\<in>set R. colorable c J x \<longrightarrow> colorable c J y \<longrightarrow> joined es x y \<longrightarrow>
        m_color (ident_at J x) \<noteq> m_color (ident_at J y))"

lemma color_classes_ok:
  assumes "\<forall>x\<in>set R. x < length I" "loopless es" "set cs \<subseteq> set reg_classes" "distinct cs"
  shows "\<exists>kss J. color_classes cs il es R I = Some (Inr (kss, J)) \<and> same_but_color I J \<and>
    (\<forall>c\<in>set cs. proper R es J c (colors_of kss c)) \<and>
    (\<forall>y. (y \<notin> set R \<or> (\<forall>c\<in>set cs. \<not> colorable c I y)) \<longrightarrow> ident_at J y = ident_at I y)"
  using assms(1,3,4)
proof (induction cs arbitrary: I)
  case (Cons c cs)
  from colorGraph_ok [OF Cons.prems(1) assms(2), of c il "[]"] obtain ks J where
    g: "colorGraph c il es R ([], I) = Some (Inr (ks, J))" "same_but_color I J" and
    fit: "\<And>x. x \<in> set R \<Longrightarrow> colorable c I x \<Longrightarrow> fits ks J x" and
    neq: "\<And>x y. x \<in> set R \<Longrightarrow> y \<in> set R \<Longrightarrow> colorable c I x \<Longrightarrow> colorable c I y \<Longrightarrow> joined es x y \<Longrightarrow>
       m_color (ident_at J x) \<noteq> m_color (ident_at J y)" and
    fr: "\<And>y. y \<notin> set R \<or> \<not> colorable c I y \<Longrightarrow> ident_at J y = ident_at I y" by blast
  note D = same_but_colorD [OF g(2)]
  have "\<forall>x\<in>set R. x < length J" using Cons.prems(1) D(1) by simp
  from Cons.IH [OF this] Cons.prems obtain kss K where
    h: "color_classes cs il es R J = Some (Inr (kss, K))" "same_but_color J K" and
    pr: "\<And>d. d \<in> set cs \<Longrightarrow> proper R es K d (colors_of kss d)" and
    fr2: "\<And>y. y \<notin> set R \<or> (\<forall>c\<in>set cs. \<not> colorable c J y) \<Longrightarrow> ident_at K y = ident_at J y" by auto
  have other: "ident_at K y = ident_at J y" if "colorable c J y" for y
  proof (rule fr2, rule disjI2, intro ballI notI)
    fix d assume d: "d \<in> set cs" "colorable d J y"
    then have "c = d" using that Cons.prems(2) reg_class_unique [of c d "ident_at J y"]
      unfolding colorable_def by (metis in_mono list.set_intros)
    with d Cons.prems(3) show False by simp
  qed
  have eqc: "colorable c K x = colorable c I x" "colorable c J x = colorable c I x" for c x
    using D(6) same_but_colorD(6) [OF h(2)] by simp_all
  have pc: "proper R es K c ks"
    unfolding proper_def eqc
  proof (intro conjI ballI impI)
    fix x assume "x \<in> set R" "colorable c I x"
    with fit [OF this] other [of x] show "fits ks K x" by (simp add: fits_def eqc)
  next
    fix x y assume "x \<in> set R" "y \<in> set R" "colorable c I x" "colorable c I y" "joined es x y"
    with neq [OF this] other [of x] other [of y] show "m_color (ident_at K x) \<noteq> m_color (ident_at K y)"
      by (simp add: eqc)
  qed
  let ?k = "(c, ks) # kss"
  have "color_classes (c # cs) il es R I = Some (Inr (?k, K))" using g(1) h(1) by simp
  moreover have "proper R es K d (colors_of ?k d)" if "d \<in> set (c # cs)" for d
    using that pc pr Cons.prems(3) by (cases "d = c") (simp_all add: colors_of_def)
  moreover have "ident_at K y = ident_at I y" if "y \<notin> set R \<or> (\<forall>d\<in>set (c # cs). \<not> colorable d I y)" for y
    using fr [of y] fr2 [of y] that eqc(2) by auto
  ultimately show ?case using same_but_color_trans [OF g(2) h(2)] by blast
qed simp

lemma joined_edges:
  assumes "distinct R"
  shows "joined (edges ns R) x y \<longleftrightarrow> x \<in> set R \<and> y \<in> set R \<and> x \<noteq> y \<and> (\<exists>n\<in>set ns. overlap n x y)"
proof -
  have sym: "overlap n a b = overlap n b a" for n a b by (auto simp: overlap_def)
  have mem: "(x, y) \<in> set (edges ns R) \<longleftrightarrow>
      (\<exists>i j. i < j \<and> j < length R \<and> x = R ! i \<and> y = R ! j \<and> (\<exists>n\<in>set ns. overlap n x y))" for x y
  proof -
    have "(x, y) \<in> set (edges ns R) \<longleftrightarrow> (\<exists>i\<in>{0..<length R}. \<exists>j\<in>{i + 1..<length R}.
        (\<exists>n\<in>set ns. overlap n (R ! i) (R ! j)) \<and> x = R ! i \<and> y = R ! j)"
      unfolding edges_def set_concat set_map set_filter list_ex_iff by (simp add: image_iff, intro bex_cong refl) auto
    also have "\<dots> \<longleftrightarrow> (\<exists>i j. i < j \<and> j < length R \<and> x = R ! i \<and> y = R ! j \<and> (\<exists>n\<in>set ns. overlap n x y))"
    proof (intro iffI; elim bexE exE conjE)
      fix i j n assume "i < j" "j < length R" "x = R ! i" "y = R ! j" "n \<in> set ns" "overlap n x y"
      moreover from this have "i \<in> {0..<length R}" "j \<in> {i + 1..<length R}" by simp_all
      ultimately show "\<exists>i\<in>{0..<length R}. \<exists>j\<in>{i + 1..<length R}.
        (\<exists>n\<in>set ns. overlap n (R ! i) (R ! j)) \<and> x = R ! i \<and> y = R ! j" by blast
    next
      fix i j n assume "j \<in> {i + 1..<length R}" "x = R ! i" "y = R ! j" "n \<in> set ns" "overlap n (R ! i) (R ! j)"
      then have "i < j \<and> j < length R \<and> x = R ! i \<and> y = R ! j \<and> (\<exists>n\<in>set ns. overlap n x y)" by auto
      then show "\<exists>i j. i < j \<and> j < length R \<and> x = R ! i \<and> y = R ! j \<and> (\<exists>n\<in>set ns. overlap n x y)" by blast
    qed
    finally show ?thesis .
  qed
  show ?thesis
  proof
    assume "joined (edges ns R) x y"
    then show "x \<in> set R \<and> y \<in> set R \<and> x \<noteq> y \<and> (\<exists>n\<in>set ns. overlap n x y)"
      using assms sym by (auto simp: joined_def mem nth_eq_iff_index_eq)
  next
    assume a: "x \<in> set R \<and> y \<in> set R \<and> x \<noteq> y \<and> (\<exists>n\<in>set ns. overlap n x y)"
    then obtain i j where "i < length R" "j < length R" "x = R ! i" "y = R ! j" by (auto simp: in_set_conv_nth)
    moreover from this a have "i \<noteq> j" by auto
    then have "i < j \<or> j < i" by (rule nat_neq_iff [THEN iffD1])
    ultimately show "joined (edges ns R) x y" using a sym unfolding joined_def mem by blast
  qed
qed

lemma loopless_edges: "distinct R \<Longrightarrow> loopless (edges ns R)"
  using joined_edges [of R ns] by (fastforce simp: loopless_def joined_def)

text \<open>The variable \<open>x\<close> is live after instruction \<open>i\<close>.\<close>

definition live_after :: "cGraphNode list \<Rightarrow> nat \<Rightarrow> nat \<Rightarrow> bool" where
  "live_after ns i x \<longleftrightarrow> (\<exists>j\<in>set (g_succ (ns ! i)). live ns j x)"

lemma color_func_separates:
  assumes "build_nodes P I b = Inr (ns, R, il)" "\<forall>x\<in>set R. x < length I"
  shows "\<exists>kss J. color_func P I b = Some (Inr (kss, J)) \<and> same_but_color I J \<and>
    (\<forall>c\<in>set reg_classes. \<forall>x\<in>set R. colorable c I x \<longrightarrow> fits (colors_of kss c) J x) \<and>
    (\<forall>c\<in>set reg_classes. \<forall>i<length ns. \<forall>x\<in>set R. \<forall>y\<in>set R. x \<noteq> y \<longrightarrow> colorable c I x \<longrightarrow> colorable c I y \<longrightarrow>
       live_after ns i x \<longrightarrow> live_after ns i y \<or> y \<in> set (g_def (ns ! i)) \<longrightarrow>
       m_color (ident_at J x) \<noteq> m_color (ident_at J y))"
proof -
  note bn = build_nodes_fresh [OF assms(1)]
  from liveness_ok [OF bn(1)] obtain ms where
    ms: "liveness ns = Some ms" "same_graph ns ms"
    "\<And>i. i < length ns \<Longrightarrow> set (g_out (ms ! i)) = {v. live_after ns i v}"
    by (auto simp: live_after_def)
  let ?es = "edges ms R"
  have "distinct reg_classes" by (simp add: reg_classes_def)
  from color_classes_ok [OF assms(2) loopless_edges [OF bn(2)] subset_refl this] obtain kss J where
    c: "color_classes reg_classes il ?es R I = Some (Inr (kss, J))" "same_but_color I J"
    "\<And>c. c \<in> set reg_classes \<Longrightarrow> proper R ?es J c (colors_of kss c)" by metis
  have "color_func P I b = Some (Inr (kss, J))" by (simp add: color_func_def assms(1) ms(1) c(1))
  moreover have "m_color (ident_at J x) \<noteq> m_color (ident_at J y)"
    if "c \<in> set reg_classes" "i < length ns" "x \<in> set R" "y \<in> set R" "x \<noteq> y" "colorable c I x" "colorable c I y"
      "live_after ns i x" "live_after ns i y \<or> y \<in> set (g_def (ns ! i))" for c i x y
  proof -
    have i: "i < length ms" "g_def (ms ! i) = g_def (ns ! i)" using ms(2) that(2) by (simp_all add: same_graph_def)
    have "overlap (ms ! i) x y" using that(8,9) ms(3) [OF that(2)] i by (auto simp: overlap_def)
    then have "joined ?es x y" using that i by (auto simp: joined_edges [OF bn(2)])
    with c(3) [OF that(1)] that same_but_colorD(6) [OF c(2)] show ?thesis by (simp add: proper_def)
  qed
  moreover have "fits (colors_of kss c) J x" if "c \<in> set reg_classes" "x \<in> set R" "colorable c I x" for c x
    using c(3) [OF that(1)] that same_but_colorD(6) [OF c(2)] by (simp add: proper_def)
  ultimately show ?thesis using c(2) by blast
qed

end
