(* ===== verification/RegSem.thy ===== *)
theory RegSem
  imports Coloring
begin

text \<open>
  What register allocation is for: the function runs on the registers of its colours exactly as it
  runs on its variables.

  The machine below knows an instruction only through what it reads and writes: \<open>exec i us\<close> gives,
  from the values of the variables that instruction \<open>i\<close> uses, the values of the variables it
  defines and which of its successors is next. Any meaning of the instructions that is a function
  of the variables used, and that writes all of each variable defined, is such an \<open>exec\<close>. A
  variable \<open>x\<close> lives in the place \<open>loc x\<close> of the store.
\<close>

section \<open>The machine\<close>

type_synonym 'v exec = "nat \<Rightarrow> 'v list \<Rightarrow> 'v list \<times> nat"

definition write_all :: "('l \<times> 'v) list \<Rightarrow> ('l \<Rightarrow> 'v) \<Rightarrow> 'l \<Rightarrow> 'v" where
  "write_all ws s = fold (\<lambda>(l, v) s. s(l := v)) ws s"

definition read_all :: "(nat \<Rightarrow> 'l) \<Rightarrow> nat list \<Rightarrow> ('l \<Rightarrow> 'v) \<Rightarrow> 'v list" where
  "read_all loc xs s = map (\<lambda>x. s (loc x)) xs"

definition run_step :: "cGraphNode list \<Rightarrow> 'v exec \<Rightarrow> (nat \<Rightarrow> 'l) \<Rightarrow> nat \<times> ('l \<Rightarrow> 'v) \<Rightarrow>
    (nat \<times> ('l \<Rightarrow> 'v)) option" where
  "run_step ns exec loc c =
     (let n = ns ! fst c; (vs, k) = exec (fst c) (read_all loc (g_use n) (snd c)) in
      if k < length (g_succ n)
      then Some (g_succ n ! k, write_all (zip (map loc (g_def n)) vs) (snd c)) else None)"

text \<open>The first \<open>k\<close> instructions that a run executes, with the values they read.\<close>

fun run :: "nat \<Rightarrow> cGraphNode list \<Rightarrow> 'v exec \<Rightarrow> (nat \<Rightarrow> 'l) \<Rightarrow> nat \<times> ('l \<Rightarrow> 'v) \<Rightarrow> (nat \<times> 'v list) list" where
  "run 0 ns exec loc c = []"
| "run (Suc k) ns exec loc c =
     (if fst c < length ns
      then (fst c, read_all loc (g_use (ns ! fst c)) (snd c)) #
           (case run_step ns exec loc c of None \<Rightarrow> [] | Some d \<Rightarrow> run k ns exec loc d)
      else [])"

definition exec_ok :: "cGraphNode list \<Rightarrow> 'v exec \<Rightarrow> bool" where
  "exec_ok ns exec \<longleftrightarrow> (\<forall>i<length ns. \<forall>us. length (fst (exec i us)) = length (g_def (ns ! i)))"

section \<open>Places that separate live variables\<close>

definition separates :: "cGraphNode list \<Rightarrow> (nat \<Rightarrow> 'l) \<Rightarrow> bool" where
  "separates ns loc \<longleftrightarrow> (\<forall>i<length ns. \<forall>x y. x \<noteq> y \<longrightarrow> live_after ns i x \<longrightarrow>
     live_after ns i y \<or> y \<in> set (g_def (ns ! i)) \<longrightarrow> loc x \<noteq> loc y)"

text \<open>The two stores agree on the variables that are live before instruction \<open>i\<close>.\<close>

definition agree :: "cGraphNode list \<Rightarrow> (nat \<Rightarrow> 'l) \<Rightarrow> nat \<Rightarrow> ('l \<Rightarrow> 'v) \<Rightarrow> (nat \<Rightarrow> 'v) \<Rightarrow> bool" where
  "agree ns loc i t s \<longleftrightarrow> (\<forall>x. live ns i x \<longrightarrow> t (loc x) = s x)"

lemma write_all_other: "l \<notin> set (map fst ws) \<Longrightarrow> write_all ws s l = s l"
  by (induction ws arbitrary: s) (auto simp: write_all_def)

lemma write_all_agree:
  assumes "\<forall>y\<in>set ds. loc y = loc x \<longrightarrow> y = x" "t (loc x) = s x \<or> (x \<in> set ds \<and> length vs = length ds)"
  shows "write_all (zip (map loc ds) vs) t (loc x) = write_all (zip ds vs) s x"
  using assms
proof (induction ds arbitrary: vs t s)
  case Nil
  then show ?case by (simp add: write_all_def)
next
  case (Cons d ds)
  show ?case
  proof (cases vs)
    case Nil
    with Cons.prems show ?thesis by (simp add: write_all_def)
  next
    case (Cons v vs')
    have eq: "loc d = loc x \<longleftrightarrow> d = x" using Cons.prems(1) by auto
    have "(t(loc d := v)) (loc x) = (s(d := v)) x \<or> (x \<in> set ds \<and> length vs' = length ds)"
      using Cons.prems(2) eq Cons by auto
    from Cons.IH [where t = "t(loc d := v)" and s = "s(d := v)", OF _ this] Cons.prems(1) show ?thesis by (simp add: Cons write_all_def fun_upd_def)
  qed
qed

lemma read_all_agree:
  assumes "agree ns loc i t s" "i < length ns"
  shows "read_all loc (g_use (ns ! i)) t = read_all (\<lambda>x. x) (g_use (ns ! i)) s"
  using assms by (auto simp: read_all_def agree_def intro: live.used)

lemma run_step_agree:
  assumes sep: "separates ns loc" and ok: "exec_ok ns exec" and i: "i < length ns"
    and ag: "agree ns loc i t s"
  shows "(run_step ns exec loc (i, t) = None \<and> run_step ns exec (\<lambda>x. x) (i, s) = None) \<or>
    (\<exists>j t' s'. run_step ns exec loc (i, t) = Some (j, t') \<and> run_step ns exec (\<lambda>x. x) (i, s) = Some (j, s') \<and>
       agree ns loc j t' s')"
proof -
  let ?n = "ns ! i"
  obtain vs k where e: "exec i (read_all (\<lambda>x. x) (g_use ?n) s) = (vs, k)" by (cases "exec i (read_all (\<lambda>x. x) (g_use ?n) s)")
  then have len: "length vs = length (g_def ?n)" using ok i unfolding exec_ok_def by (metis fst_conv)
  show ?thesis
  proof (cases "k < length (g_succ ?n)")
    case False
    with e show ?thesis by (simp add: run_step_def read_all_agree [OF ag i])
  next
    case True
    let ?j = "g_succ ?n ! k"
    let ?t = "write_all (zip (map loc (g_def ?n)) vs) t" and ?s = "write_all (zip (g_def ?n) vs) s"
    have "?t (loc x) = ?s x" if x: "live ns ?j x" for x
    proof (rule write_all_agree)
      have la: "live_after ns i x" using x True by (auto simp: live_after_def)
      show "\<forall>y\<in>set (g_def ?n). loc y = loc x \<longrightarrow> y = x" using sep i la unfolding separates_def by metis
      show "t (loc x) = s x \<or> (x \<in> set (g_def ?n) \<and> length vs = length (g_def ?n))"
      proof (cases "x \<in> set (g_def ?n)")
        case False
        with x True i have "live ns i x" by (intro live.passed [of i ns x ?j]) simp_all
        with ag show ?thesis by (simp add: agree_def)
      qed (simp add: len)
    qed
    with True e show ?thesis by (simp add: run_step_def Let_def read_all_agree [OF ag i] agree_def)
  qed
qed

lemma run_agree:
  assumes "separates ns loc" "exec_ok ns exec" "agree ns loc i t s"
  shows "run k ns exec loc (i, t) = run k ns exec (\<lambda>x. x) (i, s)"
  using assms(3)
proof (induction k arbitrary: i t s)
  case (Suc k)
  show ?case
  proof (cases "i < length ns")
    case True
    from run_step_agree [OF assms(1,2) True Suc.prems] Suc.IH show ?thesis
      by (auto simp: read_all_agree [OF Suc.prems True])
  qed simp
qed simp

section \<open>The places that the colours give\<close>

text \<open>A coloured variable lives in the register of its class and colour, any other in a place of its own.\<close>

datatype place = Own nat | Reg clsid nat

definition place_of :: "idents \<Rightarrow> nat \<Rightarrow> place" where
  "place_of J x = (case find (\<lambda>c. colorable c J x) reg_classes of
     Some c \<Rightarrow> (case m_color (ident_at J x) of Some k \<Rightarrow> Reg c k | None \<Rightarrow> Own x)
   | None \<Rightarrow> Own x)"

lemma place_of_cases:
  "place_of J x = Own x \<or> (\<exists>c k. place_of J x = Reg c k \<and> c \<in> set reg_classes \<and> colorable c J x \<and>
     m_color (ident_at J x) = Some k)"
  by (auto simp: place_of_def find_Some_iff in_set_conv_nth split: option.splits)

lemma live_in_reglist:
  "build_nodes P I b = Inr (ns, R, il) \<Longrightarrow> live ns i x \<Longrightarrow> x \<in> set R"
  using build_nodes_fresh(3) [of P I b ns R il] live_all_uses [of ns i x] by (auto simp: all_uses_def)


section \<open>A function that needs two registers\<close>

text \<open>\<open>a = 5; b = 7; c = a + b; return\<close> with \<open>a\<close>, \<open>b\<close>, \<open>c\<close> the variables 2, 3, 4.\<close>

definition sample_ids :: idents where
  "sample_ids = [blank_cIdentifier CResult, blank_cIdentifier CLane, blank_cIdentifier CInteger,
     blank_cIdentifier CInteger, blank_cIdentifier CInteger]"

definition sample_func :: program where
  "sample_func = \<lparr>p_code =
     [(createIMU IOPCODE_ADD (Some IMU_Zero) (Some (IMU_Constant 5)) (Some (IMU_Integer 2)) new_cInstruction)
        \<lparr>m_beginFunc := Some 0\<rparr>,
      createIMU IOPCODE_ADD (Some IMU_Zero) (Some (IMU_Constant 7)) (Some (IMU_Integer 3)) new_cInstruction,
      createIMU IOPCODE_ADD (Some (IMU_Integer 2)) (Some (IMU_Integer 3)) (Some (IMU_Integer 4)) new_cInstruction,
      createUnconditionalJump OPCODE_RETURN None False new_cInstruction],
     p_order = [0, 1, 2, 3], p_funcs = []\<rparr>"

definition sample_exec :: "int exec" where
  "sample_exec i us = (if i = 3 then [] else [sum_list us + int i], 0)"

definition sample_graph :: "cGraphNode list" where
  "sample_graph =
    [\<lparr>g_instruction = 0, g_use = [], g_def = [2], g_in = [], g_out = [], g_succ = [1]\<rparr>,
     \<lparr>g_instruction = 1, g_use = [], g_def = [3], g_in = [], g_out = [], g_succ = [2]\<rparr>,
     \<lparr>g_instruction = 2, g_use = [2, 3], g_def = [4], g_in = [], g_out = [], g_succ = [3]\<rparr>,
     \<lparr>g_instruction = 3, g_use = [], g_def = [], g_in = [], g_out = [], g_succ = []\<rparr>]"

lemma sample_build: "build_nodes sample_func sample_ids 0 = Inr (sample_graph, [2, 3, 4], [])"
  by code_simp

lemma sample_graph_nth:
  "length sample_graph = 4"
  "g_use (sample_graph ! 0) = []" "g_def (sample_graph ! 0) = [2]" "g_succ (sample_graph ! 0) = [1]"
  "g_use (sample_graph ! 1) = []" "g_def (sample_graph ! 1) = [3]" "g_succ (sample_graph ! 1) = [2]"
  "g_use (sample_graph ! 2) = [2, 3]" "g_def (sample_graph ! 2) = [4]" "g_succ (sample_graph ! 2) = [3]"
  "g_use (sample_graph ! 3) = []" "g_def (sample_graph ! 3) = []" "g_succ (sample_graph ! 3) = []"
  by (simp_all add: sample_graph_def)

lemma sample_dead_at_entry: "\<not> live sample_graph 0 x"
proof -
  have 3: "\<not> live sample_graph 3 x" for x
    by (rule notI, erule liveE) (simp_all add: sample_graph_nth)
  have 2: "live sample_graph 2 x \<Longrightarrow> x \<in> {2, 3}" for x
    by (erule liveE) (auto simp: sample_graph_nth 3)
  have 1: "live sample_graph 1 x \<Longrightarrow> x = 2" for x
    by (erule liveE) (use 2 in \<open>auto simp: sample_graph_nth simp del: One_nat_def\<close>)
  show ?thesis
    by (rule notI, erule liveE) (use 1 in \<open>auto simp: sample_graph_nth simp del: One_nat_def\<close>)
qed


end
