(* ===== verification/Alloc.thy ===== *)
theory Alloc
  imports RegSem FuncInfo ConstTab
begin

text \<open>
  The second half of register allocation: offsets for the colours (\<open>allocateGraph\<close>), addresses for
  the variables (\<open>allocateMem\<close>, \<open>buildFunc\<close>, \<open>SW/compiler/graph.cpp\<close>), and the table of kernel
  classes (\<open>SW/compiler/class.cpp\<close>) that gives the number of threads of a function.
\<close>

section \<open>Kernel classes\<close>

text \<open>\<open>M_list\<close>: names and numbers of threads. \<open>Find\<close> adds a class that is not there yet.\<close>

type_synonym class_list = "(string \<times> int) list"

definition cClass_Find :: "class_list \<Rightarrow> string \<Rightarrow> (int \<times> class_list) res" where
  "cClass_Find L className =
     (let scoped = strstr className ''::'' in
      if scoped \<noteq> None \<and> MAX_STRING_LEN \<le> length className then Inl Undefined
      else
        let name = (case scoped of None \<Rightarrow> className | Some p \<Rightarrow> take p className)
        in case map_of L name of
             Some n \<Rightarrow> Inr (n, L)
           | None \<Rightarrow> Inr (NUM_THREAD_PER_CORE, L @ [(name, NUM_THREAD_PER_CORE)]))"

section \<open>Offsets of the colours\<close>

datatype direction = BOT2TOP | TOP2BOT

text \<open>The loop: the colours, the next free offset, and whether the space was enough.\<close>

fun allocate_colors :: "int \<Rightarrow> bool \<Rightarrow> int \<Rightarrow> int \<Rightarrow> direction \<Rightarrow> cGraphColor list \<Rightarrow> int \<Rightarrow>
    cGraphColor list \<times> int \<times> bool" where
  "allocate_colors maxSize intOnly vw base dir [] offset = ([], offset, True)"
| "allocate_colors maxSize intOnly vw base dir (k # ks) offset =
     (if k_offset k \<ge> 0 \<or> k_vectorWidth k \<noteq> vw \<or> k_intOnly k \<noteq> intOnly
      then (let (ks', o', ok) = allocate_colors maxSize intOnly vw base dir ks offset in (k # ks', o', ok))
      else
        let newOffset = offset + k_len k in
        if newOffset > maxSize then (k # ks, offset, False)
        else
          let k' = k\<lparr>k_offset := (if dir = TOP2BOT then offset + base else base - offset)\<rparr>;
              (ks', o', ok) = allocate_colors maxSize intOnly vw base dir ks newOffset
          in (k' # ks', o', ok))"

text \<open>\<open>*_allocSize\<close> is written only when all the colours fit; the offsets given before that stay.\<close>

definition allocateGraph :: "cGraphColor list \<Rightarrow> int \<Rightarrow> int \<Rightarrow> bool \<Rightarrow> int \<Rightarrow> int \<Rightarrow> direction \<Rightarrow>
    cGraphColor list \<times> int \<times> bool" where
  "allocateGraph ks allocSize maxSize intOnly vw base dir =
     (case allocate_colors maxSize intOnly vw base dir ks allocSize of
        (ks', o', ok) \<Rightarrow> (ks', if ok then o' else allocSize, ok))"

section \<open>Addresses of the variables\<close>

definition allocate_at :: "int \<Rightarrow> nat \<Rightarrow> idents \<Rightarrow> idents res" where
  "allocate_at off x I =
     (if x < length I then res_bind (allocate off (I ! x)) (\<lambda>v. Inr (I[x := v])) else Inl NullPointer)"

text \<open>The colour that \<open>m_color\<close> points to: a colour of the variable's class.\<close>

definition color_at :: "(clsid \<times> cGraphColor list) list \<Rightarrow> idents \<Rightarrow> nat \<Rightarrow> cGraphColor option" where
  "color_at kss I x =
     (case m_color (ident_at I x) of
        None \<Rightarrow> None
      | Some k \<Rightarrow> (case find (\<lambda>c. isKindOf (ident_at I x) c) reg_classes of
            Some c \<Rightarrow> (if k < length (colors_of kss c) then Some (colors_of kss c ! k) else None)
          | None \<Rightarrow> None))"

fun alloc_ids :: "(clsid \<times> cGraphColor list) list \<Rightarrow> nat list \<Rightarrow> idents \<Rightarrow> idents res" where
  "alloc_ids kss [] I = Inr I"
| "alloc_ids kss (x # xs) I =
     (if \<not> isFixed (ident_at I x) \<and> m_color (ident_at I x) \<noteq> None
      then (case color_at kss I x of
              Some k \<Rightarrow> res_bind (allocate_at (k_offset k) x I) (alloc_ids kss xs)
            | None \<Rightarrow> Inl NullPointer)
      else alloc_ids kss xs I)"

fun allocateMem :: "(clsid \<times> cGraphColor list) list \<Rightarrow> cAstBlock \<Rightarrow> idents \<Rightarrow> idents res"
  and allocateMems :: "(clsid \<times> cGraphColor list) list \<Rightarrow> cAstBlock list \<Rightarrow> idents \<Rightarrow> idents res" where
  "allocateMem kss (AstBlock ids nodes) I =
     res_bind (case ids of Some xs \<Rightarrow> alloc_ids kss xs I | None \<Rightarrow> Inr I) (allocateMems kss nodes)"
| "allocateMems kss [] I = Inr I"
| "allocateMems kss (n # ns) I = res_bind (allocateMem kss n I) (allocateMems kss ns)"

text \<open>Variables that satisfy a condition, one after another from \<open>size\<close>.\<close>

fun alloc_seq :: "(cIdentifier \<Rightarrow> bool) \<Rightarrow> nat list \<Rightarrow> int \<times> idents \<Rightarrow> (int \<times> idents) res" where
  "alloc_seq P [] s = Inr s"
| "alloc_seq P (x # xs) s =
     (if P (ident_at (snd s) x)
      then res_bind (allocate_at (fst s) x (snd s)) (\<lambda>I. alloc_seq P xs (fst s + getLen (ident_at I x), I))
      else alloc_seq P xs s)"

text \<open>The loop over the vector widths, wide ones first.\<close>

fun alloc_widths :: "(int \<Rightarrow> cIdentifier \<Rightarrow> bool) \<Rightarrow> nat list \<Rightarrow> int list \<Rightarrow> int \<times> idents \<Rightarrow> (int \<times> idents) res" where
  "alloc_widths P xs [] s = Inr s"
| "alloc_widths P xs (v # vs) s = res_bind (alloc_seq (P v) xs s) (alloc_widths P xs vs)"

definition widths :: "int list" where "widths = [3, 2, 1, 0]"

definition round_vector :: "int \<Rightarrow> int" where
  "round_vector x = ((x + VECTOR_WIDTH - 1) div VECTOR_WIDTH) * VECTOR_WIDTH"

definition storage_param :: "clsid \<Rightarrow> int \<Rightarrow> cIdentifier \<Rightarrow> bool" where
  "storage_param c v x \<longleftrightarrow> isParameter x \<and> isKindOf x CStorage \<and> m_w x = v \<and> isKindOf x c"

section \<open>The variables of a kernel class\<close>

record CLINFO =
  ci_intSize :: int
  ci_pointerSize :: int
  ci_shareSize :: int
  ci_privateSize :: int
  ci_exregSize :: int
  ci_pointerAvail :: int
  ci_intLst :: "nat list"
  ci_pointerLst :: "nat list"

definition new_CLINFO :: CLINFO where
  "new_CLINFO = \<lparr>ci_intSize = 0, ci_pointerSize = 0, ci_shareSize = 0, ci_privateSize = 0, ci_exregSize = 0,
     ci_pointerAvail = MAX_POINTER_SIZE, ci_intLst = [], ci_pointerLst = []\<rparr>"

text \<open>Persistent scalars of the class, in integer registers and in pointer registers.\<close>

fun alloc_persistent :: "string \<Rightarrow> nat list \<Rightarrow> CLINFO \<times> idents \<Rightarrow> (CLINFO \<times> idents) res" where
  "alloc_persistent fname [] s = Inr s"
| "alloc_persistent fname (x # xs) s =
     (let ci = fst s; I = snd s; v = ident_at I x in
      if isSameContext v fname \<and> isKindOf v CFixed then
        (if isKindOf v CInteger then
           res_bind (allocate_at (ci_intSize ci) x I) (\<lambda>J. alloc_persistent fname xs
             (ci\<lparr>ci_intSize := ci_intSize ci + getLen v, ci_intLst := ci_intLst ci @ [x]\<rparr>, J))
         else if isKindOf v CPointer then
           res_bind (allocate_at (ci_pointerSize ci) x I) (\<lambda>J. alloc_persistent fname xs
             (ci\<lparr>ci_pointerSize := ci_pointerSize ci + getLen v, ci_pointerLst := ci_pointerLst ci @ [x]\<rparr>, J))
         else Inl AssertFail)
      else alloc_persistent fname xs s)"

text \<open>
  The class scope variables, when the first function of a class is built: shared variables behind
  the constants, private variables, accumulators and persistent scalars. \<open>root\<close> is the identifier
  list of the outermost block, \<open>nconst\<close> the size of the constant table.
\<close>

definition alloc_class :: "nat list \<Rightarrow> nat \<Rightarrow> string \<Rightarrow> CLINFO \<times> idents \<Rightarrow> (CLINFO \<times> idents) res" where
  "alloc_class root nconst fname s =
     (let ci = fst s; same = (\<lambda>v. isSameContext v fname) in
      res_bind (alloc_widths (\<lambda>v x. storage_param CShared v x \<and> same x) root widths
                 (round_vector (int nconst), snd s)) (\<lambda>(share, I1).
      res_bind (alloc_widths (\<lambda>v x. storage_param CPrivate v x \<and> same x) root widths
                 (ci_privateSize ci, I1)) (\<lambda>(priv, I2).
      res_bind (alloc_seq (\<lambda>x. same x \<and> isKindOf x CExReg) root (ci_exregSize ci, I2)) (\<lambda>(exreg, I3).
        alloc_persistent fname root
          (ci\<lparr>ci_shareSize := round_vector share, ci_privateSize := priv, ci_exregSize := exreg\<rparr>, I3)))))"

section \<open>Parameters of a function\<close>

text \<open>Integer parameters get the registers from the top, by the index of the parameter.\<close>

fun alloc_int_parms :: "nat list \<Rightarrow> int \<times> idents \<Rightarrow> (int \<times> idents) res" where
  "alloc_int_parms [] s = Inr s"
| "alloc_int_parms (x # xs) s =
     (let v = ident_at (snd s) x in
      if isKindOf v CInteger \<and> m_persistentIndex v \<ge> 0
      then res_bind (allocate_at (MAX_INT_SIZE - m_persistentIndex v - 1) x (snd s))
             (\<lambda>I. alloc_int_parms xs (fst s + 1, I))
      else alloc_int_parms xs s)"

text \<open>Stack parameters sit behind the private variables of the caller.\<close>

fun alloc_stack_width :: "int \<Rightarrow> int \<Rightarrow> nat list \<Rightarrow> idents \<Rightarrow> idents res" where
  "alloc_stack_width priv v [] I = Inr I"
| "alloc_stack_width priv v (x # xs) I =
     (let y = ident_at I x in
      if isStack y \<and> m_w y = v
      then res_bind (allocate_at (priv + m_pos y * lanes v) x I) (alloc_stack_width priv v xs)
      else alloc_stack_width priv v xs I)"

fun alloc_stack :: "int \<Rightarrow> int list \<Rightarrow> nat list \<Rightarrow> idents \<Rightarrow> idents res" where
  "alloc_stack priv [] xs I = Inr I"
| "alloc_stack priv (v # vs) xs I = res_bind (alloc_stack_width priv v xs I) (alloc_stack priv vs xs)"

section \<open>Integer and pointer registers\<close>

text \<open>
  When the integer registers run out, one persistent scalar of the class that is not used as an index
  moves to a pointer register.
\<close>

fun realloc_seq :: "int \<Rightarrow> nat list \<Rightarrow> idents \<Rightarrow> idents res" where
  "realloc_seq j [] I = Inr I"
| "realloc_seq j (x # xs) I = res_bind (allocate_at j x I) (realloc_seq (j + 1) xs)"

definition transfer :: "CLINFO \<Rightarrow> idents \<Rightarrow> (bool \<times> CLINFO \<times> idents) res" where
  "transfer ci I =
     (case find_index (\<lambda>x. \<not> m_useForMuIndex (ident_at I x)) (ci_intLst ci) of
        None \<Rightarrow> Inr (False, ci, I)
      | Some i \<Rightarrow>
          let x = ci_intLst ci ! i; rest = take i (ci_intLst ci) @ drop (Suc i) (ci_intLst ci) in
          res_bind (realloc_seq 0 rest I) (\<lambda>I1.
          res_bind (allocate_at (MAX_INT_SIZE + int (length (ci_pointerLst ci))) x I1) (\<lambda>I2.
            Inr (True, ci\<lparr>ci_intLst := rest, ci_pointerLst := ci_pointerLst ci @ [x],
                     ci_pointerAvail := ci_pointerAvail ci - 1, ci_intSize := ci_intSize ci - 1,
                     ci_pointerSize := ci_pointerSize ci + 1\<rparr>, I2))))"

text \<open>
  Pointers first, then the integers that may also live in pointer registers into what is left of
  them, the remaining ones into the integer registers, and last the integers that must be in
  integer registers. A pointer variable at offset \<open>o\<close> is pointer register \<open>o\<close>; an integer variable at
  offset \<open>o\<close> is integer register \<open>o\<close> below \<open>MAX_INT_SIZE\<close>, and pointer register
  \<open>o - MAX_INT_SIZE\<close> from there.
\<close>

definition alloc_registers :: "int \<Rightarrow> CLINFO \<times> cGraphColor list \<times> cGraphColor list \<times> idents \<Rightarrow>
    (CLINFO \<times> cGraphColor list \<times> cGraphColor list \<times> idents) res" where
  "alloc_registers intParmSize s =
     (case s of (ci, kp, ki, I) \<Rightarrow>
      let availPointerSize = MAX_POINTER_SIZE - ci_pointerSize ci;
          availIntSize = MAX_INT_SIZE - ci_intSize ci - intParmSize;
          base = MAX_INT_SIZE - intParmSize - 1 in
      case allocateGraph kp 0 availPointerSize False (-1) (MAX_POINTER_SIZE - 1) BOT2TOP of (kp1, ps, ok1) \<Rightarrow>
      if \<not> ok1 then Inl CompileError else
      case allocateGraph ki ps availPointerSize False (-1) (MAX_POINTER_SIZE + MAX_INT_SIZE - 1) BOT2TOP of
        (ki1, ps1, _) \<Rightarrow>
      let ci1 = ci\<lparr>ci_pointerAvail := min (ci_pointerAvail ci) (availPointerSize - ps1)\<rparr> in
      case allocateGraph ki1 0 availIntSize False (-1) base BOT2TOP of (ki2, is, ok2) \<Rightarrow>
      if \<not> ok2 then Inl CompileError else
      case allocateGraph ki2 is availIntSize True (-1) base BOT2TOP of (ki3, is1, ok3) \<Rightarrow>
      if ok3 then Inr (ci1, kp1, ki3, I)
      else if ci_pointerAvail ci1 > 0 then
        res_bind (transfer ci1 I) (\<lambda>(moved, ci2, I2).
          case allocateGraph ki3 is1 (if moved then availIntSize + 1 else availIntSize) True (-1) base BOT2TOP of
            (ki4, is2, ok4) \<Rightarrow> if ok4 then Inr (ci2, kp1, ki4, I2) else Inl CompileError)
      else Inl CompileError)"

fun alloc_private :: "int list \<Rightarrow> cGraphColor list \<times> int \<Rightarrow> (cGraphColor list \<times> int) res" where
  "alloc_private [] s = Inr s"
| "alloc_private (v # vs) s =
     (case allocateGraph (fst s) (snd s) MAX_PRIVATE_SIZE False v 0 TOP2BOT of
        (ks, sz, ok) \<Rightarrow> if ok then alloc_private vs (ks, sz) else Inl CompileError)"

section \<open>\<open>buildFunc\<close>\<close>

definition data_model :: "int \<Rightarrow> int res" where
  "data_model threads =
     (if threads = NUM_THREAD_PER_CORE then Inr 0
      else if threads = NUM_THREAD_PER_CORE div 2 then Inr 1
      else if threads = NUM_THREAD_PER_CORE div 4 then Inr 2
      else if threads = NUM_THREAD_PER_CORE div 8 then Inr 3
      else Inl CompileError)"

fun update_stack_infos :: "int \<Rightarrow> nat list \<Rightarrow> program \<Rightarrow> program res" where
  "update_stack_infos sz [] P = Inr P"
| "update_stack_infos sz (i # is) P =
     res_bind (updateStackInfo sz (instr_at P i)) (\<lambda>(_, ins). update_stack_infos sz is (upd_instr i (\<lambda>_. ins) P))"

text \<open>
  What the functions share: the program, the identifiers, the kernel classes and what is allocated
  for each of them so far.
\<close>

record build_state =
  bs_prog :: program
  bs_ids :: idents
  bs_list :: class_list
  bs_info :: "string \<Rightarrow> CLINFO option"

text \<open>The variables get their addresses from the coloured graph \<open>kss\<close> of the function \<open>f\<close>.\<close>

definition place_variables :: "cFuncNode \<Rightarrow> int \<Rightarrow> int \<Rightarrow> int \<Rightarrow>
    CLINFO \<times> (clsid \<times> cGraphColor list) list \<times> idents \<Rightarrow> (CLINFO \<times> int \<times> idents) res" where
  "place_variables f intParmSize privateSize exregSize s =
     (case s of (ci, kss, I) \<Rightarrow>
      res_bind (alloc_registers intParmSize (ci, colors_of kss CPointer, colors_of kss CInteger, I))
        (\<lambda>(ci1, kp, ki, I1).
      res_bind (alloc_private widths (colors_of kss CPrivate, round_vector privateSize)) (\<lambda>(kv, sz).
      case allocateGraph (colors_of kss CExReg) exregSize MAX_EXREG_SIZE False VECTOR_DEPTH 0 TOP2BOT of
        (kx, _, okx) \<Rightarrow>
      if \<not> okx then Inl CompileError
      else res_bind (allocateMem [(CPointer, kp), (CInteger, ki), (CPrivate, kv), (CShared, colors_of kss CShared),
                                  (CExReg, kx)] (fn_block f) I1) (\<lambda>I2.
        Inr (ci1, round_vector sz, I2)))))"

definition begin_func :: "program \<Rightarrow> nat \<Rightarrow> cFuncNode res" where
  "begin_func P b =
     (case m_beginFunc (instr_at P b) of
        None \<Rightarrow> Inl AssertFail
      | Some f \<Rightarrow> if f < length (p_funcs P) then Inr (p_funcs P ! f) else Inl NullPointer)"

text \<open>What \<open>buildFunc\<close> finds out first: the function, its class, its threads and data model, and its graph.\<close>

definition build_prepare :: "nat \<Rightarrow> build_state \<Rightarrow>
    (cFuncNode \<times> string \<times> int \<times> class_list \<times> int \<times> cGraphNode list \<times> nat list \<times> nat list) res" where
  "build_prepare b S =
     (let P = bs_prog S in
      res_bind (begin_func P b) (\<lambda>f.
      res_bind (GetFunctionClassName P b) (\<lambda>cn.
      res_bind (deref (getLabel (instr_at P b))) (\<lambda>lbl.
      res_bind (cClass_Find (bs_list S) lbl) (\<lambda>(threads, L).
      res_bind (data_model threads) (\<lambda>dm.
      res_bind (build_nodes P (bs_ids S) b) (\<lambda>g. Inr (f, cn, threads, L, dm, g))))))))"

text \<open>Then the class variables, unless the class is known, and the parameters.\<close>

definition build_params :: "nat list \<Rightarrow> nat \<Rightarrow> cFuncNode \<Rightarrow> CLINFO option \<Rightarrow> idents \<Rightarrow>
    (CLINFO \<times> int \<times> int \<times> idents) res" where
  "build_params root nconst f info I =
     res_bind (case info of Some ci \<Rightarrow> Inr (ci, I)
               | None \<Rightarrow> alloc_class root nconst (fn_name f) (new_CLINFO, I)) (\<lambda>(ci, I1).
     res_bind (alloc_widths (storage_param CPrivate) (fn_ids f) widths
                (round_vector (ci_privateSize ci), I1)) (\<lambda>(priv, I2).
     res_bind (alloc_int_parms (fn_ids f) (0, I2)) (\<lambda>(parms, I3).
     if parms > int MAX_IREGISTER_AUTO_SIZE then Inl CompileError
     else Inr (ci, priv, parms, I3))))"

text \<open>Last, addresses for the coloured variables, the call stack, and the check of the memory.\<close>

definition build_place :: "nat \<Rightarrow> build_state \<Rightarrow> cFuncNode \<Rightarrow> string \<Rightarrow> int \<Rightarrow> class_list \<Rightarrow> int \<Rightarrow> int \<Rightarrow> int \<Rightarrow>
    CLINFO \<times> (clsid \<times> cGraphColor list) list \<times> idents \<Rightarrow> build_state res" where
  "build_place b S f cn threads L dm priv parms s =
     (let P = bs_prog S in
      res_bind (place_variables f parms priv (ci_exregSize (fst s)) s) (\<lambda>(ci, priv2, I).
      res_bind (update_stack_infos priv2 (func_instrs P b)
                 (upd_instr b (\<lambda>ins. ins\<lparr>m_maxNumThreads := threads, m_dataModel := dm\<rparr>) P)) (\<lambda>P2.
      res_bind (alloc_stack priv2 widths (fn_ids f) I) (\<lambda>I2.
      if threads * round_vector priv2 + round_vector (ci_shareSize ci) > 2 ^ REGISTER_ACTUAL_FILE_DEPTH
      then Inl CompileError
      else Inr \<lparr>bs_prog = P2, bs_ids = I2, bs_list = L, bs_info = (bs_info S)(cn \<mapsto> ci)\<rparr>))))"

definition buildFunc :: "nat list \<Rightarrow> nat \<Rightarrow> nat \<Rightarrow> build_state \<Rightarrow> build_state res option" where
  "buildFunc root nconst b S =
     (case build_prepare b S of
        Inl e \<Rightarrow> Some (Inl e)
      | Inr (f, cn, threads, L, dm, ns, R, il) \<Rightarrow>
          (case liveness ns of
             None \<Rightarrow> None
           | Some ms \<Rightarrow>
               (case build_params root nconst f (bs_info S cn) (bs_ids S) of
                  Inl e \<Rightarrow> Some (Inl e)
                | Inr (ci, priv, parms, I) \<Rightarrow>
                    (case color_classes reg_classes il (edges ms R) R I of
                       None \<Rightarrow> None
                     | Some (Inl e) \<Rightarrow> Some (Inl e)
                     | Some (Inr (kss, J)) \<Rightarrow>
                         Some (build_place b S f cn threads L dm priv parms (ci, kss, J))))))"

text \<open>\<open>Build\<close>: every function of the program, in program order.\<close>

fun build_all :: "nat list \<Rightarrow> nat \<Rightarrow> nat list \<Rightarrow> build_state \<Rightarrow> build_state res option" where
  "build_all root nconst [] S = Some (Inr S)"
| "build_all root nconst (i # is) S =
     (if m_beginFunc (instr_at (bs_prog S) i) \<noteq> None
      then (case buildFunc root nconst i S of
              None \<Rightarrow> None | Some (Inl e) \<Rightarrow> Some (Inl e) | Some (Inr S') \<Rightarrow> build_all root nconst is S')
      else build_all root nconst is S)"

definition Build :: "nat list \<Rightarrow> nat \<Rightarrow> build_state \<Rightarrow> build_state res option" where
  "Build root nconst S = build_all root nconst (p_order (bs_prog S)) S"

section \<open>Offsets do not collide\<close>

definition eligible :: "bool \<Rightarrow> int \<Rightarrow> cGraphColor \<Rightarrow> bool" where
  "eligible intOnly vw k \<longleftrightarrow> k_offset k < 0 \<and> k_vectorWidth k = vw \<and> k_intOnly k = intOnly"

text \<open>The place of a colour counted from where the space begins.\<close>

definition place_in :: "int \<Rightarrow> direction \<Rightarrow> cGraphColor \<Rightarrow> int" where
  "place_in base dir k = (if dir = TOP2BOT then k_offset k - base else base - k_offset k)"

lemma place_in_set [simp]:
  "place_in base dir (k\<lparr>k_offset := (if dir = TOP2BOT then off + base else base - off)\<rparr>) = off"
  "place_in base dir (k\<lparr>k_offset := (if dir = TOP2BOT then off + base else base - off), k_flag := fl\<rparr>) = off"
  by (simp_all add: place_in_def)

text \<open>
  What the loop does: the colours at the positions \<open>A\<close> get disjoint stretches between the first and
  the last free offset, in order, all others stay; \<open>A\<close> is everything eligible when the space is enough.
\<close>

definition laid_out :: "int \<Rightarrow> direction \<Rightarrow> nat set \<Rightarrow> int \<Rightarrow> int \<Rightarrow> cGraphColor list \<Rightarrow> cGraphColor list \<Rightarrow> bool" where
  "laid_out base dir A lo hi ks ks' \<longleftrightarrow> length ks' = length ks \<and>
     (\<forall>i<length ks. ks' ! i = (ks ! i)\<lparr>k_offset := k_offset (ks' ! i)\<rparr> \<and>
        (i \<notin> A \<longrightarrow> k_offset (ks' ! i) = k_offset (ks ! i)) \<and>
        (i \<in> A \<longrightarrow> lo \<le> place_in base dir (ks' ! i) \<and> place_in base dir (ks' ! i) + k_len (ks ! i) \<le> hi)) \<and>
     (\<forall>i j. i < j \<longrightarrow> j < length ks \<longrightarrow> i \<in> A \<longrightarrow> j \<in> A \<longrightarrow>
        place_in base dir (ks' ! i) + k_len (ks ! i) \<le> place_in base dir (ks' ! j))"

lemma laid_out_Cons_skip:
  assumes "laid_out base dir A lo hi ks ks'"
  shows "laid_out base dir (Suc ` A) lo hi (k # ks) (k # ks')"
proof -
  have "(j \<in> Suc ` A) \<longleftrightarrow> (\<exists>i. j = Suc i \<and> i \<in> A)" for j by auto
  then show ?thesis
    using assms unfolding laid_out_def
    by (auto simp: nth_Cons split: nat.splits)
qed

lemma laid_out_Cons_take:
  assumes "laid_out base dir A (lo + k_len k) hi ks ks'" "place_in base dir k' = lo" "k' = k\<lparr>k_offset := k_offset k'\<rparr>"
    "0 \<le> k_len k" "lo + k_len k \<le> hi"
  shows "laid_out base dir (insert 0 (Suc ` A)) lo hi (k # ks) (k' # ks')"
  using assms unfolding laid_out_def
  by (auto simp: nth_Cons split: nat.splits)

lemma allocate_colors_spec:
  assumes "allocate_colors mx io vw base dir ks off = (ks', o', ok)" "\<forall>k\<in>set ks. 0 \<le> k_len k" "off \<le> mx"
  shows "\<exists>A\<subseteq>{i. i < length ks \<and> eligible io vw (ks ! i)}. laid_out base dir A off o' ks ks' \<and> off \<le> o' \<and> o' \<le> mx \<and>
    (ok \<longrightarrow> A = {i. i < length ks \<and> eligible io vw (ks ! i)})"
  using assms
proof (induction ks arbitrary: off ks' o' ok)
  case Nil
  then show ?case by (auto simp: laid_out_def)
next
  case (Cons k ks)
  let ?E = "\<lambda>ks. {i. i < length ks \<and> eligible io vw (ks ! i)}"
  have E: "?E (k # ks) = (if eligible io vw k then insert 0 (Suc ` ?E ks) else Suc ` ?E ks)"
  proof (rule set_eqI)
    fix x show "x \<in> ?E (k # ks) \<longleftrightarrow> x \<in> (if eligible io vw k then insert 0 (Suc ` ?E ks) else Suc ` ?E ks)"
      by (cases x) auto
  qed
  show ?case
  proof (cases "eligible io vw k")
    case False
    then have sk: "k_offset k \<ge> 0 \<or> k_vectorWidth k \<noteq> vw \<or> k_intOnly k \<noteq> io" by (auto simp: eligible_def)
    obtain ks1 o1 ok1 where r: "allocate_colors mx io vw base dir ks off = (ks1, o1, ok1)" by (metis prod_cases3)
    with Cons.prems(1) sk have eq: "ks' = k # ks1" "o' = o1" "ok = ok1" by simp_all
    from Cons.IH [OF r] Cons.prems(2,3) obtain A where
      A: "A \<subseteq> ?E ks" "laid_out base dir A off o1 ks ks1" "off \<le> o1" "o1 \<le> mx" "ok1 \<longrightarrow> A = ?E ks" by auto
    have "Suc ` A \<subseteq> ?E (k # ks)" "ok \<longrightarrow> Suc ` A = ?E (k # ks)" using A(1,5) E False eq by auto
    with laid_out_Cons_skip [OF A(2), of k] A(3,4) eq show ?thesis by blast
  next
    case True
    then have nsk: "\<not> (k_offset k \<ge> 0 \<or> k_vectorWidth k \<noteq> vw \<or> k_intOnly k \<noteq> io)" by (auto simp: eligible_def)
    show ?thesis
    proof (cases "off + k_len k > mx")
      case True
      with Cons.prems(1) nsk have eq: "ks' = k # ks" "o' = off" "\<not> ok" by (auto simp: Let_def)
      have "laid_out base dir {} off off (k # ks) (k # ks)" by (simp add: laid_out_def)
      with eq Cons.prems(3) show ?thesis by blast
    next
      case fits: False
      let ?k = "k\<lparr>k_offset := (if dir = TOP2BOT then off + base else base - off)\<rparr>"
      obtain ks1 o1 ok1 where r: "allocate_colors mx io vw base dir ks (off + k_len k) = (ks1, o1, ok1)" by (metis prod_cases3)
      with Cons.prems(1) nsk fits have eq: "ks' = ?k # ks1" "o' = o1" "ok = ok1" by (simp_all add: Let_def)
      from Cons.IH [OF r] Cons.prems(2) fits obtain A where
        A: "A \<subseteq> ?E ks" "laid_out base dir A (off + k_len k) o1 ks ks1" "off + k_len k \<le> o1" "o1 \<le> mx"
        "ok1 \<longrightarrow> A = ?E ks" by auto
      have "0 \<le> k_len k" using Cons.prems(2) by simp
      from laid_out_Cons_take [OF A(2) place_in_set(1) _ this A(3)]
      have "laid_out base dir (insert 0 (Suc ` A)) off o1 (k # ks) (?k # ks1)" by simp
      moreover have "insert 0 (Suc ` A) \<subseteq> ?E (k # ks)" "ok \<longrightarrow> insert 0 (Suc ` A) = ?E (k # ks)"
        using A(1,5) E True eq by auto
      ultimately show ?thesis using A(3,4) eq \<open>0 \<le> k_len k\<close> by (intro exI [of _ "insert 0 (Suc ` A)"]) auto
    qed
  qed
qed

text \<open>
  \<open>allocateGraph\<close> gives the colours it places disjoint stretches of the space between the old and
  the new allocation size, never beyond the limit, and touches no other colour. When it reports
  success every colour of the kind asked for has its place and the size grows to the end of the last
  one; when it fails the size is unchanged.
\<close>

theorem allocateGraph_disjoint:
  assumes "allocateGraph ks sz mx io vw base dir = (ks', sz', ok)" and "\<forall>k\<in>set ks. 0 \<le> k_len k" and "sz \<le> mx"
  shows "\<exists>A\<subseteq>{i. i < length ks \<and> eligible io vw (ks ! i)}. \<exists>hi\<le>mx. laid_out base dir A sz hi ks ks' \<and>
    (if ok then A = {i. i < length ks \<and> eligible io vw (ks ! i)} \<and> sz' = hi else sz' = sz)"
proof -
  obtain o' where a: "allocate_colors mx io vw base dir ks sz = (ks', o', ok)" "sz' = (if ok then o' else sz)"
    using assms(1) by (auto simp: allocateGraph_def split: prod.splits)
  from allocate_colors_spec [OF a(1) assms(2,3)] a(2) show ?thesis by auto
qed

theorem allocateGraph_disjoint_witness:
  "\<exists>ks'. allocateGraph [new_cGraphColor\<lparr>k_len := 8, k_vectorWidth := 3\<rparr>, new_cGraphColor\<lparr>k_len := 16, k_vectorWidth := 3\<rparr>]
     8 256 False 3 0 TOP2BOT = (ks', 32, True) \<and>
   (\<exists>A. laid_out 0 TOP2BOT A 8 32 [new_cGraphColor\<lparr>k_len := 8, k_vectorWidth := 3\<rparr>, new_cGraphColor\<lparr>k_len := 16, k_vectorWidth := 3\<rparr>] ks')"
proof -
  let ?ks = "[new_cGraphColor\<lparr>k_len := 8, k_vectorWidth := 3\<rparr>, new_cGraphColor\<lparr>k_len := 16, k_vectorWidth := 3\<rparr>]"
  obtain ks' where e: "allocateGraph ?ks 8 256 False 3 0 TOP2BOT = (ks', 32, True)"
    by (simp add: allocateGraph_def new_cGraphColor_def)
  from allocateGraph_disjoint [OF e] show ?thesis using e by (auto simp: new_cGraphColor_def)
qed

section \<open>Integer and pointer registers do not collide\<close>

text \<open>With colours of one word the outcome depends on the number of colours only.\<close>

definition count_eligible :: "bool \<Rightarrow> int \<Rightarrow> cGraphColor list \<Rightarrow> int" where
  "count_eligible io vw ks = int (length (filter (eligible io vw) ks))"

lemma allocate_colors_unit:
  assumes "allocate_colors mx io vw base BOT2TOP ks off = (ks', o', ok)" "\<forall>k\<in>set ks. k_len k = 1"
    and "off \<le> mx" "mx \<le> base + 1"
  shows "(ok \<longleftrightarrow> off + count_eligible io vw ks \<le> mx) \<and> o' = min (off + count_eligible io vw ks) mx \<and>
    count_eligible io vw ks' = count_eligible io vw ks - (o' - off) \<and>
    (io' \<noteq> io \<longrightarrow> count_eligible io' vw ks' = count_eligible io' vw ks)"
  using assms
proof (induction ks arbitrary: off ks' o' ok)
  case (Cons k ks)
  show ?case
  proof (cases "eligible io vw k")
    case False
    then have sk: "k_offset k \<ge> 0 \<or> k_vectorWidth k \<noteq> vw \<or> k_intOnly k \<noteq> io" by (auto simp: eligible_def)
    obtain ks1 o1 ok1 where r: "allocate_colors mx io vw base BOT2TOP ks off = (ks1, o1, ok1)" by (metis prod_cases3)
    with Cons.prems(1) sk have eq: "ks' = k # ks1" "o' = o1" "ok = ok1" by simp_all
    with Cons.IH [OF r] Cons.prems(2-4) False show ?thesis by (auto simp: count_eligible_def)
  next
    case el: True
    then have nsk: "\<not> (k_offset k \<ge> 0 \<or> k_vectorWidth k \<noteq> vw \<or> k_intOnly k \<noteq> io)" by (auto simp: eligible_def)
    have len: "k_len k = 1" using Cons.prems(2) by simp
    show ?thesis
    proof (cases "off + 1 > mx")
      case True
      with Cons.prems(1) nsk len have "ks' = k # ks" "o' = off" "\<not> ok" by (auto simp: Let_def)
      with el True Cons.prems(3) show ?thesis by (auto simp: count_eligible_def)
    next
      case fits: False
      let ?k = "k\<lparr>k_offset := base - off\<rparr>"
      obtain ks1 o1 ok1 where r: "allocate_colors mx io vw base BOT2TOP ks (off + 1) = (ks1, o1, ok1)" by (metis prod_cases3)
      with Cons.prems(1) nsk fits len have eq: "ks' = ?k # ks1" "o' = o1" "ok = ok1" by (simp_all add: Let_def)
      have ne: "\<not> eligible b vw ?k" for b using fits Cons.prems(4) by (simp add: eligible_def)
      have nk: "io' \<noteq> io \<Longrightarrow> \<not> eligible io' vw k" using el by (simp add: eligible_def)
      from Cons.IH [OF r] Cons.prems(2,4) fits el eq ne nk show ?thesis by (auto simp: count_eligible_def)
    qed
  qed
qed (auto simp: count_eligible_def)

text \<open>The colours as \<open>colorGraph\<close> leaves them: one word each, and no offset yet.\<close>

definition fresh_scalars :: "cGraphColor list \<Rightarrow> bool" where
  "fresh_scalars ks \<longleftrightarrow> (\<forall>k\<in>set ks. k_offset k = -1 \<and> k_len k = 1 \<and> k_vectorWidth k = -1)"

text \<open>The integer registers that a function needs: all index integers, and what the pointer registers do not take.\<close>

definition int_demand :: "CLINFO \<Rightarrow> cGraphColor list \<Rightarrow> cGraphColor list \<Rightarrow> int" where
  "int_demand ci kp ki =
     int (length (filter k_intOnly ki)) +
     max 0 (int (length (filter (\<lambda>k. \<not> k_intOnly k) ki)) - (MAX_POINTER_SIZE - ci_pointerSize ci - int (length kp)))"

lemma laid_outD:
  assumes "laid_out base dir A lo hi ks ks'"
  shows "length ks' = length ks"
    and "i < length ks \<Longrightarrow> k_len (ks' ! i) = k_len (ks ! i) \<and> k_vectorWidth (ks' ! i) = k_vectorWidth (ks ! i) \<and>
           k_intOnly (ks' ! i) = k_intOnly (ks ! i)"
    and "i < length ks \<Longrightarrow> i \<notin> A \<Longrightarrow> k_offset (ks' ! i) = k_offset (ks ! i)"
    and "i < length ks \<Longrightarrow> i \<in> A \<Longrightarrow> lo \<le> place_in base dir (ks' ! i) \<and> place_in base dir (ks' ! i) + k_len (ks ! i) \<le> hi"
    and "i < j \<Longrightarrow> j < length ks \<Longrightarrow> i \<in> A \<Longrightarrow> j \<in> A \<Longrightarrow>
           place_in base dir (ks' ! i) + k_len (ks ! i) \<le> place_in base dir (ks' ! j)"
proof -
  show "length ks' = length ks" using assms by (simp add: laid_out_def)
  show "i < length ks \<Longrightarrow> k_len (ks' ! i) = k_len (ks ! i) \<and> k_vectorWidth (ks' ! i) = k_vectorWidth (ks ! i) \<and>
           k_intOnly (ks' ! i) = k_intOnly (ks ! i)"
  proof -
    assume "i < length ks"
    with assms have "ks' ! i = (ks ! i)\<lparr>k_offset := k_offset (ks' ! i)\<rparr>" unfolding laid_out_def by blast
    then show ?thesis by (metis cGraphColor.select_convs(2,4,5) cGraphColor.surjective cGraphColor.update_convs(1))
  qed
  show "i < length ks \<Longrightarrow> i \<notin> A \<Longrightarrow> k_offset (ks' ! i) = k_offset (ks ! i)" using assms by (simp add: laid_out_def)
  show "i < length ks \<Longrightarrow> i \<in> A \<Longrightarrow> lo \<le> place_in base dir (ks' ! i) \<and> place_in base dir (ks' ! i) + k_len (ks ! i) \<le> hi"
    using assms by (simp add: laid_out_def)
  show "i < j \<Longrightarrow> j < length ks \<Longrightarrow> i \<in> A \<Longrightarrow> j \<in> A \<Longrightarrow>
           place_in base dir (ks' ! i) + k_len (ks ! i) \<le> place_in base dir (ks' ! j)"
    using assms by (simp add: laid_out_def)
qed

definition unit_out :: "bool \<Rightarrow> int \<Rightarrow> int \<Rightarrow> int \<Rightarrow> cGraphColor list \<Rightarrow> cGraphColor list \<Rightarrow> int \<Rightarrow> bool \<Rightarrow> nat set \<Rightarrow> bool" where
  "unit_out io base mx sz ks ks' sz' ok A \<longleftrightarrow>
    A \<subseteq> {i. i < length ks \<and> k_offset (ks ! i) < 0 \<and> k_intOnly (ks ! i) = io} \<and>
    length ks' = length ks \<and> (\<forall>i<length ks. k_intOnly (ks' ! i) = k_intOnly (ks ! i) \<and>
       (i \<notin> A \<longrightarrow> k_offset (ks' ! i) = k_offset (ks ! i))) \<and>
    (\<forall>i\<in>A. base - mx < k_offset (ks' ! i) \<and> k_offset (ks' ! i) \<le> base - sz \<and>
       (ok \<longrightarrow> base - sz' < k_offset (ks' ! i))) \<and>
    (\<forall>i j. i \<in> A \<longrightarrow> j \<in> A \<longrightarrow> i \<noteq> j \<longrightarrow> k_offset (ks' ! i) \<noteq> k_offset (ks' ! j)) \<and>
    (\<forall>k\<in>set ks'. k_len k = 1 \<and> k_vectorWidth k = -1) \<and>
    (ok \<longleftrightarrow> sz + count_eligible io (-1) ks \<le> mx) \<and>
    (if ok then A = {i. i < length ks \<and> k_offset (ks ! i) < 0 \<and> k_intOnly (ks ! i) = io} \<and>
       sz' = sz + count_eligible io (-1) ks else sz' = sz) \<and>
    count_eligible io (-1) ks' = count_eligible io (-1) ks - (min (sz + count_eligible io (-1) ks) mx - sz) \<and>
    count_eligible (\<not> io) (-1) ks' = count_eligible (\<not> io) (-1) ks"

lemma unit_outD:
  assumes "unit_out io base mx sz ks ks' sz' ok A"
  shows "i \<in> A \<Longrightarrow> i < length ks \<and> k_offset (ks ! i) < 0 \<and> k_intOnly (ks ! i) = io"
    and "length ks' = length ks"
    and "i < length ks \<Longrightarrow> k_intOnly (ks' ! i) = k_intOnly (ks ! i)"
    and "i < length ks \<Longrightarrow> i \<notin> A \<Longrightarrow> k_offset (ks' ! i) = k_offset (ks ! i)"
    and "i \<in> A \<Longrightarrow> base - mx < k_offset (ks' ! i) \<and> k_offset (ks' ! i) \<le> base - sz"
    and "ok \<Longrightarrow> i \<in> A \<Longrightarrow> base - sz' < k_offset (ks' ! i)"
    and "i \<in> A \<Longrightarrow> j \<in> A \<Longrightarrow> i \<noteq> j \<Longrightarrow> k_offset (ks' ! i) \<noteq> k_offset (ks' ! j)"
    and "\<forall>k\<in>set ks'. k_len k = 1 \<and> k_vectorWidth k = -1"
    and "ok \<longleftrightarrow> sz + count_eligible io (-1) ks \<le> mx"
    and "ok \<Longrightarrow> i \<in> A \<longleftrightarrow> i < length ks \<and> k_offset (ks ! i) < 0 \<and> k_intOnly (ks ! i) = io"
    and "ok \<Longrightarrow> sz' = sz + count_eligible io (-1) ks"
    and "count_eligible io (-1) ks' = count_eligible io (-1) ks - (min (sz + count_eligible io (-1) ks) mx - sz)"
    and "count_eligible (\<not> io) (-1) ks' = count_eligible (\<not> io) (-1) ks"
  using assms unfolding unit_out_def by (auto split: if_splits)

lemma unit_step:
  assumes a: "allocateGraph ks sz mx io (-1) base BOT2TOP = (ks', sz', ok)"
    and u: "\<forall>k\<in>set ks. k_len k = 1 \<and> k_vectorWidth k = -1" and b: "sz \<le> mx" "mx \<le> base + 1"
  shows "\<exists>A. unit_out io base mx sz ks ks' sz' ok A"
proof -
  obtain o' where ac: "allocate_colors mx io (-1) base BOT2TOP ks sz = (ks', o', ok)" "sz' = (if ok then o' else sz)"
    using a by (auto simp: allocateGraph_def split: prod.splits)
  have u1: "\<forall>k\<in>set ks. k_len k = 1" "\<forall>k\<in>set ks. 0 \<le> k_len k" using u by auto
  note un = allocate_colors_unit [OF ac(1) u1(1) b]
  have el: "{i. i < length ks \<and> eligible io (-1) (ks ! i)} = {i. i < length ks \<and> k_offset (ks ! i) < 0 \<and> k_intOnly (ks ! i) = io}"
    using u by (auto simp: eligible_def dest: nth_mem)
  from allocate_colors_spec [OF ac(1) u1(2) b(1)] obtain A where
    A: "A \<subseteq> {i. i < length ks \<and> k_offset (ks ! i) < 0 \<and> k_intOnly (ks ! i) = io}"
    "laid_out base BOT2TOP A sz o' ks ks'" "o' \<le> mx"
    "ok \<longrightarrow> A = {i. i < length ks \<and> k_offset (ks ! i) < 0 \<and> k_intOnly (ks ! i) = io}"
    unfolding el by blast
  note L = laid_outD [OF A(2)]
  have len1: "k_len (ks ! i) = 1" if "i < length ks" for i using u that by simp
  have pos: "sz \<le> base - k_offset (ks' ! i)" "base - k_offset (ks' ! i) + 1 \<le> o'" if "i \<in> A" for i
  proof -
    have i: "i < length ks" using A(1) that by auto
    show "sz \<le> base - k_offset (ks' ! i)" "base - k_offset (ks' ! i) + 1 \<le> o'"
      using L(4) [OF i that] len1 [OF i] by (simp_all add: place_in_def)
  qed
  have diff: "k_offset (ks' ! i) \<noteq> k_offset (ks' ! j)" if "i < j" "i \<in> A" "j \<in> A" for i j
  proof -
    have "j < length ks" using A(1) that by auto
    with that L(5) [of i j] len1 [of i] show ?thesis by (simp add: place_in_def)
  qed
  show ?thesis
    unfolding unit_out_def
  proof (rule exI [of _ A], intro conjI allI impI ballI)
    fix i j assume "i \<in> A" "j \<in> A" "i \<noteq> j"
    with diff [of i j] diff [of j i] show "k_offset (ks' ! i) \<noteq> k_offset (ks' ! j)"
      by (cases "i < j") auto
  next
    fix k assume "k \<in> set ks'"
    then obtain i where i: "i < length ks" "k = ks' ! i" using L(1) by (auto simp: in_set_conv_nth)
    with L(2) [OF i(1)] u show "k_len k = 1" "k_vectorWidth k = -1" by auto
  next
    show "ok = (sz + count_eligible io (- 1) ks \<le> mx)" using un by simp
    show "if ok then A = {i. i < length ks \<and> k_offset (ks ! i) < 0 \<and> k_intOnly (ks ! i) = io} \<and>
       sz' = sz + count_eligible io (-1) ks else sz' = sz" using un A(4) ac(2) by auto
    show "count_eligible io (-1) ks' = count_eligible io (-1) ks - (min (sz + count_eligible io (-1) ks) mx - sz)"
      using un by simp
    show "count_eligible (\<not> io) (-1) ks' = count_eligible (\<not> io) (-1) ks" using un by auto
  qed (use A(1,3) L(1-3) pos ac(2) in \<open>auto, fastforce+\<close>)
qed

lemma count_fresh:
  "fresh_scalars ks \<Longrightarrow> count_eligible io (-1) ks = int (length (filter (\<lambda>k. k_intOnly k = io) ks))"
proof -
  assume "fresh_scalars ks"
  then have "filter (eligible io (-1)) ks = filter (\<lambda>k. k_intOnly k = io) ks"
    by (intro filter_cong) (auto simp: fresh_scalars_def eligible_def)
  then show ?thesis by (simp add: count_eligible_def)
qed

text \<open>Where an integer may live, and what the colours of both kinds must satisfy together.\<close>

definition registers_ok :: "CLINFO \<Rightarrow> int \<Rightarrow> cGraphColor list \<Rightarrow> cGraphColor list \<Rightarrow> bool" where
  "registers_ok ci parms kp ki \<longleftrightarrow>
     (\<forall>k\<in>set kp. ci_pointerSize ci \<le> k_offset k \<and> k_offset k < MAX_POINTER_SIZE) \<and>
     (\<forall>k\<in>set ki. (ci_intSize ci \<le> k_offset k \<and> k_offset k < MAX_INT_SIZE - parms) \<or>
        (\<not> k_intOnly k \<and> MAX_INT_SIZE + ci_pointerSize ci \<le> k_offset k \<and>
         k_offset k < MAX_INT_SIZE + MAX_POINTER_SIZE)) \<and>
     distinct (map (\<lambda>k. MAX_INT_SIZE + k_offset k) kp @ map k_offset ki)"

lemma distinct_nth_map: "(\<And>i j. i < j \<Longrightarrow> j < length xs \<Longrightarrow> f (xs ! i) \<noteq> f (xs ! j)) \<Longrightarrow> distinct (map f xs)"
proof -
  assume a: "\<And>i j. i < j \<Longrightarrow> j < length xs \<Longrightarrow> f (xs ! i) \<noteq> f (xs ! j)"
  have "f (xs ! i) \<noteq> f (xs ! j)" if "i < length xs" "j < length xs" "i \<noteq> j" for i j
    using a [of i j] a [of j i] that by (cases "i < j") (auto simp: nat_neq_iff)
  then show ?thesis by (simp add: distinct_conv_nth)
qed

lemma alloc_registers_ok:
  assumes run: "alloc_registers parms (ci, kp, ki, I) = Inr (ci', kp', ki', I')"
    and fresh: "fresh_scalars kp" "fresh_scalars ki" "\<forall>k\<in>set kp. \<not> k_intOnly k"
    and b: "0 \<le> ci_pointerSize ci" "ci_pointerSize ci \<le> MAX_POINTER_SIZE" "0 \<le> ci_intSize ci" "0 \<le> parms"
      "ci_intSize ci + parms \<le> MAX_INT_SIZE"
    and dem: "int_demand ci kp ki \<le> MAX_INT_SIZE - ci_intSize ci - parms"
  shows "I' = I \<and> length kp' = length kp \<and> length ki' = length ki \<and> registers_ok ci parms kp' ki'"
proof -
  define avP where "avP = MAX_POINTER_SIZE - ci_pointerSize ci"
  define avI where "avI = MAX_INT_SIZE - ci_intSize ci - parms"
  define base where "base = MAX_INT_SIZE - parms - 1"
  have av: "0 \<le> avP" "avP \<le> 4" "0 \<le> avI" "avI \<le> base + 1" using b by (simp_all add: avP_def avI_def base_def)
  obtain kp1 ps ok1 where s1: "allocateGraph kp 0 avP False (-1) 3 BOT2TOP = (kp1, ps, ok1)" by (metis prod_cases3)
  obtain ki1 ps1 ok2 where s2: "allocateGraph ki ps avP False (-1) 7 BOT2TOP = (ki1, ps1, ok2)" by (metis prod_cases3)
  obtain ki2 sz ok3 where s3: "allocateGraph ki1 0 avI False (-1) base BOT2TOP = (ki2, sz, ok3)" by (metis prod_cases3)
  obtain ki3 sz1 ok4 where s4: "allocateGraph ki2 sz avI True (-1) base BOT2TOP = (ki3, sz1, ok4)" by (metis prod_cases3)
  note S = s1 s2 s3 s4
  let ?ci = "ci\<lparr>ci_pointerAvail := min (ci_pointerAvail ci) (avP - ps1)\<rparr>"
  have ok13: "ok1" "ok3" and res: "if ok4 then (ci', kp', ki', I') = (?ci, kp1, ki3, I) else \<not> ok4"
    using run unfolding alloc_registers_def
    by (auto simp: Let_def S [unfolded avP_def avI_def base_def, simplified] avP_def split: if_splits)
  have u: "\<forall>k\<in>set kp. k_len k = 1 \<and> k_vectorWidth k = -1" "\<forall>k\<in>set ki. k_len k = 1 \<and> k_vectorWidth k = -1"
    using fresh by (simp_all add: fresh_scalars_def)
  have f0: "k_offset (kp ! i) = -1" "\<not> k_intOnly (kp ! i)" if "i < length kp" for i
    using fresh that by (simp_all add: fresh_scalars_def)
  have g0: "k_offset (ki ! i) = -1" if "i < length ki" for i
    using fresh that by (simp add: fresh_scalars_def)
  from unit_step [OF s1 u(1)] av obtain A1 where U1: "unit_out False 3 avP 0 kp kp1 ps ok1 A1" by auto
  note D1 = unit_outD [OF U1]
  have A1: "i \<in> A1 \<longleftrightarrow> i < length kp" for i using D1(10) [OF ok13(1)] f0 by auto
  have psn: "ps = int (length kp)"
    using D1(11) [OF ok13(1)] count_fresh [OF fresh(1), of False] fresh(3) by simp
  have ps: "ps \<le> avP" using D1(9) D1(11) ok13(1) by simp
  from unit_step [OF s2 u(2)] av ps obtain A2 where U2: "unit_out False 7 avP ps ki ki1 ps1 ok2 A2" by auto
  note D2 = unit_outD [OF U2]
  from unit_step [OF s3 D2(8)] av obtain A3 where U3: "unit_out False base avI 0 ki1 ki2 sz ok3 A3" by auto
  note D3 = unit_outD [OF U3]
  have sz: "sz = count_eligible False (-1) ki1" "sz \<le> avI" using D3(9,11) ok13(2) by simp_all
  from unit_step [OF s4 D3(8) sz(2) av(4)] obtain A4 where U4: "unit_out True base avI sz ki2 ki3 sz1 ok4 A4" by auto
  note D4 = unit_outD [OF U4]
  have ok4: "ok4"
  proof -
    have "sz + count_eligible True (-1) ki2 = int_demand ci kp ki"
      using sz(1) D2(12,13) D3(13) psn ps count_fresh [OF fresh(2), of True] count_fresh [OF fresh(2), of False]
      by (simp add: int_demand_def avP_def)
    with dem D4(9) show ?thesis by (simp add: avI_def)
  qed
  with res have res: "kp' = kp1" "ki' = ki3" "I' = I" by simp_all
  note l2 = D2(2) and l3 = D3(2) and l4 = D4(2) and io2 = D2(3) and io3 = D3(3) and io4 = D4(3)
    and n2 = D2(4) and n3 = D3(4) and n4 = D4(4) and d2 = D2(7) and d3 = D3(7) and d4 = D4(7)
  have l1: "length kp1 = length kp" by (rule D1(2))
  have p1: "i \<in> A1 \<Longrightarrow> 3 - avP < k_offset (kp1 ! i) \<and> k_offset (kp1 ! i) \<le> 3 \<and> 3 - ps < k_offset (kp1 ! i)" for i
    using D1(5) [of i] D1(6) [OF ok13(1), of i] by simp
  have p2: "i \<in> A2 \<Longrightarrow> 7 - avP < k_offset (ki1 ! i) \<and> k_offset (ki1 ! i) \<le> 7 - ps" for i
    by (rule D2(5))
  have p3: "i \<in> A3 \<Longrightarrow> base - avI < k_offset (ki2 ! i) \<and> k_offset (ki2 ! i) \<le> base \<and> base - sz < k_offset (ki2 ! i)" for i
    using D3(5) [of i] D3(6) [OF ok13(2), of i] by simp
  have p4: "i \<in> A4 \<Longrightarrow> base - avI < k_offset (ki3 ! i) \<and> k_offset (ki3 ! i) \<le> base - sz" for i
    by (rule D4(5))
  have A2: "i \<in> A2 \<Longrightarrow> \<not> k_intOnly (ki ! i)" for i using D2(1) by blast
  have A3: "i \<in> A3 \<longleftrightarrow> i < length ki1 \<and> k_offset (ki1 ! i) < 0 \<and> \<not> k_intOnly (ki1 ! i)" for i
    using D3(10) [OF ok13(2)] by simp
  have A4: "i \<in> A4 \<longleftrightarrow> i < length ki2 \<and> k_offset (ki2 ! i) < 0 \<and> k_intOnly (ki2 ! i)" for i
    using D4(10) [OF ok4] by simp
  have bA: "base - avI = ci_intSize ci - 1" by (simp add: base_def avI_def)
  \<comment> \<open>every integer colour is placed in exactly one of the three rounds\<close>
  have off: "(i \<in> A2 \<longrightarrow> k_offset (ki3 ! i) = k_offset (ki1 ! i)) \<and>
      (i \<notin> A2 \<and> \<not> k_intOnly (ki ! i) \<longrightarrow> i \<in> A3 \<and> k_offset (ki3 ! i) = k_offset (ki2 ! i)) \<and>
      (k_intOnly (ki ! i) \<longrightarrow> i \<in> A4) \<and> k_intOnly (ki3 ! i) = k_intOnly (ki ! i)"
    if i: "i < length ki" for i
  proof (intro conjI impI)
    have i1: "i < length ki1" "i < length ki2" using i l2 l3 by simp_all
    show "k_intOnly (ki3 ! i) = k_intOnly (ki ! i)" using io2 [OF i] io3 [OF i1(1)] io4 [OF i1(2)] by simp
    show "k_offset (ki3 ! i) = k_offset (ki1 ! i)" if "i \<in> A2"
    proof -
      have "0 \<le> k_offset (ki1 ! i)" using p2 [OF that] av by simp
      then have "i \<notin> A3" using A3 by simp
      from n3 [OF i1(1) this] \<open>0 \<le> k_offset (ki1 ! i)\<close> n4 [OF i1(2)] show ?thesis using A4 by simp
    qed
    show "i \<in> A3" if "i \<notin> A2 \<and> \<not> k_intOnly (ki ! i)"
      using that i1 n2 [OF i] g0 [OF i] io2 [OF i] A3 by simp
    show "k_offset (ki3 ! i) = k_offset (ki2 ! i)" if "i \<notin> A2 \<and> \<not> k_intOnly (ki ! i)"
      using that io2 [OF i] io3 [OF i1(1)] n4 [OF i1(2)] A4 by simp
    show "i \<in> A4" if "k_intOnly (ki ! i)"
    proof -
      have "i \<notin> A2" using A2 that by auto
      moreover have "i \<notin> A3" using A3 that io2 [OF i] by simp
      ultimately have "k_offset (ki2 ! i) = -1" using n2 [OF i] n3 [OF i1(1)] g0 [OF i] by simp
      then show ?thesis using A4 that i1 io2 [OF i] io3 [OF i1(1)] by simp
    qed
  qed
  have rng: "(i \<in> A2 \<longrightarrow> 7 - avP < k_offset (ki3 ! i) \<and> k_offset (ki3 ! i) \<le> 7 - ps) \<and>
      (i \<notin> A2 \<longrightarrow> ci_intSize ci \<le> k_offset (ki3 ! i) \<and> k_offset (ki3 ! i) \<le> base \<and>
         (if k_intOnly (ki ! i) then k_offset (ki3 ! i) \<le> base - sz else base - sz < k_offset (ki3 ! i)))"
    if i: "i < length ki" for i
  proof (cases "k_intOnly (ki ! i)")
    case True
    have "0 \<le> sz" using sz(1) by (simp add: count_eligible_def)
    moreover have "i \<notin> A2" using True A2 by auto
    ultimately show ?thesis using off [OF i] True p4 [of i] bA by simp
  next
    case False
    then show ?thesis using off [OF i] p2 [of i] p3 [of i] bA by (cases "i \<in> A2") simp_all
  qed
  have io: "k_intOnly (ki3 ! i) = k_intOnly (ki ! i)" if "i < length ki" for i using off [OF that] by simp
  have len3: "length ki3 = length ki" using l2 l3 l4 by simp
  have neq: "k_offset (ki3 ! i) \<noteq> k_offset (ki3 ! j)" if ij: "i < j" "j < length ki" for i j
  proof -
    have ii: "i < length ki" using ij by simp
    have b4: "base < 4" using b by (simp add: base_def)
    note O = off [OF ii] off [OF ij(2)] and R = rng [OF ii] rng [OF ij(2)]
    consider "i \<in> A2" "j \<in> A2" | "(i \<in> A2) \<noteq> (j \<in> A2)" | "i \<notin> A2" "j \<notin> A2" by blast
    then show ?thesis
    proof cases
      case 1
      with O d2 [of i j] ij show ?thesis by simp
    next
      case 2
      with R b4 av show ?thesis by auto
    next
      case 3
      then show ?thesis
      proof (cases "k_intOnly (ki ! i) = k_intOnly (ki ! j)")
        case True
        then show ?thesis using 3 O d3 [of i j] d4 [of i j] ij by (cases "k_intOnly (ki ! i)") simp_all
      next
        case False
        with 3 R show ?thesis by (auto split: if_splits)
      qed
    qed
  qed
  have dp: "distinct (map (\<lambda>k. 4 + k_offset k) kp1)"
    by (rule distinct_nth_map) (use D1(7) A1 l1 in auto)
  have di: "distinct (map k_offset ki3)"
    by (rule distinct_nth_map) (use neq len3 in auto)
  have pp: "ci_pointerSize ci \<le> k_offset k \<and> k_offset k < 4 \<and> 3 - ps < k_offset k" if "k \<in> set kp1" for k
  proof -
    from that obtain i where "i < length kp1" "k = kp1 ! i" by (auto simp: in_set_conv_nth)
    with p1 [of i] A1 l1 show ?thesis by (auto simp: avP_def)
  qed
  have ii: "(ci_intSize ci \<le> k_offset k \<and> k_offset k < 4 - parms) \<or>
      (\<not> k_intOnly k \<and> 4 + ci_pointerSize ci \<le> k_offset k \<and> k_offset k < 8 \<and> k_offset k \<le> 7 - ps)" if "k \<in> set ki3" for k
  proof -
    from that obtain i where i: "i < length ki" "k = ki3 ! i" using len3 by (auto simp: in_set_conv_nth)
    have "i \<in> A2 \<Longrightarrow> \<not> k_intOnly (ki ! i)" using A2 by auto
    with rng [OF i(1)] io [OF i(1)] i(2) psn show ?thesis
      by (cases "i \<in> A2") (auto simp: avP_def base_def)
  qed
  have "4 + k_offset p \<noteq> k_offset k" if "p \<in> set kp1" "k \<in> set ki3" for p k
    using pp [OF that(1)] ii [OF that(2)] b by auto
  then have "distinct (map (\<lambda>k. 4 + k_offset k) kp1 @ map k_offset ki3)" using dp di by fastforce
  then have "registers_ok ci parms kp1 ki3" unfolding registers_ok_def using pp ii by fastforce
  with res l1 len3 show ?thesis by simp
qed

text \<open>
  When the integer registers suffice, all the integer and pointer variables of a function get
  registers of their own: every pointer colour a pointer register that no persistent pointer of the
  class has, every integer colour an integer register between those of the persistent integers and
  those of the parameters, or, unless it is used as an index, such a pointer register, and no two
  colours the same register.
\<close>

theorem alloc_registers_disjoint:
  assumes "alloc_registers parms (ci, kp, ki, I) = Inr (ci', kp', ki', I')"
    and "fresh_scalars kp" "fresh_scalars ki" "\<forall>k\<in>set kp. \<not> k_intOnly k"
    and "0 \<le> ci_pointerSize ci" "ci_pointerSize ci \<le> MAX_POINTER_SIZE" "0 \<le> ci_intSize ci" "0 \<le> parms"
      "ci_intSize ci + parms \<le> MAX_INT_SIZE"
    and "int_demand ci kp ki \<le> MAX_INT_SIZE - ci_intSize ci - parms"
  shows "length kp' = length kp \<and> length ki' = length ki \<and> registers_ok ci parms kp' ki'"
  using alloc_registers_ok [OF assms] by simp

text \<open>Two pointers, three integers of which two spill to the pointer registers, and an index.\<close>

definition scalar_color :: "bool \<Rightarrow> cGraphColor" where
  "scalar_color io = new_cGraphColor\<lparr>k_len := 1, k_intOnly := io\<rparr>"

theorem alloc_registers_disjoint_witness:
  "\<exists>ci' kp' ki' I'. alloc_registers 1 (new_CLINFO, [scalar_color False, scalar_color False],
       [scalar_color False, scalar_color True, scalar_color False, scalar_color False], []) = Inr (ci', kp', ki', I') \<and>
     registers_ok new_CLINFO 1 kp' ki'"
proof -
  let ?kp = "[scalar_color False, scalar_color False]"
  let ?ki = "[scalar_color False, scalar_color True, scalar_color False, scalar_color False]"
  have "\<not> isl (alloc_registers 1 (new_CLINFO, ?kp, ?ki, []))" by code_simp
  then obtain ci' kp' ki' I' where r: "alloc_registers 1 (new_CLINFO, ?kp, ?ki, []) = Inr (ci', kp', ki', I')"
    by (cases "alloc_registers 1 (new_CLINFO, ?kp, ?ki, [])") auto
  have "registers_ok new_CLINFO 1 kp' ki'"
    using alloc_registers_disjoint [OF r]
    by (simp add: fresh_scalars_def scalar_color_def new_cGraphColor_def new_CLINFO_def int_demand_def)
  with r show ?thesis by blast
qed


end
