(* ===== verification/Place.thy ===== *)
theory Place
  imports Alloc
begin

text \<open>
  The addresses that register allocation ends with: variables that are live at the same time share
  neither a register nor a word of private memory. The lemmas follow \<open>buildFunc\<close>: private memory
  for the colours, and then the address of each variable from its colour.
\<close>

section \<open>Giving a variable its address\<close>

definition unplaced :: "cIdentifier \<Rightarrow> cIdentifier" where
  "unplaced v = v\<lparr>m_offset := 0, m_byteOffset := 0\<rparr>"

definition same_but_place :: "idents \<Rightarrow> idents \<Rightarrow> bool" where
  "same_but_place I J \<longleftrightarrow> length J = length I \<and> (\<forall>x. unplaced (ident_at J x) = unplaced (ident_at I x))"

lemma same_but_place_refl [simp]: "same_but_place I I"
  by (simp add: same_but_place_def)

lemma same_but_place_trans: "same_but_place I J \<Longrightarrow> same_but_place J K \<Longrightarrow> same_but_place I K"
  by (simp add: same_but_place_def)

lemma unplaced_cong:
  "unplaced v = unplaced w \<Longrightarrow> getLen v = getLen w \<and> isKindOf v d = isKindOf w d \<and> isFixed v = isFixed w \<and>
     m_color v = m_color w \<and> m_class v = m_class w"
  by (cases v; cases w)
    (simp add: unplaced_def getLen_def isKindOf_def isFixed_def isParameter_def isStack_def)

lemma same_but_placeD:
  assumes "same_but_place I J"
  shows "length J = length I" "getLen (ident_at J x) = getLen (ident_at I x)"
    "isKindOf (ident_at J x) d = isKindOf (ident_at I x) d" "isFixed (ident_at J x) = isFixed (ident_at I x)"
    "m_color (ident_at J x) = m_color (ident_at I x)" "colorable c J x = colorable c I x"
    "m_class (ident_at J x) = m_class (ident_at I x)"
  using assms unplaced_cong [of "ident_at J x" "ident_at I x"]
  by (simp_all add: same_but_place_def colorable_def)

lemma color_at_cong:
  assumes "same_but_place I J"
  shows "color_at kss J x = color_at kss I x"
proof -
  have "isKindOf (ident_at J x) = isKindOf (ident_at I x)" using same_but_placeD(3) [OF assms] by (intro ext)
  then show ?thesis unfolding color_at_def same_but_placeD(5) [OF assms] by metis
qed

lemma allocate_at_spec:
  assumes "allocate_at off x I = Inr J"
  shows "same_but_place I J" "m_byteOffset (ident_at J x) = off" "y \<noteq> x \<Longrightarrow> ident_at J y = ident_at I y"
proof -
  from assms obtain v where v: "x < length I" "allocate off (I ! x) = Inr v" "J = I[x := v]"
    by (auto simp: allocate_at_def res_bind_eq_Inr_iff split: if_splits)
  have at: "ident_at I x = I ! x" using v(1) by (simp add: ident_at_def)
  have "unplaced v = unplaced (I ! x)" using v(2) by (auto simp: allocate_Inr_iff unplaced_def split: if_splits)
  then show "same_but_place I J" using v(1,3) at by (auto simp: same_but_place_def ident_at_upd)
  show "m_byteOffset (ident_at J x) = off" using v allocate_byteOffset by (simp add: ident_at_upd)
  show "y \<noteq> x \<Longrightarrow> ident_at J y = ident_at I y" using v by (simp add: ident_at_upd)
qed

text \<open>The variables that a tree of blocks declares.\<close>

fun block_ids :: "cAstBlock \<Rightarrow> nat set" and blocks_ids :: "cAstBlock list \<Rightarrow> nat set" where
  "block_ids (AstBlock ids nodes) = (case ids of Some xs \<Rightarrow> set xs | None \<Rightarrow> {}) \<union> blocks_ids nodes"
| "blocks_ids [] = {}"
| "blocks_ids (n # ns) = block_ids n \<union> blocks_ids ns"

definition placed :: "(clsid \<times> cGraphColor list) list \<Rightarrow> idents \<Rightarrow> nat \<Rightarrow> bool" where
  "placed kss J x \<longleftrightarrow> \<not> isFixed (ident_at J x) \<longrightarrow> m_color (ident_at J x) \<noteq> None \<longrightarrow>
     (\<exists>k. color_at kss J x = Some k \<and> m_byteOffset (ident_at J x) = k_offset k)"

text \<open>Placing the variables of \<open>X\<close>: they get the addresses of their colours, all others stay.\<close>

definition places :: "(clsid \<times> cGraphColor list) list \<Rightarrow> nat set \<Rightarrow> idents \<Rightarrow> idents \<Rightarrow> bool" where
  "places kss X I J \<longleftrightarrow> same_but_place I J \<and> (\<forall>x\<in>X. placed kss J x) \<and>
     (\<forall>y. placed kss I y \<longrightarrow> placed kss J y)"

lemma places_refl: "places kss {} I I"
  by (simp add: places_def)

lemma places_trans: "places kss X I J \<Longrightarrow> places kss Y J K \<Longrightarrow> places kss (X \<union> Y) I K"
  unfolding places_def using same_but_place_trans by blast

lemma alloc_ids_places: "alloc_ids kss xs I = Inr J \<Longrightarrow> places kss (set xs) I J"
proof (induction kss xs I rule: alloc_ids.induct)
  case (1 kss I)
  then show ?case by (simp add: places_refl)
next
  case (2 kss x xs I)
  show ?case
  proof (cases "\<not> isFixed (ident_at I x) \<and> m_color (ident_at I x) \<noteq> None")
    case True
    with "2.prems" obtain k K where k: "color_at kss I x = Some k" "allocate_at (k_offset k) x I = Inr K"
      "alloc_ids kss xs K = Inr J"
      by (auto simp: res_bind_eq_Inr_iff split: option.splits)
    note s = allocate_at_spec [OF k(2)]
    have px: "placed kss K x" using k(1) s(2) color_at_cong [OF s(1)] by (simp add: placed_def)
    have "placed kss K y" if "placed kss I y" for y
      using that px s(3) [of y] color_at_cong [OF s(1)] by (cases "y = x") (simp_all add: placed_def)
    with px s(1) have "places kss {x} I K" by (simp add: places_def)
    from places_trans [OF this "2.IH"(1) [OF True k(1,3)]] show ?thesis by simp
  next
    case False
    with "2.prems" have "alloc_ids kss xs I = Inr J" by auto
    with "2.IH"(2) [OF False] have p: "places kss (set xs) I J" by simp
    have "placed kss I x" using False by (auto simp: placed_def)
    with p show ?thesis by (simp add: places_def)
  qed
qed

lemma allocateMem_places:
  "allocateMem kss n I = Inr J \<Longrightarrow> places kss (block_ids n) I J"
  "allocateMems kss ns I = Inr J \<Longrightarrow> places kss (blocks_ids ns) I J"
proof (induction kss n I and kss ns I arbitrary: J and J rule: allocateMem_allocateMems.induct)
  case (1 kss ids nodes I)
  then obtain K where K: "(case ids of Some xs \<Rightarrow> alloc_ids kss xs I | None \<Rightarrow> Inr I) = Inr K"
    "allocateMems kss nodes K = Inr J"
    by (auto simp: res_bind_eq_Inr_iff)
  have "places kss (case ids of Some xs \<Rightarrow> set xs | None \<Rightarrow> {}) I K"
    using K(1) alloc_ids_places places_refl by (cases ids) auto
  from places_trans [OF this "1.IH" [OF K(2)]] show ?case by simp
next
  case (2 kss I)
  then show ?case by (simp add: places_refl)
next
  case (3 kss n ns I)
  then obtain K where K: "allocateMem kss n I = Inr K" "allocateMems kss ns K = Inr J"
    by (auto simp: res_bind_eq_Inr_iff)
  from places_trans [OF "3.IH"(1) [OF K(1)] "3.IH"(2) [OF K(2)]] show ?case by simp
qed

section \<open>The colours that colouring makes\<close>

lemma widen_cong:
  "uncolored v = uncolored w \<Longrightarrow> widen c il x v k = widen c il x w k"
  using uncolored_cong [of v w] by (simp add: widen_def)

text \<open>A property of colours that the colouring of \<open>x\<close> keeps.\<close>

definition color_inv :: "clsid \<Rightarrow> nat list \<Rightarrow> idents \<Rightarrow> nat set \<Rightarrow> (cGraphColor \<Rightarrow> bool) \<Rightarrow> bool" where
  "color_inv c il I X Q \<longleftrightarrow> (\<forall>k fl. Q k \<longrightarrow> Q (k\<lparr>k_flag := fl\<rparr>)) \<and>
     (\<forall>x\<in>X. Q (widen c il x (ident_at I x) (new_cGraphColor\<lparr>k_len := getLen (ident_at I x)\<rparr>)) \<and>
        (\<forall>k. Q k \<longrightarrow> Q (widen c il x (ident_at I x) k)))"

lemma flag_neighbours_inv:
  assumes "\<forall>k fl. Q k \<longrightarrow> Q (k\<lparr>k_flag := fl\<rparr>)"
  shows "flag_neighbours es x lst I ks = Inr ks' \<Longrightarrow> \<forall>k\<in>set ks. Q k \<Longrightarrow> \<forall>k\<in>set ks'. Q k"
proof (induction es arbitrary: ks)
  case (Cons e es)
  show ?case
  proof (cases "\<exists>y k. neighbour e x = Some y \<and> iv_exist lst y \<and> m_color (ident_at I y) = Some k")
    case True
    then obtain y k where y: "neighbour e x = Some y" "iv_exist lst y" "m_color (ident_at I y) = Some k" by blast
    have "\<forall>l\<in>set (ks[k := (ks ! k)\<lparr>k_flag := True\<rparr>]). Q l"
    proof (cases "k < length ks")
      case True
      then have "Q ((ks ! k)\<lparr>k_flag := True\<rparr>)" using Cons.prems(2) assms by simp
      with Cons.prems(2) show ?thesis by (auto dest!: set_update_subset_insert [THEN subsetD])
    qed (use Cons.prems(2) in \<open>simp add: list_update_beyond\<close>)
    with Cons.IH Cons.prems(1) y show ?thesis by simp
  next
    case False
    with Cons show ?thesis by (auto split: option.splits if_splits)
  qed
qed simp

lemma color_inv_step:
  assumes q: "color_inv c il I X Q" "x \<in> X" and s: "same_but_color I J"
    and r: "color c il es x lst (ks, J) = Inr (ks', J')" and ks: "\<forall>k\<in>set ks. Q k"
  shows "\<forall>k\<in>set ks'. Q k" "same_but_color I J'"
proof -
  let ?v = "ident_at J x"
  have fl: "\<forall>k fl. Q k \<longrightarrow> Q (k\<lparr>k_flag := fl\<rparr>)" using q(1) by (simp add: color_inv_def)
  have u: "uncolored ?v = uncolored (ident_at I x)" using s by (simp add: same_but_color_def)
  have len: "getLen ?v = getLen (ident_at I x)" using same_but_colorD(2) [OF s] .
  have new: "Q (widen c il x ?v (new_cGraphColor\<lparr>k_len := getLen ?v\<rparr>))"
    and old: "Q k \<Longrightarrow> Q (widen c il x ?v k)" for k
    using q by (simp_all add: color_inv_def widen_cong [OF u] len)
  from r obtain k1 where f: "flag_neighbours es x lst J (map (\<lambda>k. k\<lparr>k_flag := False\<rparr>) ks) = Inr k1"
    by (auto simp: color_def Let_def res_bind_eq_Inr_iff)
  have k1: "\<forall>k\<in>set k1. Q k" using flag_neighbours_inv [OF fl f] ks fl by simp
  from r obtain k where "J' = J[x := ?v\<lparr>m_color := k\<rparr>]"
    by (auto simp: color_def Let_def res_bind_eq_Inr_iff split: option.splits)
  then show "same_but_color I J'" using same_but_color_trans [OF s same_but_color_upd(1)] by simp
  show "\<forall>k\<in>set ks'. Q k"
  proof (cases "best_color k1")
    case None
    then have "ks' = k1 @ [widen c il x ?v (new_cGraphColor\<lparr>k_len := getLen ?v\<rparr>)]"
      using r f by (simp add: color_def Let_def)
    then show ?thesis using k1 new by simp
  next
    case (Some g)
    then have eq: "ks' = k1[g := widen c il x ?v (k1 ! g)]" using r f by (simp add: color_def Let_def)
    have "g < length k1" using best_color_spec(2) [OF Some] by simp
    then show ?thesis using k1 old unfolding eq by (auto dest!: set_update_subset_insert [THEN subsetD])
  qed
qed

lemma color_all_inv:
  assumes q: "color_inv c il I X Q"
  shows "color_all c il es xs lst (ks, J) = Inr (ks', J') \<Longrightarrow> set xs \<subseteq> X \<Longrightarrow> same_but_color I J \<Longrightarrow>
    \<forall>k\<in>set ks. Q k \<Longrightarrow> \<forall>k\<in>set ks'. Q k"
proof (induction xs arbitrary: lst ks J)
  case (Cons x xs)
  then obtain k1 J1 where s: "color c il es x lst (ks, J) = Inr (k1, J1)"
    "color_all c il es xs (iv_append lst x) (k1, J1) = Inr (ks', J')"
    by (auto simp: res_bind_eq_Inr_iff)
  have "x \<in> X" using Cons.prems by simp
  from color_inv_step [OF q this Cons.prems(3) s(1) Cons.prems(4)] Cons.IH [OF s(2)] Cons.prems(2)
  show ?case by simp
qed simp

lemma colorGraph_inv:
  assumes g: "colorGraph c il es R ([], I) = Some (Inr (ks, J))" and R: "\<forall>x\<in>set R. x < length I"
    and q: "color_inv c il I {x \<in> set R. colorable c I x} Q"
  shows "\<forall>k\<in>set ks. Q k"
proof -
  from g obtain st K where w: "while_option (can_pick c R) (pick_step c R) ([], init_color c es R I) = Some (st, K)"
    and c: "color_all c il es st [] ([], K) = Inr (ks, J)"
    by (auto simp: colorGraph_def)
  have "sel_inv c R I (st, K)"
  proof (rule while_option_rule [OF _ w])
    show "sel_inv c R I ([], init_color c es R I)" by (rule init_color_spec(1) [OF R])
    fix s assume "sel_inv c R I s" then show "sel_inv c R I (pick_step c R s)"
      using pick_step_inv(1) by (cases s) blast
  qed
  then have "set st \<subseteq> {x \<in> set R. colorable c I x}" "same_but_color I K" by (auto simp: sel_inv_def)
  with color_all_inv [OF q c] show ?thesis by simp
qed

lemma color_inv_same:
  assumes "color_inv c il I {x \<in> set R. colorable c I x} Q" "same_but_color I J"
  shows "color_inv c il J {x \<in> set R. colorable c J x} Q"
proof -
  have "uncolored (ident_at J x) = uncolored (ident_at I x)" for x using assms(2) by (simp add: same_but_color_def)
  then have "widen c il x (ident_at J x) k = widen c il x (ident_at I x) k" for x k by (rule widen_cong)
  then show ?thesis using assms by (simp add: color_inv_def same_but_colorD)
qed

lemma color_classes_inv:
  assumes "loopless es"
  shows "color_classes cs il es R I = Some (Inr (kss, J)) \<Longrightarrow> \<forall>x\<in>set R. x < length I \<Longrightarrow> distinct cs \<Longrightarrow>
    \<forall>c\<in>set cs. color_inv c il I {x \<in> set R. colorable c I x} (Q c) \<Longrightarrow>
    \<forall>c\<in>set cs. \<forall>k\<in>set (colors_of kss c). Q c k"
proof (induction cs arbitrary: I kss)
  case (Cons c cs)
  from colorGraph_ok [OF Cons.prems(2) assms, of c il "[]"] Cons.prems(1) obtain ks K kss' where
    g: "colorGraph c il es R ([], I) = Some (Inr (ks, K))" "same_but_color I K" and
    h: "color_classes cs il es R K = Some (Inr (kss', J))" "kss = (c, ks) # kss'"
    by (auto split: option.splits sum.splits)
  have R: "\<forall>x\<in>set R. x < length K" using Cons.prems(2) same_but_colorD(1) [OF g(2)] by simp
  have "\<forall>d\<in>set cs. color_inv d il K {x \<in> set R. colorable d K x} (Q d)"
    using Cons.prems(4) color_inv_same [OF _ g(2)] by simp
  then have "\<forall>d\<in>set cs. \<forall>k\<in>set (colors_of kss' d). Q d k" using Cons.IH [OF h(1) R] Cons.prems(3) by simp
  moreover have "\<forall>k\<in>set ks. Q c k" using colorGraph_inv [OF g(1) Cons.prems(2), of "Q c"] Cons.prems(4) by simp
  ultimately show ?case using Cons.prems(3) by (auto simp: colors_of_def h(2) split: if_splits)
qed simp

text \<open>Scalars of one word, and private variables of a vector width that the machine has.\<close>

definition well_sized :: "idents \<Rightarrow> nat list \<Rightarrow> bool" where
  "well_sized I R \<longleftrightarrow> (\<forall>x\<in>set R.
     (colorable CPointer I x \<or> colorable CInteger I x \<longrightarrow> getLen (ident_at I x) = 1) \<and>
     (colorable CPrivate I x \<longrightarrow> 0 \<le> getLen (ident_at I x) \<and> m_w (ident_at I x) \<in> set widths))"

definition fresh_color :: "clsid \<Rightarrow> cGraphColor \<Rightarrow> bool" where
  "fresh_color c k \<longleftrightarrow> k_offset k = -1 \<and> (c \<noteq> CInteger \<longrightarrow> \<not> k_intOnly k) \<and>
     (if c = CPrivate then 0 \<le> k_len k \<and> k_vectorWidth k \<in> set widths
      else c \<in> {CPointer, CInteger} \<longrightarrow> k_len k = 1 \<and> k_vectorWidth k = -1)"

lemma fresh_color_inv:
  assumes "well_sized I R"
  shows "color_inv c il I {x \<in> set R. colorable c I x} (fresh_color c)"
proof -
  have sto: "isKindOf v CPrivate \<Longrightarrow> isKindOf v CStorage" "isKindOf v CPointer \<Longrightarrow> \<not> isKindOf v CStorage"
    "isKindOf v CInteger \<Longrightarrow> \<not> isKindOf v CStorage" for v
    by (auto simp: isKindOf_def)
  have w: "max a b \<in> set widths" if "a \<in> set widths \<or> a = -1" "b \<in> set widths" for a b
    using that by (auto simp: widths_def)
  have step: "fresh_color c (widen c il x (ident_at I x) k)"
    if x: "x \<in> set R" "colorable c I x" and k: "fresh_color c k \<or> k = new_cGraphColor\<lparr>k_len := getLen (ident_at I x)\<rparr>" for x k
  proof -
    let ?v = "ident_at I x"
    have kind: "isKindOf ?v c" using x(2) by (simp add: colorable_def)
    have off: "k_offset k = -1" and io: "c \<noteq> CInteger \<Longrightarrow> \<not> k_intOnly k"
      using k by (auto simp: fresh_color_def new_cGraphColor_def)
    show ?thesis
    proof (cases "c = CPrivate")
      case True
      then have v: "0 \<le> getLen ?v" "m_w ?v \<in> set widths" "isKindOf ?v CStorage"
        using assms x sto(1) kind by (auto simp: well_sized_def)
      have "0 \<le> k_len k" "k_vectorWidth k \<in> set widths \<or> k_vectorWidth k = -1"
        using k v(1) True by (auto simp: fresh_color_def new_cGraphColor_def)
      then show ?thesis using v w off io True by (simp add: fresh_color_def widen_def)
    next
      case False
      have "k_len (widen c il x ?v k) = 1 \<and> k_vectorWidth (widen c il x ?v k) = -1" if c: "c \<in> {CPointer, CInteger}"
      proof -
        have "getLen ?v = 1" "\<not> isKindOf ?v CStorage" using assms x c kind sto(2,3) by (auto simp: well_sized_def)
        with k c show ?thesis by (auto simp: fresh_color_def new_cGraphColor_def widen_def)
      qed
      then show ?thesis using off io False by (simp add: fresh_color_def widen_def)
    qed
  qed
  have "fresh_color c k \<Longrightarrow> fresh_color c (k\<lparr>k_flag := fl\<rparr>)" for k fl by (simp add: fresh_color_def)
  with step show ?thesis unfolding color_inv_def by blast
qed

section \<open>Private memory\<close>

text \<open>The colours at the positions \<open>D\<close> have disjoint stretches of \<open>lo..hi\<close>.\<close>

definition stretches :: "cGraphColor list \<Rightarrow> nat set \<Rightarrow> int \<Rightarrow> int \<Rightarrow> bool" where
  "stretches ks D lo hi \<longleftrightarrow>
     (\<forall>i\<in>D. lo \<le> k_offset (ks ! i) \<and> k_offset (ks ! i) + k_len (ks ! i) \<le> hi) \<and>
     (\<forall>i\<in>D. \<forall>j\<in>D. i < j \<or> j < i \<longrightarrow> k_offset (ks ! i) + k_len (ks ! i) \<le> k_offset (ks ! j) \<or>
        k_offset (ks ! j) + k_len (ks ! j) \<le> k_offset (ks ! i))"

definition has_place :: "cGraphColor list \<Rightarrow> nat set" where
  "has_place ks = {i. i < length ks \<and> 0 \<le> k_offset (ks ! i)}"

lemma private_round:
  assumes a: "allocateGraph ks sz mx False v 0 TOP2BOT = (ks', sz', True)"
    and ks: "\<forall>k\<in>set ks. 0 \<le> k_len k \<and> \<not> k_intOnly k" and sz: "0 \<le> lo" "lo \<le> sz" "sz \<le> mx"
    and st: "stretches ks (has_place ks) lo sz"
  shows "stretches ks' (has_place ks') lo sz'" "sz \<le> sz'" "sz' \<le> mx" "length ks' = length ks"
    "i < length ks \<Longrightarrow> k_vectorWidth (ks' ! i) = k_vectorWidth (ks ! i) \<and> k_len (ks' ! i) = k_len (ks ! i) \<and>
       k_intOnly (ks' ! i) = k_intOnly (ks ! i)"
    "has_place ks' = has_place ks \<union> {i. i < length ks \<and> k_vectorWidth (ks ! i) = v}"
proof -
  obtain o' where ac: "allocate_colors mx False v 0 TOP2BOT ks sz = (ks', o', True)" "sz' = o'"
    using a by (auto simp: allocateGraph_def split: prod.splits)
  have len: "\<forall>k\<in>set ks. 0 \<le> k_len k" using ks by simp
  let ?A = "{i. i < length ks \<and> eligible False v (ks ! i)}"
  from allocate_colors_spec [OF ac(1) len sz(3)] ac(2)
  have L: "laid_out 0 TOP2BOT ?A sz sz' ks ks'" and "sz \<le> sz'" "sz' \<le> mx" by auto
  then show "sz \<le> sz'" "sz' \<le> mx" by simp_all
  note D = laid_outD [OF L, unfolded place_in_def, simplified]
  show l: "length ks' = length ks" by (rule D(1))
  show "i < length ks \<Longrightarrow> k_vectorWidth (ks' ! i) = k_vectorWidth (ks ! i) \<and> k_len (ks' ! i) = k_len (ks ! i) \<and>
       k_intOnly (ks' ! i) = k_intOnly (ks ! i)" using D(2) by blast
  have A: "i \<in> ?A \<longleftrightarrow> i < length ks \<and> k_offset (ks ! i) < 0 \<and> k_vectorWidth (ks ! i) = v" for i
    using ks by (auto simp: eligible_def)
  have old: "i \<in> has_place ks \<Longrightarrow> k_offset (ks' ! i) = k_offset (ks ! i) \<and> k_len (ks' ! i) = k_len (ks ! i)" for i
    using D(2,3) [of i] A [of i] by (auto simp: has_place_def)
  have new: "i \<in> ?A \<Longrightarrow> sz \<le> k_offset (ks' ! i) \<and> k_offset (ks' ! i) + k_len (ks' ! i) \<le> sz'" for i
    using D(2,4) [of i] A [of i] by simp
  show hp: "has_place ks' = has_place ks \<union> {i. i < length ks \<and> k_vectorWidth (ks ! i) = v}"
  proof (rule set_eqI)
    fix i
    show "i \<in> has_place ks' \<longleftrightarrow> i \<in> has_place ks \<union> {i. i < length ks \<and> k_vectorWidth (ks ! i) = v}"
      using old [of i] new [of i] D(3) [of i] A [of i] sz l by (cases "i \<in> ?A") (auto simp: has_place_def)
  qed
  have cov: "i \<in> has_place ks' \<Longrightarrow> i \<in> has_place ks \<or> i \<in> ?A" for i
    unfolding hp using A [of i] by (auto simp: has_place_def)
  have oldr: "i \<in> has_place ks \<Longrightarrow> lo \<le> k_offset (ks' ! i) \<and> k_offset (ks' ! i) + k_len (ks' ! i) \<le> sz" for i
    using st old [of i] by (simp add: stretches_def)
  have ord: "k_offset (ks' ! i) + k_len (ks' ! i) \<le> k_offset (ks' ! j)" if "i < j" "i \<in> ?A" "j \<in> ?A" for i j
    using D(5) [of i j] D(2) [of i] that by simp
  show "stretches ks' (has_place ks') lo sz'"
    unfolding stretches_def
  proof (intro conjI ballI impI)
    fix i assume "i \<in> has_place ks'"
    from cov [OF this] show "lo \<le> k_offset (ks' ! i)" "k_offset (ks' ! i) + k_len (ks' ! i) \<le> sz'"
      using oldr [of i] new [of i] sz \<open>sz \<le> sz'\<close> by auto
  next
    fix i j assume ij: "i \<in> has_place ks'" "j \<in> has_place ks'" "i < j \<or> j < i"
    consider "i \<in> has_place ks" "j \<in> has_place ks" | "i \<in> has_place ks" "j \<in> ?A"
      | "i \<in> ?A" "j \<in> has_place ks" | "i \<in> ?A" "j \<in> ?A"
      using cov [OF ij(1)] cov [OF ij(2)] by argo
    then show "k_offset (ks' ! i) + k_len (ks' ! i) \<le> k_offset (ks' ! j) \<or>
        k_offset (ks' ! j) + k_len (ks' ! j) \<le> k_offset (ks' ! i)"
    proof cases
      case 1
      then show ?thesis using st ij(3) old [OF 1(1)] old [OF 1(2)] unfolding stretches_def by metis
    next
      case 2
      with oldr [of i] new [of j] show ?thesis by linarith
    next
      case 3
      with oldr [of j] new [of i] show ?thesis by linarith
    next
      case 4
      with ord ij(3) show ?thesis by blast
    qed
  qed
qed

lemma alloc_private_spec:
  assumes "0 \<le> lo"
  shows "alloc_private vs (ks, sz) = Inr (ks', sz') \<Longrightarrow> \<forall>k\<in>set ks. 0 \<le> k_len k \<and> \<not> k_intOnly k \<Longrightarrow>
    lo \<le> sz \<Longrightarrow> sz \<le> MAX_PRIVATE_SIZE \<Longrightarrow> stretches ks (has_place ks) lo sz \<Longrightarrow>
    stretches ks' (has_place ks') lo sz' \<and> sz' \<le> MAX_PRIVATE_SIZE \<and> length ks' = length ks \<and>
    (\<forall>i<length ks. k_len (ks' ! i) = k_len (ks ! i)) \<and>
    has_place ks' = has_place ks \<union> {i. i < length ks \<and> k_vectorWidth (ks ! i) \<in> set vs}"
proof (induction vs arbitrary: ks sz)
  case (Cons v vs)
  then obtain k1 s1 where a: "allocateGraph ks sz MAX_PRIVATE_SIZE False v 0 TOP2BOT = (k1, s1, True)"
    "alloc_private vs (k1, s1) = Inr (ks', sz')"
    by (auto split: prod.splits if_splits)
  note P = private_round [OF a(1) Cons.prems(2) assms Cons.prems(3-5)]
  have k1: "\<forall>k\<in>set k1. 0 \<le> k_len k \<and> \<not> k_intOnly k"
    using P(4,5) Cons.prems(2) by (simp add: all_set_conv_all_nth)
  have "lo \<le> s1" using P(2) Cons.prems(3) by simp
  from Cons.IH [OF a(2) k1 this P(3,1)] P(4,5,6) show ?case by auto
qed auto

section \<open>Variables that are live together do not share cells\<close>

text \<open>
  The cells of a variable. Integer variables at offset \<open>MAX_INT_SIZE\<close> and above sit in the pointer
  registers.
\<close>

definition cells :: "idents \<Rightarrow> nat \<Rightarrow> (clsid \<times> int) set" where
  "cells K x =
     (let v = ident_at K x; a = m_byteOffset v in
      if isKindOf v CInteger then {if a < MAX_INT_SIZE then (CInteger, a) else (CPointer, a - MAX_INT_SIZE)}
      else if isKindOf v CPointer then {(CPointer, a)}
      else if isKindOf v CPrivate then Pair CPrivate ` {a..<a + getLen v}
      else {})"

text \<open>The parts of \<open>place_variables\<close>.\<close>

lemma place_variables_parts:
  assumes "place_variables f parms priv exreg (ci, kss, J) = Inr (ci', sz, K)"
  obtains kp ki kv sv kx J1 where
    "alloc_registers parms (ci, colors_of kss CPointer, colors_of kss CInteger, J) = Inr (ci', kp, ki, J1)"
    "alloc_private widths (colors_of kss CPrivate, round_vector priv) = Inr (kv, sv)"
    "allocateMem [(CPointer, kp), (CInteger, ki), (CPrivate, kv), (CShared, colors_of kss CShared), (CExReg, kx)]
       (fn_block f) J1 = Inr K"
proof -
  from assms obtain ci1 kp ki J1 where 1:
    "alloc_registers parms (ci, colors_of kss CPointer, colors_of kss CInteger, J) = Inr (ci1, kp, ki, J1)"
    by (auto simp: place_variables_def res_bind_eq_Inr_iff)
  note a1 = assms [unfolded place_variables_def, simplified, unfolded 1, simplified]
  then obtain kv sv where 2: "alloc_private widths (colors_of kss CPrivate, round_vector priv) = Inr (kv, sv)"
    by (auto simp: res_bind_eq_Inr_iff)
  obtain kx z ok where 3: "allocateGraph (colors_of kss CExReg) exreg MAX_EXREG_SIZE False VECTOR_DEPTH 0 TOP2BOT = (kx, z, ok)"
    by (metis prod_cases3)
  from a1 have "allocateMem [(CPointer, kp), (CInteger, ki), (CPrivate, kv), (CShared, colors_of kss CShared), (CExReg, kx)]
       (fn_block f) J1 = Inr K" "ci1 = ci'"
    by (simp_all add: 2 3 [simplified] res_bind_eq_Inr_iff split: if_splits)
  with 1 2 that show ?thesis by blast
qed

lemma color_at_class:
  assumes "c \<in> set reg_classes" "isKindOf (ident_at K x) c" "color_at kss K x = Some k"
  shows "\<exists>n<length (colors_of kss c). m_color (ident_at K x) = Some n \<and> k = colors_of kss c ! n"
proof -
  from assms(3) obtain n d where nd: "m_color (ident_at K x) = Some n" "find (isKindOf (ident_at K x)) reg_classes = Some d"
    "n < length (colors_of kss d)" "k = colors_of kss d ! n"
    by (auto simp: color_at_def split: option.splits if_splits)
  then have "d \<in> set reg_classes" "isKindOf (ident_at K x) d" by (auto simp: find_Some_iff)
  with reg_class_unique assms(1,2) have "d = c" by blast
  with nd show ?thesis by blast
qed

text \<open>What the colours promise at the end, and where the variables of the function are.\<close>

definition addressed :: "(clsid \<times> cGraphColor list) list \<Rightarrow> idents \<Rightarrow> clsid \<Rightarrow> nat \<Rightarrow> bool" where
  "addressed kss K c x \<longleftrightarrow> (\<exists>n<length (colors_of kss c). m_color (ident_at K x) = Some n \<and>
     m_byteOffset (ident_at K x) = k_offset (colors_of kss c ! n))"

lemma place_variables_addressed:
  assumes a: "allocateMem kss b J = Inr K" and x: "x \<in> block_ids b" and c: "c \<in> set reg_classes" "colorable c J x"
    and f: "fits ks J x"
  shows "addressed kss K c x"
proof -
  have p: "places kss (block_ids b) J K" by (rule allocateMem_places(1) [OF a])
  then have s: "same_but_place J K" by (simp add: places_def)
  note D = same_but_placeD [OF s]
  have "placed kss K x" using p x by (simp add: places_def)
  moreover have "\<not> isFixed (ident_at K x)" "m_color (ident_at K x) \<noteq> None" "isKindOf (ident_at K x) c"
    using c f D by (auto simp: colorable_def fits_def)
  ultimately obtain k where k: "color_at kss K x = Some k" "m_byteOffset (ident_at K x) = k_offset k"
    by (auto simp: placed_def)
  from color_at_class [OF c(1) \<open>isKindOf (ident_at K x) c\<close> k(1)] k(2) show ?thesis
    by (auto simp: addressed_def)
qed

lemma registers_okD:
  assumes "registers_ok ci parms kp ki"
  shows "i < length kp \<Longrightarrow> 0 \<le> ci_pointerSize ci \<Longrightarrow> 0 \<le> k_offset (kp ! i)"
    and "i < length kp \<Longrightarrow> j < length kp \<Longrightarrow> i \<noteq> j \<Longrightarrow> k_offset (kp ! i) \<noteq> k_offset (kp ! j)"
    and "i < length ki \<Longrightarrow> j < length ki \<Longrightarrow> i \<noteq> j \<Longrightarrow> k_offset (ki ! i) \<noteq> k_offset (ki ! j)"
    and "i < length kp \<Longrightarrow> j < length ki \<Longrightarrow> MAX_INT_SIZE + k_offset (kp ! i) \<noteq> k_offset (ki ! j)"
proof -
  have d: "distinct (map (\<lambda>k. MAX_INT_SIZE + k_offset k) kp)" "distinct (map k_offset ki)"
    "set (map (\<lambda>k. MAX_INT_SIZE + k_offset k) kp) \<inter> set (map k_offset ki) = {}"
    using assms by (auto simp: registers_ok_def)
  show "i < length kp \<Longrightarrow> 0 \<le> ci_pointerSize ci \<Longrightarrow> 0 \<le> k_offset (kp ! i)"
    using assms by (meson nth_mem order_trans registers_ok_def)
  show "i < length kp \<Longrightarrow> j < length kp \<Longrightarrow> i \<noteq> j \<Longrightarrow> k_offset (kp ! i) \<noteq> k_offset (kp ! j)"
    using d(1) by (auto simp: distinct_conv_nth)
  show "i < length ki \<Longrightarrow> j < length ki \<Longrightarrow> i \<noteq> j \<Longrightarrow> k_offset (ki ! i) \<noteq> k_offset (ki ! j)"
    using d(2) by (auto simp: distinct_conv_nth)
  show "i < length kp \<Longrightarrow> j < length ki \<Longrightarrow> MAX_INT_SIZE + k_offset (kp ! i) \<noteq> k_offset (ki ! j)"
    using d(3) by (auto dest!: nth_mem)
qed

text \<open>The hypotheses on the kernel class: its persistent scalars and the parameters leave room for the rest.\<close>

definition class_fits :: "CLINFO \<Rightarrow> int \<Rightarrow> int \<Rightarrow> (clsid \<times> cGraphColor list) list \<Rightarrow> bool" where
  "class_fits ci parms priv kss \<longleftrightarrow>
     0 \<le> ci_pointerSize ci \<and> ci_pointerSize ci \<le> MAX_POINTER_SIZE \<and> 0 \<le> ci_intSize ci \<and> 0 \<le> parms \<and>
     ci_intSize ci + parms \<le> MAX_INT_SIZE \<and>
     int_demand ci (colors_of kss CPointer) (colors_of kss CInteger) \<le> MAX_INT_SIZE - ci_intSize ci - parms \<and>
     0 \<le> round_vector priv \<and> round_vector priv \<le> MAX_PRIVATE_SIZE"

definition color_layout :: "CLINFO \<Rightarrow> int \<Rightarrow> (clsid \<times> cGraphColor list) list \<Rightarrow> (clsid \<times> cGraphColor list) list \<Rightarrow> bool" where
  "color_layout ci parms kss kss' \<longleftrightarrow> registers_ok ci parms (colors_of kss' CPointer) (colors_of kss' CInteger) \<and>
     (\<exists>hi. stretches (colors_of kss' CPrivate) {i. i < length (colors_of kss' CPrivate)} 0 hi) \<and>
     (\<forall>c\<in>{CPointer, CInteger, CPrivate}. length (colors_of kss' c) = length (colors_of kss c)) \<and>
     (\<forall>i<length (colors_of kss CPrivate). k_len (colors_of kss' CPrivate ! i) = k_len (colors_of kss CPrivate ! i))"

lemma place_variables_layout:
  assumes pv: "place_variables f parms priv exreg (ci, kss, J) = Inr (ci', sz, K)"
    and cf: "class_fits ci parms priv kss"
    and fr: "\<forall>c\<in>set reg_classes. \<forall>k\<in>set (colors_of kss c). fresh_color c k"
  shows "\<exists>kss'. color_layout ci parms kss kss' \<and> allocateMem kss' (fn_block f) J = Inr K"
proof -
  from pv obtain kp ki kv sv kx J1 where
    ar: "alloc_registers parms (ci, colors_of kss CPointer, colors_of kss CInteger, J) = Inr (ci', kp, ki, J1)" and
    ap: "alloc_private widths (colors_of kss CPrivate, round_vector priv) = Inr (kv, sv)" and
    am: "allocateMem [(CPointer, kp), (CInteger, ki), (CPrivate, kv), (CShared, colors_of kss CShared), (CExReg, kx)]
       (fn_block f) J1 = Inr K"
    by (rule place_variables_parts)
  note C = cf [unfolded class_fits_def]
  let ?kv = "colors_of kss CPrivate"
  have f: "fresh_scalars (colors_of kss CPointer)" "fresh_scalars (colors_of kss CInteger)"
    "\<forall>k\<in>set (colors_of kss CPointer). \<not> k_intOnly k"
    using fr by (auto simp: fresh_scalars_def fresh_color_def reg_classes_def)
  from alloc_registers_ok [OF ar f] C have
    r: "J1 = J" "length kp = length (colors_of kss CPointer)" "length ki = length (colors_of kss CInteger)"
    "registers_ok ci parms kp ki" by auto
  have v: "\<forall>k\<in>set ?kv. 0 \<le> k_len k \<and> \<not> k_intOnly k \<and> k_offset k = -1 \<and> k_vectorWidth k \<in> set widths"
    using fr by (auto simp: fresh_color_def reg_classes_def)
  then have "stretches ?kv (has_place ?kv) 0 (round_vector priv)" by (force simp: has_place_def stretches_def)
  with alloc_private_spec [OF _ ap, of 0] v C have
    s: "stretches kv (has_place kv) 0 sv" "length kv = length ?kv" "\<forall>i<length ?kv. k_len (kv ! i) = k_len (?kv ! i)"
    "has_place kv = has_place ?kv \<union> {i. i < length ?kv \<and> k_vectorWidth (?kv ! i) \<in> set widths}" by auto
  have "has_place kv = {i. i < length kv}" using s(2,4) v by (auto simp: has_place_def)
  with s r am show ?thesis
    by (intro exI [of _ "[(CPointer, kp), (CInteger, ki), (CPrivate, kv), (CShared, colors_of kss CShared), (CExReg, kx)]"])
      (auto simp: color_layout_def colors_of_def)
qed

lemma cells_kind:
  "isKindOf (ident_at K x) CInteger \<Longrightarrow> cells K x = (let a = m_byteOffset (ident_at K x) in
     {if a < MAX_INT_SIZE then (CInteger, a) else (CPointer, a - MAX_INT_SIZE)})"
  "isKindOf (ident_at K x) CPointer \<Longrightarrow> cells K x = {(CPointer, m_byteOffset (ident_at K x))}"
  "isKindOf (ident_at K x) CPrivate \<Longrightarrow> cells K x = Pair CPrivate `
     {m_byteOffset (ident_at K x)..<m_byteOffset (ident_at K x) + getLen (ident_at K x)}"
  by (auto simp: cells_def Let_def isKindOf_def)

lemma cells_disjoint:
  assumes lay: "color_layout ci parms kss kss'" "0 \<le> ci_pointerSize ci"
    and cd: "c \<in> {CPointer, CInteger, CPrivate}" "d \<in> {CPointer, CInteger, CPrivate}"
    and k: "isKindOf (ident_at K x) c" "isKindOf (ident_at K y) d"
    and ad: "addressed kss' K c x" "addressed kss' K d y"
    and len: "\<And>n. c = CPrivate \<Longrightarrow> m_color (ident_at K x) = Some n \<Longrightarrow> getLen (ident_at K x) \<le> k_len (colors_of kss' c ! n)"
      "\<And>n. d = CPrivate \<Longrightarrow> m_color (ident_at K y) = Some n \<Longrightarrow> getLen (ident_at K y) \<le> k_len (colors_of kss' d ! n)"
    and ne: "c = d \<Longrightarrow> m_color (ident_at K x) \<noteq> m_color (ident_at K y)"
  shows "cells K x \<inter> cells K y = {}"
proof -
  from ad obtain m n where m: "m < length (colors_of kss' c)" "m_color (ident_at K x) = Some m"
      "m_byteOffset (ident_at K x) = k_offset (colors_of kss' c ! m)"
    and n: "n < length (colors_of kss' d)" "m_color (ident_at K y) = Some n"
      "m_byteOffset (ident_at K y) = k_offset (colors_of kss' d ! n)" by (auto simp: addressed_def)
  have mn: "c = d \<Longrightarrow> m \<noteq> n" using ne m(2) n(2) by auto
  have ro: "registers_ok ci parms (colors_of kss' CPointer) (colors_of kss' CInteger)" using lay(1) by (simp add: color_layout_def)
  note R = registers_okD [OF ro]
  have other: "cells K z \<inter> cells K w = {}" if "isKindOf (ident_at K z) CPrivate" "isKindOf (ident_at K w) CInteger \<or> isKindOf (ident_at K w) CPointer" for z w
    using that by (auto simp: cells_kind Let_def split: if_splits)
  from cd consider (p) "c = CPointer" "d = CPointer" | (i) "c = CInteger" "d = CInteger"
    | (pi) "c = CPointer" "d = CInteger" | (ip) "c = CInteger" "d = CPointer"
    | (v) "c = CPrivate" "d = CPrivate" | (v1) "c = CPrivate" "d \<noteq> CPrivate" | (v2) "c \<noteq> CPrivate" "d = CPrivate" by auto
  then show ?thesis
  proof cases
    case p
    with R(2) [of m n] m n mn k show ?thesis by (auto simp: cells_kind)
  next
    case i
    with R(3) [of m n] m n mn k show ?thesis by (auto simp: cells_kind Let_def)
  next
    case pi
    with R(4) [of m n] R(1) [of m] m n k lay(2) show ?thesis by (auto simp: cells_kind Let_def)
  next
    case ip
    with R(4) [of n m] R(1) [of n] m n k lay(2) show ?thesis by (auto simp: cells_kind Let_def)
  next
    case v
    from lay(1) obtain hi where "stretches (colors_of kss' CPrivate) {i. i < length (colors_of kss' CPrivate)} 0 hi"
      by (auto simp: color_layout_def)
    with m(1) n(1) mn v have "k_offset (colors_of kss' c ! m) + k_len (colors_of kss' c ! m) \<le> k_offset (colors_of kss' d ! n) \<or>
        k_offset (colors_of kss' d ! n) + k_len (colors_of kss' d ! n) \<le> k_offset (colors_of kss' c ! m)"
      unfolding stretches_def by (metis mem_Collect_eq nat_neq_iff)
    with len(1) [of m] len(2) [of n] m n v k show ?thesis by (auto simp: cells_kind)
  next
    case v1
    with other [of x y] cd k show ?thesis by auto
  next
    case v2
    with other [of y x] cd k show ?thesis by auto
  qed
qed

definition placeable :: "idents \<Rightarrow> nat \<Rightarrow> bool" where
  "placeable I x \<longleftrightarrow> colorable CPointer I x \<or> colorable CInteger I x \<or> colorable CPrivate I x"


text \<open>The function of \<open>sample_func\<close>, with its three integers, in a class that has no persistent scalars.\<close>

definition sample_node :: cFuncNode where
  "sample_node = \<lparr>fn_name = ''f'', fn_kernel = True, fn_block = AstBlock (Some [2, 3, 4]) []\<rparr>"

lemma colorGraph_none:
  assumes "\<forall>x\<in>set R. \<not> colorable c I x"
  shows "colorGraph c il es R (ks, I) = Some (Inr (ks, I))"
proof -
  have i: "init_color c es R I = I" using assms by (induction R) (simp_all add: init_color_def)
  have "\<not> can_pick c R ([], I)" using assms by (simp add: can_pick_def pick_None open_var_def)
  then show ?thesis unfolding colorGraph_def by (subst while_option_unfold) (simp add: i)
qed


end
