(* ===== verification/Pack.thy ===== *)
theory Pack
  imports Indep Flow Liveness
begin

text \<open>
  Packing: \<open>combine\<close>, \<open>compressInstruction\<close> and \<open>compressFunction\<close> of
  \<open>SW/compiler/instruction.cpp\<close>. An instruction has a slot for each vector unit, one for the scalar
  unit and one for control, and all its slots execute at once. Packing moves the slots of an
  instruction up into free slots of an earlier one.
\<close>

section \<open>One slot and one earlier instruction\<close>

datatype merge_rc = RC_FAIL | RC_FAIL_CONT | RC_OK_LAST | RC_OK_CONT

datatype slot_type = INSTRUCTION_TYPE_MU | INSTRUCTION_TYPE_IMU | INSTRUCTION_TYPE_CONTROL

text \<open>The arguments of \<open>combine\<close> that describe the slot to be moved.\<close>

record slot =
  sl_type :: slot_type
  sl_oc :: int
  sl_alu :: nat
  sl_x1 :: "cTerm option"
  sl_x2 :: "cTerm option"
  sl_xacc :: "cTerm option"
  sl_y :: "cTerm option"

definition slots :: "cInstruction \<Rightarrow> slot list" where
  "slots ins =
     (let alu = (\<lambda>k a. \<lparr>sl_type = INSTRUCTION_TYPE_MU, sl_oc = alu_oc a, sl_alu = k, sl_x1 = alu_x1 a,
                        sl_x2 = alu_x2 a, sl_xacc = alu_xacc a, sl_y = alu_y a\<rparr>);
          u = m_imu ins; c = m_control ins in
      (if alu_oc (m_alu1 ins) > 0 then [alu 0 (m_alu1 ins)] else []) @
      (if alu_oc (m_alu2 ins) > 0 then [alu 1 (m_alu2 ins)] else []) @
      (if imu_oc u > 0 then [\<lparr>sl_type = INSTRUCTION_TYPE_IMU, sl_oc = imu_oc u, sl_alu = 0, sl_x1 = imu_x1 u,
                              sl_x2 = imu_x2 u, sl_xacc = None, sl_y = imu_y u\<rparr>] else []) @
      (if ctl_oc c > 0 then [\<lparr>sl_type = INSTRUCTION_TYPE_CONTROL, sl_oc = ctl_oc c, sl_alu = 0, sl_x1 = None,
                              sl_x2 = None, sl_xacc = None, sl_y = None\<rparr>] else []))"

text \<open>The opcode is looked up in the table of the vector units, whatever its type.\<close>

definition group_clash :: "int \<Rightarrow> cInstruction \<Rightarrow> bool res" where
  "group_clash oc to =
     (if oc > 0 \<and> alu_oc (m_alu1 to) > 0 then
        res_bind (GetMuOpcodeDef oc) (\<lambda>d. if od_group d \<ge> 0
          then res_bind (GetMuOpcodeDef (alu_oc (m_alu1 to))) (\<lambda>e. Inr (od_group d = od_group e))
          else Inr False)
      else Inr False)"

text \<open>Pairs of a result and an operand, all independent: up to the first that is not, or all of them.\<close>

fun indep_until :: "idents \<Rightarrow> (cTerm option \<times> cTerm option) list \<Rightarrow> bool res" where
  "indep_until I [] = Inr True"
| "indep_until I ((y, x) # ps) = res_bind (check_independent I y x) (\<lambda>b. if b then indep_until I ps else Inr False)"

fun indep_each :: "idents \<Rightarrow> (cTerm option \<times> cTerm option) list \<Rightarrow> bool res" where
  "indep_each I [] = Inr True"
| "indep_each I ((y, x) # ps) =
     res_bind (check_independent I y x) (\<lambda>b. res_bind (indep_each I ps) (\<lambda>bs. Inr (b \<and> bs)))"

definition after_results :: "cInstruction \<Rightarrow> slot \<Rightarrow> (cTerm option \<times> cTerm option) list" where
  "after_results to p =
     [(alu_y (m_alu1 to), sl_x1 p), (alu_y (m_alu1 to), sl_x2 p), (alu_y (m_alu1 to), sl_xacc p), (alu_y (m_alu1 to), sl_y p),
      (alu_y (m_alu2 to), sl_x1 p), (alu_y (m_alu2 to), sl_x2 p), (alu_y (m_alu2 to), sl_xacc p), (alu_y (m_alu2 to), sl_y p),
      (imu_y (m_imu to), sl_x1 p), (imu_y (m_imu to), sl_x2 p), (imu_y (m_imu to), sl_y p)]"

definition slot_busy :: "cInstruction \<Rightarrow> slot \<Rightarrow> bool" where
  "slot_busy to p =
     (case sl_type p of
        INSTRUCTION_TYPE_MU \<Rightarrow> if sl_alu p = 0 then alu_oc (m_alu1 to) > 0 else alu_oc (m_alu2 to) > 0
      | INSTRUCTION_TYPE_IMU \<Rightarrow> imu_oc (m_imu to) > 0
      | INSTRUCTION_TYPE_CONTROL \<Rightarrow> ctl_oc (m_control to) > 0)"

definition combine :: "idents \<Rightarrow> cInstruction \<Rightarrow> slot \<Rightarrow> merge_rc res" where
  "combine I to p =
     (let y = sl_y p; a1 = m_alu1 to; a2 = m_alu2 to; u = m_imu to; scalar = (sl_type p = INSTRUCTION_TYPE_IMU) in
      res_bind (group_clash (sl_oc p) to) (\<lambda>clash.
      if clash then Inr RC_FAIL
      else if ctl_oc (m_control to) > 0 then Inr RC_FAIL
      else if y = Some IMU_Lane then Inr RC_FAIL
      else res_bind (indep_until I (after_results to p)) (\<lambda>after.
      if \<not> after then Inr RC_FAIL
      else res_bind (indep_each I [(y, alu_x1 a1), (y, alu_x2 a1), (y, alu_xacc a1)]) (\<lambda>d1.
      res_bind (check_independent I y (alu_y a1)) (\<lambda>e1.
      if \<not> e1 \<and> \<not> scalar then Inr RC_FAIL
      else res_bind (indep_each I [(y, alu_x1 a2), (y, alu_x2 a2), (y, alu_xacc a2)]) (\<lambda>d2.
      res_bind (check_independent I y (alu_y a2)) (\<lambda>e2.
      if \<not> e2 \<and> \<not> scalar then Inr RC_FAIL
      else res_bind (indep_each I [(y, imu_x1 u), (y, imu_x2 u)]) (\<lambda>d3.
      res_bind (check_independent I y (imu_y u)) (\<lambda>e3.
      if \<not> e3 then Inr RC_FAIL
      else
        let last = m_jumpDestination to \<or> (sl_type p = INSTRUCTION_TYPE_CONTROL \<and> sl_oc p > 0) \<or>
                   \<not> d1 \<or> \<not> e1 \<or> \<not> d2 \<or> \<not> e2 \<or> \<not> d3
        in Inr (if slot_busy to p then (if last then RC_FAIL else RC_FAIL_CONT)
                else if last then RC_OK_LAST else RC_OK_CONT))))))))))"

section \<open>All slots and all earlier instructions\<close>

definition can_fit :: "cInstruction \<Rightarrow> cInstruction \<Rightarrow> bool" where
  "can_fit a b \<longleftrightarrow> \<not> (alu_oc (m_alu1 a) > 0 \<and> alu_oc (m_alu1 b) > 0) \<and>
     \<not> (ctl_oc (m_control a) > 0 \<and> ctl_oc (m_control b) > 0) \<and>
     \<not> (imu_oc (m_imu a) > 0 \<and> imu_oc (m_imu b) > 0)"

text \<open>The slots are only moved together.\<close>

definition merge_code :: "merge_rc list \<Rightarrow> merge_rc" where
  "merge_code rcs =
     (if RC_FAIL \<in> set rcs then RC_FAIL
      else if RC_FAIL_CONT \<in> set rcs then (if RC_OK_LAST \<in> set rcs then RC_FAIL else RC_FAIL_CONT)
      else if RC_OK_LAST \<in> set rcs then RC_OK_LAST else RC_OK_CONT)"

fun combine_all :: "idents \<Rightarrow> cInstruction \<Rightarrow> slot list \<Rightarrow> merge_rc list res" where
  "combine_all I to [] = Inr []"
| "combine_all I to (p # ps) = res_bind (combine I to p) (\<lambda>rc. res_bind (combine_all I to ps) (\<lambda>rcs. Inr (rc # rcs)))"

definition refuse :: "merge_rc \<Rightarrow> merge_rc" where
  "refuse rc = (case rc of RC_OK_LAST \<Rightarrow> RC_FAIL | RC_OK_CONT \<Rightarrow> RC_FAIL_CONT | _ \<Rightarrow> rc)"

definition merge_at :: "idents \<Rightarrow> cInstruction \<Rightarrow> cInstruction \<Rightarrow> merge_rc res" where
  "merge_at I ins to =
     res_bind (combine_all I to (slots ins)) (\<lambda>rcs.
       let rc = (if isNull to then refuse (merge_code rcs) else merge_code rcs)
       in Inr (if can_fit ins to then rc else refuse rc))"

text \<open>Upwards over the instructions in front, the nearest first, the last one beginning the function.\<close>

fun find_merge :: "idents \<Rightarrow> program \<Rightarrow> cInstruction \<Rightarrow> nat list \<Rightarrow> nat option res" where
  "find_merge I P ins [] = Inr None"
| "find_merge I P ins (j # js) =
     res_bind (merge_at I ins (instr_at P j)) (\<lambda>rc.
       case rc of
         RC_OK_LAST \<Rightarrow> Inr (Some j)
       | RC_OK_CONT \<Rightarrow> Inr (Some j)
       | RC_FAIL \<Rightarrow> Inr None
       | RC_FAIL_CONT \<Rightarrow> if ctl_oc (m_control ins) > 0 then Inr None else find_merge I P ins js)"

text \<open>The instructions in front of \<open>i\<close> in the function that begins at \<open>b\<close>, the nearest first.\<close>

definition in_front :: "program \<Rightarrow> nat \<Rightarrow> nat \<Rightarrow> nat list" where
  "in_front P b i = rev (takeWhile (\<lambda>j. j \<noteq> i) (dropWhile (\<lambda>j. j \<noteq> b) (p_order P)))"

definition merge_into :: "cInstruction \<Rightarrow> cInstruction \<Rightarrow> cInstruction" where
  "merge_into ins to =
     to\<lparr>m_alu1 := if alu_oc (m_alu1 ins) > 0 then m_alu1 ins else m_alu1 to,
        m_alu2 := if alu_oc (m_alu2 ins) > 0 then m_alu2 ins else m_alu2 to,
        m_imu := if imu_oc (m_imu ins) > 0 then m_imu ins else m_imu to,
        m_control := if ctl_oc (m_control ins) > 0 then m_control ins else m_control to\<rparr>"

definition remove_instr :: "nat \<Rightarrow> program \<Rightarrow> program" where
  "remove_instr i P = P\<lparr>p_order := remove1 i (p_order P)\<rparr>"

definition compressInstruction :: "idents \<Rightarrow> nat \<Rightarrow> nat \<Rightarrow> program \<Rightarrow> (bool \<times> program) res" where
  "compressInstruction I b i P =
     (let ins = instr_at P i in
      if m_jumpDestination ins then Inr (False, P)
      else if i = b then Inr (False, P)
      else res_bind (find_merge I P ins (in_front P b i)) (\<lambda>found.
        case found of
          None \<Rightarrow> Inr (False, P)
        | Some j \<Rightarrow> Inr (True, remove_instr i (upd_instr j (merge_into ins) P))))"

section \<open>All instructions of a function\<close>

text \<open>An operation that either vector unit can do is tried in the other one.\<close>

definition swap_alu :: "cInstruction \<Rightarrow> cInstruction option" where
  "swap_alu ins =
     (if alu_oc (m_alu1 ins) > 0 \<and> alu_which (m_alu1 ins) = eMuOpcodeDefAluBoth \<and> alu_oc (m_alu2 ins) < 0
      then Some (ins\<lparr>m_alu2 := m_alu1 ins, m_alu1 := (m_alu1 ins)\<lparr>alu_oc := -1\<rparr>\<rparr>)
      else if alu_oc (m_alu2 ins) > 0 \<and> alu_which (m_alu2 ins) = eMuOpcodeDefAluBoth \<and> alu_oc (m_alu1 ins) \<le> 0
      then Some (ins\<lparr>m_alu1 := m_alu2 ins, m_alu2 := (m_alu2 ins)\<lparr>alu_oc := -1\<rparr>\<rparr>)
      else None)"

definition compress_either :: "idents \<Rightarrow> nat \<Rightarrow> nat \<Rightarrow> program \<Rightarrow> (bool \<times> program) res" where
  "compress_either I b i P =
     res_bind (compressInstruction I b i P) (\<lambda>(ok, P1).
       if ok then Inr (True, P1)
       else (case swap_alu (instr_at P1 i) of
               None \<Rightarrow> Inr (False, P1)
             | Some ins \<Rightarrow> compressInstruction I b i (upd_instr i (\<lambda>_. ins) P1)))"

text \<open>One pass, backwards; the flag tells whether an instruction was packed.\<close>

fun compress_pass :: "idents \<Rightarrow> nat \<Rightarrow> nat list \<Rightarrow> bool \<times> program \<Rightarrow> (bool \<times> program) res" where
  "compress_pass I b [] s = Inr s"
| "compress_pass I b (i # is) s =
     (if ctl_oc (m_control (instr_at (snd s) i)) \<le> 0
      then res_bind (compress_either I b i (snd s)) (\<lambda>(ok, P1). compress_pass I b is (fst s \<or> ok, P1))
      else compress_pass I b is s)"

fun compress_control :: "idents \<Rightarrow> nat \<Rightarrow> nat list \<Rightarrow> program \<Rightarrow> program res" where
  "compress_control I b [] P = Inr P"
| "compress_control I b (i # is) P =
     (if ctl_oc (m_control (instr_at P i)) > 0
      then res_bind (compressInstruction I b i P) (\<lambda>(_, P1). compress_control I b is P1)
      else compress_control I b is P)"

definition backwards :: "program \<Rightarrow> nat \<Rightarrow> nat list" where
  "backwards P b = rev (tl (function_range P b))"

definition compress_round :: "idents \<Rightarrow> nat \<Rightarrow> (bool \<times> program) res \<Rightarrow> (bool \<times> program) res" where
  "compress_round I b s = res_bind s (\<lambda>(_, P). compress_pass I b (backwards P b) (False, P))"

definition packing :: "(bool \<times> program) res \<Rightarrow> bool" where
  "packing s = (case s of Inr (cont, _) \<Rightarrow> cont | Inl _ \<Rightarrow> False)"

definition compressFunction :: "idents \<Rightarrow> nat \<Rightarrow> program \<Rightarrow> program res option" where
  "compressFunction I b P =
     (if b = GetFunctionEnd P b then Some (Inr P)
      else map_option (\<lambda>s. res_bind s (\<lambda>(_, Q). compress_control I b (backwards Q b) Q))
        (while_option packing (compress_round I b) (Inr (True, P))))"

section \<open>What an instruction does to the machine\<close>

text \<open>
  A store has a value for every machine cell of theory \<open>Indep\<close>. An operation is a busy slot; \<open>sem\<close> gives
  the value that an operation writes to a cell. Whatever the operations compute, they compute it from the
  cells of their operands (\<open>reads_only\<close>). All operations of an instruction read the store as it is before the
  instruction.
\<close>

type_synonym store = "cell \<Rightarrow> int"

datatype op = OpAlu1 Instruction_alu | OpAlu2 Instruction_alu | OpImu Instruction_ialu

definition reg_index :: "store \<Rightarrow> nat \<Rightarrow> int" where
  "reg_index s x = s (CellInt x)"

definition opt_touched :: "idents \<Rightarrow> store \<Rightarrow> cTerm option \<Rightarrow> cell set" where
  "opt_touched I s t = (case t of None \<Rightarrow> {} | Some x \<Rightarrow> touched_cells I (reg_index s) x)"

definition opt_written :: "idents \<Rightarrow> store \<Rightarrow> cTerm option \<Rightarrow> cell set" where
  "opt_written I s t = (case t of None \<Rightarrow> {} | Some x \<Rightarrow> written_cells I (reg_index s) x)"

fun op_operands :: "op \<Rightarrow> cTerm option list" where
  "op_operands (OpAlu1 a) = [alu_x1 a, alu_x2 a, alu_xacc a, alu_y a]"
| "op_operands (OpAlu2 a) = [alu_x1 a, alu_x2 a, alu_xacc a, alu_y a]"
| "op_operands (OpImu u) = [imu_x1 u, imu_x2 u, imu_y u]"

fun op_result :: "op \<Rightarrow> cTerm option" where
  "op_result (OpAlu1 a) = alu_y a"
| "op_result (OpAlu2 a) = alu_y a"
| "op_result (OpImu u) = imu_y u"

definition op_reads :: "idents \<Rightarrow> store \<Rightarrow> op \<Rightarrow> cell set" where
  "op_reads I s p = (\<Union>t\<in>set (op_operands p). opt_touched I s t)"

definition op_writes :: "idents \<Rightarrow> store \<Rightarrow> op \<Rightarrow> cell set" where
  "op_writes I s p = opt_written I s (op_result p)"

definition reads_only :: "idents \<Rightarrow> (op \<Rightarrow> store \<Rightarrow> store) \<Rightarrow> bool" where
  "reads_only I sem \<longleftrightarrow> (\<forall>p s t. (\<forall>c\<in>op_reads I s p. s c = t c) \<longrightarrow> (\<forall>c\<in>op_writes I s p. sem p s c = sem p t c))"

definition ops_of :: "cInstruction \<Rightarrow> op list" where
  "ops_of ins = (if alu_oc (m_alu1 ins) > 0 then [OpAlu1 (m_alu1 ins)] else []) @
     (if alu_oc (m_alu2 ins) > 0 then [OpAlu2 (m_alu2 ins)] else []) @
     (if imu_oc (m_imu ins) > 0 then [OpImu (m_imu ins)] else [])"

definition writer :: "idents \<Rightarrow> store \<Rightarrow> op list \<Rightarrow> cell \<Rightarrow> op option" where
  "writer I s ps c = find (\<lambda>p. c \<in> op_writes I s p) (rev ps)"

definition exec_ops :: "idents \<Rightarrow> (op \<Rightarrow> store \<Rightarrow> store) \<Rightarrow> op list \<Rightarrow> store \<Rightarrow> store" where
  "exec_ops I sem ps s = (\<lambda>c. case writer I s ps c of Some p \<Rightarrow> sem p s c | None \<Rightarrow> s c)"

definition exec_instr :: "idents \<Rightarrow> (op \<Rightarrow> store \<Rightarrow> store) \<Rightarrow> cInstruction \<Rightarrow> store \<Rightarrow> store" where
  "exec_instr I sem ins = exec_ops I sem (ops_of ins)"

definition exec_all :: "idents \<Rightarrow> (op \<Rightarrow> store \<Rightarrow> store) \<Rightarrow> program \<Rightarrow> nat list \<Rightarrow> store \<Rightarrow> store" where
  "exec_all I sem P is s = fold (\<lambda>i. exec_instr I sem (instr_at P i)) is s"

section \<open>Operations that do not touch each other\<close>

lemma written_touched: "written_cells I idx t \<subseteq> touched_cells I idx t"
  by (cases t) auto

lemma touched_cong:
  "\<forall>c\<in>touched_cells I (reg_index s) t. s c = u c \<Longrightarrow>
     touched_cells I (reg_index u) t = touched_cells I (reg_index s) t \<and>
     written_cells I (reg_index u) t = written_cells I (reg_index s) t"
  by (cases t) (auto simp: reg_index_def)

lemma op_cong:
  assumes "\<forall>c\<in>op_reads I s p. s c = u c"
  shows "op_reads I u p = op_reads I s p" "op_writes I u p = op_writes I s p"
proof -
  have e: "opt_touched I u t = opt_touched I s t \<and> opt_written I u t = opt_written I s t"
    if "t \<in> set (op_operands p)" for t
    using assms that touched_cong [of I s "the t" u] by (cases t) (auto simp: op_reads_def opt_touched_def opt_written_def)
  show "op_reads I u p = op_reads I s p" using e by (auto simp: op_reads_def)
  have "op_result p \<in> set (op_operands p)" by (cases p) auto
  with e show "op_writes I u p = op_writes I s p" by (simp add: op_writes_def)
qed

lemma writes_reads: "op_writes I s p \<subseteq> op_reads I s p"
proof -
  have "op_result p \<in> set (op_operands p)" by (cases p) auto
  moreover have "opt_written I s t \<subseteq> opt_touched I s t" for t
    using written_touched by (auto simp: opt_written_def opt_touched_def split: option.splits)
  ultimately show ?thesis unfolding op_reads_def op_writes_def by blast
qed

text \<open>No operation of \<open>ps\<close> reads or writes what one of \<open>qs\<close> writes.\<close>

definition clear_of :: "idents \<Rightarrow> store \<Rightarrow> op list \<Rightarrow> op list \<Rightarrow> bool" where
  "clear_of I s ps qs \<longleftrightarrow> (\<forall>p\<in>set ps. \<forall>q\<in>set qs. op_reads I s p \<inter> op_writes I s q = {})"

lemma writer_Some: "writer I s ps c = Some p \<Longrightarrow> p \<in> set ps \<and> c \<in> op_writes I s p"
proof -
  assume "writer I s ps c = Some p"
  then obtain i where "i < length (rev ps)" "c \<in> op_writes I s (rev ps ! i)" "p = rev ps ! i"
    by (auto simp: writer_def find_Some_iff)
  then show ?thesis by (metis nth_mem set_rev)
qed

lemma writer_None: "writer I s ps c = None \<longleftrightarrow> (\<forall>p\<in>set ps. c \<notin> op_writes I s p)"
  by (auto simp: writer_def find_None_iff)

lemma exec_ops_other: "\<forall>p\<in>set ps. c \<notin> op_writes I s p \<Longrightarrow> exec_ops I sem ps s c = s c"
  by (simp add: exec_ops_def writer_None [THEN iffD2])

lemma clear_reads:
  assumes "clear_of I s ps qs" "p \<in> set ps" "c \<in> op_reads I s p"
  shows "exec_ops I sem qs s c = s c"
  using assms by (intro exec_ops_other) (auto simp: clear_of_def)

lemma clear_cong:
  assumes "clear_of I s ps qs" "p \<in> set ps"
  shows "op_reads I (exec_ops I sem qs s) p = op_reads I s p" "op_writes I (exec_ops I sem qs s) p = op_writes I s p"
  using op_cong [of I s p "exec_ops I sem qs s"] clear_reads [OF assms] by simp_all

lemma writer_cong:
  "\<forall>p\<in>set ps. op_writes I t p = op_writes I s p \<Longrightarrow> writer I t ps c = writer I s ps c"
  by (auto simp: writer_def intro!: find_cong)

text \<open>Afterwards, at a cell: what \<open>ps\<close> writes there, computed from the old store, else what \<open>qs\<close> left there.\<close>

lemma exec_after:
  assumes "reads_only I sem" "clear_of I s ps qs"
  shows "exec_ops I sem ps (exec_ops I sem qs s) c =
    (case writer I s ps c of Some p \<Rightarrow> sem p s c | None \<Rightarrow> exec_ops I sem qs s c)"
proof -
  let ?t = "exec_ops I sem qs s"
  have w: "writer I ?t ps c = writer I s ps c" using clear_cong(2) [OF assms(2)] by (intro writer_cong) simp
  have "sem p ?t c = sem p s c" if "writer I s ps c = Some p" for p
  proof -
    from writer_Some [OF that] have p: "p \<in> set ps" "c \<in> op_writes I s p" by simp_all
    have "\<forall>c\<in>op_reads I s p. s c = ?t c" using clear_reads [OF assms(2) p(1)] by simp
    with assms(1) p(2) show ?thesis unfolding reads_only_def by metis
  qed
  then show ?thesis by (simp add: exec_ops_def [of I sem ps ?t] w split: option.splits)
qed

lemma clear_writer:
  assumes "clear_of I s ps qs" "writer I s ps c = Some p"
  shows "writer I s qs c = None"
  using writer_Some [OF assms(2)] assms(1) writes_reads [of I s p] by (auto simp: writer_None clear_of_def)

lemma exec_ops_commute:
  assumes "reads_only I sem" "clear_of I s ps qs" "clear_of I s qs ps"
  shows "exec_ops I sem ps (exec_ops I sem qs s) = exec_ops I sem qs (exec_ops I sem ps s)"
proof
  fix c
  note e = exec_after [OF assms(1,2)] exec_after [OF assms(1,3)]
  show "exec_ops I sem ps (exec_ops I sem qs s) c = exec_ops I sem qs (exec_ops I sem ps s) c"
    unfolding e using clear_writer [OF assms(2), of c] clear_writer [OF assms(3), of c]
    by (auto simp: exec_ops_def split: option.splits)
qed

section \<open>One instruction instead of two\<close>

lemma find_app: "find P (xs @ ys) = (case find P xs of None \<Rightarrow> find P ys | Some x \<Rightarrow> Some x)"
  by (induction xs) auto

definition slots_free :: "cInstruction \<Rightarrow> cInstruction \<Rightarrow> bool" where
  "slots_free ins to \<longleftrightarrow> \<not> (alu_oc (m_alu1 ins) > 0 \<and> alu_oc (m_alu1 to) > 0) \<and>
     \<not> (alu_oc (m_alu2 ins) > 0 \<and> alu_oc (m_alu2 to) > 0) \<and> \<not> (imu_oc (m_imu ins) > 0 \<and> imu_oc (m_imu to) > 0)"

lemma writer_merge:
  assumes "slots_free ins to" "clear_of I s (ops_of ins) (ops_of to)"
  shows "writer I s (ops_of (merge_into ins to)) c =
    (case writer I s (ops_of ins) c of Some p \<Rightarrow> Some p | None \<Rightarrow> writer I s (ops_of to) c)"
proof (cases "writer I s (ops_of ins) c")
  case None
  with assms(1) show ?thesis
    by (auto simp: writer_def ops_of_def merge_into_def slots_free_def find_app split: if_splits)
next
  case (Some p)
  from clear_writer [OF assms(2) Some] have "writer I s (ops_of to) c = None" .
  with Some assms(1) show ?thesis
    by (auto simp: writer_def ops_of_def merge_into_def slots_free_def find_app split: if_splits)
qed

lemma exec_merge:
  assumes "reads_only I sem" "slots_free ins to" "clear_of I s (ops_of ins) (ops_of to)"
  shows "exec_instr I sem (merge_into ins to) s = exec_instr I sem ins (exec_instr I sem to s)"
proof
  fix c
  show "exec_instr I sem (merge_into ins to) s c = exec_instr I sem ins (exec_instr I sem to s) c"
    unfolding exec_instr_def exec_after [OF assms(1,3)]
    by (simp add: exec_ops_def writer_merge [OF assms(2,3)] split: option.splits)
qed

section \<open>What the checks of \<open>combine\<close> give\<close>

text \<open>
  Operands as \<open>gen.cpp\<close> makes them: a scalar unit has a scalar result, and an accumulator operand is a
  variable without an index, a vector only beside a vector result.
\<close>

definition acc_ok :: "idents \<Rightarrow> Instruction_alu \<Rightarrow> bool" where
  "acc_ok I a \<longleftrightarrow> (\<forall>x. alu_xacc a = Some x \<longrightarrow> (\<exists>i off sub. x = MU_Storage i off sub) \<and>
     (mu_getVectorWidth I x \<ge> 1 \<longrightarrow> (\<exists>y. alu_y a = Some y \<and> (\<forall>idx. CellLane \<in> touched_cells I idx y))))"

fun op_ok :: "idents \<Rightarrow> op \<Rightarrow> bool" where
  "op_ok I (OpAlu1 a) \<longleftrightarrow> acc_ok I a"
| "op_ok I (OpAlu2 a) \<longleftrightarrow> acc_ok I a"
| "op_ok I (OpImu u) \<longleftrightarrow> (\<forall>y. imu_y u = Some y \<longrightarrow> \<not> is_MU y)"

definition operands_ok :: "idents \<Rightarrow> cInstruction \<Rightarrow> bool" where
  "operands_ok I ins \<longleftrightarrow> (\<forall>p\<in>set (ops_of ins). op_ok I p \<and>
     (\<forall>x. Some x \<in> set (op_operands p) \<longrightarrow> ptr_operand_ok I x))"

lemma indep_until_True: "indep_until I ps = Inr True \<Longrightarrow> \<forall>(y, x)\<in>set ps. check_independent I y x = Inr True"
  by (induction I ps rule: indep_until.induct) (auto simp: res_bind_eq_Inr_iff split: if_splits)

lemma indep_each_True: "indep_each I ps = Inr True \<Longrightarrow> \<forall>(y, x)\<in>set ps. check_independent I y x = Inr True"
  by (induction I ps rule: indep_each.induct) (auto simp: res_bind_eq_Inr_iff)

definition own_operands :: "cInstruction \<Rightarrow> cTerm option list" where
  "own_operands to = [alu_x1 (m_alu1 to), alu_x2 (m_alu1 to), alu_xacc (m_alu1 to), alu_y (m_alu1 to),
     alu_x1 (m_alu2 to), alu_x2 (m_alu2 to), alu_xacc (m_alu2 to), alu_y (m_alu2 to),
     imu_x1 (m_imu to), imu_x2 (m_imu to), imu_y (m_imu to)]"

lemma combine_spec:
  assumes "combine I to p = Inr rc" "rc \<noteq> RC_FAIL"
  shows "ctl_oc (m_control to) \<le> 0"
    and "(y, x) \<in> set (after_results to p) \<Longrightarrow> check_independent I y x = Inr True"
    and "rc \<in> {RC_FAIL_CONT, RC_OK_CONT} \<Longrightarrow> \<not> m_jumpDestination to"
    and "rc \<in> {RC_FAIL_CONT, RC_OK_CONT} \<Longrightarrow> x \<in> set (own_operands to) \<Longrightarrow> check_independent I (sl_y p) x = Inr True"
    and "rc \<in> {RC_OK_LAST, RC_OK_CONT} \<Longrightarrow> \<not> slot_busy to p"
proof -
  from assms obtain d1 e1 d2 e2 d3 where
    c: "\<not> ctl_oc (m_control to) > 0" "indep_until I (after_results to p) = Inr True"
      "check_independent I (sl_y p) (imu_y (m_imu to)) = Inr True" and
    d: "indep_each I [(sl_y p, alu_x1 (m_alu1 to)), (sl_y p, alu_x2 (m_alu1 to)), (sl_y p, alu_xacc (m_alu1 to))] = Inr d1"
      "check_independent I (sl_y p) (alu_y (m_alu1 to)) = Inr e1"
      "indep_each I [(sl_y p, alu_x1 (m_alu2 to)), (sl_y p, alu_x2 (m_alu2 to)), (sl_y p, alu_xacc (m_alu2 to))] = Inr d2"
      "check_independent I (sl_y p) (alu_y (m_alu2 to)) = Inr e2"
      "indep_each I [(sl_y p, imu_x1 (m_imu to)), (sl_y p, imu_x2 (m_imu to))] = Inr d3" and
    rc: "rc = (let last = m_jumpDestination to \<or> (sl_type p = INSTRUCTION_TYPE_CONTROL \<and> sl_oc p > 0) \<or>
                   \<not> d1 \<or> \<not> e1 \<or> \<not> d2 \<or> \<not> e2 \<or> \<not> d3
        in if slot_busy to p then (if last then RC_FAIL else RC_FAIL_CONT)
                else if last then RC_OK_LAST else RC_OK_CONT)"
    unfolding combine_def Let_def
    by (auto simp del: indep_each.simps simp: res_bind_eq_Inr_iff split: if_split_asm)
  show "ctl_oc (m_control to) \<le> 0" using c(1) by simp
  show "(y, x) \<in> set (after_results to p) \<Longrightarrow> check_independent I y x = Inr True"
    using indep_until_True [OF c(2)] by auto
  show "rc \<in> {RC_OK_LAST, RC_OK_CONT} \<Longrightarrow> \<not> slot_busy to p"
    using rc by (auto simp: Let_def split: if_splits)
  assume rc': "rc \<in> {RC_FAIL_CONT, RC_OK_CONT}"
  with rc have l: "\<not> m_jumpDestination to" "d1" "e1" "d2" "e2" "d3"
    by (auto simp: Let_def split: if_splits)
  then show "\<not> m_jumpDestination to" by simp
  assume "x \<in> set (own_operands to)"
  moreover note dd = d [unfolded eqTrueI [OF l(2)] eqTrueI [OF l(3)] eqTrueI [OF l(4)] eqTrueI [OF l(5)] eqTrueI [OF l(6)]]
  ultimately show "check_independent I (sl_y p) x = Inr True"
    using c(3) dd(2,4) indep_each_True [OF dd(1)] indep_each_True [OF dd(3)] indep_each_True [OF dd(5)]
    by (auto simp: own_operands_def simp del: indep_each.simps)
qed

lemma check_clear:
  assumes "check_independent I y x = Inr True" "scopes_ok I"
    "\<And>t. x = Some t \<Longrightarrow> ptr_operand_ok I t" "\<And>t. y = Some t \<Longrightarrow> ptr_operand_ok I t"
  shows "opt_touched I s x \<inter> opt_written I s y = {}"
  using assms independent_sound [where ?I = I, OF _ assms(2)]
  by (auto simp: check_independent_def opt_touched_def opt_written_def split: option.splits)

lemma combine_all_spec:
  "combine_all I to ps = Inr rcs \<Longrightarrow> list_all2 (\<lambda>p rc. combine I to p = Inr rc) ps rcs"
  by (induction I to ps arbitrary: rcs rule: combine_all.induct) (auto simp: res_bind_eq_Inr_iff)

lemma list_all2_ex: "list_all2 P xs ys \<Longrightarrow> x \<in> set xs \<Longrightarrow> \<exists>y\<in>set ys. P x y"
  by (induction rule: list_all2_induct) auto

lemma merge_at_spec:
  assumes m: "merge_at I ins to = Inr rc" "rc \<noteq> RC_FAIL" and p: "p \<in> set (slots ins)"
  shows "\<exists>rc'. combine I to p = Inr rc' \<and> rc' \<noteq> RC_FAIL \<and>
    (rc = RC_FAIL_CONT \<longrightarrow> rc' \<in> {RC_FAIL_CONT, RC_OK_CONT}) \<and>
    (rc \<in> {RC_OK_LAST, RC_OK_CONT} \<longrightarrow> rc' \<in> {RC_OK_LAST, RC_OK_CONT} \<and> can_fit ins to)"
proof -
  from m obtain rcs where r: "combine_all I to (slots ins) = Inr rcs"
    "rc = (let rc = (if isNull to then refuse (merge_code rcs) else merge_code rcs)
       in if can_fit ins to then rc else refuse rc)"
    unfolding merge_at_def res_bind_eq_Inr_iff Let_def by auto
  from list_all2_ex [OF combine_all_spec [OF r(1)] p] obtain rc' where c: "combine I to p = Inr rc'" "rc' \<in> set rcs"
    by blast
  have rc4: "rc' = RC_FAIL \<or> rc' = RC_FAIL_CONT \<or> rc' = RC_OK_LAST \<or> rc' = RC_OK_CONT" by (cases rc') auto
  have "merge_code rcs \<noteq> RC_FAIL" using m(2) r(2) by (auto simp: refuse_def Let_def split: if_splits)
  then have nf: "RC_FAIL \<notin> set rcs" by (auto simp: merge_code_def)
  have cont: "rc' \<in> {RC_FAIL_CONT, RC_OK_CONT}" if "rc = RC_FAIL_CONT"
  proof -
    have "merge_code rcs = RC_FAIL_CONT \<or> merge_code rcs = RC_OK_CONT"
      using that r(2) by (auto simp: refuse_def Let_def split: if_splits merge_rc.splits)
    then have "RC_OK_LAST \<notin> set rcs" by (auto simp: merge_code_def split: if_splits)
    with c(2) nf rc4 show ?thesis by auto
  qed
  have ok: "rc' \<in> {RC_OK_LAST, RC_OK_CONT} \<and> can_fit ins to" if "rc \<in> {RC_OK_LAST, RC_OK_CONT}"
  proof -
    have "merge_code rcs \<in> {RC_OK_LAST, RC_OK_CONT}" "can_fit ins to"
      using that r(2) by (auto simp: refuse_def Let_def split: if_splits merge_rc.splits)
    then have "RC_FAIL_CONT \<notin> set rcs" by (auto simp: merge_code_def split: if_splits)
    with c(2) nf rc4 \<open>can_fit ins to\<close> show ?thesis by auto
  qed
  from c nf cont ok show ?thesis by blast
qed

text \<open>The slot of an operation, and its operands.\<close>

lemma op_slot:
  assumes "q \<in> set (ops_of ins)"
  obtains p where "p \<in> set (slots ins)" "sl_y p = op_result q"
    "set (op_operands q) \<subseteq> {sl_x1 p, sl_x2 p, sl_xacc p, sl_y p}"
    "sl_xacc p = None \<or> (\<exists>a. (q = OpAlu1 a \<or> q = OpAlu2 a) \<and> sl_xacc p = alu_xacc a)"
    "slot_busy to p \<longleftrightarrow> (case q of OpAlu1 _ \<Rightarrow> alu_oc (m_alu1 to) > 0 | OpAlu2 _ \<Rightarrow> alu_oc (m_alu2 to) > 0
       | OpImu _ \<Rightarrow> imu_oc (m_imu to) > 0)"
proof -
  from assms consider (1) "q = OpAlu1 (m_alu1 ins)" "alu_oc (m_alu1 ins) > 0"
    | (2) "q = OpAlu2 (m_alu2 ins)" "alu_oc (m_alu2 ins) > 0" | (3) "q = OpImu (m_imu ins)" "imu_oc (m_imu ins) > 0"
    by (auto simp: ops_of_def split: if_splits)
  then show thesis
  proof cases
    case 1
    show thesis
      by (rule that [of "\<lparr>sl_type = INSTRUCTION_TYPE_MU, sl_oc = alu_oc (m_alu1 ins), sl_alu = 0, sl_x1 = alu_x1 (m_alu1 ins),
            sl_x2 = alu_x2 (m_alu1 ins), sl_xacc = alu_xacc (m_alu1 ins), sl_y = alu_y (m_alu1 ins)\<rparr>"])
        (use 1 in \<open>auto simp: slots_def slot_busy_def Let_def\<close>)
  next
    case 2
    show thesis
      by (rule that [of "\<lparr>sl_type = INSTRUCTION_TYPE_MU, sl_oc = alu_oc (m_alu2 ins), sl_alu = 1, sl_x1 = alu_x1 (m_alu2 ins),
            sl_x2 = alu_x2 (m_alu2 ins), sl_xacc = alu_xacc (m_alu2 ins), sl_y = alu_y (m_alu2 ins)\<rparr>"])
        (use 2 in \<open>auto simp: slots_def slot_busy_def Let_def\<close>)
  next
    case 3
    show thesis
      by (rule that [of "\<lparr>sl_type = INSTRUCTION_TYPE_IMU, sl_oc = imu_oc (m_imu ins), sl_alu = 0, sl_x1 = imu_x1 (m_imu ins),
            sl_x2 = imu_x2 (m_imu ins), sl_xacc = None, sl_y = imu_y (m_imu ins)\<rparr>"])
        (use 3 in \<open>auto simp: slots_def slot_busy_def Let_def\<close>)
  qed
qed

lemma result_ok: "operands_ok I ins \<Longrightarrow> p \<in> set (ops_of ins) \<Longrightarrow> op_result p = Some t \<Longrightarrow> ptr_operand_ok I t"
proof -
  assume a: "operands_ok I ins" "p \<in> set (ops_of ins)" "op_result p = Some t"
  have "op_result p \<in> set (op_operands p)" by (cases p) auto
  with a show ?thesis by (auto simp: operands_ok_def)
qed

lemma own_operand: "q \<in> set (ops_of to) \<Longrightarrow> set (op_operands q) \<subseteq> set (own_operands to)"
  by (auto simp: ops_of_def own_operands_def split: if_splits)

text \<open>The scalar unit's result is no word of memory.\<close>

lemma scalar_written: "\<not> is_MU y \<Longrightarrow> CellWord i k \<notin> written_cells I idx y"
  by (cases y) auto

lemma result_operands:
  assumes "q \<in> set (ops_of to)" "t = op_result q" "x \<in> {sl_x1 p, sl_x2 p, sl_y p} \<or> (x = sl_xacc p \<and> (\<forall>u. q \<noteq> OpImu u))"
  shows "(t, x) \<in> set (after_results to p)"
proof -
  from assms(1) consider "q = OpAlu1 (m_alu1 to)" | "q = OpAlu2 (m_alu2 to)" | "q = OpImu (m_imu to)"
    by (auto simp: ops_of_def split: if_splits)
  then show ?thesis using assms(2,3) by cases (auto simp: after_results_def)
qed

lemma clear_after:
  assumes c: "combine I to p = Inr rc" "rc \<noteq> RC_FAIL" and p: "q \<in> set (ops_of ins)" "sl_y p = op_result q"
      "set (op_operands q) \<subseteq> {sl_x1 p, sl_x2 p, sl_xacc p, sl_y p}"
      "sl_xacc p = None \<or> (\<exists>a. (q = OpAlu1 a \<or> q = OpAlu2 a) \<and> sl_xacc p = alu_xacc a)"
    and r: "r \<in> set (ops_of to)" and ok: "scopes_ok I" "operands_ok I ins" "operands_ok I to"
  shows "op_reads I s q \<inter> op_writes I s r = {}"
proof -
  have pr: "opt_touched I s x \<inter> op_writes I s r = {}"
    if x: "x \<in> set (op_operands q)" "x \<in> {sl_x1 p, sl_x2 p, sl_y p} \<or> (x = sl_xacc p \<and> (\<forall>u. r \<noteq> OpImu u))" for x
    unfolding op_writes_def
  proof (rule check_clear [OF combine_spec(2) [OF c] ok(1)])
    show "(op_result r, x) \<in> set (after_results to p)" using result_operands [OF r refl x(2)] .
    show "x = Some t \<Longrightarrow> ptr_operand_ok I t" for t using ok(2) p(1) x(1) by (auto simp: operands_ok_def)
    show "op_result r = Some t \<Longrightarrow> ptr_operand_ok I t" for t using result_ok [OF ok(3) r] .
  qed
  have "opt_touched I s x \<inter> op_writes I s r = {}" if x: "x \<in> set (op_operands q)" for x
  proof (cases "x \<in> {sl_x1 p, sl_x2 p, sl_y p} \<or> (x = sl_xacc p \<and> (\<forall>u. r \<noteq> OpImu u))")
    case False
    with x p(3) obtain u where u: "x = sl_xacc p" "r = OpImu u" by auto
    show ?thesis
    proof (cases x)
      case (Some t)
      with u p(4) obtain a where a: "q = OpAlu1 a \<or> q = OpAlu2 a" "alu_xacc a = Some t" by auto
      have "acc_ok I a" using ok(2) p(1) a(1) by (auto simp: operands_ok_def)
      then obtain i off sub where t: "t = MU_Storage i off sub" and lane: "mu_getVectorWidth I t \<ge> 1 \<Longrightarrow>
          \<exists>y. alu_y a = Some y \<and> (\<forall>idx. CellLane \<in> touched_cells I idx y)" using a(2) by (auto simp: acc_ok_def)
      have w: "CellWord i k \<notin> op_writes I s r" for i k
        using ok(3) r u(2) scalar_written by (auto simp: op_writes_def opt_written_def operands_ok_def split: option.splits)
      have "CellLane \<notin> op_writes I s r" if wd: "mu_getVectorWidth I t \<ge> 1"
      proof -
        from lane [OF wd] obtain y where y: "alu_y a = Some y" "\<forall>idx. CellLane \<in> touched_cells I idx y" by blast
        have "op_result q \<in> set (op_operands q)" by (cases q) auto
        from pr [OF this] p(2) have "opt_touched I s (op_result q) \<inter> op_writes I s r = {}" by simp
        moreover have "op_result q = Some y" using a(1) y(1) by auto
        ultimately have "touched_cells I (reg_index s) y \<inter> op_writes I s r = {}" by (simp add: opt_touched_def)
        with y(2) show ?thesis by blast
      qed
      with w Some t show ?thesis by (auto simp: opt_touched_def var_cells_def lane_cells_def split: if_splits)
    qed (simp add: opt_touched_def)
  qed (rule pr [OF x])
  then show ?thesis by (auto simp: op_reads_def)
qed

lemma clear_before:
  assumes c: "combine I to p = Inr rc" "rc \<in> {RC_FAIL_CONT, RC_OK_CONT}" and p: "q \<in> set (ops_of ins)" "sl_y p = op_result q"
    and r: "r \<in> set (ops_of to)" and ok: "scopes_ok I" "operands_ok I ins" "operands_ok I to"
  shows "op_reads I s r \<inter> op_writes I s q = {}"
proof -
  have "opt_touched I s x \<inter> op_writes I s q = {}" if x: "x \<in> set (op_operands r)" for x
    unfolding op_writes_def p(2) [symmetric]
  proof (rule check_clear [OF combine_spec(4) [OF c(1) _ c(2)] ok(1)])
    show "rc \<noteq> RC_FAIL" using c(2) by auto
    show "x \<in> set (own_operands to)" using own_operand [OF r] x by blast
    show "x = Some t \<Longrightarrow> ptr_operand_ok I t" for t using ok(3) r x by (auto simp: operands_ok_def)
    show "sl_y p = Some t \<Longrightarrow> ptr_operand_ok I t" for t using result_ok [OF ok(2) p(1)] p(2) by simp
  qed
  then show ?thesis by (auto simp: op_reads_def)
qed

section \<open>Packing preserves the function\<close>

lemma merge_at_clear:
  assumes m: "merge_at I ins to = Inr rc" "rc \<noteq> RC_FAIL" and ok: "scopes_ok I" "operands_ok I ins" "operands_ok I to"
  shows "clear_of I s (ops_of ins) (ops_of to)"
    and "rc = RC_FAIL_CONT \<Longrightarrow> clear_of I s (ops_of to) (ops_of ins)"
    and "rc \<in> {RC_OK_LAST, RC_OK_CONT} \<Longrightarrow> slots_free ins to"
    and "\<not> isNull ins \<Longrightarrow> ctl_oc (m_control to) \<le> 0"
    and "rc = RC_FAIL_CONT \<Longrightarrow> \<not> isNull ins \<Longrightarrow> \<not> m_jumpDestination to"
proof -
  have one: "op_reads I s q \<inter> op_writes I s r = {} \<and>
      (rc = RC_FAIL_CONT \<longrightarrow> op_reads I s r \<inter> op_writes I s q = {})"
    if q: "q \<in> set (ops_of ins)" and r: "r \<in> set (ops_of to)" for q r
  proof -
    obtain p where p: "p \<in> set (slots ins)" "sl_y p = op_result q"
      "set (op_operands q) \<subseteq> {sl_x1 p, sl_x2 p, sl_xacc p, sl_y p}"
      "sl_xacc p = None \<or> (\<exists>a. (q = OpAlu1 a \<or> q = OpAlu2 a) \<and> sl_xacc p = alu_xacc a)"
      by (rule op_slot [OF q, of to])
    from merge_at_spec [OF m p(1)] obtain rc' where c: "combine I to p = Inr rc'" "rc' \<noteq> RC_FAIL"
      "rc = RC_FAIL_CONT \<longrightarrow> rc' \<in> {RC_FAIL_CONT, RC_OK_CONT}" by blast
    have "op_reads I s q \<inter> op_writes I s r = {}" using clear_after [OF c(1,2) q p(2-4) r ok] .
    moreover have "op_reads I s r \<inter> op_writes I s q = {}" if "rc = RC_FAIL_CONT"
      using clear_before [OF c(1) _ q p(2) r ok] c(3) that by blast
    ultimately show ?thesis by blast
  qed
  show "clear_of I s (ops_of ins) (ops_of to)" using one by (simp add: clear_of_def)
  show "rc = RC_FAIL_CONT \<Longrightarrow> clear_of I s (ops_of to) (ops_of ins)" using one by (simp add: clear_of_def)
  show "slots_free ins to" if rc: "rc \<in> {RC_OK_LAST, RC_OK_CONT}"
  proof -
    have free: "\<not> (case q of OpAlu1 _ \<Rightarrow> alu_oc (m_alu1 to) > 0 | OpAlu2 _ \<Rightarrow> alu_oc (m_alu2 to) > 0
        | OpImu _ \<Rightarrow> imu_oc (m_imu to) > 0)" if q: "q \<in> set (ops_of ins)" for q
    proof -
      obtain p where p: "p \<in> set (slots ins)"
        "slot_busy to p \<longleftrightarrow> (case q of OpAlu1 _ \<Rightarrow> alu_oc (m_alu1 to) > 0 | OpAlu2 _ \<Rightarrow> alu_oc (m_alu2 to) > 0
           | OpImu _ \<Rightarrow> imu_oc (m_imu to) > 0)"
        by (rule op_slot [OF q, of to])
      from merge_at_spec [OF m p(1)] rc combine_spec(5) p(2) show ?thesis by blast
    qed
    show ?thesis unfolding slots_free_def
    proof (intro conjI notI; elim conjE)
      show "0 < alu_oc (m_alu1 ins) \<Longrightarrow> 0 < alu_oc (m_alu1 to) \<Longrightarrow> False"
        using free [of "OpAlu1 (m_alu1 ins)"] by (simp add: ops_of_def)
      show "0 < alu_oc (m_alu2 ins) \<Longrightarrow> 0 < alu_oc (m_alu2 to) \<Longrightarrow> False"
        using free [of "OpAlu2 (m_alu2 ins)"] by (simp add: ops_of_def)
      show "0 < imu_oc (m_imu ins) \<Longrightarrow> 0 < imu_oc (m_imu to) \<Longrightarrow> False"
        using free [of "OpImu (m_imu ins)"] by (simp add: ops_of_def)
    qed
  qed
  assume "\<not> isNull ins"
  then obtain p where p: "p \<in> set (slots ins)"
    by (cases "slots ins") (auto simp: slots_def isNull_def Let_def split: if_splits)
  from merge_at_spec [OF m p] obtain rc' where c: "combine I to p = Inr rc'" "rc' \<noteq> RC_FAIL"
    "rc = RC_FAIL_CONT \<longrightarrow> rc' \<in> {RC_FAIL_CONT, RC_OK_CONT}" by blast
  show "ctl_oc (m_control to) \<le> 0" using combine_spec(1) [OF c(1,2)] .
  show "rc = RC_FAIL_CONT \<Longrightarrow> \<not> m_jumpDestination to" using combine_spec(3) [OF c(1,2)] c(3) by blast
qed

text \<open>Where the search ends, and what it has passed by.\<close>

lemma find_merge_spec:
  assumes "find_merge I P ins js = Inr (Some c)" and ok: "scopes_ok I" "operands_ok I ins" "\<forall>j. operands_ok I (instr_at P j)"
    and nn: "\<not> isNull ins"
  shows "\<exists>us vs. js = us @ c # vs \<and> slots_free ins (instr_at P c) \<and>
    (\<forall>s. clear_of I s (ops_of ins) (ops_of (instr_at P c))) \<and>
    (\<forall>u\<in>set us. \<forall>s. clear_of I s (ops_of ins) (ops_of (instr_at P u)) \<and> clear_of I s (ops_of (instr_at P u)) (ops_of ins)) \<and>
    (\<forall>j\<in>set (c # us). ctl_oc (m_control (instr_at P j)) \<le> 0) \<and> (\<forall>u\<in>set us. \<not> m_jumpDestination (instr_at P u)) \<and>
    (0 < ctl_oc (m_control ins) \<longrightarrow> us = [])"
  using assms(1)
proof (induction js)
  case (Cons j js)
  then obtain rc where m: "merge_at I ins (instr_at P j) = Inr rc" by (auto simp: res_bind_eq_Inr_iff)
  have okj: "operands_ok I (instr_at P j)" using ok(3) by blast
  show ?case
  proof (cases "rc = RC_FAIL_CONT")
    case True
    with m Cons.prems have f: "find_merge I P ins js = Inr (Some c)" "\<not> 0 < ctl_oc (m_control ins)"
      by (auto split: if_splits)
    have nf: "rc \<noteq> RC_FAIL" using True by simp
    note M = merge_at_clear [OF m nf ok(1,2) okj]
    have cj: "\<forall>s. clear_of I s (ops_of ins) (ops_of (instr_at P j)) \<and> clear_of I s (ops_of (instr_at P j)) (ops_of ins)"
      "ctl_oc (m_control (instr_at P j)) \<le> 0" "\<not> m_jumpDestination (instr_at P j)"
      using M(1) M(2) [OF True] M(4) [OF nn] M(5) [OF True nn] by blast+
    from Cons.IH [OF f(1)] obtain us vs where IH: "js = us @ c # vs" "slots_free ins (instr_at P c)"
      "\<forall>s. clear_of I s (ops_of ins) (ops_of (instr_at P c))"
      "\<forall>u\<in>set us. \<forall>s. clear_of I s (ops_of ins) (ops_of (instr_at P u)) \<and> clear_of I s (ops_of (instr_at P u)) (ops_of ins)"
      "\<forall>j\<in>set (c # us). ctl_oc (m_control (instr_at P j)) \<le> 0" "\<forall>u\<in>set us. \<not> m_jumpDestination (instr_at P u)"
      by blast
    show ?thesis
      by (rule exI [of _ "j # us"], rule exI [of _ vs]) (use IH cj f(2) in simp)
  next
    case False
    with m Cons.prems have rc: "rc \<in> {RC_OK_LAST, RC_OK_CONT}" "c = j" by (cases rc; simp)+
    then have nf: "rc \<noteq> RC_FAIL" by auto
    note M = merge_at_clear [OF m nf ok(1,2) okj]
    show ?thesis
      by (rule exI [of _ "[]"], rule exI [of _ js]) (use rc M(1) M(3) [OF rc(1)] M(4) [OF nn] in simp)
  qed
qed simp

text \<open>An instruction moves in front of instructions that it neither affects nor is affected by.\<close>

lemma exec_move_up:
  assumes "reads_only I sem"
    and "\<forall>u\<in>set us. \<forall>s. clear_of I s (ops_of ins) (ops_of (instr_at P u)) \<and> clear_of I s (ops_of (instr_at P u)) (ops_of ins)"
  shows "exec_instr I sem ins (exec_all I sem P us s) = exec_all I sem P us (exec_instr I sem ins s)"
  using assms(2)
proof (induction us arbitrary: s)
  case (Cons u us)
  have "exec_instr I sem ins (exec_instr I sem (instr_at P u) s) = exec_instr I sem (instr_at P u) (exec_instr I sem ins s)"
    unfolding exec_instr_def using Cons.prems by (intro exec_ops_commute [OF assms(1)]) simp_all
  with Cons show ?case by (simp add: exec_all_def)
qed (simp add: exec_all_def)

lemma exec_all_cong: "\<forall>j\<in>set js. instr_at Q j = instr_at P j \<Longrightarrow> exec_all I sem Q js s = exec_all I sem P js s"
  by (induction js arbitrary: s) (simp_all add: exec_all_def)

lemma in_front_split:
  assumes "in_front P b i = us @ c # vs" "i \<in> set (dropWhile (\<lambda>j. j \<noteq> b) (p_order P))"
  shows "\<exists>xs ys. p_order P = xs @ c # rev us @ i # ys"
proof -
  let ?d = "dropWhile (\<lambda>j. j \<noteq> b) (p_order P)"
  obtain ds ys where d: "?d = ds @ i # ys" "i \<notin> set ds" using split_list_first [OF assms(2)] by blast
  then have "takeWhile (\<lambda>j. j \<noteq> i) ?d = ds" unfolding d(1) by (induction ds) auto
  then have "ds = rev (us @ c # vs)" using assms(1) by (simp add: in_front_def rev_swap)
  then have "?d = rev vs @ c # rev us @ i # ys" using d(1) by simp
  then have "p_order P = takeWhile (\<lambda>j. j \<noteq> b) (p_order P) @ rev vs @ c # rev us @ i # ys"
    by (metis takeWhile_dropWhile_id)
  then show ?thesis by (metis append.assoc)
qed

text \<open>
  C5: Packing an instruction into an earlier one preserves the program. When \<open>compressInstruction\<close>
  succeeds, the instruction \<open>i\<close> is gone and one earlier instruction \<open>c\<close> of the same straight-line stretch
  has taken over its slots, and whatever the slots compute from their operands, the stretch does to the
  machine what it did before. No branch leads into the stretch behind its first instruction and none leaves
  it. A branch is only packed into the instruction just in front of it, and the slots that decide it read
  the same values there.
\<close>

theorem compressInstruction_correct:
  assumes r: "compressInstruction I b i P = Inr (True, P')" and ok: "scopes_ok I" "\<forall>j. operands_ok I (instr_at P j)"
    and d: "distinct (p_order P)" "set (p_order P) \<subseteq> {..<length (p_code P)}"
    and i: "i \<in> set (dropWhile (\<lambda>j. j \<noteq> b) (p_order P))" "\<not> isNull (instr_at P i)"
    and sem: "reads_only I sem"
  shows "\<exists>xs c us ys. p_order P = xs @ c # us @ i # ys \<and> p_order P' = xs @ c # us @ ys \<and>
    (\<forall>j. j \<noteq> c \<longrightarrow> instr_at P' j = instr_at P j) \<and>
    (\<forall>s. exec_all I sem P' (c # us) s = exec_all I sem P (c # us @ [i]) s) \<and>
    (\<forall>j\<in>set (c # us). ctl_oc (m_control (instr_at P j)) \<le> 0) \<and>
    (\<forall>j\<in>set (us @ [i]). \<not> m_jumpDestination (instr_at P j)) \<and>
    (0 < ctl_oc (m_control (instr_at P i)) \<longrightarrow> us = [] \<and>
       (\<forall>s. \<forall>p\<in>set (ops_of (instr_at P i)). \<forall>x\<in>op_reads I s p. exec_instr I sem (instr_at P c) s x = s x))"
proof -
  let ?i = "instr_at P i"
  from r obtain c where c: "find_merge I P ?i (in_front P b i) = Inr (Some c)" "\<not> m_jumpDestination ?i"
    "P' = remove_instr i (upd_instr c (merge_into ?i) P)"
    by (auto simp: compressInstruction_def Let_def res_bind_eq_Inr_iff split: if_splits option.splits)
  from find_merge_spec [OF c(1) ok(1) spec [OF ok(2)] ok(2) i(2)] obtain us vs where
    f: "in_front P b i = us @ c # vs" "slots_free ?i (instr_at P c)"
    "\<forall>s. clear_of I s (ops_of ?i) (ops_of (instr_at P c))"
    "\<forall>u\<in>set us. \<forall>s. clear_of I s (ops_of ?i) (ops_of (instr_at P u)) \<and> clear_of I s (ops_of (instr_at P u)) (ops_of ?i)"
    "\<forall>j\<in>set (c # us). ctl_oc (m_control (instr_at P j)) \<le> 0" "\<forall>u\<in>set us. \<not> m_jumpDestination (instr_at P u)"
    "0 < ctl_oc (m_control ?i) \<longrightarrow> us = []" by blast
  from in_front_split [OF f(1) i(1)] obtain xs ys where o: "p_order P = xs @ c # rev us @ i # ys" by blast
  have ni: "i \<notin> set xs" "i \<noteq> c" "i \<notin> set us" "c \<notin> set us" using d(1) o by auto
  have cl: "c < length (p_code P)" using d(2) o by auto
  have at: "instr_at P' j = (if j = c then merge_into ?i (instr_at P c) else instr_at P j)" for j
  proof -
    have "instr_at P' j = instr_at (upd_instr c (merge_into ?i) P) j" by (simp add: c(3) remove_instr_def instr_at_def)
    then show ?thesis using cl by simp
  qed
  have "p_order P' = remove1 i (p_order P)" by (simp add: c(3) remove_instr_def)
  then have o': "p_order P' = xs @ c # rev us @ ys" using o ni by (simp add: remove1_append)
  have "exec_all I sem P' (c # rev us) s = exec_all I sem P (c # rev us @ [i]) s" for s
  proof -
    have "exec_all I sem P' (c # rev us) s = exec_all I sem P' (rev us) (exec_instr I sem (merge_into ?i (instr_at P c)) s)"
      by (simp add: exec_all_def at)
    also have "\<dots> = exec_all I sem P (rev us) (exec_instr I sem (merge_into ?i (instr_at P c)) s)"
      using ni(4) by (intro exec_all_cong) (auto simp: at)
    also have "\<dots> = exec_all I sem P (rev us) (exec_instr I sem ?i (exec_instr I sem (instr_at P c) s))"
      using exec_merge [OF sem f(2)] f(3) by simp
    also have "\<dots> = exec_instr I sem ?i (exec_all I sem P (rev us) (exec_instr I sem (instr_at P c) s))"
      using f(4) by (intro exec_move_up [OF sem, symmetric]) simp
    finally show ?thesis by (simp add: exec_all_def)
  qed
  moreover have "\<forall>s. \<forall>p\<in>set (ops_of ?i). \<forall>x\<in>op_reads I s p. exec_instr I sem (instr_at P c) s x = s x"
    using clear_reads f(3) unfolding exec_instr_def by blast
  ultimately show ?thesis using o o' at f(5-7) c(2)
    by (intro exI [of _ xs] exI [of _ c] exI [of _ "rev us"] exI [of _ ys]) auto
qed

text \<open>\<open>n = 5; v = a + b\<close> with an integer \<open>n\<close> (2) and private vectors \<open>a\<close>, \<open>b\<close>, \<open>v\<close> (3, 4, 5) becomes one instruction.\<close>

definition pack_ids :: idents where
  "pack_ids = [blank_cIdentifier CResult, blank_cIdentifier CLane, blank_cIdentifier CInteger] @
     replicate 3 ((blank_cIdentifier CPrivate)\<lparr>m_w := 3\<rparr>)"

definition pack_program :: program where
  "pack_program = \<lparr>p_code =
     [createIMU IOPCODE_ADD (Some IMU_Zero) (Some (IMU_Constant 5)) (Some (IMU_Integer 2)) new_cInstruction,
      new_cInstruction\<lparr>m_alu1 := \<lparr>alu_oc = 12, alu_which = eMuOpcodeDefAlu1, alu_x1 = Some (MU_Storage 3 0 False),
        alu_x2 = Some (MU_Storage 4 0 False), alu_y = Some (MU_Storage 5 0 False), alu_xacc = None\<rparr>\<rparr>,
      createUnconditionalJump OPCODE_RETURN None False new_cInstruction],
     p_order = [0, 1, 2], p_funcs = []\<rparr>"

theorem compressInstruction_correct_witness:
  "\<exists>P'. compressInstruction pack_ids 0 1 pack_program = Inr (True, P') \<and> p_order P' = [0, 2] \<and>
     (\<forall>s. exec_all pack_ids (\<lambda>_ _ _. 7) P' [0] s = exec_all pack_ids (\<lambda>_ _ _. 7) pack_program [0, 1] s)"
proof -
  have "map_sum (\<lambda>e. e) fst (compressInstruction pack_ids 0 1 pack_program) = Inr True" by code_simp
  then obtain P' where r: "compressInstruction pack_ids 0 1 pack_program = Inr (True, P')"
    by (cases "compressInstruction pack_ids 0 1 pack_program") auto
  have s: "scopes_ok pack_ids" by code_simp
  have all: "list_all (operands_ok pack_ids) (p_code pack_program)"
    by (simp add: pack_program_def pack_ids_def operands_ok_def ops_of_def createIMU_def createUnconditionalJump_def
        new_cInstruction_def empty_alu_def acc_ok_def ptr_operand_ok_def is_ptr_def isKindOf_def ident_at_def
        blank_cIdentifier_def)
  have none: "operands_ok pack_ids new_cInstruction"
    by (simp add: operands_ok_def ops_of_def new_cInstruction_def empty_alu_def)
  have o: "operands_ok pack_ids (instr_at pack_program j)" for j
    using all none by (cases "j < length (p_code pack_program)") (auto simp: instr_at_def list_all_iff)
  have e: "reads_only pack_ids (\<lambda>_ _ _. 7)" by (simp add: reads_only_def)
  have "distinct (p_order pack_program)" "set (p_order pack_program) \<subseteq> {..<length (p_code pack_program)}"
    "(1::nat) \<in> set (dropWhile (\<lambda>j. j \<noteq> 0) (p_order pack_program))" "\<not> isNull (instr_at pack_program 1)"
    by (auto simp: pack_program_def isNull_def instr_at_def new_cInstruction_def empty_alu_def)
  from compressInstruction_correct [OF r s allI [OF o] this e] obtain xs c us ys where
    w: "p_order pack_program = xs @ c # us @ 1 # ys" "p_order P' = xs @ c # us @ ys"
    "\<forall>s. exec_all pack_ids (\<lambda>_ _ _. 7) P' (c # us) s = exec_all pack_ids (\<lambda>_ _ _. 7) pack_program (c # us @ [1]) s"
    by blast
  from w(1) have "xs = []" "c = 0" "us = []" "ys = [2]" by (auto simp: pack_program_def Cons_eq_append_conv append_eq_Cons_conv)
  with r w show ?thesis by auto
qed

section \<open>Packing ends\<close>

lemma subseq_remove1: "subseq (remove1 x xs) xs"
  by (induction xs) (auto intro: subseq_order.order_refl)

lemma compressInstruction_order:
  assumes "compressInstruction I b i P = Inr (ok, P')"
  shows "p_order P' = (if ok then remove1 i (p_order P) else p_order P)" "ok \<Longrightarrow> i \<noteq> b"
  using assms by (auto simp: compressInstruction_def remove_instr_def Let_def res_bind_eq_Inr_iff
      split: if_splits option.splits)

lemma compress_either_order:
  assumes "compress_either I b i P = Inr (ok, P')"
  shows "p_order P' = (if ok then remove1 i (p_order P) else p_order P)" "ok \<Longrightarrow> i \<noteq> b"
proof -
  from assms obtain ok1 P1 where s: "compressInstruction I b i P = Inr (ok1, P1)"
    "(if ok1 then Inr (True, P1) else (case swap_alu (instr_at P1 i) of None \<Rightarrow> Inr (False, P1)
      | Some ins \<Rightarrow> compressInstruction I b i (upd_instr i (\<lambda>_. ins) P1))) = Inr (ok, P')"
    by (auto simp: compress_either_def res_bind_eq_Inr_iff)
  note o1 = compressInstruction_order [OF s(1)]
  have "p_order P' = (if ok then remove1 i (p_order P) else p_order P) \<and> (ok \<longrightarrow> i \<noteq> b)"
  proof (cases ok1)
    case False
    show ?thesis
    proof (cases "swap_alu (instr_at P1 i)")
      case (Some ins)
      with s(2) False have "compressInstruction I b i (upd_instr i (\<lambda>_. ins) P1) = Inr (ok, P')" by simp
      from compressInstruction_order [OF this] o1 False show ?thesis by simp
    qed (use s(2) o1 False in auto)
  qed (use s(2) o1 in auto)
  then show "p_order P' = (if ok then remove1 i (p_order P) else p_order P)" "ok \<Longrightarrow> i \<noteq> b" by auto
qed

lemma subseq_distinct: "subseq xs ys \<Longrightarrow> distinct ys \<Longrightarrow> distinct xs"
proof (induction rule: list_emb.induct)
  case (list_emb_Cons2 x y xs ys)
  then show ?case using subseq_order.order_refl list_emb_set [of "(=)" xs ys] by auto
qed auto

text \<open>The instructions that are left: in the old order, without doubles, the first of the function among them.\<close>

definition shrunk :: "nat \<Rightarrow> program \<Rightarrow> program \<Rightarrow> bool" where
  "shrunk b P Q \<longleftrightarrow> subseq (p_order Q) (p_order P) \<and> (b \<in> set (p_order P) \<longrightarrow> b \<in> set (p_order Q))"

lemma shrunk_refl [simp]: "shrunk b P P"
  by (simp add: shrunk_def)

lemma shrunk_trans: "shrunk b P Q \<Longrightarrow> shrunk b Q R \<Longrightarrow> shrunk b P R"
  unfolding shrunk_def using subseq_order.order_trans by blast

lemma shrunk_distinct: "shrunk b P Q \<Longrightarrow> distinct (p_order P) \<Longrightarrow> distinct (p_order Q)"
  unfolding shrunk_def using subseq_distinct by blast

lemma shrunk_remove:
  "p_order Q = (if ok then remove1 i (p_order P) else p_order P) \<Longrightarrow> (ok \<Longrightarrow> i \<noteq> b) \<Longrightarrow> shrunk b P Q"
  by (cases ok) (auto simp: shrunk_def subseq_remove1)

lemma compress_pass_shrinks:
  "compress_pass I b is (cont, P) = Inr (cont', P') \<Longrightarrow> distinct (p_order P) \<Longrightarrow> distinct is \<Longrightarrow>
   set is \<subseteq> set (p_order P) \<Longrightarrow>
   shrunk b P P' \<and> (cont' \<longrightarrow> cont \<or> length (p_order P') < length (p_order P)) \<and>
   length (p_order P') \<le> length (p_order P)"
proof (induction "is" arbitrary: cont P)
  case Nil
  then show ?case by simp
next
  case (Cons i "is")
  show ?case
  proof (cases "ctl_oc (m_control (instr_at P i)) \<le> 0")
    case True
    with Cons.prems(1) obtain ok P1 where s: "compress_either I b i P = Inr (ok, P1)"
      "compress_pass I b is (cont \<or> ok, P1) = Inr (cont', P')"
      by (auto simp: res_bind_eq_Inr_iff)
    note o = compress_either_order [OF s(1)]
    have sh: "shrunk b P P1" using shrunk_remove [OF o] .
    have "distinct (p_order P1)" using shrunk_distinct [OF sh Cons.prems(2)] .
    moreover have "set is \<subseteq> set (p_order P1)" using Cons.prems(2-4) o(1) by auto
    ultimately have IH: "shrunk b P1 P'" "cont' \<longrightarrow> (cont \<or> ok) \<or> length (p_order P') < length (p_order P1)"
      "length (p_order P') \<le> length (p_order P1)"
      using Cons.IH [OF s(2)] Cons.prems(3) by simp_all
    have "0 < length (p_order P)" using Cons.prems(4) by auto
    then have len: "length (p_order P1) \<le> length (p_order P)" "ok \<Longrightarrow> length (p_order P1) < length (p_order P)"
      using o(1) Cons.prems(4) by (auto simp: length_remove1)
    from IH len shrunk_trans [OF sh IH(1)] show ?thesis by linarith
  next
    case False
    with Cons show ?thesis by simp
  qed
qed

lemma compress_control_shrinks:
  "compress_control I b is P = Inr P' \<Longrightarrow> shrunk b P P'"
proof (induction "is" arbitrary: P)
  case (Cons i "is")
  show ?case
  proof (cases "ctl_oc (m_control (instr_at P i)) > 0")
    case True
    with Cons.prems obtain ok P1 where s: "compressInstruction I b i P = Inr (ok, P1)"
      "compress_control I b is P1 = Inr P'"
      by (auto simp: res_bind_eq_Inr_iff)
    from shrunk_trans [OF shrunk_remove [OF compressInstruction_order [OF s(1)]] Cons.IH [OF s(2)]] show ?thesis .
  qed (use Cons in simp)
qed simp

text \<open>What the loop keeps: the program has shrunk from \<open>P0\<close>, or the compiler has stopped with an error.\<close>

definition pack_inv :: "nat \<Rightarrow> program \<Rightarrow> (bool \<times> program) res \<Rightarrow> bool" where
  "pack_inv b P0 s \<longleftrightarrow> distinct (p_order P0) \<and> (\<forall>c P. s = Inr (c, P) \<longrightarrow> shrunk b P0 P)"

definition packed_away :: "program \<Rightarrow> (bool \<times> program) res \<Rightarrow> nat" where
  "packed_away P0 s = (case s of Inr (_, P) \<Rightarrow> length (p_order P0) - length (p_order P) | Inl _ \<Rightarrow> 0)"

lemma backwards_sub: "set (backwards P b) \<subseteq> set (p_order P)" "distinct (p_order P) \<Longrightarrow> distinct (backwards P b)"
proof -
  let ?r = "function_range P b"
  have s: "set ?r \<subseteq> set (p_order P)"
    unfolding function_range_def instr_range_def upto_incl_def
    by (auto simp: Let_def split: if_splits dest!: set_takeWhileD set_dropWhileD)
  have "set (tl ?r) \<subseteq> set ?r" by (cases ?r) auto
  with s show "set (backwards P b) \<subseteq> set (p_order P)" by (auto simp: backwards_def)
  assume "distinct (p_order P)"
  then have "distinct ?r"
    unfolding function_range_def instr_range_def upto_incl_def by (auto simp: Let_def dest!: set_takeWhileD)
  then show "distinct (backwards P b)" by (simp add: backwards_def distinct_tl)
qed

lemma compress_round_shrinks:
  assumes "pack_inv b P0 (Inr (c, P))" "compress_round I b (Inr (c, P)) = Inr (c', P')"
  shows "shrunk b P0 P'" "c' \<Longrightarrow> length (p_order P') < length (p_order P)" "length (p_order P) \<le> length (p_order P0)"
proof -
  have sh: "shrunk b P0 P" and d: "distinct (p_order P)" using assms(1) shrunk_distinct by (auto simp: pack_inv_def)
  have "compress_pass I b (backwards P b) (False, P) = Inr (c', P')" using assms(2) by (simp add: compress_round_def)
  from compress_pass_shrinks [OF this d backwards_sub(2) [OF d] backwards_sub(1)]
  show "shrunk b P0 P'" "c' \<Longrightarrow> length (p_order P') < length (p_order P)" using shrunk_trans [OF sh] by auto
  show "length (p_order P) \<le> length (p_order P0)" using sh list_emb_length by (auto simp: shrunk_def)
qed

interpretation pack: fixpoint_loop "pack_inv b P0" packing "compress_round I b" "packed_away P0" "\<lambda>s. length (p_order P0)"
  for I b P0
proof
  fix s assume inv: "pack_inv b P0 s"
  show "pack_inv b P0 (compress_round I b s)"
    unfolding pack_inv_def
  proof (intro conjI allI impI)
    show "distinct (p_order P0)" using inv by (simp add: pack_inv_def)
    fix c' P' assume r: "compress_round I b s = Inr (c', P')"
    then obtain c P where s: "s = Inr (c, P)" by (cases s) (auto simp: compress_round_def)
    from compress_round_shrinks(1) [OF inv [unfolded s] r [unfolded s]] show "shrunk b P0 P'" .
  qed
  show "packed_away P0 s < packed_away P0 (compress_round I b s)" if ch: "packing (compress_round I b s)"
  proof -
    obtain c' P' where r: "compress_round I b s = Inr (c', P')" "c'"
      using ch by (auto simp: packing_def split: sum.splits)
    then obtain c P where s: "s = Inr (c, P)" by (cases s) (auto simp: compress_round_def)
    note sh = compress_round_shrinks [OF inv [unfolded s] r(1) [unfolded s]]
    have "length (p_order P') < length (p_order P)" using sh(2) r(2) .
    with sh(3) show ?thesis unfolding s r(1) [unfolded s] by (simp add: packed_away_def)
  qed
  show "packed_away P0 s \<le> length (p_order P0)" by (auto simp: packed_away_def split: sum.splits)
  show "length (p_order P0) = length (p_order P0)" by simp
qed

text \<open>
  C21: Packing a function ends: however often an instruction is packed, there is one instruction less
  each time. Whatever comes out, it only leaves instructions away: those that stay keep their order,
  and the first of the function stays.
\<close>

theorem compressFunction_terminates:
  assumes "distinct (p_order P)"
  shows "\<exists>r. compressFunction I b P = Some r \<and> (\<forall>Q. r = Inr Q \<longrightarrow> subseq (p_order Q) (p_order P) \<and>
    (b \<in> set (p_order P) \<longrightarrow> b \<in> set (p_order Q)))"
proof (cases "b = GetFunctionEnd P b")
  case True
  then show ?thesis by (simp add: compressFunction_def)
next
  case False
  have inv: "pack_inv b P (Inr (True, P))" using assms by (simp add: pack_inv_def)
  from pack.loop_ends [OF inv, of I] obtain t u where
    t: "while_option packing (compress_round I b) (Inr (True, P)) = Some t" "pack_inv b P u" "t = compress_round I b u"
    by (auto simp: packing_def)
  then have "pack_inv b P t" using pack.inv_round by blast
  then have sh: "t = Inr (c, Q) \<Longrightarrow> shrunk b P Q" for c Q by (simp add: pack_inv_def)
  show ?thesis
  proof (intro exI conjI allI impI)
    show "compressFunction I b P = Some (res_bind t (\<lambda>(_, Q). compress_control I b (backwards Q b) Q))"
      using False t(1) by (simp add: compressFunction_def)
    fix Q assume "res_bind t (\<lambda>(_, Q). compress_control I b (backwards Q b) Q) = Inr Q"
    then obtain c R where "t = Inr (c, R)" "compress_control I b (backwards R b) R = Inr Q"
      by (auto simp: res_bind_eq_Inr_iff)
    from shrunk_trans [OF sh [OF this(1)] compress_control_shrinks [OF this(2)]]
    show "subseq (p_order Q) (p_order P)" "b \<in> set (p_order P) \<Longrightarrow> b \<in> set (p_order Q)" by (auto simp: shrunk_def)
  qed
qed

theorem compressFunction_terminates_witness:
  "\<exists>r. compressFunction pack_ids 0 pack_program = Some r"
  using compressFunction_terminates [of pack_program pack_ids 0] by (auto simp: pack_program_def)

text \<open>\<open>v = a + b; f(n)\<close> with the argument \<open>n\<close> (2).\<close>

definition call_program :: program where
  "call_program = \<lparr>p_code =
     [new_cInstruction\<lparr>m_alu1 := \<lparr>alu_oc = 12, alu_which = eMuOpcodeDefAlu1, alu_x1 = Some (MU_Storage 3 0 False),
        alu_x2 = Some (MU_Storage 4 0 False), alu_y = Some (MU_Storage 5 0 False), alu_xacc = None\<rparr>\<rparr>,
      createFunctionJump ''f'' 0 [2] None new_cInstruction,
      createUnconditionalJump OPCODE_RETURN None False new_cInstruction],
     p_order = [0, 1, 2], p_funcs = []\<rparr>"

text \<open>
  Packing a call into a vector instruction loses what both of them read: the argument list of the call
  (\<open>m_x_stack\<close>) stays behind, and \<open>getUse\<close> does not look at the other slots of a call. The allocation of
  registers, which runs after packing, then takes the operands and the arguments for dead.
\<close>

theorem compressInstruction_call_loses_uses:
  "\<exists>Q. compressInstruction pack_ids 0 1 call_program = Inr (True, Q) \<and>
     alu_x1 (m_alu1 (instr_at Q 0)) = Some (MU_Storage 3 0 False) \<and> ctl_oc (m_control (instr_at Q 0)) = OPCODE_FUNC \<and>
     getUse pack_ids (instr_at Q 0) = Inr [] \<and>
     getUse pack_ids (instr_at call_program 0) = Inr [Lane_id, 3, 4] \<and> getUse pack_ids (instr_at call_program 1) = Inr [2]"
proof -
  have "(case compressInstruction pack_ids 0 1 call_program of Inr (rc, Q) \<Rightarrow> rc \<and>
     alu_x1 (m_alu1 (instr_at Q 0)) = Some (MU_Storage 3 0 False) \<and> ctl_oc (m_control (instr_at Q 0)) = OPCODE_FUNC \<and>
     getUse pack_ids (instr_at Q 0) = Inr [] | _ \<Rightarrow> False)" by code_simp
  moreover have "getUse pack_ids (instr_at call_program 0) = Inr [Lane_id, 3, 4]" "getUse pack_ids (instr_at call_program 1) = Inr [2]"
    by code_simp+
  ultimately show ?thesis by (auto split: sum.splits)
qed

end
