(* ===== verification/Steps.thy ===== *)
theory Steps
  imports Pack Blocks
begin

text \<open>
  Runs of a function on the machine, and when a change of operands inside a region of the function
  does not change the runs. The passes that propagate values (theories \<open>Fold\<close>, \<open>Subst\<close>) rest on this.
\<close>

section \<open>The machine\<close>

text \<open>
  What the instructions do is a parameter of the semantics: the value that a busy slot writes to a cell
  (theory \<open>Pack\<close>), whether a conditional jump is taken on the result of the scalar slot, what a call
  does to the store, and the word that a constant stands for.
\<close>

record machine =
  mc_sem :: "op \<Rightarrow> store \<Rightarrow> store"
  mc_taken :: "Instruction_ialu \<Rightarrow> int \<Rightarrow> store \<Rightarrow> bool"
  mc_call :: "nat \<Rightarrow> store \<Rightarrow> store"
  mc_const :: "cTerm \<Rightarrow> int"

definition effect :: "machine \<Rightarrow> idents \<Rightarrow> program \<Rightarrow> nat \<Rightarrow> store \<Rightarrow> store" where
  "effect M I P i s =
     (if ctl_oc (m_control (instr_at P i)) = OPCODE_FUNC then mc_call M i s
      else exec_instr I (mc_sem M) (instr_at P i) s)"

definition jumps :: "machine \<Rightarrow> cInstruction \<Rightarrow> store \<Rightarrow> bool" where
  "jumps M ins s =
     (let oc = ctl_oc (m_control ins)
      in oc = OPCODE_JUMP \<or> 0 < oc \<and> oc \<noteq> OPCODE_FUNC \<and> mc_taken M (m_imu ins) oc s)"

definition goes_to :: "machine \<Rightarrow> program \<Rightarrow> nat \<Rightarrow> store \<Rightarrow> nat option" where
  "goes_to M P i s =
     (if ctl_oc (m_control (instr_at P i)) = OPCODE_RETURN then None
      else if jumps M (instr_at P i) s
      then (case getBranch P (instr_at P i) of Inr t \<Rightarrow> t | Inl _ \<Rightarrow> None)
      else next_of P i)"

text \<open>A configuration is the instruction to execute next, if any, and the store.\<close>

fun machine_step :: "machine \<Rightarrow> idents \<Rightarrow> program \<Rightarrow> nat option \<times> store \<Rightarrow> nat option \<times> store" where
  "machine_step M I P (None, s) = (None, s)"
| "machine_step M I P (Some i, s) = (goes_to M P i s, effect M I P i s)"

definition run :: "machine \<Rightarrow> idents \<Rightarrow> program \<Rightarrow> nat \<Rightarrow> nat option \<times> store \<Rightarrow> nat option \<times> store" where
  "run M I P n = machine_step M I P ^^ n"

lemma run_0 [simp]: "run M I P 0 c = c"
  by (simp add: run_def)

lemma run_Suc [simp]: "run M I P (Suc n) c = machine_step M I P (run M I P n c)"
  by (simp add: run_def)

lemma goes_to_flow: "goes_to M P i s = Some j \<Longrightarrow> flow_succ P i j"
  by (auto simp: goes_to_def flow_succ_def Let_def jumps_def split: if_splits sum.splits)

section \<open>Programs that differ in operands\<close>

text \<open>The parts of an instruction that the propagation of values leaves alone.\<close>

definition frame_alu :: "Instruction_alu \<Rightarrow> Instruction_alu" where
  "frame_alu a = a\<lparr>alu_x1 := None, alu_x2 := None\<rparr>"

definition frame_imu :: "Instruction_ialu \<Rightarrow> Instruction_ialu" where
  "frame_imu u = u\<lparr>imu_x1 := None, imu_x2 := None\<rparr>"

definition frame :: "cInstruction \<Rightarrow> cInstruction" where
  "frame ins = ins\<lparr>m_alu1 := frame_alu (m_alu1 ins), m_alu2 := frame_alu (m_alu2 ins),
     m_imu := frame_imu (m_imu ins), m_seq := 0\<rparr>"

definition same_frame :: "program \<Rightarrow> program \<Rightarrow> bool" where
  "same_frame P Q \<longleftrightarrow> p_order Q = p_order P \<and> p_funcs Q = p_funcs P \<and> length (p_code Q) = length (p_code P) \<and>
     (\<forall>i. frame (instr_at Q i) = frame (instr_at P i))"

lemma same_frame_refl [simp]: "same_frame P P"
  by (simp add: same_frame_def)

lemma same_frame_trans: "same_frame P Q \<Longrightarrow> same_frame Q R \<Longrightarrow> same_frame P R"
  by (simp add: same_frame_def)

lemma same_frame_upd: "frame (f (instr_at P i)) = frame (instr_at P i) \<Longrightarrow> same_frame P (upd_instr i f P)"
  by (simp add: same_frame_def)

lemma frame_eqD:
  assumes "frame a = frame b"
  shows "m_control a = m_control b" "m_jumpDestination a = m_jumpDestination b" "m_beginFunc a = m_beginFunc b"
    "m_x_stack a = m_x_stack b" "m_y_stack a = m_y_stack b"
    "frame_alu (m_alu1 a) = frame_alu (m_alu1 b)" "frame_alu (m_alu2 a) = frame_alu (m_alu2 b)"
    "frame_imu (m_imu a) = frame_imu (m_imu b)"
  using assms by (cases a; cases b; simp add: frame_def)+

lemma frame_aluD:
  assumes "frame_alu a = frame_alu b"
  shows "alu_oc a = alu_oc b" "alu_which a = alu_which b" "alu_y a = alu_y b" "alu_xacc a = alu_xacc b"
  using assms by (cases a; cases b; simp add: frame_alu_def)+

lemma frame_imuD:
  assumes "frame_imu a = frame_imu b"
  shows "imu_oc a = imu_oc b" "imu_y a = imu_y b"
  using assms by (cases a; cases b; simp add: frame_imu_def)+

lemma same_frame_at: "same_frame P Q \<Longrightarrow> frame (instr_at Q i) = frame (instr_at P i)"
  by (simp add: same_frame_def)

lemmas frame_at = frame_eqD [OF same_frame_at]

lemma same_frame_next: "same_frame P Q \<Longrightarrow> next_of Q = next_of P"
  by (simp add: same_frame_def next_of_def fun_eq_iff)

lemma same_frame_branch: "same_frame P Q \<Longrightarrow> getBranch Q (instr_at Q i) = getBranch P (instr_at P i)"
  unfolding getBranch_def by (simp only: frame_at(1) same_frame_next)

lemma same_frame_flow: "same_frame P Q \<Longrightarrow> flow_succ Q = flow_succ P"
  by (simp add: flow_succ_def fun_eq_iff same_frame_branch frame_at(1) same_frame_next)

lemma same_frame_range: "same_frame P Q \<Longrightarrow> instr_range Q b e = instr_range P b e"
  by (simp add: same_frame_def instr_range_def)

lemma func_backwards_frame: "same_frame P Q \<Longrightarrow> func_backwards Q is = func_backwards P is"
  by (induction "is") (simp_all add: frame_at(3) split: option.splits)

lemma func_of_frame:
  assumes "same_frame P Q"
  shows "func_of Q i = func_of P i"
  using assms unfolding func_of_def func_backwards_frame [OF assms] by (simp only: same_frame_def)

lemma same_frame_getDef:
  assumes "same_frame P Q"
  shows "getDef Q I i = getDef P I i"
  unfolding getDef_def Let_def func_of_frame [OF assms] frame_at [OF assms] frame_aluD [OF frame_at(6) [OF assms]]
    frame_aluD [OF frame_at(7) [OF assms]] frame_imuD [OF frame_at(8) [OF assms]] by (rule refl)

lemma same_frame_ops:
  assumes "same_frame P Q"
  shows "length (ops_of (instr_at Q k)) = length (ops_of (instr_at P k))"
  using frame_aluD(1) [OF frame_at(6) [OF assms]] frame_aluD(1) [OF frame_at(7) [OF assms]]
    frame_imuD(1) [OF frame_at(8) [OF assms]] by (simp add: ops_of_def)

section \<open>Regions\<close>

text \<open>
  \<open>acts_alike\<close>: two instructions do the same on a store. \<open>region\<close>: a set of instructions of the function
  that control enters only behind instruction \<open>i\<close>, among the instructions \<open>F\<close> that a run can reach.
\<close>

definition acts_alike :: "machine \<Rightarrow> idents \<Rightarrow> cInstruction \<Rightarrow> cInstruction \<Rightarrow> store \<Rightarrow> bool" where
  "acts_alike M I a b s \<longleftrightarrow> exec_instr I (mc_sem M) a s = exec_instr I (mc_sem M) b s \<and> jumps M a s = jumps M b s"

definition region :: "program \<Rightarrow> nat set \<Rightarrow> nat \<Rightarrow> nat set \<Rightarrow> bool" where
  "region P F i R \<longleftrightarrow> i \<notin> R \<and> (\<forall>k\<in>F. \<forall>j\<in>R. flow_succ P k j \<longrightarrow> k = i \<or> k \<in> R)"

lemma region_run:
  assumes f: "same_frame P Q" and reg: "region P {k. flow_reach P b k} i R" and b: "b \<notin> R"
    and out: "\<forall>k s. k \<notin> R \<longrightarrow> acts_alike M I (instr_at Q k) (instr_at P k) s"
    and ins: "\<forall>k\<in>R. \<forall>s. J s \<longrightarrow> acts_alike M I (instr_at Q k) (instr_at P k) s"
    and est: "\<forall>s. J (effect M I P i s)" and keep: "\<forall>k\<in>R. \<forall>s. J s \<longrightarrow> J (effect M I P k s)"
  shows "run M I Q n (Some b, s) = run M I P n (Some b, s)"
proof -
  have "run M I Q n (Some b, s) = run M I P n (Some b, s) \<and>
    (\<forall>k t. run M I P n (Some b, s) = (Some k, t) \<longrightarrow> flow_reach P b k \<and> (k \<in> R \<longrightarrow> J t))"
  proof (induction n)
    case 0
    with b show ?case by (simp add: flow_reach_def)
  next
    case (Suc n)
    obtain c t where c: "run M I P n (Some b, s) = (c, t)" by fastforce
    show ?case
    proof (cases c)
      case None
      with Suc c show ?thesis by simp
    next
      case (Some k)
      with Suc c have k: "flow_reach P b k" "k \<in> R \<Longrightarrow> J t" "run M I Q n (Some b, s) = (Some k, t)" by auto
      have same: "acts_alike M I (instr_at Q k) (instr_at P k) t" using out ins k(2) by blast
      then have st: "machine_step M I Q (Some k, t) = machine_step M I P (Some k, t)"
        by (simp add: goes_to_def effect_def acts_alike_def frame_at(1) [OF f] same_frame_branch [OF f]
            same_frame_next [OF f])
      have "flow_reach P b j \<and> (j \<in> R \<longrightarrow> J u)" if "machine_step M I P (Some k, t) = (Some j, u)" for j u
      proof -
        from that have j: "flow_succ P k j" "u = effect M I P k t" by (auto dest: goes_to_flow)
        then have "flow_reach P b j" using k(1) by (simp add: flow_reach_def)
        moreover have "k = i \<or> k \<in> R" if "j \<in> R" using reg j(1) k(1) that by (auto simp: region_def)
        ultimately show ?thesis using est keep k(2) j(2) by blast
      qed
      with st c Some k(3) show ?thesis by simp
    qed
  qed
  then show ?thesis by blast
qed

lemma acts_alike_refl [simp]: "acts_alike M I a a s"
  by (simp add: acts_alike_def)

section \<open>Variables and cells\<close>

text \<open>The variable that a cell belongs to, and that an instruction changes the cells of its definitions only.\<close>

fun cell_var :: "cell \<Rightarrow> nat" where
  "cell_var (CellInt i) = i"
| "cell_var (CellPtr i) = i"
| "cell_var CellResult = Result_id"
| "cell_var CellLane = Lane_id"
| "cell_var (CellWord i _) = i"

lemma scope_walk_mono:
  "set k \<subseteq> set l \<Longrightarrow> set (fst (scope_walk I w k d)) \<subseteq> set (fst (scope_walk I w l d))"
proof (induction I w k d arbitrary: l rule: scope_walk.induct)
  case (2 I i rest k d)
  then show ?case
  proof (cases "is_ptr I i")
    case False
    have "set (fst (scope_walk I rest (if i \<in> set k then k else iv_append k i) d)) \<subseteq>
        set (fst (scope_walk I rest (if i \<in> set l then l else iv_append l i) d))"
      (is "_ \<subseteq> set (fst (scope_walk I rest ?l d))")
    proof (cases "i \<in> set k")
      case True
      with 2(5) have "i \<in> set l" by blast
      with True 2(4) [OF False _ 2(5)] show ?thesis by simp
    next
      case notin: False
      have "set (iv_append k i) \<subseteq> set ?l" using 2(5) by auto
      from 2(3) [OF False _ this] notin show ?thesis by simp
    qed
    with False show ?thesis by (simp split: if_splits)
  qed simp
qed simp

lemma term_getDef_grows: "set lst \<subseteq> set (term_getDef I t lst)"
  using set_scope_walk_mono by (cases t) (auto simp: getIdentifierScope_def)

lemma slot_getDef_grows:
  "set lst \<subseteq> set (if b then (case y of None \<Rightarrow> lst | Some t \<Rightarrow> term_getDef I t lst) else lst)"
  using term_getDef_grows by (cases y) auto

lemma scope_cells_var: "c \<in> scope_cells I b \<Longrightarrow> cell_var c \<in> set (getIdentifierScope I b lst)"
  using scope_walk_mono [of "[]" lst] by (fastforce simp: scope_cells_def getIdentifierScope_def)

lemma written_var: "c \<in> written_cells I idx t \<Longrightarrow> cell_var c \<in> set (term_getDef I t lst)"
  using scope_cells_var [of c I] by (cases t) (auto simp: var_cells_def)

lemma getDef_op:
  assumes "getDef P I i = Inr d" "ctl_oc (m_control (instr_at P i)) \<noteq> OPCODE_FUNC" "p \<in> set (ops_of (instr_at P i))"
    "op_result p = Some y"
  shows "\<exists>lst. set (term_getDef I y lst) \<subseteq> set d"
proof -
  let ?i = "instr_at P i"
  let ?l1 = "if alu_oc (m_alu1 ?i) > 0 then (case alu_y (m_alu1 ?i) of None \<Rightarrow> [] | Some y \<Rightarrow> term_getDef I y []) else []"
  let ?l2 = "if alu_oc (m_alu2 ?i) > 0 then (case alu_y (m_alu2 ?i) of None \<Rightarrow> ?l1 | Some y \<Rightarrow> term_getDef I y ?l1) else ?l1"
  let ?l3 = "if imu_oc (m_imu ?i) > 0 then (case imu_y (m_imu ?i) of None \<Rightarrow> ?l2 | Some y \<Rightarrow> term_getDef I y ?l2) else ?l2"
  have d: "d = ?l3" using assms(1,2) unfolding getDef_def Let_def by simp
  have g: "set ?l1 \<subseteq> set ?l2" "set ?l2 \<subseteq> set ?l3"
    by (rule slot_getDef_grows)+
  from assms(3) consider "p = OpAlu1 (m_alu1 ?i)" "alu_oc (m_alu1 ?i) > 0" | "p = OpAlu2 (m_alu2 ?i)" "alu_oc (m_alu2 ?i) > 0"
    | "p = OpImu (m_imu ?i)" "imu_oc (m_imu ?i) > 0" by (auto simp: ops_of_def split: if_splits)
  then show ?thesis
  proof cases
    case 1
    with assms(4) have "?l1 = term_getDef I y []" by simp
    then have "set (term_getDef I y []) \<subseteq> set d" unfolding d using g by (simp only: subset_trans)
    then show ?thesis by blast
  next
    case 2
    with assms(4) have "?l2 = term_getDef I y ?l1" by simp
    then have "set (term_getDef I y ?l1) \<subseteq> set d" unfolding d using g by (simp only:)
    then show ?thesis by blast
  next
    case 3
    with assms(4) have "?l3 = term_getDef I y ?l2" by simp
    then have "set (term_getDef I y ?l2) \<subseteq> set d" unfolding d by (simp only: subset_refl)
    then show ?thesis by blast
  qed
qed

text \<open>A call changes the cells of the variables that \<open>getDef\<close> gives for it, and no others.\<close>

definition calls_ok :: "machine \<Rightarrow> idents \<Rightarrow> program \<Rightarrow> bool" where
  "calls_ok M I P \<longleftrightarrow> (\<forall>i d s c. ctl_oc (m_control (instr_at P i)) = OPCODE_FUNC \<longrightarrow> getDef P I i = Inr d \<longrightarrow>
     cell_var c \<notin> set d \<longrightarrow> mc_call M i s c = s c)"

lemma effect_other:
  assumes "calls_ok M I P" "getDef P I i = Inr d" "cell_var c \<notin> set d"
  shows "effect M I P i s c = s c"
proof (cases "ctl_oc (m_control (instr_at P i)) = OPCODE_FUNC")
  case True
  with assms show ?thesis by (simp add: calls_ok_def effect_def)
next
  case False
  have "c \<notin> op_writes I s p" if "p \<in> set (ops_of (instr_at P i))" for p
  proof (cases "op_result p")
    case (Some y)
    from getDef_op [OF assms(2) False that Some] assms(3) written_var [of c I "reg_index s" y] show ?thesis
      by (auto simp: op_writes_def opt_written_def Some)
  qed (simp add: op_writes_def opt_written_def)
  then show ?thesis using False by (simp add: effect_def exec_instr_def exec_ops_other)
qed

section \<open>Ranges and blocks\<close>

text \<open>Numbering the instructions changes nothing else.\<close>

lemma fold_set_seq_only: "\<exists>q. instr_at (fold set_seq xs P) k = (instr_at P k)\<lparr>m_seq := q\<rparr>"
proof (induction xs arbitrary: P)
  case Nil
  show ?case by (intro exI [of _ "m_seq (instr_at P k)"]) simp
next
  case (Cons x xs)
  from Cons.IH [of "set_seq x P"] show ?case by (auto simp: set_seq_def split: if_splits)
qed

lemma number_range_only: "\<exists>q. instr_at (number_range rng P) k = (instr_at P k)\<lparr>m_seq := q\<rparr>"
  unfolding number_range_def by (rule fold_set_seq_only)

lemma number_range_frame: "same_frame P (number_range rng P)"
proof -
  have "frame (instr_at (number_range rng P) k) = frame (instr_at P k)" for k
    using number_range_only [of rng P k] by (auto simp: frame_def)
  moreover have "p_funcs (fold set_seq xs Q) = p_funcs Q \<and> length (p_code (fold set_seq xs Q)) = length (p_code Q)" for xs Q
    by (induction xs arbitrary: Q) (simp_all add: set_seq_def)
  ultimately show ?thesis by (simp add: same_frame_def number_range_def)
qed

lemma seq_alike [simp]: "acts_alike M I (ins\<lparr>m_seq := q\<rparr>) ins s"
  by (simp add: acts_alike_def exec_instr_def ops_of_def jumps_def)

lemma run_alike:
  assumes "same_frame P Q" "\<forall>k s. acts_alike M I (instr_at Q k) (instr_at P k) s"
  shows "run M I Q n (Some b, s) = run M I P n (Some b, s)"
  using assms(2) by (intro region_run [OF assms(1), of b b "{}" M I "\<lambda>_. True"]) (auto simp: region_def)

text \<open>The position of an instruction in the function, and the only instruction in front of it.\<close>

lemma range_in_order: "\<exists>us vs. p_order P = us @ instr_range P b e @ vs"
proof -
  have "\<exists>vs. xs = upto_incl e xs @ vs" for xs
  proof (cases "e \<in> set xs")
    case True
    then obtain ys vs where "xs = ys @ e # vs" "e \<notin> set ys" "upto_incl e xs = ys @ [e]" by (rule upto_incl_decomp)
    then show ?thesis by simp
  next
    case False
    then have "takeWhile (\<lambda>j. j \<noteq> e) xs = xs" by (auto simp: takeWhile_eq_all_conv)
    with False have "upto_incl e xs = xs" unfolding upto_incl_def Let_def by metis
    then show ?thesis by simp
  qed
  then obtain vs where "dropWhile (\<lambda>j. j \<noteq> b) (p_order P) = instr_range P b e @ vs" unfolding instr_range_def by blast
  then have "p_order P = takeWhile (\<lambda>j. j \<noteq> b) (p_order P) @ instr_range P b e @ vs"
    by (metis takeWhile_dropWhile_id)
  then show ?thesis by blast
qed

lemma range_distinct: "distinct (p_order P) \<Longrightarrow> distinct (instr_range P b e)"
  using range_in_order [of P b e] by auto

lemma range_hd: "instr_range P b e = x # xs \<Longrightarrow> x = b"
proof -
  assume r: "instr_range P b e = x # xs"
  obtain ys where "dropWhile (\<lambda>j. j \<noteq> b) (p_order P) = ys" by blast
  moreover have "ys \<noteq> []" "hd ys = x"
    using r calculation by (cases ys; auto simp: instr_range_def upto_incl_def Let_def split: if_splits)+
  ultimately show "x = b" using hd_dropWhile [of "\<lambda>j. j \<noteq> b" "p_order P"] by auto
qed

lemma before_unique:
  assumes "distinct (us @ a # c # vs)" "us @ a # c # vs = ks @ k # c # zs"
  shows "k = a"
proof -
  have e: "(us @ [a]) @ c # vs = (ks @ [k]) @ c # zs" using assms(2) by simp
  have n: "c \<notin> set (us @ [a])" using assms(1) by auto
  have m: "c \<notin> set vs" using assms(1) by auto
  have "us @ [a] = ks @ [k]" using e append_Cons_eq_iff [OF n m] by blast
  then show ?thesis by simp
qed

lemma next_of_before:
  assumes "distinct (p_order P)" "instr_range P b e = us @ a # c # vs" "next_of P k = Some c"
  shows "k = a"
proof -
  obtain xs ys where o: "p_order P = (xs @ us) @ a # c # vs @ ys" using range_in_order [of P b e] assms(2) by auto
  have k: "k \<in> set (p_order P)" using list_next_Some assms(3) unfolding next_of_def by metis
  then obtain ks js where s: "p_order P = ks @ k # js" by (meson split_list)
  then have "list_next (p_order P) k = hd_or js None" using list_next_append assms(1) by metis
  with assms(3) obtain zs where js: "js = c # zs" by (cases js) (auto simp: next_of_def)
  have d: "distinct ((xs @ us) @ a # c # vs @ ys)" using assms(1) o by simp
  have "(xs @ us) @ a # c # vs @ ys = ks @ k # c # zs" using o s js by simp
  then show ?thesis by (rule before_unique [OF d])
qed

text \<open>
  The function ends at \<open>e\<close>; its control flow stays in it, and the targets of its branches carry the mark
  that \<open>compress_jump\<close> puts there.
\<close>

definition flow_ready :: "program \<Rightarrow> nat \<Rightarrow> nat \<Rightarrow> bool" where
  "flow_ready P b e \<longleftrightarrow> distinct (p_order P) \<and> set (p_order P) \<subseteq> {..<length (p_code P)} \<and> e \<in> set (instr_range P b e) \<and>
     (\<forall>k. flow_reach P b k \<longrightarrow> k \<in> set (instr_range P b e)) \<and>
     (\<forall>i\<in>set (instr_range P b e). \<forall>j. getBranch P (instr_at P i) = Inr (Some j) \<longrightarrow>
        j \<in> set (instr_range P b e) \<and> m_jumpDestination (instr_at P j))"

lemma flow_ready_frame: "same_frame P Q \<Longrightarrow> flow_ready P b e \<Longrightarrow> flow_ready Q b e"
  by (simp add: flow_ready_def same_frame_range same_frame_branch frame_at(2) flow_reach_def same_frame_flow)
    (simp add: same_frame_def)

lemma calls_ok_frame: "same_frame P Q \<Longrightarrow> calls_ok M I P \<Longrightarrow> calls_ok M I Q"
  unfolding calls_ok_def by (simp only: frame_at(1) same_frame_getDef)

lemma region_frame: "same_frame P Q \<Longrightarrow> region Q {k. flow_reach Q b k} i R = region P {k. flow_reach P b k} i R"
  by (simp add: region_def flow_reach_def same_frame_flow)

text \<open>A region grows by the next stretch of the function that no branch enters from outside.\<close>

lemma region_extend:
  assumes ready: "flow_ready P b e" and rng: "instr_range P b e = us @ a # blk @ zs" and a: "a = i \<or> a \<in> R"
    and reg: "region P {k. flow_reach P b k} i R" and i: "i \<notin> set blk"
    and shut: "\<forall>k\<in>set (instr_range P b e) - set blk. \<forall>j\<in>set blk. getBranch P (instr_at P k) \<noteq> Inr (Some j)"
  shows "region P {k. flow_reach P b k} i (R \<union> set blk)"
proof -
  have d: "distinct (p_order P)" using ready by (simp add: flow_ready_def)
  have "k = i \<or> k \<in> R \<union> set blk" if k: "flow_reach P b k" "flow_succ P k j" "j \<in> set blk" for k j
  proof (rule ccontr)
    assume out: "\<not> (k = i \<or> k \<in> R \<union> set blk)"
    have "k \<in> set (instr_range P b e)" using ready k(1) by (simp add: flow_ready_def)
    with shut out k(3) have "getBranch P (instr_at P k) \<noteq> Inr (Some j)" by blast
    with k(2) have n: "next_of P k = Some j" by (auto simp: flow_succ_def Let_def)
    obtain ps qs where b: "blk = ps @ j # qs" using k(3) by (meson split_list)
    show False
    proof (cases ps rule: rev_cases)
      case Nil
      then have "instr_range P b e = us @ a # j # qs @ zs" using rng b by simp
      from next_of_before [OF d this n] a out show False by simp
    next
      case (snoc ps' c)
      then have "instr_range P b e = (us @ a # ps') @ c # j # qs @ zs" using rng b by simp
      from next_of_before [OF d this n] b snoc out show False by simp
    qed
  qed
  with reg i show ?thesis unfolding region_def by blast
qed

text \<open>
  The stretches that the passes go over: one unmarked instruction, or a block of \<open>getInstructionBlock\<close>. The
  program afterwards differs in the numbers of the instructions at most.
\<close>

definition next_block :: "bool \<Rightarrow> program \<Rightarrow> nat \<Rightarrow> nat \<Rightarrow> nat \<Rightarrow> (program \<times> nat option) res" where
  "next_block glob P b e k =
     (if glob \<and> ctl_oc (m_control (instr_at P k)) > 0 then getInstructionBlock P b e k else Inr (P, Some k))"

lemma next_block_only:
  assumes "next_block glob P b e k = Inr (P1, r)"
  shows "same_frame P P1" "\<exists>q. instr_at P1 j = (instr_at P j)\<lparr>m_seq := q\<rparr>"
proof -
  have "P1 = P \<or> P1 = number_range (instr_range P b e) P"
    using assms by (auto simp: next_block_def getInstructionBlock_def Let_def res_bind_eq_Inr_iff split: if_splits)
  then show "same_frame P P1" "\<exists>q. instr_at P1 j = (instr_at P j)\<lparr>m_seq := q\<rparr>"
    using number_range_frame number_range_only by (auto intro: exI [of _ "m_seq (instr_at P j)"])
qed

lemma next_block_shut:
  assumes ready: "flow_ready P b e" and rng: "instr_range P b e = us @ k # ks"
    and un: "\<not> m_jumpDestination (instr_at P k)" and r: "next_block glob P b e k = Inr (P1, Some x)"
  obtains ys zs where "k # ks = (k # ys) @ zs" "upto_incl x (k # ks) = k # ys"
    "\<forall>l\<in>set (instr_range P b e) - set (k # ys). \<forall>j\<in>set (k # ys). getBranch P (instr_at P l) \<noteq> Inr (Some j)"
proof (cases "glob \<and> ctl_oc (m_control (instr_at P k)) > 0")
  case False
  with r have "x = k" by (auto simp: next_block_def split: if_splits)
  moreover have "getBranch P (instr_at P l) \<noteq> Inr (Some k)" if "l \<in> set (instr_range P b e)" for l
    using ready un that by (auto simp: flow_ready_def)
  ultimately show thesis by (intro that [of "[]" ks]) (simp_all add: upto_incl_def)
next
  case True
  with r have g: "getInstructionBlock P b e k = Inr (P1, Some x)" unfolding next_block_def by metis
  note rd = ready [unfolded flow_ready_def]
  have "k \<in> set (instr_range P b e)" using rng by simp
  from block_closed [OF _ _ _ this _ g] rd obtain xs ys zs where b: "instr_range P b e = xs @ (k # ys) @ zs" "last (k # ys) = x"
    "\<forall>l\<in>set (xs @ zs). \<forall>j. getBranch P (instr_at P l) = Inr (Some j) \<longrightarrow> j \<notin> set (k # ys)" by blast
  have d: "distinct (instr_range P b e)" using rd range_distinct by blast
  then have nk: "k \<notin> set us" "k \<notin> set ks" unfolding rng by auto
  have "us @ k # ks = xs @ k # ys @ zs" using rng b(1) by simp
  with append_Cons_eq_iff [OF nk(1,2)] have ks: "ks = ys @ zs" by blast
  obtain ws where ws: "k # ys = ws @ [x]" using b(2) by (metis append_butlast_last_id list.distinct(1))
  have "distinct (k # ys)" using d b(1) by auto
  then have nx: "x \<notin> set ws" unfolding ws by simp
  have "k # ks = (k # ys) @ zs" by (simp add: ks)
  then have cat: "k # ks = ws @ x # zs" unfolding ws by simp
  have "upto_incl x (k # ks) = k # ys" unfolding cat ws by (rule upto_incl_split [OF nx])
  moreover have "l \<in> set (xs @ zs)" if "l \<in> set (instr_range P b e) - set (k # ys)" for l
    using that unfolding b(1) by auto
  ultimately show thesis using b(3) ks by (intro that [of ys zs]) (simp_all only: append_Cons, blast+)
qed

section \<open>Walking on behind an instruction\<close>

text \<open>
  The loop that \<open>constantFolding\<close> and \<open>substituteAssignment\<close> share: from the instructions behind an assignment
  it goes on from stretch to stretch, hands each one to \<open>act\<close>, and stops where a jump may come in or where
  an instruction assigns one of the variables of \<open>lst\<close>. With \<open>lenient\<close> a single instruction that assigns one
  is still handed on before the walk stops.
\<close>

type_synonym action = "nat list \<Rightarrow> bool \<times> program \<Rightarrow> (bool \<times> program) res"

function spread :: "bool \<Rightarrow> bool \<Rightarrow> idents \<Rightarrow> nat \<Rightarrow> nat \<Rightarrow> nat list \<Rightarrow> action \<Rightarrow> nat list \<Rightarrow> bool \<times> program \<Rightarrow> (bool \<times> program) res" where
  "spread lenient glob I b e lst act [] s = Inr s"
| "spread lenient glob I b e lst act (k # ks) (ch, P) =
     (if m_jumpDestination (instr_at P k) then Inr (ch, P)
      else res_bind (next_block glob P b e k) (\<lambda>(P1, r). case r of
           None \<Rightarrow> Inr (ch, P1)
         | Some x \<Rightarrow>
             res_bind (any_instr (getDef P1 I) lst (upto_incl x (k # ks))) (\<lambda>d.
               if d \<and> \<not> (lenient \<and> x = k) then Inr (ch, P1)
               else res_bind (act (upto_incl x (k # ks)) (ch, P1)) (\<lambda>s.
                 if d \<or> \<not> glob \<and> ctl_oc (m_control (instr_at P k)) > 0 then Inr s
                 else spread lenient glob I b e lst act (drop (length (upto_incl x (k # ks)) - 1) ks) s))))"
  by pat_completeness auto
termination
  by (relation "measure (\<lambda>(lenient, glob, I, b, e, lst, act, ks, s). length ks)") auto

text \<open>The steps of the walk, for a walk that returns.\<close>

lemma spread_step:
  assumes "spread lenient glob I b e lst act (k # ks) (ch, P) = Inr (ch', Q)"
  obtains (stay) "ch' = ch" "Q = P"
  | (stop) P1 r where "next_block glob P b e k = Inr (P1, r)" "ch' = ch" "Q = P1"
  | (last) P1 x where "next_block glob P b e k = Inr (P1, Some x)" "act (upto_incl x (k # ks)) (ch, P1) = Inr (ch', Q)"
      "\<not> m_jumpDestination (instr_at P k)" "lenient \<or> any_instr (getDef P1 I) lst (upto_incl x (k # ks)) = Inr False"
  | (more) P1 x ch2 P2 where "next_block glob P b e k = Inr (P1, Some x)" "act (upto_incl x (k # ks)) (ch, P1) = Inr (ch2, P2)"
      "\<not> m_jumpDestination (instr_at P k)" "any_instr (getDef P1 I) lst (upto_incl x (k # ks)) = Inr False"
      "spread lenient glob I b e lst act (drop (length (upto_incl x (k # ks)) - 1) ks) (ch2, P2) = Inr (ch', Q)"
proof (cases "m_jumpDestination (instr_at P k)")
  case True
  with assms stay show thesis by simp
next
  case un: False
  note e0 = assms [unfolded spread.simps if_not_P [OF un]]
  then obtain P1 r where nb: "next_block glob P b e k = Inr (P1, r)" by (auto simp: res_bind_eq_Inr_iff)
  note e1 = e0 [unfolded nb res_bind_simps prod.case]
  show thesis
  proof (cases r)
    case None
    with e1 nb stop show thesis by simp
  next
    case (Some x)
    define blk where "blk = upto_incl x (k # ks)"
    note e2 = e1 [unfolded Some option.case, folded blk_def]
    then obtain d where d: "any_instr (getDef P1 I) lst blk = Inr d" by (auto simp: res_bind_eq_Inr_iff)
    note e3 = e2 [unfolded d res_bind_simps]
    show thesis
    proof (cases "d \<and> \<not> (lenient \<and> x = k)")
      case True
      with e3 nb stop show thesis by simp
    next
      case go: False
      note e4 = e3 [unfolded if_not_P [OF go]]
      then obtain ch2 P2 where f: "act blk (ch, P1) = Inr (ch2, P2)" by (auto simp: res_bind_eq_Inr_iff)
      note e5 = e4 [unfolded f res_bind_simps]
      have l: "lenient \<or> any_instr (getDef P1 I) lst blk = Inr False" using go d by auto
      show thesis
      proof (cases "d \<or> \<not> glob \<and> ctl_oc (m_control (instr_at P k)) > 0")
        case True
        with e5 have "ch' = ch2" "Q = P2" by (simp_all add: if_P [OF True])
        with last [OF nb [unfolded Some]] f un l show thesis by (simp add: blk_def)
      next
        case False
        with e5 have "spread lenient glob I b e lst act (drop (length blk - 1) ks) (ch2, P2) = Inr (ch', Q)"
          by (simp add: if_not_P [OF False])
        with more [OF nb [unfolded Some]] f un d False show thesis by (simp add: blk_def)
      qed
    qed
  qed
qed

lemma any_instr_False:
  "any_instr f lst is = Inr False \<Longrightarrow> k \<in> set is \<Longrightarrow> \<exists>d. f k = Inr d \<and> set lst \<inter> set d = {}"
  by (induction "is") (auto simp: res_bind_eq_Inr_iff split: if_splits)

lemma effect_seq: "instr_at Q i = (instr_at P i)\<lparr>m_seq := q\<rparr> \<Longrightarrow> effect M I Q i s = effect M I P i s"
  by (simp add: effect_def exec_instr_def ops_of_def)

text \<open>
  What such a walk relies on: \<open>J\<close> is what the assignment established, which lasts while the variables of \<open>lst\<close> are
  not assigned; under it \<open>act\<close> does not change what an instruction does; and \<open>act\<close> keeps the instructions
  within the class \<open>safe\<close> that it can handle.
\<close>

locale spreading =
  fixes M :: machine and I :: idents and lst :: "nat list" and J :: "store \<Rightarrow> bool" and act :: action
    and safe :: "cInstruction \<Rightarrow> bool"
  assumes act_frame: "act blk (ch, P) = Inr (ch', Q) \<Longrightarrow> same_frame P Q"
    and act_out: "act blk (ch, P) = Inr (ch', Q) \<Longrightarrow> k \<notin> set blk \<Longrightarrow> instr_at Q k = instr_at P k"
    and act_alike: "act blk (ch, P) = Inr (ch', Q) \<Longrightarrow> distinct blk \<Longrightarrow> \<forall>k\<in>set blk. safe (instr_at P k) \<Longrightarrow> J s \<Longrightarrow>
      acts_alike M I (instr_at Q k) (instr_at P k) s"
    and act_safe: "act blk (ch, P) = Inr (ch', Q) \<Longrightarrow> \<forall>k\<in>set blk. safe (instr_at P k) \<Longrightarrow> safe (instr_at P k) \<Longrightarrow>
      safe (instr_at Q k)"
    and safe_seq: "safe (ins\<lparr>m_seq := q\<rparr>) = safe ins"
    and J_kept: "calls_ok M I P \<Longrightarrow> getDef P I k = Inr d \<Longrightarrow> set lst \<inter> set d = {} \<Longrightarrow> J s \<Longrightarrow> J (effect M I P k s)"
begin

definition walked :: "nat \<Rightarrow> nat \<Rightarrow> program \<Rightarrow> program \<Rightarrow> bool" where
  "walked b e P Q \<longleftrightarrow> same_frame P Q \<and> (\<forall>i\<in>set (instr_range P b e). safe (instr_at Q i)) \<and>
     (\<forall>n s. run M I Q n (Some b, s) = run M I P n (Some b, s))"

lemma walked_trans: "walked b e P Q \<Longrightarrow> walked b e Q R \<Longrightarrow> walked b e P R"
  unfolding walked_def by (auto intro: same_frame_trans simp: same_frame_range)

lemma next_block_walked:
  assumes "next_block glob P b e k = Inr (P1, r)" "\<forall>i\<in>set (instr_range P b e). safe (instr_at P i)"
  shows "walked b e P P1"
proof -
  note n = next_block_only [OF assms(1)]
  have "acts_alike M I (instr_at P1 j) (instr_at P j) s \<and> safe (instr_at P1 j) = safe (instr_at P j)" for j s
    using n(2) [of j] safe_seq by auto
  with n(1) assms(2) run_alike [OF n(1)] show ?thesis by (simp add: walked_def)
qed

lemma act_walked:
  assumes f: "act blk (ch, P) = Inr (ch', Q)" and rd: "flow_ready P b e"
    and safe: "\<forall>i\<in>set (instr_range P b e). safe (instr_at P i)" and calls: "calls_ok M I P"
    and rng: "instr_range P b e = us @ i # bs @ blk @ zs"
    and reg: "region P {k. flow_reach P b k} i (set (bs @ blk))"
    and def: "\<forall>k\<in>set (bs @ blk). \<exists>d. getDef P I k = Inr d \<and> set lst \<inter> set d = {}"
    and est: "\<forall>s. J (effect M I P i s)"
  shows "walked b e P Q"
proof -
  have d: "distinct (instr_range P b e)" using rd range_distinct by (simp add: flow_ready_def)
  then have db: "distinct blk" unfolding rng by simp
  have sb: "\<forall>k\<in>set blk. safe (instr_at P k)" using safe unfolding rng by auto
  have "b \<in> set (us @ [i])" using range_hd [of P b e] rng by (cases us) auto
  then have b: "b \<notin> set (bs @ blk)" using d unfolding rng by auto
  have keep: "\<forall>k\<in>set (bs @ blk). \<forall>s. J s \<longrightarrow> J (effect M I P k s)" using def J_kept [OF calls] by blast
  have "run M I Q n (Some b, s) = run M I P n (Some b, s)" for n s
    by (rule region_run [OF act_frame [OF f] reg b _ _ est keep]) (auto simp: act_out [OF f] intro: act_alike [OF f db sb])
  with act_frame [OF f] act_safe [OF f sb] safe show ?thesis by (simp add: walked_def)
qed

lemma spread_run:
  assumes "spread False glob I b e lst act ks (ch, P) = Inr (ch', Q)" "flow_ready P b e"
    "\<forall>i\<in>set (instr_range P b e). safe (instr_at P i)" "calls_ok M I P"
    "instr_range P b e = us @ i # bs @ ks" "region P {k. flow_reach P b k} i (set bs)"
    "\<forall>k\<in>set bs. \<exists>d. getDef P I k = Inr d \<and> set lst \<inter> set d = {}" "\<forall>s. J (effect M I P i s)"
  shows "walked b e P Q"
  using assms
proof (induction "length ks" arbitrary: ks bs P ch rule: less_induct)
  case less
  note ready = less.prems(2) and safe = less.prems(3) and calls = less.prems(4)
  have refl: "walked b e P P" using safe by (simp add: walked_def)
  have grown: "walked b e P1 P2 \<and> (\<exists>zs. ks = blk @ zs \<and> length zs < length ks \<and> drop (length blk - 1) (tl ks) = zs \<and>
      region P {k. flow_reach P b k} i (set (bs @ blk)) \<and>
      (\<forall>k\<in>set (bs @ blk). \<exists>d. getDef P2 I k = Inr d \<and> set lst \<inter> set d = {}) \<and> (\<forall>s. J (effect M I P2 i s)))"
    if nb: "next_block glob P b e k = Inr (P1, Some x)" and f: "act blk (ch, P1) = Inr (ch2, P2)"
      and un: "\<not> m_jumpDestination (instr_at P k)" and d: "any_instr (getDef P1 I) lst blk = Inr False"
      and ks: "ks = k # ks'" and blk: "blk = upto_incl x (k # ks')" for k ks' P1 x P2 ch2 blk
  proof -
    note fr = next_block_only(1) [OF nb] and only = next_block_only(2) [OF nb]
    have like1: "walked b e P P1" by (rule next_block_walked [OF nb safe])
    have rk: "instr_range P b e = (us @ i # bs) @ k # ks'" using less.prems(5) ks by simp
    from next_block_shut [OF ready rk un nb] obtain ys zs where z: "k # ks' = (k # ys) @ zs" "upto_incl x (k # ks') = k # ys"
      "\<forall>l\<in>set (instr_range P b e) - set (k # ys). \<forall>j\<in>set (k # ys). getBranch P (instr_at P l) \<noteq> Inr (Some j)" .
    have bk: "blk = k # ys" using blk z(2) by simp
    have rb: "instr_range P b e = us @ i # bs @ blk @ zs" using less.prems(5) ks z(1) bk by simp
    have dist: "distinct (instr_range P b e)" using ready range_distinct by (simp add: flow_ready_def)
    then have nI: "i \<notin> set blk" unfolding rb by auto
    obtain ws a where wa: "us @ i # bs = ws @ [a]" "a = i \<or> a \<in> set bs" by (cases bs rule: rev_cases) auto
    have "instr_range P b e = ws @ a # blk @ zs" using rb wa(1) by (metis append.assoc append_Cons append_Nil)
    from region_extend [OF ready this wa(2) less.prems(6) nI z(3) [folded bk]]
    have reg: "region P {k. flow_reach P b k} i (set (bs @ blk))" by simp
    have def: "\<forall>k\<in>set (bs @ blk). \<exists>d. getDef P1 I k = Inr d \<and> set lst \<inter> set d = {}"
      using less.prems(7) any_instr_False [OF d] by (auto simp: same_frame_getDef [OF fr])
    have eff: "effect M I P1 i s = effect M I P i s" for s using only [of i] effect_seq by blast
    have est: "\<forall>s. J (effect M I P1 i s)" using less.prems(8) eff by metis
    have sf1: "\<forall>j\<in>set (instr_range P1 b e). safe (instr_at P1 j)"
      using like1 by (simp add: walked_def same_frame_range [OF fr])
    have like2: "walked b e P1 P2"
      by (rule act_walked [OF f flow_ready_frame [OF fr ready] sf1 calls_ok_frame [OF fr calls] _ _ def est])
        (use rb reg in \<open>simp_all only: same_frame_range [OF fr] region_frame [OF fr]\<close>)
    have "effect M I P2 i s = effect M I P1 i s" for s using act_out [OF f nI] unfolding effect_def by metis
    then have "\<forall>s. J (effect M I P2 i s)" using est by metis
    moreover have "\<forall>k\<in>set (bs @ blk). \<exists>d. getDef P2 I k = Inr d \<and> set lst \<inter> set d = {}"
      using def by (simp only: same_frame_getDef [OF act_frame [OF f]])
    moreover have "ks = blk @ zs" "length zs < length ks" "drop (length blk - 1) (tl ks) = zs"
      using z(1) ks bk by auto
    ultimately show ?thesis using like2 reg by blast
  qed
  show ?case
  proof (cases ks)
    case Nil
    with less.prems(1) refl show ?thesis by simp
  next
    case (Cons k ks')
    show ?thesis
      using less.prems(1) [unfolded Cons]
    proof (cases rule: spread_step)
      case stay
      with refl show ?thesis by simp
    next
      case (stop P1 r)
      with next_block_walked [OF stop(1) safe] show ?thesis by simp
    next
      case (last P1 x)
      with grown [OF last(1,2,3) _ Cons HOL.refl] walked_trans [OF next_block_walked [OF last(1) safe]]
      show ?thesis by simp
    next
      case (more P1 x ch2 P2)
      define blk where "blk = upto_incl x (k # ks')"
      from grown [OF more(1,2,3,4) Cons HOL.refl, folded blk_def] obtain zs where z: "walked b e P1 P2" "ks = blk @ zs"
        "length zs < length ks" "drop (length blk - 1) ks' = zs" "region P {k. flow_reach P b k} i (set (bs @ blk))"
        "\<forall>k\<in>set (bs @ blk). \<exists>d. getDef P2 I k = Inr d \<and> set lst \<inter> set d = {}" "\<forall>s. J (effect M I P2 i s)"
        unfolding Cons list.sel by blast
      have w: "walked b e P P2" by (rule walked_trans [OF next_block_walked [OF more(1) safe] z(1)])
      then have fr: "same_frame P P2" and sf: "\<forall>j\<in>set (instr_range P2 b e). safe (instr_at P2 j)"
        by (auto simp: walked_def same_frame_range)
      have rng: "instr_range P2 b e = us @ i # (bs @ blk) @ zs"
        using less.prems(5) z(2) by (simp add: same_frame_range [OF fr])
      from more(5) have s: "spread False glob I b e lst act zs (ch2, P2) = Inr (ch', Q)" by (simp add: z(4) [symmetric] blk_def)
      have "walked b e P2 Q"
        by (rule less.hyps [OF z(3) s flow_ready_frame [OF fr ready] sf calls_ok_frame [OF fr calls] rng _ z(6,7)])
          (simp only: region_frame [OF fr] z(5))
      with walked_trans [OF w] show ?thesis .
    qed
  qed
qed

end

end
