(* ===== verification/Fold.thy ===== *)
theory Fold
  imports Steps "HOL-Library.While_Combinator"
begin

text \<open>
  Constant folding and propagation over one function: \<open>constantFolding\<close> of
  \<open>SW/compiler/instruction.cpp\<close>, that propagation keeps the runs of the function, that the pass returns,
  and a case in which it does not keep the runs.
\<close>

section \<open>The pass\<close>

text \<open>
  One operand: when the assigned term \<open>y\<close> equals it, the constant \<open>c\<close> converted to the unit of the operand
  takes its place. The result says whether that happened.
\<close>

definition fold_term :: "(nat \<Rightarrow> int) \<Rightarrow> idents \<Rightarrow> cTerm \<Rightarrow> cTerm res \<Rightarrow> cTerm option \<Rightarrow> (bool \<times> cTerm option) res" where
  "fold_term objaddr I y conv x =
     res_bind (deref x) (\<lambda>t.
       if term_eq objaddr I y t then res_bind conv (\<lambda>u. Inr (True, Some u)) else Inr (False, x))"

definition const_MU :: "(nat \<Rightarrow> int) \<Rightarrow> idents \<Rightarrow> cTerm \<Rightarrow> cTerm res" where
  "const_MU objaddr I c = deref (Convert2MU objaddr I c)"

definition const_IMU :: "cTerm \<Rightarrow> cTerm res" where
  "const_IMU c = res_bind (Convert2IMU c) deref"

definition fold_alu :: "(nat \<Rightarrow> int) \<Rightarrow> idents \<Rightarrow> cTerm \<Rightarrow> cTerm \<Rightarrow> Instruction_alu \<Rightarrow> (bool \<times> Instruction_alu) res" where
  "fold_alu objaddr I y c a =
     (if alu_oc a \<le> 0 then Inr (False, a)
      else res_bind (fold_term objaddr I y (const_MU objaddr I c) (alu_x1 a)) (\<lambda>(r1, x1).
           res_bind (fold_term objaddr I y (const_MU objaddr I c) (alu_x2 a)) (\<lambda>(r2, x2).
             Inr (r1 \<or> r2, a\<lparr>alu_x1 := x1, alu_x2 := x2\<rparr>))))"

definition fold_imu :: "(nat \<Rightarrow> int) \<Rightarrow> idents \<Rightarrow> cTerm \<Rightarrow> cTerm \<Rightarrow> Instruction_ialu \<Rightarrow> (bool \<times> Instruction_ialu) res" where
  "fold_imu objaddr I y c u =
     (if imu_oc u \<le> 0 then Inr (False, u)
      else res_bind (fold_term objaddr I y (const_IMU c) (imu_x1 u)) (\<lambda>(r1, x1).
           res_bind (fold_term objaddr I y (const_IMU c) (imu_x2 u)) (\<lambda>(r2, x2).
             Inr (r1 \<or> r2, u\<lparr>imu_x1 := x1, imu_x2 := x2\<rparr>))))"

definition fold_instr :: "(nat \<Rightarrow> int) \<Rightarrow> idents \<Rightarrow> cTerm \<Rightarrow> cTerm \<Rightarrow> cInstruction \<Rightarrow> (bool \<times> cInstruction) res" where
  "fold_instr objaddr I y c ins =
     res_bind (fold_alu objaddr I y c (m_alu1 ins)) (\<lambda>(r1, a1).
     res_bind (fold_alu objaddr I y c (m_alu2 ins)) (\<lambda>(r2, a2).
     res_bind (fold_imu objaddr I y c (m_imu ins)) (\<lambda>(r3, u).
       Inr (r1 \<or> r2 \<or> r3, ins\<lparr>m_alu1 := a1, m_alu2 := a2, m_imu := u\<rparr>))))"

fun fold_block :: "(nat \<Rightarrow> int) \<Rightarrow> idents \<Rightarrow> cTerm \<Rightarrow> cTerm \<Rightarrow> nat list \<Rightarrow> bool \<times> program \<Rightarrow> (bool \<times> program) res" where
  "fold_block objaddr I y c [] s = Inr s"
| "fold_block objaddr I y c (k # ks) (ch, P) =
     res_bind (fold_instr objaddr I y c (instr_at P k)) (\<lambda>(r, ins).
       fold_block objaddr I y c ks (ch \<or> r, upd_instr k (\<lambda>_. ins) P))"

text \<open>
  The assignments to constants, up to the last instruction of the function, which is not one of them. From
  each one a walk goes on until its destination is assigned again.
\<close>

fun fold_pass ::
  "bool \<Rightarrow> (nat \<Rightarrow> int) \<Rightarrow> idents \<Rightarrow> nat \<Rightarrow> nat \<Rightarrow> nat list \<Rightarrow> bool \<times> program \<Rightarrow> (bool \<times> program) res" where
  "fold_pass glob objaddr I b e [] s = Inr s"
| "fold_pass glob objaddr I b e (i # ks) (ch, P) =
     (if i = e then Inr (ch, P)
      else if ctl_oc (m_control (instr_at P i)) > 0 then fold_pass glob objaddr I b e ks (ch, P)
      else res_bind (getConstantAssignment (instr_at P i)) (\<lambda>r. case r of
          None \<Rightarrow> fold_pass glob objaddr I b e ks (ch, P)
        | Some (yo, c) \<Rightarrow> res_bind (deref yo) (\<lambda>y.
            res_bind (spread False glob I b e (term_getDef I y []) (fold_block objaddr I y c) ks (ch, P))
              (fold_pass glob objaddr I b e ks))))"

fun simplify_all :: "(nat \<Rightarrow> int) \<Rightarrow> idents \<Rightarrow> nat list \<Rightarrow> bool \<times> program \<Rightarrow> (bool \<times> program) res" where
  "simplify_all objaddr I [] s = Inr s"
| "simplify_all objaddr I (i # is) (ch, P) =
     res_bind (simplify objaddr I (instr_at P i)) (\<lambda>(r, ins).
       simplify_all objaddr I is (ch \<or> r, upd_instr i (\<lambda>_. ins) P))"

text \<open>
  One round, and the rounds until one changes nothing; the state has \<open>cont\<close>, the number of rounds and the
  program. The pass reports a change when it took more than one round.
\<close>

type_synonym fold_state = "(bool \<times> nat \<times> program) res"

definition fold_round :: "bool \<Rightarrow> (nat \<Rightarrow> int) \<Rightarrow> idents \<Rightarrow> nat \<Rightarrow> nat \<Rightarrow> fold_state \<Rightarrow> fold_state" where
  "fold_round glob objaddr I b e s = res_bind s (\<lambda>(_, n, P).
     res_bind (simplify_all objaddr I (instr_range P b e) (False, P)) (\<lambda>(ch, P1).
     res_bind (fold_pass glob objaddr I b e (instr_range P b e) (ch, P1)) (\<lambda>(ch', P2). Inr (ch', Suc n, P2))))"

definition folding :: "fold_state \<Rightarrow> bool" where
  "folding s = (case s of Inr (cont, _) \<Rightarrow> cont | Inl _ \<Rightarrow> False)"

definition constantFolding :: "bool \<Rightarrow> (nat \<Rightarrow> int) \<Rightarrow> idents \<Rightarrow> nat \<Rightarrow> program \<Rightarrow> (bool \<times> program) res option" where
  "constantFolding glob objaddr I b P =
     (let e = GetFunctionEnd P b in
      if b = e then Some (Inr (False, P))
      else map_option (\<lambda>s. res_bind s (\<lambda>(_, n, Q). Inr (n > 1, Q)))
        (while_option folding (fold_round glob objaddr I b e) (Inr (True, 0, P))))"

section \<open>What the machine is assumed to do with constants\<close>

text \<open>
  A scalar operand is one whose value is the content of fixed cells: a register, the result flag, the lane
  mask, a word of a variable outside every array and vector. \<open>holds\<close>: all of its cells have the word of the
  constant. An array element, a vector (which is written under the lane mask) and what a pointer points to
  are not scalar.
\<close>

fun scalar :: "idents \<Rightarrow> cTerm \<Rightarrow> bool" where
  "scalar I (IMU_Integer _) = True"
| "scalar I (IMU_Pointer _) = True"
| "scalar I IMU_Result = True"
| "scalar I IMU_Lane = True"
| "scalar I MU_Result = True"
| "scalar I (MU_Storage i off sub) = (mu_getVectorWidth I (MU_Storage i off sub) < 1)"
| "scalar I _ = False"

fun scalar_cells :: "idents \<Rightarrow> cTerm \<Rightarrow> cell set" where
  "scalar_cells I (IMU_Integer i) = {CellInt i}"
| "scalar_cells I (IMU_Pointer i) = {CellPtr i}"
| "scalar_cells I IMU_Result = {CellResult}"
| "scalar_cells I IMU_Lane = {CellLane}"
| "scalar_cells I MU_Result = {CellResult}"
| "scalar_cells I (MU_Storage i off sub) = var_cells i off (mu_getVectorWidth I (MU_Storage i off sub))"
| "scalar_cells I _ = {}"

definition holds :: "machine \<Rightarrow> idents \<Rightarrow> cTerm \<Rightarrow> cTerm \<Rightarrow> store \<Rightarrow> bool" where
  "holds M I y c s \<longleftrightarrow> (\<forall>x\<in>scalar_cells I y. s x = mc_const M c)"

definition is_const :: "cTerm \<Rightarrow> bool" where
  "is_const c \<longleftrightarrow> plain_const c \<or> is_MU_Const c"

definition operand_alike :: "machine \<Rightarrow> idents \<Rightarrow> store \<Rightarrow> cTerm option \<Rightarrow> cTerm option \<Rightarrow> bool" where
  "operand_alike M I s x x' \<longleftrightarrow>
     x' = x \<or> (\<exists>t c. x = Some t \<and> x' = Some c \<and> is_const c \<and> scalar I t \<and> holds M I t c s)"

definition alu_alike :: "machine \<Rightarrow> idents \<Rightarrow> store \<Rightarrow> Instruction_alu \<Rightarrow> Instruction_alu \<Rightarrow> bool" where
  "alu_alike M I s a a' \<longleftrightarrow> frame_alu a' = frame_alu a \<and> operand_alike M I s (alu_x1 a) (alu_x1 a') \<and>
     operand_alike M I s (alu_x2 a) (alu_x2 a')"

definition imu_alike :: "machine \<Rightarrow> idents \<Rightarrow> store \<Rightarrow> Instruction_ialu \<Rightarrow> Instruction_ialu \<Rightarrow> bool" where
  "imu_alike M I s u u' \<longleftrightarrow> frame_imu u' = frame_imu u \<and> operand_alike M I s (imu_x1 u) (imu_x1 u') \<and>
     operand_alike M I s (imu_x2 u) (imu_x2 u')"

fun op_alike :: "machine \<Rightarrow> idents \<Rightarrow> store \<Rightarrow> op \<Rightarrow> op \<Rightarrow> bool" where
  "op_alike M I s (OpAlu1 a) (OpAlu1 a') = alu_alike M I s a a'"
| "op_alike M I s (OpAlu2 a) (OpAlu2 a') = alu_alike M I s a a'"
| "op_alike M I s (OpImu u) (OpImu u') = imu_alike M I s u u'"
| "op_alike M I s _ _ = False"

text \<open>
  The laws: an operation depends on the values of its scalar operands, whether they come from cells or are
  constants; an assignment of a constant to a scalar puts its word there; and the conversion of a constant
  from the vector to the scalar unit keeps the word.
\<close>

definition reads_values :: "machine \<Rightarrow> idents \<Rightarrow> bool" where
  "reads_values M I \<longleftrightarrow>
     (\<forall>s p p' x. op_alike M I s p p' \<longrightarrow> x \<in> op_writes I s p \<longrightarrow> mc_sem M p' s x = mc_sem M p s x) \<and>
     (\<forall>s u u' oc. imu_alike M I s u u' \<longrightarrow> mc_taken M u' oc s = mc_taken M u oc s)"

fun assigned :: "op \<Rightarrow> (cTerm option \<times> cTerm) option res" where
  "assigned (OpAlu1 a) = alu_const_assign a"
| "assigned (OpAlu2 a) = alu_const_assign a"
| "assigned (OpImu u) = imu_const_assign u (m_control new_cInstruction)"

definition assigns_constants :: "machine \<Rightarrow> idents \<Rightarrow> bool" where
  "assigns_constants M I \<longleftrightarrow>
     (\<forall>p y c s x. assigned p = Inr (Some (Some y, c)) \<longrightarrow> scalar I y \<longrightarrow> x \<in> op_writes I s p \<longrightarrow>
        mc_sem M p s x = mc_const M c)"

definition converts_constants :: "machine \<Rightarrow> bool" where
  "converts_constants M \<longleftrightarrow>
     (\<forall>v n. f32_to_int v = Some n \<longrightarrow> mc_const M (IMU_Constant n) = mc_const M (MU_Constant v False))"

section \<open>Propagation of one constant\<close>

lemma fold_term_cases:
  assumes "fold_term objaddr I y conv x = Inr (r, x')"
  shows "x' = x \<or> (\<exists>t u. x = Some t \<and> term_eq objaddr I y t \<and> conv = Inr u \<and> x' = Some u)"
  using assms by (cases x) (auto simp: fold_term_def res_bind_eq_Inr_iff split: if_splits)

lemma scalar_eq:
  assumes "term_eq objaddr I y t" "scalar I y" "y \<noteq> IMU_Result"
  shows "t = y \<or> y = MU_Result \<and> t = IMU_Result"
  using assms by (cases y; cases t) (auto simp: term_eq_def is_IMU_def split: if_splits)

lemma is_const_conv:
  "is_const c \<Longrightarrow> is_MU c \<Longrightarrow> Convert2MU objaddr I c = Some c" "is_const c \<Longrightarrow> \<not> is_MU c \<Longrightarrow> Convert2IMU c = Inr (Some c)"
  by (auto simp: is_IMU_def)

lemma fold_operand_MU:
  assumes "fold_term objaddr I y (const_MU objaddr I c) x = Inr (r, x')" "scalar I y" "y \<noteq> IMU_Result" "is_const c"
    "is_MU y = is_MU c" "\<forall>t. x = Some t \<longrightarrow> is_MU t" "holds M I y c s"
  shows "operand_alike M I s x x'"
proof -
  from fold_term_cases [OF assms(1)] consider "x' = x"
    | t u where "x = Some t" "term_eq objaddr I y t" "const_MU objaddr I c = Inr u" "x' = Some u" by blast
  then show ?thesis
  proof cases
    case 2
    with scalar_eq [OF 2(2) assms(2,3)] assms(6) have t: "t = y" by auto
    with 2 assms(5,6) have "is_MU c" by simp
    with is_const_conv(1) [OF assms(4), of objaddr I] 2(3) have "u = c" by (simp add: const_MU_def del: Convert2MU.simps)
    with 2 t assms show ?thesis by (auto simp: operand_alike_def)
  qed (simp add: operand_alike_def)
qed

lemma fold_operand_IMU:
  assumes "fold_term objaddr I y (const_IMU c) x = Inr (r, x')" "scalar I y" "y \<noteq> IMU_Result" "is_const c"
    "is_MU y = is_MU c" "\<forall>t. x = Some t \<longrightarrow> \<not> is_MU t" "holds M I y c s" "converts_constants M"
  shows "operand_alike M I s x x'"
proof -
  from fold_term_cases [OF assms(1)] consider "x' = x"
    | t u where "x = Some t" "term_eq objaddr I y t" "const_IMU c = Inr u" "x' = Some u" by blast
  then show ?thesis
  proof cases
    case 2
    from scalar_eq [OF 2(2) assms(2,3)] show ?thesis
    proof
      assume t: "t = y"
      with 2 assms(5,6) have "\<not> is_MU c" by simp
      with is_const_conv(2) [OF assms(4)] 2(3) have "u = c" by (simp add: const_IMU_def del: Convert2IMU.simps)
      with 2 t assms show ?thesis by (auto simp: operand_alike_def)
    next
      assume y: "y = MU_Result \<and> t = IMU_Result"
      with assms(4,5) obtain v f where c: "c = MU_Constant v f" by (cases c) (auto simp: is_const_def plain_const_def)
      with 2(3) obtain n where n: "f32_to_int v = Some n" "\<not> f" "u = IMU_Constant n"
        by (auto simp: const_IMU_def is_IMU_def split: if_splits option.splits)
      with assms(7,8) y c have "holds M I t u s" by (auto simp: holds_def converts_constants_def)
      with 2(1,4) y n show ?thesis by (auto simp: operand_alike_def is_const_def plain_const_def)
    qed
  qed (simp add: operand_alike_def)
qed

text \<open>The operands of the busy slots belong to the unit of the slot.\<close>

definition alu_units :: "Instruction_alu \<Rightarrow> bool" where
  "alu_units a \<longleftrightarrow> (alu_oc a > 0 \<longrightarrow> (\<forall>t. Some t \<in> {alu_x1 a, alu_x2 a, alu_y a} \<longrightarrow> is_MU t))"

definition imu_units :: "Instruction_ialu \<Rightarrow> bool" where
  "imu_units u \<longleftrightarrow> (imu_oc u > 0 \<longrightarrow> (\<forall>t. Some t \<in> {imu_x1 u, imu_x2 u, imu_y u} \<longrightarrow> \<not> is_MU t))"

definition units_ok :: "cInstruction \<Rightarrow> bool" where
  "units_ok ins \<longleftrightarrow> alu_units (m_alu1 ins) \<and> alu_units (m_alu2 ins) \<and> imu_units (m_imu ins)"

text \<open>A destination and a constant that the propagation handles correctly.\<close>

definition target_const :: "idents \<Rightarrow> cTerm \<Rightarrow> cTerm \<Rightarrow> bool" where
  "target_const I y c \<longleftrightarrow> scalar I y \<and> y \<noteq> IMU_Result \<and> is_const c \<and> is_MU y = is_MU c"

lemma fold_alu_alike:
  assumes "fold_alu objaddr I y c a = Inr (r, a')" "target_const I y c" "alu_units a"
  shows "frame_alu a' = frame_alu a" "holds M I y c s \<Longrightarrow> alu_alike M I s a a'"
proof -
  from assms(1) show f: "frame_alu a' = frame_alu a"
    by (auto simp: fold_alu_def frame_alu_def res_bind_eq_Inr_iff split: if_splits)
  show "alu_alike M I s a a'" if h: "holds M I y c s"
  proof (cases "alu_oc a \<le> 0")
    case True
    with assms(1) show ?thesis by (simp add: fold_alu_def alu_alike_def operand_alike_def)
  next
    case False
    with assms(1) obtain r1 x1 r2 x2 where x: "fold_term objaddr I y (const_MU objaddr I c) (alu_x1 a) = Inr (r1, x1)"
        "fold_term objaddr I y (const_MU objaddr I c) (alu_x2 a) = Inr (r2, x2)" "a' = a\<lparr>alu_x1 := x1, alu_x2 := x2\<rparr>"
      by (auto simp: fold_alu_def res_bind_eq_Inr_iff)
    note o = fold_operand_MU [OF x(1), of M s] fold_operand_MU [OF x(2), of M s]
    from False assms(3) have "\<forall>t. alu_x1 a = Some t \<longrightarrow> is_MU t" "\<forall>t. alu_x2 a = Some t \<longrightarrow> is_MU t"
      by (auto simp: alu_units_def)
    with o assms(2) h f x(3) show ?thesis by (simp add: alu_alike_def target_const_def)
  qed
qed

lemma fold_imu_alike:
  assumes "fold_imu objaddr I y c u = Inr (r, u')" "target_const I y c" "imu_units u" "converts_constants M"
  shows "frame_imu u' = frame_imu u" "holds M I y c s \<Longrightarrow> imu_alike M I s u u'"
proof -
  from assms(1) show f: "frame_imu u' = frame_imu u"
    by (auto simp: fold_imu_def frame_imu_def res_bind_eq_Inr_iff split: if_splits)
  show "imu_alike M I s u u'" if h: "holds M I y c s"
  proof (cases "imu_oc u \<le> 0")
    case True
    with assms(1) show ?thesis by (simp add: fold_imu_def imu_alike_def operand_alike_def)
  next
    case False
    with assms(1) obtain r1 x1 r2 x2 where x: "fold_term objaddr I y (const_IMU c) (imu_x1 u) = Inr (r1, x1)"
        "fold_term objaddr I y (const_IMU c) (imu_x2 u) = Inr (r2, x2)" "u' = u\<lparr>imu_x1 := x1, imu_x2 := x2\<rparr>"
      by (auto simp: fold_imu_def res_bind_eq_Inr_iff)
    note o = fold_operand_IMU [OF x(1), of M s] fold_operand_IMU [OF x(2), of M s]
    from False assms(3) have "\<forall>t. imu_x1 u = Some t \<longrightarrow> \<not> is_MU t" "\<forall>t. imu_x2 u = Some t \<longrightarrow> \<not> is_MU t"
      by (auto simp: imu_units_def)
    with o assms(2,4) h f x(3) show ?thesis by (simp add: imu_alike_def target_const_def)
  qed
qed

text \<open>Two lists of operations that are alike one by one act alike.\<close>

lemma op_alike_writes: "op_alike M I s p p' \<Longrightarrow> op_writes I s p' = op_writes I s p"
  by (cases p; cases p') (auto simp: op_writes_def alu_alike_def imu_alike_def dest: frame_aluD(3) frame_imuD(2))

lemma find_alike:
  "list_all2 (op_alike M I s) ps qs \<Longrightarrow>
     rel_option (op_alike M I s) (find (\<lambda>p. x \<in> op_writes I s p) ps) (find (\<lambda>p. x \<in> op_writes I s p) qs)"
  by (induction rule: list_all2_induct) (auto dest: op_alike_writes)

lemma exec_ops_alike:
  assumes "reads_values M I" "list_all2 (op_alike M I s) ps qs"
  shows "exec_ops I (mc_sem M) qs s = exec_ops I (mc_sem M) ps s"
proof
  fix x
  have "rel_option (op_alike M I s) (writer I s ps x) (writer I s qs x)"
    unfolding writer_def by (rule find_alike) (simp add: assms(2) list_all2_rev)
  then show "exec_ops I (mc_sem M) qs s x = exec_ops I (mc_sem M) ps s x"
  proof cases
    case (Some p q)
    from writer_Some [OF Some(1)] have "x \<in> op_writes I s p" by blast
    with Some assms(1) show ?thesis unfolding exec_ops_def reads_values_def by fastforce
  qed (simp add: exec_ops_def)
qed

lemma fold_instr_parts:
  assumes "fold_instr objaddr I y c ins = Inr (r, ins')"
  obtains r1 a1 r2 a2 r3 v where "fold_alu objaddr I y c (m_alu1 ins) = Inr (r1, a1)"
    "fold_alu objaddr I y c (m_alu2 ins) = Inr (r2, a2)" "fold_imu objaddr I y c (m_imu ins) = Inr (r3, v)"
    "ins' = ins\<lparr>m_alu1 := a1, m_alu2 := a2, m_imu := v\<rparr>" "r = (r1 \<or> r2 \<or> r3)"
proof -
  from assms have "\<exists>p q w. fold_alu objaddr I y c (m_alu1 ins) = Inr p \<and> fold_alu objaddr I y c (m_alu2 ins) = Inr q \<and>
      fold_imu objaddr I y c (m_imu ins) = Inr w \<and> ins' = ins\<lparr>m_alu1 := snd p, m_alu2 := snd q, m_imu := snd w\<rparr> \<and>
      r = (fst p \<or> fst q \<or> fst w)"
    by (simp add: fold_instr_def res_bind_eq_Inr_iff split_def) metis
  then show thesis using that by (metis prod.collapse)
qed

lemma fold_instr_alike:
  assumes r: "fold_instr objaddr I y c ins = Inr (r, ins')" and t: "target_const I y c" and u: "units_ok ins"
    and laws: "reads_values M I" "converts_constants M"
  shows "frame ins' = frame ins" "holds M I y c s \<Longrightarrow> acts_alike M I ins' ins s"
proof -
  from r obtain r1 a1 r2 a2 r3 v where x: "fold_alu objaddr I y c (m_alu1 ins) = Inr (r1, a1)"
      "fold_alu objaddr I y c (m_alu2 ins) = Inr (r2, a2)" "fold_imu objaddr I y c (m_imu ins) = Inr (r3, v)"
      "ins' = ins\<lparr>m_alu1 := a1, m_alu2 := a2, m_imu := v\<rparr>"
    by (rule fold_instr_parts)
  from u have "alu_units (m_alu1 ins)" "alu_units (m_alu2 ins)" "imu_units (m_imu ins)" by (simp_all add: units_ok_def)
  note al = fold_alu_alike [OF x(1) t this(1)] fold_alu_alike [OF x(2) t this(2)]
    fold_imu_alike [OF x(3) t this(3) laws(2)]
  show "frame ins' = frame ins" using al(1,3,5) by (simp add: frame_def x(4))
  assume h: "holds M I y c s"
  have oc: "alu_oc a1 = alu_oc (m_alu1 ins)" "alu_oc a2 = alu_oc (m_alu2 ins)" "imu_oc v = imu_oc (m_imu ins)"
    using frame_aluD(1) [OF al(1)] frame_aluD(1) [OF al(3)] frame_imuD(1) [OF al(5)] by simp_all
  have "list_all2 (op_alike M I s) (ops_of ins) (ops_of ins')"
    using al(2,4,6) [OF h] oc by (simp add: ops_of_def x(4))
  from exec_ops_alike [OF laws(1) this] have "exec_instr I (mc_sem M) ins' s = exec_instr I (mc_sem M) ins s"
    by (simp add: exec_instr_def)
  moreover have "mc_taken M v oc s = mc_taken M (m_imu ins) oc s" for oc
    using laws(1) al(6) [OF h] by (simp add: reads_values_def)
  ultimately show "acts_alike M I ins' ins s" by (simp add: acts_alike_def jumps_def x(4))
qed

lemma fold_instr_frame:
  assumes "fold_instr objaddr I y c ins = Inr (r, ins')"
  shows "frame ins' = frame ins"
proof -
  from assms obtain r1 a1 r2 a2 r3 v where x: "fold_alu objaddr I y c (m_alu1 ins) = Inr (r1, a1)"
      "fold_alu objaddr I y c (m_alu2 ins) = Inr (r2, a2)" "fold_imu objaddr I y c (m_imu ins) = Inr (r3, v)"
      "ins' = ins\<lparr>m_alu1 := a1, m_alu2 := a2, m_imu := v\<rparr>"
    by (rule fold_instr_parts)
  have "frame_alu a1 = frame_alu (m_alu1 ins)" "frame_alu a2 = frame_alu (m_alu2 ins)" "frame_imu v = frame_imu (m_imu ins)"
    using x(1-3) by (auto simp: fold_alu_def fold_imu_def frame_alu_def frame_imu_def res_bind_eq_Inr_iff split: if_splits)
  then show ?thesis by (simp add: frame_def x(4))
qed

lemma fold_block_frame: "fold_block objaddr I y c ks (ch, P) = Inr (ch', Q) \<Longrightarrow> same_frame P Q"
proof (induction ks arbitrary: ch P)
  case (Cons k ks)
  then obtain r ins where x: "fold_instr objaddr I y c (instr_at P k) = Inr (r, ins)"
    "fold_block objaddr I y c ks (ch \<or> r, upd_instr k (\<lambda>_. ins) P) = Inr (ch', Q)" by (auto simp: res_bind_eq_Inr_iff)
  from same_frame_trans [OF same_frame_upd Cons.IH [OF x(2)]] fold_instr_frame [OF x(1)] show ?case by simp
qed simp

lemma fold_block_out:
  "fold_block objaddr I y c ks (ch, P) = Inr (ch', Q) \<Longrightarrow> k \<notin> set ks \<Longrightarrow> instr_at Q k = instr_at P k"
  by (induction ks arbitrary: ch P) (auto simp: res_bind_eq_Inr_iff)

lemma fold_block_alike:
  assumes "fold_block objaddr I y c ks (ch, P) = Inr (ch', Q)" "distinct ks" "target_const I y c"
    "\<forall>k\<in>set ks. units_ok (instr_at P k)" "reads_values M I" "converts_constants M"
  shows "same_frame P Q \<and> (\<forall>k. k \<notin> set ks \<longrightarrow> instr_at Q k = instr_at P k) \<and>
    (\<forall>k s. holds M I y c s \<longrightarrow> acts_alike M I (instr_at Q k) (instr_at P k) s)"
  using assms
proof (induction ks arbitrary: ch P)
  case (Cons k ks)
  from Cons.prems(1) obtain r ins where x: "fold_instr objaddr I y c (instr_at P k) = Inr (r, ins)"
    "fold_block objaddr I y c ks (ch \<or> r, upd_instr k (\<lambda>_. ins) P) = Inr (ch', Q)" (is "fold_block _ _ _ _ _ (_, ?P) = _")
    by (auto simp: res_bind_eq_Inr_iff)
  from Cons.prems(4) have "units_ok (instr_at P k)" by simp
  note al = fold_instr_alike [OF x(1) Cons.prems(3) this Cons.prems(5,6)]
  have f: "same_frame P ?P" using al(1) by (intro same_frame_upd) simp
  have "\<forall>j\<in>set ks. units_ok (instr_at ?P j)" using Cons.prems(2,4) by auto
  with Cons.IH [OF x(2)] Cons.prems have "same_frame ?P Q" "\<forall>j. j \<notin> set ks \<longrightarrow> instr_at Q j = instr_at ?P j"
      "\<forall>j s. holds M I y c s \<longrightarrow> acts_alike M I (instr_at Q j) (instr_at ?P j) s"
    by (simp_all del: instr_at_upd)
  then show ?case
    using same_frame_trans [OF f] Cons.prems(2) al(2) by (auto simp: acts_alike_def split: if_splits)
qed simp

section \<open>Propagation over a function\<close>

text \<open>
  The functions for which propagation is correct. Every instruction has one busy slot (packing comes later)
  whose operands belong to its unit. What is not scalar is not assigned a scalar or a constant.
\<close>

definition assign_safe :: "idents \<Rightarrow> Instruction_alu \<Rightarrow> bool" where
  "assign_safe I a \<longleftrightarrow> (alu_oc a = OPCODE_ASSIGN \<or> alu_oc a = OPCODE_ASSIGN_RAW \<longrightarrow>
     (\<forall>y. alu_y a = Some y \<longrightarrow> scalar I y \<and> y \<noteq> IMU_Result) \<or>
     (\<forall>t. alu_x1 a = Some t \<longrightarrow> \<not> is_const t \<and> \<not> scalar I t))"

definition add_safe :: "idents \<Rightarrow> cInstruction \<Rightarrow> bool" where
  "add_safe I ins \<longleftrightarrow> (imu_oc (m_imu ins) = IOPCODE_ADD \<and> ctl_oc (m_control ins) \<le> 0 \<longrightarrow>
     (\<forall>y. imu_y (m_imu ins) = Some y \<longrightarrow> scalar I y \<and> y \<noteq> IMU_Result))"

definition instr_safe :: "idents \<Rightarrow> cInstruction \<Rightarrow> bool" where
  "instr_safe I ins \<longleftrightarrow> units_ok ins \<and> length (ops_of ins) \<le> 1 \<and> assign_safe I (m_alu1 ins) \<and>
     assign_safe I (m_alu2 ins) \<and> add_safe I ins"

definition all_safe :: "idents \<Rightarrow> program \<Rightarrow> nat \<Rightarrow> nat \<Rightarrow> bool" where
  "all_safe I P b e \<longleftrightarrow> (\<forall>i\<in>set (instr_range P b e). instr_safe I (instr_at P i))"

text \<open>Folding keeps the functions safe.\<close>

lemma fold_term_unit:
  assumes "fold_term objaddr I y conv x = Inr (r, x')" "\<forall>u. conv = Inr u \<longrightarrow> p u" "\<forall>t. x = Some t \<longrightarrow> p t"
  shows "\<forall>t. x' = Some t \<longrightarrow> p t"
  using fold_term_cases [OF assms(1)] assms(2,3) by auto

lemma const_MU_unit: "is_const c \<Longrightarrow> const_MU objaddr I c = Inr u \<Longrightarrow> is_MU u"
  by (cases c) (auto simp: const_MU_def is_const_def plain_const_def new_MU_Constant_float_def)

lemma const_IMU_unit: "is_const c \<Longrightarrow> const_IMU c = Inr u \<Longrightarrow> \<not> is_MU u"
  by (cases c) (auto simp: const_IMU_def is_const_def plain_const_def is_IMU_def split: if_splits option.splits)

lemma fold_alu_safe:
  assumes "fold_alu objaddr I y c a = Inr (r, a')" "target_const I y c" "alu_units a" "assign_safe I a"
  shows "alu_units a' \<and> assign_safe I a'"
proof (cases "alu_oc a \<le> 0")
  case True
  with assms show ?thesis by (simp add: fold_alu_def)
next
  case False
  with assms(1) obtain r1 x1 r2 x2 where x: "fold_term objaddr I y (const_MU objaddr I c) (alu_x1 a) = Inr (r1, x1)"
      "fold_term objaddr I y (const_MU objaddr I c) (alu_x2 a) = Inr (r2, x2)" "a' = a\<lparr>alu_x1 := x1, alu_x2 := x2\<rparr>"
    by (auto simp: fold_alu_def res_bind_eq_Inr_iff)
  have t: "\<forall>u. const_MU objaddr I c = Inr u \<longrightarrow> is_MU u" "scalar I y" "y \<noteq> IMU_Result"
    using assms(2) const_MU_unit by (auto simp: target_const_def)
  from False assms(3) have "\<forall>t. alu_x1 a = Some t \<longrightarrow> is_MU t" "\<forall>t. alu_x2 a = Some t \<longrightarrow> is_MU t"
    by (auto simp: alu_units_def)
  note u = fold_term_unit [OF x(1) t(1) this(1)] fold_term_unit [OF x(2) t(1) this(2)]
  from fold_term_cases [OF x(1)] have "x1 = alu_x1 a \<or> (\<exists>t. alu_x1 a = Some t \<and> scalar I t)"
    using scalar_eq [OF _ t(2,3)] t(2) by fastforce
  with u assms(3,4) x(3) False show ?thesis by (auto simp: alu_units_def assign_safe_def)
qed

lemma fold_imu_safe:
  assumes "fold_imu objaddr I y c u = Inr (r, u')" "target_const I y c" "imu_units u"
  shows "imu_units u'"
proof (cases "imu_oc u \<le> 0")
  case True
  with assms show ?thesis by (simp add: fold_imu_def)
next
  case False
  with assms(1) obtain r1 x1 r2 x2 where x: "fold_term objaddr I y (const_IMU c) (imu_x1 u) = Inr (r1, x1)"
      "fold_term objaddr I y (const_IMU c) (imu_x2 u) = Inr (r2, x2)" "u' = u\<lparr>imu_x1 := x1, imu_x2 := x2\<rparr>"
    by (auto simp: fold_imu_def res_bind_eq_Inr_iff)
  have t: "\<forall>u. const_IMU c = Inr u \<longrightarrow> \<not> is_MU u"
    using assms(2) const_IMU_unit by (auto simp: target_const_def)
  from False assms(3) have "\<forall>t. imu_x1 u = Some t \<longrightarrow> \<not> is_MU t" "\<forall>t. imu_x2 u = Some t \<longrightarrow> \<not> is_MU t"
    by (auto simp: imu_units_def)
  note w = fold_term_unit [OF x(1) t this(1)] fold_term_unit [OF x(2) t this(2)]
  with assms(3) x(3) False show ?thesis by (auto simp: imu_units_def)
qed

lemma fold_instr_safe:
  assumes r: "fold_instr objaddr I y c ins = Inr (r, ins')" and t: "target_const I y c" and s: "instr_safe I ins"
  shows "instr_safe I ins'"
proof -
  from r obtain r1 a1 r2 a2 r3 v where x: "fold_alu objaddr I y c (m_alu1 ins) = Inr (r1, a1)"
      "fold_alu objaddr I y c (m_alu2 ins) = Inr (r2, a2)" "fold_imu objaddr I y c (m_imu ins) = Inr (r3, v)"
      "ins' = ins\<lparr>m_alu1 := a1, m_alu2 := a2, m_imu := v\<rparr>"
    by (rule fold_instr_parts)
  from s have u: "alu_units (m_alu1 ins)" "alu_units (m_alu2 ins)" "imu_units (m_imu ins)" "assign_safe I (m_alu1 ins)"
      "assign_safe I (m_alu2 ins)" "length (ops_of ins) \<le> 1" "add_safe I ins"
    by (simp_all add: instr_safe_def units_ok_def)
  have fr: "frame_alu a1 = frame_alu (m_alu1 ins)" "frame_alu a2 = frame_alu (m_alu2 ins)" "frame_imu v = frame_imu (m_imu ins)"
    using x(1-3) by (auto simp: fold_alu_def fold_imu_def frame_alu_def frame_imu_def res_bind_eq_Inr_iff split: if_splits)
  have "length (ops_of ins') = length (ops_of ins)" "add_safe I ins'"
    using u(7) frame_aluD(1) [OF fr(1)] frame_aluD(1) [OF fr(2)] frame_imuD [OF fr(3)]
    by (simp_all add: ops_of_def add_safe_def x(4))
  with fold_alu_safe [OF x(1) t u(1,4)] fold_alu_safe [OF x(2) t u(2,5)] fold_imu_safe [OF x(3) t u(3)] u(6) show ?thesis
    by (simp add: instr_safe_def units_ok_def x(4))
qed

lemma fold_block_safe:
  "fold_block objaddr I y c ks (ch, P) = Inr (ch', Q) \<Longrightarrow> target_const I y c \<Longrightarrow> instr_safe I (instr_at P k) \<Longrightarrow>
     \<forall>j\<in>set ks. instr_safe I (instr_at P j) \<Longrightarrow> instr_safe I (instr_at Q k)"
proof (induction ks arbitrary: ch P)
  case (Cons j ks)
  from Cons.prems(1) obtain r ins where x: "fold_instr objaddr I y c (instr_at P j) = Inr (r, ins)"
    "fold_block objaddr I y c ks (ch \<or> r, upd_instr j (\<lambda>_. ins) P) = Inr (ch', Q)"
    by (auto simp: res_bind_eq_Inr_iff)
  have "instr_safe I ins" using fold_instr_safe [OF x(1) Cons.prems(2)] Cons.prems(4) by simp
  with Cons.prems show ?case by (intro Cons.IH [OF x(2)]) auto
qed simp

lemma seq_safe [simp]: "instr_safe I (ins\<lparr>m_seq := q\<rparr>) = instr_safe I ins"
  by (simp add: instr_safe_def units_ok_def ops_of_def add_safe_def)

text \<open>The walk behind one assignment does not change the runs of the function.\<close>

lemma scalar_var: "x \<in> scalar_cells I y \<Longrightarrow> cell_var x \<in> set (term_getDef I y [])"
  by (cases y) (auto simp: var_cells_def)

lemma holds_kept:
  assumes "calls_ok M I P" "getDef P I k = Inr d" "set (term_getDef I y []) \<inter> set d = {}" "holds M I y c s"
  shows "holds M I y c (effect M I P k s)"
  using assms(4) effect_other [OF assms(1,2)] scalar_var assms(3) unfolding holds_def by fastforce

definition fold_holds :: "machine \<Rightarrow> idents \<Rightarrow> cTerm \<Rightarrow> cTerm \<Rightarrow> store \<Rightarrow> bool" where
  "fold_holds M I y c s \<longleftrightarrow> target_const I y c \<and> reads_values M I \<and> converts_constants M \<and> holds M I y c s"

interpretation folding: spreading M I "term_getDef I y []" "fold_holds M I y c" "fold_block objaddr I y c"
  "\<lambda>ins. target_const I y c \<longrightarrow> instr_safe I ins" for M I objaddr y c
proof
  fix blk ch P ch' Q k s
  assume f: "fold_block objaddr I y c blk (ch, P) = Inr (ch', Q)"
  show "same_frame P Q" by (rule fold_block_frame [OF f])
  show "instr_at Q k = instr_at P k" if "k \<notin> set blk" by (rule fold_block_out [OF f that])
  show "acts_alike M I (instr_at Q k) (instr_at P k) s"
    if "distinct blk" "\<forall>k\<in>set blk. target_const I y c \<longrightarrow> instr_safe I (instr_at P k)" "fold_holds M I y c s"
    using fold_block_alike [OF f that(1), where M = M] that(2,3) by (simp add: fold_holds_def instr_safe_def)
  show "target_const I y c \<longrightarrow> instr_safe I (instr_at Q k)"
    if "\<forall>k\<in>set blk. target_const I y c \<longrightarrow> instr_safe I (instr_at P k)" "target_const I y c \<longrightarrow> instr_safe I (instr_at P k)"
    using fold_block_safe [OF f] that by blast
next
  show "(target_const I y c \<longrightarrow> instr_safe I (ins\<lparr>m_seq := q\<rparr>)) = (target_const I y c \<longrightarrow> instr_safe I ins)" for ins q by simp
  show "fold_holds M I y c (effect M I P k s)" if "calls_ok M I P" "getDef P I k = Inr d" "set (term_getDef I y []) \<inter> set d = {}"
    "fold_holds M I y c s" for P k d s
    using that(4) holds_kept [OF that(1-3)] by (simp add: fold_holds_def)
qed

definition folded_like :: "machine \<Rightarrow> idents \<Rightarrow> nat \<Rightarrow> nat \<Rightarrow> program \<Rightarrow> program \<Rightarrow> bool" where
  "folded_like M I b e P Q \<longleftrightarrow> same_frame P Q \<and> all_safe I Q b e \<and>
     (\<forall>n s. run M I Q n (Some b, s) = run M I P n (Some b, s))"

lemma folded_like_trans: "folded_like M I b e P Q \<Longrightarrow> folded_like M I b e Q R \<Longrightarrow> folded_like M I b e P R"
  by (auto simp: folded_like_def intro: same_frame_trans)

text \<open>An assignment of a constant leaves the constant in the cells of its destination.\<close>

lemma exec_single:
  "ops_of ins = [p] \<Longrightarrow> x \<in> op_writes I s p \<Longrightarrow> exec_instr I sem ins s x = sem p s x"
  by (simp add: exec_instr_def exec_ops_def writer_def)

lemma scalar_assigned: "scalar I y \<Longrightarrow> y \<noteq> IMU_Result \<Longrightarrow> x \<in> scalar_cells I y \<Longrightarrow> x \<in> written_cells I idx y"
  by (cases y) auto

lemma single_slot:
  assumes "length (ops_of ins) \<le> 1" "p \<in> set (ops_of ins)"
  shows "ops_of ins = [p]"
  using assms by (cases "ops_of ins") auto

lemma assignment_holds:
  assumes safe: "instr_safe I (instr_at P i)" and ctl: "ctl_oc (m_control (instr_at P i)) \<le> 0"
    and g: "getConstantAssignment (instr_at P i) = Inr (Some (Some y, c))" and law: "assigns_constants M I"
  shows "target_const I y c" "holds M I y c (effect M I P i s)"
proof -
  let ?i = "instr_at P i"
  have s: "length (ops_of ?i) \<le> 1" "units_ok ?i" "assign_safe I (m_alu1 ?i)" "assign_safe I (m_alu2 ?i)" "add_safe I ?i"
    using safe by (simp_all add: instr_safe_def)
  have alu: "target_const I y c \<and> alu_oc a > 0 \<and> alu_y a = Some y"
    if "alu_const_assign a = Inr (Some (Some y, c))" "assign_safe I a" "alu_units a" for a
  proof -
    from that(1) have x: "alu_oc a = OPCODE_ASSIGN \<or> alu_oc a = OPCODE_ASSIGN_RAW" "alu_x1 a = Some c" "is_MU_Const c" "alu_y a = Some y"
      by (auto simp: alu_const_assign_def res_bind_eq_Inr_iff split: if_splits) (cases "alu_x1 a"; auto)+
    have "is_MU c" "is_const c" using x(3) by (cases c; auto simp: is_const_def)+
    with that(2,3) x show ?thesis by (auto simp: assign_safe_def alu_units_def target_const_def)
  qed
  have imu: "target_const I y c \<and> imu_oc (m_imu ?i) > 0 \<and> imu_y (m_imu ?i) = Some y \<and>
      imu_const_assign (m_imu ?i) (m_control new_cInstruction) = Inr (Some (Some y, c))"
    if a: "imu_const_assign (m_imu ?i) (m_control ?i) = Inr (Some (Some y, c))"
  proof -
    obtain x1 x2 where x: "imu_oc (m_imu ?i) = IOPCODE_ADD" "imu_x1 (m_imu ?i) = Some x1" "imu_x2 (m_imu ?i) = Some x2"
      using a ctl by (cases "imu_x1 (m_imu ?i)"; cases "imu_x2 (m_imu ?i)") (auto simp: imu_const_assign_def split: if_splits)
    have c: "imu_y (m_imu ?i) = Some y" "plain_const c" using a ctl x by (auto simp: imu_const_assign_def split: if_splits)
    have "\<not> is_MU c" using c(2) by (cases c) (auto simp: plain_const_def)
    with c s(2,5) x ctl have "target_const I y c"
      by (auto simp: add_safe_def units_ok_def imu_units_def target_const_def is_const_def)
    with c x a ctl show ?thesis by (simp add: imu_const_assign_def new_cInstruction_def)
  qed
  from g consider "alu_const_assign (m_alu1 ?i) = Inr (Some (Some y, c))" | "alu_const_assign (m_alu2 ?i) = Inr (Some (Some y, c))"
    | "imu_const_assign (m_imu ?i) (m_control ?i) = Inr (Some (Some y, c))"
    by (auto simp: getConstantAssignment_def res_bind_eq_Inr_iff split: option.splits)
  then have "\<exists>p. target_const I y c \<and> p \<in> set (ops_of ?i) \<and> assigned p = Inr (Some (Some y, c)) \<and> op_result p = Some y"
  proof cases
    case 1
    with alu [OF 1 s(3)] s(2) show ?thesis by (intro exI [of _ "OpAlu1 (m_alu1 ?i)"]) (simp add: units_ok_def ops_of_def)
  next
    case 2
    with alu [OF 2 s(4)] s(2) show ?thesis by (intro exI [of _ "OpAlu2 (m_alu2 ?i)"]) (simp add: units_ok_def ops_of_def)
  next
    case 3
    with imu [OF 3] show ?thesis by (intro exI [of _ "OpImu (m_imu ?i)"]) (simp add: ops_of_def)
  qed
  then obtain p where p: "target_const I y c" "p \<in> set (ops_of ?i)" "assigned p = Inr (Some (Some y, c))" "op_result p = Some y"
    by blast
  then show "target_const I y c" by simp
  have sc: "scalar I y" "y \<noteq> IMU_Result" using p(1) by (simp_all add: target_const_def)
  have "exec_instr I (mc_sem M) ?i s x = mc_const M c" if "x \<in> scalar_cells I y" for x
  proof -
    have w: "x \<in> op_writes I s p" using scalar_assigned [OF sc that] p(4) by (simp add: op_writes_def opt_written_def)
    with exec_single [OF single_slot [OF s(1) p(2)] w] law p(3) sc(1) show ?thesis unfolding assigns_constants_def by metis
  qed
  with ctl show "holds M I y c (effect M I P i s)" by (simp add: holds_def effect_def)
qed

lemma fold_pass_step:
  assumes "fold_pass glob objaddr I b e (i # ks) (ch, P) = Inr (ch', Q)"
  obtains "ch' = ch" "Q = P" | "fold_pass glob objaddr I b e ks (ch, P) = Inr (ch', Q)"
    | y c ch1 P1 where "ctl_oc (m_control (instr_at P i)) \<le> 0" "getConstantAssignment (instr_at P i) = Inr (Some (Some y, c))"
      "spread False glob I b e (term_getDef I y []) (fold_block objaddr I y c) ks (ch, P) = Inr (ch1, P1)"
      "fold_pass glob objaddr I b e ks (ch1, P1) = Inr (ch', Q)"
proof (cases "i = e \<or> ctl_oc (m_control (instr_at P i)) > 0")
  case True
  show thesis
  proof (cases "i = e")
    case True
    with assms that(1) show thesis by simp
  next
    case ne: False
    with True have "ctl_oc (m_control (instr_at P i)) > 0" by simp
    with ne assms that(2) show thesis by simp
  qed
next
  case False
  with assms obtain r where r: "getConstantAssignment (instr_at P i) = Inr r" by (auto simp: res_bind_eq_Inr_iff)
  show thesis
  proof (cases r)
    case None
    with assms False r that(2) show thesis by simp
  next
    case (Some yc)
    obtain yo c where yc: "yc = (yo, c)" by fastforce
    from assms False r Some yc obtain y where y: "yo = Some y" by (cases yo) simp_all
    from assms False r Some yc y obtain ch1 P1 where "spread False glob I b e (term_getDef I y []) (fold_block objaddr I y c) ks (ch, P) = Inr (ch1, P1)"
      "fold_pass glob objaddr I b e ks (ch1, P1) = Inr (ch', Q)" by (auto simp: res_bind_eq_Inr_iff)
    with False r Some yc y show thesis by (intro that(3) [of y c ch1 P1]) simp_all
  qed
qed

lemma fold_pass_run:
  assumes "fold_pass glob objaddr I b e ks (ch, P) = Inr (ch', Q)" "flow_ready P b e" "all_safe I P b e"
    "reads_values M I" "assigns_constants M I" "converts_constants M" "calls_ok M I P" "instr_range P b e = us @ ks"
  shows "folded_like M I b e P Q"
  using assms
proof (induction ks arbitrary: us ch P)
  case Nil
  then show ?case by (simp add: folded_like_def)
next
  case (Cons i ks)
  note ready = Cons.prems(2) and safe = Cons.prems(3) and rng = Cons.prems(8)
  have refl: "folded_like M I b e P P" using safe by (simp add: folded_like_def)
  have rng': "instr_range P b e = (us @ [i]) @ ks" using rng by simp
  from Cons.prems(1) show ?case
  proof (rule fold_pass_step)
    assume "Q = P"
    with refl show ?thesis by simp
  next
    assume "fold_pass glob objaddr I b e ks (ch, P) = Inr (ch', Q)"
    from Cons.IH [OF this Cons.prems(2-7) rng'] show ?thesis .
  next
    fix y c ch1 P1
    assume ctl: "ctl_oc (m_control (instr_at P i)) \<le> 0" and g: "getConstantAssignment (instr_at P i) = Inr (Some (Some y, c))"
      and s: "spread False glob I b e (term_getDef I y []) (fold_block objaddr I y c) ks (ch, P) = Inr (ch1, P1)"
        "fold_pass glob objaddr I b e ks (ch1, P1) = Inr (ch', Q)"
    have si: "instr_safe I (instr_at P i)" using safe rng by (simp add: all_safe_def)
    note h = assignment_holds [OF si ctl g Cons.prems(5)]
    have "\<forall>s. fold_holds M I y c (effect M I P i s)" using h Cons.prems(4,6) by (simp add: fold_holds_def)
    then have w: "folding.walked M I y c b e P P1"
      by (intro folding.spread_run [OF s(1) ready _ Cons.prems(7), where bs = "[]" and us = us and i = i])
        (use rng safe in \<open>simp_all add: region_def all_safe_def\<close>)
    then have fr: "same_frame P P1" unfolding folding.walked_def by blast
    have l1: "folded_like M I b e P P1"
      using w [unfolded folding.walked_def] h(1) by (simp add: folded_like_def all_safe_def same_frame_range [OF fr])
    then have sf: "all_safe I P1 b e" by (simp add: folded_like_def)
    have "folded_like M I b e P1 Q"
      by (rule Cons.IH [OF s(2) flow_ready_frame [OF fr ready] sf Cons.prems(4-6) calls_ok_frame [OF fr Cons.prems(7)]])
        (use rng' in \<open>simp only: same_frame_range [OF fr]\<close>)
    with folded_like_trans [OF l1] show ?thesis .
  qed
qed


text \<open>
  A machine that adds: an operation writes the sum of the values of its operands, an assignment the value of
  its first, and a conditional jump is taken when the sum is positive.
\<close>

fun term_value :: "store \<Rightarrow> cTerm \<Rightarrow> int" where
  "term_value s (IMU_Constant n) = n"
| "term_value s (MU_Constant v _) = (case f32_to_int v of Some n \<Rightarrow> n | None \<Rightarrow> 0)"
| "term_value s (IMU_Integer i) = s (CellInt i)"
| "term_value s (IMU_Pointer i) = s (CellPtr i)"
| "term_value s IMU_Result = s CellResult"
| "term_value s IMU_Lane = s CellLane"
| "term_value s MU_Result = s CellResult"
| "term_value s (MU_Integer i) = s (CellInt i)"
| "term_value s (MU_Storage i off sub) = s (CellWord i off)"
| "term_value s _ = 0"

definition opt_value :: "store \<Rightarrow> cTerm option \<Rightarrow> int" where
  "opt_value s x = (case x of None \<Rightarrow> 0 | Some t \<Rightarrow> term_value s t)"

definition alu_sum :: "store \<Rightarrow> Instruction_alu \<Rightarrow> int" where
  "alu_sum s a = opt_value s (alu_x1 a) + (if alu_oc a = OPCODE_ASSIGN \<or> alu_oc a = OPCODE_ASSIGN_RAW then 0 else opt_value s (alu_x2 a))"

fun op_sum :: "op \<Rightarrow> store \<Rightarrow> int" where
  "op_sum (OpAlu1 a) s = alu_sum s a"
| "op_sum (OpAlu2 a) s = alu_sum s a"
| "op_sum (OpImu u) s = opt_value s (imu_x1 u) + opt_value s (imu_x2 u)"

definition adder :: machine where
  "adder = \<lparr>mc_sem = (\<lambda>p s x. op_sum p s), mc_taken = (\<lambda>u oc s. op_sum (OpImu u) s > 0), mc_call = (\<lambda>i s. s),
     mc_const = term_value (\<lambda>_. 0)\<rparr>"

lemma adder_sel:
  "mc_sem adder p s x = op_sum p s" "mc_taken adder u oc s = (op_sum (OpImu u) s > 0)" "mc_call adder i s = s"
  "mc_const adder c = term_value (\<lambda>_. 0) c"
  by (simp_all add: adder_def)

lemma const_value: "is_const c \<Longrightarrow> term_value s c = term_value u c"
  by (cases c) (auto simp: is_const_def plain_const_def)

lemma adder_operand: "operand_alike adder I s x x' \<Longrightarrow> \<forall>i. m_w (ident_at I i) \<le> 0 \<Longrightarrow> opt_value s x' = opt_value s x"
proof -
  assume a: "operand_alike adder I s x x'" and w: "\<forall>i. m_w (ident_at I i) \<le> 0"
  show "opt_value s x' = opt_value s x"
  proof (cases "x' = x")
    case False
    with a obtain t c where t: "x = Some t" "x' = Some c" "is_const c" "scalar I t" "holds adder I t c s"
      by (auto simp: operand_alike_def)
    have "term_value s t = mc_const adder c"
      using t(4,5) w by (cases t) (auto simp: holds_def var_cells_def words_of_def)
    with t const_value [OF t(3), of s "\<lambda>_. 0"] show ?thesis by (simp add: opt_value_def adder_def)
  qed simp
qed

lemma adder_laws:
  assumes w: "\<forall>i. m_w (ident_at I i) \<le> 0"
  shows "reads_values adder I" "assigns_constants adder I" "converts_constants adder" "calls_ok adder I P"
proof -
  have u: "op_sum (OpImu u') s = op_sum (OpImu u) s" if "imu_alike adder I s u u'" for u u' s
    using adder_operand [OF _ w, of s "imu_x1 u" "imu_x1 u'"] adder_operand [OF _ w, of s "imu_x2 u" "imu_x2 u'"] that
    by (simp add: imu_alike_def)
  have a: "alu_sum s a' = alu_sum s a" if "alu_alike adder I s a a'" for a a' s
    using adder_operand [OF _ w, of s "alu_x1 a" "alu_x1 a'"] adder_operand [OF _ w, of s "alu_x2 a" "alu_x2 a'"] that
      frame_aluD(1) [of a' a] by (simp add: alu_alike_def alu_sum_def)
  have "op_sum p' s = op_sum p s" if "op_alike adder I s p p'" for p p' s
    using that a u by (cases p; cases p') auto
  with u show "reads_values adder I" unfolding reads_values_def adder_sel by metis
  have ac: "alu_sum s a = mc_const adder c" if "alu_const_assign a = Inr (Some (Some y, c))" for a y c s
  proof -
    from that have "alu_oc a = OPCODE_ASSIGN \<or> alu_oc a = OPCODE_ASSIGN_RAW" "alu_x1 a = Some c" "is_MU_Const c"
      by (auto simp: alu_const_assign_def res_bind_eq_Inr_iff split: if_splits) (cases "alu_x1 a"; auto)+
    then show ?thesis using const_value [of c s "\<lambda>_. 0"] by (auto simp: alu_sum_def opt_value_def adder_def is_const_def)
  qed
  have ic: "op_sum (OpImu u) s = mc_const adder c" if a: "imu_const_assign u k = Inr (Some (Some y, c))" for u k y c s
  proof -
    obtain x1 x2 where x: "imu_x1 u = Some x1" "imu_x2 u = Some x2"
      using a by (cases "imu_x1 u"; cases "imu_x2 u") (auto simp: imu_const_assign_def split: if_splits)
    with a have "x2 = IMU_Zero \<and> c = x1 \<and> plain_const c \<or> x1 = IMU_Zero \<and> c = x2 \<and> plain_const c"
      by (auto simp: imu_const_assign_def split: if_splits)
    then show ?thesis using x const_value [of c s "\<lambda>_. 0"] by (auto simp: opt_value_def adder_def is_const_def)
  qed
  have "op_sum p s = mc_const adder c" if "assigned p = Inr (Some (Some y, c))" for p y c s
    using that ac ic by (cases p) auto
  then show "assigns_constants adder I" unfolding assigns_constants_def adder_sel by blast
  show "converts_constants adder" by (simp add: converts_constants_def adder_sel)
  show "calls_ok adder I P" by (simp add: calls_ok_def adder_sel)
qed

text \<open>\<open>n = 5; if (n - m < 0) goto 3; m = n + m; 3: m = m + n; return\<close> with integers \<open>n\<close> (2) and \<open>m\<close> (3).\<close>

definition step_ids :: idents where
  "step_ids = [blank_cIdentifier CResult, blank_cIdentifier CLane, blank_cIdentifier CInteger, blank_cIdentifier CInteger]"

definition step_program :: program where
  "step_program = \<lparr>p_code =
     [createIMU IOPCODE_ADD (Some (IMU_Constant 5)) (Some IMU_Zero) (Some (IMU_Integer 2)) new_cInstruction,
      createConditionalJump OPCODE_JUMP_LT IOPCODE_SUB (Some (IMU_Integer 2)) (Some (IMU_Integer 3)) None (Some 3) False new_cInstruction,
      createIMU IOPCODE_ADD (Some (IMU_Integer 2)) (Some (IMU_Integer 3)) (Some (IMU_Integer 3)) new_cInstruction,
      (createIMU IOPCODE_ADD (Some (IMU_Integer 3)) (Some (IMU_Integer 2)) (Some (IMU_Integer 3)) new_cInstruction)\<lparr>m_jumpDestination := True\<rparr>,
      createUnconditionalJump OPCODE_RETURN None False new_cInstruction],
     p_order = [0, 1, 2, 3, 4], p_funcs = []\<rparr>"

lemma step_program_range:
  "GetFunctionEnd step_program 0 = 4" "function_range step_program 0 = [0, 1, 2, 3, 4]" "instr_range step_program 0 4 = [0, 1, 2, 3, 4]"
  by code_simp+

lemma step_program_branch:
  "getBranch step_program (instr_at step_program k) = Inr (Some j) \<Longrightarrow> k = 1 \<and> j = 3"
proof -
  assume b: "getBranch step_program (instr_at step_program k) = Inr (Some j)"
  have "getBranch step_program new_cInstruction = Inr None" by code_simp
  moreover have "map (\<lambda>k. getBranch step_program (instr_at step_program k)) [0..<5] = [Inr None, Inr (Some 3), Inr None, Inr None, Inr None]"
    by code_simp
  moreover have "k < 5 \<or> instr_at step_program k = new_cInstruction" by (auto simp: instr_at_def step_program_def)
  ultimately show ?thesis using b by (auto simp: less_Suc_eq eval_nat_numeral upt_rec)
qed

lemma step_program_ready: "flow_ready step_program 0 4"
proof -
  have "k \<in> {0, 1, 2, 3, 4}" if "flow_reach step_program 0 k" for k
    using that unfolding flow_reach_def
  proof (induction rule: rtranclp_induct)
    case (step j k)
    from step(2) have "getBranch step_program (instr_at step_program j) = Inr (Some k) \<or> next_of step_program j = Some k"
      unfolding flow_succ_def Let_def by blast
    moreover have "k \<in> set (p_order step_program)" if "next_of step_program j = Some k"
      using list_next_Some [OF that [unfolded next_of_def]] by blast
    moreover have "p_order step_program = [0, 1, 2, 3, 4]" by (simp add: step_program_def)
    ultimately show ?case using step_program_branch [of j k] by auto
  qed simp
  moreover have "m_jumpDestination (instr_at step_program 3)" "distinct (p_order step_program)"
    "p_order step_program = [0, 1, 2, 3, 4]" "length (p_code step_program) = 5" by code_simp+
  ultimately show ?thesis using step_program_branch by (auto simp: flow_ready_def step_program_range)
qed

lemma step_program_safe: "all_safe step_ids step_program 0 4"
  unfolding all_safe_def step_program_range
  by (simp add: instr_at_def step_program_def instr_safe_def units_ok_def alu_units_def
      imu_units_def ops_of_def assign_safe_def add_safe_def new_cInstruction_def empty_alu_def createIMU_def
      createConditionalJump_def createUnconditionalJump_def)


text \<open>\<open>a[i] = 0; i = i + 1; b = a[i]; return\<close> with a private array \<open>a\<close> (3), an integer \<open>i\<close> (2) and a private \<open>b\<close> (4).\<close>

definition index_ids :: idents where
  "index_ids = [blank_cIdentifier CResult, blank_cIdentifier CLane, blank_cIdentifier CInteger, blank_cIdentifier CPrivate,
     blank_cIdentifier CPrivate]"

definition assign_instr :: "cTerm \<Rightarrow> cTerm \<Rightarrow> cInstruction" where
  "assign_instr y x = new_cInstruction\<lparr>m_alu1 := \<lparr>alu_oc = OPCODE_ASSIGN, alu_which = eMuOpcodeDefAlu1, alu_x1 = Some x,
     alu_x2 = Some MU_Null, alu_y = Some y, alu_xacc = None\<rparr>\<rparr>"

definition index_program :: program where
  "index_program = \<lparr>p_code =
     [assign_instr (MU_StorageWithIndex 3 2 0 False) (MU_Constant 0 False),
      createIMU IOPCODE_ADD (Some (IMU_Integer 2)) (Some (IMU_Constant 1)) (Some (IMU_Integer 2)) new_cInstruction,
      assign_instr (MU_Storage 4 0 False) (MU_StorageWithIndex 3 2 0 False),
      createUnconditionalJump OPCODE_RETURN None False new_cInstruction],
     p_order = [0, 1, 2, 3], p_funcs = []\<rparr>"


end
