(* ===== verification/Subst.thy ===== *)
theory Subst
  imports Fold
begin

text \<open>
  Removal of redundant assignments: \<open>substituteAssignment\<close> of \<open>SW/compiler/instruction.cpp\<close>, that its first
  half keeps the runs of a function, and a case in which the second half does not.
\<close>

section \<open>Assignments of the result to an integer\<close>

text \<open>\<open>X = RESULT\<close>, with the integer \<open>X\<close>.\<close>

definition result_assignment :: "cInstruction \<Rightarrow> nat option res" where
  "result_assignment ins =
     (let u = m_imu ins in
      if imu_oc u \<noteq> IOPCODE_ADD then Inr None
      else res_bind (deref (imu_y u)) (\<lambda>y. case y of
          IMU_Integer i \<Rightarrow> res_bind (deref (imu_x1 u)) (\<lambda>x1. res_bind (deref (imu_x2 u)) (\<lambda>x2.
            Inr (if (x1 = IMU_Result \<and> x2 = IMU_Zero \<or> x2 = IMU_Result \<and> x1 = IMU_Zero) \<and> ctl_oc (m_control ins) \<le> 0
                 then Some i else None)))
        | _ \<Rightarrow> Inr None))"

definition result_term :: "nat \<Rightarrow> cTerm option \<Rightarrow> (bool \<times> cTerm option) res" where
  "result_term i x = res_bind (deref x) (\<lambda>t. Inr (if t = IMU_Integer i then (True, Some IMU_Result) else (False, x)))"

definition result_instr :: "nat \<Rightarrow> cInstruction \<Rightarrow> (bool \<times> cInstruction) res" where
  "result_instr i ins =
     (let u = m_imu ins in
      if imu_oc u \<le> 0 then Inr (False, ins)
      else res_bind (result_term i (imu_x1 u)) (\<lambda>(r1, x1). res_bind (result_term i (imu_x2 u)) (\<lambda>(r2, x2).
        Inr (r1 \<or> r2, ins\<lparr>m_imu := u\<lparr>imu_x1 := x1, imu_x2 := x2\<rparr>\<rparr>))))"

text \<open>Both halves change the instructions of a stretch one by one.\<close>

fun each_instr :: "(cInstruction \<Rightarrow> (bool \<times> cInstruction) res) \<Rightarrow> action" where
  "each_instr f [] s = Inr s"
| "each_instr f (k # ks) (ch, P) =
     res_bind (f (instr_at P k)) (\<lambda>(r, ins). each_instr f ks (ch \<or> r, upd_instr k (\<lambda>_. ins) P))"

fun result_pass :: "bool \<Rightarrow> idents \<Rightarrow> nat \<Rightarrow> nat \<Rightarrow> action" where
  "result_pass glob I b e [] s = Inr s"
| "result_pass glob I b e (i # ks) (rc, P) =
     res_bind (result_assignment (instr_at P i)) (\<lambda>r. case r of
       None \<Rightarrow> result_pass glob I b e ks (rc, P)
     | Some x \<Rightarrow> res_bind (getDef P I i) (\<lambda>toLst. res_bind (getUse I (instr_at P i)) (\<lambda>fromLst.
         res_bind (spread False glob I b e (toLst @ fromLst) (each_instr (result_instr x)) ks (rc, P))
           (result_pass glob I b e ks))))"

section \<open>Assignments to stack variables\<close>

text \<open>The test for the same variable at the same offset, which does not look at \<open>m_subVector\<close>.\<close>

definition same_storage :: "nat \<Rightarrow> int \<Rightarrow> cTerm \<Rightarrow> bool" where
  "same_storage i off t = (case t of MU_Storage j o' _ \<Rightarrow> j = i \<and> o' = off | _ \<Rightarrow> False)"

definition self_assignment :: "Instruction_alu \<Rightarrow> bool res" where
  "self_assignment a =
     (if alu_oc a \<noteq> OPCODE_ASSIGN then Inr False
      else res_bind (deref (alu_x1 a)) (\<lambda>x1. case x1 of
          MU_Storage i off _ \<Rightarrow> res_bind (deref (alu_y a)) (\<lambda>y. Inr (same_storage i off y))
        | _ \<Rightarrow> Inr False))"

definition storage_term :: "nat \<Rightarrow> int \<Rightarrow> nat \<Rightarrow> int \<Rightarrow> cTerm option \<Rightarrow> (bool \<times> cTerm option) res" where
  "storage_term i off i2 off2 x =
     res_bind (deref x) (\<lambda>t. Inr (if same_storage i off t then (True, Some (MU_Storage i2 off2 False)) else (False, x)))"

definition drop_self :: "bool \<Rightarrow> cInstruction \<Rightarrow> (bool \<times> cInstruction) res" where
  "drop_self r ins = res_bind (self_assignment (m_alu1 ins)) (\<lambda>d. Inr (if d then (True, setNOP ins) else (r, ins)))"

text \<open>
  One instruction behind \<open>a\<close>, an operation with the result \<open>i\<close> at \<open>off\<close>: when \<open>a\<close> copies a variable, that
  variable takes the place of \<open>i\<close>; otherwise a copy of \<open>i\<close> becomes the operation itself.
\<close>

definition stack_instr :: "idents \<Rightarrow> Instruction_alu \<Rightarrow> nat \<Rightarrow> int \<Rightarrow> bool \<Rightarrow> cInstruction \<Rightarrow> (bool \<times> cInstruction) res" where
  "stack_instr I a i off selfMod ins =
     (let c = m_alu1 ins in
      if alu_oc a = OPCODE_ASSIGN then
        res_bind (deref (alu_x1 a)) (\<lambda>x. case x of
          MU_Storage i2 off2 _ \<Rightarrow>
            (if alu_oc c \<le> 0 then Inr (False, ins)
             else res_bind (storage_term i off i2 off2 (alu_x1 c)) (\<lambda>(r1, x1).
                  res_bind (storage_term i off i2 off2 (alu_x2 c)) (\<lambda>(r2, x2).
                    drop_self (r1 \<or> r2) (ins\<lparr>m_alu1 := c\<lparr>alu_x1 := x1, alu_x2 := x2\<rparr>\<rparr>))))
        | _ \<Rightarrow> Inr (False, ins))
      else res_bind (GetMuOpcodeDef (alu_oc a)) (\<lambda>d.
        if \<not> (od_group d < 0 \<and> alu_oc c = OPCODE_ASSIGN) then Inr (False, ins)
        else res_bind (deref (alu_y c)) (\<lambda>y.
          if \<not> is_MU_Sto y \<and> \<not> isDouble I y then Inr (False, ins)
          else res_bind (deref (alu_x1 c)) (\<lambda>x1.
            if same_storage i off x1 \<and> \<not> selfMod then
              drop_self True (ins\<lparr>m_alu1 := c\<lparr>alu_oc := alu_oc a, alu_x1 := alu_x1 a, alu_x2 := alu_x2 a, alu_xacc := alu_xacc a\<rparr>\<rparr>)
            else Inr (False, ins)))))"

fun stack_pass :: "bool \<Rightarrow> idents \<Rightarrow> nat \<Rightarrow> nat \<Rightarrow> action" where
  "stack_pass glob I b e [] s = Inr s"
| "stack_pass glob I b e (i # ks) (rc, P) =
     (let a = m_alu1 (instr_at P i) in
      if alu_oc a \<le> 0 then stack_pass glob I b e ks (rc, P)
      else res_bind (deref (alu_y a)) (\<lambda>y. case y of
          MU_Storage x off _ \<Rightarrow>
            res_bind (getDef P I i) (\<lambda>toLst. res_bind (getUse I (instr_at P i)) (\<lambda>fromLst.
              res_bind (spread True glob I b e (toLst @ fromLst)
                  (each_instr (stack_instr I a x off (iv_exist_any toLst fromLst))) ks (rc, P))
                (stack_pass glob I b e ks)))
        | _ \<Rightarrow> stack_pass glob I b e ks (rc, P)))"

definition substituteAssignment :: "bool \<Rightarrow> idents \<Rightarrow> nat \<Rightarrow> program \<Rightarrow> (bool \<times> program) res" where
  "substituteAssignment glob I b P =
     (let e = GetFunctionEnd P b; rng = instr_range P b e in
      res_bind (result_pass glob I b e rng (False, P)) (stack_pass glob I b e rng))"

section \<open>The first half keeps the runs\<close>

text \<open>
  The laws: a scalar operation reads the same from an integer register as from the result flag when they hold
  the same, and adding zero to the result flag copies it.
\<close>

definition int_alike :: "store \<Rightarrow> cTerm option \<Rightarrow> cTerm option \<Rightarrow> bool" where
  "int_alike s x x' \<longleftrightarrow> x' = x \<or> (\<exists>i. x = Some (IMU_Integer i) \<and> x' = Some IMU_Result \<and> s (CellInt i) = s CellResult)"

definition reads_registers :: "machine \<Rightarrow> bool" where
  "reads_registers M \<longleftrightarrow>
     (\<forall>s u u'. frame_imu u' = frame_imu u \<longrightarrow> int_alike s (imu_x1 u) (imu_x1 u') \<longrightarrow> int_alike s (imu_x2 u) (imu_x2 u') \<longrightarrow>
        (\<forall>x. mc_sem M (OpImu u') s x = mc_sem M (OpImu u) s x) \<and> (\<forall>oc. mc_taken M u' oc s = mc_taken M u oc s))"

definition copies_result :: "machine \<Rightarrow> bool" where
  "copies_result M \<longleftrightarrow>
     (\<forall>u s x. imu_oc u = IOPCODE_ADD \<longrightarrow>
        {imu_x1 u, imu_x2 u} = {Some IMU_Result, Some IMU_Zero} \<longrightarrow> mc_sem M (OpImu u) s x = s CellResult)"

lemma each_instr_frame:
  assumes "\<And>ins r ins'. f ins = Inr (r, ins') \<Longrightarrow> frame ins' = frame ins"
  shows "each_instr f ks (ch, P) = Inr (ch', Q) \<Longrightarrow> same_frame P Q"
proof (induction ks arbitrary: ch P)
  case (Cons k ks)
  then obtain r ins where x: "f (instr_at P k) = Inr (r, ins)"
    "each_instr f ks (ch \<or> r, upd_instr k (\<lambda>_. ins) P) = Inr (ch', Q)" by (auto simp: res_bind_eq_Inr_iff)
  from same_frame_trans [OF same_frame_upd Cons.IH [OF x(2)]] assms [OF x(1)] show ?case by simp
qed simp

lemma each_instr_out: "each_instr f ks (ch, P) = Inr (ch', Q) \<Longrightarrow> k \<notin> set ks \<Longrightarrow> instr_at Q k = instr_at P k"
  by (induction ks arbitrary: ch P) (auto simp: res_bind_eq_Inr_iff)

lemma each_instr_rel:
  assumes "\<And>ins r ins'. f ins = Inr (r, ins') \<Longrightarrow> R ins' ins" "\<And>ins. R ins ins"
  shows "each_instr f ks (ch, P) = Inr (ch', Q) \<Longrightarrow> distinct ks \<Longrightarrow> R (instr_at Q k) (instr_at P k)"
proof (induction ks arbitrary: ch P)
  case (Cons j ks)
  then obtain r ins where x: "f (instr_at P j) = Inr (r, ins)"
    "each_instr f ks (ch \<or> r, upd_instr j (\<lambda>_. ins) P) = Inr (ch', Q)" by (auto simp: res_bind_eq_Inr_iff)
  have IH: "R (instr_at Q k) (instr_at (upd_instr j (\<lambda>_. ins) P) k)" using Cons.IH [OF x(2)] Cons.prems(2) by simp
  show ?case
  proof (cases "k = j")
    case True
    with each_instr_out [OF x(2), of j] Cons.prems(2) assms(1) [OF x(1)] assms(2) show ?thesis by simp
  next
    case False
    with IH show ?thesis by simp
  qed
qed (simp add: assms(2))

lemma result_term_alike:
  "result_term i x = Inr (r, x') \<Longrightarrow> s (CellInt i) = s CellResult \<Longrightarrow> int_alike s x x'"
  by (cases x) (auto simp: result_term_def int_alike_def split: if_splits)

lemma result_instr_parts:
  assumes "result_instr i ins = Inr (r, ins')"
  obtains "ins' = ins" | r1 x1 r2 x2 where "imu_oc (m_imu ins) > 0" "result_term i (imu_x1 (m_imu ins)) = Inr (r1, x1)"
    "result_term i (imu_x2 (m_imu ins)) = Inr (r2, x2)" "ins' = ins\<lparr>m_imu := (m_imu ins)\<lparr>imu_x1 := x1, imu_x2 := x2\<rparr>\<rparr>"
  using assms by (auto simp: result_instr_def Let_def res_bind_eq_Inr_iff split: if_splits)

lemma result_instr_frame: "result_instr i ins = Inr (r, ins') \<Longrightarrow> frame ins' = frame ins"
  by (erule result_instr_parts) (simp_all add: frame_def frame_imu_def)

lemma result_instr_alike:
  assumes "result_instr i ins = Inr (r, ins')" "reads_registers M" "s (CellInt i) = s CellResult" "length (ops_of ins) \<le> 1"
  shows "acts_alike M I ins' ins s"
  using assms(1)
proof (cases rule: result_instr_parts)
  case (2 r1 x1 r2 x2)
  have a: "int_alike s (imu_x1 (m_imu ins)) x1" "int_alike s (imu_x2 (m_imu ins)) x2"
    using result_term_alike 2(2,3) assms(3) by blast+
  let ?v = "m_imu ins\<lparr>imu_x1 := x1, imu_x2 := x2\<rparr>"
  have f: "frame_imu ?v = frame_imu (m_imu ins)" by (simp add: frame_imu_def)
  from assms(2) [unfolded reads_registers_def, rule_format, of ?v "m_imu ins" s] a f
  have law: "mc_sem M (OpImu ?v) s x = mc_sem M (OpImu (m_imu ins)) s x" "mc_taken M ?v oc s = mc_taken M (m_imu ins) oc s" for x oc
    by simp_all
  have "OpImu (m_imu ins) \<in> set (ops_of ins)" using 2(1) by (simp add: ops_of_def)
  from single_slot [OF assms(4) this] have o: "ops_of ins = [OpImu (m_imu ins)]" .
  with 2(1) have o': "ops_of ins' = [OpImu ?v]" by (auto simp: ops_of_def 2(4) split: if_splits)
  have w: "op_writes I s (OpImu ?v) = op_writes I s (OpImu (m_imu ins))" by (simp add: op_writes_def)
  have "exec_instr I (mc_sem M) ins' s = exec_instr I (mc_sem M) ins s"
    by (rule ext) (simp add: exec_instr_def exec_ops_def writer_def o o' w law split: option.splits)
  with law(2) show ?thesis by (simp add: acts_alike_def jumps_def 2(4))
qed simp

definition result_holds :: "machine \<Rightarrow> nat list \<Rightarrow> nat \<Rightarrow> store \<Rightarrow> bool" where
  "result_holds M lst x s \<longleftrightarrow> reads_registers M \<and> x \<in> set lst \<and> Result_id \<in> set lst \<and> s (CellInt x) = s CellResult"

interpretation results: spreading M I lst "result_holds M lst x" "each_instr (result_instr x)" "\<lambda>ins. length (ops_of ins) \<le> 1"
  for M I lst x
proof
  fix blk ch P ch' Q k s
  assume f: "each_instr (result_instr x) blk (ch, P) = Inr (ch', Q)"
  show fr: "same_frame P Q" by (rule each_instr_frame [OF result_instr_frame f])
  show out: "instr_at Q k = instr_at P k" if "k \<notin> set blk" by (rule each_instr_out [OF f that])
  show "acts_alike M I (instr_at Q k) (instr_at P k) s"
    if d: "distinct blk" and safe: "\<forall>k\<in>set blk. length (ops_of (instr_at P k)) \<le> 1" and h: "result_holds M lst x s"
  proof (cases "k \<in> set blk")
    case True
    have "length (ops_of (instr_at P k)) \<le> 1 \<longrightarrow> acts_alike M I (instr_at Q k) (instr_at P k) s"
      by (rule each_instr_rel [OF _ _ f d]) (use result_instr_alike h in \<open>auto simp: result_holds_def\<close>)
    with safe True show ?thesis by blast
  next
    case False
    with out show ?thesis by simp
  qed
  show "length (ops_of (instr_at Q k)) \<le> 1" if "length (ops_of (instr_at P k)) \<le> 1"
    using that by (simp only: same_frame_ops [OF fr])
next
  show "(length (ops_of (ins\<lparr>m_seq := q\<rparr>)) \<le> 1) = (length (ops_of ins) \<le> 1)" for ins q by (simp add: ops_of_def)
  show "result_holds M lst x (effect M I P k s)" if "calls_ok M I P" "getDef P I k = Inr d" "set lst \<inter> set d = {}"
    "result_holds M lst x s" for P k d s
  proof -
    have "cell_var (CellInt x) \<notin> set d" "cell_var CellResult \<notin> set d" using that(3,4) by (auto simp: result_holds_def)
    from effect_other [OF that(1,2) this(1)] effect_other [OF that(1,2) this(2)] that(4) show ?thesis
      by (simp add: result_holds_def)
  qed
qed

lemma term_getUse_grows: "set lst \<subseteq> set (term_getUse t lst)"
  by (cases t) auto

lemma result_assignment_holds:
  assumes a: "result_assignment (instr_at P i) = Inr (Some x)" and one: "length (ops_of (instr_at P i)) \<le> 1"
    and def: "getDef P I i = Inr toLst" and use: "getUse I (instr_at P i) = Inr fromLst"
    and laws: "copies_result M" "reads_registers M"
  shows "result_holds M (toLst @ fromLst) x (effect M I P i s)"
proof -
  let ?i = "instr_at P i" and ?u = "m_imu (instr_at P i)"
  from a have oc: "imu_oc ?u = IOPCODE_ADD" by (simp add: result_assignment_def Let_def split: if_splits)
  with a obtain y x1 x2 where y: "imu_y ?u = Some y" "imu_x1 ?u = Some x1" "imu_x2 ?u = Some x2"
    by (cases "imu_y ?u"; cases "imu_x1 ?u"; cases "imu_x2 ?u")
      (auto simp: result_assignment_def Let_def split: if_splits cTerm.splits)
  with a oc have p: "y = IMU_Integer x" "x1 = IMU_Result \<and> x2 = IMU_Zero \<or> x2 = IMU_Result \<and> x1 = IMU_Zero"
      "ctl_oc (m_control ?i) \<le> 0"
    by (auto simp: result_assignment_def Let_def split: if_splits cTerm.splits)
  have m: "OpImu ?u \<in> set (ops_of ?i)" using oc by (simp add: ops_of_def)
  note o = single_slot [OF one m]
  from getDef_op [OF def _ m] y(1) p have "x \<in> set toLst" by auto
  moreover have "Result_id \<in> set fromLst"
  proof -
    from use p(3) obtain l where "imu_getUse I ?u l = Inr fromLst" by (auto simp: getUse_def res_bind_eq_Inr_iff)
    with oc y have "fromLst = term_getDef I x2 (term_getUse x2 (term_getDef I x1 (term_getUse x1
        (case imu_y ?u of None \<Rightarrow> l | Some y \<Rightarrow> term_getUse y l))))" by (simp add: imu_getUse_def)
    then show ?thesis using p(2) by auto
  qed
  moreover have "effect M I P i s (CellInt x) = s CellResult"
  proof -
    have "mc_sem M (OpImu ?u) s (CellInt x) = s CellResult"
      using laws(1) oc y p(2) by (auto simp: copies_result_def)
    moreover have "CellInt x \<in> op_writes I s (OpImu ?u)" by (simp add: op_writes_def opt_written_def y p(1))
    ultimately show ?thesis using exec_single [OF o] p(3) by (simp add: effect_def)
  qed
  moreover have "effect M I P i s CellResult = s CellResult"
  proof -
    have "CellResult \<notin> op_writes I s (OpImu ?u)" by (simp add: op_writes_def opt_written_def y p(1))
    then show ?thesis using p(3) o by (simp add: effect_def exec_instr_def exec_ops_other)
  qed
  ultimately show ?thesis using laws(2) by (simp add: result_holds_def)
qed

lemma result_pass_run:
  assumes "result_pass glob I b e ks (ch, P) = Inr (ch', Q)" "flow_ready P b e"
    "\<forall>i\<in>set (instr_range P b e). length (ops_of (instr_at P i)) \<le> 1"
    "reads_registers M" "copies_result M" "calls_ok M I P" "instr_range P b e = us @ ks"
  shows "results.walked M I b e P Q"
  using assms
proof (induction ks arbitrary: us ch P)
  case Nil
  then show ?case unfolding results.walked_def by simp
next
  case (Cons i ks)
  have rng': "instr_range P b e = (us @ [i]) @ ks" using Cons.prems(7) by simp
  from Cons.prems(1) obtain r where r: "result_assignment (instr_at P i) = Inr r" by (auto simp: res_bind_eq_Inr_iff)
  show ?case
  proof (cases r)
    case None
    with Cons.prems(1) r have "result_pass glob I b e ks (ch, P) = Inr (ch', Q)" by simp
    from Cons.IH [OF this Cons.prems(2-6) rng'] show ?thesis .
  next
    case (Some x)
    with Cons.prems(1) r obtain toLst fromLst ch1 P1 where d: "getDef P I i = Inr toLst" "getUse I (instr_at P i) = Inr fromLst"
      "spread False glob I b e (toLst @ fromLst) (each_instr (result_instr x)) ks (ch, P) = Inr (ch1, P1)"
      "result_pass glob I b e ks (ch1, P1) = Inr (ch', Q)"
      by (auto simp: res_bind_eq_Inr_iff)
    have one: "length (ops_of (instr_at P i)) \<le> 1" using Cons.prems(3,7) by simp
    have "\<forall>s. result_holds M (toLst @ fromLst) x (effect M I P i s)"
      using result_assignment_holds [OF r [unfolded Some] one d(1,2) Cons.prems(5,4)] by blast
    then have w: "results.walked M I b e P P1"
      by (intro results.spread_run [OF d(3) Cons.prems(2,3,6), where bs = "[]" and us = us and i = i])
        (use Cons.prems(7) in \<open>simp_all add: region_def\<close>)
    then have fr: "same_frame P P1" and sf: "\<forall>i\<in>set (instr_range P1 b e). length (ops_of (instr_at P1 i)) \<le> 1"
      unfolding results.walked_def by (auto simp: same_frame_range)
    have "results.walked M I b e P1 Q"
      by (rule Cons.IH [OF d(4) flow_ready_frame [OF fr Cons.prems(2)] sf Cons.prems(4,5) calls_ok_frame [OF fr Cons.prems(6)]])
        (use rng' in \<open>simp only: same_frame_range [OF fr]\<close>)
    with results.walked_trans [OF w] show ?thesis .
  qed
qed

text \<open>
  C12: The first half of \<open>substituteAssignment\<close>, which replaces an integer by the result flag it was copied
  from, does not change what a function does: every run goes through the same instructions and stores.
\<close>

theorem result_pass_correct:
  assumes "result_pass glob I b (GetFunctionEnd P b) (function_range P b) (ch, P) = Inr (ch', Q)"
    and "flow_ready P b (GetFunctionEnd P b)" and "\<forall>i\<in>set (function_range P b). length (ops_of (instr_at P i)) \<le> 1"
    and "reads_registers M" and "copies_result M" and "calls_ok M I P"
  shows "run M I Q n (Some b, s) = run M I P n (Some b, s)"
proof -
  have "results.walked M I b (GetFunctionEnd P b) P Q"
    by (rule result_pass_run [OF assms(1,2) _ assms(4-6), where us = "[]"]) (use assms(3) in \<open>simp_all add: function_range_def\<close>)
  then show ?thesis unfolding results.walked_def by blast
qed

lemma adder_result_laws: "reads_registers adder" "copies_result adder"
proof -
  have "opt_value s x' = opt_value s x" if "int_alike s x x'" for s x x'
    using that by (auto simp: int_alike_def opt_value_def)
  then have "op_sum (OpImu u') s = op_sum (OpImu u) s"
    if "int_alike s (imu_x1 u) (imu_x1 u')" "int_alike s (imu_x2 u) (imu_x2 u')" for s u u'
    using that by (metis op_sum.simps(3))
  then show "reads_registers adder" unfolding reads_registers_def adder_sel by metis
  show "copies_result adder" unfolding copies_result_def adder_sel by (auto simp: opt_value_def doubleton_eq_iff)
qed

text \<open>\<open>n = RESULT; if (n - m < 0) goto 3; m = n + m; 3: m = m + n; return\<close>: the example of theory \<open>Fold\<close> with another start.\<close>

definition result_program :: program where
  "result_program = upd_instr 0 (\<lambda>ins. ins\<lparr>m_imu := (m_imu ins)\<lparr>imu_x1 := Some IMU_Result\<rparr>\<rparr>) step_program"

theorem result_pass_correct_witness:
  "\<exists>Q. result_pass True step_ids 0 4 [0, 1, 2, 3, 4] (False, result_program) = Inr (True, Q) \<and>
     imu_x1 (m_imu (instr_at Q 1)) = Some IMU_Result \<and> imu_x2 (m_imu (instr_at Q 3)) = Some IMU_Result \<and>
     (\<forall>n s. run adder step_ids Q n (Some 0, s) = run adder step_ids result_program n (Some 0, s))"
proof -
  have "(case result_pass True step_ids 0 4 [0, 1, 2, 3, 4] (False, result_program) of Inr (ch, Q) \<Rightarrow> ch \<and>
     imu_x1 (m_imu (instr_at Q 1)) = Some IMU_Result \<and> imu_x2 (m_imu (instr_at Q 3)) = Some IMU_Result | _ \<Rightarrow> False)"
    by code_simp
  then obtain Q where r: "result_pass True step_ids 0 4 [0, 1, 2, 3, 4] (False, result_program) = Inr (True, Q)"
    "imu_x1 (m_imu (instr_at Q 1)) = Some IMU_Result" "imu_x2 (m_imu (instr_at Q 3)) = Some IMU_Result"
    by (auto split: sum.splits)
  have fr: "same_frame step_program result_program"
    unfolding result_program_def by (rule same_frame_upd) (simp add: frame_def frame_imu_def)
  have rng: "GetFunctionEnd result_program 0 = 4" "function_range result_program 0 = [0, 1, 2, 3, 4]" by code_simp+
  have one: "\<forall>i\<in>set (function_range result_program 0). length (ops_of (instr_at result_program i)) \<le> 1"
    using step_program_safe unfolding rng by (simp add: same_frame_ops [OF fr] all_safe_def instr_safe_def step_program_range)
  have calls: "calls_ok adder step_ids result_program" by (simp add: calls_ok_def adder_sel)
  have "run adder step_ids Q n (Some 0, s) = run adder step_ids result_program n (Some 0, s)" for n s
    by (rule result_pass_correct [of True step_ids 0 result_program False True, OF _ _ one adder_result_laws calls])
      (simp_all only: rng r(1) flow_ready_frame [OF fr step_program_ready])
  with r show ?thesis by blast
qed

text \<open>\<open>v[0] = s; w = v; return\<close> with private vectors \<open>v\<close> (3) and \<open>w\<close> (5) of eight elements and a private \<open>s\<close> (4).\<close>

definition vector_ids :: idents where
  "vector_ids = [blank_cIdentifier CResult, blank_cIdentifier CLane, blank_cIdentifier CInteger,
     (blank_cIdentifier CPrivate)\<lparr>m_w := 3\<rparr>, blank_cIdentifier CPrivate, (blank_cIdentifier CPrivate)\<lparr>m_w := 3\<rparr>]"

definition element_program :: program where
  "element_program = \<lparr>p_code =
     [assign_instr (MU_Storage 3 0 True) (MU_Storage 4 0 False),
      assign_instr (MU_Storage 5 0 False) (MU_Storage 3 0 False),
      createUnconditionalJump OPCODE_RETURN None False new_cInstruction],
     p_order = [0, 1, 2], p_funcs = []\<rparr>"


end
