(* ===== verification/Common.thy ===== *)
theory Common
  imports Subst Usage
begin

text \<open>
  Common expressions: \<open>findCommonExpression\<close> of \<open>SW/compiler/instruction.cpp\<close>. An assignment that copies a
  temporary is joined with the instruction that computes the temporary, and assignments to variables that
  nothing reads go. The second step is right; the first one breaks the exchange of two variables.
\<close>

section \<open>Copies of temporaries\<close>

datatype dest_slot = PlaceAlu1 | PlaceAlu2 | PlaceImu

fun dest_at :: "dest_slot \<Rightarrow> cInstruction \<Rightarrow> cTerm option" where
  "dest_at PlaceAlu1 ins = alu_y (m_alu1 ins)"
| "dest_at PlaceAlu2 ins = alu_y (m_alu2 ins)"
| "dest_at PlaceImu ins = imu_y (m_imu ins)"

fun set_dest_at :: "dest_slot \<Rightarrow> cTerm option \<Rightarrow> cInstruction \<Rightarrow> cInstruction" where
  "set_dest_at PlaceAlu1 y ins = ins\<lparr>m_alu1 := (m_alu1 ins)\<lparr>alu_y := y\<rparr>\<rparr>"
| "set_dest_at PlaceAlu2 y ins = ins\<lparr>m_alu2 := (m_alu2 ins)\<lparr>alu_y := y\<rparr>\<rparr>"
| "set_dest_at PlaceImu y ins = ins\<lparr>m_imu := (m_imu ins)\<lparr>imu_y := y\<rparr>\<rparr>"

text \<open>The first slot with a variable as its destination.\<close>

definition temp_term :: "cInstruction \<Rightarrow> dest_slot option res" where
  "temp_term ins =
     res_bind (if alu_oc (m_alu1 ins) > 0 then res_bind (deref (alu_y (m_alu1 ins))) (\<lambda>y. Inr (is_MU_Sto y)) else Inr False) (\<lambda>c1.
     if c1 then Inr (Some PlaceAlu1)
     else res_bind (if alu_oc (m_alu2 ins) > 0 then res_bind (deref (alu_y (m_alu2 ins))) (\<lambda>y. Inr (is_MU_Sto y)) else Inr False) (\<lambda>c2.
     if c2 then Inr (Some PlaceAlu2)
     else if imu_oc (m_imu ins) > 0 \<and> ctl_oc (m_control ins) \<le> 0
          then res_bind (deref (imu_y (m_imu ins))) (\<lambda>y. Inr (if is_IMU_Int y then Some PlaceImu else None))
          else Inr None))"

text \<open>The variable that an instruction copies, and the slot that does it.\<close>

definition alu_copies :: "Instruction_alu \<Rightarrow> nat option res" where
  "alu_copies a =
     (if alu_oc a \<noteq> OPCODE_ASSIGN then Inr None
      else res_bind (deref (alu_x1 a)) (\<lambda>x. Inr (case x of MU_Storage i _ _ \<Rightarrow> Some i | _ \<Rightarrow> None)))"

definition imu_copies :: "Instruction_ialu \<Rightarrow> nat option res" where
  "imu_copies u =
     (if imu_oc u \<noteq> IOPCODE_ADD then Inr None
      else res_bind (deref (imu_x2 u)) (\<lambda>x2. res_bind (deref (imu_x1 u)) (\<lambda>x1.
        Inr (case (x1, x2) of (IMU_Integer i, IMU_Zero) \<Rightarrow> Some i | (IMU_Zero, IMU_Integer i) \<Rightarrow> Some i | _ \<Rightarrow> None))))"

definition copied_var :: "cInstruction \<Rightarrow> (nat \<times> dest_slot) option res" where
  "copied_var ins =
     res_bind (alu_copies (m_alu1 ins)) (\<lambda>c1. case c1 of
       Some i \<Rightarrow> Inr (Some (i, PlaceAlu1))
     | None \<Rightarrow> res_bind (alu_copies (m_alu2 ins)) (\<lambda>c2. case c2 of
         Some i \<Rightarrow> Inr (Some (i, PlaceAlu2))
       | None \<Rightarrow> if ctl_oc (m_control ins) > 0 then Inr None
                 else res_bind (imu_copies (m_imu ins)) (\<lambda>c3. Inr (case c3 of Some i \<Rightarrow> Some (i, PlaceImu) | None \<Rightarrow> None))))"

text \<open>
  From the instruction behind the assignment to \<open>v\<close> to the one that copies \<open>v\<close>; \<open>seen\<close> are the instructions
  passed. The instructions passed must not define what the copy defines. (The list \<open>use3\<close> that the code also
  compares is filled by \<open>getDef\<close>, so it is the same list.)
\<close>

fun find_copy :: "program \<Rightarrow> idents \<Rightarrow> nat \<Rightarrow> nat list \<Rightarrow> nat list \<Rightarrow> (nat \<times> dest_slot) option res" where
  "find_copy P I v seen [] = Inr None"
| "find_copy P I v seen (k # ks) =
     res_bind (getUse I (instr_at P k)) (\<lambda>_. res_bind (getDef P I k) (\<lambda>def2.
       if m_jumpDestination (instr_at P k) then Inr None
       else res_bind (copied_var (instr_at P k)) (\<lambda>c.
         if map_option fst c = Some v then
           (if def2 = [] then Inl AssertFail
            else res_bind (any_instr (getDef P I) def2 seen) (\<lambda>b. Inr (if b then None else map_option (Pair k \<circ> snd) c)))
         else if ctl_oc (m_control (instr_at P k)) > 0 then Inr None
         else find_copy P I v (seen @ [k]) ks)))"

definition only_copied :: "idents \<Rightarrow> nat \<Rightarrow> bool" where
  "only_copied I v \<longleftrightarrow> m_useCount (ident_at I v) = 1 \<and> m_defCount (ident_at I v) = 1 \<and> \<not> isFixed (ident_at I v)"

definition join_copy :: "program \<Rightarrow> idents \<Rightarrow> nat \<Rightarrow> nat list \<Rightarrow> program res" where
  "join_copy P I i ks =
     (if ctl_oc (m_control (instr_at P i)) > 0 then Inr P
      else res_bind (temp_term (instr_at P i)) (\<lambda>t. case t of
        None \<Rightarrow> Inr P
      | Some s \<Rightarrow> res_bind (getDef P I i) (\<lambda>d. case d of
          [v] \<Rightarrow> if \<not> only_copied I v then Inr P
                 else res_bind (find_copy P I v [] ks) (\<lambda>c. Inr (case c of
                   None \<Rightarrow> P
                 | Some (k, s2) \<Rightarrow> upd_instr k setNOP (upd_instr i (set_dest_at s (dest_at s2 (instr_at P k))) P)))
        | _ \<Rightarrow> Inr P)))"

fun alias_pass :: "idents \<Rightarrow> nat \<Rightarrow> nat list \<Rightarrow> program \<Rightarrow> program res" where
  "alias_pass I e [] P = Inr P"
| "alias_pass I e (i # ks) P = (if i = e then Inr P else res_bind (join_copy P I i ks) (alias_pass I e ks))"

section \<open>Variables that nothing reads\<close>

text \<open>
  The second test is for the copy of a parameter back into the variable it came from: with a single
  definition, the one at the entry, the variable has not changed.
\<close>

definition unread :: "idents \<Rightarrow> nat \<Rightarrow> bool" where
  "unread I v \<longleftrightarrow> m_useCount (ident_at I v) = 0 \<and> \<not> isFixed (ident_at I v)"

definition unused_instr :: "idents \<Rightarrow> nat list \<Rightarrow> cInstruction \<Rightarrow> bool res" where
  "unused_instr I d ins = (case d of
       [v] \<Rightarrow> if unread I v \<and> ctl_oc (m_control ins) \<le> 0
              then (if alu_oc (m_alu1 ins) \<le> 0 then Inr True
                    else res_bind (GetMuOpcodeDef (alu_oc (m_alu1 ins))) (\<lambda>o'. Inr (od_group o' < 0)))
              else Inr False
     | _ \<Rightarrow> Inr False)"

definition saves_alias :: "idents \<Rightarrow> nat list \<Rightarrow> bool" where
  "saves_alias I d = (case d of
       [v] \<Rightarrow> (case getAlias (ident_at I v) of Some a \<Rightarrow> m_defCount (ident_at I a) = 1 | None \<Rightarrow> False)
     | _ \<Rightarrow> False)"

fun unused_pass :: "idents \<Rightarrow> nat list \<Rightarrow> program \<Rightarrow> program res" where
  "unused_pass I [] P = Inr P"
| "unused_pass I (i # ks) P =
     res_bind (getDef P I i) (\<lambda>d. res_bind (unused_instr I d (instr_at P i)) (\<lambda>u.
       unused_pass I ks (if u \<or> saves_alias I d then upd_instr i setNOP P else P)))"

text \<open>Each step takes and gives the program and the identifiers, which have the counts.\<close>

type_synonym counted = "program \<times> idents"

fun count_usage :: "nat \<Rightarrow> nat \<Rightarrow> counted \<Rightarrow> counted res" where
  "count_usage b e (P, I) = res_bind (UpdateVariableUsage P b e I) (\<lambda>J. Inr (P, J))"

fun simplify_step :: "(nat \<Rightarrow> int) \<Rightarrow> nat \<Rightarrow> nat \<Rightarrow> counted \<Rightarrow> counted res" where
  "simplify_step objaddr b e (P, I) = res_bind (simplify_all objaddr I (instr_range P b e) (False, P)) (\<lambda>(_, Q). Inr (Q, I))"

fun alias_step :: "nat \<Rightarrow> nat \<Rightarrow> counted \<Rightarrow> counted res" where
  "alias_step b e (P, I) = res_bind (alias_pass I e (instr_range P b e) P) (\<lambda>Q. Inr (Q, I))"

fun unused_step :: "nat \<Rightarrow> nat \<Rightarrow> counted \<Rightarrow> counted res" where
  "unused_step b e (P, I) = res_bind (unused_pass I (instr_range P b e) P) (\<lambda>Q. Inr (Q, I))"

definition findCommonExpression :: "(nat \<Rightarrow> int) \<Rightarrow> nat \<Rightarrow> counted \<Rightarrow> counted res" where
  "findCommonExpression objaddr b s =
     (let e = GetFunctionEnd (fst s) b in
      if b = e then Inr s
      else res_bind (res_bind (res_bind (res_bind (count_usage b e s) (simplify_step objaddr b e)) (alias_step b e))
             (unused_step b e)) (count_usage b e))"

section \<open>The exchange of two variables\<close>

text \<open>\<open>t = x; x = y; y = t; return\<close> with the privates \<open>x\<close> (3), \<open>y\<close> (4) and \<open>t\<close> (5).\<close>

definition word_term :: "nat \<Rightarrow> cTerm" where
  "word_term i = MU_Storage i 0 False"

definition swap_ids :: idents where
  "swap_ids = [blank_cIdentifier CResult, blank_cIdentifier CLane, blank_cIdentifier CInteger, blank_cIdentifier CPrivate,
     blank_cIdentifier CPrivate, blank_cIdentifier CPrivate]"

definition swap_program :: program where
  "swap_program = \<lparr>p_code =
     [(assign_instr (word_term 5) (word_term 3))\<lparr>m_beginFunc := Some 0\<rparr>,
      assign_instr (word_term 3) (word_term 4), assign_instr (word_term 4) (word_term 5),
      createUnconditionalJump OPCODE_RETURN None False new_cInstruction],
     p_order = [0, 1, 2, 3],
     p_funcs = [\<lparr>fn_name = ''swap'', fn_kernel = False, fn_block = AstBlock (Some [3, 4, 5]) []\<rparr>]\<rparr>"

lemma copy_effect:
  assumes "m_alu1 (instr_at P i) = m_alu1 (assign_instr (word_term y) (word_term x))" "ops_of (instr_at P i) = [OpAlu1 (m_alu1 (instr_at P i))]"
    "ctl_oc (m_control (instr_at P i)) \<le> 0" "m_w (ident_at I y) = 0"
  shows "effect adder I P i s = s(CellWord y 0 := s (CellWord x 0))"
proof -
  have w: "op_writes I s (OpAlu1 (m_alu1 (instr_at P i))) = {CellWord y 0}"
    using assms(4) by (auto simp: op_writes_def opt_written_def assms(1) assign_instr_def word_term_def var_cells_def words_of_def)
  have v: "alu_sum s (m_alu1 (instr_at P i)) = s (CellWord x 0)"
    by (simp add: assms(1) assign_instr_def alu_sum_def opt_value_def word_term_def)
  show ?thesis using assms(3) by (auto simp: effect_def exec_instr_def assms(2) exec_ops_def writer_def w v adder_sel fun_eq_iff)
qed

lemma nop_effect: "isNull (instr_at P i) \<Longrightarrow> effect M I P i s = s"
  by (simp add: effect_def isNull_def exec_instr_def ops_of_def exec_ops_def writer_def)

lemma plain_goes: "ctl_oc (m_control (instr_at P i)) \<le> 0 \<Longrightarrow> goes_to M P i s = next_of P i"
  by (simp add: goes_to_def jumps_def)

definition copies :: "program \<Rightarrow> nat \<Rightarrow> nat \<Rightarrow> nat \<Rightarrow> bool" where
  "copies P i y x \<longleftrightarrow> m_alu1 (instr_at P i) = m_alu1 (assign_instr (word_term y) (word_term x)) \<and>
     ops_of (instr_at P i) = [OpAlu1 (m_alu1 (instr_at P i))] \<and> ctl_oc (m_control (instr_at P i)) \<le> 0"

lemma copy_step:
  assumes "copies P i y x" "m_w (ident_at I y) = 0" "next_of P i = Some j"
  shows "machine_step adder I P (Some i, s) = (Some j, s(CellWord y 0 := s (CellWord x 0)))"
  using assms copy_effect [of P i y x I s] plain_goes [of P i adder s] by (simp add: copies_def)

lemma nop_step:
  assumes "isNull (instr_at P i)" "next_of P i = Some j"
  shows "machine_step M I P (Some i, s) = (Some j, s)"
  using assms nop_effect [of P i M I s] plain_goes [of P i M s] by (simp add: isNull_def)

lemma run_3: "run M I P 3 c = machine_step M I P (machine_step M I P (machine_step M I P c))"
  by (simp add: numeral_3_eq_3)

text \<open>
  C34: \<open>findCommonExpression\<close> breaks the exchange of two variables through a third: the copy \<open>y = t\<close> is joined
  with \<open>t = x\<close>, which becomes \<open>y = x\<close>, over the instruction \<open>x = y\<close> that still reads the old \<open>y\<close>. The
  exchange takes three steps; afterwards both variables have the value of \<open>x\<close>.
\<close>

theorem findCommonExpression_breaks_swap:
  "\<exists>Q J. findCommonExpression (\<lambda>_. 0) 0 (swap_program, swap_ids) = Inr (Q, J) \<and>
     (\<forall>s. let u = snd (run adder swap_ids swap_program 3 (Some 0, s)); v = snd (run adder swap_ids Q 3 (Some 0, s)) in
        u (CellWord 3 0) = s (CellWord 4 0) \<and> u (CellWord 4 0) = s (CellWord 3 0) \<and>
        v (CellWord 3 0) = s (CellWord 3 0) \<and> v (CellWord 4 0) = s (CellWord 3 0))"
proof -
  have "case findCommonExpression (\<lambda>_. 0) 0 (swap_program, swap_ids) of Inr (Q, J) \<Rightarrow>
     copies Q 0 4 3 \<and> copies Q 1 3 4 \<and> isNull (instr_at Q 2) \<and> map (next_of Q) [0, 1, 2] = [Some 1, Some 2, Some 3] | _ \<Rightarrow> False"
    by code_simp
  then obtain Q J where r: "findCommonExpression (\<lambda>_. 0) 0 (swap_program, swap_ids) = Inr (Q, J)" "copies Q 0 4 3"
    "copies Q 1 3 4" "isNull (instr_at Q 2)" "next_of Q 0 = Some 1" "next_of Q 1 = Some 2" "next_of Q 2 = Some 3"
    by (auto split: sum.splits)
  have p: "copies swap_program 0 5 3" "copies swap_program 1 3 4" "copies swap_program 2 4 5" "next_of swap_program 0 = Some 1"
    "next_of swap_program 1 = Some 2" "next_of swap_program 2 = Some 3" by code_simp+
  have w: "m_w (ident_at swap_ids 3) = 0" "m_w (ident_at swap_ids 4) = 0" "m_w (ident_at swap_ids 5) = 0" by code_simp+
  have "run adder swap_ids Q 3 (Some 0, s) = (Some 3, s(CellWord 4 0 := s (CellWord 3 0)))" for s
    by (simp add: run_3 copy_step [OF r(2) w(2) r(5)] copy_step [OF r(3) w(1) r(6)] nop_step [OF r(4,7)] fun_eq_iff del: machine_step.simps One_nat_def)
  moreover have "run adder swap_ids swap_program 3 (Some 0, s) =
      (Some 3, s(CellWord 5 0 := s (CellWord 3 0), CellWord 3 0 := s (CellWord 4 0), CellWord 4 0 := s (CellWord 3 0)))" for s
    by (simp add: run_3 copy_step [OF p(1) w(3) p(4)] copy_step [OF p(2) w(1) p(5)] copy_step [OF p(3) w(2) p(6)] del: machine_step.simps One_nat_def)
  ultimately show ?thesis using r(1) by (intro exI [of _ Q] exI [of _ J]) (simp add: Let_def)
qed

section \<open>Removing what nothing reads keeps the rest\<close>

text \<open>
  The cells that the value of an operation comes from: all cells of its inputs, and what the address and the
  lanes of its result are read from. The value written to a cell may also depend on what the cell holds.
\<close>

fun op_inputs :: "op \<Rightarrow> cTerm option list" where
  "op_inputs (OpAlu1 a) = [alu_x1 a, alu_x2 a, alu_xacc a]"
| "op_inputs (OpAlu2 a) = [alu_x1 a, alu_x2 a, alu_xacc a]"
| "op_inputs (OpImu u) = [imu_x1 u, imu_x2 u]"

definition sources :: "idents \<Rightarrow> store \<Rightarrow> op \<Rightarrow> cell set" where
  "sources I s p = (\<Union>x\<in>set (op_inputs p). opt_touched I s x) \<union> (opt_touched I s (op_result p) - opt_written I s (op_result p))"

definition from_sources :: "machine \<Rightarrow> idents \<Rightarrow> bool" where
  "from_sources M I \<longleftrightarrow>
     (\<forall>p s t c. (\<forall>x\<in>sources I s p. s x = t x) \<longrightarrow> c \<in> op_writes I s p \<longrightarrow> s c = t c \<longrightarrow> mc_sem M p s c = mc_sem M p t c) \<and>
     (\<forall>u oc s t. (\<forall>x\<in>sources I s (OpImu u). s x = t x) \<longrightarrow> mc_taken M u oc s = mc_taken M u oc t)"

text \<open>Two stores that agree except on the variables that count as unread.\<close>

definition agree :: "idents \<Rightarrow> store \<Rightarrow> store \<Rightarrow> bool" where
  "agree I s t \<longleftrightarrow> (\<forall>c. \<not> unread I (cell_var c) \<longrightarrow> s c = t c)"

definition calls_agree :: "machine \<Rightarrow> idents \<Rightarrow> bool" where
  "calls_agree M I \<longleftrightarrow> (\<forall>i s t. agree I s t \<longrightarrow> agree I (mc_call M i s) (mc_call M i t))"

lemma scope_grows: "x \<in> set lst \<Longrightarrow> x \<in> set (getIdentifierScope I b lst)"
  using set_scope_walk_mono by (fastforce simp: getIdentifierScope_def)

lemma touched_used:
  "c \<in> touched_cells I idx x \<Longrightarrow> cell_var c \<in> set (term_getDef I x (term_getUse x lst)) \<or> c = CellLane"
  using scope_cells_var [of c I]
  by (cases x) (auto simp: var_cells_def lane_cells_def intro: scope_grows simp del: mu_getVectorWidth.simps split: if_splits)

lemma address_used:
  "c \<in> touched_cells I idx y \<Longrightarrow> c \<notin> written_cells I idx y \<Longrightarrow> y \<noteq> IMU_Result \<Longrightarrow> \<forall>i. y \<noteq> MU_Integer i \<Longrightarrow>
     cell_var c \<in> set (term_getUse y lst) \<or> c = CellLane"
  by (cases y) (auto simp: lane_cells_def simp del: mu_getVectorWidth.simps split: if_splits)

text \<open>The list of used variables covers the operands of each busy slot.\<close>

definition reads_of :: "idents \<Rightarrow> cTerm \<Rightarrow> nat list \<Rightarrow> nat list" where
  "reads_of I x lst = term_getDef I x (term_getUse x lst)"

lemma reads_of_grows: "set lst \<subseteq> set (reads_of I x lst)"
  unfolding reads_of_def by (rule subset_trans [OF term_getUse_grows term_getDef_grows])

definition covers :: "idents \<Rightarrow> nat list \<Rightarrow> cTerm option list \<Rightarrow> cTerm option \<Rightarrow> bool" where
  "covers I u xs y \<longleftrightarrow> (\<forall>x. Some x \<in> set xs \<longrightarrow> (\<exists>l. set (reads_of I x l) \<subseteq> set u)) \<and>
     (\<forall>t. y = Some t \<longrightarrow> (\<exists>l. set (term_getUse t l) \<subseteq> set u))"

lemma covers_mono: "covers I u xs y \<Longrightarrow> set u \<subseteq> set v \<Longrightarrow> covers I v xs y"
  unfolding covers_def by blast

lemma covers_chain:
  assumes "case y of None \<Rightarrow> set lst \<subseteq> set l0 | Some t \<Rightarrow> set (term_getUse t lst) \<subseteq> set l0"
    "u = fold (\<lambda>x l. case x of None \<Rightarrow> l | Some t \<Rightarrow> reads_of I t l) xs l0"
  shows "covers I u xs y" "set lst \<subseteq> set u"
proof -
  have g: "set l \<subseteq> set (fold (\<lambda>x l. case x of None \<Rightarrow> l | Some t \<Rightarrow> reads_of I t l) xs l)" for xs l
  proof (induction xs arbitrary: l)
    case (Cons x xs)
    have "set l \<subseteq> set (case x of None \<Rightarrow> l | Some t \<Rightarrow> reads_of I t l)" by (cases x) (simp_all add: reads_of_grows)
    from subset_trans [OF this Cons.IH] show ?case by simp
  qed simp
  have c: "Some x \<in> set xs \<Longrightarrow> \<exists>k. set (reads_of I x k) \<subseteq> set (fold (\<lambda>x l. case x of None \<Rightarrow> l | Some t \<Rightarrow> reads_of I t l) xs l)"
    for xs l x
  proof (induction xs arbitrary: l)
    case (Cons z xs)
    show ?case
    proof (cases "z = Some x")
      case True
      with g [of "reads_of I x l" xs] show ?thesis by (intro exI [of _ l]) simp
    qed (use Cons in auto)
  qed simp
  have "set lst \<subseteq> set l0" using assms(1) term_getUse_grows by (fastforce split: option.splits)
  with g assms(2) show "set lst \<subseteq> set u" by blast
  show "covers I u xs y" unfolding covers_def assms(2)
  proof (intro conjI allI impI)
    fix x assume "Some x \<in> set xs"
    then show "\<exists>l. set (reads_of I x l) \<subseteq> set (fold (\<lambda>x l. case x of None \<Rightarrow> l | Some t \<Rightarrow> reads_of I t l) xs l0)" by (rule c)
  next
    fix t assume "y = Some t"
    with assms(1) have "set (term_getUse t lst) \<subseteq> set l0" by simp
    with g [of l0 xs] show "\<exists>l. set (term_getUse t l) \<subseteq> set (fold (\<lambda>x l. case x of None \<Rightarrow> l | Some t \<Rightarrow> reads_of I t l) xs l0)"
      by blast
  qed
qed

lemma alu_getUse_covers:
  assumes "alu_getUse lane I a lst = Inr u"
  shows "set lst \<subseteq> set u" "alu_oc a > 0 \<Longrightarrow> covers I u [alu_x1 a, alu_x2 a, alu_xacc a] (alu_y a)"
proof -
  have "set lst \<subseteq> set u \<and> covers I u [alu_x1 a, alu_x2 a, alu_xacc a] (alu_y a)" if oc: "alu_oc a > 0"
  proof -
    let ?l0 = "case alu_y a of None \<Rightarrow> lst | Some y \<Rightarrow>
        (let l = term_getUse y lst in if lane \<and> mu_getVectorWidth I y \<ge> 1 then iv_append l Lane_id else l)"
    from assms oc obtain x1 x2 where x: "alu_x1 a = Some x1" "alu_x2 a = Some x2"
      by (cases "alu_x1 a"; cases "alu_x2 a") (auto simp: alu_getUse_def)
    have u: "u = fold (\<lambda>x l. case x of None \<Rightarrow> l | Some t \<Rightarrow> reads_of I t l) [alu_x1 a, alu_x2 a, alu_xacc a] ?l0"
      using assms oc x by (cases "alu_xacc a") (simp_all add: alu_getUse_def reads_of_def Let_def del: mu_getVectorWidth.simps)
    have "case alu_y a of None \<Rightarrow> set lst \<subseteq> set ?l0 | Some t \<Rightarrow> set (term_getUse t lst) \<subseteq> set ?l0"
      by (cases "alu_y a") (auto simp: Let_def)
    from covers_chain [OF this u] show ?thesis by blast
  qed
  with assms show "set lst \<subseteq> set u" "alu_oc a > 0 \<Longrightarrow> covers I u [alu_x1 a, alu_x2 a, alu_xacc a] (alu_y a)"
    by (cases "alu_oc a > 0"; simp add: alu_getUse_def)+
qed

lemma imu_getUse_covers:
  assumes "imu_getUse I a lst = Inr u"
  shows "set lst \<subseteq> set u" "imu_oc a > 0 \<Longrightarrow> covers I u [imu_x1 a, imu_x2 a] (imu_y a)"
proof -
  have "set lst \<subseteq> set u \<and> covers I u [imu_x1 a, imu_x2 a] (imu_y a)" if oc: "imu_oc a > 0"
  proof -
    let ?l0 = "case imu_y a of None \<Rightarrow> lst | Some y \<Rightarrow> term_getUse y lst"
    from assms oc obtain x1 x2 where x: "imu_x1 a = Some x1" "imu_x2 a = Some x2"
      by (cases "imu_x1 a"; cases "imu_x2 a") (auto simp: imu_getUse_def)
    have u: "u = fold (\<lambda>x l. case x of None \<Rightarrow> l | Some t \<Rightarrow> reads_of I t l) [imu_x1 a, imu_x2 a] ?l0"
      using assms oc x by (simp add: imu_getUse_def reads_of_def Let_def)
    have "case imu_y a of None \<Rightarrow> set lst \<subseteq> set ?l0 | Some t \<Rightarrow> set (term_getUse t lst) \<subseteq> set ?l0"
      by (cases "imu_y a") auto
    from covers_chain [OF this u] show ?thesis by blast
  qed
  with assms show "set lst \<subseteq> set u" "imu_oc a > 0 \<Longrightarrow> covers I u [imu_x1 a, imu_x2 a] (imu_y a)"
    by (cases "imu_oc a > 0"; simp add: imu_getUse_def)+
qed

lemma getUse_covers:
  assumes "getUse I ins = Inr u" "ctl_oc (m_control ins) \<noteq> OPCODE_FUNC" "p \<in> set (ops_of ins)"
  shows "covers I u (op_inputs p) (op_result p)"
proof -
  from assms(1,2) obtain l1 l2 where l: "alu_getUse True I (m_alu1 ins) [] = Inr l1" "alu_getUse False I (m_alu2 ins) l1 = Inr l2"
    "imu_getUse I (m_imu ins) l2 = Inr u" by (auto simp: getUse_def res_bind_eq_Inr_iff)
  have s: "set l2 \<subseteq> set u" "set l1 \<subseteq> set u" using alu_getUse_covers(1) [OF l(2)] imu_getUse_covers(1) [OF l(3)] by auto
  from assms(3) consider "p = OpAlu1 (m_alu1 ins)" "alu_oc (m_alu1 ins) > 0" | "p = OpAlu2 (m_alu2 ins)" "alu_oc (m_alu2 ins) > 0"
    | "p = OpImu (m_imu ins)" "imu_oc (m_imu ins) > 0" by (auto simp: ops_of_def split: if_splits)
  then show ?thesis
    using covers_mono [OF alu_getUse_covers(2) [OF l(1)] s(2)] covers_mono [OF alu_getUse_covers(2) [OF l(2)] s(1)]
      imu_getUse_covers(2) [OF l(3)] by cases simp_all
qed

text \<open>
  What the pass relies on: the variables that an instruction uses count as read, results are written to
  something that can be written, and a conditional jump has its comparison in the scalar slot.
\<close>

definition counted_uses :: "idents \<Rightarrow> program \<Rightarrow> nat \<Rightarrow> bool" where
  "counted_uses I P k \<longleftrightarrow> (\<exists>u. getUse I (instr_at P k) = Inr u \<and> (\<forall>v\<in>set u. \<not> unread I v))"

definition well_formed :: "cInstruction \<Rightarrow> bool" where
  "well_formed ins \<longleftrightarrow> (\<forall>p\<in>set (ops_of ins). \<forall>y. op_result p = Some y \<longrightarrow> \<not> not_a_result y) \<and>
     (0 < ctl_oc (m_control ins) \<longrightarrow> ctl_oc (m_control ins) \<in> {OPCODE_JUMP, OPCODE_RETURN, OPCODE_FUNC} \<or> 0 < imu_oc (m_imu ins))"

lemma sources_agree:
  assumes "counted_uses I P k" "well_formed (instr_at P k)" "\<not> unread I Lane_id" "agree I s t"
    "ctl_oc (m_control (instr_at P k)) \<noteq> OPCODE_FUNC" "p \<in> set (ops_of (instr_at P k))" "c \<in> sources I s p"
  shows "s c = t c"
proof -
  from assms(1) obtain u where u: "getUse I (instr_at P k) = Inr u" "\<forall>v\<in>set u. \<not> unread I v" by (auto simp: counted_uses_def)
  note cov = getUse_covers [OF u(1) assms(5,6), unfolded covers_def]
  from assms(7) consider x where "Some x \<in> set (op_inputs p)" "c \<in> touched_cells I (reg_index s) x"
    | y where "op_result p = Some y" "c \<in> touched_cells I (reg_index s) y" "c \<notin> written_cells I (reg_index s) y"
    by (auto simp: sources_def opt_touched_def opt_written_def split: option.splits)
  then have "cell_var c \<in> set u \<or> c = CellLane"
  proof cases
    case 1
    from cov 1(1) obtain l where "set (reads_of I x l) \<subseteq> set u" by blast
    with touched_used [OF 1(2), of l] show ?thesis unfolding reads_of_def by blast
  next
    case 2
    with cov obtain l where "set (term_getUse y l) \<subseteq> set u" by blast
    moreover have "\<not> not_a_result y" using assms(2,6) 2(1) by (auto simp: well_formed_def)
    then have "y \<noteq> IMU_Result" "\<forall>i. y \<noteq> MU_Integer i" by auto
    ultimately show ?thesis using address_used [OF 2(2,3), of l] by blast
  qed
  with u(2) assms(3,4) show ?thesis by (auto simp: agree_def)
qed

lemma writes_agree:
  assumes "\<forall>c\<in>sources I s p. s c = t c"
  shows "op_writes I t p = op_writes I s p"
proof (cases "op_result p")
  case (Some y)
  show ?thesis
  proof (cases "\<exists>i x off sub. y = MU_StorageWithIndex i x off sub")
    case True
    then obtain i x off sub where y: "y = MU_StorageWithIndex i x off sub" by blast
    have "CellInt x \<in> sources I s p"
      by (simp add: sources_def Some y opt_touched_def opt_written_def del: mu_getVectorWidth.simps)
    with assms have "reg_index t x = reg_index s x" by (simp add: reg_index_def)
    then show ?thesis by (simp add: op_writes_def opt_written_def Some y del: mu_getVectorWidth.simps)
  next
    case False
    then show ?thesis by (cases y) (simp_all add: op_writes_def opt_written_def Some)
  qed
qed (simp add: op_writes_def opt_written_def)

lemma exec_agree:
  assumes "from_sources M I" "agree I s t" "\<forall>p\<in>set ps. \<forall>c\<in>sources I s p. s c = t c"
  shows "agree I (exec_ops I (mc_sem M) ps s) (exec_ops I (mc_sem M) ps t)"
  unfolding agree_def
proof (intro allI impI)
  fix c assume c: "\<not> unread I (cell_var c)"
  with assms(2) have e: "s c = t c" by (simp add: agree_def)
  have "writer I t ps c = writer I s ps c"
    unfolding writer_def using writes_agree assms(3) by (intro find_cong) auto
  with e assms(1,3) show "exec_ops I (mc_sem M) ps s c = exec_ops I (mc_sem M) ps t c"
    by (auto simp: exec_ops_def from_sources_def split: option.splits dest!: writer_Some)
qed

lemma jumps_agree:
  assumes "from_sources M I" "well_formed ins" "ctl_oc (m_control ins) \<noteq> OPCODE_RETURN"
    "\<forall>p\<in>set (ops_of ins). \<forall>c\<in>sources I s p. s c = t c"
  shows "jumps M ins s = jumps M ins t"
proof (cases "0 < ctl_oc (m_control ins) \<and> ctl_oc (m_control ins) \<noteq> OPCODE_FUNC \<and> ctl_oc (m_control ins) \<noteq> OPCODE_JUMP")
  case True
  with assms(2,3) have "OpImu (m_imu ins) \<in> set (ops_of ins)" by (auto simp: well_formed_def ops_of_def)
  with assms(1,4) show ?thesis unfolding jumps_def Let_def from_sources_def by metis
qed (auto simp: jumps_def Let_def)

section \<open>The pass\<close>

lemma setNOP_ops:
  "m_control (setNOP ins) = (m_control ins)\<lparr>ctl_oc := -1\<rparr>" "ops_of (setNOP ins) = []"
  by (simp_all add: setNOP_def ops_of_def)

lemma getDef_plain:
  assumes "instr_at Q k = instr_at P k" "ctl_oc (m_control (instr_at P k)) \<noteq> OPCODE_FUNC"
  shows "getDef Q I k = getDef P I k"
  using assms by (simp add: getDef_def)

definition removed :: "idents \<Rightarrow> program \<Rightarrow> program \<Rightarrow> nat \<Rightarrow> bool" where
  "removed I P Q k \<longleftrightarrow> instr_at Q k = setNOP (instr_at P k) \<and> ctl_oc (m_control (instr_at P k)) \<le> 0 \<and>
     (\<exists>v. getDef P I k = Inr [v] \<and> unread I v)"

lemma unused_pass_only:
  assumes "unused_pass I ks P = Inr Q" "distinct ks" "\<forall>v. getAlias (ident_at I v) = None"
  shows "p_order Q = p_order P \<and> (\<forall>k. instr_at Q k = instr_at P k \<or> removed I P Q k)"
  using assms
proof (induction ks arbitrary: P)
  case (Cons i ks)
  from Cons.prems(1) obtain d u where d: "getDef P I i = Inr d" "unused_instr I d (instr_at P i) = Inr u"
    "unused_pass I ks (if u \<or> saves_alias I d then upd_instr i setNOP P else P) = Inr Q"
    by (auto simp: res_bind_eq_Inr_iff)
  have na: "\<not> saves_alias I d" using Cons.prems(3) by (simp add: saves_alias_def split: list.splits)
  have IH: "unused_pass I ks R = Inr Q \<Longrightarrow> p_order Q = p_order R \<and> (\<forall>k. instr_at Q k = instr_at R k \<or> removed I R Q k)" for R
    using Cons.IH Cons.prems(2,3) by simp
  show ?case
  proof (cases u)
    case True
    then obtain v where v: "d = [v]" "unread I v" "ctl_oc (m_control (instr_at P i)) \<le> 0"
      using d(2) by (auto simp: unused_instr_def split: list.splits if_splits)
    let ?R = "upd_instr i setNOP P"
    from IH [of ?R] d(3) True have r: "p_order Q = p_order P" "\<forall>k. instr_at Q k = instr_at ?R k \<or> removed I ?R Q k" by auto
    have "instr_at Q k = instr_at P k \<or> removed I P Q k" for k
    proof (cases "k = i \<and> i < length (p_code P)")
      case True
      then have k: "instr_at ?R k = setNOP (instr_at P k)" by simp
      have "setNOP (setNOP (instr_at P k)) = setNOP (instr_at P k)" by (simp add: setNOP_def)
      with r(2) k have "instr_at Q k = setNOP (instr_at P k)" unfolding removed_def by metis
      with v d(1) True show ?thesis by (auto simp: removed_def)
    next
      case False
      then have k: "instr_at ?R k = instr_at P k" by auto
      moreover have "removed I P Q k" if "removed I ?R Q k"
      proof -
        have "ctl_oc (m_control (instr_at P k)) \<noteq> OPCODE_FUNC" using that k by (auto simp: removed_def)
        from getDef_plain [OF k this] that k show ?thesis by (simp add: removed_def)
      qed
      ultimately show ?thesis using r(2) by metis
    qed
    with r(1) show ?thesis by blast
  next
    case False
    with IH [of P] d(3) na show ?thesis by simp
  qed
qed simp


lemma plain_other:
  assumes "getDef P I k = Inr d" "ctl_oc (m_control (instr_at P k)) \<noteq> OPCODE_FUNC" "cell_var c \<notin> set d"
  shows "effect M I P k s c = s c"
proof -
  have "calls_ok (M\<lparr>mc_call := \<lambda>_ s. s\<rparr>) I P" by (simp add: calls_ok_def)
  from effect_other [OF this assms(1,3)] assms(2) show ?thesis by (simp add: effect_def)
qed

lemma unused_step_agree:
  assumes st: "agree I s t" and only: "instr_at Q k = instr_at P k \<or> removed I P Q k" and ord: "p_order Q = p_order P"
    and ok: "counted_uses I P k" "well_formed (instr_at P k)" "\<not> unread I Lane_id" "from_sources M I" "calls_agree M I"
  shows "goes_to M Q k t = goes_to M P k s" "agree I (effect M I P k s) (effect M I Q k t)"
proof -
  let ?oc = "ctl_oc (m_control (instr_at P k))"
  have nx: "next_of Q = next_of P" by (simp add: next_of_def fun_eq_iff ord)
  have br: "getBranch Q = getBranch P" by (intro ext) (simp only: getBranch_def nx)
  have "goes_to M Q k t = goes_to M P k s \<and> agree I (effect M I P k s) (effect M I Q k t)"
  proof (cases "removed I P Q k")
    case True
    then obtain v where v: "instr_at Q k = setNOP (instr_at P k)" "?oc \<le> 0" "getDef P I k = Inr [v]" "unread I v"
      unfolding removed_def by blast
    have "effect M I Q k t = t" by (simp add: effect_def v(1) setNOP_ops exec_instr_def exec_ops_def writer_def)
    moreover have "effect M I P k s c = s c" if "\<not> unread I (cell_var c)" for c
      by (rule plain_other [OF v(3)]) (use v(2,4) that in auto)
    ultimately show ?thesis using st v(1,2) nx
      by (simp add: goes_to_def jumps_def setNOP_ops agree_def)
  next
    case False
    with only have q: "instr_at Q k = instr_at P k" by blast
    show ?thesis
    proof (cases "?oc = OPCODE_FUNC")
      case True
      then show ?thesis using ok(5) st nx br by (simp add: goes_to_def jumps_def effect_def q calls_agree_def)
    next
      case nf: False
      have src: "\<forall>p\<in>set (ops_of (instr_at P k)). \<forall>c\<in>sources I s p. s c = t c"
        using sources_agree [OF ok(1-3) st nf] by blast
      have "agree I (effect M I P k s) (effect M I Q k t)"
        using exec_agree [OF ok(4) st src] nf by (simp add: effect_def q exec_instr_def)
      moreover have "goes_to M Q k t = goes_to M P k s"
        using jumps_agree [OF ok(4,2) _ src] nx br by (cases "?oc = OPCODE_RETURN") (simp_all add: goes_to_def q)
      ultimately show ?thesis by blast
    qed
  qed
  then show "goes_to M Q k t = goes_to M P k s" "agree I (effect M I P k s) (effect M I Q k t)" by simp_all
qed

lemma unused_run:
  assumes "\<forall>k. instr_at Q k = instr_at P k \<or> removed I P Q k" "p_order Q = p_order P"
    "\<forall>k. flow_reach P b k \<longrightarrow> counted_uses I P k \<and> well_formed (instr_at P k)"
    "\<not> unread I Lane_id" "from_sources M I" "calls_agree M I"
  shows "fst (run M I Q n (Some b, s)) = fst (run M I P n (Some b, s)) \<and>
     agree I (snd (run M I P n (Some b, s))) (snd (run M I Q n (Some b, s))) \<and>
     (\<forall>k. fst (run M I P n (Some b, s)) = Some k \<longrightarrow> flow_reach P b k)"
proof (induction n)
  case 0
  then show ?case by (simp add: agree_def flow_reach_def)
next
  case (Suc n)
  obtain c u v where c: "run M I P n (Some b, s) = (c, u)" "run M I Q n (Some b, s) = (c, v)"
    using Suc by (metis prod.collapse)
  with Suc have a: "agree I u v" "\<forall>k. c = Some k \<longrightarrow> flow_reach P b k" by simp_all
  show ?case
  proof (cases c)
    case (Some k)
    with a(2) have r: "flow_reach P b k" by simp
    with assms(3) have ok: "counted_uses I P k" "well_formed (instr_at P k)" by blast+
    note st = unused_step_agree [OF a(1) assms(1) [rule_format] assms(2) ok assms(4-6)]
    have "flow_reach P b j" if "goes_to M P k u = Some j" for j
      using goes_to_flow [OF that] r by (simp add: flow_reach_def)
    with c st Some show ?thesis by simp
  qed (use c a in simp)
qed



lemma adder_sources:
  assumes w: "\<forall>i. m_w (ident_at I i) \<le> 0"
  shows "from_sources adder I" "calls_agree adder I"
proof -
  have t: "term_value s x = term_value t x" if "\<forall>c\<in>touched_cells I (reg_index s) x. s c = t c" for s t x
  proof (cases x)
    case (MU_Storage i off sub)
    have "mu_getVectorWidth I x \<le> 0" using w by (simp add: MU_Storage)
    then have "CellWord i off \<in> touched_cells I (reg_index s) x"
      by (simp add: MU_Storage var_cells_def words_of_def del: mu_getVectorWidth.simps)
    with that have "s (CellWord i off) = t (CellWord i off)" by blast
    then show ?thesis by (simp add: MU_Storage)
  qed (simp_all add: that [rule_format])
  have v: "opt_value s x = opt_value t x" if "\<forall>c\<in>opt_touched I s x. s c = t c" for s t x
    using that t by (cases x) (simp_all add: opt_value_def opt_touched_def)
  have "op_sum p s = op_sum p t" if "\<forall>x\<in>sources I s p. s x = t x" for p s t
  proof -
    have "opt_value s x = opt_value t x" if "x \<in> set (op_inputs p)" for x
      using v [of s x t] that \<open>\<forall>x\<in>sources I s p. s x = t x\<close> by (auto simp: sources_def)
    then show ?thesis by (cases p) (simp_all add: alu_sum_def)
  qed
  then show "from_sources adder I" unfolding from_sources_def adder_sel by metis
  show "calls_agree adder I" by (simp add: calls_agree_def adder_sel)
qed

text \<open>\<open>n = m + 5; m = m + m; return\<close> with integers \<open>n\<close> (2), which nothing reads, and \<open>m\<close> (3).\<close>

definition unread_ids :: idents where
  "unread_ids = [blank_cIdentifier CResult, (blank_cIdentifier CLane)\<lparr>m_useCount := 1\<rparr>,
     (blank_cIdentifier CInteger)\<lparr>m_defCount := 1\<rparr>, (blank_cIdentifier CInteger)\<lparr>m_useCount := 2, m_defCount := 1\<rparr>]"

definition unread_program :: program where
  "unread_program = \<lparr>p_code =
     [(createIMU IOPCODE_ADD (Some (IMU_Integer 3)) (Some (IMU_Constant 5)) (Some (IMU_Integer 2)) new_cInstruction)\<lparr>m_beginFunc := Some 0\<rparr>,
      createIMU IOPCODE_ADD (Some (IMU_Integer 3)) (Some (IMU_Integer 3)) (Some (IMU_Integer 3)) new_cInstruction,
      createUnconditionalJump OPCODE_RETURN None False new_cInstruction],
     p_order = [0, 1, 2], p_funcs = [\<lparr>fn_name = ''f'', fn_kernel = False, fn_block = AstBlock (Some [2, 3]) []\<rparr>]\<rparr>"

lemma unread_program_ok: "counted_uses unread_ids unread_program k \<and> well_formed (instr_at unread_program k)"
proof -
  have r: "unread unread_ids = (\<lambda>v. v \<notin> {1, 3})"
    by (auto simp: fun_eq_iff unread_def unread_ids_def ident_at_def blank_cIdentifier_def nth_Cons isFixed_def isParameter_def
        isStack_def isKindOf_def split: nat.splits)
  have "k < 3 \<or> instr_at unread_program k = new_cInstruction" by (auto simp: instr_at_def unread_program_def)
  then consider "k = 0" | "k = 1" | "k = 2" | "instr_at unread_program k = new_cInstruction" by linarith
  then show ?thesis
    by cases (simp_all add: counted_uses_def r well_formed_def instr_at_def unread_program_def createIMU_def new_cInstruction_def
      empty_alu_def createUnconditionalJump_def ops_of_def getUse_def alu_getUse_def imu_getUse_def)
qed



end
