(* ===== verification/Fuse.thy ===== *)
theory Fuse
  imports Common
begin

text \<open>
  Multiplications joined with additions to an accumulator: \<open>fm_int\<close> and \<open>fm_post\<close> of
  \<open>SW/compiler/instruction.cpp\<close>. The accumulators are the extended registers; an operand that denotes
  one is called double in the code.
\<close>

section \<open>Joining\<close>

text \<open>
  The walk from a multiplication to the addition of its product \<open>y\<close>. \<open>neg\<close> is the instruction that negates the
  product on the way. The second component of the result tells whether a change is reported.
\<close>

definition once :: "idents \<Rightarrow> cTerm \<Rightarrow> bool res" where
  "once I y = (case y of
       MU_Storage i _ _ \<Rightarrow> Inr (m_useCount (ident_at I i) = 1 \<and> m_defCount (ident_at I i) = 1)
     | _ \<Rightarrow> Inl BadCast)"

definition join_acc :: "nat \<Rightarrow> int \<Rightarrow> cTerm \<Rightarrow> bool \<Rightarrow> nat \<Rightarrow> nat option \<Rightarrow> program \<Rightarrow> program" where
  "join_acc i oc acc second k neg P =
     (let y = alu_y (m_alu1 (instr_at P k));
          P1 = upd_instr i (\<lambda>ins. ins\<lparr>m_alu1 := (m_alu1 ins)\<lparr>alu_oc := oc, alu_y := y, alu_xacc := Some acc\<rparr>\<rparr>) P;
          P2 = upd_instr k (\<lambda>ins. setNOP (ins\<lparr>m_alu1 := (if second then (m_alu1 ins)\<lparr>alu_x2 := None\<rparr> else (m_alu1 ins)\<lparr>alu_x1 := None\<rparr>)\<rparr>)) P1
      in case neg of None \<Rightarrow> P2 | Some j \<Rightarrow> upd_instr j setNOP P2)"

text \<open>The state of the walk: whether it goes on, \<open>y\<close>, \<open>neg\<close>, what is reported, and the program.\<close>

type_synonym fm_state = "bool \<times> cTerm \<times> nat option \<times> bool \<times> program"

definition stops :: "idents \<Rightarrow> Instruction_alu \<Rightarrow> bool" where
  "stops I a = (case alu_y a of None \<Rightarrow> False | Some t \<Rightarrow> isDouble I t)"

fun fm_step :: "(nat \<Rightarrow> int) \<Rightarrow> idents \<Rightarrow> nat \<Rightarrow> nat \<Rightarrow> nat \<Rightarrow> fm_state \<Rightarrow> fm_state res" where
  "fm_step objaddr I b i k (going, y, neg, rv, P) =
     (let a = m_alu1 (instr_at P k) in
      if \<not> going then Inr (going, y, neg, rv, P)
      else if m_jumpDestination (instr_at P k) \<or> ctl_oc (m_control (instr_at P k)) > 0 then Inr (False, y, neg, rv, P)
      else if alu_oc a \<noteq> OPCODE_SUB \<and> alu_oc a \<noteq> OPCODE_ADD then Inr (\<not> stops I a, y, neg, rv, P)
      else res_bind (deref (alu_x1 a)) (\<lambda>x1. res_bind (deref (alu_x2 a)) (\<lambda>x2.
        if alu_oc a = OPCODE_SUB \<and> is_MU_Const x1 \<and> f32_eq (mu_getConstant x1) (f32_of_int 0) \<and> term_eq objaddr I x2 y then
          res_bind (deref (alu_y a)) (\<lambda>y'. res_bind (once I y') (\<lambda>o'. Inr (o' \<and> \<not> stops I a, y', Some k, True, P)))
        else if alu_oc a = OPCODE_ADD then
          Inr (if term_eq objaddr I x1 y \<and> isDouble I x2 \<or> term_eq objaddr I x2 y \<and> isDouble I x1
               then (False, y, neg, True, join_acc i (if neg = None then OPCODE_FMA else OPCODE_FNMA)
                       (if isDouble I x2 then x2 else x1) (isDouble I x2) k neg P)
               else (\<not> stops I a, y, neg, rv, P))
        else if term_eq objaddr I x1 y \<and> isDouble I x2 then
          Inl (if m_beginFunc (instr_at P b) = None then NullPointer else CompileError)
        else if term_eq objaddr I x2 y \<and> isDouble I x1 then
          Inr (False, y, neg, True, join_acc i (if neg = None then OPCODE_FNMA else OPCODE_FMA) x1 False k neg P)
        else Inr (\<not> stops I a, y, neg, rv, P))))"

fun fm_walk :: "(nat \<Rightarrow> int) \<Rightarrow> idents \<Rightarrow> nat \<Rightarrow> nat \<Rightarrow> nat list \<Rightarrow> fm_state \<Rightarrow> fm_state res" where
  "fm_walk objaddr I b i [] st = Inr st"
| "fm_walk objaddr I b i (k # ks) st = res_bind (fm_step objaddr I b i k st) (fm_walk objaddr I b i ks)"

text \<open>The product of a multiplication that the walk starts from.\<close>

definition fm_product :: "idents \<Rightarrow> cInstruction \<Rightarrow> cTerm option res" where
  "fm_product I ins =
     (if alu_oc (m_alu1 ins) \<noteq> OPCODE_MUL \<or> m_jumpDestination ins then Inr None
      else res_bind (deref (alu_y (m_alu1 ins))) (\<lambda>y.
        if \<not> is_MU_Sto y then Inr None
        else res_bind (once I y) (\<lambda>o'. Inr (if o' then Some y else None))))"

fun fm_from :: "(nat \<Rightarrow> int) \<Rightarrow> idents \<Rightarrow> nat \<Rightarrow> nat \<Rightarrow> nat list \<Rightarrow> bool \<Rightarrow> program \<Rightarrow> cTerm option \<Rightarrow> (bool \<times> program) res" where
  "fm_from objaddr I b i ks rv P None = Inr (rv, P)"
| "fm_from objaddr I b i ks rv P (Some y) =
     res_bind (fm_walk objaddr I b i ks (True, y, None, rv, P)) (\<lambda>(_, _, _, r, Q). Inr (r, Q))"

fun fm_pass :: "(nat \<Rightarrow> int) \<Rightarrow> idents \<Rightarrow> nat \<Rightarrow> nat list \<Rightarrow> bool \<times> program \<Rightarrow> (bool \<times> program) res" where
  "fm_pass objaddr I b [] s = Inr s"
| "fm_pass objaddr I b (i # ks) (rv, P) =
     res_bind (res_bind (fm_product I (instr_at P i)) (fm_from objaddr I b i ks rv P)) (fm_pass objaddr I b ks)"

fun fm_counted :: "(nat \<Rightarrow> int) \<Rightarrow> nat \<Rightarrow> nat \<Rightarrow> counted \<Rightarrow> (bool \<times> counted) res" where
  "fm_counted objaddr b e (P, I) =
     res_bind (fm_pass objaddr I b (instr_range P b e) (False, P)) (\<lambda>(rv, Q). Inr (rv, (Q, I)))"

definition fm_int :: "(nat \<Rightarrow> int) \<Rightarrow> nat \<Rightarrow> counted \<Rightarrow> (bool \<times> counted) res" where
  "fm_int objaddr b s =
     (let e = GetFunctionEnd (fst s) b in
      if b = e then Inr (False, s) else res_bind (count_usage b e s) (fm_counted objaddr b e))"

section \<open>Accumulators as operands\<close>

text \<open>
  \<open>error\<close> is called with the line number of \<open>getBeginFunc()\<close>, which only the first instruction of a function has.
\<close>

definition post_error :: "cInstruction \<Rightarrow> 'a res" where
  "post_error ins = Inl (if m_beginFunc ins = None then NullPointer else CompileError)"

definition opt_double :: "idents \<Rightarrow> cTerm option \<Rightarrow> bool" where
  "opt_double I x = (case x of None \<Rightarrow> False | Some t \<Rightarrow> isDouble I t)"

definition fm_post_instr :: "idents \<Rightarrow> cInstruction \<Rightarrow> cInstruction res" where
  "fm_post_instr I ins =
     (let a = m_alu1 ins;
          first = opt_double I (alu_x1 a);
          x = (if first then alu_x2 a else alu_x1 a);
          acc = (if first then alu_x1 a else alu_x2 a);
          put = (\<lambda>oc x1 x2. Inr (ins\<lparr>m_alu1 := a\<lparr>alu_oc := oc, alu_x1 := x1, alu_x2 := x2, alu_xacc := acc\<rparr>\<rparr>)) in
      if alu_oc a \<le> 0 \<or> \<not> (first \<or> opt_double I (alu_x2 a)) then Inr ins
      else if opt_double I x then post_error ins
      else if alu_oc a = OPCODE_ASSIGN then
        res_bind (deref x) (\<lambda>t. if t \<noteq> MU_Null then post_error ins else put OPCODE_SHLA (Some (new_MU_Constant_int 0)) (Some MU_Null))
      else if alu_oc a = OPCODE_CONV_BFLOAT then
        res_bind (deref x) (\<lambda>t. if t \<noteq> MU_Null then post_error ins else put OPCODE_CONV (Some MU_Null) (Some MU_Null))
      else if alu_oc a = OPCODE_ADD then put OPCODE_FMA x (Some (new_MU_Constant_int 1))
      else if alu_oc a = OPCODE_SUB then put (if first then OPCODE_FNMA else OPCODE_FMS) x (Some (new_MU_Constant_int 1))
      else if alu_oc a = OPCODE_SHLA \<or> alu_oc a = OPCODE_SHRA then Inr ins
      else post_error ins)"

definition fm_post_at :: "idents \<Rightarrow> nat \<Rightarrow> program \<Rightarrow> program res" where
  "fm_post_at I i P = res_bind (fm_post_instr I (instr_at P i)) (\<lambda>ins. Inr (upd_instr i (\<lambda>_. ins) P))"

fun fm_post_pass :: "idents \<Rightarrow> nat list \<Rightarrow> program \<Rightarrow> program res" where
  "fm_post_pass I [] P = Inr P"
| "fm_post_pass I (i # ks) P = res_bind (fm_post_at I i P) (fm_post_pass I ks)"

definition fm_post :: "idents \<Rightarrow> nat \<Rightarrow> program \<Rightarrow> program res" where
  "fm_post I b P =
     (let e = GetFunctionEnd P b in if b = e then Inr P else fm_post_pass I (instr_range P b e) P)"

section \<open>Substituting the accumulator keeps the values\<close>

text \<open>
  The arithmetic of the vector unit, from the comments at the opcodes in \<open>config.h\<close>. \<open>other\<close> has the opcodes
  that the pass does not make; \<open>val s c x\<close> is the value of the operand \<open>x\<close> for the result in the cell \<open>c\<close>, with
  the store \<open>s\<close>.
\<close>

definition fused_value :: "(int \<Rightarrow> int \<Rightarrow> int \<Rightarrow> int \<Rightarrow> int) \<Rightarrow> int \<Rightarrow> int \<Rightarrow> int \<Rightarrow> int \<Rightarrow> int" where
  "fused_value other oc x1 x2 acc =
     (if oc = OPCODE_ASSIGN then x1
      else if oc = OPCODE_ADD then x1 + x2
      else if oc = OPCODE_SUB then x1 - x2
      else if oc = OPCODE_MUL then x1 * x2
      else if oc = OPCODE_FMA then x1 * x2 + acc
      else if oc = OPCODE_FMS then x1 * x2 - acc
      else if oc = OPCODE_FNMA then - (x1 * x2) + acc
      else if oc = OPCODE_FNMS then - (x1 * x2) - acc
      else if oc = OPCODE_SHLA then acc * 2 ^ nat x1
      else other oc x1 x2 acc)"

definition computes :: "(store \<Rightarrow> cell \<Rightarrow> cTerm option \<Rightarrow> int) \<Rightarrow> (int \<Rightarrow> int \<Rightarrow> int \<Rightarrow> int \<Rightarrow> int) \<Rightarrow> machine \<Rightarrow> bool" where
  "computes val other M \<longleftrightarrow>
     (\<forall>a s c. mc_sem M (OpAlu1 a) s c =
        fused_value other (alu_oc a) (val s c (alu_x1 a)) (val s c (alu_x2 a)) (val s c (alu_xacc a))) \<and>
     (\<forall>s c. val s c (Some (new_MU_Constant_int 0)) = 0 \<and> val s c (Some (new_MU_Constant_int 1)) = 1)"

text \<open>An assignment has its operand in the first place; the conversion opcode has no meaning in \<open>config.h\<close>.\<close>

definition post_ready :: "cInstruction \<Rightarrow> bool" where
  "post_ready ins \<longleftrightarrow> alu_oc (m_alu1 ins) \<noteq> OPCODE_CONV_BFLOAT \<and>
     (alu_oc (m_alu1 ins) = OPCODE_ASSIGN \<longrightarrow> alu_x1 (m_alu1 ins) \<noteq> Some MU_Null)"

definition acc_free :: "idents \<Rightarrow> Instruction_alu \<Rightarrow> bool" where
  "acc_free I a \<longleftrightarrow> alu_oc a \<le> 0 \<or> alu_oc a \<in> {OPCODE_SHLA, OPCODE_SHRA} \<or> \<not> opt_double I (alu_x1 a) \<and> \<not> opt_double I (alu_x2 a)"

lemma not_double_const [simp]: "\<not> isDouble I (new_MU_Constant_int n)" "\<not> isDouble I MU_Null"
  by (simp_all add: isDouble_def new_MU_Constant_int_def)

lemma opt_double_simps [simp]: "opt_double I (Some t) = isDouble I t"
  by (simp add: opt_double_def)

lemma fm_post_instr_parts:
  assumes "fm_post_instr I ins = Inr ins'" "post_ready ins" "computes val other M"
  shows "\<exists>a'. ins' = ins\<lparr>m_alu1 := a'\<rparr> \<and> alu_y a' = alu_y (m_alu1 ins) \<and> (alu_oc a' > 0 \<longleftrightarrow> alu_oc (m_alu1 ins) > 0) \<and>
     acc_free I a' \<and> (\<forall>s c. mc_sem M (OpAlu1 a') s c = mc_sem M (OpAlu1 (m_alu1 ins)) s c)"
proof -
  let ?a = "m_alu1 ins"
  define first where "first = opt_double I (alu_x1 ?a)"
  define x where "x = (if first then alu_x2 ?a else alu_x1 ?a)"
  define acc where "acc = (if first then alu_x1 ?a else alu_x2 ?a)"
  note r = assms(1) [unfolded fm_post_instr_def Let_def, folded first_def, folded x_def acc_def]
  note sem = assms(3) [unfolded computes_def]
  show ?thesis
  proof (cases "alu_oc ?a \<le> 0 \<or> \<not> (first \<or> opt_double I (alu_x2 ?a)) \<or> alu_oc ?a \<in> {OPCODE_SHLA, OPCODE_SHRA}")
    case True
    then have "ins' = ins" using r by (auto simp: post_error_def split: if_splits)
    moreover have "acc_free I ?a" using True by (auto simp: acc_free_def first_def)
    ultimately show ?thesis by (intro exI [of _ ?a]) simp
  next
    case False
    with r have x: "\<not> opt_double I x" by (auto simp: post_error_def split: if_splits)
    define a1 where "a1 = ?a\<lparr>alu_oc := OPCODE_SHLA, alu_x1 := Some (new_MU_Constant_int 0), alu_x2 := Some MU_Null, alu_xacc := acc\<rparr>"
    define a2 where "a2 = (\<lambda>oc. ?a\<lparr>alu_oc := oc, alu_x1 := x, alu_x2 := Some (new_MU_Constant_int 1), alu_xacc := acc\<rparr>)"
    from False r x assms(2) consider "alu_oc ?a = OPCODE_ASSIGN" "x = Some MU_Null" "ins' = ins\<lparr>m_alu1 := a1\<rparr>"
      | "alu_oc ?a = OPCODE_ADD" "ins' = ins\<lparr>m_alu1 := a2 OPCODE_FMA\<rparr>"
      | "alu_oc ?a = OPCODE_SUB" "ins' = ins\<lparr>m_alu1 := a2 (if first then OPCODE_FNMA else OPCODE_FMS)\<rparr>"
      by (cases x) (auto simp: post_error_def post_ready_def a1_def a2_def split: if_splits)
    then show ?thesis
    proof cases
      case 1
      then have first using assms(2) by (cases first) (auto simp: x_def post_ready_def)
      with 1 sem show ?thesis by (intro exI [of _ a1]) (simp add: a1_def acc_free_def fused_value_def acc_def)
    next
      case 2
      with sem x show ?thesis
        by (intro exI [of _ "a2 OPCODE_FMA"]) (cases first; simp add: a2_def acc_free_def fused_value_def acc_def x_def)
    next
      case 3
      with sem x show ?thesis
        by (intro exI [of _ "a2 (if first then OPCODE_FNMA else OPCODE_FMS)"])
          (cases first; simp add: a2_def acc_free_def fused_value_def acc_def x_def)
    qed
  qed
qed

lemma exec_same_values:
  assumes "list_all2 (\<lambda>p q. op_writes I s q = op_writes I s p \<and> (\<forall>c. sem q s c = sem p s c)) ps qs"
  shows "exec_ops I sem qs s = exec_ops I sem ps s"
proof
  fix c
  have "rel_option (\<lambda>p q. op_writes I s q = op_writes I s p \<and> (\<forall>c. sem q s c = sem p s c)) (find (\<lambda>p. c \<in> op_writes I s p) xs) (find (\<lambda>p. c \<in> op_writes I s p) ys)"
    if "list_all2 (\<lambda>p q. op_writes I s q = op_writes I s p \<and> (\<forall>c. sem q s c = sem p s c)) xs ys" for xs ys
    using that by (induction rule: list_all2_induct) auto
  from this [of "rev ps" "rev qs"] assms show "exec_ops I sem qs s c = exec_ops I sem ps s c"
    unfolding exec_ops_def writer_def by (auto simp: list_all2_rev elim: option.rel_cases)
qed

lemma fm_post_instr_effect:
  assumes "fm_post_instr I ins = Inr ins'" "post_ready ins" "computes val other M"
  shows "m_control ins' = m_control ins" "m_imu ins' = m_imu ins" "exec_instr I (mc_sem M) ins' s = exec_instr I (mc_sem M) ins s"
    "acc_free I (m_alu1 ins')"
proof -
  from fm_post_instr_parts [OF assms] obtain a' where a: "ins' = ins\<lparr>m_alu1 := a'\<rparr>" "alu_y a' = alu_y (m_alu1 ins)"
    "alu_oc a' > 0 \<longleftrightarrow> alu_oc (m_alu1 ins) > 0" "acc_free I a'" "\<forall>s c. mc_sem M (OpAlu1 a') s c = mc_sem M (OpAlu1 (m_alu1 ins)) s c"
    by blast
  then show "m_control ins' = m_control ins" "m_imu ins' = m_imu ins" "acc_free I (m_alu1 ins')" by simp_all
  have "list_all2 (\<lambda>p q. op_writes I s q = op_writes I s p \<and> (\<forall>c. mc_sem M q s c = mc_sem M p s c)) (ops_of ins) (ops_of ins')"
    using a by (simp add: ops_of_def op_writes_def list.rel_refl)
  then show "exec_instr I (mc_sem M) ins' s = exec_instr I (mc_sem M) ins s" unfolding exec_instr_def by (rule exec_same_values)
qed


lemma fm_post_pass_only:
  assumes "fm_post_pass I ks P = Inr Q" "distinct ks"
  shows "p_order Q = p_order P \<and> (\<forall>k. if k \<in> set ks then fm_post_instr I (instr_at P k) = Inr (instr_at Q k) else instr_at Q k = instr_at P k)"
  using assms
proof (induction ks arbitrary: P)
  case (Cons i ks)
  then obtain ins where i: "fm_post_instr I (instr_at P i) = Inr ins" "fm_post_pass I ks (upd_instr i (\<lambda>_. ins) P) = Inr Q"
    by (auto simp: fm_post_at_def res_bind_eq_Inr_iff)
  have new: "fm_post_instr I new_cInstruction = Inr new_cInstruction"
    by (simp add: fm_post_instr_def Let_def new_cInstruction_def empty_alu_def)
  let ?R = "upd_instr i (\<lambda>_. ins) P"
  have "distinct ks" using Cons.prems(2) by simp
  note IH = Cons.IH [OF i(2) this]
  then have r: "p_order Q = p_order P" by simp
  from IH have r2: "if k \<in> set ks then fm_post_instr I (instr_at ?R k) = Inr (instr_at Q k) else instr_at Q k = instr_at ?R k" for k
    by blast
  have "if k \<in> set (i # ks) then fm_post_instr I (instr_at P k) = Inr (instr_at Q k) else instr_at Q k = instr_at P k" for k
  proof (cases "k = i")
    case False
    with r2 [of k] show ?thesis by (cases "k \<in> set ks") simp_all
  next
    case True
    have "instr_at Q i = instr_at ?R i" using r2 [of i] Cons.prems(2) by simp
    moreover have "instr_at P i = new_cInstruction" if "\<not> i < length (p_code P)" using that by (simp add: instr_at_def)
    ultimately show ?thesis using i(1) new True by (cases "i < length (p_code P)") auto
  qed
  with r show ?case by blast
qed simp

lemma run_same:
  assumes "p_order Q = p_order P" "\<forall>k. m_control (instr_at Q k) = m_control (instr_at P k) \<and> m_imu (instr_at Q k) = m_imu (instr_at P k)"
    "\<forall>k s. exec_instr I (mc_sem M) (instr_at Q k) s = exec_instr I (mc_sem M) (instr_at P k) s"
  shows "run M I Q n c = run M I P n c"
proof -
  have nx: "next_of Q = next_of P" by (simp add: next_of_def fun_eq_iff assms(1))
  have "getBranch Q (instr_at Q k) = getBranch P (instr_at P k)" for k
    unfolding getBranch_def using assms(2) by (simp only: nx)
  then have "goes_to M Q k s = goes_to M P k s" "effect M I Q k s = effect M I P k s" for k s
    using assms(2,3) by (simp_all add: goes_to_def jumps_def nx effect_def)
  then have "machine_step M I Q c = machine_step M I P c" for c by (cases "(M, I, P, c)" rule: machine_step.cases) simp_all
  then show ?thesis by (induction n) simp_all
qed



text \<open>A machine with this arithmetic, on which a vector has one element.\<close>

definition fused :: machine where
  "fused = adder\<lparr>mc_sem := \<lambda>p s c. case p of
       OpAlu1 a \<Rightarrow> fused_value (\<lambda>_ _ _ _. 0) (alu_oc a) (opt_value s (alu_x1 a)) (opt_value s (alu_x2 a)) (opt_value s (alu_xacc a))
     | _ \<Rightarrow> op_sum p s\<rparr>"

lemma fused_computes: "computes (\<lambda>s c x. opt_value s x) (\<lambda>_ _ _ _. 0) fused"
  using f32_to_of_int(1) [of 0] f32_to_of_int(1) [of 1]
  by (simp add: computes_def fused_def opt_value_def new_MU_Constant_int_def)

lemma fused_effect:
  assumes "ops_of (instr_at P i) = [OpAlu1 a]" "alu_y a = Some (word_term y)" "m_w (ident_at I y) = 0"
    "ctl_oc (m_control (instr_at P i)) \<le> 0" "next_of P i = Some j"
  shows "machine_step fused I P (Some i, s) = (Some j, s(CellWord y 0 := fused_value (\<lambda>_ _ _ _. 0) (alu_oc a)
           (opt_value s (alu_x1 a)) (opt_value s (alu_x2 a)) (opt_value s (alu_xacc a))))"
proof -
  have "op_writes I s (OpAlu1 a) = {CellWord y 0}"
    using assms(2,3) by (auto simp: op_writes_def opt_written_def word_term_def var_cells_def words_of_def)
  then have "effect fused I P i s = s(CellWord y 0 := mc_sem fused (OpAlu1 a) s (CellWord y 0))"
    using assms(1,4) by (auto simp: effect_def exec_instr_def exec_ops_def writer_def fun_eq_iff)
  then show ?thesis using assms(4,5) by (simp add: plain_goes fused_def)
qed

definition alu_instr :: "int \<Rightarrow> nat \<Rightarrow> cTerm \<Rightarrow> cTerm \<Rightarrow> cInstruction" where
  "alu_instr oc y x1 x2 = new_cInstruction\<lparr>m_alu1 := \<lparr>alu_oc = oc, alu_which = eMuOpcodeDefAlu1, alu_x1 = Some x1,
     alu_x2 = Some x2, alu_y = Some (word_term y), alu_xacc = None\<rparr>\<rparr>"

text \<open>
  Privates \<open>a\<close> (3), \<open>b\<close> (4), \<open>t\<close> (5), \<open>z\<close> (6) and \<open>w\<close> (7) and an accumulator \<open>A\<close> (8):
  \<open>t = a - A; z = A; return\<close> and \<open>t = a * b; w = z; z = t + A; return\<close>.
\<close>

definition acc_ids :: idents where
  "acc_ids = [blank_cIdentifier CResult, blank_cIdentifier CLane, blank_cIdentifier CInteger, blank_cIdentifier CPrivate,
     blank_cIdentifier CPrivate, blank_cIdentifier CPrivate, blank_cIdentifier CPrivate, blank_cIdentifier CPrivate,
     blank_cIdentifier CExReg]"

definition post_program :: program where
  "post_program = \<lparr>p_code = [alu_instr OPCODE_SUB 5 (word_term 3) (word_term 8), assign_instr (word_term 6) (word_term 8),
     createUnconditionalJump OPCODE_RETURN None False new_cInstruction], p_order = [0, 1, 2], p_funcs = []\<rparr>"

definition join_program :: program where
  "join_program = \<lparr>p_code = [(alu_instr OPCODE_MUL 5 (word_term 3) (word_term 4))\<lparr>m_beginFunc := Some 0\<rparr>,
     assign_instr (word_term 7) (word_term 6), alu_instr OPCODE_ADD 6 (word_term 5) (word_term 8),
     createUnconditionalJump OPCODE_RETURN None False new_cInstruction], p_order = [0, 1, 2, 3],
     p_funcs = [\<lparr>fn_name = ''f'', fn_kernel = False, fn_block = AstBlock (Some [3, 4, 5, 6, 7, 8]) []\<rparr>]\<rparr>"

lemma post_program_steps:
  "fm_post_instr acc_ids (instr_at post_program 0) = Inr (new_cInstruction\<lparr>m_alu1 := \<lparr>alu_oc = OPCODE_FMS,
     alu_which = eMuOpcodeDefAlu1, alu_x1 = Some (word_term 3), alu_x2 = Some (new_MU_Constant_int 1),
     alu_y = Some (word_term 5), alu_xacc = Some (word_term 8)\<rparr>\<rparr>)"
  "fm_post_instr acc_ids (instr_at post_program 1) = Inr (new_cInstruction\<lparr>m_alu1 := \<lparr>alu_oc = OPCODE_SHLA,
     alu_which = eMuOpcodeDefAlu1, alu_x1 = Some (new_MU_Constant_int 0), alu_x2 = Some MU_Null,
     alu_y = Some (word_term 6), alu_xacc = Some (word_term 8)\<rparr>\<rparr>)"
  "fm_post_instr acc_ids (instr_at post_program 2) = Inr (instr_at post_program 2)"
proof -
  have "isDouble acc_ids (word_term 8)" "\<not> isDouble acc_ids (word_term 3)" by code_simp+
  then show "fm_post_instr acc_ids (instr_at post_program 0) = Inr (new_cInstruction\<lparr>m_alu1 := \<lparr>alu_oc = OPCODE_FMS,
       alu_which = eMuOpcodeDefAlu1, alu_x1 = Some (word_term 3), alu_x2 = Some (new_MU_Constant_int 1),
       alu_y = Some (word_term 5), alu_xacc = Some (word_term 8)\<rparr>\<rparr>)"
    "fm_post_instr acc_ids (instr_at post_program 1) = Inr (new_cInstruction\<lparr>m_alu1 := \<lparr>alu_oc = OPCODE_SHLA,
       alu_which = eMuOpcodeDefAlu1, alu_x1 = Some (new_MU_Constant_int 0), alu_x2 = Some MU_Null,
       alu_y = Some (word_term 6), alu_xacc = Some (word_term 8)\<rparr>\<rparr>)"
    by (simp_all add: instr_at_def post_program_def fm_post_instr_def alu_instr_def assign_instr_def)
  show "fm_post_instr acc_ids (instr_at post_program 2) = Inr (instr_at post_program 2)"
    by (simp add: instr_at_def post_program_def fm_post_instr_def createUnconditionalJump_def new_cInstruction_def empty_alu_def Let_def)
qed


text \<open>
  C36: \<open>fm_int\<close> moves the result of a sum up to the multiplication, past an instruction that reads the old value
  of the result: in \<open>t = a * b; w = z; z = t + A\<close> the variable \<open>w\<close> gets the new value of \<open>z\<close>.
\<close>

theorem fm_int_moves_result:
  "\<exists>Q J. fm_int (\<lambda>_. 0) 0 (join_program, acc_ids) = Inr (True, (Q, J)) \<and>
     (\<forall>s. snd (run fused acc_ids join_program 3 (Some 0, s)) (CellWord 7 0) = s (CellWord 6 0) \<and>
        snd (run fused acc_ids Q 3 (Some 0, s)) (CellWord 7 0) =
          s (CellWord 3 0) * s (CellWord 4 0) + s (CellWord 8 0))"
proof -
  let ?f = "alu_instr OPCODE_FMA 6 (word_term 3) (word_term 4)"
  let ?a = "(m_alu1 ?f)\<lparr>alu_xacc := Some (word_term 8)\<rparr>"
  let ?c = "m_alu1 (assign_instr (word_term 7) (word_term 6))"
  have "case fm_int (\<lambda>_. 0) 0 (join_program, acc_ids) of Inr (rv, (Q, J)) \<Rightarrow> rv \<and>
     ops_of (instr_at Q 0) = [OpAlu1 ?a] \<and> ops_of (instr_at Q 1) = [OpAlu1 ?c] \<and> isNull (instr_at Q 2) \<and>
     map (\<lambda>k. ctl_oc (m_control (instr_at Q k))) [0, 1] = [-1, -1] \<and> map (next_of Q) [0, 1, 2] = [Some 1, Some 2, Some 3] | _ \<Rightarrow> False"
    by code_simp
  then obtain Q J where q: "fm_int (\<lambda>_. 0) 0 (join_program, acc_ids) = Inr (True, (Q, J))" "ops_of (instr_at Q 0) = [OpAlu1 ?a]"
    "ops_of (instr_at Q 1) = [OpAlu1 ?c]" "isNull (instr_at Q 2)" "ctl_oc (m_control (instr_at Q 0)) \<le> 0"
    "ctl_oc (m_control (instr_at Q 1)) \<le> 0" "next_of Q 0 = Some 1" "next_of Q 1 = Some 2" "next_of Q 2 = Some 3"
    by (auto split: sum.splits)
  have p: "ops_of (instr_at join_program 0) = [OpAlu1 (m_alu1 (alu_instr OPCODE_MUL 5 (word_term 3) (word_term 4)))]"
    "ops_of (instr_at join_program 1) = [OpAlu1 ?c]"
    "ops_of (instr_at join_program 2) = [OpAlu1 (m_alu1 (alu_instr OPCODE_ADD 6 (word_term 5) (word_term 8)))]"
    "ctl_oc (m_control (instr_at join_program 0)) \<le> 0" "ctl_oc (m_control (instr_at join_program 1)) \<le> 0"
    "ctl_oc (m_control (instr_at join_program 2)) \<le> 0" "next_of join_program 0 = Some 1" "next_of join_program 1 = Some 2"
    "next_of join_program 2 = Some 3" by code_simp+
  have y: "alu_y ?a = Some (word_term 6)" "alu_y ?c = Some (word_term 7)" "alu_y (m_alu1 (alu_instr oc i x1 x2)) = Some (word_term i)"
    for oc i x1 x2 by (simp_all add: alu_instr_def assign_instr_def)
  have w: "m_w (ident_at acc_ids 5) = 0" "m_w (ident_at acc_ids 6) = 0" "m_w (ident_at acc_ids 7) = 0" by code_simp+
  note sel = alu_instr_def assign_instr_def opt_value_def word_term_def fused_value_def
  note dels = machine_step.simps One_nat_def
  have "snd (run fused acc_ids join_program 3 (Some 0, s)) (CellWord 7 0) = s (CellWord 6 0)" for s
    by (simp add: run_3 fused_effect [OF p(1) y(3) w(1) p(4,7)] fused_effect [OF p(2) y(2) w(3) p(5,8)]
        fused_effect [OF p(3) y(3) w(2) p(6,9)] sel del: dels)
  moreover have "snd (run fused acc_ids Q 3 (Some 0, s)) (CellWord 7 0) = s (CellWord 3 0) * s (CellWord 4 0) + s (CellWord 8 0)" for s
    by (simp add: run_3 fused_effect [OF q(2) y(1) w(2) q(5,7)] fused_effect [OF q(3) y(2) w(3) q(6,8)]
        nop_step [OF q(4,9)] sel del: dels)
  ultimately show ?thesis using q(1) by blast
qed


end
