(* ===== verification/Jumps.thy ===== *)
theory Jumps
  imports Pack Blocks
begin

text \<open>
  Two passes of \<open>SW/compiler/instruction.cpp\<close> that move control and lane masks: \<open>compress_jump\<close>, which
  settles the targets of the jumps and marks them, and \<open>compress_vmask\<close>.
\<close>

section \<open>\<open>compress_jump\<close>\<close>

definition unmark_dest :: "cInstruction \<Rightarrow> cInstruction" where
  "unmark_dest ins = ins\<lparr>m_jumpDestination := False\<rparr>"

definition mark_dest :: "cInstruction \<Rightarrow> cInstruction" where
  "mark_dest ins = ins\<lparr>m_jumpDestination := True\<rparr>"

text \<open>First all marks are cleared, and a jump to the next instruction that does anything becomes a NOP.\<close>

fun drop_jumps :: "nat list \<Rightarrow> bool \<times> program \<Rightarrow> bool \<times> program" where
  "drop_jumps [] s = s"
| "drop_jumps (i # is) s =
     (let P = upd_instr i unmark_dest (snd s);
          next = find (\<lambda>j. \<not> isNull (instr_at P j)) is;
          j = getJumpInstruction P i; after = ctl_jumpAfter (m_control (instr_at P i)) in
      if j \<noteq> None \<and> (if after then j = Some i else j = next)
      then drop_jumps is (True, upd_instr i setNOP P)
      else drop_jumps is (fst s, P))"

text \<open>The first instruction from \<open>t\<close> on that is not a NOP, or the end of the function.\<close>

fun skip_nops :: "program \<Rightarrow> nat \<Rightarrow> nat \<Rightarrow> nat list \<Rightarrow> nat res" where
  "skip_nops P e t [] = (if t = e \<or> \<not> isNull (instr_at P t) then Inr t else Inl NullPointer)"
| "skip_nops P e t (u # us) = (if t = e \<or> \<not> isNull (instr_at P t) then Inr t else skip_nops P e u us)"

definition settle_target :: "program \<Rightarrow> nat \<Rightarrow> bool \<Rightarrow> nat \<Rightarrow> nat res" where
  "settle_target P e after t =
     (let rest = items_after (p_order P) t in
      if after then (if t = e then Inr t else case rest of [] \<Rightarrow> Inl NullPointer | u # us \<Rightarrow> skip_nops P e u us)
      else skip_nops P e t rest)"

definition set_target :: "nat option \<Rightarrow> cInstruction \<Rightarrow> cInstruction" where
  "set_target t ins = ins\<lparr>m_control := (m_control ins)\<lparr>ctl_jumpInstruction := t\<rparr>\<rparr>"

definition clear_after :: "cInstruction \<Rightarrow> cInstruction" where
  "clear_after ins = ins\<lparr>m_control := (m_control ins)\<lparr>ctl_jumpAfter := False\<rparr>\<rparr>"

fun settle_jumps :: "nat \<Rightarrow> nat list \<Rightarrow> program \<Rightarrow> program res" where
  "settle_jumps e [] P = Inr P"
| "settle_jumps e (i # is) P =
     (let c = m_control (instr_at P i) in
      case ctl_jumpInstruction c of
        None \<Rightarrow> settle_jumps e is P
      | Some t \<Rightarrow>
          if ctl_oc c > 0 then
            res_bind (settle_target P e (ctl_jumpAfter c) t) (\<lambda>u.
              settle_jumps e is (upd_instr u mark_dest (upd_instr i (\<lambda>ins. clear_after (set_target (Some u) ins)) P)))
          else settle_jumps e is P)"

text \<open>
  A branch over one jump: the branch takes over the target of the jump with its condition reversed. The
  last instruction of the function counts even when it is a NOP.
\<close>

fun nonnull_or_last :: "program \<Rightarrow> nat list \<Rightarrow> nat option" where
  "nonnull_or_last P [] = None"
| "nonnull_or_last P [k] = Some k"
| "nonnull_or_last P (k # ks) = (if isNull (instr_at P k) then nonnull_or_last P ks else Some k)"

definition reverse_branch :: "nat option \<Rightarrow> int \<Rightarrow> cInstruction \<Rightarrow> cInstruction" where
  "reverse_branch t oc ins =
     ins\<lparr>m_control := (m_control ins)\<lparr>ctl_oc := oc, ctl_jumpInstruction := t\<rparr>\<rparr>"

fun reverse_branches :: "nat list \<Rightarrow> bool \<times> program \<Rightarrow> (bool \<times> program) res" where
  "reverse_branches [] s = Inr s"
| "reverse_branches [i] s = res_bind (getBranch (snd s) (instr_at (snd s) i)) (\<lambda>_. Inr s)"
| "reverse_branches (i # n # is) s =
     (let P = snd s; c = m_control (instr_at P n) in
      res_bind (getBranch P (instr_at P i)) (\<lambda>branch.
        if branch \<noteq> None \<and> branch = nonnull_or_last P is \<and> ctl_oc c = OPCODE_JUMP then
          res_bind (reverseLogic (ctl_oc (m_control (instr_at P i)))) (\<lambda>oc.
            reverse_branches (n # is)
              (True, upd_instr n setNOP (upd_instr i (reverse_branch (ctl_jumpInstruction c) oc) P)))
        else reverse_branches (n # is) s))"

text \<open>A jump to a jump goes where that one goes.\<close>

fun chain_jumps :: "nat list \<Rightarrow> bool \<times> program \<Rightarrow> (bool \<times> program) res" where
  "chain_jumps [] s = Inr s"
| "chain_jumps (i # is) s =
     (let P = snd s; c = m_control (instr_at P i) in
      if ctl_oc c = OPCODE_JUMP then
        res_bind (deref (ctl_jumpInstruction c)) (\<lambda>t.
          let d = m_control (instr_at P t) in
          if ctl_oc d = OPCODE_JUMP
          then chain_jumps is (True, upd_instr i (set_target (ctl_jumpInstruction d)) P)
          else chain_jumps is s)
      else chain_jumps is s)"

definition compress_jump :: "nat \<Rightarrow> program \<Rightarrow> (bool \<times> program) res" where
  "compress_jump b P =
     (let rng = function_range P b in
      case drop_jumps rng (False, P) of (rc, P1) \<Rightarrow>
      res_bind (settle_jumps (GetFunctionEnd P b) rng P1) (\<lambda>P2.
      res_bind (reverse_branches rng (rc, P2)) (chain_jumps rng)))"

text \<open>\<open>while(compress_jump(begin))\<close>: \<open>None\<close> when it does not end.\<close>

definition jump_again :: "(bool \<times> program) res \<Rightarrow> bool" where
  "jump_again s = (case s of Inr (rc, _) \<Rightarrow> rc | Inl _ \<Rightarrow> False)"

definition compress_jumps :: "nat \<Rightarrow> program \<Rightarrow> (bool \<times> program) res option" where
  "compress_jumps b P =
     while_option jump_again (\<lambda>s. res_bind s (\<lambda>(_, Q). compress_jump b Q)) (compress_jump b P)"

section \<open>\<open>compress_vmask\<close>\<close>

definition is_vmask :: "cInstruction \<Rightarrow> bool res" where
  "is_vmask ins =
     (if alu_oc (m_alu1 ins) < 0 \<and> alu_oc (m_alu2 ins) < 0 \<and> ctl_oc (m_control ins) < 0 \<and> imu_oc (m_imu ins) \<ge> 0
      then res_bind (deref (imu_y (m_imu ins))) (\<lambda>y. Inr (y = IMU_Lane)) else Inr False)"

definition uses_lane :: "Instruction_ialu \<Rightarrow> bool res" where
  "uses_lane u =
     (if imu_oc u \<ge> 0 then
        res_bind (deref (imu_x1 u)) (\<lambda>x1. if x1 = IMU_Lane then Inr True
        else res_bind (deref (imu_x2 u)) (\<lambda>x2. if x2 = IMU_Lane then Inr True
        else res_bind (deref (imu_y u)) (\<lambda>y. Inr (y = IMU_Lane))))
      else Inr False)"

text \<open>Forward to the instruction that takes over the mask.\<close>

fun vmask_target :: "program \<Rightarrow> nat list \<Rightarrow> nat option res" where
  "vmask_target P [] = Inr None"
| "vmask_target P (j # js) =
     (let ins = instr_at P j in
      if m_jumpDestination ins then Inr None
      else if ctl_oc (m_control ins) \<ge> 0 then Inr None
      else res_bind (uses_lane (m_imu ins)) (\<lambda>l.
        if l then Inr None
        else if alu_oc (m_alu1 ins) \<ge> 0 \<and> imu_oc (m_imu ins) < 0 \<and> ctl_oc (m_control ins) < 0 then Inr (Some j)
        else vmask_target P js))"

fun move_vmasks :: "nat list \<Rightarrow> bool \<times> program \<Rightarrow> (bool \<times> program) res" where
  "move_vmasks [] s = Inr s"
| "move_vmasks (i # is) s =
     (let P = snd s; ins = instr_at P i in
      if m_jumpDestination ins then move_vmasks is s
      else res_bind (is_vmask ins) (\<lambda>v.
        if \<not> v then move_vmasks is s
        else res_bind (vmask_target P is) (\<lambda>t. case t of
            None \<Rightarrow> move_vmasks is s
          | Some j \<Rightarrow> move_vmasks is
              (True, upd_instr i setNOP (upd_instr j (\<lambda>d. d\<lparr>m_imu := m_imu ins\<rparr>) P)))))"

definition compress_vmask :: "nat \<Rightarrow> program \<Rightarrow> (bool \<times> program) res" where
  "compress_vmask b P = move_vmasks (function_range P b) (False, P)"

section \<open>Every target is marked\<close>

text \<open>What packing relies on: no jump of the function leads to an instruction without the mark.\<close>

definition target_ok :: "nat list \<Rightarrow> program \<Rightarrow> nat \<Rightarrow> bool" where
  "target_ok rng P i \<longleftrightarrow> (\<forall>t. ctl_oc (m_control (instr_at P i)) > 0 \<longrightarrow>
     ctl_jumpInstruction (m_control (instr_at P i)) = Some t \<longrightarrow>
     t \<in> set rng \<and> m_jumpDestination (instr_at P t) \<and> \<not> ctl_jumpAfter (m_control (instr_at P i)))"

lemma dest_sel [simp]:
  "m_control (unmark_dest ins) = m_control ins" "m_control (mark_dest ins) = m_control ins" "m_jumpDestination (mark_dest ins)"
  "m_jumpDestination (clear_after (set_target t ins)) = m_jumpDestination ins"
  "m_jumpDestination (set_target t ins) = m_jumpDestination ins"
  "m_jumpDestination (reverse_branch t oc ins) = m_jumpDestination ins" "m_jumpDestination (setNOP ins) = m_jumpDestination ins"
  "m_control (clear_after (set_target t ins)) = (m_control ins)\<lparr>ctl_jumpInstruction := t, ctl_jumpAfter := False\<rparr>"
  "m_control (set_target t ins) = (m_control ins)\<lparr>ctl_jumpInstruction := t\<rparr>"
  "m_control (reverse_branch t oc ins) = (m_control ins)\<lparr>ctl_oc := oc, ctl_jumpInstruction := t\<rparr>"
  "m_control (setNOP ins) = (m_control ins)\<lparr>ctl_oc := -1\<rparr>"
  by (simp_all add: unmark_dest_def mark_dest_def clear_after_def set_target_def reverse_branch_def setNOP_def)

lemma skip_nops_in: "skip_nops P e t rest = Inr u \<Longrightarrow> u \<in> set (upto_incl e (t # rest))"
proof (induction P e t rest rule: skip_nops.induct)
  case (1 P e t)
  then show ?case by (auto simp: upto_incl_def split: if_splits)
next
  case (2 P e t v us)
  show ?case
  proof (cases "t = e \<or> \<not> isNull (instr_at P t)")
    case True
    with "2.prems" show ?thesis by (auto simp: upto_incl_def Let_def)
  next
    case False
    with "2.IH" "2.prems" have "u \<in> set (upto_incl e (v # us))" by simp
    with False show ?thesis by (auto simp: upto_incl_def Let_def split: if_splits)
  qed
qed

lemma settle_target_in:
  assumes d: "distinct (p_order P)" and e: "e \<in> set (instr_range P b e)" and t: "t \<in> set (instr_range P b e)"
    and s: "settle_target P e after t = Inr u"
  shows "u \<in> set (instr_range P b e)"
proof -
  from instr_range_tail [OF d e t] obtain as bs where
    rng: "instr_range P b e = as @ t # bs" "instr_range P t e = t # bs" by blast
  have "t \<in> set (p_order P)" using t
    unfolding instr_range_def upto_incl_def by (auto simp: Let_def split: if_splits dest!: set_takeWhileD set_dropWhileD)
  then obtain xs ys where o: "p_order P = xs @ t # ys" "t \<notin> set xs" using split_list_first by fastforce
  then have rest: "items_after (p_order P) t = ys" by (simp add: items_after_def dropWhile_split)
  have ir: "instr_range P t e = upto_incl e (t # ys)" using o by (simp add: instr_range_def dropWhile_split)
  have "u \<in> set (upto_incl e (t # ys))"
  proof (cases "after \<and> t \<noteq> e")
    case True
    with s rest obtain v vs where v: "ys = v # vs" "skip_nops P e v vs = Inr u"
      by (auto simp: settle_target_def split: list.splits)
    from skip_nops_in [OF v(2)] True v(1) show ?thesis by (auto simp: upto_incl_def Let_def split: if_splits)
  next
    case False
    then show ?thesis using s rest skip_nops_in
      by (cases after) (auto simp: settle_target_def upto_incl_def Let_def)
  qed
  with ir rng show ?thesis by auto
qed

text \<open>Marks stay, and so do the other instructions.\<close>

definition marks_kept :: "nat set \<Rightarrow> program \<Rightarrow> program \<Rightarrow> bool" where
  "marks_kept X P Q \<longleftrightarrow> p_order Q = p_order P \<and> length (p_code Q) = length (p_code P) \<and>
     (\<forall>i. i \<notin> X \<longrightarrow> m_control (instr_at Q i) = m_control (instr_at P i)) \<and>
     (\<forall>j. m_jumpDestination (instr_at P j) \<longrightarrow> m_jumpDestination (instr_at Q j))"

lemma marks_kept_trans: "marks_kept X P Q \<Longrightarrow> marks_kept Y Q R \<Longrightarrow> marks_kept (X \<union> Y) P R"
  by (simp add: marks_kept_def)

lemma target_ok_kept: "target_ok rng P i \<Longrightarrow> marks_kept X P Q \<Longrightarrow> i \<notin> X \<Longrightarrow> target_ok rng Q i"
  by (simp add: target_ok_def marks_kept_def)

lemma settle_jumps_marks:
  assumes "settle_jumps e is P = Inr Q" "distinct is" "set is \<subseteq> set (instr_range P b e)"
    and "distinct (p_order P)" "e \<in> set (instr_range P b e)" "set (instr_range P b e) \<subseteq> {..<length (p_code P)}"
    and "\<forall>i\<in>set is. \<forall>t. ctl_oc (m_control (instr_at P i)) > 0 \<longrightarrow>
       ctl_jumpInstruction (m_control (instr_at P i)) = Some t \<longrightarrow> t \<in> set (instr_range P b e)"
  shows "marks_kept (set is) P Q \<and> (\<forall>i\<in>set is. target_ok (instr_range P b e) Q i)"
  using assms
proof (induction "is" arbitrary: P)
  case Nil
  then show ?case by (simp add: marks_kept_def)
next
  case (Cons i "is")
  let ?c = "m_control (instr_at P i)" and ?rng = "instr_range P b e"
  show ?case
  proof (cases "ctl_oc ?c > 0 \<and> ctl_jumpInstruction ?c \<noteq> None")
    case False
    with Cons.prems(1) have s: "settle_jumps e is P = Inr Q" by (auto simp: Let_def split: option.splits)
    have IH: "marks_kept (set is) P Q" "\<forall>i\<in>set is. target_ok ?rng Q i"
      using Cons.IH [OF s] Cons.prems(2-7) by simp_all
    have "target_ok ?rng P i" using False by (auto simp: target_ok_def)
    with IH(1) Cons.prems(2) have "target_ok ?rng Q i" by (auto elim: target_ok_kept)
    with IH show ?thesis by (auto simp: marks_kept_def)
  next
    case True
    then obtain t where t: "ctl_oc ?c > 0" "ctl_jumpInstruction ?c = Some t" by auto
    with Cons.prems(1) obtain u where u: "settle_target P e (ctl_jumpAfter ?c) t = Inr u"
      "settle_jumps e is (upd_instr u mark_dest (upd_instr i (\<lambda>ins. clear_after (set_target (Some u) ins)) P)) = Inr Q"
      by (auto simp: Let_def res_bind_eq_Inr_iff)
    let ?P = "upd_instr u mark_dest (upd_instr i (\<lambda>ins. clear_after (set_target (Some u) ins)) P)"
    have tr: "t \<in> set ?rng" using Cons.prems(7) t by simp
    have ur: "u \<in> set ?rng" using settle_target_in [OF Cons.prems(4,5) tr u(1)] .
    have lens: "i < length (p_code P)" "u < length (p_code P)" using Cons.prems(3,6) ur by auto
    have same: "instr_range ?P b e = ?rng" by (simp add: instr_range_def)
    have k: "marks_kept {i} P ?P" using lens by (auto simp: marks_kept_def)
    have ok: "target_ok ?rng ?P i" using lens ur by (auto simp: target_ok_def)
    have ctl: "m_control (instr_at ?P j) = m_control (instr_at P j)" if "j \<noteq> i" for j using that by simp
    have IH: "marks_kept (set is) ?P Q \<and> (\<forall>i\<in>set is. target_ok (instr_range ?P b e) Q i)"
    proof (rule Cons.IH [OF u(2)], unfold same)
      show "\<forall>j\<in>set is. \<forall>t. ctl_oc (m_control (instr_at ?P j)) > 0 \<longrightarrow>
         ctl_jumpInstruction (m_control (instr_at ?P j)) = Some t \<longrightarrow> t \<in> set ?rng"
        using Cons.prems(2,7) ctl by (metis distinct.simps(2) list.set_intros(2))
    qed (use Cons.prems(2-6) in simp_all)
    with k have mk: "marks_kept (set (i # is)) P Q" using marks_kept_trans [of "{i}" P ?P "set is" Q] by simp
    have "target_ok ?rng Q i" using target_ok_kept [OF ok, of "set is" Q] IH Cons.prems(2) by simp
    with IH mk show ?thesis unfolding same by simp
  qed
qed

lemma getBranch_Some:
  "getBranch P ins = Inr (Some j) \<Longrightarrow> ctl_oc (m_control ins) > 0 \<and> ctl_jumpInstruction (m_control ins) \<noteq> None"
  by (auto simp: getBranch_def Let_def res_bind_eq_Inr_iff deref_def res_of_option_def split: if_splits option.splits)

lemma reverse_branches_marks:
  "reverse_branches is s = Inr (rc, Q) \<Longrightarrow> set is \<subseteq> set rng \<Longrightarrow> \<forall>i\<in>set rng. target_ok rng (snd s) i \<Longrightarrow>
   (\<forall>i\<in>set rng. target_ok rng Q i)"
proof (induction "is" s rule: reverse_branches.induct)
  case (1 s)
  then show ?case by simp
next
  case (2 i s)
  then show ?case by (auto simp: res_bind_eq_Inr_iff)
next
  case (3 i n "is" s)
  let ?P = "snd s"
  let ?c = "m_control (instr_at ?P n)"
  from "3.prems"(1) obtain branch where br: "getBranch ?P (instr_at ?P i) = Inr branch"
    by (auto simp: Let_def res_bind_eq_Inr_iff)
  note e0 = "3.prems"(1) [unfolded reverse_branches.simps Let_def br res_bind_simps]
  show ?case
  proof (cases "branch \<noteq> None \<and> branch = nonnull_or_last ?P is \<and> ctl_oc ?c = OPCODE_JUMP")
    case False
    note e0 [unfolded if_not_P [OF False]]
    then have "reverse_branches (n # is) s = Inr (rc, Q)" .
    from "3.IH"(2) [OF refl refl False this] "3.prems"(2,3) show ?thesis by simp
  next
    case True
    note e0 [unfolded if_P [OF True]]
    then obtain oc where oc: "reverseLogic (ctl_oc (m_control (instr_at ?P i))) = Inr oc"
      "reverse_branches (n # is) (True, upd_instr n setNOP (upd_instr i (reverse_branch (ctl_jumpInstruction ?c) oc) ?P)) = Inr (rc, Q)"
      by (auto simp: Let_def res_bind_eq_Inr_iff)
    let ?Q = "upd_instr n setNOP (upd_instr i (reverse_branch (ctl_jumpInstruction ?c) oc) ?P)"
    have c: "ctl_oc (m_control (instr_at ?P i)) > 0" "ctl_jumpInstruction (m_control (instr_at ?P i)) \<noteq> None"
      using br True getBranch_Some [of ?P "instr_at ?P i" "the branch"] by (cases branch; simp)+
    have ni: "n \<in> set rng" "i \<in> set rng" using "3.prems"(2) by simp_all
    have "target_ok rng ?Q j" if j: "j \<in> set rng" for j
    proof -
      have n: "target_ok rng ?P n" and i: "target_ok rng ?P i" and jj: "target_ok rng ?P j" using "3.prems"(3) ni j by simp_all
      have "ctl_oc ?c > 0" using True by simp
      have dest: "m_jumpDestination (instr_at ?Q k) = m_jumpDestination (instr_at ?P k)" for k by simp
      consider "j = n" "n < length (p_code ?P)" | "j \<noteq> n \<or> \<not> n < length (p_code ?P)" "j = i" "i < length (p_code ?P)"
        | "m_control (instr_at ?Q j) = m_control (instr_at ?P j)"
        by (cases "j = n"; cases "j = i"; cases "n < length (p_code ?P)"; cases "i < length (p_code ?P)") auto
      then show ?thesis
      proof cases
        case 1
        then show ?thesis by (simp add: target_ok_def)
      next
        case 2
        then have eq: "m_control (instr_at ?Q j) = (m_control (instr_at ?P i))\<lparr>ctl_oc := oc, ctl_jumpInstruction := ctl_jumpInstruction ?c\<rparr>"
          by auto
        have "\<not> ctl_jumpAfter (m_control (instr_at ?P i))" using i c by (auto simp: target_ok_def)
        with n \<open>ctl_oc ?c > 0\<close> show ?thesis unfolding target_ok_def dest eq by simp
      next
        case 3
        with jj show ?thesis unfolding target_ok_def dest 3 by simp
      qed
    qed
    with "3.IH"(1) [OF refl refl True oc(2)] "3.prems"(2) show ?thesis by simp
  qed
qed

lemma chain_jumps_marks:
  "chain_jumps is s = Inr (rc, Q) \<Longrightarrow> set is \<subseteq> set rng \<Longrightarrow> \<forall>i\<in>set rng. target_ok rng (snd s) i \<Longrightarrow>
   (\<forall>i\<in>set rng. target_ok rng Q i)"
proof (induction "is" arbitrary: s)
  case Nil
  then show ?case by simp
next
  case (Cons i "is")
  let ?P = "snd s"
  let ?c = "m_control (instr_at ?P i)"
  show ?case
  proof (cases "ctl_oc ?c = OPCODE_JUMP \<and> (\<exists>t. ctl_jumpInstruction ?c = Some t \<and> ctl_oc (m_control (instr_at ?P t)) = OPCODE_JUMP)")
    case False
    with Cons.prems(1) have "chain_jumps is s = Inr (rc, Q)"
      by (auto simp: Let_def res_bind_eq_Inr_iff deref_def res_of_option_def split: if_splits option.splits)
    with Cons show ?thesis by simp
  next
    case True
    then obtain t where t: "ctl_oc ?c = OPCODE_JUMP" "ctl_jumpInstruction ?c = Some t" "ctl_oc (m_control (instr_at ?P t)) = OPCODE_JUMP"
      by blast
    let ?d = "m_control (instr_at ?P t)"
    let ?Q = "upd_instr i (set_target (ctl_jumpInstruction ?d)) ?P"
    have s: "chain_jumps is (True, ?Q) = Inr (rc, Q)" using Cons.prems(1) t by (simp add: Let_def)
    have i: "i \<in> set rng" "target_ok rng ?P i" using Cons.prems(2,3) by simp_all
    then have tr: "t \<in> set rng" "\<not> ctl_jumpAfter ?c" using t by (auto simp: target_ok_def)
    then have tt: "target_ok rng ?P t" using Cons.prems(3) by simp
    have "target_ok rng ?Q j" if j: "j \<in> set rng" for j
    proof (cases "j = i \<and> i < length (p_code ?P)")
      case True
      with tt tr(2) t(3) show ?thesis by (auto simp: target_ok_def)
    next
      case False
      with j Cons.prems(3) show ?thesis by (auto simp: target_ok_def)
    qed
    with Cons.IH [OF s] Cons.prems(2) show ?thesis by simp
  qed
qed

text \<open>The first step neither adds jumps nor changes targets, and clears the marks.\<close>

lemma drop_jumps_control:
  "drop_jumps is s = (rc, Q) \<Longrightarrow> p_order Q = p_order (snd s) \<and> length (p_code Q) = length (p_code (snd s)) \<and>
     (\<forall>i. ctl_jumpInstruction (m_control (instr_at Q i)) = ctl_jumpInstruction (m_control (instr_at (snd s) i)) \<and>
       (0 < ctl_oc (m_control (instr_at Q i)) \<longrightarrow> 0 < ctl_oc (m_control (instr_at (snd s) i))))"
proof (induction "is" arbitrary: s)
  case (Cons i "is")
  obtain rc' P where s: "drop_jumps is (rc', P) = (rc, Q)" "P = upd_instr i unmark_dest (snd s) \<or>
      P = upd_instr i setNOP (upd_instr i unmark_dest (snd s))"
    using Cons.prems by (auto simp: Let_def split: if_splits)
  from s(2) have "p_order P = p_order (snd s) \<and> length (p_code P) = length (p_code (snd s)) \<and>
     (\<forall>i. ctl_jumpInstruction (m_control (instr_at P i)) = ctl_jumpInstruction (m_control (instr_at (snd s) i)) \<and>
       (0 < ctl_oc (m_control (instr_at P i)) \<longrightarrow> 0 < ctl_oc (m_control (instr_at (snd s) i))))"
    by (elim disjE) simp_all
  with Cons.IH [OF s(1)] show ?case by simp
qed simp

text \<open>
  C20: After \<open>compress_jump\<close> every jump of the function leads to an instruction of the function that carries
  the mark \<open>m_jumpDestination\<close>, and none of them means the instruction behind its target any more. This is
  what packing and the propagation of constants rely on when they take an unmarked instruction for one
  that is only reached from the instruction in front of it.
\<close>

theorem compress_jump_marks:
  assumes r: "compress_jump b P = Inr (rc, Q)" and d: "distinct (p_order P)"
    and e: "GetFunctionEnd P b \<in> set (function_range P b)" and c: "set (function_range P b) \<subseteq> {..<length (p_code P)}"
    and t: "\<forall>i\<in>set (function_range P b). \<forall>t. ctl_oc (m_control (instr_at P i)) > 0 \<longrightarrow>
       ctl_jumpInstruction (m_control (instr_at P i)) = Some t \<longrightarrow> t \<in> set (function_range P b)"
  shows "\<forall>i\<in>set (function_range P b). \<forall>t. ctl_oc (m_control (instr_at Q i)) > 0 \<longrightarrow>
     ctl_jumpInstruction (m_control (instr_at Q i)) = Some t \<longrightarrow>
     t \<in> set (function_range P b) \<and> m_jumpDestination (instr_at Q t) \<and> \<not> ctl_jumpAfter (m_control (instr_at Q i))"
proof -
  let ?rng = "function_range P b" and ?e = "GetFunctionEnd P b"
  obtain rc1 P1 where 1: "drop_jumps ?rng (False, P) = (rc1, P1)" by fastforce
  with r obtain P2 rc3 P3 where 2: "settle_jumps ?e ?rng P1 = Inr P2" and 3: "reverse_branches ?rng (rc1, P2) = Inr (rc3, P3)"
    and 4: "chain_jumps ?rng (rc3, P3) = Inr (rc, Q)"
    by (auto simp: compress_jump_def Let_def res_bind_eq_Inr_iff)
  note k = drop_jumps_control [OF 1, simplified]
  have rng: "instr_range P1 b ?e = ?rng" using k by (simp add: function_range_def instr_range_def)
  have dr: "distinct ?rng" using d
    unfolding function_range_def instr_range_def upto_incl_def by (auto simp: Let_def dest!: set_takeWhileD)
  have m: "marks_kept (set ?rng) P1 P2 \<and> (\<forall>i\<in>set ?rng. target_ok ?rng P2 i)"
    using settle_jumps_marks [OF 2 dr, of b] k rng d e c t by simp
  have "\<forall>i\<in>set ?rng. target_ok ?rng Q i"
    using chain_jumps_marks [OF 4 subset_refl] reverse_branches_marks [OF 3 subset_refl] m by simp
  then show ?thesis unfolding target_ok_def by blast
qed

text \<open>A loop: a branch back behind the first instruction, with a NOP in front of the target.\<close>

definition back_program :: program where
  "back_program = \<lparr>p_code =
     [createIMU IOPCODE_ADD (Some IMU_Zero) (Some (IMU_Constant 5)) (Some (IMU_Integer 2)) new_cInstruction,
      new_cInstruction,
      createIMU IOPCODE_SUB (Some (IMU_Integer 2)) (Some (IMU_Constant 1)) (Some (IMU_Integer 2)) new_cInstruction,
      createConditionalJump OPCODE_JUMP_NE IOPCODE_SUB (Some (IMU_Integer 2)) (Some IMU_Zero) None (Some 0) True
        new_cInstruction,
      createUnconditionalJump OPCODE_RETURN None False new_cInstruction],
     p_order = [0, 1, 2, 3, 4], p_funcs = []\<rparr>"

theorem compress_jump_marks_witness:
  "\<exists>Q. compress_jump 0 back_program = Inr (False, Q) \<and> ctl_jumpInstruction (m_control (instr_at Q 3)) = Some 2 \<and>
     m_jumpDestination (instr_at Q 2)"
proof -
  have f: "function_range back_program 0 = [0, 1, 2, 3, 4]" "GetFunctionEnd back_program 0 = 4" by code_simp+
  have "(case compress_jump 0 back_program of Inr (rc, Q) \<Rightarrow> \<not> rc \<and> ctl_oc (m_control (instr_at Q 3)) > 0 \<and>
      ctl_jumpInstruction (m_control (instr_at Q 3)) = Some 2 | _ \<Rightarrow> False)" by code_simp
  then obtain Q where r: "compress_jump 0 back_program = Inr (False, Q)" "ctl_oc (m_control (instr_at Q 3)) > 0"
    "ctl_jumpInstruction (m_control (instr_at Q 3)) = Some 2"
    by (auto split: sum.splits)
  have ctl: "list_all (\<lambda>i. \<forall>t\<in>set_option (ctl_jumpInstruction (m_control (instr_at back_program i))). t = 0) [0, 1, 2, 3, 4]"
    by code_simp
  then have "\<forall>i\<in>set (function_range back_program 0). \<forall>t. ctl_oc (m_control (instr_at back_program i)) > 0 \<longrightarrow>
       ctl_jumpInstruction (m_control (instr_at back_program i)) = Some t \<longrightarrow> t \<in> set (function_range back_program 0)"
    unfolding f list_all_iff by auto
  from compress_jump_marks [OF r(1) _ _ _ this, unfolded f] r(2,3)
  have "m_jumpDestination (instr_at Q 2)" by (auto simp: back_program_def)
  with r show ?thesis by blast
qed

section \<open>Where the passes change the program\<close>

text \<open>An unconditional jump to itself is a jump to a jump: the pass reports a change each time.\<close>

definition spin_program :: program where
  "spin_program = \<lparr>p_code =
     [createIMU IOPCODE_ADD (Some IMU_Zero) (Some (IMU_Constant 5)) (Some (IMU_Integer 2)) new_cInstruction,
      mark_dest (createUnconditionalJump OPCODE_JUMP (Some 1) False new_cInstruction),
      createUnconditionalJump OPCODE_RETURN None False new_cInstruction],
     p_order = [0, 1, 2], p_funcs = []\<rparr>"

lemma spin_step: "compress_jump 0 spin_program = Inr (True, spin_program)"
  by code_simp

text \<open>
  C27: The compiler does not return for a function with an endless loop that has an empty body: for a jump
  to itself \<open>compress_jump\<close> reports a change and leaves the program as it is, and \<open>Optimize\<close> calls it until
  it reports no change.
\<close>

theorem compress_jumps_diverges:
  "compress_jumps 0 spin_program = None"
proof -
  let ?s = "Inr (True, spin_program) :: (bool \<times> program) res"
  have "((\<lambda>s. res_bind s (\<lambda>(_, Q). compress_jump 0 Q)) ^^ k) ?s = ?s" for k
    by (induction k) (simp_all add: spin_step)
  then have "\<not> (\<exists>k. \<not> jump_again (((\<lambda>s. res_bind s (\<lambda>(_, Q). compress_jump 0 Q)) ^^ k) ?s))" by (simp add: jump_again_def)
  then show ?thesis unfolding compress_jumps_def while_option_def spin_step by simp
qed

text \<open>
  \<open>if (n != 0) goto 4; 3: goto 5; 4: n = 1; 5: return\<close>, and in front of it a branch to the jump at 3.
\<close>

definition over_program :: program where
  "over_program = \<lparr>p_code =
     [createIMU IOPCODE_ADD (Some IMU_Zero) (Some (IMU_Constant 5)) (Some (IMU_Integer 2)) new_cInstruction,
      createConditionalJump OPCODE_JUMP_LT IOPCODE_SUB (Some (IMU_Integer 2)) (Some IMU_Zero) None (Some 3) False new_cInstruction,
      createConditionalJump OPCODE_JUMP_NE IOPCODE_SUB (Some (IMU_Integer 2)) (Some IMU_Zero) None (Some 4) False new_cInstruction,
      createUnconditionalJump OPCODE_JUMP (Some 5) False new_cInstruction,
      createIMU IOPCODE_ADD (Some IMU_Zero) (Some (IMU_Constant 1)) (Some (IMU_Integer 2)) new_cInstruction,
      createUnconditionalJump OPCODE_RETURN None False new_cInstruction],
     p_order = [0, 1, 2, 3, 4, 5], p_funcs = []\<rparr>"


text \<open>\<open>VMASK = n; { m = 1 | a = b * c }; d = b * c\<close> with vectors \<open>a\<close>, \<open>b\<close>, \<open>c\<close>, \<open>d\<close>, the second instruction packed.\<close>

definition mask_mul :: "nat \<Rightarrow> Instruction_alu" where
  "mask_mul y = \<lparr>alu_oc = 12, alu_which = eMuOpcodeDefAlu1, alu_x1 = Some (MU_Storage 5 0 False),
     alu_x2 = Some (MU_Storage 6 0 False), alu_y = Some (MU_Storage y 0 False), alu_xacc = None\<rparr>"

definition mask_program :: program where
  "mask_program = \<lparr>p_code =
     [createIMU IOPCODE_ADD (Some (IMU_Integer 2)) (Some IMU_Zero) (Some IMU_Lane) new_cInstruction,
      createIMU IOPCODE_ADD (Some IMU_Zero) (Some (IMU_Constant 1)) (Some (IMU_Integer 3)) new_cInstruction\<lparr>m_alu1 := mask_mul 4\<rparr>,
      new_cInstruction\<lparr>m_alu1 := mask_mul 7\<rparr>,
      createUnconditionalJump OPCODE_RETURN None False new_cInstruction],
     p_order = [0, 1, 2, 3], p_funcs = []\<rparr>"

text \<open>
  \<open>compress_vmask\<close> moves an assignment of the lane mask past vector operations. It looks for a vector
  instruction with a free scalar slot and walks over those whose scalar slot is taken, which then run
  with the old mask: of two vector operations behind the assignment the first is executed before it.
\<close>

theorem compress_vmask_skips_vector:
  "\<exists>Q. compress_vmask 0 mask_program = Inr (True, Q) \<and> isNull (instr_at Q 0) \<and>
     instr_at Q 1 = instr_at mask_program 1 \<and> alu_oc (m_alu1 (instr_at Q 1)) > 0 \<and>
     m_imu (instr_at Q 2) = m_imu (instr_at mask_program 0)"
proof -
  have "(case compress_vmask 0 mask_program of Inr (rc, Q) \<Rightarrow> rc \<and> isNull (instr_at Q 0) \<and>
     instr_at Q 1 = instr_at mask_program 1 \<and> alu_oc (m_alu1 (instr_at Q 1)) > 0 \<and>
     m_imu (instr_at Q 2) = m_imu (instr_at mask_program 0) | _ \<Rightarrow> False)"
    by code_simp
  then show ?thesis by (auto split: sum.splits)
qed

end
