(* ===== verification/Optimize.thy ===== *)
theory Optimize
  imports Fuse Jumps
begin

text \<open>
  The order of the passes: \<open>Optimize\<close> of \<open>SW/compiler/instruction.cpp\<close>, with \<open>resolveConstantConflict\<close>, which
  splits operations with two operands behind constant pointers, and the removal of empty first instructions.
  A pass that may not return gives \<open>None\<close> then, and so does everything behind it.
\<close>

section \<open>Two constant pointers\<close>

definition const_pointer :: "idents \<Rightarrow> cTerm \<Rightarrow> bool" where
  "const_pointer I t = (case t of
       MU_PointerWithoutIndex b _ \<Rightarrow> m_isConst (ident_at I b)
     | MU_PointerWithIndex b _ _ \<Rightarrow> m_isConst (ident_at I b)
     | _ \<Rightarrow> False)"

text \<open>A new variable is the last one of the outermost block of its function.\<close>

fun add_ids :: "nat list \<Rightarrow> cAstBlock \<Rightarrow> cAstBlock" where
  "add_ids new (AstBlock xs cs) = AstBlock (map_option (\<lambda>l. l @ new) xs) cs"

definition add_variable :: "nat \<Rightarrow> nat \<Rightarrow> program \<Rightarrow> program" where
  "add_variable f t P = P\<lparr>p_funcs := (p_funcs P)[f := (p_funcs P ! f)\<lparr>fn_block := add_ids [t] (fn_block (p_funcs P ! f))\<rparr>]\<rparr>"

definition conflict :: "idents \<Rightarrow> Instruction_alu \<Rightarrow> cTerm option res" where
  "conflict I a =
     (if alu_oc a \<le> 0 then Inr None
      else res_bind (deref (alu_x1 a)) (\<lambda>x1.
        if \<not> const_pointer I x1 then Inr None
        else res_bind (deref (alu_x2 a)) (\<lambda>x2. Inr (if const_pointer I x2 then Some x2 else None))))"

text \<open>
  The instruction becomes an assignment of its second operand to a new variable, and a copy of it behind
  that takes the variable. (The copy has the whole of the instruction, and the loop, which comes to it next,
  leaves it.)
\<close>

fun split_conflict :: "nat \<Rightarrow> nat \<Rightarrow> counted \<Rightarrow> cTerm option \<Rightarrow> counted res" where
  "split_conflict f i (P, I) None = Inr (P, I)"
| "split_conflict f i (P, I) (Some x2) =
     (let ins = instr_at P i; t = MU_Storage (length I) 0 False;
          ins2 = ins\<lparr>m_alu1 := (m_alu1 ins)\<lparr>alu_x2 := Some t\<rparr>\<rparr> in
      res_bind (new_cIdentifierPrivate True None (mu_getVectorWidth I x2)) (\<lambda>idn.
      res_bind (createMU OPCODE_ASSIGN x2 MU_Null (Some t) None ins) (\<lambda>ins1.
        Inr ((add_variable f (length I) P)
               \<lparr>p_code := (p_code P)[i := ins1] @ [ins2], p_order := list_insert_after (Some i) [length (p_code P)] (p_order P)\<rparr>,
             I @ [idn]))))"

fun resolve_at :: "nat \<Rightarrow> nat \<Rightarrow> counted \<Rightarrow> counted res" where
  "resolve_at f i (P, I) = res_bind (conflict I (m_alu1 (instr_at P i))) (split_conflict f i (P, I))"

fun resolve_pass :: "nat \<Rightarrow> nat list \<Rightarrow> counted \<Rightarrow> counted res" where
  "resolve_pass f [] s = Inr s"
| "resolve_pass f (i # is) s = res_bind (resolve_at f i s) (resolve_pass f is)"

definition resolveConstantConflict :: "nat \<Rightarrow> counted \<Rightarrow> counted res" where
  "resolveConstantConflict b s =
     res_bind (deref (m_beginFunc (instr_at (fst s) b))) (\<lambda>f. resolve_pass f (function_range (fst s) b) s)"

section \<open>Loops of passes\<close>

definition pass_bind :: "'a res option \<Rightarrow> ('a \<Rightarrow> 'b res option) \<Rightarrow> 'b res option" where
  "pass_bind r f = (case r of None \<Rightarrow> None | Some (Inl e) \<Rightarrow> Some (Inl e) | Some (Inr a) \<Rightarrow> f a)"

lemma pass_bind_simps [simp]:
  "pass_bind None f = None" "pass_bind (Some (Inl e)) f = Some (Inl e)" "pass_bind (Some (Inr a)) f = f a"
  by (simp_all add: pass_bind_def)

text \<open>\<open>while(compress_jump(begin)) cont=true;\<close>\<close>

definition tidy :: "nat \<Rightarrow> program \<Rightarrow> (bool \<times> program) res option" where
  "tidy b P = pass_bind (compress_jumps b P) (\<lambda>(_, Q). Some (Inr (jump_again (compress_jump b P), Q)))"

definition subst_round :: "idents \<Rightarrow> nat \<Rightarrow> program \<Rightarrow> (bool \<times> program) res option" where
  "subst_round I b P =
     pass_bind (tidy b P) (\<lambda>(c1, P1). pass_bind (Some (substituteAssignment True I b P1)) (\<lambda>(c2, P2).
     pass_bind (tidy b P2) (\<lambda>(c3, P3). pass_bind (Some (substituteAssignment False I b P3)) (\<lambda>(c4, P4).
       Some (Inr (c1 \<or> c2 \<or> c3 \<or> c4, P4))))))"

definition fold_loop_round :: "(nat \<Rightarrow> int) \<Rightarrow> idents \<Rightarrow> nat \<Rightarrow> program \<Rightarrow> (bool \<times> program) res option" where
  "fold_loop_round objaddr I b P =
     pass_bind (tidy b P) (\<lambda>(c1, P1). pass_bind (constantFolding True objaddr I b P1) (\<lambda>(c2, P2).
     pass_bind (tidy b P2) (\<lambda>(c3, P3). pass_bind (constantFolding False objaddr I b P3) (\<lambda>(c4, P4).
       Some (Inr (c1 \<or> c2 \<or> c3 \<or> c4, P4))))))"

definition fm_round :: "(nat \<Rightarrow> int) \<Rightarrow> nat \<Rightarrow> counted \<Rightarrow> (bool \<times> counted) res option" where
  "fm_round objaddr b = (\<lambda>(P, I). pass_bind (tidy b P) (\<lambda>(c1, P1).
     pass_bind (Some (fm_int objaddr b (P1, I))) (\<lambda>(c2, s). Some (Inr (c1 \<or> c2, s)))))"

partial_function (option) repeat_pass :: "('a \<Rightarrow> (bool \<times> 'a) res option) \<Rightarrow> 'a \<Rightarrow> 'a res option" where
  "repeat_pass f s = Option.bind (f s) (\<lambda>r. case r of
       Inl e \<Rightarrow> Some (Inl e)
     | Inr (cont, u) \<Rightarrow> if cont then repeat_pass f u else Some (Inr u))"

section \<open>The passes over one function, and over all\<close>

text \<open>A pass that leaves the identifiers alone.\<close>

definition on_program :: "(idents \<Rightarrow> program \<Rightarrow> program res option) \<Rightarrow> counted \<Rightarrow> counted res option" where
  "on_program f = (\<lambda>(P, I). pass_bind (f I P) (\<lambda>Q. Some (Inr (Q, I))))"

definition tidied :: "nat \<Rightarrow> counted \<Rightarrow> counted res option" where
  "tidied b = on_program (\<lambda>I P. pass_bind (tidy b P) (\<lambda>(_, Q). Some (Inr Q)))"

definition propagate :: "(nat \<Rightarrow> int) \<Rightarrow> nat \<Rightarrow> counted \<Rightarrow> counted res option" where
  "propagate objaddr b s =
     pass_bind (tidied b s) (\<lambda>s1. pass_bind (Some (fm_int objaddr b s1)) (\<lambda>(_, s2).
     pass_bind (tidied b s2) (\<lambda>s3. pass_bind (Some (resolveConstantConflict b s3)) (\<lambda>s4.
     pass_bind (on_program (\<lambda>I. repeat_pass (subst_round I b)) s4) (\<lambda>s5.
     on_program (\<lambda>I. repeat_pass (fold_loop_round objaddr I b)) s5)))))"

definition clean_up :: "bool \<Rightarrow> (nat \<Rightarrow> int) \<Rightarrow> nat \<Rightarrow> counted \<Rightarrow> counted res option" where
  "clean_up isfloat objaddr b s =
     pass_bind (tidied b s) (\<lambda>s1. pass_bind (on_program (\<lambda>I P. removeDeadCode P b) s1) (\<lambda>s2.
     pass_bind (tidied b s2) (\<lambda>s3. pass_bind (Some (findCommonExpression objaddr b s3)) (\<lambda>s4.
     pass_bind (if isfloat then repeat_pass (fm_round objaddr b) s4 else Some (Inr s4)) (tidied b)))))"

definition pack_up :: "nat \<Rightarrow> counted \<Rightarrow> counted res option" where
  "pack_up b = on_program (\<lambda>I P.
     pass_bind (compressFunction I b P) (\<lambda>P1. pass_bind (Some (compress_vmask b P1)) (\<lambda>(_, P2). Some (fm_post I b P2))))"

definition optimize_function :: "bool \<Rightarrow> (nat \<Rightarrow> int) \<Rightarrow> nat \<Rightarrow> counted \<Rightarrow> counted res option" where
  "optimize_function isfloat objaddr b s =
     pass_bind (pass_bind (propagate objaddr b s) (clean_up isfloat objaddr b)) (pack_up b)"

partial_function (option) optimize_from :: "bool \<Rightarrow> (nat \<Rightarrow> int) \<Rightarrow> nat option \<Rightarrow> counted \<Rightarrow> counted res option" where
  "optimize_from isfloat objaddr b s = (case b of
       None \<Rightarrow> Some (Inr s)
     | Some i \<Rightarrow> Option.bind (optimize_function isfloat objaddr i s) (\<lambda>r. case r of
         Inl e \<Rightarrow> Some (Inl e)
       | Inr t \<Rightarrow> optimize_from isfloat objaddr (next_of (fst t) (GetFunctionEnd (fst t) i)) t))"

text \<open>An empty first instruction of a function hands its mark and its label on to the next one and goes.\<close>

definition drop_first :: "nat \<Rightarrow> program \<Rightarrow> program" where
  "drop_first i P =
     (case next_of P i of
        None \<Rightarrow> P
      | Some j \<Rightarrow>
          let ins = instr_at P i in
          if m_beginFunc ins \<noteq> None \<and> isNull ins \<and> \<not> m_jumpDestination ins
          then remove_instr i (upd_instr j (\<lambda>n. setLabel (getLabel ins) (setBeginFunc (m_beginFunc ins) n)) P)
          else P)"

definition drop_firsts :: "program \<Rightarrow> program" where
  "drop_firsts P = fold drop_first (p_order P) P"

definition Optimize :: "bool \<Rightarrow> (nat \<Rightarrow> int) \<Rightarrow> counted \<Rightarrow> counted res option" where
  "Optimize isfloat objaddr s =
     pass_bind (optimize_from isfloat objaddr (case p_order (fst s) of [] \<Rightarrow> None | i # _ \<Rightarrow> Some i) s)
       (\<lambda>(P, I). Some (Inr (drop_firsts P, I)))"

section \<open>A loop that does not end\<close>

lemma repeat_pass_stuck:
  assumes "f s = Some (Inr (True, s))"
  shows "repeat_pass f s = None"
proof (cases "repeat_pass f s")
  case (Some y)
  have "f s \<noteq> Some (Inr (True, s))"
    by (rule repeat_pass.raw_induct [where P = "\<lambda>f s _. f s \<noteq> Some (Inr (True, s))", OF _ Some]) (auto simp: bind_eq_Some_conv)
  with assms show ?thesis by blast
qed

lemma tidy_settled: "compress_jump b P = Inr (False, Q) \<Longrightarrow> tidy b P = Some (Inr (False, Q))"
  by (simp add: tidy_def compress_jumps_def while_option_unfold jump_again_def)

text \<open>\<open>a = a; b = a; return\<close> with the privates \<open>a\<close> (3) and \<open>b\<close> (4).\<close>

definition self_ids :: idents where
  "self_ids = [blank_cIdentifier CResult, blank_cIdentifier CLane, blank_cIdentifier CInteger, blank_cIdentifier CPrivate,
     blank_cIdentifier CPrivate]"

definition self_program :: program where
  "self_program = \<lparr>p_code =
     [(assign_instr (word_term 3) (word_term 3))\<lparr>m_beginFunc := Some 0\<rparr>, assign_instr (word_term 4) (word_term 3),
      createUnconditionalJump OPCODE_RETURN None False new_cInstruction], p_order = [0, 1, 2],
     p_funcs = [\<lparr>fn_name = ''f'', fn_kernel = False, fn_block = AstBlock (Some [3, 4]) []\<rparr>]\<rparr>"

definition self_counted :: idents where
  "self_counted = [blank_cIdentifier CResult, blank_cIdentifier CLane, blank_cIdentifier CInteger,
     (blank_cIdentifier CPrivate)\<lparr>m_useCount := 2, m_defCount := 1\<rparr>, (blank_cIdentifier CPrivate)\<lparr>m_defCount := 1\<rparr>]"

definition self_numbered :: program where
  "self_numbered = number_range [0, 1, 2] self_program"

lemma self_steps:
  "compress_jump 0 self_program = Inr (False, self_program)"
  "fm_int objaddr 0 (self_program, self_ids) = Inr (False, (self_program, self_counted))"
  "resolveConstantConflict 0 (self_program, self_counted) = Inr (self_program, self_counted)"
  "substituteAssignment True self_counted 0 self_program = Inr (True, self_numbered)"
  "substituteAssignment True self_counted 0 self_numbered = Inr (True, self_numbered)"
  "substituteAssignment False self_counted 0 self_numbered = Inr (True, self_numbered)"
  "compress_jump 0 self_numbered = Inr (False, self_numbered)"
  by code_simp+

text \<open>
  C35: The compiler does not return on a function that assigns a variable to itself and reads it: the
  substitution replaces the variable by itself in the instruction behind and reports a change each time.
\<close>

theorem optimize_self_assignment_diverges:
  "optimize_function isfloat objaddr 0 (self_program, self_ids) = None"
proof -
  note t = tidy_settled [OF self_steps(1)] tidy_settled [OF self_steps(7)]
  have first: "subst_round self_counted 0 self_program = Some (Inr (True, self_numbered))"
    and more: "subst_round self_counted 0 self_numbered = Some (Inr (True, self_numbered))"
    by (simp_all add: subst_round_def t self_steps)
  have "repeat_pass (subst_round self_counted 0) self_program = repeat_pass (subst_round self_counted 0) self_numbered"
    by (subst repeat_pass.simps) (simp add: first)
  with repeat_pass_stuck [of "subst_round self_counted 0" self_numbered, OF more]
  have "repeat_pass (subst_round self_counted 0) self_program = None" by simp
  then show ?thesis by (simp add: optimize_function_def propagate_def tidied_def on_program_def t self_steps)
qed

section \<open>No conflicts are left\<close>

definition settled :: "idents \<Rightarrow> cInstruction \<Rightarrow> bool" where
  "settled I ins \<longleftrightarrow> (alu_oc (m_alu1 ins) > 0 \<longrightarrow>
     (\<forall>x1 x2. alu_x1 (m_alu1 ins) = Some x1 \<longrightarrow> alu_x2 (m_alu1 ins) = Some x2 \<longrightarrow> \<not> (const_pointer I x1 \<and> const_pointer I x2)))"

lemma settled_new [simp]: "settled I new_cInstruction"
  by (simp add: settled_def new_cInstruction_def empty_alu_def)

lemma conflict_cases:
  "conflict I (m_alu1 ins) = Inr None \<Longrightarrow> settled I ins"
  by (auto simp: conflict_def settled_def res_bind_eq_Inr_iff split: if_splits)

lemma assign_settled:
  assumes "createMU OPCODE_ASSIGN x MU_Null y None ins = Inr ins1"
  shows "settled I ins1"
proof -
  have "case GetMuOpcodeDef OPCODE_ASSIGN of Inr d \<Rightarrow> od_alu d \<noteq> eMuOpcodeDefAlu2 | Inl _ \<Rightarrow> False" by code_simp
  then obtain d where d: "GetMuOpcodeDef OPCODE_ASSIGN = Inr d" "od_alu d \<noteq> eMuOpcodeDefAlu2" by (auto split: sum.splits)
  with assms have "alu_x2 (m_alu1 ins1) = Some MU_Null"
    by (auto simp: createMU_def Let_def res_bind_eq_Inr_iff split: if_splits)
  then show ?thesis by (simp add: settled_def const_pointer_def)
qed

lemma const_pointer_new:
  assumes "new_cIdentifierPrivate True None w = Inr idn"
  shows "const_pointer (I @ [idn]) t = const_pointer I t"
proof -
  have "\<not> m_isConst idn" using assms
    by (auto simp: new_cIdentifierPrivate_def new_cIdentifierStorage_def new_cIdentifier_def res_bind_eq_Inr_iff
        blank_cIdentifier_def split: if_splits)
  then have "m_isConst (ident_at (I @ [idn]) b) = m_isConst (ident_at I b)" for b
    by (auto simp: ident_at_def nth_append blank_cIdentifier_def)
  then show ?thesis by (cases t) (simp_all add: const_pointer_def)
qed

definition settles :: "nat set \<Rightarrow> counted \<Rightarrow> counted \<Rightarrow> bool" where
  "settles K s u \<longleftrightarrow> (\<forall>t. const_pointer (snd u) t = const_pointer (snd s) t) \<and>
     length (p_code (fst s)) \<le> length (p_code (fst u)) \<and>
     (\<forall>k. k < length (p_code (fst s)) \<longrightarrow> k \<notin> K \<longrightarrow> instr_at (fst u) k = instr_at (fst s) k) \<and>
     (\<forall>k. k \<in> K \<or> length (p_code (fst s)) \<le> k \<longrightarrow> settled (snd u) (instr_at (fst u) k))"

lemma settled_cong: "\<forall>t. const_pointer J t = const_pointer I t \<Longrightarrow> settled J ins = settled I ins"
  by (simp add: settled_def)

lemma resolve_at_settles:
  assumes "resolve_at f i s = Inr u"
  shows "settles {i} s u"
proof -
  obtain P I where s: "s = (P, I)" by fastforce
  from assms s obtain c where c: "conflict I (m_alu1 (instr_at P i)) = Inr c" "split_conflict f i (P, I) c = Inr u"
    by (auto simp: res_bind_eq_Inr_iff)
  have out: "instr_at P k = new_cInstruction" if "length (p_code P) \<le> k" for k using that by (simp add: instr_at_def)
  show ?thesis
  proof (cases c)
    case None
    with c have u: "u = s" by (simp add: s)
    from c(1) None conflict_cases have "settled I (instr_at P i)" by blast
    with out show ?thesis unfolding u by (auto simp: settles_def s)
  next
    case (Some x2)
    let ?ins = "instr_at P i" and ?t = "MU_Storage (length I) 0 False"
    let ?ins2 = "?ins\<lparr>m_alu1 := (m_alu1 ?ins)\<lparr>alu_x2 := Some ?t\<rparr>\<rparr>"
    from c(2) Some obtain idn ins1 where n: "new_cIdentifierPrivate True None (mu_getVectorWidth I x2) = Inr idn"
        "createMU OPCODE_ASSIGN x2 MU_Null (Some ?t) None ?ins = Inr ins1"
        "u = ((add_variable f (length I) P)\<lparr>p_code := (p_code P)[i := ins1] @ [?ins2],
           p_order := list_insert_after (Some i) [length (p_code P)] (p_order P)\<rparr>, I @ [idn])"
      by (auto simp: Let_def res_bind_eq_Inr_iff)
    have sel: "snd u = I @ [idn]" "length (p_code (fst u)) = Suc (length (p_code P))" by (simp_all add: n(3))
    have at: "instr_at (fst u) k = (if k < length (p_code P) then (if k = i then ins1 else instr_at P k)
        else if k = length (p_code P) then ?ins2 else new_cInstruction)" for k
      by (auto simp: n(3) instr_at_def nth_append)
    have "settled I ?ins2" by (simp add: settled_def const_pointer_def)
    moreover have "settled I (instr_at P k)" if "length (p_code P) \<le> k" for k using out [OF that] by simp
    ultimately show ?thesis
      using assign_settled [OF n(2), of I] const_pointer_new [OF n(1), of I]
      by (auto simp: settles_def s at sel settled_cong [of "I @ [idn]" I])
  qed
qed

lemma settles_trans:
  assumes su: "settles K s u" and uv: "settles L u v"
  shows "settles (K \<union> L) s v"
proof -
  note su' = su [unfolded settles_def] and uv' = uv [unfolded settles_def]
  have "settled (snd v) (instr_at (fst v) k)" if "k \<in> K \<union> L \<or> length (p_code (fst s)) \<le> k" for k
  proof (cases "k \<in> L \<or> length (p_code (fst u)) \<le> k")
    case True
    with uv' show ?thesis by blast
  next
    case False
    then have "instr_at (fst v) k = instr_at (fst u) k" using uv' by simp
    moreover have "settled (snd u) (instr_at (fst u) k)" using su' that False by blast
    ultimately show ?thesis using uv' by (simp add: settled_def)
  qed
  moreover have "instr_at (fst v) k = instr_at (fst s) k" if "k < length (p_code (fst s))" "k \<notin> K \<union> L" for k
    using su' uv' that by (simp add: order_less_le_trans)
  ultimately show ?thesis using su' uv' unfolding settles_def by auto
qed

lemma resolve_pass_settles: "resolve_pass f ks s = Inr u \<Longrightarrow> settles (set ks) s u"
proof (induction ks arbitrary: s)
  case Nil
  then show ?case by (auto simp: settles_def instr_at_def)
next
  case (Cons i ks)
  then obtain t where t: "resolve_at f i s = Inr t" "resolve_pass f ks t = Inr u" by (auto simp: res_bind_eq_Inr_iff)
  from settles_trans [OF resolve_at_settles [OF t(1)] Cons.IH [OF t(2)]] show ?case by simp
qed

text \<open>
  C24: After \<open>resolveConstantConflict\<close> no operation of the function, and none of those it adds, has both operands
  behind constant pointers, which the machine could not fetch at once.
\<close>

theorem resolveConstantConflict_settles:
  assumes "resolveConstantConflict b (P, I) = Inr (Q, J)"
    and "k \<in> set (function_range P b) \<or> length (p_code P) \<le> k" and "alu_oc (m_alu1 (instr_at Q k)) > 0"
    and "alu_x1 (m_alu1 (instr_at Q k)) = Some x1" and "alu_x2 (m_alu1 (instr_at Q k)) = Some x2"
  shows "\<not> const_pointer J x1 \<or> \<not> const_pointer J x2"
proof -
  from assms(1) obtain f where "resolve_pass f (function_range P b) (P, I) = Inr (Q, J)"
    by (auto simp: resolveConstantConflict_def res_bind_eq_Inr_iff)
  from resolve_pass_settles [OF this] assms(2) have "settled J (instr_at Q k)" by (auto simp: settles_def)
  with assms(3-5) show ?thesis by (auto simp: settled_def)
qed


text \<open>\<open>y = p[0] * q[0]\<close> with constant pointers \<open>p\<close> (2) and \<open>q\<close> (3) and a private \<open>y\<close> (4).\<close>

definition pointer_ids :: idents where
  "pointer_ids = [blank_cIdentifier CResult, blank_cIdentifier CLane, (blank_cIdentifier CPointer)\<lparr>m_isConst := True\<rparr>,
     (blank_cIdentifier CPointer)\<lparr>m_isConst := True\<rparr>, blank_cIdentifier CPrivate]"

definition pointer_program :: program where
  "pointer_program = \<lparr>p_code =
     [new_cInstruction\<lparr>m_beginFunc := Some 0\<rparr>,
      alu_instr OPCODE_MUL 4 (MU_PointerWithoutIndex 2 0) (MU_PointerWithoutIndex 3 0),
      createUnconditionalJump OPCODE_RETURN None False new_cInstruction], p_order = [0, 1, 2],
     p_funcs = [\<lparr>fn_name = ''f'', fn_kernel = False, fn_block = AstBlock (Some [2, 3, 4]) []\<rparr>]\<rparr>"

theorem resolveConstantConflict_settles_witness:
  "\<exists>Q J. resolveConstantConflict 0 (pointer_program, pointer_ids) = Inr (Q, J) \<and> p_order Q = [0, 1, 3, 2] \<and>
     alu_oc (m_alu1 (instr_at Q 3)) = OPCODE_MUL \<and>
     (\<not> const_pointer J (MU_PointerWithoutIndex 2 0) \<or> \<not> const_pointer J (MU_Storage 5 0 False))"
proof -
  have "case resolveConstantConflict 0 (pointer_program, pointer_ids) of Inr (Q, J) \<Rightarrow> p_order Q = [0, 1, 3, 2] \<and>
     m_alu1 (instr_at Q 3) = m_alu1 (alu_instr OPCODE_MUL 4 (MU_PointerWithoutIndex 2 0) (MU_Storage 5 0 False)) | _ \<Rightarrow> False"
    by code_simp
  then obtain Q J where r: "resolveConstantConflict 0 (pointer_program, pointer_ids) = Inr (Q, J)" "p_order Q = [0, 1, 3, 2]"
    "m_alu1 (instr_at Q 3) = m_alu1 (alu_instr OPCODE_MUL 4 (MU_PointerWithoutIndex 2 0) (MU_Storage 5 0 False))"
    by (auto split: sum.splits)
  have l: "length (p_code pointer_program) = 3" by code_simp
  have a: "alu_oc (m_alu1 (instr_at Q 3)) = OPCODE_MUL" "alu_x1 (m_alu1 (instr_at Q 3)) = Some (MU_PointerWithoutIndex 2 0)"
    "alu_x2 (m_alu1 (instr_at Q 3)) = Some (MU_Storage 5 0 False)" by (simp_all add: r(3) alu_instr_def)
  with resolveConstantConflict_settles [OF r(1), of 3] l r show ?thesis by auto
qed


end
