(* ===== verification/FoldEnds.thy ===== *)
theory FoldEnds
  imports Fold Liveness
begin

text \<open>
  Constant folding returns: every round that changes something leaves less to fold. The measure counts the
  busy slots and what their operands are: a variable counts more than a constant, a constant more than nothing.
\<close>

section \<open>The measure\<close>

definition nothing :: "cTerm \<Rightarrow> bool" where
  "nothing t \<longleftrightarrow> t = MU_Null \<or> t = IMU_Null \<or> t = IMU_Zero"

definition variable :: "cTerm \<Rightarrow> bool" where
  "variable t \<longleftrightarrow> \<not> is_IMU_Const t \<and> \<not> is_MU_Const t \<and> \<not> nothing t"

definition term_weight :: "cTerm option \<Rightarrow> nat" where
  "term_weight x = (case x of None \<Rightarrow> 0 | Some t \<Rightarrow> if nothing t then 0 else if variable t then 2 else 1)"

definition alu_weight :: "Instruction_alu \<Rightarrow> nat" where
  "alu_weight a = (if alu_oc a \<le> 0 then 0 else 1 + term_weight (alu_x1 a) + term_weight (alu_x2 a))"

definition imu_weight :: "Instruction_ialu \<Rightarrow> nat" where
  "imu_weight u = (if imu_oc u \<le> 0 then 0 else 1 + term_weight (imu_x1 u) + term_weight (imu_x2 u))"

definition weight :: "cInstruction \<Rightarrow> nat" where
  "weight ins = alu_weight (m_alu1 ins) + alu_weight (m_alu2 ins) + imu_weight (m_imu ins)"

lemma term_weight_le: "term_weight x \<le> 2"
  by (simp add: term_weight_def split: option.splits)

lemma weight_le: "weight ins \<le> 15"
proof -
  have "alu_weight a \<le> 5" for a
    using term_weight_le [of "alu_x1 a"] term_weight_le [of "alu_x2 a"] by (simp add: alu_weight_def)
  moreover have "imu_weight u \<le> 5" for u
    using term_weight_le [of "imu_x1 u"] term_weight_le [of "imu_x2 u"] by (simp add: imu_weight_def)
  ultimately have "alu_weight (m_alu1 ins) \<le> 5" "alu_weight (m_alu2 ins) \<le> 5" "imu_weight (m_imu ins) \<le> 5" by blast+
  then show ?thesis by (simp add: weight_def)
qed

text \<open>The results of the busy slots are variables; a jump has no result.\<close>

definition alu_dest :: "Instruction_alu \<Rightarrow> bool" where
  "alu_dest a \<longleftrightarrow> (alu_oc a > 0 \<longrightarrow> (\<forall>y. alu_y a = Some y \<longrightarrow> variable y))"

definition imu_dest :: "Instruction_ialu \<Rightarrow> Instruction_control \<Rightarrow> bool" where
  "imu_dest u c \<longleftrightarrow> (imu_oc u > 0 \<longrightarrow> ctl_oc c \<le> 0 \<longrightarrow> (\<forall>y. imu_y u = Some y \<longrightarrow> variable y))"

definition dest_ok :: "cInstruction \<Rightarrow> bool" where
  "dest_ok ins \<longleftrightarrow> alu_dest (m_alu1 ins) \<and> alu_dest (m_alu2 ins) \<and> imu_dest (m_imu ins) (m_control ins)"

text \<open>
  \<open>lighter ch a b\<close>: a step from weight \<open>b\<close> to weight \<open>a\<close> that reports \<open>ch\<close> does not add weight, and takes some
  away when it reports a change.
\<close>

definition lighter :: "bool \<Rightarrow> nat \<Rightarrow> nat \<Rightarrow> bool" where
  "lighter ch a b \<longleftrightarrow> a \<le> b \<and> (ch \<longrightarrow> a < b)"

lemma lighter_refl [simp]: "lighter False a a"
  by (simp add: lighter_def)

lemma lighter_trans: "lighter r b c \<Longrightarrow> lighter s a b \<Longrightarrow> lighter (r \<or> s) a c"
  by (auto simp: lighter_def)

lemma lighter_add: "lighter r a b \<Longrightarrow> lighter s c d \<Longrightarrow> lighter (r \<or> s) (a + c) (b + d)"
  by (auto simp: lighter_def)

section \<open>Simplifying\<close>

lemma nonconst_case: "\<not> is_MU_Const x \<Longrightarrow> (case x of MU_Constant c f \<Rightarrow> A c f | _ \<Rightarrow> D) = D"
  by (cases x) simp_all

lemma simplifyMU_lighter:
  assumes "simplifyMU objaddr I a = Inr (r, a')"
  shows "lighter r (alu_weight a') (alu_weight a) \<and> (alu_dest a \<longrightarrow> alu_dest a')"
proof (cases "alu_oc a \<le> 0")
  case True
  with assms show ?thesis by (simp add: simplifyMU_def)
next
  case False
  from assms False obtain x1 x2 where x: "alu_x1 a = Some x1" "alu_x2 a = Some x2"
    by (cases "alu_x1 a"; cases "alu_x2 a") (simp_all add: simplifyMU_def)
  show ?thesis
  proof (cases "is_MU_Const x1 \<and> is_MU_Const x2")
    case True
    then obtain c1 f1 c2 f2 where c: "x1 = MU_Constant c1 f1" "x2 = MU_Constant c2 f2" by (cases x1; cases x2) auto
    have "\<exists>v f oc. a' = a\<lparr>alu_x1 := Some (MU_Constant v f), alu_x2 := Some MU_Null, alu_oc := oc\<rparr>"
      using assms False x c unfolding simplifyMU_def
      by (auto simp: new_MU_Constant_float_def new_MU_Constant_int_def Let_def split: if_splits option.splits)
    then obtain v f oc where "a' = a\<lparr>alu_x1 := Some (MU_Constant v f), alu_x2 := Some MU_Null, alu_oc := oc\<rparr>" by blast
    with x c False show ?thesis
      by (auto simp: lighter_def alu_weight_def term_weight_def variable_def nothing_def alu_dest_def)
  next
    case ne: False
    have "a' = a \<and> \<not> r \<or> a' = a\<lparr>alu_oc := -1\<rparr>"
    proof (cases "is_MU_Const x1")
      case True
      with ne obtain c f where "x1 = MU_Constant c f" "\<not> is_MU_Const x2" by (cases x1) auto
      with assms False x show ?thesis unfolding simplifyMU_def
        by (auto simp: nonconst_case res_bind_eq_Inr_iff split: if_splits)
    next
      case n1: False
      with assms False x show ?thesis unfolding simplifyMU_def
        by (cases x2) (auto simp: nonconst_case res_bind_eq_Inr_iff split: if_splits)
    qed
    with False show ?thesis by (auto simp: lighter_def alu_weight_def alu_dest_def)
  qed
qed

lemma simplifyIMU_lighter:
  assumes "simplifyIMU objaddr I u c = Inr (r, u', c')"
  shows "lighter r (imu_weight u') (imu_weight u) \<and> (imu_dest u c \<longrightarrow> imu_dest u' c')"
proof (cases "imu_oc u > 0")
  case False
  with assms show ?thesis by (simp add: simplifyIMU_def)
next
  case True
  from assms True obtain x1 x2 where x: "imu_x1 u = Some x1" "imu_x2 u = Some x2"
    by (cases "imu_x1 u"; cases "imu_x2 u") (simp_all add: simplifyIMU_def Let_def split: if_splits)
  have "u' = u \<and> c' = c \<and> \<not> r \<or> u' = u\<lparr>imu_oc := -1\<rparr> \<or> plain_const x1 \<and> plain_const x2 \<and> c' = c \<and>
      (\<exists>n. u' = u\<lparr>imu_x1 := Some (IMU_Constant n), imu_x2 := Some IMU_Zero, imu_oc := IOPCODE_ADD\<rparr>)"
    using assms True x unfolding simplifyIMU_def Let_def by (auto simp: res_bind_eq_Inr_iff split: if_splits)
  then show ?thesis
  proof (elim disjE conjE exE)
    fix n assume p: "plain_const x1" "plain_const x2" "c' = c"
      "u' = u\<lparr>imu_x1 := Some (IMU_Constant n), imu_x2 := Some IMU_Zero, imu_oc := IOPCODE_ADD\<rparr>"
    have "term_weight (imu_x1 u) = 1" "term_weight (imu_x2 u) = 1"
      using p(1,2) x by (cases x1; cases x2; auto simp: plain_const_def term_weight_def nothing_def variable_def)+
    with p True x show ?thesis
      by (simp add: lighter_def imu_weight_def term_weight_def variable_def nothing_def imu_dest_def)
  qed (use True in \<open>auto simp: lighter_def imu_weight_def imu_dest_def\<close>)
qed

lemma simplify_lighter:
  assumes "simplify objaddr I ins = Inr (r, ins')"
  shows "lighter r (weight ins') (weight ins) \<and> (dest_ok ins \<longrightarrow> dest_ok ins')"
proof -
  from assms have "\<exists>p q w. simplifyMU objaddr I (m_alu1 ins) = Inr p \<and> simplifyMU objaddr I (m_alu2 ins) = Inr q \<and>
      simplifyIMU objaddr I (m_imu ins) (m_control ins) = Inr w \<and> r = (fst p \<or> fst q \<or> fst w) \<and>
      ins' = ins\<lparr>m_alu1 := snd p, m_alu2 := snd q, m_imu := fst (snd w), m_control := snd (snd w)\<rparr>"
    by (simp add: simplify_def res_bind_eq_Inr_iff split_def) metis
  then obtain r1 a1 r2 a2 r3 u c where x: "simplifyMU objaddr I (m_alu1 ins) = Inr (r1, a1)"
      "simplifyMU objaddr I (m_alu2 ins) = Inr (r2, a2)" "simplifyIMU objaddr I (m_imu ins) (m_control ins) = Inr (r3, u, c)"
      "r = (r1 \<or> r2 \<or> r3)" "ins' = ins\<lparr>m_alu1 := a1, m_alu2 := a2, m_imu := u, m_control := c\<rparr>"
    by (metis prod.collapse)
  note l = simplifyMU_lighter [OF x(1)] simplifyMU_lighter [OF x(2)] simplifyIMU_lighter [OF x(3)]
  from l have "lighter (r1 \<or> r2 \<or> r3) (alu_weight a1 + (alu_weight a2 + imu_weight u))
      (alu_weight (m_alu1 ins) + (alu_weight (m_alu2 ins) + imu_weight (m_imu ins)))"
    by (intro lighter_add) simp_all
  with l x(4,5) show ?thesis by (simp add: weight_def dest_ok_def add.assoc)
qed

section \<open>Propagating\<close>

lemma eq_variable: "term_eq objaddr I y t \<Longrightarrow> variable y \<Longrightarrow> variable t"
  by (cases y; cases t) (auto simp: term_eq_def variable_def nothing_def is_IMU_def split: if_splits)

lemma fold_term_lighter:
  assumes "fold_term objaddr I y conv x = Inr (r, x')" "variable y" "\<forall>u. conv = Inr u \<longrightarrow> is_IMU_Const u \<or> is_MU_Const u"
  shows "lighter r (term_weight x') (term_weight x)"
proof (cases x)
  case (Some t)
  show ?thesis
  proof (cases "term_eq objaddr I y t")
    case True
    with assms(1,3) Some obtain u where u: "x' = Some u" "is_IMU_Const u \<or> is_MU_Const u"
      by (auto simp: fold_term_def res_bind_eq_Inr_iff)
    then have "term_weight x' = 1" by (cases u) (auto simp: term_weight_def nothing_def variable_def)
    moreover have "term_weight x = 2"
      using eq_variable [OF True assms(2)] Some by (simp add: term_weight_def variable_def)
    ultimately show ?thesis by (simp add: lighter_def)
  qed (use assms(1) Some in \<open>simp add: fold_term_def\<close>)
qed (use assms(1) in \<open>simp add: fold_term_def\<close>)

lemma conv_consts:
  assumes "is_const c"
  shows "\<forall>u. const_MU objaddr I c = Inr u \<longrightarrow> is_IMU_Const u \<or> is_MU_Const u"
    "\<forall>u. const_IMU c = Inr u \<longrightarrow> is_IMU_Const u \<or> is_MU_Const u"
  using assms by (cases c; auto simp: const_MU_def const_IMU_def is_const_def plain_const_def new_MU_Constant_float_def
      is_IMU_def split: if_splits option.splits)+

lemma fold_instr_lighter:
  assumes f: "fold_instr objaddr I y c ins = Inr (r, ins')" and y: "variable y" and c: "is_const c"
  shows "lighter r (weight ins') (weight ins) \<and> (dest_ok ins \<longrightarrow> dest_ok ins')"
proof -
  have alu: "lighter q (alu_weight a') (alu_weight a) \<and> (alu_dest a \<longrightarrow> alu_dest a')"
    if "fold_alu objaddr I y c a = Inr (q, a')" for a a' q
  proof (cases "alu_oc a \<le> 0")
    case False
    with that obtain r1 x1 r2 x2 where x: "fold_term objaddr I y (const_MU objaddr I c) (alu_x1 a) = Inr (r1, x1)"
        "fold_term objaddr I y (const_MU objaddr I c) (alu_x2 a) = Inr (r2, x2)" "a' = a\<lparr>alu_x1 := x1, alu_x2 := x2\<rparr>" "q = (r1 \<or> r2)"
      by (auto simp: fold_alu_def res_bind_eq_Inr_iff)
    from lighter_add [OF fold_term_lighter [OF x(1) y conv_consts(1) [OF c]] fold_term_lighter [OF x(2) y conv_consts(1) [OF c]]]
    show ?thesis using False x(3,4) by (simp add: alu_weight_def alu_dest_def lighter_def)
  qed (use that in \<open>simp add: fold_alu_def\<close>)
  have imu: "lighter q (imu_weight u') (imu_weight u) \<and> (imu_dest u k \<longrightarrow> imu_dest u' k)"
    if "fold_imu objaddr I y c u = Inr (q, u')" for u u' q k
  proof (cases "imu_oc u \<le> 0")
    case False
    with that obtain r1 x1 r2 x2 where x: "fold_term objaddr I y (const_IMU c) (imu_x1 u) = Inr (r1, x1)"
        "fold_term objaddr I y (const_IMU c) (imu_x2 u) = Inr (r2, x2)" "u' = u\<lparr>imu_x1 := x1, imu_x2 := x2\<rparr>" "q = (r1 \<or> r2)"
      by (auto simp: fold_imu_def res_bind_eq_Inr_iff)
    from lighter_add [OF fold_term_lighter [OF x(1) y conv_consts(2) [OF c]] fold_term_lighter [OF x(2) y conv_consts(2) [OF c]]]
    show ?thesis using False x(3,4) by (simp add: imu_weight_def imu_dest_def lighter_def)
  qed (use that in \<open>simp add: fold_imu_def\<close>)
  from f obtain r1 a1 r2 a2 r3 v where x: "fold_alu objaddr I y c (m_alu1 ins) = Inr (r1, a1)"
      "fold_alu objaddr I y c (m_alu2 ins) = Inr (r2, a2)" "fold_imu objaddr I y c (m_imu ins) = Inr (r3, v)"
      "ins' = ins\<lparr>m_alu1 := a1, m_alu2 := a2, m_imu := v\<rparr>" "r = (r1 \<or> r2 \<or> r3)"
    by (rule fold_instr_parts)
  note l = alu [OF x(1)] alu [OF x(2)] imu [OF x(3), of "m_control ins"]
  from l have "lighter (r1 \<or> r2 \<or> r3) (alu_weight a1 + (alu_weight a2 + imu_weight v))
      (alu_weight (m_alu1 ins) + (alu_weight (m_alu2 ins) + imu_weight (m_imu ins)))"
    by (intro lighter_add) simp_all
  with l x(4,5) show ?thesis by (simp add: weight_def dest_ok_def add.assoc)
qed

section \<open>The rounds\<close>

text \<open>
  The weight of the function, over the fixed range \<open>rng\<close>; and what the rounds keep: the order of the program
  and the number of instructions, and that results are variables.
\<close>

definition total :: "nat list \<Rightarrow> program \<Rightarrow> nat" where
  "total rng P = sum_list (map (\<lambda>i. weight (instr_at P i)) rng)"

definition step_down :: "nat list \<Rightarrow> bool \<Rightarrow> program \<Rightarrow> program \<Rightarrow> bool" where
  "step_down rng r P Q \<longleftrightarrow> p_order Q = p_order P \<and> length (p_code Q) = length (p_code P) \<and>
     lighter r (total rng Q) (total rng P) \<and>
     ((\<forall>i. dest_ok (instr_at P i)) \<longrightarrow> (\<forall>i. dest_ok (instr_at Q i)))"

lemma step_down_refl [simp]: "step_down rng False P P"
  by (simp add: step_down_def)

lemma step_down_trans: "step_down rng r P Q \<Longrightarrow> step_down rng s Q R \<Longrightarrow> step_down rng (r \<or> s) P R"
  unfolding step_down_def using lighter_trans by metis

lemma total_upd:
  assumes "lighter r (weight ins) (weight (instr_at P k))" "k \<in> set rng" "set rng \<subseteq> {..<length (p_code P)}"
  shows "lighter r (total rng (upd_instr k (\<lambda>_. ins) P)) (total rng P)"
proof -
  have le: "weight (instr_at (upd_instr k (\<lambda>_. ins) P) i) \<le> weight (instr_at P i)" for i
    using assms(1) by (simp add: lighter_def)
  have "total rng (upd_instr k (\<lambda>_. ins) P) \<le> total rng P"
    unfolding total_def using le by (intro sum_list_mono) blast
  moreover have "total rng (upd_instr k (\<lambda>_. ins) P) < total rng P" if r
  proof -
    obtain us vs where rng: "rng = us @ k # vs" using assms(2) by (meson split_list)
    have m: "sum_list (map (\<lambda>i. weight (instr_at (upd_instr k (\<lambda>_. ins) P) i)) xs) \<le> sum_list (map (\<lambda>i. weight (instr_at P i)) xs)" for xs
      using le by (intro sum_list_mono) blast
    have "weight (instr_at (upd_instr k (\<lambda>_. ins) P) k) < weight (instr_at P k)"
      using assms that by (auto simp: lighter_def)
    with m [of us] m [of vs] show ?thesis unfolding total_def rng by simp
  qed
  ultimately show ?thesis by (simp add: lighter_def)
qed

lemma step_down_upd:
  assumes "lighter r (weight ins) (weight (instr_at P k)) \<and> (dest_ok (instr_at P k) \<longrightarrow> dest_ok ins)" "k \<in> set rng"
    "set rng \<subseteq> {..<length (p_code P)}"
  shows "step_down rng r P (upd_instr k (\<lambda>_. ins) P)"
  using assms total_upd [of r ins P k rng] by (simp add: step_down_def)

lemma simplify_all_down:
  "simplify_all objaddr I is (ch, P) = Inr (ch', Q) \<Longrightarrow> set is \<subseteq> set rng \<Longrightarrow> set rng \<subseteq> {..<length (p_code P)} \<Longrightarrow>
     \<exists>r. ch' = (ch \<or> r) \<and> step_down rng r P Q"
proof (induction "is" arbitrary: ch P)
  case Nil
  then show ?case by (intro exI [of _ False]) simp
next
  case (Cons i "is")
  then obtain r ins where x: "simplify objaddr I (instr_at P i) = Inr (r, ins)"
    "simplify_all objaddr I is (ch \<or> r, upd_instr i (\<lambda>_. ins) P) = Inr (ch', Q)" by (auto simp: res_bind_eq_Inr_iff)
  have d: "step_down rng r P (upd_instr i (\<lambda>_. ins) P)"
    using simplify_lighter [OF x(1)] Cons.prems(2,3) by (intro step_down_upd) auto
  from Cons.IH [OF x(2)] Cons.prems obtain s where "ch' = ((ch \<or> r) \<or> s)" "step_down rng s (upd_instr i (\<lambda>_. ins) P) Q" by auto
  with step_down_trans [OF d] show ?case by (intro exI [of _ "r \<or> s"]) auto
qed

lemma fold_block_down:
  "fold_block objaddr I y c ks (ch, P) = Inr (ch', Q) \<Longrightarrow> variable y \<Longrightarrow> is_const c \<Longrightarrow> set ks \<subseteq> set rng \<Longrightarrow>
     set rng \<subseteq> {..<length (p_code P)} \<Longrightarrow> \<exists>r. ch' = (ch \<or> r) \<and> step_down rng r P Q"
proof (induction ks arbitrary: ch P)
  case Nil
  then show ?case by (intro exI [of _ False]) simp
next
  case (Cons k ks)
  then obtain r ins where x: "fold_instr objaddr I y c (instr_at P k) = Inr (r, ins)"
    "fold_block objaddr I y c ks (ch \<or> r, upd_instr k (\<lambda>_. ins) P) = Inr (ch', Q)" by (auto simp: res_bind_eq_Inr_iff)
  have d: "step_down rng r P (upd_instr k (\<lambda>_. ins) P)"
    using fold_instr_lighter [OF x(1) Cons.prems(2,3)] Cons.prems(4,5) by (intro step_down_upd) auto
  from Cons.IH [OF x(2)] Cons.prems obtain s where "ch' = ((ch \<or> r) \<or> s)" "step_down rng s (upd_instr k (\<lambda>_. ins) P) Q" by auto
  with step_down_trans [OF d] show ?case by (intro exI [of _ "r \<or> s"]) auto
qed

lemma next_block_down:
  assumes "next_block glob P b e k = Inr (P1, r)"
  shows "step_down rng False P P1"
proof -
  note n = next_block_only [OF assms]
  have "weight (instr_at P1 i) = weight (instr_at P i) \<and> dest_ok (instr_at P1 i) = dest_ok (instr_at P i)" for i
    using n(2) [of i] by (auto simp: weight_def dest_ok_def)
  with n(1) show ?thesis by (simp add: step_down_def same_frame_def total_def)
qed

lemma upto_incl_subset: "set (upto_incl x xs) \<subseteq> set xs"
  by (auto simp: upto_incl_def Let_def dest: set_takeWhileD)

lemma spread_down:
  assumes "spread lenient glob I b e lst (fold_block objaddr I y c) ks (ch, P) = Inr (ch', Q)" "variable y" "is_const c"
    "set ks \<subseteq> set rng" "set rng \<subseteq> {..<length (p_code P)}"
  shows "\<exists>r. ch' = (ch \<or> r) \<and> step_down rng r P Q"
  using assms
proof (induction "length ks" arbitrary: ks P ch rule: less_induct)
  case less
  have none: "\<exists>r. ch' = (ch \<or> r) \<and> step_down rng r P Q" if "ch' = ch" "step_down rng False P Q"
    using that by (intro exI [of _ False]) simp
  have block: "\<exists>r2. ch2 = (ch \<or> r2) \<and> step_down rng r2 P P2"
    if nb: "next_block glob P b e k = Inr (P1, Some x)" and ks: "ks = k # ks'"
      and f: "fold_block objaddr I y c (upto_incl x (k # ks')) (ch, P1) = Inr (ch2, P2)" for k ks' P1 x ch2 P2
  proof -
    note d1 = next_block_down [OF nb, of rng]
    have sub: "set (upto_incl x (k # ks')) \<subseteq> set rng" using less.prems(4) upto_incl_subset [of x "k # ks'"] ks by auto
    have len: "set rng \<subseteq> {..<length (p_code P1)}" using less.prems(5) d1 by (simp add: step_down_def)
    from fold_block_down [OF f less.prems(2,3) sub len] obtain r2 where r2: "ch2 = (ch \<or> r2)" "step_down rng r2 P1 P2" by blast
    from step_down_trans [OF d1 r2(2)] r2(1) show ?thesis by (intro exI [of _ r2]) simp
  qed
  show ?case
  proof (cases ks)
    case Nil
    with less.prems(1) none show ?thesis by simp
  next
    case (Cons k ks')
    show ?thesis
      using less.prems(1) [unfolded Cons]
    proof (cases rule: spread_step)
      case stay
      with none show ?thesis by simp
    next
      case (stop P1 r)
      with next_block_down [OF stop(1)] none show ?thesis by simp
    next
      case (last P1 x)
      from block [OF last(1) Cons last(2)] show ?thesis .
    next
      case (more P1 x ch2 P2)
      from block [OF more(1) Cons more(2)] obtain r2 where r2: "ch2 = (ch \<or> r2)" "step_down rng r2 P P2" by blast
      let ?ds = "drop (length (upto_incl x (k # ks')) - 1) ks'"
      have len: "length ?ds < length ks" using Cons by simp
      have sub: "set ?ds \<subseteq> set rng" using less.prems(4) Cons by (auto dest: in_set_dropD)
      have "set rng \<subseteq> {..<length (p_code P2)}" using less.prems(5) r2(2) by (simp add: step_down_def)
      from less.hyps [OF len more(5) less.prems(2,3) sub this] obtain r3 where "ch' = (ch2 \<or> r3)" "step_down rng r3 P2 Q"
        by blast
      with step_down_trans [OF r2(2)] r2(1) show ?thesis by (intro exI [of _ "r2 \<or> r3"]) auto
    qed
  qed
qed

lemma getConstantAssignment_variable:
  assumes "getConstantAssignment ins = Inr (Some (Some y, c))" "dest_ok ins" "ctl_oc (m_control ins) \<le> 0"
  shows "variable y" "is_const c"
proof -
  have alu: "alu_oc a > 0 \<and> alu_y a = Some y \<and> is_MU_Const c" if "alu_const_assign a = Inr (Some (Some y, c))" for a
    using that by (cases "alu_x1 a") (auto simp: alu_const_assign_def split: if_splits)
  have imu: "imu_oc (m_imu ins) > 0 \<and> imu_y (m_imu ins) = Some y \<and> plain_const c"
    if "imu_const_assign (m_imu ins) (m_control ins) = Inr (Some (Some y, c))"
    using that by (cases "imu_x1 (m_imu ins)"; cases "imu_x2 (m_imu ins)") (auto simp: imu_const_assign_def split: if_splits)
  from assms(1) consider "alu_const_assign (m_alu1 ins) = Inr (Some (Some y, c))" | "alu_const_assign (m_alu2 ins) = Inr (Some (Some y, c))"
    | "imu_const_assign (m_imu ins) (m_control ins) = Inr (Some (Some y, c))"
    by (auto simp: getConstantAssignment_def res_bind_eq_Inr_iff split: option.splits)
  then have "variable y \<and> is_const c"
    using assms(2,3) alu imu by cases (auto simp: dest_ok_def alu_dest_def imu_dest_def is_const_def)
  then show "variable y" "is_const c" by simp_all
qed

lemma fold_pass_down:
  "fold_pass glob objaddr I b e ks (ch, P) = Inr (ch', Q) \<Longrightarrow> \<forall>i. dest_ok (instr_at P i) \<Longrightarrow> set ks \<subseteq> set rng \<Longrightarrow>
     set rng \<subseteq> {..<length (p_code P)} \<Longrightarrow> \<exists>r. ch' = (ch \<or> r) \<and> step_down rng r P Q"
proof (induction ks arbitrary: ch P)
  case Nil
  then show ?case by (intro exI [of _ False]) simp
next
  case (Cons i ks)
  have ks: "set ks \<subseteq> set rng" using Cons.prems(3) by simp
  consider (stop) "ch' = ch" "Q = P" | (skip) "fold_pass glob objaddr I b e ks (ch, P) = Inr (ch', Q)"
    | (go) y c ch1 P1 where "ctl_oc (m_control (instr_at P i)) \<le> 0" "getConstantAssignment (instr_at P i) = Inr (Some (Some y, c))"
        "spread False glob I b e (term_getDef I y []) (fold_block objaddr I y c) ks (ch, P) = Inr (ch1, P1)"
        "fold_pass glob objaddr I b e ks (ch1, P1) = Inr (ch', Q)"
    using Cons.prems(1) by (rule fold_pass_step)
  then show ?case
  proof cases
    case stop
    then show ?thesis by (intro exI [of _ False]) simp
  next
    case skip
    from Cons.IH [OF this Cons.prems(2) ks Cons.prems(4)] show ?thesis .
  next
    case go
    have "dest_ok (instr_at P i)" using Cons.prems(2) by blast
    note v = getConstantAssignment_variable [OF go(2) this go(1)]
    from spread_down [OF go(3) v ks Cons.prems(4)] obtain r where r: "ch1 = (ch \<or> r)" "step_down rng r P P1" by blast
    have "\<forall>i. dest_ok (instr_at P1 i)" "set rng \<subseteq> {..<length (p_code P1)}"
      using r(2) Cons.prems(2,4) by (simp_all add: step_down_def)
    from Cons.IH [OF go(4) this(1) ks this(2)] obtain s where "ch' = (ch1 \<or> s)" "step_down rng s P1 Q" by blast
    with step_down_trans [OF r(2)] r(1) show ?thesis by (intro exI [of _ "r \<or> s"]) auto
  qed
qed

definition fold_inv :: "nat \<Rightarrow> nat \<Rightarrow> nat list \<Rightarrow> fold_state \<Rightarrow> bool" where
  "fold_inv b e rng s \<longleftrightarrow> (\<forall>c n P. s = Inr (c, n, P) \<longrightarrow> instr_range P b e = rng \<and> set rng \<subseteq> {..<length (p_code P)} \<and>
     (\<forall>i. dest_ok (instr_at P i)))"

definition folded_away :: "nat list \<Rightarrow> fold_state \<Rightarrow> nat" where
  "folded_away rng s = (case s of Inr (c, n, P) \<Rightarrow> 15 * length rng - total rng P | Inl _ \<Rightarrow> 0)"

lemma total_le: "total rng P \<le> 15 * length rng"
  unfolding total_def by (induction rng) (auto intro: add_mono weight_le)

lemma fold_round_down:
  assumes "fold_inv b e rng (Inr (c, n, P))" "fold_round glob objaddr I b e (Inr (c, n, P)) = Inr (c', n', P')"
  shows "step_down rng c' P P'" "fold_inv b e rng (Inr (c', n', P'))"
proof -
  from assms(1) have i: "instr_range P b e = rng" "set rng \<subseteq> {..<length (p_code P)}" "\<forall>i. dest_ok (instr_at P i)"
    by (simp_all add: fold_inv_def)
  from assms(2) obtain ch P1 where r: "simplify_all objaddr I rng (False, P) = Inr (ch, P1)"
    "fold_pass glob objaddr I b e rng (ch, P1) = Inr (c', P')"
    by (auto simp: fold_round_def res_bind_eq_Inr_iff i(1))
  from simplify_all_down [OF r(1) order_refl i(2)] have d1: "step_down rng ch P P1" by auto
  then have "\<forall>i. dest_ok (instr_at P1 i)" "set rng \<subseteq> {..<length (p_code P1)}" using i by (simp_all add: step_down_def)
  from fold_pass_down [OF r(2) this(1) order_refl this(2)] obtain s where "c' = (ch \<or> s)" "step_down rng s P1 P'" by blast
  with step_down_trans [OF d1] show d: "step_down rng c' P P'" by simp
  then show "fold_inv b e rng (Inr (c', n', P'))" using i by (simp add: fold_inv_def step_down_def instr_range_def)
qed

lemma fold_round_cases:
  "(\<exists>x. fold_round glob objaddr I b e s = Inl x) \<or>
   (\<exists>c n P c' n' P'. s = Inr (c, n, P) \<and> fold_round glob objaddr I b e s = Inr (c', n', P'))"
  by (cases s; cases "fold_round glob objaddr I b e s") (auto simp: fold_round_def)

interpretation folds: fixpoint_loop "fold_inv b e rng" folding "fold_round glob objaddr I b e" "folded_away rng" "\<lambda>s. 15 * length rng"
  for glob objaddr I b e rng
proof
  fix s assume inv: "fold_inv b e rng s"
  show "fold_inv b e rng (fold_round glob objaddr I b e s)"
  proof -
    from fold_round_cases [of glob objaddr I b e s] show ?thesis
    proof (elim disjE exE conjE)
      fix c n P c' n' P' assume r: "s = Inr (c, n, P)" "fold_round glob objaddr I b e s = Inr (c', n', P')"
      from fold_round_down(2) [OF inv [unfolded r(1)] r(2) [unfolded r(1)]] show ?thesis unfolding r(2) .
    qed (simp add: fold_inv_def)
  qed
  show "folded_away rng s < folded_away rng (fold_round glob objaddr I b e s)" if ch: "folding (fold_round glob objaddr I b e s)"
  proof -
    from ch fold_round_cases [of glob objaddr I b e s] obtain c n P c' n' P' where
      r: "s = Inr (c, n, P)" "fold_round glob objaddr I b e s = Inr (c', n', P')" by (auto simp: folding_def)
    with ch have "c'" by (simp add: folding_def)
    with fold_round_down(1) [OF inv [unfolded r(1)] r(2) [unfolded r(1)]] have "total rng P' < total rng P"
      by (simp add: step_down_def lighter_def)
    with total_le [of rng P] show ?thesis unfolding r(2) by (simp add: r(1) folded_away_def)
  qed
  show "folded_away rng s \<le> 15 * length rng" by (auto simp: folded_away_def split: sum.splits)
  show "15 * length rng = 15 * length rng" by simp
qed

text \<open>
  C13: Constant folding returns, with a program or with an error, for every function whose instructions put
  their results into variables: each round that changes something simplifies a slot away or replaces a
  variable by a constant, and neither simplifying nor propagating ever puts a variable back.
\<close>

theorem constantFolding_terminates:
  assumes "\<forall>i. dest_ok (instr_at P i)" and "set (function_range P b) \<subseteq> {..<length (p_code P)}"
  shows "\<exists>r. constantFolding glob objaddr I b P = Some r"
proof (cases "b = GetFunctionEnd P b")
  case True
  then show ?thesis by (simp add: constantFolding_def)
next
  case False
  have "fold_inv b (GetFunctionEnd P b) (function_range P b) (Inr (True, 0, P))"
    using assms by (simp add: fold_inv_def function_range_def)
  from folds.loop_ends [OF this, of glob objaddr I] obtain t where
    "while_option folding (fold_round glob objaddr I b (GetFunctionEnd P b)) (Inr (True, 0, P)) = Some t"
    by (auto simp: folding_def)
  with False show ?thesis by (simp add: constantFolding_def)
qed

theorem constantFolding_terminates_witness:
  "\<exists>r. constantFolding True (\<lambda>_. 0) step_ids 0 step_program = Some r"
proof (rule constantFolding_terminates)
  have "dest_ok new_cInstruction" by (simp add: dest_ok_def alu_dest_def imu_dest_def new_cInstruction_def empty_alu_def)
  moreover have "\<forall>ins\<in>set (p_code step_program). dest_ok ins"
    by (simp add: step_program_def dest_ok_def alu_dest_def imu_dest_def new_cInstruction_def empty_alu_def createIMU_def
        createConditionalJump_def createUnconditionalJump_def variable_def nothing_def)
  ultimately show "\<forall>i. dest_ok (instr_at step_program i)" by (simp add: instr_at_def)
  show "set (function_range step_program 0) \<subseteq> {..<length (p_code step_program)}"
    unfolding step_program_range by (auto simp: step_program_def)
qed

end
