(* ===== verification/ConstAlloc.thy ===== *)
theory ConstAlloc
  imports Instr
begin

text \<open>
  The constants of the program: \<open>Allocate\<close> of \<open>SW/compiler/const.cpp\<close>, which enters the constant operands of
  all instructions in the table, and that the offsets which the operands are encoded with (\<open>getOffset\<close>) lead
  to these constants in the image.
\<close>

section \<open>Entering the operands\<close>

definition enter_operand :: "cTerm option \<Rightarrow> f32 list \<Rightarrow> f32 list res" where
  "enter_operand x S = res_bind (deref x) (\<lambda>t. Inr (if is_MU_Const t then snd (const_Add S (mu_getConstant t)) else S))"

definition enter_alu :: "Instruction_alu \<Rightarrow> f32 list \<Rightarrow> f32 list res" where
  "enter_alu a S = (if alu_oc a > 0 then res_bind (enter_operand (alu_x1 a) S) (enter_operand (alu_x2 a)) else Inr S)"

fun enter_all :: "program \<Rightarrow> nat list \<Rightarrow> f32 list \<Rightarrow> f32 list res" where
  "enter_all P [] S = Inr S"
| "enter_all P (i # is) S =
     res_bind (res_bind (enter_alu (m_alu1 (instr_at P i)) S) (enter_alu (m_alu2 (instr_at P i)))) (enter_all P is)"

definition Allocate :: "program \<Rightarrow> f32 list \<Rightarrow> f32 list res" where
  "Allocate P S = enter_all P (p_order P) S"

section \<open>The constants are found\<close>

definition has :: "f32 list \<Rightarrow> f32 \<Rightarrow> bool" where
  "has S c \<longleftrightarrow> const_Find S c \<ge> 0"

definition keeps :: "f32 list \<Rightarrow> f32 list \<Rightarrow> bool" where
  "keeps S T \<longleftrightarrow> (\<forall>c. has S c \<longrightarrow> has T c)"

lemma keeps_refl [simp]: "keeps S S"
  by (simp add: keeps_def)

lemma keeps_trans: "keeps S T \<Longrightarrow> keeps T U \<Longrightarrow> keeps S U"
  by (simp add: keeps_def)

lemma has_Add: "\<not> f32_is_nan c \<Longrightarrow> has (snd (const_Add S c)) c"
  by (simp add: has_def const_Find_Add) (simp add: const_Add_def Let_def)

lemma keeps_Add: "keeps S (snd (const_Add S c))"
  by (simp add: keeps_def has_def const_Find_Add_keep)

lemma enter_operand_has:
  assumes "enter_operand x S = Inr T"
  shows "keeps S T" "x = Some (MU_Constant c f) \<Longrightarrow> \<not> f32_is_nan c \<Longrightarrow> has T c"
  using assms has_Add keeps_Add by (auto simp: enter_operand_def res_bind_eq_Inr_iff split: if_splits)

lemma enter_alu_has:
  assumes "enter_alu a S = Inr T"
  shows "keeps S T"
    "alu_oc a > 0 \<Longrightarrow> Some (MU_Constant c f) \<in> {alu_x1 a, alu_x2 a} \<Longrightarrow> \<not> f32_is_nan c \<Longrightarrow> has T c"
proof -
  have "keeps S T \<and> (alu_oc a > 0 \<longrightarrow> Some (MU_Constant c f) \<in> {alu_x1 a, alu_x2 a} \<longrightarrow> \<not> f32_is_nan c \<longrightarrow> has T c)"
  proof (cases "alu_oc a > 0")
    case True
    with assms obtain U where u: "enter_operand (alu_x1 a) S = Inr U" "enter_operand (alu_x2 a) U = Inr T"
      by (auto simp: enter_alu_def res_bind_eq_Inr_iff)
    from enter_operand_has(1) [OF u(1)] enter_operand_has(1) [OF u(2)] have k: "keeps S T" "keeps U T"
      using keeps_trans by blast+
    have "has T c" if "Some (MU_Constant c f) \<in> {alu_x1 a, alu_x2 a}" "\<not> f32_is_nan c"
      using that enter_operand_has(2) [OF u(1), of c f] enter_operand_has(2) [OF u(2), of c f] k(2) by (auto simp: keeps_def)
    with k(1) show ?thesis by blast
  qed (use assms in \<open>simp add: enter_alu_def\<close>)
  then show "keeps S T"
    "alu_oc a > 0 \<Longrightarrow> Some (MU_Constant c f) \<in> {alu_x1 a, alu_x2 a} \<Longrightarrow> \<not> f32_is_nan c \<Longrightarrow> has T c" by blast+
qed

lemma enter_all_has:
  assumes "enter_all P ks S = Inr T"
  shows "keeps S T" and "\<forall>k\<in>set ks. \<forall>a\<in>{m_alu1 (instr_at P k), m_alu2 (instr_at P k)}. \<forall>c f. alu_oc a > 0 \<longrightarrow>
     Some (MU_Constant c f) \<in> {alu_x1 a, alu_x2 a} \<longrightarrow> \<not> f32_is_nan c \<longrightarrow> has T c"
proof -
  have "keeps S T \<and> (\<forall>k\<in>set ks. \<forall>a\<in>{m_alu1 (instr_at P k), m_alu2 (instr_at P k)}. \<forall>c f. alu_oc a > 0 \<longrightarrow>
     Some (MU_Constant c f) \<in> {alu_x1 a, alu_x2 a} \<longrightarrow> \<not> f32_is_nan c \<longrightarrow> has T c)"
    using assms
  proof (induction ks arbitrary: S)
    case (Cons k ks)
    then obtain U V where u: "enter_alu (m_alu1 (instr_at P k)) S = Inr U" "enter_alu (m_alu2 (instr_at P k)) U = Inr V"
      "enter_all P ks V = Inr T" by (auto simp: res_bind_eq_Inr_iff)
    note IH = Cons.IH [OF u(3)]
    have k: "keeps U V" "keeps V T" "keeps S T"
      using enter_alu_has(1) [OF u(1)] enter_alu_has(1) [OF u(2)] IH keeps_trans by blast+
    have "has T c" if "a \<in> {m_alu1 (instr_at P k), m_alu2 (instr_at P k)}" "alu_oc a > 0"
      "Some (MU_Constant c f) \<in> {alu_x1 a, alu_x2 a}" "\<not> f32_is_nan c" for a c f
    proof -
      from that enter_alu_has(2) [OF u(1), of c f] enter_alu_has(2) [OF u(2), of c f] have "has U c \<or> has V c" by blast
      with k show ?thesis by (auto simp: keeps_def)
    qed
    with IH k(3) show ?case unfolding list.set by blast
  qed simp
  then show "keeps S T" and "\<forall>k\<in>set ks. \<forall>a\<in>{m_alu1 (instr_at P k), m_alu2 (instr_at P k)}. \<forall>c f. alu_oc a > 0 \<longrightarrow>
     Some (MU_Constant c f) \<in> {alu_x1 a, alu_x2 a} \<longrightarrow> \<not> f32_is_nan c \<longrightarrow> has T c" by blast+
qed

text \<open>
  C23: Every constant operand of the program is encoded with the index of its constant: the entry of the table
  at that index equals the constant, and the generated image has the 16-bit value of it there. So looking up
  an operand never fails after \<open>Allocate\<close>.
\<close>

theorem Allocate_operands:
  assumes "Allocate P S = Inr T" and "const_Gen T = Inr img" and "k \<in> set (p_order P)"
    and "a \<in> {m_alu1 (instr_at P k), m_alu2 (instr_at P k)}" and "alu_oc a > 0"
    and "Some (MU_Constant c f) \<in> {alu_x1 a, alu_x2 a}" and "\<not> f32_is_nan c"
  shows "\<exists>i v. mu_getOffset False T I (MU_Constant c f) = Inr (int i) \<and> i < length img \<and> f32_eq (T ! i) c \<and>
     f32_to_int (T ! i) = Some v \<and> img ! i = word_of_int v"
proof -
  from enter_all_has(2) [OF assms(1) [unfolded Allocate_def]] assms(3-7) have h: "const_Find T c \<ge> 0"
    unfolding has_def by blast
  note i = const_Find_nonneg [OF h]
  from const_Gen_nth [OF assms(2) i(1)] i const_Gen_length [OF assms(2)] h show ?thesis
    by (intro exI [of _ "nat (const_Find T c)"]) auto
qed

text \<open>\<open>b = 0\<close> with a private \<open>b\<close> (2), the table being empty before.\<close>

definition const_program :: program where
  "const_program = \<lparr>p_code = [new_cInstruction\<lparr>m_alu1 := \<lparr>alu_oc = OPCODE_ASSIGN, alu_which = eMuOpcodeDefAlu1,
     alu_x1 = Some (MU_Constant 0 False), alu_x2 = Some MU_Null, alu_y = Some (MU_Storage 2 0 False), alu_xacc = None\<rparr>\<rparr>],
     p_order = [0], p_funcs = []\<rparr>"

theorem Allocate_operands_witness:
  "\<exists>T img. Allocate const_program [] = Inr T \<and> const_Gen T = Inr img \<and>
     (\<exists>i v. mu_getOffset False T [] (MU_Constant 0 False) = Inr (int i) \<and> i < length img \<and> f32_eq (T ! i) 0 \<and>
        f32_to_int (T ! i) = Some v \<and> img ! i = word_of_int v)"
proof -
  have "enter_alu (m_alu2 (instr_at const_program 0)) S = Inr S" for S
    by (simp add: const_program_def instr_at_def enter_alu_def new_cInstruction_def empty_alu_def)
  then have t: "Allocate const_program [] = Inr [0]"
    by (simp add: Allocate_def const_program_def instr_at_def enter_alu_def enter_operand_def const_Add_def const_Find_def)
  have "f32_to_int 0 = Some 0" using f32_to_of_int(1) [of 0] by (simp add: f32_of_int_0 f32_pack_def)
  then have g: "const_Gen [0] = Inr [0]" by simp
  have "(0 :: nat) \<in> set (p_order const_program)" "alu_oc (m_alu1 (instr_at const_program 0)) > 0"
    "Some (MU_Constant 0 False) \<in> {alu_x1 (m_alu1 (instr_at const_program 0)), alu_x2 (m_alu1 (instr_at const_program 0))}"
    by (simp_all add: const_program_def instr_at_def)
  moreover have "\<not> f32_is_nan (0 :: f32)"
    using f32_finite_not_nan [OF f32_to_of_int(2) [of 0]] by (simp add: f32_of_int_0 f32_pack_def)
  ultimately show ?thesis using Allocate_operands [OF t g] t g by blast
qed

end
