(* ===== verification/Ast.thy ===== *)
theory Ast
  imports Instr
begin

text \<open>
  The syntax tree: the node classes of \<open>SW/compiler/ast.h\<close> and \<open>SW/compiler/ast.cpp\<close>, and the ways to
  find a node. A tree is a value: no node occurs in two places.
\<close>

section \<open>Tokens\<close>

text \<open>The enumeration \<open>eTOKEN\<close>: its values are numbers, and the names below are those that the code uses.\<close>

type_synonym eTOKEN = int

abbreviation (input) eTOKEN_IDENTIFIER :: eTOKEN where "eTOKEN_IDENTIFIER \<equiv> 0"
abbreviation (input) eTOKEN_I_CONSTANT :: eTOKEN where "eTOKEN_I_CONSTANT \<equiv> 1"
abbreviation (input) eTOKEN_F_CONSTANT :: eTOKEN where "eTOKEN_F_CONSTANT \<equiv> 2"
abbreviation (input) eTOKEN_SIZEOF :: eTOKEN where "eTOKEN_SIZEOF \<equiv> 5"
abbreviation (input) eTOKEN_INC_OP :: eTOKEN where "eTOKEN_INC_OP \<equiv> 7"
abbreviation (input) eTOKEN_DEC_OP :: eTOKEN where "eTOKEN_DEC_OP \<equiv> 8"
abbreviation (input) eTOKEN_MUL_ASSIGN :: eTOKEN where "eTOKEN_MUL_ASSIGN \<equiv> 17"
abbreviation (input) eTOKEN_DIV_ASSIGN :: eTOKEN where "eTOKEN_DIV_ASSIGN \<equiv> 18"
abbreviation (input) eTOKEN_MOD_ASSIGN :: eTOKEN where "eTOKEN_MOD_ASSIGN \<equiv> 19"
abbreviation (input) eTOKEN_ADD_ASSIGN :: eTOKEN where "eTOKEN_ADD_ASSIGN \<equiv> 20"
abbreviation (input) eTOKEN_SUB_ASSIGN :: eTOKEN where "eTOKEN_SUB_ASSIGN \<equiv> 21"
abbreviation (input) eTOKEN_LEFT_ASSIGN :: eTOKEN where "eTOKEN_LEFT_ASSIGN \<equiv> 22"
abbreviation (input) eTOKEN_RIGHT_ASSIGN :: eTOKEN where "eTOKEN_RIGHT_ASSIGN \<equiv> 23"
abbreviation (input) eTOKEN_AND_ASSIGN :: eTOKEN where "eTOKEN_AND_ASSIGN \<equiv> 24"
abbreviation (input) eTOKEN_XOR_ASSIGN :: eTOKEN where "eTOKEN_XOR_ASSIGN \<equiv> 25"
abbreviation (input) eTOKEN_OR_ASSIGN :: eTOKEN where "eTOKEN_OR_ASSIGN \<equiv> 26"
abbreviation (input) eTOKEN_KERNEL :: eTOKEN where "eTOKEN_KERNEL \<equiv> 35"
abbreviation (input) eTOKEN_INT :: eTOKEN where "eTOKEN_INT \<equiv> 48"
abbreviation (input) eTOKEN_FLOAT :: eTOKEN where "eTOKEN_FLOAT \<equiv> 52"
abbreviation (input) eTOKEN_VOID :: eTOKEN where "eTOKEN_VOID \<equiv> 54"
abbreviation (input) eTOKEN_POINTER_SCOPE :: eTOKEN where "eTOKEN_POINTER_SCOPE \<equiv> 56"
abbreviation (input) eTOKEN_CASE :: eTOKEN where "eTOKEN_CASE \<equiv> 63"
abbreviation (input) eTOKEN_DEFAULT :: eTOKEN where "eTOKEN_DEFAULT \<equiv> 64"
abbreviation (input) eTOKEN_FOR :: eTOKEN where "eTOKEN_FOR \<equiv> 70"
abbreviation (input) eTOKEN_GOTO :: eTOKEN where "eTOKEN_GOTO \<equiv> 71"
abbreviation (input) eTOKEN_CONTINUE :: eTOKEN where "eTOKEN_CONTINUE \<equiv> 72"
abbreviation (input) eTOKEN_BREAK :: eTOKEN where "eTOKEN_BREAK \<equiv> 73"
abbreviation (input) eTOKEN_RETURN :: eTOKEN where "eTOKEN_RETURN \<equiv> 74"
abbreviation (input) eTOKEN_translation_unit :: eTOKEN where "eTOKEN_translation_unit \<equiv> 83"
abbreviation (input) eTOKEN_primary_expression :: eTOKEN where "eTOKEN_primary_expression \<equiv> 84"
abbreviation (input) eTOKEN_constant :: eTOKEN where "eTOKEN_constant \<equiv> 85"
abbreviation (input) eTOKEN_postfix_expression2 :: eTOKEN where "eTOKEN_postfix_expression2 \<equiv> 92"
abbreviation (input) eTOKEN_postfix_expression4 :: eTOKEN where "eTOKEN_postfix_expression4 \<equiv> 94"
abbreviation (input) eTOKEN_postfix_expression7 :: eTOKEN where "eTOKEN_postfix_expression7 \<equiv> 97"
abbreviation (input) eTOKEN_postfix_expression8 :: eTOKEN where "eTOKEN_postfix_expression8 \<equiv> 98"
abbreviation (input) eTOKEN_argument_expression_list :: eTOKEN where "eTOKEN_argument_expression_list \<equiv> 101"
abbreviation (input) eTOKEN_unary_expression :: eTOKEN where "eTOKEN_unary_expression \<equiv> 102"
abbreviation (input) eTOKEN_unary_operator :: eTOKEN where "eTOKEN_unary_operator \<equiv> 103"
abbreviation (input) eTOKEN_cast_expression :: eTOKEN where "eTOKEN_cast_expression \<equiv> 104"
abbreviation (input) eTOKEN_multiplicative_expression :: eTOKEN where "eTOKEN_multiplicative_expression \<equiv> 105"
abbreviation (input) eTOKEN_multiplicative_expression_mul :: eTOKEN where "eTOKEN_multiplicative_expression_mul \<equiv> 106"
abbreviation (input) eTOKEN_multiplicative_expression_div :: eTOKEN where "eTOKEN_multiplicative_expression_div \<equiv> 107"
abbreviation (input) eTOKEN_multiplicative_expression_mod :: eTOKEN where "eTOKEN_multiplicative_expression_mod \<equiv> 108"
abbreviation (input) eTOKEN_additive_expression :: eTOKEN where "eTOKEN_additive_expression \<equiv> 109"
abbreviation (input) eTOKEN_additive_expression_add :: eTOKEN where "eTOKEN_additive_expression_add \<equiv> 110"
abbreviation (input) eTOKEN_additive_expression_sub :: eTOKEN where "eTOKEN_additive_expression_sub \<equiv> 111"
abbreviation (input) eTOKEN_shift_expression :: eTOKEN where "eTOKEN_shift_expression \<equiv> 112"
abbreviation (input) eTOKEN_shift_expression_shl :: eTOKEN where "eTOKEN_shift_expression_shl \<equiv> 113"
abbreviation (input) eTOKEN_shift_expression_shr :: eTOKEN where "eTOKEN_shift_expression_shr \<equiv> 114"
abbreviation (input) eTOKEN_relational_expression :: eTOKEN where "eTOKEN_relational_expression \<equiv> 115"
abbreviation (input) eTOKEN_relational_expression_lt :: eTOKEN where "eTOKEN_relational_expression_lt \<equiv> 116"
abbreviation (input) eTOKEN_relational_expression_gt :: eTOKEN where "eTOKEN_relational_expression_gt \<equiv> 117"
abbreviation (input) eTOKEN_relational_expression_le :: eTOKEN where "eTOKEN_relational_expression_le \<equiv> 118"
abbreviation (input) eTOKEN_relational_expression_ge :: eTOKEN where "eTOKEN_relational_expression_ge \<equiv> 119"
abbreviation (input) eTOKEN_equality_expression :: eTOKEN where "eTOKEN_equality_expression \<equiv> 120"
abbreviation (input) eTOKEN_equality_expression_eq :: eTOKEN where "eTOKEN_equality_expression_eq \<equiv> 121"
abbreviation (input) eTOKEN_equality_expression_ne :: eTOKEN where "eTOKEN_equality_expression_ne \<equiv> 122"
abbreviation (input) eTOKEN_and_expression :: eTOKEN where "eTOKEN_and_expression \<equiv> 123"
abbreviation (input) eTOKEN_exclusive_or_expression :: eTOKEN where "eTOKEN_exclusive_or_expression \<equiv> 124"
abbreviation (input) eTOKEN_inclusive_or_expression :: eTOKEN where "eTOKEN_inclusive_or_expression \<equiv> 125"
abbreviation (input) eTOKEN_logical_and_expression :: eTOKEN where "eTOKEN_logical_and_expression \<equiv> 126"
abbreviation (input) eTOKEN_logical_or_expression :: eTOKEN where "eTOKEN_logical_or_expression \<equiv> 127"
abbreviation (input) eTOKEN_conditional_expression :: eTOKEN where "eTOKEN_conditional_expression \<equiv> 128"
abbreviation (input) eTOKEN_assignment_expression :: eTOKEN where "eTOKEN_assignment_expression \<equiv> 129"
abbreviation (input) eTOKEN_assignment_operator :: eTOKEN where "eTOKEN_assignment_operator \<equiv> 130"
abbreviation (input) eTOKEN_expression :: eTOKEN where "eTOKEN_expression \<equiv> 141"
abbreviation (input) eTOKEN_declaration :: eTOKEN where "eTOKEN_declaration \<equiv> 143"
abbreviation (input) eTOKEN_declaration_specifiers :: eTOKEN where "eTOKEN_declaration_specifiers \<equiv> 144"
abbreviation (input) eTOKEN_init_declarator_list :: eTOKEN where "eTOKEN_init_declarator_list \<equiv> 145"
abbreviation (input) eTOKEN_declarator :: eTOKEN where "eTOKEN_declarator \<equiv> 163"
abbreviation (input) eTOKEN_direct_declarator12 :: eTOKEN where "eTOKEN_direct_declarator12 \<equiv> 175"
abbreviation (input) eTOKEN_pointer :: eTOKEN where "eTOKEN_pointer \<equiv> 178"
abbreviation (input) eTOKEN_parameter_list :: eTOKEN where "eTOKEN_parameter_list \<equiv> 181"
abbreviation (input) eTOKEN_initializer :: eTOKEN where "eTOKEN_initializer \<equiv> 187"
abbreviation (input) eTOKEN_initializer_list :: eTOKEN where "eTOKEN_initializer_list \<equiv> 188"
abbreviation (input) eTOKEN_statement :: eTOKEN where "eTOKEN_statement \<equiv> 193"
abbreviation (input) eTOKEN_labeled_statement :: eTOKEN where "eTOKEN_labeled_statement \<equiv> 194"
abbreviation (input) eTOKEN_compound_statement :: eTOKEN where "eTOKEN_compound_statement \<equiv> 195"
abbreviation (input) eTOKEN_block_item_list :: eTOKEN where "eTOKEN_block_item_list \<equiv> 196"
abbreviation (input) eTOKEN_block_item :: eTOKEN where "eTOKEN_block_item \<equiv> 197"
abbreviation (input) eTOKEN_expression_statement :: eTOKEN where "eTOKEN_expression_statement \<equiv> 198"
abbreviation (input) eTOKEN_selection_statement :: eTOKEN where "eTOKEN_selection_statement \<equiv> 199"
abbreviation (input) eTOKEN_switch_statement :: eTOKEN where "eTOKEN_switch_statement \<equiv> 200"
abbreviation (input) eTOKEN_iteration_for_statement :: eTOKEN where "eTOKEN_iteration_for_statement \<equiv> 201"
abbreviation (input) eTOKEN_iteration_while_statement :: eTOKEN where "eTOKEN_iteration_while_statement \<equiv> 202"
abbreviation (input) eTOKEN_iteration_do_while_statement :: eTOKEN where "eTOKEN_iteration_do_while_statement \<equiv> 203"
abbreviation (input) eTOKEN_jump_statement :: eTOKEN where "eTOKEN_jump_statement \<equiv> 204"
abbreviation (input) eTOKEN_function_definition2 :: eTOKEN where "eTOKEN_function_definition2 \<equiv> 207"

section \<open>Nodes\<close>

text \<open>
  A composite node, with the identifiers that it declares when it is a \<open>cAstCodeBlockNode\<close>; and the leaves:
  a token with its parameter and the \<open>#pragma\<close> in front of it, an integer with \<open>m_isUnsigned\<close> and
  \<open>m_genIdentifier\<close>, a float, a string, and a name with the identifier it stands for. Line numbers are left out.
\<close>

datatype cAstNode =
    AstComposite eTOKEN "nat list option" "cAstNode list"
  | AstToken eTOKEN int string
  | AstInt eTOKEN int bool "nat option"
  | AstFloat eTOKEN f32
  | AstString eTOKEN string
  | AstIdentifier eTOKEN string "nat option"

fun getID :: "cAstNode \<Rightarrow> eTOKEN" where
  "getID (AstComposite t b cs) = t"
| "getID (AstToken t p g) = t"
| "getID (AstInt t i u g) = t"
| "getID (AstFloat t f) = t"
| "getID (AstString t s) = t"
| "getID (AstIdentifier t s i) = t"

fun getChildList :: "cAstNode \<Rightarrow> cAstNode list" where
  "getChildList (AstComposite t b cs) = cs"
| "getChildList _ = []"

fun is_Composite :: "cAstNode \<Rightarrow> bool" where
  "is_Composite (AstComposite t b cs) = True"
| "is_Composite _ = False"

fun is_IdentifierNode :: "cAstNode \<Rightarrow> bool" where
  "is_IdentifierNode (AstIdentifier t s i) = True"
| "is_IdentifierNode _ = False"

fun is_IntNode :: "cAstNode \<Rightarrow> bool" where
  "is_IntNode (AstInt t i u g) = True"
| "is_IntNode _ = False"

fun is_FloatNode :: "cAstNode \<Rightarrow> bool" where
  "is_FloatNode (AstFloat t f) = True"
| "is_FloatNode _ = False"

text \<open>The values of leaves, behind a \<open>CAST\<close> to their class.\<close>

fun getIntValue :: "cAstNode \<Rightarrow> int res" where
  "getIntValue (AstInt t i u g) = Inr i"
| "getIntValue _ = Inl BadCast"

fun getFloatValue :: "cAstNode \<Rightarrow> f32 res" where
  "getFloatValue (AstFloat t f) = Inr f"
| "getFloatValue _ = Inl BadCast"

fun getStringValue :: "cAstNode \<Rightarrow> string res" where
  "getStringValue (AstString t s) = Inr s"
| "getStringValue (AstIdentifier t s i) = Inr s"
| "getStringValue _ = Inl BadCast"

fun getIdentifier :: "cAstNode \<Rightarrow> nat option res" where
  "getIdentifier (AstIdentifier t s i) = Inr i"
| "getIdentifier _ = Inl BadCast"

fun getIdentifierList :: "cAstNode \<Rightarrow> nat list res" where
  "getIdentifierList (AstComposite t (Some ids) cs) = Inr ids"
| "getIdentifierList _ = Inl BadCast"

text \<open>
  \<open>setIdentifierList\<close>: a new identifier is refused when the block has one with the same name and context,
  and neither of the two has an alias.
\<close>

definition same_identifier :: "cIdentifier \<Rightarrow> cIdentifier \<Rightarrow> bool" where
  "same_identifier a b \<longleftrightarrow> m_name a \<noteq> [] \<and> m_name b \<noteq> [] \<and> getAlias b = None \<and> getAlias a = None \<and>
     m_name b = m_name a \<and> m_context b = m_context a"

definition setIdentifierList :: "idents \<Rightarrow> nat \<Rightarrow> nat list \<Rightarrow> bool \<times> nat list" where
  "setIdentifierList I idn ids =
     (if \<exists>i\<in>set ids. same_identifier (ident_at I idn) (ident_at I i) then (False, ids) else (True, ids @ [idn]))"

section \<open>Finding a node\<close>

text \<open>
  \<open>getChild\<close> with a path of tokens: the first child with the first token, then below it. The result here is
  the child with the siblings behind it, which \<open>getNext\<close> leads to.
\<close>

fun child_from :: "eTOKEN list \<Rightarrow> cAstNode \<Rightarrow> cAstNode list" where
  "child_from [] n = []"
| "child_from [t] n = dropWhile (\<lambda>c. getID c \<noteq> t) (getChildList n)"
| "child_from (t # ts) n = (case dropWhile (\<lambda>c. getID c \<noteq> t) (getChildList n) of [] \<Rightarrow> [] | c # _ \<Rightarrow> child_from ts c)"

definition getChild :: "eTOKEN list \<Rightarrow> cAstNode \<Rightarrow> cAstNode option" where
  "getChild ts n = (case child_from ts n of [] \<Rightarrow> None | c # _ \<Rightarrow> Some c)"

definition func_name_node :: "cAstNode \<Rightarrow> cAstNode option" where
  "func_name_node f =
     (case getChild [eTOKEN_declarator, eTOKEN_direct_declarator12, eTOKEN_IDENTIFIER] f of
        Some n \<Rightarrow> Some n
      | None \<Rightarrow> getChild [eTOKEN_declarator, eTOKEN_IDENTIFIER] f)"

fun find_function :: "string \<Rightarrow> cAstNode list \<Rightarrow> cAstNode option res" where
  "find_function name [] = Inr None"
| "find_function name (f # fs) =
     (if getID f = eTOKEN_function_definition2
      then res_bind (deref (func_name_node f)) (\<lambda>n. res_bind (getStringValue n) (\<lambda>s.
             if s = name then Inr (Some f) else find_function name fs))
      else find_function name fs)"

definition GetFunction :: "cAstNode \<Rightarrow> string \<Rightarrow> cAstNode option res" where
  "GetFunction root name = find_function name (getChildList root)"

section \<open>Laws\<close>

lemma child_from_size: "c \<in> set (child_from ts n) \<Longrightarrow> size c < size n"
proof (induction ts n rule: child_from.induct)
  case (2 t n)
  have "c \<in> set (getChildList n)" using 2 by (auto dest: set_dropWhileD)
  then show ?case by (cases n) (auto dest!: size_list_estimation' [where f = size and y = "size c", OF _ order_refl])
next
  case (3 t v vs n)
  obtain d ds where d: "dropWhile (\<lambda>c. getID c \<noteq> t) (getChildList n) = d # ds"
    using 3 by (cases "dropWhile (\<lambda>c. getID c \<noteq> t) (getChildList n)") auto
  then have "d \<in> set (getChildList n)" by (metis list.set_intros(1) set_dropWhileD)
  then have "size d < size n" by (cases n) (auto dest!: size_list_estimation' [where f = size and y = "size d", OF _ order_refl])
  moreover have "size c < size d" using 3 d by auto
  ultimately show ?case by simp
qed simp

end
