(* ===== verification/FloatOps.thy ===== *)
theory FloatOps
  imports CFloat
begin

text \<open>
  Division of floats, and when arithmetic on integers in \<open>float\<close> is exact: \<open>f32_is_int w v\<close> says that \<open>w\<close> is the
  float of the integer \<open>v\<close> of at most 24 bits, with either sign of zero.
\<close>

section \<open>Division\<close>

text \<open>The quotient is taken with 50 more bits, and one bit tells whether there is a remainder.\<close>

definition f32_div :: "f32 \<Rightarrow> f32 \<Rightarrow> f32" where
  "f32_div a b =
     (let s = (f32_sign a \<noteq> f32_sign b) in
      if f32_is_nan a \<or> f32_is_nan b then f32_qnan
      else if f32_is_inf a then (if f32_is_inf b then f32_qnan else f32_pack s 255 0)
      else if f32_is_inf b then f32_pack s 0 0
      else if f32_sig b = 0 then (if f32_sig a = 0 then f32_qnan else f32_pack s 255 0)
      else
        let n = f32_sig a * 2 ^ 50; q = n div f32_sig b
        in f32_round s (2 * q + (if n mod f32_sig b = 0 then 0 else 1)) (f32_scale a - f32_scale b - 51))"

section \<open>Change of sign\<close>

lemma f32_neg_pack_False:
  assumes "e < 256" "m < 8388608"
  shows "f32_neg (f32_pack False e m) = f32_pack True e m"
proof -
  let ?w = "f32_pack False e m"
  have u: "unat ?w = e * 8388608 + m" using f32_pack_fields(1) [OF assms, of False] by simp
  then have "unat ?w < 2 ^ 31" using assms by simp
  then have "\<not> bit (unat ?w) 31" by (simp add: bit_iff_odd)
  then have b: "\<not> bit ?w 31" by (simp add: bit_unsigned_iff)
  have c: "(0x80000000 :: f32) = 2 ^ 31" by simp
  have d: "bit (0x80000000 :: f32) n \<Longrightarrow> n = 31" for n
    unfolding c by (simp only: bit_exp_iff)
  have "?w AND 0x80000000 = 0"
    by (rule bit_eqI) (use b d in \<open>auto simp: bit_and_iff\<close>)
  then have "?w XOR 0x80000000 = ?w + 0x80000000"
    by (simp add: disjunctive_add_eq_xor)
  also have "\<dots> = f32_pack True e m"
    by (simp add: f32_pack_def)
  finally show ?thesis by (simp add: f32_neg_def)
qed

lemma f32_neg_pack:
  assumes "e < 256" "m < 8388608"
  shows "f32_neg (f32_pack s e m) = f32_pack (\<not> s) e m"
proof (cases s)
  case True
  have "f32_neg (f32_neg (f32_pack False e m)) = f32_pack False e m"
    by (simp add: f32_neg_def xor.assoc)
  with True show ?thesis using f32_neg_pack_False [OF assms] by simp
qed (use f32_neg_pack_False [OF assms] in simp)

section \<open>Exact rounding\<close>

lemma bitlen_shift: "0 < n \<Longrightarrow> bitlen (n * 2 ^ j) = bitlen n + j"
proof (induction j)
  case (Suc j)
  have "bitlen (n * 2 ^ Suc j) = Suc (bitlen (n * 2 ^ Suc j div 2))"
    using Suc.prems by (subst bitlen.simps) simp
  also have "n * 2 ^ Suc j div 2 = n * 2 ^ j" by simp
  finally show ?case using Suc by simp
qed simp

lemma round_shift_exact: "round_shift (a * 2 ^ r) r = a"
  by (simp add: round_shift_def Let_def)

lemma f32_round_shift:
  assumes "0 < n" "n < 16777216"
  shows "f32_round s (n * 2 ^ j) (- int j) = f32_round s n 0"
proof -
  define k where "k = bitlen n"
  have k: "k \<le> 24" "0 < k"
    using bitlen_le [of n 24] bitlen_bounds [of n] assms by (auto simp: k_def)
  have e1: "max (- int j + int (bitlen (n * 2 ^ j)) - 24) (- 149) = int k - 24"
    "max (0 + int (bitlen n) - 24) (- 149) = int k - 24"
    using k assms(1) by (auto simp: bitlen_shift k_def)
  have m: "(if int k - 24 \<le> - int j then n * 2 ^ j * 2 ^ nat (- int j - (int k - 24))
            else round_shift (n * 2 ^ j) (nat (int k - 24 - - int j))) = n * 2 ^ (24 - k)"
  proof (cases "int k - 24 \<le> - int j")
    case True
    then have "nat (- int j - (int k - 24)) = 24 - k - j" "j \<le> 24 - k" using k by linarith+
    then show ?thesis using True by (simp add: power_add [symmetric] mult.assoc)
  next
    case False
    then have q: "nat (int k - 24 - - int j) = j - (24 - k)" "24 - k < j" using k by linarith+
    then have "n * 2 ^ j = n * 2 ^ (24 - k) * 2 ^ (j - (24 - k))" by (simp add: power_add [symmetric] mult.assoc)
    then have "round_shift (n * 2 ^ j) (j - (24 - k)) = n * 2 ^ (24 - k)"
      by (simp only: round_shift_exact)
    with False q show ?thesis by simp
  qed
  have m0: "(if int k - 24 \<le> 0 then n * 2 ^ nat (0 - (int k - 24))
            else round_shift n (nat (int k - 24 - 0))) = n * 2 ^ (24 - k)"
  proof -
    have "nat (0 - (int k - 24)) = 24 - k" using k by linarith
    then show ?thesis using k by simp
  qed
  show ?thesis
    unfolding f32_round_def Let_def e1 m m0 using assms(1) by simp
qed

lemma f32_of_int_round: "v \<noteq> 0 \<Longrightarrow> f32_of_int v = f32_round (v < 0) (nat \<bar>v\<bar>) 0"
  by (simp add: f32_of_int_def)

section \<open>Integers in floats\<close>

definition f32_is_int :: "f32 \<Rightarrow> int \<Rightarrow> bool" where
  "f32_is_int w v \<longleftrightarrow> w = f32_of_int v \<or> v = 0 \<and> w = f32_pack True 0 0"

lemma f32_is_int_0: "f32_is_int w 0 \<longleftrightarrow> (\<exists>s. w = f32_pack s 0 0)"
  by (auto simp: f32_is_int_def f32_of_int_0) (metis (full_types))

lemma f32_is_int_of_int [simp]: "f32_is_int (f32_of_int v) v"
  by (simp add: f32_is_int_def)

lemma f32_is_int_to_int:
  assumes "f32_is_int w v" "\<bar>v\<bar> < 16777216"
  shows "f32_to_int w = Some v"
proof (cases "w = f32_of_int v")
  case False
  then have "v = 0" "w = f32_pack True 0 0" using assms by (auto simp: f32_is_int_def)
  then show ?thesis
    by (simp add: f32_to_int_def f32_is_finite_def f32_pack_fields f32_scale_def f32_sig_def c_checked_def in_int32_def)
qed (use assms f32_to_of_int in simp)

text \<open>The fields of such a float: its value is \<open>v\<close>, and its scale is not positive.\<close>

lemma f32_is_int_fields:
  assumes "f32_is_int w v" "\<bar>v\<bar> < 16777216"
  shows "\<not> f32_is_nan w" "\<not> f32_is_inf w"
    and "\<exists>j. f32_scale w = - int j \<and> (if f32_sign w then -1 else 1) * int (f32_sig w) = v * 2 ^ j"
    and "v \<noteq> 0 \<Longrightarrow> f32_sign w \<longleftrightarrow> v < 0"
proof -
  have "\<not> f32_is_nan w \<and> \<not> f32_is_inf w \<and>
     (\<exists>j. f32_scale w = - int j \<and> (if f32_sign w then -1 else 1) * int (f32_sig w) = v * 2 ^ j) \<and>
     (v \<noteq> 0 \<longrightarrow> f32_sign w = (v < 0))"
  proof (cases "v = 0")
    case True
    with assms obtain s where w: "w = f32_pack s 0 0" by (auto simp: f32_is_int_0)
    have "f32_scale w = - int 149" by (simp add: w f32_scale_def f32_pack_fields)
    with True show ?thesis
      by (auto simp: w f32_pack_fields f32_is_nan_def f32_is_inf_def f32_sig_def)
  next
    case False
    define n where "n = nat \<bar>v\<bar>"
    define k where "k = bitlen n"
    note p = f32_of_small_int [OF assms(2) False, folded n_def, folded k_def]
    have w: "w = f32_pack (v < 0) (k + 126) (n * 2 ^ (24 - k) - 8388608)"
      using assms(1) False p(1) by (simp add: f32_is_int_def)
    have b: "k + 126 < 256" "n * 2 ^ (24 - k) - 8388608 < 8388608" using p by auto
    note fl = f32_pack_fields [OF b, of "v < 0", folded w]
    have sig: "f32_sig w = n * 2 ^ (24 - k)" using fl p by (simp add: f32_sig_def)
    have "f32_scale w = - int (24 - k)" using fl p by (simp add: f32_scale_def)
    moreover have "(if f32_sign w then -1 else 1) * int (f32_sig w) = v * 2 ^ (24 - k)"
      unfolding sig fl(2) by (simp add: n_def)
    ultimately have "\<exists>j. f32_scale w = - int j \<and> (if f32_sign w then -1 else 1) * int (f32_sig w) = v * 2 ^ j"
      by blast
    then show ?thesis
      using fl(2,3) p(4) by (simp add: f32_is_nan_def f32_is_inf_def)
  qed
  then show "\<not> f32_is_nan w" "\<not> f32_is_inf w"
    "\<exists>j. f32_scale w = - int j \<and> (if f32_sign w then -1 else 1) * int (f32_sig w) = v * 2 ^ j"
    "v \<noteq> 0 \<Longrightarrow> f32_sign w \<longleftrightarrow> v < 0" by blast+
qed

lemma f32_is_int_round:
  assumes "x \<noteq> 0" "\<bar>x\<bar> < 16777216"
  shows "f32_is_int (f32_round (x < 0) (nat (\<bar>x\<bar> * 2 ^ j)) (- int j)) x"
proof -
  have "nat (\<bar>x\<bar> * 2 ^ j) = nat \<bar>x\<bar> * 2 ^ j" by (simp add: nat_mult_distrib nat_power_eq)
  moreover have "0 < nat \<bar>x\<bar>" "nat \<bar>x\<bar> < 16777216" using assms by auto
  ultimately show ?thesis
    using f32_round_shift f32_of_int_round [OF assms(1)] by (simp add: f32_is_int_def)
qed

lemma f32_neg_is_int:
  assumes "f32_is_int w v" "\<bar>v\<bar> < 16777216"
  shows "f32_is_int (f32_neg w) (- v)"
proof (cases "v = 0")
  case True
  with assms obtain s where "w = f32_pack s 0 0" by (auto simp: f32_is_int_0)
  with True show ?thesis by (auto simp: f32_is_int_0 f32_neg_pack)
next
  case False
  define n where "n = nat \<bar>v\<bar>"
  define k where "k = bitlen n"
  note p = f32_of_small_int [OF assms(2) False, folded n_def, folded k_def]
  have nv: "\<bar>- v\<bar> < 16777216" "- v \<noteq> 0" "nat \<bar>- v\<bar> = n" using assms False by (auto simp: n_def)
  note q = f32_of_small_int [OF nv(1,2), unfolded nv(3), folded k_def]
  have b: "k + 126 < 256" "n * 2 ^ (24 - k) - 8388608 < 8388608" using p by auto
  have "w = f32_of_int v" using assms(1) False by (simp add: f32_is_int_def)
  moreover have "(\<not> v < 0) = (- v < 0)" using False by auto
  ultimately show ?thesis
    unfolding f32_is_int_def p(1) q(1) using f32_neg_pack [OF b, of "v < 0"] by simp
qed

lemma f32_signed_sig_int:
  assumes "f32_is_int w v" "\<bar>v\<bar> < 16777216" "f32_scale w = - int j" "j \<le> i"
  shows "f32_signed_sig w (- int i) = v * 2 ^ i"
proof -
  obtain j' where j': "f32_scale w = - int j'" "(if f32_sign w then -1 else 1) * int (f32_sig w) = v * 2 ^ j'"
    using f32_is_int_fields(3) [OF assms(1,2)] by blast
  have jj: "j' = j" using j'(1) assms(3) by simp
  have "nat (f32_scale w - - int i) = i - j" using assms(3,4) by simp
  then have "f32_signed_sig w (- int i) = v * 2 ^ j * 2 ^ (i - j)"
    unfolding f32_signed_sig_def j'(2) jj by simp
  also have "\<dots> = v * 2 ^ i" using assms(4) by (simp add: mult.assoc power_add [symmetric])
  finally show ?thesis .
qed

lemma f32_add_is_int:
  assumes "f32_is_int a x" "f32_is_int b y" "\<bar>x\<bar> < 16777216" "\<bar>y\<bar> < 16777216" "\<bar>x + y\<bar> < 16777216"
  shows "f32_is_int (f32_add a b) (x + y)"
proof -
  note fa = f32_is_int_fields [OF assms(1,3)] and fb = f32_is_int_fields [OF assms(2,4)]
  obtain ja jb where j: "f32_scale a = - int ja" "f32_scale b = - int jb" using fa(3) fb(3) by blast
  define i where "i = max ja jb"
  have e: "min (f32_scale a) (f32_scale b) = - int i" using j by (auto simp: i_def)
  have s: "f32_signed_sig a (- int i) + f32_signed_sig b (- int i) = (x + y) * 2 ^ i"
    using f32_signed_sig_int [OF assms(1,3) j(1), of i] f32_signed_sig_int [OF assms(2,4) j(2), of i]
    by (simp add: i_def algebra_simps)
  have r: "f32_add a b = (if (x + y) * 2 ^ i = 0 then f32_pack (f32_sign a \<and> f32_sign b) 0 0
      else f32_round ((x + y) * 2 ^ i < 0) (nat \<bar>(x + y) * 2 ^ i\<bar>) (- int i))"
    unfolding f32_add_def e Let_def s using fa(1,2) fb(1,2) by simp
  show ?thesis
  proof (cases "x + y = 0")
    case True
    then show ?thesis unfolding r by (auto simp: f32_is_int_0)
  next
    case False
    have "(x + y) * 2 ^ i \<noteq> 0" "((x + y) * 2 ^ i < 0) = (x + y < 0)" "\<bar>(x + y) * 2 ^ i\<bar> = \<bar>x + y\<bar> * 2 ^ i"
      using False by (simp_all add: abs_mult mult_less_0_iff)
    then show ?thesis using f32_is_int_round [OF False assms(5), of i] unfolding r by simp
  qed
qed

lemma f32_neg_not_nan: "f32_is_int w v \<Longrightarrow> \<bar>v\<bar> < 16777216 \<Longrightarrow> \<not> f32_is_nan (f32_neg w)"
  using f32_neg_is_int f32_is_int_fields(1) [of "f32_neg w" "- v"] by simp

lemma f32_sub_is_int:
  assumes "f32_is_int a x" "f32_is_int b y" "\<bar>x\<bar> < 16777216" "\<bar>y\<bar> < 16777216" "\<bar>x - y\<bar> < 16777216"
  shows "f32_is_int (f32_sub a b) (x - y)"
  using f32_add_is_int [OF assms(1) f32_neg_is_int [OF assms(2,4)]] assms
    f32_is_int_fields(1) [OF assms(1,3)] f32_is_int_fields(1) [OF assms(2,4)]
  by (simp add: f32_sub_def)

lemma f32_mul_is_int:
  assumes "f32_is_int a x" "f32_is_int b y" "\<bar>x\<bar> < 16777216" "\<bar>y\<bar> < 16777216" "\<bar>x * y\<bar> < 16777216"
  shows "f32_is_int (f32_mul a b) (x * y)"
proof -
  note fa = f32_is_int_fields [OF assms(1,3)] and fb = f32_is_int_fields [OF assms(2,4)]
  have absval: "int m = \<bar>v\<bar> * 2 ^ j" if "(if s then -1 else 1) * int m = v * 2 ^ j" for s m v j
  proof -
    have "\<bar>v * 2 ^ j\<bar> = int m" using that by (cases s) (auto simp: that [symmetric])
    then show ?thesis by (simp add: abs_mult)
  qed
  obtain ja where ja: "f32_scale a = - int ja" "int (f32_sig a) = \<bar>x\<bar> * 2 ^ ja" using fa(3) absval by blast
  obtain jb where jb: "f32_scale b = - int jb" "int (f32_sig b) = \<bar>y\<bar> * 2 ^ jb" using fb(3) absval by blast
  have "int (f32_sig a * f32_sig b) = \<bar>x * y\<bar> * 2 ^ (ja + jb)"
    using ja(2) jb(2) by (simp add: abs_mult power_add)
  then have n: "f32_sig a * f32_sig b = nat (\<bar>x * y\<bar> * 2 ^ (ja + jb))" by (metis nat_int)
  have r: "f32_mul a b = f32_round (f32_sign a \<noteq> f32_sign b) (f32_sig a * f32_sig b) (- int (ja + jb))"
    unfolding f32_mul_def Let_def using fa(1,2) fb(1,2) ja(1) jb(1) by simp
  show ?thesis
  proof (cases "x * y = 0")
    case True
    then show ?thesis unfolding r n by (auto simp: f32_is_int_0 f32_round_def)
  next
    case False
    then have "(f32_sign a \<noteq> f32_sign b) = (x * y < 0)"
      using fa(4) fb(4) by (auto simp: mult_less_0_iff)
    then show ?thesis
      unfolding r n using f32_is_int_round [OF False assms(5), of "ja + jb"] by (simp only:)
  qed
qed


end
