(* ===== verification/Prune.thy ===== *)
theory Prune
  imports Ast FloatOps
begin

text \<open>
  Reduction of the syntax tree: \<open>SW/compiler/prune.cpp\<close>. Constant expressions are computed (\<open>calc\<close>,
  \<open>prune3\<close>), composite nodes with one child are left out (\<open>prune1\<close>), nested composite nodes with the same
  token are joined (\<open>prune2\<close>), and \<open>sizeof\<close> becomes a constant.
\<close>

section \<open>Constant expressions\<close>

text \<open>
  \<open>calc\<close>: the value as a \<open>float\<close>, and whether a float constant took part; \<open>None\<close> when the node is not a
  constant expression. The remainder has the sign of its left operand.
\<close>

definition c_rem :: "int \<Rightarrow> int \<Rightarrow> int option" where
  "c_rem a b = (if b = 0 \<or> \<not> in_int32 (sgn a * sgn b * (\<bar>a\<bar> div \<bar>b\<bar>)) then None
                else Some (sgn a * (\<bar>a\<bar> mod \<bar>b\<bar>)))"

definition int_op :: "eTOKEN \<Rightarrow> int \<Rightarrow> int \<Rightarrow> int option" where
  "int_op t a b =
     (if t = eTOKEN_multiplicative_expression_mod then c_rem a b
      else if t = eTOKEN_shift_expression_shl then c_shl a b
      else if t = eTOKEN_shift_expression_shr then c_shr a b
      else if t = eTOKEN_inclusive_or_expression then Some (a OR b)
      else if t = eTOKEN_exclusive_or_expression then Some (a XOR b)
      else Some (a AND b))"

definition calc_op :: "eTOKEN \<Rightarrow> f32 \<times> bool \<Rightarrow> f32 \<times> bool \<Rightarrow> (f32 \<times> bool) option res" where
  "calc_op t r1 r2 =
     (let (v1, fl1) = r1; (v2, fl2) = r2 in
      if t = eTOKEN_additive_expression_add then Inr (Some (f32_add v1 v2, fl1 \<or> fl2))
      else if t = eTOKEN_additive_expression_sub then Inr (Some (f32_sub v1 v2, fl1 \<or> fl2))
      else if t = eTOKEN_multiplicative_expression_mul then Inr (Some (f32_mul v1 v2, fl1 \<or> fl2))
      else if t = eTOKEN_multiplicative_expression_div then Inr (Some (f32_div v1 v2, fl1 \<or> fl2))
      else if fl1 \<or> fl2 then Inr None
      else res_of_option Undefined
             (case (f32_to_int v1, f32_to_int v2) of
                (Some a, Some b) \<Rightarrow> map_option (\<lambda>i. Some (f32_of_int i, False)) (int_op t a b)
              | _ \<Rightarrow> None))"

definition binary_tokens :: "eTOKEN list" where
  "binary_tokens =
     [eTOKEN_additive_expression_add, eTOKEN_additive_expression_sub, eTOKEN_multiplicative_expression_mul,
      eTOKEN_multiplicative_expression_div, eTOKEN_multiplicative_expression_mod, eTOKEN_shift_expression_shl,
      eTOKEN_shift_expression_shr, eTOKEN_inclusive_or_expression, eTOKEN_exclusive_or_expression,
      eTOKEN_and_expression]"

definition is_operator :: "string \<Rightarrow> cAstNode \<Rightarrow> bool res" where
  "is_operator s n =
     (if getID n = eTOKEN_unary_operator then res_bind (getStringValue n) (\<lambda>u. Inr (u = s)) else Inr False)"

fun calc :: "cAstNode \<Rightarrow> (f32 \<times> bool) option res" where
  "calc (AstComposite t b cs) =
     (if t = eTOKEN_I_CONSTANT \<or> t = eTOKEN_F_CONSTANT then Inl BadCast
      else if t = eTOKEN_unary_expression then
        (case cs of
           [] \<Rightarrow> Inl NullPointer
         | [x] \<Rightarrow> res_bind (is_operator ''-'' x) (\<lambda>m. if m then Inl NullPointer else Inr None)
         | x # y # _ \<Rightarrow> res_bind (is_operator ''-'' x) (\<lambda>m.
             if m then res_bind (calc y) (\<lambda>r. Inr (map_option (\<lambda>(v, fl). (f32_neg v, fl)) r)) else Inr None))
      else if t \<in> set binary_tokens then
        (case cs of
           x # y # _ \<Rightarrow> res_bind (calc x) (\<lambda>r1. case r1 of
               None \<Rightarrow> Inr None
             | Some v1 \<Rightarrow> res_bind (calc y) (\<lambda>r2. case r2 of None \<Rightarrow> Inr None | Some v2 \<Rightarrow> calc_op t v1 v2))
         | _ \<Rightarrow> Inl AssertFail)
      else Inr None)"
| "calc n =
     (if getID n = eTOKEN_I_CONSTANT then res_bind (getIntValue n) (\<lambda>i. Inr (Some (f32_of_int i, False)))
      else if getID n = eTOKEN_F_CONSTANT then res_bind (getFloatValue n) (\<lambda>f. Inr (Some (f, True)))
      else if getID n = eTOKEN_unary_expression then Inl NullPointer
      else if getID n \<in> set binary_tokens then Inl AssertFail
      else Inr None)"

text \<open>\<open>prune3\<close>: every child that is a constant expression becomes one constant.\<close>

definition const_node :: "f32 \<times> bool \<Rightarrow> cAstNode res" where
  "const_node r =
     (if snd r then Inr (AstFloat eTOKEN_F_CONSTANT (fst r))
      else res_bind (res_of_option Undefined (f32_to_int (fst r))) (\<lambda>i.
             Inr (AstInt eTOKEN_I_CONSTANT i False None)))"

fun prune3 :: "cAstNode \<Rightarrow> cAstNode res" and prune3s :: "cAstNode list \<Rightarrow> cAstNode list res" where
  "prune3 (AstComposite t b cs) = res_bind (prune3s cs) (\<lambda>ds. Inr (AstComposite t b ds))"
| "prune3 (AstToken t p g) = Inr (AstToken t p g)"
| "prune3 (AstInt t i u g) = Inr (AstInt t i u g)"
| "prune3 (AstFloat t f) = Inr (AstFloat t f)"
| "prune3 (AstString t s) = Inr (AstString t s)"
| "prune3 (AstIdentifier t s i) = Inr (AstIdentifier t s i)"
| "prune3s [] = Inr []"
| "prune3s (c # cs) =
     res_bind (calc c) (\<lambda>r.
     res_bind (case r of Some v \<Rightarrow> const_node v | None \<Rightarrow> prune3 c) (\<lambda>d.
     res_bind (prune3s cs) (\<lambda>ds. Inr (d # ds))))"

section \<open>Nodes with one child\<close>

definition exceptionLst :: "eTOKEN list" where
  "exceptionLst =
     [eTOKEN_argument_expression_list, eTOKEN_block_item_list, eTOKEN_block_item, eTOKEN_expression,
      eTOKEN_declarator, eTOKEN_init_declarator_list, eTOKEN_jump_statement, eTOKEN_POINTER_SCOPE,
      eTOKEN_direct_declarator12, eTOKEN_parameter_list, eTOKEN_initializer_list, eTOKEN_initializer]"

text \<open>\<open>prune1\<close>: the result is the node that takes the place of this one.\<close>

fun prune1 :: "cAstNode \<Rightarrow> cAstNode" where
  "prune1 (AstComposite t b cs) =
     (case map prune1 cs of
        [d] \<Rightarrow> if t \<in> set exceptionLst then AstComposite t b [d] else d
      | ds \<Rightarrow> AstComposite t b ds)"
| "prune1 (AstToken t p g) = AstToken t p g"
| "prune1 (AstInt t i u g) = AstInt t i u g"
| "prune1 (AstFloat t f) = AstFloat t f"
| "prune1 (AstString t s) = AstString t s"
| "prune1 (AstIdentifier t s i) = AstIdentifier t s i"

text \<open>On the root, only the children change.\<close>

definition prune1_root :: "cAstNode \<Rightarrow> cAstNode" where
  "prune1_root n = (case n of AstComposite t b cs \<Rightarrow> AstComposite t b (map prune1 cs) | _ \<Rightarrow> n)"

section \<open>Nested nodes with the same token\<close>

text \<open>
  \<open>prune2\<close>: the children of a child with the same token take the place of the child, and the loop goes on
  with the first of them. When there is none, the loop ends there.
\<close>

function (sequential) prune2 :: "cAstNode \<Rightarrow> cAstNode" and prune2s :: "eTOKEN \<Rightarrow> cAstNode list \<Rightarrow> cAstNode list" where
  "prune2 (AstComposite t b cs) = AstComposite t b (prune2s t cs)"
| "prune2 n = n"
| "prune2s t [] = []"
| "prune2s t (c # cs) =
     (let d = prune2 c
      in if is_Composite d \<and> getID d = t
         then (if getChildList d = [] then cs else prune2s t (getChildList d @ cs))
         else d # prune2s t cs)"
  by pat_completeness auto

lemma size_list_append: "size_list f (xs @ ys) = size_list f xs + size_list f ys"
  by (induction xs) auto

lemma size_children: "is_Composite d \<Longrightarrow> size d = Suc (size_list size (getChildList d))"
  by (cases d) auto

lemma prune2_size:
  "prune2_prune2s_dom (Inl n) \<Longrightarrow> size (prune2 n) \<le> size n"
  "prune2_prune2s_dom (Inr (t, cs)) \<Longrightarrow> size_list size (prune2s t cs) \<le> size_list size cs"
proof (induction n and t cs rule: prune2_prune2s.pinduct, goal_cases)
  case (8 t c cs)
  then show ?case
    using size_children [of "prune2 c"]
    by (auto simp: prune2s.psimps Let_def size_list_append)
qed (simp_all add: prune2.psimps prune2s.psimps)

termination prune2
proof (relation "measure (\<lambda>x. case x of Inl n \<Rightarrow> 2 * size n | Inr (t, cs) \<Rightarrow> Suc (2 * size_list size cs))")
  fix t c cs d
  assume "d = prune2 c" "is_Composite d \<and> getID d = t" "getChildList d \<noteq> []" and dom: "prune2_prune2s_dom (Inl c)"
  then show "(Inr (t, getChildList d @ cs), Inr (t, c # cs))
      \<in> measure (\<lambda>x. case x of Inl n \<Rightarrow> 2 * size n | Inr (t, cs) \<Rightarrow> Suc (2 * size_list size cs))"
    using prune2_size(1) [OF dom] size_children [of d] by (auto simp: size_list_append)
qed auto

section \<open>The size of a variable\<close>

text \<open>
  \<open>calc_sizeof\<close>: the number of elements of a variable, or of a part of an array with constant indices. The
  list is the node with its siblings, as behind a child pointer.
\<close>

fun const_indices :: "cAstNode list \<Rightarrow> nat res" where
  "const_indices [] = Inr 0"
| "const_indices (n # ns) =
     (if getID n \<noteq> eTOKEN_expression then Inl CompileError
      else (case getChildList n of
          [] \<Rightarrow> Inl CompileError
        | m # _ \<Rightarrow> if getID m \<noteq> eTOKEN_I_CONSTANT then Inl CompileError
                  else res_bind (const_indices ns) (\<lambda>k. Inr (Suc k))))"

fun product_of :: "int list \<Rightarrow> int \<Rightarrow> int option" where
  "product_of [] p = Some p"
| "product_of (d # ds) p = Option.bind (c_mul p d) (product_of ds)"

definition calc_sizeof :: "idents \<Rightarrow> cAstNode list \<Rightarrow> int res" where
  "calc_sizeof I ns =
     (case ns of
        [] \<Rightarrow> Inl NullPointer
      | n # _ \<Rightarrow>
        res_bind
          (if getID n = eTOKEN_IDENTIFIER then res_bind (getIdentifier n) (\<lambda>a. Inr (a, 0))
           else if getID n = eTOKEN_postfix_expression2 then
             (case getChildList n of
                [] \<Rightarrow> Inl CompileError
              | m # ms \<Rightarrow> res_bind (getIdentifier m) (\<lambda>a. if a = None then Inl CompileError
                          else res_bind (const_indices ms) (\<lambda>k. Inr (a, k))))
           else Inl CompileError)
          (\<lambda>(a, k). res_bind (deref a) (\<lambda>i.
             if k > m_num_dim (ident_at I i) then Inl CompileError
             else res_of_option Undefined (product_of (drop k (m_dim (ident_at I i))) 1))))"

definition is_sizeof :: "cAstNode \<Rightarrow> bool" where
  "is_sizeof n \<longleftrightarrow> getID n = eTOKEN_unary_expression \<and> getChild [eTOKEN_SIZEOF] n \<noteq> None"

definition sizeof_node :: "idents \<Rightarrow> cAstNode \<Rightarrow> cAstNode res" where
  "sizeof_node I n =
     (case getChild [eTOKEN_expression] n of
        None \<Rightarrow> Inl CompileError
      | Some e \<Rightarrow> res_bind (calc_sizeof I (getChildList e)) (\<lambda>k. Inr (AstInt eTOKEN_I_CONSTANT k False None)))"

fun prune_sizeof :: "idents \<Rightarrow> cAstNode \<Rightarrow> cAstNode res" and prune_sizeofs :: "idents \<Rightarrow> cAstNode list \<Rightarrow> cAstNode list res" where
  "prune_sizeof I (AstComposite t b cs) = res_bind (prune_sizeofs I cs) (\<lambda>ds. Inr (AstComposite t b ds))"
| "prune_sizeof I (AstToken t p g) = Inr (AstToken t p g)"
| "prune_sizeof I (AstInt t i u g) = Inr (AstInt t i u g)"
| "prune_sizeof I (AstFloat t f) = Inr (AstFloat t f)"
| "prune_sizeof I (AstString t s) = Inr (AstString t s)"
| "prune_sizeof I (AstIdentifier t s i) = Inr (AstIdentifier t s i)"
| "prune_sizeofs I [] = Inr []"
| "prune_sizeofs I (c # cs) =
     res_bind (if is_sizeof c then sizeof_node I c else prune_sizeof I c) (\<lambda>d.
     res_bind (prune_sizeofs I cs) (\<lambda>ds. Inr (d # ds)))"

text \<open>\<open>prune\<close> on the root of a program.\<close>

fun prune_functions :: "idents \<Rightarrow> cAstNode list \<Rightarrow> cAstNode list res" where
  "prune_functions I [] = Inr []"
| "prune_functions I (f # fs) =
     res_bind (if getID f = eTOKEN_function_definition2 then prune_sizeof I f else Inr f) (\<lambda>g.
     res_bind (prune_functions I fs) (\<lambda>gs. Inr (g # gs)))"

fun with_children :: "cAstNode \<Rightarrow> cAstNode list \<Rightarrow> cAstNode" where
  "with_children (AstComposite t b cs) ds = AstComposite t b ds"
| "with_children n ds = n"

definition prune :: "idents \<Rightarrow> bool \<Rightarrow> cAstNode \<Rightarrow> cAstNode res" where
  "prune I full root =
     res_bind (prune3 (if full then prune1_root root else root)) (\<lambda>r3.
     let r2 = (if full then prune2 r3 else r3)
     in res_bind (prune_functions I (getChildList r2)) (\<lambda>cs. Inr (with_children r2 cs)))"

section \<open>Values of expressions\<close>

text \<open>
  The value of an integer expression, with the operators given by \<open>f\<close> and the variables by \<open>env\<close>. A node
  with more than two operands is read from the left. What is not an integer expression has no value.
\<close>

definition opt2 :: "('a \<Rightarrow> 'a \<Rightarrow> 'a option) \<Rightarrow> 'a option \<Rightarrow> 'a option \<Rightarrow> 'a option" where
  "opt2 g x y = Option.bind x (\<lambda>a. Option.bind y (g a))"

lemma opt2_simps [simp]: "opt2 g None y = None" "opt2 g x None = None" "opt2 g (Some a) (Some b) = g a b"
  by (auto simp: opt2_def split: Option.bind_splits)

lemma opt2_eq_Some: "opt2 g x y = Some c \<longleftrightarrow> (\<exists>a b. x = Some a \<and> y = Some b \<and> g a b = Some c)"
  by (cases x; cases y) auto

fun chain :: "('a \<Rightarrow> 'a \<Rightarrow> 'a option) \<Rightarrow> 'a option list \<Rightarrow> 'a option" where
  "chain g [] = None"
| "chain g (v # vs) = foldl (opt2 g) v vs"

definition is_minus :: "cAstNode list \<Rightarrow> bool" where
  "is_minus cs \<longleftrightarrow> length cs = 2 \<and> is_operator ''-'' (hd cs) = Inr True"

fun aval :: "(eTOKEN \<Rightarrow> int \<Rightarrow> int \<Rightarrow> int option) \<Rightarrow> (string \<Rightarrow> int option) \<Rightarrow> cAstNode \<Rightarrow> int option" where
  "aval f env (AstComposite t b cs) =
     (if t = eTOKEN_expression then (case map (aval f env) cs of [v] \<Rightarrow> v | _ \<Rightarrow> None)
      else if t = eTOKEN_unary_expression then
        (if is_minus cs then opt2 (f eTOKEN_additive_expression_sub) (Some 0) (last (map (aval f env) cs)) else None)
      else if t \<in> set binary_tokens \<and> 2 \<le> length cs then chain (f t) (map (aval f env) cs)
      else None)"
| "aval f env (AstInt t i u g) = (if t = eTOKEN_I_CONSTANT then Some i else None)"
| "aval f env (AstIdentifier t s i) = (if t = eTOKEN_IDENTIFIER then env s else None)"
| "aval f env _ = None"

text \<open>The operators of C on \<open>int\<close>, and the same with all values below 24 bits and without division.\<close>

definition c_op :: "eTOKEN \<Rightarrow> int \<Rightarrow> int \<Rightarrow> int option" where
  "c_op t a b =
     (if t = eTOKEN_additive_expression_add then c_add a b
      else if t = eTOKEN_additive_expression_sub then c_sub a b
      else if t = eTOKEN_multiplicative_expression_mul then c_mul a b
      else if t = eTOKEN_multiplicative_expression_div then
        (if b = 0 then None else c_checked (sgn a * sgn b * (\<bar>a\<bar> div \<bar>b\<bar>)))
      else int_op t a b)"

definition below24 :: "int \<Rightarrow> int option" where
  "below24 v = (if \<bar>v\<bar> < 16777216 then Some v else None)"

definition small_op :: "eTOKEN \<Rightarrow> int \<Rightarrow> int \<Rightarrow> int option" where
  "small_op t a b = (if t = eTOKEN_multiplicative_expression_div then None else Option.bind (c_op t a b) below24)"

fun small_value :: "cAstNode \<Rightarrow> int option" where
  "small_value (AstComposite t b cs) =
     (case map small_value cs of
        [x, y] \<Rightarrow> if t = eTOKEN_unary_expression
                  then (if is_minus cs then opt2 (small_op eTOKEN_additive_expression_sub) (Some 0) y else None)
                  else if t \<in> set binary_tokens then opt2 (small_op t) x y
                  else None
      | _ \<Rightarrow> None)"
| "small_value (AstInt t i u g) = (if t = eTOKEN_I_CONSTANT then below24 i else None)"
| "small_value _ = None"

lemma below24_Some: "below24 a = Some v \<longleftrightarrow> \<bar>a\<bar> < 16777216 \<and> v = a"
  by (auto simp: below24_def)

lemma small_op_Some:
  "small_op t a b = Some v \<longleftrightarrow>
     t \<noteq> eTOKEN_multiplicative_expression_div \<and> c_op t a b = Some v \<and> \<bar>v\<bar> < 16777216"
  by (auto simp: small_op_def bind_eq_Some_conv below24_Some)

lemma calc_op_small:
  assumes "t \<in> set binary_tokens" "small_op t x y = Some v"
    and "f32_is_int a x" "f32_is_int b y" "\<bar>x\<bar> < 16777216" "\<bar>y\<bar> < 16777216"
  shows "\<exists>w. calc_op t (a, False) (b, False) = Inr (Some (w, False)) \<and> f32_is_int w v"
proof -
  have v: "c_op t x y = Some v" "\<bar>v\<bar> < 16777216" "t \<noteq> eTOKEN_multiplicative_expression_div"
    using assms(2) by (auto simp: small_op_Some)
  consider (add) "t = eTOKEN_additive_expression_add" | (sub) "t = eTOKEN_additive_expression_sub"
    | (mul) "t = eTOKEN_multiplicative_expression_mul"
    | (other) "t \<noteq> eTOKEN_additive_expression_add" "t \<noteq> eTOKEN_additive_expression_sub" "t \<noteq> eTOKEN_multiplicative_expression_mul"
    by blast
  then show ?thesis
  proof cases
    case add
    then have "v = x + y" using v(1) by (simp add: c_op_def c_add_def c_checked_def split: if_splits)
    then show ?thesis using add f32_add_is_int [OF assms(3-6)] v(2) by (simp add: calc_op_def)
  next
    case sub
    then have "v = x - y" using v(1) by (simp add: c_op_def c_sub_def c_checked_def split: if_splits)
    then show ?thesis using sub f32_sub_is_int [OF assms(3-6)] v(2) by (simp add: calc_op_def)
  next
    case mul
    then have "v = x * y" using v(1) by (simp add: c_op_def c_mul_def c_checked_def split: if_splits)
    then show ?thesis using mul f32_mul_is_int [OF assms(3-6)] v(2) by (simp add: calc_op_def)
  next
    case other
    then have "int_op t x y = Some v" using v(1,3) by (simp add: c_op_def)
    then show ?thesis
      using other v(3) f32_is_int_to_int [OF assms(3,5)] f32_is_int_to_int [OF assms(4,6)]
      by (simp add: calc_op_def)
  qed
qed

lemma small_value_bound: "small_value n = Some v \<Longrightarrow> \<bar>v\<bar> < 16777216"
  by (cases n) (auto simp: below24_Some opt2_eq_Some small_op_Some split: list.splits if_splits)

lemma calc_small:
  "small_value n = Some v \<Longrightarrow> \<exists>w. calc n = Inr (Some (w, False)) \<and> f32_is_int w v"
proof (induction n arbitrary: v)
  case (AstComposite t b cs)
  from AstComposite.prems obtain x y where cs: "cs = [x, y]" by (auto split: list.splits simp: map_eq_Cons_conv)
  show ?case
  proof (cases "t = eTOKEN_unary_expression")
    case True
    with AstComposite.prems cs have m: "is_minus cs" "opt2 (small_op eTOKEN_additive_expression_sub) (Some 0) (small_value y) = Some v"
      by (auto split: if_splits)
    then obtain u where u: "small_value y = Some u" "small_op eTOKEN_additive_expression_sub 0 u = Some v"
      by (auto simp: opt2_eq_Some)
    then have "v = - u" by (auto simp: small_op_Some c_op_def c_sub_def c_checked_def split: if_splits)
    moreover obtain w where "calc y = Inr (Some (w, False))" "f32_is_int w u"
      using AstComposite.IH [of y] u(1) cs by auto
    ultimately show ?thesis
      using True cs m(1) f32_neg_is_int [of w u] small_value_bound [OF u(1)] by (auto simp: is_minus_def)
  next
    case False
    with AstComposite.prems cs have m: "t \<in> set binary_tokens" "opt2 (small_op t) (small_value x) (small_value y) = Some v"
      by (auto split: if_splits)
    then obtain p q where pq: "small_value x = Some p" "small_value y = Some q" "small_op t p q = Some v"
      by (auto simp: opt2_eq_Some)
    obtain wp where wp: "calc x = Inr (Some (wp, False))" "f32_is_int wp p"
      using AstComposite.IH [of x] pq(1) cs by auto
    obtain wq where wq: "calc y = Inr (Some (wq, False))" "f32_is_int wq q"
      using AstComposite.IH [of y] pq(2) cs by auto
    have "t \<noteq> eTOKEN_I_CONSTANT" "t \<noteq> eTOKEN_F_CONSTANT" using m(1) by (auto simp: binary_tokens_def)
    then show ?thesis
      using False m(1) cs wp(1) wq(1)
        calc_op_small [OF m(1) pq(3) wp(2) wq(2) small_value_bound [OF pq(1)] small_value_bound [OF pq(2)]]
      by simp
  qed
next
  case (AstInt t i u g)
  then show ?case by (auto simp: below24_Some split: if_splits)
qed auto


section \<open>Constant folding keeps values\<close>

text \<open>As the parser builds them, binary operators have two operands.\<close>

fun two_operands :: "cAstNode \<Rightarrow> bool" where
  "two_operands (AstComposite t b cs) \<longleftrightarrow> (t \<in> set binary_tokens \<longrightarrow> length cs = 2) \<and> (\<forall>c\<in>set cs. two_operands c)"
| "two_operands _ \<longleftrightarrow> True"

text \<open>What is folded is an expression of integers below 24 bits without division, or has a float constant.\<close>

fun exact_folds :: "cAstNode \<Rightarrow> bool" where
  "exact_folds (AstComposite t b cs) \<longleftrightarrow>
     small_value (AstComposite t b cs) \<noteq> None \<or>
     (case calc (AstComposite t b cs) of
        Inl e \<Rightarrow> False
      | Inr None \<Rightarrow> \<forall>c\<in>set cs. exact_folds c
      | Inr (Some (v, fl)) \<Rightarrow> fl)"
| "exact_folds n \<longleftrightarrow>
     small_value n \<noteq> None \<or> (case calc n of Inl e \<Rightarrow> False | Inr None \<Rightarrow> True | Inr (Some (v, fl)) \<Rightarrow> fl)"

lemma exact_folds_cases:
  assumes "exact_folds n"
  shows "small_value n \<noteq> None \<or> (\<exists>v. calc n = Inr (Some (v, True))) \<or>
     calc n = Inr None \<and> (\<forall>c\<in>set (getChildList n). exact_folds c)"
  using assms by (cases n) (auto simp del: calc.simps small_value.simps split: sum.splits option.splits)

lemma small_value_aval: "small_value n = Some v \<Longrightarrow> aval c_op env n = Some v"
proof (induction n arbitrary: v)
  case (AstComposite t b cs)
  from AstComposite.prems obtain x y where cs: "cs = [x, y]" by (auto split: list.splits simp: map_eq_Cons_conv)
  show ?case
  proof (cases "t = eTOKEN_unary_expression")
    case True
    with AstComposite.prems cs obtain u where "is_minus cs" "small_value y = Some u"
        "c_op eTOKEN_additive_expression_sub 0 u = Some v"
      by (auto simp: opt2_eq_Some small_op_Some split: if_splits)
    then show ?thesis using True cs AstComposite.IH [of y] by simp
  next
    case False
    with AstComposite.prems cs obtain p q where "t \<in> set binary_tokens"
        "small_value x = Some p" "small_value y = Some q" "c_op t p q = Some v"
      by (auto simp: opt2_eq_Some small_op_Some split: if_splits)
    moreover from this(1) have "t \<noteq> eTOKEN_expression" by (auto simp: binary_tokens_def)
    ultimately show ?thesis using False cs AstComposite.IH by simp
  qed
qed (auto simp: below24_Some split: if_splits)

lemma calc_op_float: "calc_op t (v1, fl1) (v2, fl2) = Inr (Some (w, True)) \<Longrightarrow> fl1 \<or> fl2"
  by (auto simp: calc_op_def res_of_option_def split: if_splits option.splits)

lemma calc_float_no_value:
  "calc n = Inr (Some (w, True)) \<Longrightarrow> two_operands n \<Longrightarrow> aval f env n = None"
proof (induction n arbitrary: w)
  case (AstComposite t b cs)
  show ?case
  proof (cases "t = eTOKEN_unary_expression \<and> is_minus cs")
    case True
    then obtain x y where cs: "cs = [x, y]" by (auto simp: is_minus_def length_Suc_conv numeral_2_eq_2)
    with AstComposite.prems(1) True obtain u where "calc y = Inr (Some (u, True))"
      by (auto simp: is_minus_def res_bind_eq_Inr_iff map_option_case split: option.splits)
    then show ?thesis using AstComposite.IH [of y] AstComposite.prems(2) True cs by simp
  next
    case neg: False
    show ?thesis
    proof (cases "t \<in> set binary_tokens")
      case True
      then have ts: "t \<noteq> eTOKEN_unary_expression" "t \<noteq> eTOKEN_expression" "t \<noteq> eTOKEN_I_CONSTANT" "t \<noteq> eTOKEN_F_CONSTANT"
        by (auto simp: binary_tokens_def)
      obtain x y where cs: "cs = [x, y]"
        using True AstComposite.prems(2) by (auto simp: length_Suc_conv numeral_2_eq_2)
      with AstComposite.prems(1) True ts obtain v1 v2 where v: "calc x = Inr (Some v1)" "calc y = Inr (Some v2)"
          "calc_op t v1 v2 = Inr (Some (w, True))"
        by (auto simp: res_bind_eq_Inr_iff split: option.splits)
      then have "snd v1 \<or> snd v2" using calc_op_float [of t "fst v1" "snd v1" "fst v2" "snd v2" w] by simp
      then have "aval f env x = None \<or> aval f env y = None"
        using v(1,2) AstComposite.IH [of x] AstComposite.IH [of y] AstComposite.prems(2) cs
        by (cases v1; cases v2) auto
      then show ?thesis using True ts cs by auto
    next
      case False
      then show ?thesis using neg AstComposite.prems(1) by (auto split: if_splits)
    qed
  qed
qed (auto split: if_splits)

lemma const_node_int: "f32_is_int w v \<Longrightarrow> \<bar>v\<bar> < 16777216 \<Longrightarrow> const_node (w, False) = Inr (AstInt eTOKEN_I_CONSTANT v False None)"
  by (simp add: const_node_def f32_is_int_to_int)

lemma calc_operator: "getID n = eTOKEN_unary_operator \<Longrightarrow> calc n = Inr None"
  by (cases n) (auto simp: binary_tokens_def)

lemma prune3_id: "prune3 n = Inr m \<Longrightarrow> getID m = getID n \<and> is_operator s m = is_operator s n"
  by (cases n) (auto simp: res_bind_eq_Inr_iff is_operator_def)

lemma const_node_id: "const_node r = Inr m \<Longrightarrow> getID m \<noteq> eTOKEN_unary_operator"
  by (auto simp: const_node_def res_bind_eq_Inr_iff split: if_splits)

definition folded_child :: "cAstNode \<Rightarrow> cAstNode res" where
  "folded_child c = res_bind (calc c) (\<lambda>r. case r of Some v \<Rightarrow> const_node v | None \<Rightarrow> prune3 c)"

lemma prune3s_Cons: "prune3s (c # cs) = res_bind (folded_child c) (\<lambda>d. res_bind (prune3s cs) (\<lambda>ds. Inr (d # ds)))"
  by (simp add: folded_child_def res_bind_def split: sum.split)

lemma folded_child_operator: "folded_child c = Inr d \<Longrightarrow> is_operator s d = is_operator s c"
proof -
  assume d: "folded_child c = Inr d"
  show ?thesis
  proof (cases "getID c = eTOKEN_unary_operator")
    case True
    with d show ?thesis by (auto simp: folded_child_def calc_operator prune3_id)
  next
    case False
    then have "getID d \<noteq> eTOKEN_unary_operator"
      using d by (auto simp: folded_child_def res_bind_eq_Inr_iff dest: prune3_id const_node_id split: option.splits)
    with False show ?thesis by (simp add: is_operator_def)
  qed
qed

lemma prune3s_value:
  assumes "\<And>c. c \<in> set cs \<Longrightarrow> \<exists>d. folded_child c = Inr d \<and> aval f env d = aval f env c"
  shows "\<exists>ds. prune3s cs = Inr ds \<and> map (aval f env) ds = map (aval f env) cs \<and> is_minus ds = is_minus cs"
proof -
  have "\<exists>ds. prune3s cs = Inr ds \<and> map (aval f env) ds = map (aval f env) cs \<and>
     map (is_operator ''-'') ds = map (is_operator ''-'') cs"
    using assms
  proof (induction cs)
    case (Cons c cs)
    obtain d where d: "folded_child c = Inr d" "aval f env d = aval f env c" using Cons.prems [of c] by auto
    moreover obtain ds where "prune3s cs = Inr ds" "map (aval f env) ds = map (aval f env) cs"
        "map (is_operator ''-'') ds = map (is_operator ''-'') cs"
      using Cons.IH Cons.prems by (metis list.set_intros(2))
    ultimately show ?case using folded_child_operator [OF d(1)] by (simp add: prune3s_Cons del: prune3s.simps)
  qed simp
  then obtain ds where ds: "prune3s cs = Inr ds" "map (aval f env) ds = map (aval f env) cs"
    "map (is_operator ''-'') ds = map (is_operator ''-'') cs" by blast
  have "is_minus ds = is_minus cs"
    using ds(3) by (cases cs; cases ds) (auto simp: is_minus_def dest: map_eq_imp_length_eq)
  with ds show ?thesis by blast
qed




section \<open>What joining does\<close>

definition same_token :: "eTOKEN \<Rightarrow> cAstNode \<Rightarrow> bool" where
  "same_token t c \<longleftrightarrow> is_Composite c \<and> getID c = t"

text \<open>No child with its parent's token is without children of its own.\<close>

fun joinable :: "cAstNode \<Rightarrow> bool" where
  "joinable (AstComposite t b cs) \<longleftrightarrow> (\<forall>c\<in>set cs. joinable c \<and> \<not> (same_token t c \<and> getChildList c = []))"
| "joinable _ \<longleftrightarrow> True"

text \<open>The reference: all children are joined first, then those with the parent's token are opened.\<close>

definition opened :: "eTOKEN \<Rightarrow> cAstNode \<Rightarrow> cAstNode list" where
  "opened t d = (if same_token t d then getChildList d else [d])"

fun flatten :: "cAstNode \<Rightarrow> cAstNode" where
  "flatten (AstComposite t b cs) =
     AstComposite t b (concat (map (opened t) (map flatten cs)))"
| "flatten n = n"

fun flat :: "cAstNode \<Rightarrow> bool" where
  "flat (AstComposite t b cs) \<longleftrightarrow> (\<forall>c\<in>set cs. flat c \<and> \<not> same_token t c)"
| "flat _ \<longleftrightarrow> True"

fun leaves :: "cAstNode \<Rightarrow> cAstNode list" where
  "leaves (AstComposite t b cs) = concat (map leaves cs)"
| "leaves n = [n]"

lemma same_token_iff: "same_token t c \<longleftrightarrow> (\<exists>b cs. c = AstComposite t b cs)"
  by (cases c) (auto simp: same_token_def)

lemma flatten_token [simp]: "same_token t (flatten c) = same_token t c"
  by (cases c) (auto simp: same_token_def)

lemma flat_children: "flat d \<Longrightarrow> same_token t d \<Longrightarrow> k \<in> set (getChildList d) \<Longrightarrow> flat k \<and> \<not> same_token t k"
  by (cases d) (auto simp: same_token_def)

lemma flat_flatten: "flat (flatten n)"
proof (induction n)
  case (AstComposite t b cs)
  have "flat k \<and> \<not> same_token t k" if c: "c \<in> set cs" and
      k: "k \<in> set (opened t (flatten c))" for c k
    using k AstComposite.IH [OF c] flat_children [of "flatten c" t k] by (auto simp: opened_def split: if_splits)
  then show ?case by (simp del: flatten_token)
qed auto

lemma flatten_flat: "flat n \<Longrightarrow> flatten n = n"
proof (induction n)
  case (AstComposite t b cs)
  have "map flatten cs = cs" using AstComposite by (intro map_idI) auto
  moreover have "concat (map (opened t) cs) = cs"
    using AstComposite.prems by (induction cs) (auto simp: opened_def)
  ultimately show ?case by simp
qed auto

lemma flatten_leaves: "leaves (flatten n) = leaves n"
proof (induction n)
  case (AstComposite t b cs)
  have "concat (map leaves (opened t d)) = leaves d" for d
    by (auto simp: same_token_iff opened_def)
  then have "concat (map leaves (concat (map (opened t) ds))) = concat (map leaves ds)" for ds
    by (induction ds) auto
  moreover have "concat (map leaves (map flatten cs)) = concat (map leaves cs)"
    using AstComposite.IH by (induction cs) auto
  ultimately show ?case by (simp only: flatten.simps leaves.simps)
qed auto

lemma flatten_nonempty: "joinable n \<Longrightarrow> getChildList n \<noteq> [] \<Longrightarrow> getChildList (flatten n) \<noteq> []"
proof (induction n)
  case (AstComposite t b cs)
  then obtain c ds where cs: "cs = c # ds" by (cases cs) auto
  have "opened t (flatten c) \<noteq> []"
    using AstComposite cs by (auto simp: opened_def)
  then show ?case by (simp add: cs)
qed auto

lemma joinable_flatten: "joinable n \<Longrightarrow> joinable (flatten n)"
proof (induction n)
  case (AstComposite t b cs)
  have "joinable k \<and> \<not> same_token t k" if c: "c \<in> set cs" and
      k: "k \<in> set (opened t (flatten c))" for c k
  proof -
    have j: "joinable (flatten c)" using AstComposite c by auto
    show ?thesis
    proof (cases "same_token t (flatten c)")
      case True
      then have "k \<in> set (getChildList (flatten c))" using k by (simp add: opened_def)
      moreover have "joinable k" using j True calculation unfolding same_token_iff by fastforce
      ultimately show ?thesis using flat_children [OF flat_flatten True] by blast
    qed (use k j in \<open>simp add: opened_def\<close>)
  qed
  then show ?case by (simp del: flatten_token)
qed auto

lemma prune2s_Cons:
  "prune2s t (c # cs) =
     (if same_token t (prune2 c)
      then (if getChildList (prune2 c) = [] then cs else prune2s t (getChildList (prune2 c) @ cs))
      else prune2 c # prune2s t cs)"
  by (simp add: Let_def same_token_def)

lemma prune2_flatten:
  "joinable n \<Longrightarrow> prune2 n = flatten n"
  "(\<forall>c\<in>set cs. joinable c \<and> \<not> (same_token t c \<and> getChildList c = [])) \<Longrightarrow>
     prune2s t cs = concat (map (opened t) (map flatten cs))"
proof (induction n and t cs rule: prune2_prune2s.induct, goal_cases)
  case (8 t c cs)
  have c: "joinable c" "\<not> (same_token t c \<and> getChildList c = [])" using 8(4) by auto
  have p: "prune2 c = flatten c" using 8(1) c(1) by simp
  show ?case
  proof (cases "same_token t c")
    case True
    then have ft: "same_token t (flatten c)" by simp
    have ne: "getChildList (flatten c) \<noteq> []" using flatten_nonempty c True by blast
    have kids: "joinable k \<and> \<not> same_token t k \<and> flatten k = k" if "k \<in> set (getChildList (flatten c))" for k
    proof -
      have "flat k \<and> \<not> same_token t k" using flat_children [OF flat_flatten ft that] .
      moreover have "joinable k" using joinable_flatten [OF c(1)] ft that by (auto simp: same_token_iff)
      ultimately show ?thesis using flatten_flat by blast
    qed
    have open_kids: "concat (map (opened t) (map flatten ks)) = ks"
      if "\<forall>k\<in>set ks. \<not> same_token t k \<and> flatten k = k" for ks
      using that by (induction ks) (auto simp: opened_def)
    have "prune2s t (getChildList (flatten c) @ cs) =
        concat (map (opened t) (map flatten (getChildList (flatten c) @ cs)))"
      using 8(2) [OF refl] p ft ne kids 8(4) by (auto simp: same_token_def)
    then show ?thesis
      using p ft ne open_kids [of "getChildList (flatten c)"] kids by (simp add: prune2s_Cons opened_def del: prune2s.simps)
  next
    case False
    then have "\<not> same_token t (flatten c)" by simp
    moreover from this have "prune2s t cs =
        concat (map (opened t) (map flatten cs))"
      using 8(3) [OF refl] 8(4) p by (auto simp: same_token_def)
    ultimately show ?thesis using p by (simp add: prune2s_Cons opened_def del: prune2s.simps)
  qed
qed auto




section \<open>Constants that change\<close>

abbreviation int_const :: "int \<Rightarrow> cAstNode" where
  "int_const i \<equiv> AstInt eTOKEN_I_CONSTANT i False None"

lemma bitlen_values: "bitlen 16777217 = 25" "bitlen 2147483647 = 31" "bitlen 7 = 3" "bitlen 2 = 2" "bitlen 1 = 1"
  "bitlen 14680064 = 24"
  by (simp_all add: bitlen.simps)

lemma f32_16777217: "f32_to_int (f32_of_int 16777217) = Some 16777216"
proof -
  have "f32_of_int 16777217 = f32_pack False 151 0"
    by (simp add: f32_of_int_def f32_round_def bitlen_values round_shift_def Let_def)
  then show ?thesis
    by (simp add: f32_to_int_def f32_is_finite_def f32_scale_def f32_sig_def f32_pack_fields c_checked_def in_int32_def)
qed

lemma f32_max: "f32_to_int (f32_of_int 2147483647) = None"
proof -
  have "f32_of_int 2147483647 = f32_pack False 158 0"
    by (simp add: f32_of_int_def f32_round_def bitlen_values round_shift_def Let_def)
  then show ?thesis
    by (simp add: f32_to_int_def f32_is_finite_def f32_scale_def f32_sig_def f32_pack_fields c_checked_def in_int32_def)
qed

lemma f32_half_7: "f32_to_int (f32_mul (f32_div (f32_of_int 7) (f32_of_int 2)) (f32_of_int 2)) = Some 7"
proof -
  have c: "f32_of_int 7 = f32_pack False 129 6291456" "f32_of_int 2 = f32_pack False 128 0"
    by (simp_all add: f32_of_int_def f32_round_def bitlen_values Let_def)
  have d: "f32_div (f32_pack False 129 6291456) (f32_pack False 128 0) = f32_pack False 128 6291456"
    by (simp add: f32_div_def f32_pack_fields f32_is_nan_def f32_is_inf_def f32_sig_def f32_scale_def f32_round_def Let_def
        bitlen.simps round_shift_def)
  show ?thesis
    unfolding c d
    apply (simp add: f32_mul_def f32_pack_fields f32_is_nan_def f32_is_inf_def f32_sig_def f32_scale_def f32_round_def Let_def
        bitlen.simps round_shift_def f32_to_int_def f32_is_finite_def c_checked_def in_int32_def)
    done
qed



section \<open>Statements\<close>

text \<open>The trees that the parser builds for \<open>if (a) s\<close>, \<open>if (a) s else t\<close> and \<open>e;\<close>.\<close>

abbreviation stmt :: "cAstNode \<Rightarrow> cAstNode" where
  "stmt s \<equiv> AstComposite eTOKEN_statement None [s]"

abbreviation expr :: "cAstNode \<Rightarrow> cAstNode" where
  "expr e \<equiv> AstComposite eTOKEN_expression None [e]"

definition if_stmt :: "cAstNode \<Rightarrow> cAstNode \<Rightarrow> cAstNode" where
  "if_stmt a s = stmt (AstComposite eTOKEN_selection_statement None [expr a, s])"

definition if_else_stmt :: "cAstNode \<Rightarrow> cAstNode \<Rightarrow> cAstNode \<Rightarrow> cAstNode" where
  "if_else_stmt a s t = stmt (AstComposite eTOKEN_selection_statement None [expr a, s, t])"

definition expr_stmt :: "cAstNode \<Rightarrow> cAstNode" where
  "expr_stmt e = stmt (AstComposite eTOKEN_expression_statement None [expr e])"

abbreviation name_node :: "string \<Rightarrow> cAstNode" where
  "name_node s \<equiv> AstIdentifier eTOKEN_IDENTIFIER s None"

definition set_to :: "string \<Rightarrow> int \<Rightarrow> cAstNode" where
  "set_to x i = AstComposite eTOKEN_assignment_expression None
     [name_node x, AstToken eTOKEN_assignment_operator 0 [], int_const i]"

definition block_of :: "cAstNode \<Rightarrow> cAstNode" where
  "block_of s = AstComposite eTOKEN_block_item_list (Some []) [AstComposite eTOKEN_block_item None [s]]"


text \<open>The parser leaves identifiers unset, and the first \<open>prune\<close> runs before they are set: no \<open>sizeof\<close> gets through it.\<close>

fun unset :: "cAstNode \<Rightarrow> bool" where
  "unset (AstComposite t b cs) \<longleftrightarrow> (\<forall>c\<in>set cs. unset c)"
| "unset (AstIdentifier t s i) \<longleftrightarrow> i = None"
| "unset _ \<longleftrightarrow> True"

lemma unset_identifier: "unset n \<Longrightarrow> getIdentifier n = Inr a \<Longrightarrow> a = None"
  by (cases n) auto

lemma calc_sizeof_unset:
  assumes "\<forall>n\<in>set ns. unset n"
  shows "\<exists>e. calc_sizeof I ns = Inl e"
proof (cases ns)
  case (Cons n ms)
  have n: "unset n" using assms Cons by simp
  have kids: "\<forall>m\<in>set (getChildList n). unset m" using n by (cases n) auto
  show ?thesis
  proof (cases "getID n = eTOKEN_IDENTIFIER")
    case True
    then show ?thesis
      using Cons unset_identifier [OF n] by (cases "getIdentifier n") (auto simp: calc_sizeof_def)
  next
    case False
    then show ?thesis
      using Cons kids unset_identifier
      by (cases "getChildList n"; cases "getIdentifier (hd (getChildList n))") (auto simp: calc_sizeof_def)
  qed
qed (simp add: calc_sizeof_def)

lemma sizeof_node_unset: "unset n \<Longrightarrow> \<exists>e. sizeof_node I n = Inl e"
proof -
  assume n: "unset n"
  show ?thesis
  proof (cases "getChild [eTOKEN_expression] n")
    case (Some e)
    then have "e \<in> set (getChildList n)"
      by (auto simp: getChild_def split: list.splits) (metis list.set_intros(1) set_dropWhileD)
    with n have "unset e" by (cases n) auto
    then have "\<forall>m\<in>set (getChildList e). unset m" by (cases e) auto
    then show ?thesis using calc_sizeof_unset [of "getChildList e" I] Some by (auto simp: sizeof_node_def)
  qed (simp add: sizeof_node_def)
qed


end
