(* ===== verification/GenBase.thy ===== *)
theory GenBase
  imports Prune Optimize
begin

text \<open>
  Code generation, \<open>SW/compiler/gen.cpp\<close>: the state that the functions of the generator share, how they append
  instructions and create identifiers, and the functions that only look at the syntax tree.
\<close>

section \<open>The state\<close>

text \<open>
  All instruction objects, the list \<open>instructions\<close> that is being written to, the identifiers, and the identifiers of
  the outermost block of the function that is being compiled. A generator returns a value and the new state, or
  fails, or (\<open>None\<close>) runs out of fuel.
\<close>

record gstate =
  g_code :: "cInstruction list"
  g_lst :: "nat list"
  g_ids :: idents
  g_block :: "nat list"

type_synonym 'a gen = "gstate \<Rightarrow> ('a \<times> gstate) res option"

definition gret :: "'a \<Rightarrow> 'a gen" where
  "gret a s = Some (Inr (a, s))"

definition gres :: "'a res \<Rightarrow> 'a gen" where
  "gres r s = Some (case r of Inl e \<Rightarrow> Inl e | Inr a \<Rightarrow> Inr (a, s))"

definition gfail :: "cerror \<Rightarrow> 'a gen" where
  "gfail e s = Some (Inl e)"

definition gbind :: "'a gen \<Rightarrow> ('a \<Rightarrow> 'b gen) \<Rightarrow> 'b gen" where
  "gbind m f s =
     (case m s of None \<Rightarrow> None | Some (Inl e) \<Rightarrow> Some (Inl e) | Some (Inr (a, s')) \<Rightarrow> f a s')"

definition gget :: "gstate gen" where
  "gget s = Some (Inr (s, s))"

fun gmap :: "('a \<Rightarrow> unit gen) \<Rightarrow> 'a list \<Rightarrow> unit gen" where
  "gmap f [] = gret ()"
| "gmap f (x # xs) = gbind (f x) (\<lambda>_. gmap f xs)"

text \<open>What \<open>CAST\<close> and the \<open>isKindOf\<close> tests of terms come to.\<close>

definition cast_MU :: "cTerm \<Rightarrow> unit gen" where
  "cast_MU t = (if is_MU t then gret () else gfail BadCast)"

definition cast_IMU :: "cTerm \<Rightarrow> unit gen" where
  "cast_IMU t = (if is_MU t then gfail BadCast else gret ())"

section \<open>Instructions and identifiers\<close>

definition new_instr :: "nat gen" where
  "new_instr s = Some (Inr (length (g_code s), s\<lparr>g_code := g_code s @ [new_cInstruction]\<rparr>))"

definition set_instr :: "nat \<Rightarrow> (cInstruction \<Rightarrow> cInstruction res) \<Rightarrow> unit gen" where
  "set_instr i f s =
     Some (case f (g_code s ! i) of Inl e \<Rightarrow> Inl e | Inr ins \<Rightarrow> Inr ((), s\<lparr>g_code := (g_code s)[i := ins]\<rparr>))"

definition append_instr :: "nat \<Rightarrow> unit gen" where
  "append_instr i s = Some (Inr ((), s\<lparr>g_lst := g_lst s @ [i]\<rparr>))"

definition get_last :: "nat option gen" where
  "get_last s = Some (Inr (if g_lst s = [] then None else Some (last (g_lst s)), s))"

text \<open>A new instruction, filled in and appended.\<close>

definition emit :: "(cInstruction \<Rightarrow> cInstruction res) \<Rightarrow> nat gen" where
  "emit f = gbind new_instr (\<lambda>i. gbind (set_instr i f) (\<lambda>_. gbind (append_instr i) (\<lambda>_. gret i)))"

definition emit_IMU :: "int \<Rightarrow> cTerm \<Rightarrow> cTerm \<Rightarrow> cTerm \<Rightarrow> unit gen" where
  "emit_IMU oc x1 x2 y =
     gbind (cast_IMU x1) (\<lambda>_. gbind (cast_IMU x2) (\<lambda>_. gbind (cast_IMU y) (\<lambda>_.
     gbind (emit (\<lambda>ins. Inr (createIMU oc (Some x1) (Some x2) (Some y) ins))) (\<lambda>_. gret ()))))"

definition fill_MU :: "nat \<Rightarrow> int \<Rightarrow> cTerm \<Rightarrow> cTerm \<Rightarrow> cTerm \<Rightarrow> cTerm option \<Rightarrow> unit gen" where
  "fill_MU i oc x1 x2 y xacc =
     gbind (cast_MU x1) (\<lambda>_. gbind (cast_MU x2) (\<lambda>_. gbind (cast_MU y) (\<lambda>_.
     gbind (case xacc of None \<Rightarrow> gret () | Some t \<Rightarrow> cast_MU t) (\<lambda>_.
     set_instr i (createMU oc x1 x2 (Some y) xacc)))))"

definition emit_MU :: "int \<Rightarrow> cTerm \<Rightarrow> cTerm \<Rightarrow> cTerm \<Rightarrow> cTerm option \<Rightarrow> nat gen" where
  "emit_MU oc x1 x2 y xacc =
     gbind new_instr (\<lambda>i. gbind (fill_MU i oc x1 x2 y xacc) (\<lambda>_. gbind (append_instr i) (\<lambda>_. gret i)))"

definition emit_jump :: "int \<Rightarrow> nat option \<Rightarrow> bool \<Rightarrow> unit gen" where
  "emit_jump oc j after = gbind (emit (\<lambda>ins. Inr (createUnconditionalJump oc j after ins))) (\<lambda>_. gret ())"

definition emit_branch :: "int \<Rightarrow> cTerm \<Rightarrow> cTerm \<Rightarrow> cTerm option \<Rightarrow> nat option \<Rightarrow> bool \<Rightarrow> nat gen" where
  "emit_branch oc x1 x2 y j after =
     gbind (cast_IMU x1) (\<lambda>_. gbind (cast_IMU x2) (\<lambda>_.
     emit (\<lambda>ins. Inr (createConditionalJump oc IOPCODE_SUB (Some x1) (Some x2) y j after ins))))"

text \<open>New identifiers are added to the block of the function.\<close>

definition new_id :: "cIdentifier res \<Rightarrow> nat gen" where
  "new_id r s =
     Some (case r of
         Inl e \<Rightarrow> Inl e
       | Inr idn \<Rightarrow> Inr (length (g_ids s), s\<lparr>g_ids := g_ids s @ [idn], g_block := g_block s @ [length (g_ids s)]\<rparr>))"

definition temp_int :: "nat gen" where
  "temp_int = new_id (new_cIdentifierInteger True None False False (-1))"

definition temp_private :: "int \<Rightarrow> nat gen" where
  "temp_private w = new_id (new_cIdentifierPrivate True None w)"

definition ids_of :: "(idents \<Rightarrow> 'a) \<Rightarrow> 'a gen" where
  "ids_of f s = Some (Inr (f (g_ids s), s))"

definition upd_id :: "nat \<Rightarrow> (cIdentifier \<Rightarrow> cIdentifier) \<Rightarrow> unit gen" where
  "upd_id i f s = Some (Inr ((), s\<lparr>g_ids := (g_ids s)[i := f (ident_at (g_ids s) i)]\<rparr>))"

text \<open>\<open>m_scope.append\<close> of a pointer, and the constructors of operands with an index.\<close>

definition add_scope :: "nat \<Rightarrow> nat \<Rightarrow> unit gen" where
  "add_scope p i = upd_id p (\<lambda>idn. idn\<lparr>m_scope := iv_append (m_scope idn) i\<rparr>)"

definition used_as_index :: "nat \<Rightarrow> unit gen" where
  "used_as_index i = upd_id i (\<lambda>idn. idn\<lparr>m_useForMuIndex := True\<rparr>)"

text \<open>An identifier of a given class, behind a \<open>CAST\<close>.\<close>

definition cast_id :: "clsid \<Rightarrow> nat \<Rightarrow> nat gen" where
  "cast_id c i = gbind (ids_of (\<lambda>I. isKindOf (ident_at I i) c)) (\<lambda>k. if k then gret i else gfail BadCast)"

definition id_is :: "clsid \<Rightarrow> nat \<Rightarrow> bool gen" where
  "id_is c i = ids_of (\<lambda>I. isKindOf (ident_at I i) c)"

definition node_id :: "cAstNode \<Rightarrow> nat gen" where
  "node_id n = gbind (gres (getIdentifier n)) (\<lambda>x. gres (deref x))"

section \<open>Looking at the tree\<close>

text \<open>\<open>expressionIsMU\<close>: whether an expression is computed in the vector unit.\<close>

fun expressionIsMU :: "idents \<Rightarrow> cAstNode \<Rightarrow> bool res" and anyIsMU :: "idents \<Rightarrow> cAstNode list \<Rightarrow> bool res" where
  "expressionIsMU I (AstIdentifier t s m) =
     (case m of None \<Rightarrow> Inl CompileError | Some i \<Rightarrow> Inr (isKindOf (ident_at I i) CFloat))"
| "expressionIsMU I (AstFloat t f) = Inr True"
| "expressionIsMU I (AstComposite t b cs) =
     (if t = eTOKEN_postfix_expression4
      then res_bind (deref (getChild [eTOKEN_IDENTIFIER] (AstComposite t b cs))) (\<lambda>n. res_bind (getStringValue n) (\<lambda>f.
             case decode_mu_oc f of
               None \<Rightarrow> Inr False
             | Some oc \<Rightarrow> res_bind (GetMuOpcodeDef oc) (\<lambda>d. Inr (od_y_type d = eMuOpcodeDefDataTypeFloat))))
      else anyIsMU I cs)"
| "expressionIsMU I (AstToken t p g) = Inr False"
| "expressionIsMU I (AstInt t i u g) = Inr False"
| "expressionIsMU I (AstString t s) = Inr False"
| "anyIsMU I [] = Inr False"
| "anyIsMU I (c # cs) = res_bind (expressionIsMU I c) (\<lambda>m. if m then Inr True else anyIsMU I cs)"

text \<open>\<open>findIdentifier\<close>: the first identifier of a class, from the left.\<close>

definition is_class :: "idents \<Rightarrow> clsid \<Rightarrow> nat option \<Rightarrow> nat option res" where
  "is_class I c m = res_bind (deref m) (\<lambda>i. Inr (if isKindOf (ident_at I i) c then Some i else None))"

fun findIdentifier :: "idents \<Rightarrow> clsid \<Rightarrow> cAstNode \<Rightarrow> nat option res" and findIdentifiers :: "idents \<Rightarrow> clsid \<Rightarrow> cAstNode list \<Rightarrow> nat option res" where
  "findIdentifier I c (AstIdentifier t s m) = is_class I c m"
| "findIdentifier I c (AstComposite t b cs) = findIdentifiers I c cs"
| "findIdentifier I c (AstToken t p g) = Inr None"
| "findIdentifier I c (AstInt t i u g) = Inr None"
| "findIdentifier I c (AstFloat t f) = Inr None"
| "findIdentifier I c (AstString t s) = Inr None"
| "findIdentifiers I c [] = Inr None"
| "findIdentifiers I c (n # ns) =
     res_bind (findIdentifier I c n) (\<lambda>r. case r of Some i \<Rightarrow> Inr (Some i) | None \<Rightarrow> findIdentifiers I c ns)"

text \<open>Parameters and the return value of a function, from the identifiers of its block (\<open>ident.cpp\<close>).\<close>

definition parameter_ids :: "idents \<Rightarrow> nat list \<Rightarrow> nat list" where
  "parameter_ids I ids = filter (\<lambda>i. isKindOf (ident_at I i) CParameter \<or> isKindOf (ident_at I i) CShared) ids"

definition getFuncParameterCount :: "idents \<Rightarrow> nat list \<Rightarrow> nat" where
  "getFuncParameterCount I ids = length (parameter_ids I ids)"

definition getFuncParameter :: "idents \<Rightarrow> nat list \<Rightarrow> nat \<Rightarrow> nat option" where
  "getFuncParameter I ids k = (if k < length (parameter_ids I ids) then Some (parameter_ids I ids ! k) else None)"

definition getReturnValue :: "idents \<Rightarrow> nat list \<Rightarrow> nat option" where
  "getReturnValue I ids = find (\<lambda>i. isKindOf (ident_at I i) CReturnValue) ids"

definition getStackVariable :: "int \<Rightarrow> int \<Rightarrow> nat gen" where
  "getStackVariable pos w =
     gbind gget (\<lambda>s.
       case find (\<lambda>i. isStack (ident_at (g_ids s) i) \<and> m_pos (ident_at (g_ids s) i) = pos \<and> m_w (ident_at (g_ids s) i) = w) (g_block s) of
         Some i \<Rightarrow> gret i
       | None \<Rightarrow> new_id (new_cIdentifierStack True None pos w))"

definition block_ids :: "cAstNode \<Rightarrow> nat list res" where
  "block_ids func = res_bind (deref (getChild [eTOKEN_block_item_list] func)) getIdentifierList"

section \<open>Laws\<close>

lemma gbind_gret [simp]: "gbind (gret a) f = f a"
  by (simp add: gbind_def gret_def fun_eq_iff)

lemma gbind_gfail [simp]: "gbind (gfail e) f = gfail e"
  by (simp add: gbind_def gfail_def fun_eq_iff)

lemma gbind_assoc: "gbind (gbind m f) g = gbind m (\<lambda>a. gbind (f a) g)"
  by (auto simp: gbind_def fun_eq_iff split: option.split sum.split)

lemma gres_simps [simp]: "gres (Inl e) = gfail e" "gres (Inr a) = gret a"
  by (simp_all add: gres_def gfail_def gret_def fun_eq_iff)

lemma gbind_Some: "gbind m f s = Some (Inr r) \<longleftrightarrow> (\<exists>a s'. m s = Some (Inr (a, s')) \<and> f a s' = Some (Inr r))"
  by (auto simp: gbind_def split: option.splits sum.splits)

lemma gbind_ids_of: "gbind (ids_of f) g s = g (f (g_ids s)) s"
  by (simp add: gbind_def ids_of_def)

lemma gbind_gget: "gbind gget g s = g s s"
  by (simp add: gbind_def gget_def)

end
