(* ===== verification/GenTerm.thy ===== *)
theory GenTerm
  imports GenBase
begin

text \<open>
  Code for expressions: the functions \<open>genTerm...\<close> of \<open>SW/compiler/gen.cpp\<close>. Each takes the function to call for
  the expressions and conditions below it; theory \<open>GenStmt\<close> ties the recursion.

  A generated operand may be missing (a null pointer). The boolean beside it says whether it is the object \<open>_y\<close>
  that the caller passed, which the code tests by comparing pointers.
\<close>

section \<open>The recursion\<close>

type_synonym gen_term = "cAstNode option \<Rightarrow> bool \<Rightarrow> bool \<Rightarrow> bool \<Rightarrow> cTerm option \<Rightarrow> (cTerm option \<times> bool) gen"

text \<open>The arguments of \<open>genStatement\<close> beside the node.\<close>

record stmt_args =
  sa_reverse :: bool
  sa_hasExit :: bool
  sa_exit :: "nat option"
  sa_br :: "nat option"
  sa_brAfter :: bool
  sa_blockExit :: "nat option"
  sa_blockCont :: "nat option"
  sa_logic :: bool

type_synonym gen_stmt = "stmt_args \<Rightarrow> cAstNode \<Rightarrow> unit gen"

text \<open>What is compiled: the root of the tree, the function, and the addresses of identifiers in constants.\<close>

record genctx =
  cx_root :: cAstNode
  cx_func :: cAstNode
  cx_addr :: "nat \<Rightarrow> int"

text \<open>An operand that must be there: a missing one is an error message, or a null pointer that is read.\<close>

definition need :: "cerror \<Rightarrow> (cTerm option \<times> bool) gen \<Rightarrow> cTerm gen" where
  "need e m = gbind m (\<lambda>(t, same). case t of None \<Rightarrow> gfail e | Some x \<Rightarrow> gret x)"

definition found :: "cTerm \<Rightarrow> (cTerm option \<times> bool) gen" where
  "found t = gret (Some t, False)"

section \<open>Conversions\<close>

definition copy_to_temp :: "bool \<Rightarrow> cTerm \<Rightarrow> nat gen" where
  "copy_to_temp uns t =
     gbind (new_id (new_cIdentifierInteger True None uns False (-1))) (\<lambda>i.
     gbind (emit_IMU IOPCODE_ADD t IMU_Zero (IMU_Integer i)) (\<lambda>_. gret i))"

definition conv2MU :: "genctx \<Rightarrow> cTerm \<Rightarrow> cTerm option gen" where
  "conv2MU cx t =
     (if t = IMU_TID \<or> t = IMU_PID then gbind (copy_to_temp True t) (\<lambda>i. gret (Some (MU_Integer i)))
      else ids_of (\<lambda>I. Convert2MU (cx_addr cx) I t))"

text \<open>\<open>m_float=false\<close> on a constant.\<close>

definition as_int_const :: "cTerm \<Rightarrow> cTerm" where
  "as_int_const t = (case t of MU_Constant c f \<Rightarrow> MU_Constant c False | _ \<Rightarrow> t)"

definition as_float_const :: "cTerm \<Rightarrow> cTerm" where
  "as_float_const t = (case t of MU_Constant c f \<Rightarrow> MU_Constant c True | _ \<Rightarrow> t)"

section \<open>Conditional expressions\<close>

definition assign_term :: "bool \<Rightarrow> cTerm \<Rightarrow> cTerm \<Rightarrow> unit gen" where
  "assign_term mu t y =
     (if mu then gbind (emit_MU OPCODE_ASSIGN t MU_Null y None) (\<lambda>_. gret ())
      else emit_IMU IOPCODE_ADD t IMU_Zero y)"

definition genTermConditionalExpression :: "gen_term \<Rightarrow> gen_stmt \<Rightarrow> cAstNode \<Rightarrow> bool \<Rightarrow> cTerm option \<Rightarrow> (cTerm option \<times> bool) gen" where
  "genTermConditionalExpression gt gs node mu y =
     (case getChildList node of
        c # t # rest \<Rightarrow>
          gbind new_instr (\<lambda>end_instruction. gbind new_instr (\<lambda>jump_instruction.
          gbind (gs \<lparr>sa_reverse = True, sa_hasExit = False, sa_exit = None, sa_br = Some jump_instruction,
                     sa_brAfter = True, sa_blockExit = None, sa_blockCont = None, sa_logic = True\<rparr> c) (\<lambda>_.
          gbind (need NullPointer (gt (Some t) False False mu None)) (\<lambda>t1.
          gbind (case y of
                   Some z \<Rightarrow> gret z
                 | None \<Rightarrow>
                     if mu
                     then gbind (cast_MU t1) (\<lambda>_. gbind (ids_of (\<lambda>I. mu_getVectorWidth I t1)) (\<lambda>w.
                          gbind (temp_private w) (\<lambda>i. gret (MU_Storage i 0 False))))
                     else gbind temp_int (\<lambda>i. gret (IMU_Integer i))) (\<lambda>term.
          gbind (assign_term mu t1 term) (\<lambda>_.
          gbind (set_instr jump_instruction
                   (\<lambda>ins. Inr (createUnconditionalJump OPCODE_JUMP (Some end_instruction) False ins))) (\<lambda>_.
          gbind (append_instr jump_instruction) (\<lambda>_.
          gbind (need NullPointer (gt (case rest of [] \<Rightarrow> None | f # _ \<Rightarrow> Some f) False False mu None)) (\<lambda>t2.
          gbind (assign_term mu t2 term) (\<lambda>_.
          gbind (append_instr end_instruction) (\<lambda>_. gret (Some term, y \<noteq> None))))))))))))
      | _ \<Rightarrow> gfail NullPointer)"

section \<open>Assignments\<close>

text \<open>The identifiers that a pointer may point to grow by those found in the assigned expression.\<close>

fun pointer_sources :: "nat \<Rightarrow> cAstNode \<Rightarrow> clsid list \<Rightarrow> bool \<Rightarrow> unit gen" where
  "pointer_sources p n [] flag = gret ()"
| "pointer_sources p n (c # cs) flag =
     gbind gget (\<lambda>s. gbind (gres (findIdentifier (g_ids s) c n)) (\<lambda>r. case r of
         None \<Rightarrow> pointer_sources p n cs flag
       | Some i \<Rightarrow>
           if flag then gfail CompileError
           else if m_isConst (ident_at (g_ids s) p) then gfail CompileError
           else gbind (add_scope p i) (\<lambda>_. pointer_sources p n cs True)))"

definition pointer_assigned :: "nat \<Rightarrow> cAstNode \<Rightarrow> unit gen" where
  "pointer_assigned p n =
     gbind gget (\<lambda>s. gbind (gres (findIdentifier (g_ids s) CConst n)) (\<lambda>r. case r of
         None \<Rightarrow> pointer_sources p n [CPointer, CShared, CPrivate] False
       | Some i \<Rightarrow>
           if \<not> m_isConst (ident_at (g_ids s) p) then gfail CompileError
           else gbind (add_scope p i) (\<lambda>_. pointer_sources p n [CPointer, CShared, CPrivate] True)))"

text \<open>The operation of \<open>op=\<close>; the scalar ones are errors for the vector unit.\<close>

definition assign_op :: "bool \<Rightarrow> eTOKEN \<Rightarrow> int res" where
  "assign_op mu t =
     (if t = eTOKEN_ADD_ASSIGN then Inr (if mu then OPCODE_ADD else IOPCODE_ADD)
      else if t = eTOKEN_SUB_ASSIGN then Inr (if mu then OPCODE_SUB else IOPCODE_SUB)
      else if t = eTOKEN_MUL_ASSIGN then Inr (if mu then OPCODE_MUL else IOPCODE_MUL)
      else if mu then Inl CompileError
      else if t = eTOKEN_LEFT_ASSIGN then Inr IOPCODE_SHL
      else if t = eTOKEN_RIGHT_ASSIGN then Inr IOPCODE_SHR
      else if t = eTOKEN_OR_ASSIGN then Inr IOPCODE_OR
      else if t = eTOKEN_AND_ASSIGN then Inr IOPCODE_AND
      else if t = eTOKEN_XOR_ASSIGN then Inr IOPCODE_XOR
      else Inl CompileError)"

definition genTermAssignmentExpression :: "gen_term \<Rightarrow> cAstNode \<Rightarrow> (cTerm option \<times> bool) gen" where
  "genTermAssignmentExpression gt node =
     (case getChildList node of
        [] \<Rightarrow> gfail CompileError
      | [_] \<Rightarrow> gfail NullPointer
      | y_node # assignment # rest \<Rightarrow>
          gbind (need CompileError (gt (Some y_node) False False False None)) (\<lambda>y.
          gbind (ids_of (\<lambda>I. isDouble I y)) (\<lambda>double.
          gbind (gt (case rest of [] \<Rightarrow> None | n # _ \<Rightarrow> Some n)
                    (getID assignment = eTOKEN_assignment_operator \<and> double) False (is_MU y) (Some y)) (\<lambda>(x2, same).
          gbind (case y of
                   IMU_Pointer p \<Rightarrow> (case rest of [] \<Rightarrow> gfail NullPointer | n # _ \<Rightarrow> pointer_assigned p n)
                 | _ \<Rightarrow> gret ()) (\<lambda>_.
          gbind (if getID assignment = eTOKEN_assignment_operator
                 then (if same then gret ()
                       else gbind (gres (deref x2)) (\<lambda>x.
                         if is_MU y then gbind (emit_MU OPCODE_ASSIGN x MU_Null y None) (\<lambda>_. gret ())
                         else emit_IMU IOPCODE_ADD IMU_Zero x y))
                 else gbind (gres (assign_op (is_MU y) (getID assignment))) (\<lambda>oc.
                      gbind (gres (deref x2)) (\<lambda>x.
                        if is_MU y then gbind (emit_MU oc y x y None) (\<lambda>_. gret ())
                        else emit_IMU oc y x y))) (\<lambda>_.
          found y))))))"

section \<open>Increment and decrement\<close>

definition genTermPostIncrementDecrement :: "gen_term \<Rightarrow> cAstNode \<Rightarrow> (cTerm option \<times> bool) gen" where
  "genTermPostIncrementDecrement gt node =
     (case getChildList node of
        y_node # oc_node # _ \<Rightarrow>
          if getID oc_node \<noteq> eTOKEN_INC_OP \<and> getID oc_node \<noteq> eTOKEN_DEC_OP then gfail CompileError
          else gbind gget (\<lambda>s. gbind (gres (expressionIsMU (g_ids s) y_node)) (\<lambda>m.
               if m then gfail CompileError
               else if \<not> is_IdentifierNode y_node then gfail CompileError
               else gbind (node_id y_node) (\<lambda>i.
                    gbind (id_is CInteger i) (\<lambda>int. gbind (id_is CPointer i) (\<lambda>ptr.
                    if \<not> int \<and> \<not> ptr then gfail CompileError
                    else gbind (copy_to_temp False (if int then IMU_Integer i else IMU_Pointer i)) (\<lambda>old.
                         gbind (need CompileError (gt (Some y_node) False False False None)) (\<lambda>y.
                         gbind (need CompileError (gt (Some y_node) False False False None)) (\<lambda>x1.
                         gbind (emit_IMU (if getID oc_node = eTOKEN_INC_OP then IOPCODE_ADD else IOPCODE_SUB)
                                  x1 (IMU_Constant 1) y) (\<lambda>_.
                         found (IMU_Integer old)))))))))) 
      | _ \<Rightarrow> gfail NullPointer)"

definition genTermPreIncrementDecrement :: "gen_term \<Rightarrow> cAstNode \<Rightarrow> bool \<Rightarrow> bool \<Rightarrow> (cTerm option \<times> bool) gen" where
  "genTermPreIncrementDecrement gt node ref mu =
     (case getChildList node of
        oc_node # y_node # _ \<Rightarrow>
          if getID oc_node = eTOKEN_unary_operator
          then gbind (gres (getStringValue oc_node)) (\<lambda>u.
            if u = ''-''
            then if \<not> mu
                 then gbind temp_int (\<lambda>i.
                      gbind (need CompileError (gt (Some y_node) False ref mu None)) (\<lambda>x1.
                      gbind (emit_IMU IOPCODE_SUB IMU_Zero x1 (IMU_Integer i)) (\<lambda>_. found (IMU_Integer i))))
                 else gbind (need CompileError (gt (Some y_node) False ref mu None)) (\<lambda>x1.
                      gbind (cast_MU x1) (\<lambda>_. gbind (ids_of (\<lambda>I. mu_getVectorWidth I x1)) (\<lambda>w.
                      gbind (temp_private w) (\<lambda>i.
                      gbind (emit_MU OPCODE_SUB (new_MU_Constant_float (f32_of_int 0)) x1 (MU_Storage i 0 False) None) (\<lambda>_.
                      found (MU_Storage i 0 False))))))
            else if u = ''+''
            then gbind (need CompileError (gt (Some y_node) False ref mu None)) (\<lambda>x1. found x1)
            else gfail CompileError)
          else if getID oc_node = eTOKEN_DEC_OP \<or> getID oc_node = eTOKEN_INC_OP
          then gbind (need CompileError (gt (Some y_node) False False False None)) (\<lambda>y.
               gbind (need CompileError (gt (Some y_node) False False False None)) (\<lambda>x1.
               gbind (emit_IMU (if getID oc_node = eTOKEN_DEC_OP then IOPCODE_SUB else IOPCODE_ADD)
                        x1 (IMU_Constant 1) y) (\<lambda>_. found y)))
          else gfail CompileError
      | _ \<Rightarrow> gfail CompileError)"

section \<open>Calculations\<close>

text \<open>\<open>isUnsigned\<close>: a literal is, an integer as it was declared.\<close>

definition imu_isUnsigned :: "idents \<Rightarrow> cTerm \<Rightarrow> bool" where
  "imu_isUnsigned I t = (case t of IMU_Integer i \<Rightarrow> m_isUnsigned (ident_at I i) | IMU_Constant c \<Rightarrow> True | _ \<Rightarrow> False)"

definition imu_operator :: "idents \<Rightarrow> eTOKEN \<Rightarrow> cTerm \<Rightarrow> int res" where
  "imu_operator I t x1 =
     (if t = eTOKEN_additive_expression_add then Inr IOPCODE_ADD
      else if t = eTOKEN_additive_expression_sub then Inr IOPCODE_SUB
      else if t = eTOKEN_multiplicative_expression_mul then Inr IOPCODE_MUL
      else if t = eTOKEN_shift_expression_shl then Inr IOPCODE_SHL
      else if t = eTOKEN_shift_expression_shr then
        (if is_MU x1 then Inl BadCast else Inr (if imu_isUnsigned I x1 then IOPCODE_LSHR else IOPCODE_SHR))
      else if t = eTOKEN_inclusive_or_expression then Inr IOPCODE_OR
      else if t = eTOKEN_and_expression then Inr IOPCODE_AND
      else if t = eTOKEN_exclusive_or_expression then Inr IOPCODE_XOR
      else Inl CompileError)"

text \<open>In the vector unit the distance of a shift is the first operand. An accumulator is shifted in place.\<close>

definition mu_operator :: "idents \<Rightarrow> eTOKEN \<Rightarrow> cTerm \<Rightarrow> cTerm \<Rightarrow> (int \<times> cTerm \<times> cTerm \<times> cTerm option) res" where
  "mu_operator I t x1 x2 =
     (if t = eTOKEN_additive_expression_add then Inr (OPCODE_ADD, x1, x2, None)
      else if t = eTOKEN_additive_expression_sub then Inr (OPCODE_SUB, x1, x2, None)
      else if t = eTOKEN_multiplicative_expression_mul then Inr (OPCODE_MUL, x1, x2, None)
      else if t = eTOKEN_shift_expression_shl then
        Inr (if isDouble I x1 then (OPCODE_SHLA, x2, MU_Null, Some x1) else (OPCODE_SHL, x2, x1, None))
      else if t = eTOKEN_shift_expression_shr then
        Inr (if isDouble I x1 then (OPCODE_SHRA, x2, MU_Null, Some x1) else (OPCODE_SHR, x2, x1, None))
      else Inl CompileError)"

abbreviation (input) MAX_SHIFT_DISTANCE :: int where "MAX_SHIFT_DISTANCE \<equiv> 3"

text \<open>A shift by a variable distance: steps of at most \<open>MAX_SHIFT_DISTANCE\<close> in a loop, then the rest.\<close>

definition shift_loop :: "int \<Rightarrow> nat \<Rightarrow> cTerm \<Rightarrow> cTerm \<Rightarrow> cTerm \<Rightarrow> unit gen" where
  "shift_loop oc i x2 y acc =
     gbind temp_int (\<lambda>temp. gbind new_instr (\<lambda>last_instr.
     gbind (emit_MU oc (MU_Integer i) x2 acc (Some acc)) (\<lambda>_.
     gbind (emit_branch OPCODE_JUMP_LE (IMU_Integer i) (IMU_Constant MAX_SHIFT_DISTANCE) (Some (IMU_Integer temp))
              (Some last_instr) False) (\<lambda>_.
     gbind (emit_MU oc (MU_Integer temp) x2 acc (Some acc)) (\<lambda>again.
     gbind (emit_branch OPCODE_JUMP_GT (IMU_Integer temp) (IMU_Constant MAX_SHIFT_DISTANCE) (Some (IMU_Integer temp))
              (Some again) False) (\<lambda>_.
     gbind (fill_MU last_instr oc (MU_Integer temp) x2 y (Some acc)) (\<lambda>_.
     append_instr last_instr)))))))"

text \<open>A shift by a constant distance above the maximum, in steps.\<close>

definition shift_step :: "int \<Rightarrow> cTerm" where
  "shift_step k = new_MU_Constant_float (f32_of_int (if k > MAX_SHIFT_DISTANCE then MAX_SHIFT_DISTANCE else k))"

function shift_acc_steps :: "int \<Rightarrow> int \<Rightarrow> cTerm \<Rightarrow> cTerm \<Rightarrow> cTerm \<Rightarrow> unit gen" where
  "shift_acc_steps k oc x2 y acc =
     (if k \<le> 0 then gret ()
      else gbind (emit_MU oc (shift_step k) x2 (if k > MAX_SHIFT_DISTANCE then acc else y) (Some acc)) (\<lambda>_.
           shift_acc_steps (k - MAX_SHIFT_DISTANCE) oc x2 y acc))"
  by pat_completeness auto
termination by (relation "measure (\<lambda>(k, _). nat k)") auto

declare shift_acc_steps.simps [simp del]

function shift_steps :: "int \<Rightarrow> bool \<Rightarrow> int \<Rightarrow> cTerm \<Rightarrow> cTerm \<Rightarrow> bool \<Rightarrow> unit gen" where
  "shift_steps k first oc x2 y double =
     (if k \<le> 0 then gret ()
      else gbind (if first then emit_MU oc (shift_step k) x2 y None
                  else if double
                  then emit_MU (if oc = OPCODE_SHR then OPCODE_SHRA else OPCODE_SHLA) (shift_step k) MU_Null y (Some y)
                  else emit_MU oc (shift_step k) y y None) (\<lambda>_.
           shift_steps (k - MAX_SHIFT_DISTANCE) False oc x2 y double))"
  by pat_completeness auto
termination by (relation "measure (\<lambda>(k, _). nat k)") auto

declare shift_steps.simps [simp del]

definition emit_calc_MU :: "int \<Rightarrow> cTerm \<Rightarrow> cTerm \<Rightarrow> cTerm \<Rightarrow> cTerm option \<Rightarrow> unit gen" where
  "emit_calc_MU oc x1 x2 y xacc =
     (let plain = gbind (emit_MU oc x1 x2 y xacc) (\<lambda>_. gret ());
          double = (oc = OPCODE_SHRA \<or> oc = OPCODE_SHLA)
      in case x1 of
           MU_Integer i \<Rightarrow> (case xacc of Some acc \<Rightarrow> if double then shift_loop oc i x2 y acc else plain | None \<Rightarrow> plain)
         | MU_Constant c f \<Rightarrow>
             if double \<or> oc = OPCODE_SHR \<or> oc = OPCODE_SHL
             then gbind (gres (res_of_option Undefined (f32_to_int c))) (\<lambda>k.
                    if k \<le> MAX_SHIFT_DISTANCE then plain
                    else (case xacc of
                        Some acc \<Rightarrow> shift_acc_steps k oc x2 y acc
                      | None \<Rightarrow> gbind (ids_of (\<lambda>I. isDouble I y)) (\<lambda>dy. shift_steps k True oc x2 y dy)))
             else plain
         | _ \<Rightarrow> plain)"

text \<open>One operator: its operands are there already. The result is a new variable.\<close>

definition calc_IMU :: "eTOKEN \<Rightarrow> cTerm \<Rightarrow> cTerm \<Rightarrow> cTerm gen" where
  "calc_IMU t x1 x2 =
     gbind gget (\<lambda>s. gbind (gres (imu_operator (g_ids s) t x1)) (\<lambda>oc.
     gbind temp_int (\<lambda>i.
     if is_MU x1 \<or> is_MU x2 then gfail CompileError
     else gbind (emit_IMU oc x1 x2 (IMU_Integer i)) (\<lambda>_. gret (IMU_Integer i)))))"

definition calc_MU :: "eTOKEN \<Rightarrow> bool \<Rightarrow> cTerm \<Rightarrow> cTerm \<Rightarrow> cTerm gen" where
  "calc_MU t isExReg x1 x2 =
     gbind gget (\<lambda>s. gbind (gres (mu_operator (g_ids s) t x1 x2)) (\<lambda>(oc, u1, u2, xacc).
     gbind (cast_MU u1) (\<lambda>_.
     gbind (if mu_getVectorWidth (g_ids s) u1 > 0 then gret True
            else gbind (cast_MU u2) (\<lambda>_. gret (mu_getVectorWidth (g_ids s) u2 > 0))) (\<lambda>vector.
     gbind (if isExReg then new_id (new_cIdentifierExReg True None VECTOR_DEPTH False)
            else temp_private (if vector then VECTOR_DEPTH else 0)) (\<lambda>i.
     if \<not> is_MU u2 then gfail CompileError
     else gbind (emit_calc_MU oc u1 u2 (MU_Storage i 0 False) xacc) (\<lambda>_. gret (MU_Storage i 0 False)))))))"

text \<open>The loop over the operands, from the left.\<close>

fun calc_loop :: "gen_term \<Rightarrow> eTOKEN \<Rightarrow> bool \<Rightarrow> bool \<Rightarrow> cTerm option \<Rightarrow> cAstNode list \<Rightarrow> cTerm option gen" where
  "calc_loop gt t isExReg mu y (n1 # n2 # ns) =
     gbind (case y of Some z \<Rightarrow> gret z | None \<Rightarrow> need CompileError (gt (Some n1) False False mu None)) (\<lambda>x1.
     gbind (need CompileError (gt (Some n2) False False mu None)) (\<lambda>x2.
     gbind (if mu then calc_MU t isExReg x1 x2 else calc_IMU t x1 x2) (\<lambda>z.
     calc_loop gt t isExReg mu (Some z) (n2 # ns))))"
| "calc_loop gt t isExReg mu y [n] = gret y"
| "calc_loop gt t isExReg mu y [] = gfail NullPointer"

definition genTermCalculation :: "gen_term \<Rightarrow> cAstNode \<Rightarrow> bool \<Rightarrow> bool \<Rightarrow> (cTerm option \<times> bool) gen" where
  "genTermCalculation gt node isExReg mu =
     gbind (calc_loop gt (getID node) isExReg mu None (getChildList node)) (\<lambda>y. gret (y, False))"

section \<open>Identifiers\<close>

text \<open>A constant array is reached through a new constant pointer.\<close>

definition const_pointer_to :: "nat \<Rightarrow> nat gen" where
  "const_pointer_to i =
     gbind (new_id (new_cIdentifierPointer True None True 0 False)) (\<lambda>p.
     gbind (add_scope p i) (\<lambda>_.
     gbind (emit_IMU IOPCODE_ADD (IMU_ConstPointerConstant i 0) IMU_Zero (IMU_Pointer p)) (\<lambda>_. gret p)))"

text \<open>The width of a pointer and of what is assigned to it have to agree.\<close>

definition pointer_width_ok :: "idents \<Rightarrow> cTerm option \<Rightarrow> nat \<Rightarrow> bool \<Rightarrow> bool" where
  "pointer_width_ok I y i sub =
     (let wide = (isKindOf (ident_at I i) CStorage \<and> m_w (ident_at I i) \<noteq> 0 \<and> \<not> sub)
      in case y of
           None \<Rightarrow> True
         | Some (IMU_Pointer p) \<Rightarrow>
             (if m_width (ident_at I p) > 0 then wide
              else \<not> (isKindOf (ident_at I i) CStorage \<and> m_w (ident_at I i) > 0 \<and> \<not> sub))
         | Some _ \<Rightarrow> False)"

definition pointer_constant :: "idents \<Rightarrow> nat \<Rightarrow> int \<Rightarrow> bool \<Rightarrow> cTerm res" where
  "pointer_constant I i c sub =
     (if isKindOf (ident_at I i) CShared then Inr (IMU_SharedPointerConstant i c sub)
      else if isKindOf (ident_at I i) CPrivate then Inr (IMU_PrivatePointerConstant i c sub)
      else if isKindOf (ident_at I i) CConst then Inr (IMU_ConstPointerConstant i c)
      else Inl CompileError)"

definition special_term :: "string \<Rightarrow> cTerm option" where
  "special_term s =
     (if strcaseeq s ''tid'' then Some IMU_TID
      else if strcaseeq s ''_VMASK'' then Some IMU_Lane
      else if strcaseeq s ''pid'' then Some IMU_PID
      else None)"

definition genTermIdentifier :: "cAstNode \<Rightarrow> bool \<Rightarrow> bool \<Rightarrow> cTerm option \<Rightarrow> (cTerm option \<times> bool) gen" where
  "genTermIdentifier node ref mu y =
     gbind (gres (getStringValue node)) (\<lambda>s. case special_term s of
         Some t \<Rightarrow> if mu then gfail CompileError else found t
       | None \<Rightarrow>
           gbind (gres (getIdentifier node)) (\<lambda>m. case m of
               None \<Rightarrow> gfail CompileError
             | Some i \<Rightarrow> gbind gget (\<lambda>st.
                 let I = g_ids st; idn = ident_at I i in
                 if ref \<or> m_num_dim idn > 0
                 then (if pointer_width_ok I y i False then gbind (gres (pointer_constant I i 0 False)) found
                       else gfail CompileError)
                 else if isKindOf idn CShared \<or> isKindOf idn CPrivate \<or> isKindOf idn CExReg then found (MU_Storage i 0 False)
                 else if isKindOf idn CInteger then found (if mu then MU_Integer i else IMU_Integer i)
                 else if isKindOf idn CPointer then found (IMU_Pointer i)
                 else if isKindOf idn CConst
                 then gbind (const_pointer_to i) (\<lambda>p. found (MU_PointerWithoutIndex p 0))
                 else gfail CompileError)))"


section \<open>Array indices\<close>

text \<open>\<open>c + d * v\<close> in the compiler's own \<open>int\<close>.\<close>

definition add_scaled :: "int \<Rightarrow> int \<Rightarrow> int \<Rightarrow> int gen" where
  "add_scaled c d v = gres (res_of_option Undefined (Option.bind (c_mul d v) (c_add c)))"

definition sub_scaled :: "int \<Rightarrow> int \<Rightarrow> int \<Rightarrow> int gen" where
  "sub_scaled c d v = gres (res_of_option Undefined (Option.bind (c_mul d v) (c_sub c)))"

text \<open>An integer variable with the value of an index expression.\<close>

definition index_term :: "gen_term \<Rightarrow> cAstNode \<Rightarrow> nat gen" where
  "index_term gt n =
     gbind (need NullPointer (gt (Some n) False False False None)) (\<lambda>t. case t of IMU_Integer i \<Rightarrow> gret i | _ \<Rightarrow> gfail CompileError)"

definition index_id :: "gen_term \<Rightarrow> cAstNode \<Rightarrow> nat gen" where
  "index_id gt n =
     (if getID n = eTOKEN_IDENTIFIER
      then gbind (gres (getIdentifier n)) (\<lambda>m. case m of None \<Rightarrow> gfail CompileError | Some i \<Rightarrow> gret i)
      else index_term gt n)"

text \<open>
  The variable part and the constant part of one index. Of a sum or difference the first two operands are looked
  at.
\<close>

definition split_index :: "gen_term \<Rightarrow> int \<Rightarrow> int \<Rightarrow> cAstNode \<Rightarrow> (nat \<times> int) gen" where
  "split_index gt c d n =
     (let whole = gbind (index_term gt n) (\<lambda>i. gret (i, c)) in
      if getID n = eTOKEN_additive_expression_add \<or> getID n = eTOKEN_additive_expression_sub
      then (case getChildList n of
          n4 # n5 # _ \<Rightarrow>
            if getID n5 = eTOKEN_I_CONSTANT
            then gbind (index_id gt n4) (\<lambda>i. gbind (gres (getIntValue n5)) (\<lambda>v.
                 gbind (if getID n = eTOKEN_additive_expression_add then add_scaled c d v else sub_scaled c d v) (\<lambda>c'.
                 gret (i, c'))))
            else if getID n = eTOKEN_additive_expression_add \<and> getID n4 = eTOKEN_I_CONSTANT
            then gbind (index_id gt n5) (\<lambda>i. gbind (gres (getIntValue n4)) (\<lambda>v.
                 gbind (add_scaled c d v) (\<lambda>c'. gret (i, c'))))
            else whole
        | _ \<Rightarrow> gfail NullPointer)
      else whole)"

text \<open>The variable part \<open>i\<close>, scaled, is added to what the indices before it came to.\<close>

definition add_index :: "int \<Rightarrow> nat option \<Rightarrow> nat \<Rightarrow> nat gen" where
  "add_index d acc i =
     (let scaled = (if d = 1 then gret i
                    else gbind temp_int (\<lambda>t.
                         gbind (emit_IMU IOPCODE_MUL (IMU_Integer i) (IMU_Constant d) (IMU_Integer t)) (\<lambda>_. gret t)))
      in case acc of
           None \<Rightarrow> scaled
         | Some a \<Rightarrow> gbind scaled (\<lambda>j. gbind temp_int (\<lambda>t.
             gbind (emit_IMU IOPCODE_ADD (IMU_Integer j) (IMU_Integer a) (IMU_Integer t)) (\<lambda>_. gret t))))"

definition dim_size :: "cIdentifier \<Rightarrow> bool \<Rightarrow> nat \<Rightarrow> int res" where
  "dim_size idn subVector k =
     (if k < m_num_dim idn then res_bind (getDimSize idn k) (\<lambda>d. Inr (if subVector then d * VECTOR_WIDTH else d)) else Inr 1)"

fun decode_indices :: "gen_term \<Rightarrow> cIdentifier \<Rightarrow> bool \<Rightarrow> nat \<Rightarrow> nat option \<Rightarrow> int \<Rightarrow> cAstNode list \<Rightarrow> (nat option \<times> int) gen" where
  "decode_indices gt idn sub k i c [] = gret (i, c)"
| "decode_indices gt idn sub k i c (n2 # ns) =
     gbind (gres (dim_size idn sub k)) (\<lambda>d.
     if getID n2 \<noteq> eTOKEN_expression then gfail CompileError
     else (case getChildList n2 of
         [] \<Rightarrow> gfail CompileError
       | n3 # _ \<Rightarrow>
           gbind (gres (calc n3)) (\<lambda>r. case r of
               Some (v, isFloat) \<Rightarrow>
                 if isFloat then gfail CompileError
                 else gbind (gres (res_of_option Undefined (f32_to_int v))) (\<lambda>v.
                      gbind (add_scaled c d v) (\<lambda>c'. decode_indices gt idn sub (Suc k) i c' ns))
             | None \<Rightarrow>
                 if getID n3 = eTOKEN_I_CONSTANT
                 then gbind (gres (getIntValue n3)) (\<lambda>v.
                      gbind (add_scaled c d v) (\<lambda>c'. decode_indices gt idn sub (Suc k) i c' ns))
                 else gbind (split_index gt c d n3) (\<lambda>(j, c').
                      gbind (cast_id CInteger j) (\<lambda>j.
                      gbind (add_index d i j) (\<lambda>i'. decode_indices gt idn sub (Suc k) (Some i') c' ns))))))"

abbreviation (input) MAX_POINTER_OFFSET :: int where "MAX_POINTER_OFFSET \<equiv> 7"
abbreviation (input) MIN_POINTER_OFFSET :: int where "MIN_POINTER_OFFSET \<equiv> 0"

text \<open>A constant part that the offset field cannot hold goes into the variable part.\<close>

definition fit_offset :: "cIdentifier \<Rightarrow> nat option \<Rightarrow> int \<Rightarrow> (nat option \<times> int) gen" where
  "fit_offset idn i c =
     (if MIN_POINTER_OFFSET \<le> c \<and> c \<le> MAX_POINTER_OFFSET then gret (i, c)
      else (case i of
          None \<Rightarrow>
            if isKindOf idn CShared \<or> isKindOf idn CPrivate then gret (None, c)
            else gbind temp_int (\<lambda>t.
                 gbind (emit_IMU IOPCODE_ADD (IMU_Constant c) IMU_Zero (IMU_Integer t)) (\<lambda>_. gret (Some t, 0)))
        | Some j \<Rightarrow> gbind temp_int (\<lambda>t.
                 gbind (emit_IMU IOPCODE_ADD (IMU_Integer j) (IMU_Constant c) (IMU_Integer t)) (\<lambda>_. gret (Some t, 0)))))"

definition decode_array :: "gen_term \<Rightarrow> cAstNode \<Rightarrow> (nat \<times> nat option \<times> int \<times> bool) gen" where
  "decode_array gt node =
     (if getID node \<noteq> eTOKEN_postfix_expression2 then gfail AssertFail
      else (case getChildList node of
          [] \<Rightarrow> gfail CompileError
        | n # ns \<Rightarrow>
            gbind (node_id n) (\<lambda>i. gbind gget (\<lambda>s.
            let idn = ident_at (g_ids s) i; sub = (length ns > m_num_dim idn) in
            if \<not> isKindOf idn CStorage \<and> \<not> isKindOf idn CConst then gfail CompileError
            else if sub \<and> (length ns \<noteq> m_num_dim idn + 1 \<or> \<not> isKindOf idn CStorage \<or> m_w idn = 0) then gfail CompileError
            else gbind (decode_indices gt idn sub 0 None 0 ns) (\<lambda>(x, c).
                 gbind (fit_offset idn x c) (\<lambda>(x, c). gret (length ns, x, c, sub)))))))"

section \<open>Array elements\<close>

definition genTermDirectIndexing :: "gen_term \<Rightarrow> cAstNode \<Rightarrow> bool \<Rightarrow> cTerm option \<Rightarrow> (cTerm option \<times> bool) gen" where
  "genTermDirectIndexing gt node ref y =
     (case getChildList node of
        [] \<Rightarrow> gfail CompileError
      | n # _ \<Rightarrow>
        gbind (node_id n) (\<lambda>i.
        gbind (decode_array gt node) (\<lambda>(num_dim, x, c, sub). gbind gget (\<lambda>s.
        let idn = ident_at (g_ids s) i in
        if (num_dim = m_num_dim idn \<or> sub) \<and> \<not> ref
        then (if c \<ge> getLen idn then gfail CompileError
              else if isKindOf idn CStorage
              then (case x of
                  None \<Rightarrow> found (MU_Storage i c sub)
                | Some j \<Rightarrow> gbind (used_as_index j) (\<lambda>_. found (MU_StorageWithIndex i j c sub)))
              else if isKindOf idn CConst
              then gbind (const_pointer_to i) (\<lambda>p. case x of
                  None \<Rightarrow> found (MU_PointerWithoutIndex p c)
                | Some j \<Rightarrow> gbind (used_as_index j) (\<lambda>_. found (MU_PointerWithIndex p j c)))
              else gfail CompileError)
        else if (if num_dim \<ge> m_num_dim idn then \<not> ref else \<not> isKindOf idn CPrivate \<and> \<not> isKindOf idn CShared)
        then gfail CompileError
        else if \<not> pointer_width_ok (g_ids s) y i sub then gfail CompileError
        else gbind (gres (pointer_constant (g_ids s) i c sub)) (\<lambda>t. case x of
            None \<Rightarrow> found t
          | Some j \<Rightarrow> gbind temp_int (\<lambda>u.
              gbind (emit_IMU IOPCODE_ADD t (IMU_Integer j) (IMU_Integer u)) (\<lambda>_. found (IMU_Integer u)))))))
      )"

text \<open>
  An element behind a pointer. The variable part of the index and a constant offset that fits; otherwise the whole
  index is a variable.
\<close>

definition pointer_at :: "nat \<Rightarrow> nat \<Rightarrow> int \<Rightarrow> (cTerm option \<times> bool) gen" where
  "pointer_at p i c =
     gbind (cast_id CPointer p) (\<lambda>p. gbind (used_as_index i) (\<lambda>_. found (MU_PointerWithIndex p i c)))"

definition pointer_variable :: "gen_term \<Rightarrow> nat \<Rightarrow> cAstNode \<Rightarrow> int \<Rightarrow> (cTerm option \<times> bool) gen" where
  "pointer_variable gt p n c =
     gbind (if getID n = eTOKEN_IDENTIFIER then node_id n else index_term gt n) (\<lambda>i.
     gbind (id_is CInteger i) (\<lambda>k. if k then pointer_at p i c else gfail CompileError))"

definition pointer_whole :: "gen_term \<Rightarrow> nat \<Rightarrow> cAstNode \<Rightarrow> (cTerm option \<times> bool) gen" where
  "pointer_whole gt p n = gbind (index_term gt n) (\<lambda>i. pointer_at p i 0)"

text \<open>\<open>n\<close> is the index, \<open>v\<close> and \<open>k\<close> its variable and its constant operand, \<open>sign\<close> that of the constant.\<close>

definition pointer_sum :: "gen_term \<Rightarrow> nat \<Rightarrow> cAstNode \<Rightarrow> cAstNode \<Rightarrow> cAstNode \<Rightarrow> int \<Rightarrow> (cTerm option \<times> bool) gen" where
  "pointer_sum gt p n v k sign =
     (if getID k = eTOKEN_I_CONSTANT
      then gbind (gres (getIntValue k)) (\<lambda>c.
        gbind (gres (res_of_option Undefined (if sign = 1 then Some c else c_checked (- c)))) (\<lambda>c.
        if MIN_POINTER_OFFSET \<le> c \<and> c \<le> MAX_POINTER_OFFSET then pointer_variable gt p v c else pointer_whole gt p n))
      else pointer_whole gt p n)"

definition genTermPointerIndexing :: "gen_term \<Rightarrow> cAstNode \<Rightarrow> (cTerm option \<times> bool) gen" where
  "genTermPointerIndexing gt node =
     (case getChildList node of
        [] \<Rightarrow> gfail CompileError
      | [_] \<Rightarrow> gfail CompileError
      | n # n2 # others \<Rightarrow>
        gbind (node_id n) (\<lambda>p.
        if others \<noteq> [] then gfail CompileError
        else if getID n2 \<noteq> eTOKEN_expression then gfail CompileError
        else (case getChildList n2 of
            [] \<Rightarrow> gfail CompileError
          | n3 # _ \<Rightarrow>
            if getID n3 = eTOKEN_I_CONSTANT
            then gbind (gres (getIntValue n3)) (\<lambda>c.
              if MIN_POINTER_OFFSET \<le> c \<and> c \<le> MAX_POINTER_OFFSET
              then gbind (cast_id CPointer p) (\<lambda>p. found (MU_PointerWithoutIndex p c))
              else gbind temp_int (\<lambda>t.
                   gbind (emit_IMU IOPCODE_ADD (IMU_Constant c) IMU_Zero (IMU_Integer t)) (\<lambda>_. pointer_at p t 0)))
            else if getID n3 = eTOKEN_additive_expression_sub
            then (case getChildList n3 of a # b # _ \<Rightarrow> pointer_sum gt p n3 a b (-1) | _ \<Rightarrow> gfail NullPointer)
            else if getID n3 = eTOKEN_additive_expression_add
            then (case getChildList n3 of
                a # b # _ \<Rightarrow> if getID a = eTOKEN_I_CONSTANT then pointer_sum gt p n3 b a 1 else pointer_sum gt p n3 a b 1
              | _ \<Rightarrow> gfail NullPointer)
            else if getID n3 = eTOKEN_IDENTIFIER then pointer_variable gt p n3 0
            else pointer_whole gt p n3)))"


section \<open>Operations by name\<close>

definition is_acc_name :: "cAstNode \<Rightarrow> bool" where
  "is_acc_name n \<longleftrightarrow> getID n = eTOKEN_IDENTIFIER \<and> (case getStringValue n of Inr s \<Rightarrow> strcaseeq s ''_A'' | Inl _ \<Rightarrow> False)"

text \<open>
  The arguments of a multiplication with the accumulator: \<open>_A\<close> is the second or the third one, and not the first.
  The result is the second argument and whether the two were exchanged.
\<close>

definition acc_arguments :: "cAstNode list \<Rightarrow> (cAstNode \<times> bool) res" where
  "acc_arguments args =
     (case args of
        a # b # c # _ \<Rightarrow>
          if is_acc_name a then Inl CompileError
          else if is_acc_name b then (if is_acc_name c then Inl CompileError else Inr (c, True))
          else Inr (b, False)
      | _ \<Rightarrow> Inl CompileError)"

text \<open>An argument of type float, or one of type int, which must be in a register.\<close>

definition int_argument :: "genctx \<Rightarrow> gen_term \<Rightarrow> bool \<Rightarrow> cAstNode \<Rightarrow> cTerm gen" where
  "int_argument cx gt instrs n =
     gbind (need NullPointer (gt (Some n) False False False None)) (\<lambda>t.
     gbind (if t = IMU_Result \<or> t = IMU_TID \<or> t = IMU_PID
            then gbind (copy_to_temp False t) (\<lambda>i. gret (IMU_Integer i)) else gret t) (\<lambda>t.
     gbind (if instrs then conv2MU cx t else ids_of (\<lambda>I. Convert2MU (cx_addr cx) I t)) (\<lambda>r. case r of
         None \<Rightarrow> gfail CompileError
       | Some u \<Rightarrow> gret u)))"

definition first_argument :: "genctx \<Rightarrow> gen_term \<Rightarrow> sMuOpcodeDef \<Rightarrow> cAstNode \<Rightarrow> cTerm option gen" where
  "first_argument cx gt d n =
     (if od_x1_type d = eMuOpcodeDefDataTypeFloat
      then gbind (gt (Some n) False False True None) (\<lambda>(t, _). gret (map_option as_float_const t))
      else if od_x1_type d = eMuOpcodeDefDataTypeInt
      then gbind (int_argument cx gt False n) (\<lambda>t. gret (Some (as_int_const t)))
      else gfail CompileError)"

definition second_argument :: "genctx \<Rightarrow> gen_term \<Rightarrow> sMuOpcodeDef \<Rightarrow> cAstNode option \<Rightarrow> cTerm option gen" where
  "second_argument cx gt d x =
     (if od_x2_type d = eMuOpcodeDefDataTypeFloat
      then (case x of
          None \<Rightarrow> gfail CompileError
        | Some n \<Rightarrow> gbind (gt (Some n) False False True None) (\<lambda>(t, _). gret (map_option as_float_const t)))
      else if od_x2_type d = eMuOpcodeDefDataTypeInt
      then (case x of
          None \<Rightarrow> gfail CompileError
        | Some n \<Rightarrow> gbind (int_argument cx gt True n) (\<lambda>t. gret (Some (as_int_const t))))
      else (case x of Some n \<Rightarrow> gfail CompileError | None \<Rightarrow> gret (Some MU_Null)))"

definition check_argument :: "eMuOpcodeDefDataType \<Rightarrow> cTerm option \<Rightarrow> unit gen" where
  "check_argument d x =
     (case x of None \<Rightarrow> gret ()
      | Some t \<Rightarrow> gbind (gres (isMuParmValid d t)) (\<lambda>ok. if ok then gret () else gfail CompileError))"

text \<open>The second argument, and whether it changed places with \<open>_A\<close>.\<close>

definition operand_nodes :: "int \<Rightarrow> cAstNode \<Rightarrow> cAstNode list \<Rightarrow> (cAstNode option \<times> bool) res" where
  "operand_nodes oc n1 ns =
     (if OPCODE_FMS \<le> oc \<and> oc \<le> OPCODE_FMS + 7
      then res_bind (acc_arguments (n1 # ns)) (\<lambda>(b, swap). Inr (Some b, swap))
      else Inr (case ns of [] \<Rightarrow> None | b # _ \<Rightarrow> Some b, False))"

definition apply_opcode :: "genctx \<Rightarrow> gen_term \<Rightarrow> cAstNode \<Rightarrow> int \<Rightarrow> bool \<Rightarrow> (cTerm option \<times> bool) gen" where
  "apply_opcode cx gt node oc mu =
     gbind (gres (deref (getChild [eTOKEN_argument_expression_list] node))) (\<lambda>args.
     case getChildList args of
       [] \<Rightarrow> gfail CompileError
     | n1 # ns \<Rightarrow>
       gbind (gres (operand_nodes oc n1 ns)) (\<lambda>(n2, swap).
       gbind (gres (GetMuOpcodeDef oc)) (\<lambda>d.
       gbind (first_argument cx gt d n1) (\<lambda>x1.
       gbind (second_argument cx gt d n2) (\<lambda>x2.
       gbind (check_argument (od_x1_type d) x1) (\<lambda>_.
       gbind (if n2 = None then gret () else check_argument (od_x2_type d) x2) (\<lambda>_.
       gbind (if od_y_type d = eMuOpcodeDefDataTypeInt then gret MU_Result
              else if od_y_type d = eMuOpcodeDefDataTypeFloat
              then gbind (temp_private (if od_y_vector d then VECTOR_DEPTH else 0)) (\<lambda>i. gret (MU_Storage i 0 False))
              else gret MU_Null) (\<lambda>y.
       gbind (gres (deref x1)) (\<lambda>u1. gbind (gres (deref x2)) (\<lambda>u2.
       gbind (emit_MU (if swap then oc + 4 else oc) u1 u2 y None) (\<lambda>_.
       gbind (if y = MU_Result then gbind (copy_to_temp False IMU_Result) (\<lambda>i. gret (IMU_Integer i)) else gret y) (\<lambda>y.
       if mu then found y else gbind (gres (Convert2IMU y)) (\<lambda>t. gret (t, False))))))))))))))"

section \<open>Function calls\<close>

text \<open>
  Parameters are passed in stack variables, the widest ones first. \<open>pos\<close> has the next position for each width;
  a variable of width \<open>w\<close> takes \<open>2 ^ (w - v)\<close> positions of each smaller width \<open>v\<close>.
\<close>

definition take_position :: "nat \<Rightarrow> int list \<Rightarrow> int list" where
  "take_position w pos = map (\<lambda>v. if v \<le> w then pos ! v + 2 ^ (w - v) else pos ! v) [0..<length pos]"

record call_state =
  cs_pos :: "int list"
  cs_stack :: "nat list"
  cs_lst :: "nat list"

text \<open>One parameter. The assignments to the stack variables are collected, to be appended at the end.\<close>

definition pass_parameter :: "genctx \<Rightarrow> gen_term \<Rightarrow> nat \<Rightarrow> nat \<Rightarrow> cAstNode \<Rightarrow> call_state \<Rightarrow> call_state gen" where
  "pass_parameter cx gt w parm n cs =
     gbind gget (\<lambda>s.
     gbind (getStackVariable (cs_pos cs ! w) (int w)) (\<lambda>i.
     gbind (if m_alias (ident_at (g_ids s) parm) = None
            then gbind (need NullPointer (gt (Some n) False False True None)) (\<lambda>t.
                 gbind (ids_of (\<lambda>I. mu_getVectorWidth I t)) (\<lambda>tw.
                 if \<not> is_MU t \<or> (case t of MU_Integer _ \<Rightarrow> True | _ \<Rightarrow> False) \<or> tw \<noteq> int w then gfail CompileError
                 else gret (OPCODE_ASSIGN, t)))
            else gbind (need NullPointer (gt (Some n) False False False None)) (\<lambda>t.
                 gbind (conv2MU cx t) (\<lambda>r. gbind (gres (deref r)) (\<lambda>u. case u of
                     MU_Constant c f \<Rightarrow> gret (OPCODE_ASSIGN_RAW, MU_Constant c False)
                   | MU_Integer j \<Rightarrow> gret (OPCODE_ASSIGN_RAW, u)
                   | _ \<Rightarrow> gfail CompileError)))) (\<lambda>(oc, t).
     gbind new_instr (\<lambda>k.
     gbind (fill_MU k oc t MU_Null (MU_Storage i 0 False) None) (\<lambda>_.
     gret \<lparr>cs_pos = take_position w (cs_pos cs), cs_stack = iv_append (cs_stack cs) i, cs_lst = cs_lst cs @ [k]\<rparr>)))))"

fun pass_width :: "genctx \<Rightarrow> gen_term \<Rightarrow> nat list \<Rightarrow> nat \<Rightarrow> nat \<Rightarrow> cAstNode list \<Rightarrow> call_state \<Rightarrow> call_state gen" where
  "pass_width cx gt ids w count [] cs =
     gbind gget (\<lambda>s. if getFuncParameterCount (g_ids s) ids \<noteq> count then gfail CompileError else gret cs)"
| "pass_width cx gt ids w count (n # ns) cs =
     gbind gget (\<lambda>s. case getFuncParameter (g_ids s) ids count of
         None \<Rightarrow> gfail CompileError
       | Some parm \<Rightarrow>
           if m_num_dim (ident_at (g_ids s) parm) > 0 then gfail CompileError
           else if \<not> isKindOf (ident_at (g_ids s) parm) CParameter then gfail BadCast
           else gbind (if m_w (ident_at (g_ids s) parm) \<noteq> int w then gret cs else pass_parameter cx gt w parm n cs) (\<lambda>cs.
                pass_width cx gt ids w (Suc count) ns cs))"

text \<open>The place of the return value comes behind the parameters of its width.\<close>

fun pass_widths :: "genctx \<Rightarrow> gen_term \<Rightarrow> nat list \<Rightarrow> nat option \<Rightarrow> cAstNode list \<Rightarrow> nat list \<Rightarrow> call_state \<times> nat option \<Rightarrow> (call_state \<times> nat option) gen" where
  "pass_widths cx gt ids rv args [] r = gret r"
| "pass_widths cx gt ids rv args (w # ws) (cs, y) =
     gbind (pass_width cx gt ids w 0 args cs) (\<lambda>cs. gbind gget (\<lambda>s.
     gbind (case rv of
              None \<Rightarrow> gret (cs, y)
            | Some v \<Rightarrow>
                if m_w (ident_at (g_ids s) v) \<noteq> int w then gret (cs, y)
                else gbind (getStackVariable (cs_pos cs ! w) (int w)) (\<lambda>i.
                     gret (cs\<lparr>cs_pos := take_position w (cs_pos cs)\<rparr>, Some i))) (\<lambda>r.
     pass_widths cx gt ids rv args ws r)))"

definition call_result :: "bool \<Rightarrow> nat option \<Rightarrow> nat option \<Rightarrow> (cTerm option \<times> bool) gen" where
  "call_result mu rv y =
     (case (y, rv) of
        (Some i, Some v) \<Rightarrow> gbind gget (\<lambda>s.
          if m_float (ident_at (g_ids s) v) \<noteq> mu then gfail CompileError
          else if mu
          then gbind (temp_private (m_w (ident_at (g_ids s) i))) (\<lambda>t.
               gbind (emit_MU OPCODE_ASSIGN (MU_Storage i 0 False) MU_Null (MU_Storage t 0 False) None) (\<lambda>_.
               found (MU_Storage t 0 False)))
          else gbind (emit_MU OPCODE_ASSIGN_RAW (MU_Storage i 0 False) MU_Null MU_Result None) (\<lambda>_.
               gbind (copy_to_temp False IMU_Result) (\<lambda>t. found (IMU_Integer t))))
      | _ \<Rightarrow> found (if mu then MU_Null else IMU_Null))"

definition genTermFunctionCall :: "genctx \<Rightarrow> gen_term \<Rightarrow> cAstNode \<Rightarrow> string \<Rightarrow> bool \<Rightarrow> (cTerm option \<times> bool) gen" where
  "genTermFunctionCall cx gt node name mu =
     gbind (gres (GetFunction (cx_root cx) name)) (\<lambda>f. case f of
         None \<Rightarrow> gfail CompileError
       | Some func2 \<Rightarrow>
         gbind (gres (block_ids func2)) (\<lambda>ids. gbind gget (\<lambda>s.
         let rv = getReturnValue (g_ids s) ids in
         gbind (gres (deref (getChild [eTOKEN_argument_expression_list] node))) (\<lambda>args.
         gbind (pass_widths cx gt ids rv (getChildList args) [3, 2, 1, 0]
                  (\<lparr>cs_pos = [0, 0, 0, 0], cs_stack = [], cs_lst = []\<rparr>, None)) (\<lambda>(cs, y).
         gbind (gmap append_instr (cs_lst cs)) (\<lambda>_.
         gbind (emit (\<lambda>ins. Inr (createFunctionJump name 0 (cs_stack cs) y ins))) (\<lambda>_.
         call_result mu rv y)))))))"

definition genTermFunction :: "genctx \<Rightarrow> gen_term \<Rightarrow> cAstNode \<Rightarrow> bool \<Rightarrow> (cTerm option \<times> bool) gen" where
  "genTermFunction cx gt node mu =
     gbind (gres (deref (getChild [eTOKEN_IDENTIFIER] node))) (\<lambda>n. gbind (gres (getStringValue n)) (\<lambda>name.
       case decode_mu_oc name of
         None \<Rightarrow> genTermFunctionCall cx gt node name mu
       | Some oc \<Rightarrow> apply_opcode cx gt node oc mu))"

section \<open>Expressions\<close>

definition calculation_tokens :: "eTOKEN list" where
  "calculation_tokens =
     [eTOKEN_additive_expression_add, eTOKEN_additive_expression_sub, eTOKEN_multiplicative_expression_mul,
      eTOKEN_shift_expression_shl, eTOKEN_shift_expression_shr, eTOKEN_inclusive_or_expression,
      eTOKEN_and_expression, eTOKEN_exclusive_or_expression]"

text \<open>The sibling behind a unary operator.\<close>

definition behind_operator :: "cAstNode \<Rightarrow> cAstNode option" where
  "behind_operator node = (case child_from [eTOKEN_unary_operator] node of _ # n # _ \<Rightarrow> Some n | _ \<Rightarrow> None)"

definition genTerm_node :: "genctx \<Rightarrow> gen_term \<Rightarrow> gen_stmt \<Rightarrow> cAstNode \<Rightarrow> bool \<Rightarrow> bool \<Rightarrow> bool \<Rightarrow> cTerm option \<Rightarrow> (cTerm option \<times> bool) gen" where
  "genTerm_node cx gt gs node isExReg ref mu y =
     (let t = getID node in
      if t = eTOKEN_conditional_expression then genTermConditionalExpression gt gs node mu y
      else if t = eTOKEN_assignment_expression then genTermAssignmentExpression gt node
      else if t = eTOKEN_postfix_expression7 \<or> t = eTOKEN_postfix_expression8 then genTermPostIncrementDecrement gt node
      else if t = eTOKEN_postfix_expression4 then genTermFunction cx gt node mu
      else if t = eTOKEN_unary_expression then
        (case getChild [eTOKEN_unary_operator] node of
           None \<Rightarrow> genTermPreIncrementDecrement gt node ref mu
         | Some n \<Rightarrow> gbind (gres (getStringValue n)) (\<lambda>u.
             if u = ''&'' then gt (behind_operator node) False True mu y
             else if u = ''*'' then gfail CompileError
             else genTermPreIncrementDecrement gt node ref mu))
      else if t = eTOKEN_expression then
        gt (case getChildList node of [] \<Rightarrow> None | n # _ \<Rightarrow> Some n) False ref mu y
      else if t \<in> set calculation_tokens then genTermCalculation gt node isExReg mu
      else if t = eTOKEN_IDENTIFIER then genTermIdentifier node ref mu y
      else if t = eTOKEN_I_CONSTANT then
        gbind (gres (getIntValue node)) (\<lambda>i. found (if mu then new_MU_Constant_float (f32_of_int i) else IMU_Constant i))
      else if t = eTOKEN_F_CONSTANT then
        (if mu then gbind (gres (getFloatValue node)) (\<lambda>f. found (new_MU_Constant_float f)) else gfail CompileError)
      else if t = eTOKEN_postfix_expression2 then
        (case getChildList node of
           [] \<Rightarrow> gfail CompileError
         | n # _ \<Rightarrow>
             gbind (node_id n) (\<lambda>i. gbind gget (\<lambda>s.
             let idn = ident_at (g_ids s) i in
             if isKindOf idn CStorage \<or> isKindOf idn CConst then genTermDirectIndexing gt node ref y
             else if isKindOf idn CPointer then genTermPointerIndexing gt node
             else gfail CompileError)))
      else gfail CompileError)"

definition genTerm_body :: "genctx \<Rightarrow> gen_term \<Rightarrow> gen_stmt \<Rightarrow> gen_term" where
  "genTerm_body cx gt gs node isExReg ref mu y =
     (case node of
        None \<Rightarrow> found (if mu then MU_Null else IMU_Null)
      | Some n \<Rightarrow> genTerm_node cx gt gs n isExReg ref mu y)"


end
