(* ===== verification/Unroll.thy ===== *)
theory Unroll
  imports GenBase
begin

text \<open>
  Unrolling of \<open>for\<close> loops, from \<open>SW/compiler/gen.cpp\<close>: \<open>identifierIsMod\<close>, \<open>loopUnroll\<close>,
  \<open>substituteGenIdentifier\<close> and the loop over the indices in \<open>process_code_block\<close>; and that the unrolled loop
  runs through the same indices as the loop.
\<close>

section \<open>Is a variable assigned?\<close>

definition child_at :: "nat \<Rightarrow> cAstNode \<Rightarrow> cAstNode res" where
  "child_at k n = (if k < length (getChildList n) then Inr (getChildList n ! k) else Inl NullPointer)"

definition names :: "nat \<Rightarrow> cAstNode \<Rightarrow> bool res" where
  "names x n = (if getID n = eTOKEN_IDENTIFIER then res_bind (getIdentifier n) (\<lambda>m. Inr (m = Some x)) else Inr False)"

definition assigns :: "nat \<Rightarrow> cAstNode \<Rightarrow> bool res" where
  "assigns x n =
     (if getID n \<in> {eTOKEN_assignment_expression, eTOKEN_postfix_expression7, eTOKEN_postfix_expression8}
      then res_bind (child_at 0 n) (names x)
      else if getID n = eTOKEN_unary_expression then res_bind (child_at 1 n) (names x)
      else Inr False)"

fun identifierIsMod :: "nat \<Rightarrow> cAstNode \<Rightarrow> bool res" and anyIsMod :: "nat \<Rightarrow> cAstNode list \<Rightarrow> bool res" where
  "identifierIsMod x (AstComposite t b cs) =
     res_bind (assigns x (AstComposite t b cs)) (\<lambda>a. if a then Inr True else anyIsMod x cs)"
| "identifierIsMod x n = assigns x n"
| "anyIsMod x [] = Inr False"
| "anyIsMod x (c # cs) = res_bind (identifierIsMod x c) (\<lambda>a. if a then Inr True else anyIsMod x cs)"

section \<open>The header of a loop\<close>

text \<open>
  Whether a loop can be unrolled, and its first and last index, its step and its variable. \<open>None\<close> is a refusal
  with a warning. The first part is the reading of \<open>i=0\<close>, of \<open>i<4\<close> and of \<open>i++\<close>, \<open>i--\<close>, \<open>i+=2\<close> or \<open>i-=2\<close>.
\<close>

type_synonym 'a attempt = "'a option res"

definition refuse :: "'a attempt" where
  "refuse = Inr None"

definition try_bind :: "'a attempt \<Rightarrow> ('a \<Rightarrow> 'b attempt) \<Rightarrow> 'b attempt" where
  "try_bind m f = res_bind m (\<lambda>r. case r of None \<Rightarrow> Inr None | Some a \<Rightarrow> f a)"

definition loop_start :: "cAstNode \<Rightarrow> (nat option \<times> int) attempt" where
  "loop_start s1 =
     (case getChild [eTOKEN_assignment_expression] s1 of
        None \<Rightarrow> refuse
      | Some a \<Rightarrow>
          res_bind (child_at 0 a) (\<lambda>n. if getID n \<noteq> eTOKEN_IDENTIFIER then refuse
          else res_bind (getIdentifier n) (\<lambda>x.
          res_bind (child_at 1 a) (\<lambda>n. if getID n \<noteq> eTOKEN_assignment_operator then refuse
          else res_bind (child_at 2 a) (\<lambda>n. if getID n \<noteq> eTOKEN_I_CONSTANT then refuse
          else res_bind (getIntValue n) (\<lambda>c. Inr (Some (x, c))))))))"

text \<open>The direction \<open>cmp\<close> of the comparison is that it goes up, and \<open>eq\<close> that the bound itself is reached.\<close>

definition loop_direction :: "eTOKEN \<Rightarrow> (bool \<times> bool) option" where
  "loop_direction t =
     (if t = eTOKEN_relational_expression_lt then Some (True, False)
      else if t = eTOKEN_relational_expression_le then Some (True, True)
      else if t = eTOKEN_relational_expression_gt then Some (False, False)
      else if t = eTOKEN_relational_expression_ge then Some (False, True)
      else None)"

definition loop_bound :: "cAstNode \<Rightarrow> (nat option \<times> int \<times> bool \<times> bool) attempt" where
  "loop_bound s2 =
     res_bind (child_at 0 s2) (\<lambda>r.
     res_bind (child_at 0 r) (\<lambda>n. if getID n \<noteq> eTOKEN_IDENTIFIER then refuse
     else res_bind (getIdentifier n) (\<lambda>x.
     res_bind (child_at 1 r) (\<lambda>n. if getID n \<noteq> eTOKEN_I_CONSTANT then refuse
     else res_bind (getIntValue n) (\<lambda>c.
     case loop_direction (getID r) of None \<Rightarrow> refuse | Some (up, eq) \<Rightarrow> Inr (Some (x, c, up, eq)))))))"

definition loop_step :: "cAstNode \<Rightarrow> (nat option \<times> int) attempt" where
  "loop_step s3 =
     (let step_of = (\<lambda>n k. res_bind (getIdentifier n) (\<lambda>x. Inr (Some (x, k)))) in
      if getChild [eTOKEN_postfix_expression7, eTOKEN_INC_OP] s3 \<noteq> None
      then (case getChild [eTOKEN_postfix_expression7, eTOKEN_IDENTIFIER] s3 of
          None \<Rightarrow> refuse | Some n \<Rightarrow> step_of n 1)
      else if getChild [eTOKEN_postfix_expression8, eTOKEN_DEC_OP] s3 \<noteq> None
      then (case getChild [eTOKEN_postfix_expression8, eTOKEN_IDENTIFIER] s3 of
          None \<Rightarrow> refuse | Some n \<Rightarrow> step_of n (-1))
      else if getChild [eTOKEN_assignment_expression, eTOKEN_ADD_ASSIGN] s3 \<noteq> None
      then (case getChild [eTOKEN_assignment_expression, eTOKEN_IDENTIFIER] s3 of
          None \<Rightarrow> refuse
        | Some n \<Rightarrow> res_bind (deref (getChild [eTOKEN_assignment_expression, eTOKEN_I_CONSTANT] s3)) (\<lambda>c.
            res_bind (getIntValue c) (step_of n)))
      else if getChild [eTOKEN_assignment_expression, eTOKEN_SUB_ASSIGN] s3 \<noteq> None
      then res_bind (deref (getChild [eTOKEN_assignment_expression, eTOKEN_IDENTIFIER] s3)) (\<lambda>n.
           res_bind (deref (getChild [eTOKEN_assignment_expression, eTOKEN_I_CONSTANT] s3)) (\<lambda>c.
           res_bind (getIntValue c) (\<lambda>v. res_bind (res_of_option Undefined (c_checked (- v))) (step_of n))))
      else Inl CompileError)"

text \<open>Division of \<open>int\<close>, and the last index.\<close>

definition c_div :: "int \<Rightarrow> int \<Rightarrow> int option" where
  "c_div a b = (if b = 0 then None else c_checked (sgn a * sgn b * (\<bar>a\<bar> div \<bar>b\<bar>)))"

definition last_index :: "int \<Rightarrow> int \<Rightarrow> int \<Rightarrow> bool \<Rightarrow> int option" where
  "last_index from to step eq =
     Option.bind (c_sub to from) (\<lambda>d. Option.bind (c_div d step) (\<lambda>q. Option.bind (c_mul q step) (\<lambda>m.
     Option.bind (c_add from m) (\<lambda>l. if \<not> eq \<and> l = to then c_sub l step else Some l))))"

definition loopUnroll ::
  "idents \<Rightarrow> cAstNode option \<Rightarrow> cAstNode option \<Rightarrow> cAstNode option \<Rightarrow> cAstNode option \<Rightarrow> (int \<times> int \<times> int \<times> nat) attempt" where
  "loopUnroll I m1 m2 m3 m4 =
     (case (m1, m2, m3) of
        (Some s1, Some s2, Some s3) \<Rightarrow>
          try_bind (loop_start s1) (\<lambda>(x1, from).
          try_bind (loop_bound s2) (\<lambda>(x2, to, up, eq).
          try_bind (loop_step s3) (\<lambda>(x3, step).
          if x1 \<noteq> x2 \<or> x1 \<noteq> x3 then refuse
          else res_bind (deref x1) (\<lambda>x.
          if \<not> isKindOf (ident_at I x) CInteger then refuse
          else res_bind (res_of_option Undefined (last_index from to step eq)) (\<lambda>l.
          if \<not> up \<and> (step \<ge> 0 \<or> l > from) then refuse
          else if up \<and> (step < 0 \<or> l < from) then refuse
          else res_bind (case m4 of None \<Rightarrow> Inr False | Some s4 \<Rightarrow> identifierIsMod x s4) (\<lambda>md.
          if md then refuse else Inr (Some (from, l, step, x))))))))
      | _ \<Rightarrow> refuse)"

section \<open>The unrolled loop\<close>

text \<open>The index runs from the first to the last one. Enough fuel is \<open>\<bar>to - from\<bar> + 1\<close>.\<close>

fun unroll_indices :: "nat \<Rightarrow> int \<Rightarrow> int \<Rightarrow> int \<Rightarrow> int list option" where
  "unroll_indices 0 i to step = None"
| "unroll_indices (Suc k) i to step =
     (if i = to then Some [i] else map_option ((#) i) (unroll_indices k (i + step) to step))"

text \<open>The variable becomes a literal in the body, and a literal that stands for it gets the new index.\<close>

fun substituteGenIdentifier :: "nat \<Rightarrow> int \<Rightarrow> cAstNode \<Rightarrow> cAstNode" and substitute_child :: "nat \<Rightarrow> int \<Rightarrow> cAstNode \<Rightarrow> cAstNode" where
  "substituteGenIdentifier x v (AstComposite t b cs) = AstComposite t b (map (substitute_child x v) cs)"
| "substituteGenIdentifier x v n = n"
| "substitute_child x v (AstComposite t b cs) = AstComposite t b (map (substitute_child x v) cs)"
| "substitute_child x v (AstIdentifier t s m) =
     (if m = Some x then AstInt eTOKEN_I_CONSTANT v False (Some x) else AstIdentifier t s m)"
| "substitute_child x v (AstInt t i u g) = (if g = Some x then AstInt t v u g else AstInt t i u g)"
| "substitute_child x v n = n"

lemma substitute_child_again: "substitute_child x w (substitute_child x v n) = substitute_child x w n"
  by (induction n rule: substituteGenIdentifier_substitute_child.induct(2) [of _ "\<lambda>_ _ _. True"]) auto

text \<open>Substituting again undoes what the round before has done to the tree.\<close>

lemma substituteGenIdentifier_again:
  "substituteGenIdentifier x w (substituteGenIdentifier x v n) = substituteGenIdentifier x w n"
  by (cases n) (auto simp: substitute_child_again)

section \<open>The indices of the loop\<close>

text \<open>The header \<open>for (x = a; x op b; step)\<close> as the parser builds it.\<close>

datatype for_step = Inc | Dec | Plus int | Minus int

fun for_delta :: "for_step \<Rightarrow> int" where
  "for_delta Inc = 1"
| "for_delta Dec = -1"
| "for_delta (Plus c) = c"
| "for_delta (Minus c) = - c"

definition variable :: "nat \<Rightarrow> cAstNode" where
  "variable x = AstIdentifier eTOKEN_IDENTIFIER ''i'' (Some x)"

definition literal :: "int \<Rightarrow> cAstNode" where
  "literal c = AstInt eTOKEN_I_CONSTANT c False None"

definition for_init :: "nat \<Rightarrow> int \<Rightarrow> cAstNode" where
  "for_init x a = AstComposite eTOKEN_expression None [AstComposite eTOKEN_assignment_expression None
     [variable x, AstToken eTOKEN_assignment_operator 0 [], literal a]]"

definition for_test :: "eTOKEN \<Rightarrow> nat \<Rightarrow> int \<Rightarrow> cAstNode" where
  "for_test t x b = AstComposite eTOKEN_expression None [AstComposite t None [variable x, literal b]]"

fun for_advance :: "for_step \<Rightarrow> nat \<Rightarrow> cAstNode" where
  "for_advance Inc x = AstComposite eTOKEN_expression None [AstComposite eTOKEN_postfix_expression7 None
     [variable x, AstToken eTOKEN_INC_OP 0 []]]"
| "for_advance Dec x = AstComposite eTOKEN_expression None [AstComposite eTOKEN_postfix_expression8 None
     [variable x, AstToken eTOKEN_DEC_OP 0 []]]"
| "for_advance (Plus c) x = AstComposite eTOKEN_expression None [AstComposite eTOKEN_assignment_expression None
     [variable x, AstToken eTOKEN_ADD_ASSIGN 0 [], literal c]]"
| "for_advance (Minus c) x = AstComposite eTOKEN_expression None [AstComposite eTOKEN_assignment_expression None
     [variable x, AstToken eTOKEN_SUB_ASSIGN 0 [], literal c]]"

text \<open>What the comparison means.\<close>

definition rel_holds :: "eTOKEN \<Rightarrow> int \<Rightarrow> int \<Rightarrow> bool" where
  "rel_holds t i b =
     (if t = eTOKEN_relational_expression_lt then i < b
      else if t = eTOKEN_relational_expression_le then i \<le> b
      else if t = eTOKEN_relational_expression_gt then i > b
      else i \<ge> b)"

lemma try_bind_Some: "try_bind m f = Inr (Some c) \<longleftrightarrow> (\<exists>a. m = Inr (Some a) \<and> f a = Inr (Some c))"
  by (auto simp: try_bind_def res_bind_eq_Inr_iff split: option.splits)

lemma loopUnroll_accepts:
  assumes "loopUnroll I (Some s1) (Some s2) (Some s3) m4 = Inr (Some (from, l, step, y))"
  obtains to up eq where "loop_start s1 = Inr (Some (Some y, from))" "loop_bound s2 = Inr (Some (Some y, to, up, eq))"
    "loop_step s3 = Inr (Some (Some y, step))" "last_index from to step eq = Some l"
    "if up then 0 \<le> step else step < 0" "if up then from \<le> l else l \<le> from"
proof -
  obtain x1 a x2 to up eq x3 d where r: "loop_start s1 = Inr (Some (x1, a))" "loop_bound s2 = Inr (Some (x2, to, up, eq))"
    "loop_step s3 = Inr (Some (x3, d))" "x1 = x2" "x1 = x3"
    and rest: "res_bind (deref x1) (\<lambda>x.
          if \<not> isKindOf (ident_at I x) CInteger then refuse
          else res_bind (res_of_option Undefined (last_index a to d eq)) (\<lambda>l.
          if \<not> up \<and> (d \<ge> 0 \<or> l > a) then refuse
          else if up \<and> (d < 0 \<or> l < a) then refuse
          else res_bind (case m4 of None \<Rightarrow> Inr False | Some s4 \<Rightarrow> identifierIsMod x s4) (\<lambda>md.
          if md then refuse else Inr (Some (a, l, d, x))))) = Inr (Some (from, l, step, y))"
    using assms unfolding loopUnroll_def option.case prod.case
    by (clarsimp simp: try_bind_Some refuse_def split: if_splits)
  obtain l' where "deref x1 = Inr y" "last_index a to d eq = Some l'" "from = a" "step = d" "l = l'"
    "if up then 0 \<le> d else d < 0" "if up then a \<le> l' else l' \<le> a"
    using rest by (cases "last_index a to d eq") (auto simp: res_bind_eq_Inr_iff refuse_def split: if_splits)
  then show ?thesis using that r by (cases x1) auto
qed

lemma loop_start_init: "loop_start (for_init x a) = Inr (Some (Some x, a))"
  by (simp add: loop_start_def for_init_def getChild_def child_at_def variable_def literal_def)

lemma loop_bound_test:
  "loop_bound (for_test t x b) = (case loop_direction t of None \<Rightarrow> refuse | Some (up, eq) \<Rightarrow> Inr (Some (Some x, b, up, eq)))"
  by (simp add: loop_bound_def for_test_def child_at_def variable_def literal_def)

lemma loop_step_advance:
  "loop_step (for_advance st x) = Inr (Some (Some x, d)) \<Longrightarrow> d = for_delta st"
  by (cases st) (auto simp: loop_step_def getChild_def variable_def literal_def res_bind_eq_Inr_iff Let_def
      cint_defs split: if_splits)

lemma unroll_indices_steps:
  assumes "step \<noteq> 0" and "n < k"
  shows "unroll_indices k a (a + int n * step) step = Some (map (\<lambda>j. a + int j * step) [0..<Suc n])"
  using assms(2)
proof (induction n arbitrary: a k)
  case 0
  then show ?case by (cases k) auto
next
  case (Suc n)
  then obtain k' where k: "k = Suc k'" "n < k'" by (cases k) auto
  let ?e = "a + int (Suc n) * step"
  have ne: "a \<noteq> ?e" using assms(1) by simp
  have e: "?e = a + step + int n * step" by (simp add: algebra_simps)
  have m: "map (\<lambda>j. a + int j * step) [0..<Suc (Suc n)] = a # map (\<lambda>j. a + step + int j * step) [0..<Suc n]"
    by (rule nth_equalityI) (auto simp: nth_Cons algebra_simps simp del: upt_Suc split: nat.split)
  have "unroll_indices k a ?e step = map_option ((#) a) (unroll_indices k' (a + step) ?e step)"
    unfolding k(1) unroll_indices.simps using ne by (simp only: if_False)
  also have "\<dots> = Some (a # map (\<lambda>j. a + step + int j * step) [0..<Suc n])"
    unfolding e Suc.IH [OF k(2), of "a + step"] by simp
  finally show ?case unfolding m .
qed

definition within :: "bool \<Rightarrow> int \<Rightarrow> int \<Rightarrow> bool" where
  "within eq i b = (if eq then i \<le> b else i < b)"

lemma quotient_bounds:
  fixes d s :: int
  assumes "s > 0" and "d \<ge> 0"
  shows "d div s * s \<le> d \<and> d < (d div s + 1) * s"
  using assms by (metis add.commute distrib_left mult.commute mult.right_neutral pos_mod_bound pos_mod_sign
      div_mult_mod_eq add_less_cancel_left le_add_same_cancel1)

text \<open>The last index when the loop goes up. Going down is the same with the signs turned.\<close>

lemma last_up:
  fixes a b s :: int
  assumes "s > 0" and "within eq a b" and q: "q = (b - a) div s"
    and l: "l = (if \<not> eq \<and> a + q * s = b then a + q * s - s else a + q * s)"
  shows "\<exists>n. l = a + int n * s \<and> (\<forall>k\<le>n. within eq (a + int k * s) b) \<and> \<not> within eq (a + int (Suc n) * s) b"
proof -
  have d: "b - a \<ge> 0" using assms(2) by (auto simp: within_def split: if_splits)
  have b: "a + q * s \<le> b" "b < a + (q + 1) * s" using quotient_bounds [OF assms(1) d] q by auto
  have q0: "q \<ge> 0" using d assms(1) q by (simp add: pos_imp_zdiv_nonneg_iff)
  define m where "m = (if \<not> eq \<and> a + q * s = b then q - 1 else q)"
  have m0: "m \<ge> 0"
    using q0 assms(1,2) by (cases "q = 0") (auto simp: m_def within_def)
  have lm: "l = a + m * s" using l by (simp add: m_def algebra_simps)
  have last: "within eq (a + m * s) b" "\<not> within eq (a + (m + 1) * s) b"
    using b assms(1) by (auto simp: m_def within_def algebra_simps)
  have "within eq (a + int k * s) b" if "k \<le> nat m" for k
  proof -
    have "int k * s \<le> m * s" using that m0 assms(1) by (intro mult_right_mono) auto
    then show ?thesis using last(1) by (auto simp: within_def split: if_splits)
  qed
  moreover have "l = a + int (nat m) * s" using lm m0 by simp
  moreover have "\<not> within eq (a + int (Suc (nat m)) * s) b" using last(2) m0 by (simp add: add.commute)
  ultimately show ?thesis by blast
qed

lemma last_index_Some:
  assumes "last_index a b s eq = Some l"
  obtains q where "s \<noteq> 0" "q = sgn (b - a) * sgn s * (\<bar>b - a\<bar> div \<bar>s\<bar>)"
    "l = (if \<not> eq \<and> a + q * s = b then a + q * s - s else a + q * s)"
  using assms by (auto simp: last_index_def c_div_def cint_defs split: Option.bind_splits if_splits)

lemma last_index_up:
  assumes "last_index a b s eq = Some l" and "s \<ge> 0" and "within eq a b"
  shows "\<exists>n. l = a + int n * s \<and> (\<forall>k\<le>n. within eq (a + int k * s) b) \<and> \<not> within eq (a + int (Suc n) * s) b"
proof -
  obtain q where q: "s \<noteq> 0" "q = sgn (b - a) * sgn s * (\<bar>b - a\<bar> div \<bar>s\<bar>)"
    "l = (if \<not> eq \<and> a + q * s = b then a + q * s - s else a + q * s)"
    using last_index_Some [OF assms(1)] .
  have "b - a \<ge> 0" using assms(3) by (auto simp: within_def split: if_splits)
  then have "q = (b - a) div s" using q(1,2) assms(2) by (cases "b = a") auto
  then show ?thesis using last_up [of s eq a b q l] q(1,3) assms(2,3) by simp
qed

lemma last_index_down:
  assumes "last_index a b s eq = Some l" and "s < 0" and "within eq (- a) (- b)"
  shows "\<exists>n. l = a + int n * s \<and> (\<forall>k\<le>n. within eq (- (a + int k * s)) (- b)) \<and>
    \<not> within eq (- (a + int (Suc n) * s)) (- b)"
proof -
  obtain q where q: "s \<noteq> 0" "q = sgn (b - a) * sgn s * (\<bar>b - a\<bar> div \<bar>s\<bar>)"
    "l = (if \<not> eq \<and> a + q * s = b then a + q * s - s else a + q * s)"
    using last_index_Some [OF assms(1)] .
  have "b - a \<le> 0" using assms(3) by (auto simp: within_def split: if_splits)
  then have "q = (- b - - a) div (- s)" using q(1,2) assms(2) by (cases "b = a") auto
  moreover have "- l = (if \<not> eq \<and> - a + q * - s = - b then - a + q * - s - - s else - a + q * - s)"
    using q(3) by (auto simp: algebra_simps)
  ultimately obtain n where "- l = - a + int n * - s" "\<forall>k\<le>n. within eq (- a + int k * - s) (- b)"
    "\<not> within eq (- a + int (Suc n) * - s) (- b)"
    using last_up [of "- s" eq "- a" "- b" q "- l"] assms(2,3) by auto
  then show ?thesis by (intro exI [of _ n]) (auto simp: algebra_simps)
qed

lemma rel_holds_within:
  "loop_direction t = Some (up, eq) \<Longrightarrow> rel_holds t i b = (if up then within eq i b else within eq (- i) (- b))"
  by (auto simp: loop_direction_def rel_holds_def within_def split: if_splits)

text \<open>
  C7: an unrolled loop runs through the indices of the loop. When \<open>loopUnroll\<close> accepts the header
  \<open>for (x = a; x op b; step)\<close> and the loop is entered at all, the indices of the copies are
  \<open>a\<close>, \<open>a + step\<close>, ... as long as the comparison holds, and no more; and the fuel of the loop is enough.
\<close>

theorem loopUnroll_indices:
  assumes "loopUnroll I (Some (for_init x a)) (Some (for_test t x b)) (Some (for_advance st x)) body = Inr (Some (from, l, step, y))"
    and "rel_holds t a b"
  shows "y = x \<and> (\<exists>n. unroll_indices (Suc (nat \<bar>l - from\<bar>)) from l step = Some (map (\<lambda>k. a + int k * for_delta st) [0..<n]) \<and>
    (\<forall>k<n. rel_holds t (a + int k * for_delta st) b) \<and> \<not> rel_holds t (a + int n * for_delta st) b)"
proof -
  obtain to up eq where h: "loop_start (for_init x a) = Inr (Some (Some y, from))"
    "loop_bound (for_test t x b) = Inr (Some (Some y, to, up, eq))" "loop_step (for_advance st x) = Inr (Some (Some y, step))"
    "last_index from to step eq = Some l" "if up then 0 \<le> step else step < 0"
    using loopUnroll_accepts [OF assms(1)] .
  have yx: "y = x" "from = a" using h(1) by (simp_all add: loop_start_init)
  have dir: "loop_direction t = Some (up, eq)" and to: "to = b"
    using h(2) unfolding loop_bound_test refuse_def by (auto split: option.splits)
  define d where "d = for_delta st"
  have d: "step = d" using loop_step_advance h(3) yx by (simp add: d_def)
  have r: "last_index a b d eq = Some l" "if up then 0 \<le> d else d < 0" using h(4,5) d yx to by (simp, simp only: if_bool_eq_conj)
  obtain n where n: "l = a + int n * d" "\<forall>k\<le>n. rel_holds t (a + int k * d) b" "\<not> rel_holds t (a + int (Suc n) * d) b"
  proof (cases up)
    case True
    then show ?thesis
      using that last_index_up [OF r(1)] r(2) assms(2) rel_holds_within [OF dir] by (auto simp del: of_nat_Suc)
  next
    case False
    then show ?thesis
      using that last_index_down [OF r(1)] r(2) assms(2) rel_holds_within [OF dir] by (auto simp del: of_nat_Suc)
  qed
  have d0: "d \<noteq> 0" using last_index_Some [OF r(1)] by blast
  have "int n \<le> \<bar>int n * d\<bar>" using d0 by (auto simp: abs_mult mult_le_cancel_left1)
  then have "n < Suc (nat \<bar>l - a\<bar>)" using n(1) by simp
  then show ?thesis
    using unroll_indices_steps [OF d0, of n _ a] n yx d d_def
    by (intro conjI exI [of _ "Suc n"]) (auto simp: less_Suc_eq_le simp del: upt_Suc of_nat_Suc unroll_indices.simps)
qed

definition unroll_ids :: idents where
  "unroll_ids = (case new_cIdentifierInteger True None False False (-1) of Inr i \<Rightarrow> [i] | Inl _ \<Rightarrow> [])"

theorem loopUnroll_indices_witness:
  "unroll_indices 10 7 1 (-3) = Some [7, 4, 1] \<and> \<not> rel_holds eTOKEN_relational_expression_gt (- 2) 0"
proof -
  have u: "loopUnroll unroll_ids (Some (for_init 0 7)) (Some (for_test eTOKEN_relational_expression_gt 0 0))
      (Some (for_advance (Minus 3) 0)) None = Inr (Some (7, 1, -3, 0))"
    by code_simp
  have "rel_holds eTOKEN_relational_expression_gt 7 0" by (simp add: rel_holds_def)
  from loopUnroll_indices [OF u this] show ?thesis by (simp add: numeral_eq_Suc rel_holds_def)
qed


end
