(* ===== verification/GenStmt.thy ===== *)
theory GenStmt
  imports GenTerm Unroll
begin

text \<open>
  Code for statements, from \<open>SW/compiler/gen.cpp\<close>: \<open>genStatement\<close>, \<open>genSwitchStatement\<close>,
  \<open>genSelectionStatement\<close>, \<open>process_code_block\<close> and what \<open>gen\<close> does with each function.
\<close>

section \<open>Fuel\<close>

text \<open>The depth of a tree. A generator is called with fuel from the depth, and theory \<open>GenEnds\<close> shows it enough.\<close>

fun depth :: "cAstNode \<Rightarrow> nat" where
  "depth (AstComposite t b cs) = Suc (foldr max (map depth cs) 0)"
| "depth _ = 0"

definition no_fuel :: "'a gen" where
  "no_fuel s = None"

section \<open>Jumps and conditions\<close>

definition return_float :: "genctx \<Rightarrow> gen_term \<Rightarrow> cAstNode \<Rightarrow> nat \<Rightarrow> nat \<Rightarrow> unit gen" where
  "return_float cx gt e rv i =
     gbind (need NullPointer (gt (Some e) False False True None)) (\<lambda>t.
     if \<not> is_MU t then gfail CompileError
     else fill_MU i OPCODE_ASSIGN t MU_Null (MU_Storage rv 0 False) None)"

definition return_int :: "genctx \<Rightarrow> gen_term \<Rightarrow> cAstNode \<Rightarrow> nat \<Rightarrow> nat \<Rightarrow> unit gen" where
  "return_int cx gt e rv i =
     gbind (need NullPointer (gt (Some e) False False False None)) (\<lambda>t.
     if is_MU t then gfail CompileError
     else gbind (ids_of (\<lambda>I. Convert2MU (cx_addr cx) I t)) (\<lambda>m. gbind (gres (deref m)) (\<lambda>u.
          fill_MU i OPCODE_ASSIGN_RAW (as_int_const u) MU_Null (MU_Storage rv 0 False) None)))"

definition gen_return :: "genctx \<Rightarrow> gen_term \<Rightarrow> stmt_args \<Rightarrow> cAstNode \<Rightarrow> unit gen" where
  "gen_return cx gt a node =
     gbind gget (\<lambda>s.
     let rv = getReturnValue (g_ids s) (g_block s) in
     gbind (case getChild [eTOKEN_expression] node of
         Some e \<Rightarrow> (case rv of
             None \<Rightarrow> gfail CompileError
           | Some v \<Rightarrow> gbind new_instr (\<lambda>i.
               gbind (if m_float (ident_at (g_ids s) v) then return_float cx gt e v i else return_int cx gt e v i) (\<lambda>_.
               append_instr i)))
       | None \<Rightarrow> if rv \<noteq> None then gfail CompileError else gret ()) (\<lambda>_.
     if sa_hasExit a then emit_jump OPCODE_JUMP (sa_exit a) False else emit_jump OPCODE_RETURN None False))"

definition gen_jump :: "genctx \<Rightarrow> gen_term \<Rightarrow> stmt_args \<Rightarrow> cAstNode \<Rightarrow> unit gen" where
  "gen_jump cx gt a node =
     (if getChild [eTOKEN_GOTO] node \<noteq> None then gfail CompileError
      else if getChild [eTOKEN_RETURN] node \<noteq> None then gen_return cx gt a node
      else if getChild [eTOKEN_BREAK] node \<noteq> None
      then (if sa_blockExit a = None then gfail CompileError else emit_jump OPCODE_JUMP (sa_blockExit a) False)
      else if getChild [eTOKEN_CONTINUE] node \<noteq> None
      then (if sa_blockExit a = None then gfail CompileError else emit_jump OPCODE_JUMP (sa_blockCont a) False)
      else gfail CompileError)"

text \<open>
  \<open>&&\<close> and \<open>||\<close>. Either every operand branches like the whole, or all but the last branch the other way to the
  end of the condition.
\<close>

fun all_but_last :: "('a \<Rightarrow> unit gen) \<Rightarrow> ('a \<Rightarrow> unit gen) \<Rightarrow> 'a list \<Rightarrow> unit gen" where
  "all_but_last f g [] = gret ()"
| "all_but_last f g [x] = g x"
| "all_but_last f g (x # y # xs) = gbind (f x) (\<lambda>_. all_but_last f g (y # xs))"

definition gen_logical :: "gen_stmt \<Rightarrow> stmt_args \<Rightarrow> cAstNode \<Rightarrow> unit gen" where
  "gen_logical gs a node =
     (let straight = a\<lparr>sa_logic := True\<rparr> in
      if (getID node = eTOKEN_logical_or_expression \<and> \<not> sa_reverse a) \<or>
         (getID node = eTOKEN_logical_and_expression \<and> sa_reverse a)
      then gmap (gs straight) (getChildList node)
      else gbind new_instr (\<lambda>i.
           gbind (all_but_last
                    (gs (straight\<lparr>sa_reverse := \<not> sa_reverse a, sa_br := Some i, sa_brAfter := True\<rparr>))
                    (gs straight) (getChildList node)) (\<lambda>_.
           append_instr i)))"

text \<open>The opcode of a comparison, or of its opposite.\<close>

definition compare_MU :: "eTOKEN \<Rightarrow> bool \<Rightarrow> int" where
  "compare_MU t reverse =
     (if t = eTOKEN_equality_expression_eq then (if reverse then OPCODE_CMP_NE else OPCODE_CMP_EQ)
      else if t = eTOKEN_equality_expression_ne then (if reverse then OPCODE_CMP_EQ else OPCODE_CMP_NE)
      else if t = eTOKEN_relational_expression_le then (if reverse then OPCODE_CMP_GT else OPCODE_CMP_LE)
      else if t = eTOKEN_relational_expression_lt then (if reverse then OPCODE_CMP_GE else OPCODE_CMP_LT)
      else if t = eTOKEN_relational_expression_ge then (if reverse then OPCODE_CMP_LT else OPCODE_CMP_GE)
      else (if reverse then OPCODE_CMP_LE else OPCODE_CMP_GT))"

definition compare_IMU :: "eTOKEN \<Rightarrow> bool \<Rightarrow> int" where
  "compare_IMU t reverse =
     (if t = eTOKEN_equality_expression_eq then (if reverse then OPCODE_JUMP_NE else OPCODE_JUMP_EQ)
      else if t = eTOKEN_equality_expression_ne then (if reverse then OPCODE_JUMP_EQ else OPCODE_JUMP_NE)
      else if t = eTOKEN_relational_expression_le then (if reverse then OPCODE_JUMP_GT else OPCODE_JUMP_LE)
      else if t = eTOKEN_relational_expression_lt then (if reverse then OPCODE_JUMP_GE else OPCODE_JUMP_LT)
      else if t = eTOKEN_relational_expression_ge then (if reverse then OPCODE_JUMP_LT else OPCODE_JUMP_GE)
      else (if reverse then OPCODE_JUMP_LE else OPCODE_JUMP_GT))"

definition gen_comparison :: "gen_term \<Rightarrow> stmt_args \<Rightarrow> cAstNode \<Rightarrow> unit gen" where
  "gen_comparison gt a node =
     gbind (gres (child_at 0 node)) (\<lambda>left. gbind gget (\<lambda>s.
     let right = (case getChildList node of _ # n # _ \<Rightarrow> Some n | _ \<Rightarrow> None) in
     gbind (gres (expressionIsMU (g_ids s) left)) (\<lambda>m1.
     gbind (if m1 then gret True else gbind (gres (deref right)) (\<lambda>r. gres (expressionIsMU (g_ids s) r))) (\<lambda>mu.
     gbind (need NullPointer (gt (Some left) False False mu None)) (\<lambda>x1.
     gbind (need NullPointer (gt right False False mu None)) (\<lambda>x2.
     if mu
     then gbind (emit_MU (compare_MU (getID node) (sa_reverse a)) x1 x2 MU_Result None) (\<lambda>_.
          gbind (emit_branch OPCODE_JUMP_NE IMU_Result (IMU_Constant 0) None (sa_br a) (sa_brAfter a)) (\<lambda>_. gret ()))
     else gbind (emit_branch (compare_IMU (getID node) (sa_reverse a)) x1 x2 None (sa_br a) (sa_brAfter a)) (\<lambda>_. gret ())))))))"

text \<open>
  Any other expression. As a condition its result is compared with 0. When it is a computed integer, the last
  instruction is to become the branch, but the code writes through a pointer that is still null.
\<close>

definition fuse_condition :: "nat \<Rightarrow> unit gen" where
  "fuse_condition i =
     gbind get_last (\<lambda>l. gbind (gres (deref l)) (\<lambda>k. gbind gget (\<lambda>s.
       let ins = g_code s ! k in
       if imu_y (m_imu ins) = Some (IMU_Integer i) \<and> imu_oc (m_imu ins) > 0 \<and> ctl_oc (m_control ins) \<le> 0
       then gfail NullPointer else gfail AssertFail)))"

definition gen_condition :: "stmt_args \<Rightarrow> bool \<Rightarrow> cTerm \<Rightarrow> unit gen" where
  "gen_condition a reverse t =
     (if is_MU t
      then gbind (emit_MU (if reverse then OPCODE_CMP_EQ else OPCODE_CMP_NE) t (new_MU_Constant_float (f32_of_int 0)) MU_Result None) (\<lambda>_.
           gbind (emit_branch OPCODE_JUMP_NE IMU_Result (IMU_Constant 0) None (sa_br a) (sa_brAfter a)) (\<lambda>_. gret ()))
      else gbind gget (\<lambda>s.
           case t of
             IMU_Integer i \<Rightarrow>
               if m_name (ident_at (g_ids s) i) = [] then fuse_condition i
               else gbind (emit_branch (if reverse then OPCODE_JUMP_EQ else OPCODE_JUMP_NE) t IMU_Zero None (sa_br a) (sa_brAfter a)) (\<lambda>_. gret ())
           | _ \<Rightarrow> gbind (emit_branch (if reverse then OPCODE_JUMP_EQ else OPCODE_JUMP_NE) t IMU_Zero None (sa_br a) (sa_brAfter a)) (\<lambda>_. gret ())))"

definition negated :: "cAstNode \<Rightarrow> (cAstNode option \<times> bool) res" where
  "negated node =
     (case child_from [eTOKEN_unary_operator] node of
        [] \<Rightarrow> Inr (Some node, False)
      | u # rest \<Rightarrow> res_bind (getStringValue u) (\<lambda>s.
          if s = ''!'' then Inr (case rest of [] \<Rightarrow> None | n # _ \<Rightarrow> Some n, True) else Inr (Some node, False)))"

definition gen_expression :: "gen_term \<Rightarrow> stmt_args \<Rightarrow> cAstNode \<Rightarrow> unit gen" where
  "gen_expression gt a node =
     (if \<not> sa_logic a then gbind (gt (Some node) False False False None) (\<lambda>_. gret ())
      else gbind gget (\<lambda>s. gbind (gres (expressionIsMU (g_ids s) node)) (\<lambda>mu.
           gbind (gres (negated node)) (\<lambda>(n, neg).
           gbind (need NullPointer (gt n False False mu None)) (\<lambda>t.
           gen_condition a (sa_reverse a \<noteq> neg) t)))))"

definition comparison_tokens :: "eTOKEN list" where
  "comparison_tokens =
     [eTOKEN_equality_expression_eq, eTOKEN_equality_expression_ne, eTOKEN_relational_expression_le,
      eTOKEN_relational_expression_lt, eTOKEN_relational_expression_ge, eTOKEN_relational_expression_gt]"

definition genStatement_body :: "genctx \<Rightarrow> gen_term \<Rightarrow> gen_stmt \<Rightarrow> gen_stmt" where
  "genStatement_body cx gt gs a node =
     (if getID node = eTOKEN_expression then gmap (gs a) (getChildList node)
      else if getID node = eTOKEN_jump_statement then gen_jump cx gt a node
      else if getID node = eTOKEN_logical_and_expression \<or> getID node = eTOKEN_logical_or_expression then gen_logical gs a node
      else if getID node \<in> set comparison_tokens then gen_comparison gt a node
      else gen_expression gt a node)"

text \<open>
  The recursion between expressions and conditions. A condition may be generated as an expression of the same
  node, so each level of the tree takes two units of fuel.
\<close>

fun genTerm_f :: "genctx \<Rightarrow> nat \<Rightarrow> gen_term" and genStatement_f :: "genctx \<Rightarrow> nat \<Rightarrow> gen_stmt" where
  "genTerm_f cx 0 n x r m y = no_fuel"
| "genTerm_f cx (Suc k) n x r m y = genTerm_body cx (genTerm_f cx k) (genStatement_f cx k) n x r m y"
| "genStatement_f cx 0 a n = no_fuel"
| "genStatement_f cx (Suc k) a n = genStatement_body cx (genTerm_f cx k) (genStatement_f cx k) a n"

definition genTerm :: "genctx \<Rightarrow> cAstNode \<Rightarrow> bool \<Rightarrow> (cTerm option \<times> bool) gen" where
  "genTerm cx n mu = genTerm_f cx (2 * depth n + 2) (Some n) False False mu None"

definition genStatement :: "genctx \<Rightarrow> gen_stmt" where
  "genStatement cx a n = genStatement_f cx (2 * depth n + 3) a n"

end
