(* ===== verification/GenBlock.thy ===== *)
theory GenBlock
  imports GenStmt Alloc
begin

text \<open>
  Code for blocks and functions, from \<open>SW/compiler/gen.cpp\<close>: \<open>process_init\<close>, \<open>process_func_entry\<close>,
  \<open>process_func_exit\<close>, \<open>genSwitchStatement\<close>, \<open>genSelectionStatement\<close>, \<open>process_code_block\<close> and \<open>gen\<close>.
\<close>

text \<open>The arguments that are handed down through the blocks.\<close>

record block_args =
  ba_hasExit :: bool
  ba_exit :: "nat option"
  ba_blockExit :: "nat option"
  ba_blockCont :: "nat option"

type_synonym gen_block = "block_args \<Rightarrow> cAstNode \<Rightarrow> unit gen"

definition in_block :: "block_args \<Rightarrow> bool \<Rightarrow> nat option \<Rightarrow> bool \<Rightarrow> bool \<Rightarrow> stmt_args" where
  "in_block ba reverse br after logic =
     \<lparr>sa_reverse = reverse, sa_hasExit = ba_hasExit ba, sa_exit = ba_exit ba, sa_br = br, sa_brAfter = after,
      sa_blockExit = ba_blockExit ba, sa_blockCont = ba_blockCont ba, sa_logic = logic\<rparr>"

section \<open>Initial values\<close>

definition init_value :: "nat \<Rightarrow> bool \<Rightarrow> bool \<Rightarrow> nat \<times> f32 \<Rightarrow> unit gen" where
  "init_value i private subVector = (\<lambda>(k, v).
     if private then gbind (emit_MU OPCODE_ASSIGN (new_MU_Constant_float v) MU_Null (MU_Storage i (int k) subVector) None) (\<lambda>_. gret ())
     else gbind (gres (res_of_option Undefined (f32_to_int v))) (\<lambda>c. emit_IMU IOPCODE_ADD (IMU_Constant c) IMU_Zero (IMU_Integer i)))"

definition init_identifier :: "(nat \<Rightarrow> f32 list) \<Rightarrow> nat \<Rightarrow> unit gen" where
  "init_identifier vals i =
     gbind gget (\<lambda>s.
     let idn = ident_at (g_ids s) i in
     if isKindOf idn CInteger \<or> isKindOf idn CPrivate
     then gmap (init_value i (isKindOf idn CPrivate) (isKindOf idn CStorage \<and> m_w idn \<ge> 1))
            (zip [0..<length (vals i)] (vals i))
     else gret ())"

definition process_init :: "(nat \<Rightarrow> f32 list) \<Rightarrow> cAstNode \<Rightarrow> unit gen" where
  "process_init vals node =
     (case node of AstComposite t (Some ids) cs \<Rightarrow> gmap (init_identifier vals) ids | _ \<Rightarrow> gret ())"

section \<open>Entry and exit of a function\<close>

text \<open>A parameter with an alias is copied into the integer or pointer that stands for it in the body.\<close>

definition enter_parameter :: "nat \<Rightarrow> unit gen" where
  "enter_parameter i =
     gbind gget (\<lambda>s.
     let idn = ident_at (g_ids s) i in
     if \<not> isParameter idn then gret ()
     else (case getAlias idn of
         None \<Rightarrow> gret ()
       | Some al \<Rightarrow>
           if \<not> isKindOf idn CStorage then gfail AssertFail
           else gbind (emit_MU OPCODE_ASSIGN_RAW (MU_Storage i 0 False) MU_Null MU_Result None) (\<lambda>_.
                if isKindOf (ident_at (g_ids s) al) CInteger
                then emit_IMU IOPCODE_ADD IMU_Result IMU_Zero (IMU_Integer al)
                else gbind (cast_id CPointer al) (\<lambda>al. emit_IMU IOPCODE_ADD IMU_Result IMU_Zero (IMU_Pointer al)))))"

definition is_kernel :: "cAstNode \<Rightarrow> bool res" where
  "is_kernel f =
     res_bind (child_at 0 f) (\<lambda>n. if getID n = eTOKEN_declaration_specifiers
       then res_bind (child_at 0 n) (\<lambda>k. Inr (getID k = eTOKEN_KERNEL)) else Inr False)"

text \<open>The result is \<open>gotExitCode\<close>.\<close>

definition process_func_entry :: "cAstNode \<Rightarrow> cAstNode \<Rightarrow> bool gen" where
  "process_func_entry func node =
     gbind (gres (is_kernel func)) (\<lambda>kernel.
     if getID node \<noteq> eTOKEN_block_item_list then gfail AssertFail
     else gbind (gres (getIdentifierList node)) (\<lambda>ids. gbind gget (\<lambda>s.
          gbind (gmap enter_parameter ids) (\<lambda>_.
          gret (kernel \<and> (\<exists>i\<in>set ids. isParameter (ident_at (g_ids s) i) \<and> getAlias (ident_at (g_ids s) i) \<noteq> None))))))"

definition process_func_exit :: "nat \<Rightarrow> unit gen" where
  "process_func_exit exitInstruction =
     gbind (set_instr exitInstruction (\<lambda>ins. Inr (createUnconditionalJump OPCODE_RETURN None False ins))) (\<lambda>_.
     append_instr exitInstruction)"

section \<open>Selection\<close>

definition insert_instr :: "nat list \<Rightarrow> nat option \<Rightarrow> unit gen" where
  "insert_instr is after s = Some (Inr ((), s\<lparr>g_lst := list_insert_after after is (g_lst s)\<rparr>))"

text \<open>Code that is generated into a list of its own.\<close>

definition separately :: "unit gen \<Rightarrow> nat list gen" where
  "separately m s =
     gbind m (\<lambda>_ s'. Some (Inr (g_lst s', s'\<lparr>g_lst := g_lst s\<rparr>))) (s\<lparr>g_lst := []\<rparr>)"

text \<open>
  The list is the condition, the statement to execute when it holds and, if it is there, what follows \<open>else\<close>. The
  condition is generated last and put in front.
\<close>

fun genSelectionStatement :: "gen_stmt \<Rightarrow> gen_block \<Rightarrow> block_args \<Rightarrow> cAstNode list \<Rightarrow> unit gen" where
  "genSelectionStatement gs pb ba (c # t # f) =
     gbind get_last (\<lambda>start.
     gbind (pb ba t) (\<lambda>_.
     gbind get_last (\<lambda>end.
     if end = start \<and> f = [] then gret ()
     else gbind (case f of
              [] \<Rightarrow> gret end
            | _ # fs \<Rightarrow>
                gbind (if fs = [] then pb ba (hd f) else genSelectionStatement gs pb ba f) (\<lambda>_.
                gbind get_last (\<lambda>end2.
                gbind new_instr (\<lambda>i.
                gbind (set_instr i (\<lambda>ins. Inr (createUnconditionalJump OPCODE_JUMP end2 True ins))) (\<lambda>_.
                gbind (insert_instr [i] end) (\<lambda>_. gret (Some i))))))) (\<lambda>end.
          gbind (gres (child_at 0 c)) (\<lambda>n.
          gbind (separately (gs (in_block ba True end True True) n)) (\<lambda>code.
          insert_instr code start))))))"
| "genSelectionStatement gs pb ba _ = gfail NullPointer"

section \<open>Switch\<close>

fun const_label :: "cAstNode \<Rightarrow> bool" where
  "const_label n = (is_IntNode n \<or> is_FloatNode n)"

text \<open>A jump to the case for one constant label. The vector unit gets a scalar opcode here.\<close>

definition case_jump :: "bool \<Rightarrow> cTerm \<Rightarrow> nat \<Rightarrow> cAstNode \<Rightarrow> unit gen" where
  "case_jump mu t target n =
     (if mu
      then gbind (if is_FloatNode n then gres (getFloatValue n) else gbind (gres (getIntValue n)) (\<lambda>i. gret (f32_of_int i))) (\<lambda>c.
           gbind (case t of MU_Storage i off sub \<Rightarrow> gret i | _ \<Rightarrow> gfail BadCast) (\<lambda>i.
           gbind (emit_MU IOPCODE_SUB (MU_Storage i 0 False) (new_MU_Constant_float c) MU_Result None) (\<lambda>_.
           gbind (emit_branch OPCODE_JUMP_NE IMU_Result (IMU_Constant 0) None (Some target) False) (\<lambda>_. gret ()))))
      else if \<not> is_IntNode n then gfail CompileError
      else gbind (gres (getIntValue n)) (\<lambda>c.
           gbind (case t of IMU_Integer i \<Rightarrow> gret i | _ \<Rightarrow> gfail BadCast) (\<lambda>i.
           gbind (emit_branch OPCODE_JUMP_EQ (IMU_Integer i) (IMU_Constant c) None (Some target) False) (\<lambda>_. gret ()))))"

definition is_default :: "cAstNode option \<Rightarrow> bool res" where
  "is_default lab = (case lab of None \<Rightarrow> Inr False | Some n \<Rightarrow> res_bind (child_at 0 n) (\<lambda>c. Inr (getID c = eTOKEN_DEFAULT)))"

definition label_rest :: "cAstNode \<Rightarrow> cAstNode res" where
  "label_rest n = (case dropWhile const_label (getChildList n) of [] \<Rightarrow> Inl NullPointer | r # _ \<Rightarrow> Inr r)"

text \<open>The first walk: the jumps, the first instruction of every case, and of the default case.\<close>

fun switch_heads :: "bool \<Rightarrow> cTerm option \<Rightarrow> cAstNode list \<Rightarrow> nat list \<times> nat option \<Rightarrow> (nat list \<times> nat option) gen" where
  "switch_heads mu t [] r = gret r"
| "switch_heads mu t (n # ns) (lst, dflt) =
     (let lab = getChild [eTOKEN_labeled_statement] n in
      gbind new_instr (\<lambda>i.
      gbind (gres (is_default lab)) (\<lambda>d.
      if d then (if dflt \<noteq> None then gfail CompileError else switch_heads mu t ns (lst @ [i], Some i))
      else gbind (case lab of
               None \<Rightarrow> gret ()
             | Some l \<Rightarrow>
                 gbind (gmap (\<lambda>c. gbind (gres (deref t)) (\<lambda>u. case_jump mu u i c)) (takeWhile const_label (getChildList l))) (\<lambda>_.
                 gbind (gres (label_rest l)) (\<lambda>_. gret ()))) (\<lambda>_.
           switch_heads mu t ns (lst @ [i], dflt)))))"

text \<open>The second walk: the statements of the cases.\<close>

fun switch_bodies :: "gen_block \<Rightarrow> block_args \<Rightarrow> cAstNode list \<Rightarrow> nat list \<Rightarrow> unit gen" where
  "switch_bodies pb ba (n # ns) (i # is) =
     gbind (append_instr i) (\<lambda>_.
     let lab = getChild [eTOKEN_labeled_statement] n in
     gbind (gres (is_default lab)) (\<lambda>d.
     gbind (case lab of
              Some l \<Rightarrow> if d then gbind (gres (child_at 0 n)) (pb ba) else gbind (gres (label_rest l)) (pb ba)
            | None \<Rightarrow> gbind (gres (child_at 0 n)) (pb ba)) (\<lambda>_.
     switch_bodies pb ba ns is)))"
| "switch_bodies pb ba _ _ = gret ()"

definition genSwitchStatement :: "genctx \<Rightarrow> gen_block \<Rightarrow> block_args \<Rightarrow> cAstNode \<Rightarrow> unit gen" where
  "genSwitchStatement cx pb ba node =
     gbind new_instr (\<lambda>switchExit.
     gbind (set_instr switchExit (\<lambda>ins. Inr (setNOP ins))) (\<lambda>_.
     gbind (gres (child_at 0 node)) (\<lambda>e. gbind gget (\<lambda>s.
     gbind (gres (expressionIsMU (g_ids s) e)) (\<lambda>mu.
     gbind (genTerm cx e mu) (\<lambda>(t, _).
     let items = child_from [eTOKEN_block_item_list, eTOKEN_block_item] node in
     gbind (switch_heads mu t items ([], None)) (\<lambda>(lst, dflt).
     gbind (emit_jump OPCODE_JUMP (case dflt of Some d \<Rightarrow> Some d | None \<Rightarrow> Some switchExit) False) (\<lambda>_.
     gbind (switch_bodies pb (ba\<lparr>ba_blockExit := Some switchExit\<rparr>) items lst) (\<lambda>_.
     append_instr switchExit)))))))))"

section \<open>Blocks\<close>

definition set_jump :: "nat \<Rightarrow> unit gen" where
  "set_jump i =
     gbind get_last (\<lambda>l. set_instr i (\<lambda>ins. Inr (createUnconditionalJump OPCODE_JUMP l True ins)))"

definition while_block :: "genctx \<Rightarrow> gen_block \<Rightarrow> block_args \<Rightarrow> cAstNode list \<Rightarrow> unit gen" where
  "while_block cx pb ba cs =
     gbind new_instr (\<lambda>ex. gbind new_instr (\<lambda>cont.
     let inner = ba\<lparr>ba_blockExit := Some ex, ba_blockCont := Some cont\<rparr> in
     case cs of
       s1 # s2 # _ \<Rightarrow>
         gbind new_instr (\<lambda>first. gbind (append_instr first) (\<lambda>_.
         gbind (pb inner s2) (\<lambda>_.
         gbind get_last (\<lambda>l.
         gbind (if l \<noteq> Some first then set_jump first else gret ()) (\<lambda>_.
         gbind (append_instr cont) (\<lambda>_.
         gbind (genStatement cx (in_block inner False (Some first) True True) s1) (\<lambda>_.
         append_instr ex)))))))
     | _ \<Rightarrow> gfail CompileError))"

definition do_block :: "genctx \<Rightarrow> gen_block \<Rightarrow> block_args \<Rightarrow> cAstNode list \<Rightarrow> unit gen" where
  "do_block cx pb ba cs =
     gbind new_instr (\<lambda>ex. gbind new_instr (\<lambda>cont.
     let inner = ba\<lparr>ba_blockExit := Some ex, ba_blockCont := Some cont\<rparr> in
     case cs of
       s2 # s1 # _ \<Rightarrow>
         gbind get_last (\<lambda>l.
         gbind (case l of Some i \<Rightarrow> gret i | None \<Rightarrow> gbind new_instr (\<lambda>i. gbind (append_instr i) (\<lambda>_. gret i))) (\<lambda>first.
         gbind (pb inner s2) (\<lambda>_.
         gbind (append_instr cont) (\<lambda>_.
         gbind (genStatement cx (in_block inner False (Some first) True True) s1) (\<lambda>_.
         append_instr ex)))))
     | _ \<Rightarrow> gfail CompileError))"

text \<open>
  The copies of the body of an unrolled loop. The body is changed for each copy; that it stays changed afterwards
  makes no difference (lemma \<open>substituteGenIdentifier_again\<close>).
\<close>

fun unrolled_copies :: "gen_block \<Rightarrow> block_args \<Rightarrow> nat \<Rightarrow> cAstNode option \<Rightarrow> int list \<Rightarrow> unit gen" where
  "unrolled_copies pb ba x m [] = gret ()"
| "unrolled_copies pb ba x m (v # vs) =
     gbind new_instr (\<lambda>cont.
     let m' = map_option (substituteGenIdentifier x v) m in
     gbind (case m' of None \<Rightarrow> gret () | Some s4 \<Rightarrow> pb (ba\<lparr>ba_blockCont := Some cont\<rparr>) s4) (\<lambda>_.
     gbind (append_instr cont) (\<lambda>_. unrolled_copies pb ba x m' vs)))"

definition unrolled_block :: "gen_block \<Rightarrow> block_args \<Rightarrow> cAstNode option \<Rightarrow> int \<times> int \<times> int \<times> nat \<Rightarrow> unit gen" where
  "unrolled_block pb ba m4 = (\<lambda>(from, to, step, x).
     gbind new_instr (\<lambda>ex.
     case unroll_indices (Suc (nat \<bar>to - from\<bar>)) from to step of
       None \<Rightarrow> no_fuel
     | Some vs \<Rightarrow>
         gbind (unrolled_copies pb (ba\<lparr>ba_blockExit := Some ex\<rparr>) x m4 vs) (\<lambda>_. append_instr ex)))"

text \<open>A \<open>for\<close> loop that is not unrolled. An expression without children is one that was left out.\<close>

definition present :: "cAstNode option \<Rightarrow> cAstNode option" where
  "present m = (case m of None \<Rightarrow> None | Some n \<Rightarrow> if getChildList n = [] then None else Some n)"

definition for_block :: "genctx \<Rightarrow> gen_block \<Rightarrow> block_args \<Rightarrow> cAstNode option \<Rightarrow> cAstNode option \<Rightarrow> cAstNode option \<Rightarrow> cAstNode option \<Rightarrow> unit gen" where
  "for_block cx pb ba m1 m2 m3 m4 =
     gbind new_instr (\<lambda>ex. gbind new_instr (\<lambda>cont.
     let inner = ba\<lparr>ba_blockExit := Some ex, ba_blockCont := Some cont\<rparr>;
         plain = in_block inner True None False False in
     gbind (case present m1 of None \<Rightarrow> gret () | Some s1 \<Rightarrow> genStatement cx plain s1) (\<lambda>_.
     gbind new_instr (\<lambda>first. gbind (append_instr first) (\<lambda>_.
     gbind (case m4 of None \<Rightarrow> gret () | Some s4 \<Rightarrow> pb inner s4) (\<lambda>_.
     gbind (append_instr cont) (\<lambda>_.
     gbind (case m3 of None \<Rightarrow> gret () | Some s3 \<Rightarrow> genStatement cx plain s3) (\<lambda>_.
     gbind (set_jump first) (\<lambda>_.
     gbind (case present m2 of
              None \<Rightarrow> emit_jump OPCODE_JUMP (Some first) True
            | Some s2 \<Rightarrow> genStatement cx (in_block inner False (Some first) True True) s2) (\<lambda>_.
     append_instr ex))))))))))"

fun getPragma :: "cAstNode \<Rightarrow> string" where
  "getPragma (AstToken t p g) = g"
| "getPragma _ = []"

definition nth_opt :: "'a list \<Rightarrow> nat \<Rightarrow> 'a option" where
  "nth_opt xs k = (if k < length xs then Some (xs ! k) else None)"

definition iteration_for :: "genctx \<Rightarrow> gen_block \<Rightarrow> block_args \<Rightarrow> cAstNode list \<Rightarrow> unit gen" where
  "iteration_for cx pb ba cs =
     (let m1 = nth_opt cs 1; m2 = nth_opt cs 2;
          m3 = (if 4 < length cs then nth_opt cs 3 else None);
          m4 = (if 4 < length cs then nth_opt cs 4 else nth_opt cs 3) in
      case cs of
        [] \<Rightarrow> gfail NullPointer
      | forNode # _ \<Rightarrow> gbind gget (\<lambda>s.
          gbind (if strcaseeq (getPragma forNode) ''unroll'' then gres (loopUnroll (g_ids s) m1 m2 m3 m4) else gret None) (\<lambda>u.
          case u of
            Some r \<Rightarrow> unrolled_block pb ba m4 r
          | None \<Rightarrow> for_block cx pb ba m1 m2 m3 m4)))"

definition gen_item :: "gen_block \<Rightarrow> block_args \<Rightarrow> cAstNode \<Rightarrow> unit gen" where
  "gen_item pb ba n =
     (if getID n \<noteq> eTOKEN_block_item then gfail AssertFail else gbind (gres (child_at 0 n)) (pb ba))"

text \<open>The statement itself, \<open>node4\<close> of the code; \<open>node\<close> is the same but for a labelled statement.\<close>

definition gen_block_kind :: "genctx \<Rightarrow> gen_block \<Rightarrow> block_args \<Rightarrow> cAstNode \<Rightarrow> cAstNode \<Rightarrow> unit gen" where
  "gen_block_kind cx pb ba node node4 =
     (let t = getID node4 in
      if t = eTOKEN_iteration_while_statement then while_block cx pb ba (getChildList node4)
      else if t = eTOKEN_iteration_do_while_statement then do_block cx pb ba (getChildList node4)
      else if t = eTOKEN_iteration_for_statement then iteration_for cx pb ba (getChildList node4)
      else if t = eTOKEN_declaration then gret ()
      else if t \<in> {eTOKEN_expression, eTOKEN_expression_statement, eTOKEN_compound_statement}
      then gmap (genStatement cx (in_block ba True None False False)) (getChildList node4)
      else if t = eTOKEN_switch_statement then genSwitchStatement cx pb ba node4
      else if t = eTOKEN_selection_statement
      then genSelectionStatement (genStatement cx) pb ba (child_from [eTOKEN_expression] node)
      else if t = eTOKEN_jump_statement then genStatement cx (in_block ba True None False False) node4
      else gfail CompileError)"

definition process_code_block_body :: "genctx \<Rightarrow> (nat \<Rightarrow> f32 list) \<Rightarrow> gen_block \<Rightarrow> gen_block" where
  "process_code_block_body cx vals pb ba node =
     gbind (process_init vals node) (\<lambda>_.
     if getID node = eTOKEN_block_item_list then gmap (gen_item pb ba) (getChildList node)
     else if getID node = eTOKEN_labeled_statement
     then gbind (gres (child_at 1 node)) (gen_block_kind cx pb ba node)
     else gen_block_kind cx pb ba node node)"

fun process_code_block_f :: "genctx \<Rightarrow> (nat \<Rightarrow> f32 list) \<Rightarrow> nat \<Rightarrow> gen_block" where
  "process_code_block_f cx vals 0 ba n = no_fuel"
| "process_code_block_f cx vals (Suc k) ba n = process_code_block_body cx vals (process_code_block_f cx vals k) ba n"

definition process_code_block :: "genctx \<Rightarrow> (nat \<Rightarrow> f32 list) \<Rightarrow> gen_block" where
  "process_code_block cx vals ba n = process_code_block_f cx vals (Suc (depth n)) ba n"


section \<open>The program\<close>

text \<open>The checks: return types, names, kernel classes, and that no two functions have the same name.\<close>

definition assert_some :: "'a option \<Rightarrow> 'a res" where
  "assert_some m = res_of_option AssertFail m"

definition function_name :: "cAstNode \<Rightarrow> string res" where
  "function_name f = res_bind (assert_some (func_name_node f)) getStringValue"

definition return_type_ok :: "cAstNode \<Rightarrow> bool res" where
  "return_type_ok f =
     res_bind (assert_some (nth_opt (getChildList f) 0)) (\<lambda>n.
     res_bind (is_kernel f) (\<lambda>kernel.
     res_bind (if getID n = eTOKEN_declaration_specifiers then child_at 1 n else Inr n) (\<lambda>t.
     Inr (if kernel then getID t = eTOKEN_VOID else getID t \<in> {eTOKEN_VOID, eTOKEN_FLOAT, eTOKEN_INT}))))"

fun no_duplicate :: "nat \<Rightarrow> string \<Rightarrow> nat \<Rightarrow> cAstNode list \<Rightarrow> unit res" where
  "no_duplicate k name j [] = Inr ()"
| "no_duplicate k name j (f # fs) =
     res_bind (function_name f) (\<lambda>s. if j \<noteq> k \<and> s = name then Inl CompileError else no_duplicate k name (Suc j) fs)"

fun check_functions :: "cAstNode list \<Rightarrow> nat \<Rightarrow> cAstNode list \<Rightarrow> class_list \<Rightarrow> class_list res" where
  "check_functions all k [] L = Inr L"
| "check_functions all k (f # fs) L =
     res_bind (return_type_ok f) (\<lambda>ok. if \<not> ok then Inl CompileError
     else res_bind (function_name f) (\<lambda>name.
     res_bind (IsValidScopedName name) (\<lambda>valid. if \<not> valid then Inl CompileError
     else res_bind (cClass_Find L name) (\<lambda>(threads, L). if threads = 0 then Inl CompileError
     else res_bind (no_duplicate k name 0 all) (\<lambda>_. check_functions all (Suc k) fs L)))))"

text \<open>The code of one function. The first instruction, a NOP, gets the name and the number of the function.\<close>

definition mark_begin :: "nat option \<Rightarrow> nat \<Rightarrow> string \<Rightarrow> unit gen" where
  "mark_begin before k name =
     gbind gget (\<lambda>s.
     gbind (gres (deref (case before of Some b \<Rightarrow> list_next (g_lst s) b | None \<Rightarrow> nth_opt (g_lst s) 0))) (\<lambda>i.
     set_instr i (\<lambda>ins. Inr (setLabel (Some name) (setBeginFunc (Some k) ins)))))"

definition gen_function :: "cAstNode \<Rightarrow> (nat \<Rightarrow> int) \<Rightarrow> (nat \<Rightarrow> f32 list) \<Rightarrow> nat \<Rightarrow> cAstNode \<Rightarrow> nat list gen" where
  "gen_function root addr vals k f =
     gbind (gres (assert_some (getChild [eTOKEN_block_item_list] f))) (\<lambda>block.
     gbind (gres (getIdentifierList block)) (\<lambda>ids.
     gbind (\<lambda>s. Some (Inr ((), s\<lparr>g_block := ids\<rparr>))) (\<lambda>_.
     gbind get_last (\<lambda>before.
     gbind (emit (\<lambda>ins. Inr ins)) (\<lambda>_.
     gbind (process_func_entry f block) (\<lambda>hasExit.
     gbind new_instr (\<lambda>ex.
     gbind (process_code_block \<lparr>cx_root = root, cx_func = f, cx_addr = addr\<rparr> vals
              \<lparr>ba_hasExit = hasExit, ba_exit = Some ex, ba_blockExit = None, ba_blockCont = None\<rparr> block) (\<lambda>_.
     gbind (process_func_exit ex) (\<lambda>_.
     gbind (gres (function_name f)) (\<lambda>name.
     gbind (mark_begin before k name) (\<lambda>_. gbind gget (\<lambda>s. gret (g_block s)))))))))))))"

fun gen_functions :: "cAstNode \<Rightarrow> (nat \<Rightarrow> int) \<Rightarrow> (nat \<Rightarrow> f32 list) \<Rightarrow> nat \<Rightarrow> cAstNode list \<Rightarrow> nat list list gen" where
  "gen_functions root addr vals k [] = gret []"
| "gen_functions root addr vals k (f # fs) =
     gbind (gen_function root addr vals k f) (\<lambda>ids.
     gbind (gen_functions root addr vals (Suc k) fs) (\<lambda>rest. gret (ids # rest)))"

text \<open>What the passes behind the generator read from the tree.\<close>

fun block_tree :: "cAstNode \<Rightarrow> cAstBlock" where
  "block_tree (AstComposite t ids cs) = AstBlock ids (map block_tree cs)"
| "block_tree _ = AstBlock None []"

definition func_node :: "cAstNode \<Rightarrow> nat list \<Rightarrow> cFuncNode res" where
  "func_node f ids =
     res_bind (function_name f) (\<lambda>name. res_bind (is_kernel f) (\<lambda>kernel.
     res_bind (assert_some (getChild [eTOKEN_block_item_list] f)) (\<lambda>block.
     Inr \<lparr>fn_name = name, fn_kernel = kernel, fn_block = AstBlock (Some ids) (map block_tree (getChildList block))\<rparr>)))"

fun func_nodes :: "cAstNode list \<Rightarrow> nat list list \<Rightarrow> cFuncNode list res" where
  "func_nodes (f # fs) (ids # rest) =
     res_bind (func_node f ids) (\<lambda>n. res_bind (func_nodes fs rest) (\<lambda>ns. Inr (n # ns)))"
| "func_nodes _ _ = Inr []"

text \<open>
  \<open>gen\<close>: from the tree, the identifiers and the kernel classes to the program, the identifiers with the
  temporaries, and the classes.
\<close>

definition gen :: "cAstNode \<Rightarrow> (nat \<Rightarrow> int) \<Rightarrow> (nat \<Rightarrow> f32 list) \<Rightarrow> idents \<Rightarrow> class_list \<Rightarrow> (program \<times> idents \<times> class_list) res option" where
  "gen root addr vals I L =
     (let fs = filter (\<lambda>n. getID n = eTOKEN_function_definition2) (getChildList root) in
      case check_functions fs 0 fs L of
        Inl e \<Rightarrow> Some (Inl e)
      | Inr L' \<Rightarrow>
          (case gbind (gen_functions root addr vals 0 fs) (\<lambda>blocks. gres (func_nodes fs blocks))
                  \<lparr>g_code = [], g_lst = [], g_ids = I, g_block = []\<rparr> of
             None \<Rightarrow> None
           | Some (Inl e) \<Rightarrow> Some (Inl e)
           | Some (Inr (ns, s)) \<Rightarrow> Some (Inr (\<lparr>p_code = g_code s, p_order = g_lst s, p_funcs = ns\<rparr>, g_ids s, L'))))"


end
