(* ===== verification/GenEnds.thy ===== *)
theory GenEnds
  imports GenBlock
begin

text \<open>
  The code generator always returns: the fuel that its recursion is given from the depth of the tree is enough,
  for every tree, and so is that of an unrolled loop.
\<close>

section \<open>Generators that return\<close>

definition tot :: "'a gen \<Rightarrow> bool" where
  "tot m \<longleftrightarrow> (\<forall>s. m s \<noteq> None)"

named_theorems tot_rules

lemma tot_gret [tot_rules]: "tot (gret a)"
  and tot_gres [tot_rules]: "tot (gres r)"
  and tot_gfail [tot_rules]: "tot (gfail e)"
  and tot_gget [tot_rules]: "tot gget"
  and tot_ids_of [tot_rules]: "tot (ids_of f)"
  and tot_upd_id [tot_rules]: "tot (upd_id i g)"
  and tot_new_id [tot_rules]: "tot (new_id q)"
  and tot_new_instr [tot_rules]: "tot new_instr"
  and tot_set_instr [tot_rules]: "tot (set_instr i h)"
  and tot_append_instr [tot_rules]: "tot (append_instr i)"
  and tot_get_last [tot_rules]: "tot get_last"
  and tot_insert_instr [tot_rules]: "tot (insert_instr is after)"
  by (simp_all add: tot_def gret_def gres_def gfail_def gget_def ids_of_def upd_id_def new_id_def new_instr_def
      set_instr_def append_instr_def get_last_def insert_instr_def)

lemma tot_gbind [tot_rules]: "tot m \<Longrightarrow> (\<And>a. tot (f a)) \<Longrightarrow> tot (gbind m f)"
  by (auto simp: tot_def gbind_def split: option.split sum.split)

lemma tot_if [tot_rules]: "(b \<Longrightarrow> tot x) \<Longrightarrow> (\<not> b \<Longrightarrow> tot y) \<Longrightarrow> tot (if b then x else y)"
  by simp

lemma tot_case_option [tot_rules]:
  "(m = None \<Longrightarrow> tot x) \<Longrightarrow> (\<And>a. m = Some a \<Longrightarrow> tot (f a)) \<Longrightarrow> tot (case m of None \<Rightarrow> x | Some a \<Rightarrow> f a)"
  by (cases m) auto

lemma tot_case_list [tot_rules]:
  "(xs = [] \<Longrightarrow> tot x) \<Longrightarrow> (\<And>a as. xs = a # as \<Longrightarrow> tot (f a as)) \<Longrightarrow> tot (case xs of [] \<Rightarrow> x | a # as \<Rightarrow> f a as)"
  by (cases xs) auto

lemma tot_case_prod [tot_rules]: "(\<And>a b. p = (a, b) \<Longrightarrow> tot (f a b)) \<Longrightarrow> tot (case p of (a, b) \<Rightarrow> f a b)"
  by (cases p) auto

lemma tot_let [tot_rules]: "tot (f x) \<Longrightarrow> tot (Let x f)"
  by simp

lemma tot_gmap [tot_rules]: "(\<And>x. x \<in> set xs \<Longrightarrow> tot (f x)) \<Longrightarrow> tot (gmap f xs)"
  by (induction xs) (auto intro!: tot_rules)

lemma tot_cast [tot_rules]: "tot (cast_MU t)" "tot (cast_IMU t)" "tot (cast_id c i)" "tot (id_is c i)" "tot (node_id n)"
  by (auto simp: cast_MU_def cast_IMU_def cast_id_def id_is_def node_id_def intro!: tot_rules)

lemma tot_emit [tot_rules]: "tot (emit f)" "tot (emit_IMU oc x1 x2 y)" "tot (fill_MU i oc x1 x2 y xacc)"
  by (auto simp: emit_def emit_IMU_def fill_MU_def intro!: tot_rules)

lemma tot_emit_MU [tot_rules]: "tot (emit_MU oc x1 x2 y xacc)" "tot (emit_jump oc j after)" "tot (emit_branch oc x1 x2 m j after)"
  by (auto simp: emit_MU_def emit_jump_def emit_branch_def intro!: tot_rules)

lemma tot_temps [tot_rules]: "tot temp_int" "tot (temp_private w)" "tot (add_scope p i)" "tot (used_as_index i)"
    "tot (getStackVariable pos w)" "tot (copy_to_temp u t)" "tot (found t)" "tot (add_scaled c d v)" "tot (sub_scaled c d v)"
  by (auto simp: temp_int_def temp_private_def add_scope_def used_as_index_def getStackVariable_def copy_to_temp_def
      found_def add_scaled_def sub_scaled_def intro!: tot_rules)

lemma tot_conv2MU [tot_rules]: "tot (conv2MU cx t)" "tot (assign_term mu t y)" "tot (const_pointer_to i)"
  by (auto simp: conv2MU_def assign_term_def const_pointer_to_def intro!: tot_rules)

lemma tot_need [tot_rules]: "tot m \<Longrightarrow> tot (need e m)"
  by (auto simp: need_def intro!: tot_rules)

section \<open>Expressions\<close>

lemma depth_child: "c \<in> set (getChildList n) \<Longrightarrow> depth c < depth n"
proof -
  have "c \<in> set cs \<Longrightarrow> depth c \<le> foldr max (map depth cs) 0" for cs by (induction cs) auto
  then show "c \<in> set (getChildList n) \<Longrightarrow> depth c < depth n" by (cases n) (auto simp: less_Suc_eq_le)
qed

lemma depth_child_from: "c \<in> set (child_from ts n) \<Longrightarrow> depth c < depth n"
proof (induction ts n rule: child_from.induct)
  case (2 t n)
  then show ?case by (auto dest: set_dropWhileD intro: depth_child)
next
  case (3 t v vs n)
  obtain d ds where d: "dropWhile (\<lambda>c. getID c \<noteq> t) (getChildList n) = d # ds"
    using 3 by (cases "dropWhile (\<lambda>c. getID c \<noteq> t) (getChildList n)") auto
  then have "d \<in> set (getChildList n)" by (metis list.set_intros(1) set_dropWhileD)
  moreover have "depth c < depth d" using 3 d by auto
  ultimately show ?case using depth_child less_trans by blast
qed simp

lemma depth_getChild: "getChild ts n = Some c \<Longrightarrow> depth c < depth n"
  using depth_child_from [of c ts n] by (auto simp: getChild_def split: list.splits)

lemma depth_child_at: "child_at k n = Inr c \<Longrightarrow> depth c < depth n"
  by (auto simp: child_at_def intro!: depth_child split: if_splits)

text \<open>The calls below a node return.\<close>

definition ends_below :: "nat \<Rightarrow> gen_term \<Rightarrow> gen_stmt \<Rightarrow> bool" where
  "ends_below d gt gs \<longleftrightarrow>
     (\<forall>m x r u y. (\<forall>n. m = Some n \<longrightarrow> depth n < d) \<longrightarrow> tot (gt m x r u y)) \<and> (\<forall>a n. depth n < d \<longrightarrow> tot (gs a n))"

lemma ends_term: "ends_below d gt gs \<Longrightarrow> (\<And>n. m = Some n \<Longrightarrow> depth n < d) \<Longrightarrow> tot (gt m x r u y)"
  by (simp add: ends_below_def)

lemma ends_stmt: "ends_below d gt gs \<Longrightarrow> depth n < d \<Longrightarrow> tot (gs a n)"
  by (simp add: ends_below_def)

lemma ends_mono: "ends_below d gt gs \<Longrightarrow> e \<le> d \<Longrightarrow> ends_below e gt gs"
  unfolding ends_below_def by (metis less_le_trans)

lemma tot_gres_bind: "(\<And>a. r = Inr a \<Longrightarrow> tot (f a)) \<Longrightarrow> tot (gbind (gres r) f)"
  by (cases r) (auto intro: tot_rules)


lemma hd_depth: "getChildList n = a # rest \<Longrightarrow> depth a < depth n"
  and hd2_depth: "getChildList n = a # b # rest \<Longrightarrow> depth b < depth n"
  and hd3_depth: "getChildList n = a # b # c # rest \<Longrightarrow> depth c < depth n"
  using depth_child [of _ n] by auto

lemma tot_case_term [tot_rules]:
  assumes "\<And>a. tot (f1 a)" "\<And>a. tot (f2 a)" "tot (f3)" "tot (f4)" "tot (f5)"
    "tot (f6)" "tot (f7)" "\<And>a. tot (f8 a)" "tot (f9)" "tot (f10)"
    "\<And>a b c. tot (f11 a b c)" "\<And>a b. tot (f12 a b)" "\<And>a b c. tot (f13 a b c)" "tot (f14)" "\<And>a b. tot (f15 a b)"
    "tot (f16)" "\<And>a b. tot (f17 a b)" "\<And>a b c. tot (f18 a b c)" "\<And>a b c. tot (f19 a b c)" "\<And>a b c e. tot (f20 a b c e)"
    "tot (f21)" "\<And>a. tot (f22 a)"
  shows "tot (case_cTerm f1 f2 f3 f4 f5 f6 f7 f8 f9 f10 f11 f12 f13 f14 f15 f16 f17 f18 f19 f20 f21 f22 t)"
  using assms by (cases t) simp_all

lemma tot_conditional:
  assumes e: "ends_below (depth node) gt gs"
  shows "tot (genTermConditionalExpression gt gs node mu y)"
  unfolding genTermConditionalExpression_def
  by (intro tot_rules ends_term [OF e] ends_stmt [OF e]) (auto dest: hd_depth hd2_depth hd3_depth split: list.splits)

lemma tot_pointer_sources [tot_rules]: "tot (pointer_sources p n cs flag)"
  by (induction p n cs flag rule: pointer_sources.induct) (auto intro!: tot_rules)

lemma tot_pointer_assigned [tot_rules]: "tot (pointer_assigned p n)"
  by (auto simp: pointer_assigned_def intro!: tot_rules)

lemma tot_assignment:
  assumes e: "ends_below (depth node) gt gs"
  shows "tot (genTermAssignmentExpression gt node)"
  unfolding genTermAssignmentExpression_def
  by (intro tot_rules ends_term [OF e]) (auto dest: hd_depth hd2_depth hd3_depth split: list.splits intro: tot_rules)

lemma tot_post:
  assumes e: "ends_below (depth node) gt gs"
  shows "tot (genTermPostIncrementDecrement gt node)"
  unfolding genTermPostIncrementDecrement_def
  by (intro tot_rules ends_term [OF e]) (auto dest: hd_depth hd2_depth split: list.splits)

lemma tot_pre:
  assumes e: "ends_below (depth node) gt gs"
  shows "tot (genTermPreIncrementDecrement gt node ref mu)"
  unfolding genTermPreIncrementDecrement_def
  by (intro tot_rules ends_term [OF e]) (auto dest: hd_depth hd2_depth split: list.splits)

lemma tot_shift_loop [tot_rules]: "tot (shift_loop oc i x2 y acc)"
  by (auto simp: shift_loop_def intro!: tot_rules)

lemma tot_shift_acc_steps [tot_rules]: "tot (shift_acc_steps k oc x2 y acc)"
  by (induction k oc x2 y acc rule: shift_acc_steps.induct) (subst shift_acc_steps.simps, auto intro!: tot_rules)

lemma tot_shift_steps [tot_rules]: "tot (shift_steps k first oc x2 y double)"
  by (induction k first oc x2 y double rule: shift_steps.induct) (subst shift_steps.simps, auto intro!: tot_rules)

lemma tot_emit_calc [tot_rules]: "tot (emit_calc_MU oc x1 x2 y xacc)"
  unfolding emit_calc_MU_def Let_def by (intro tot_rules)

lemma tot_calc [tot_rules]: "tot (calc_IMU t x1 x2)" "tot (calc_MU t isExReg x1 x2)"
  by (auto simp: calc_IMU_def calc_MU_def intro!: tot_rules)

lemma tot_calc_loop:
  assumes e: "ends_below d gt gs" and "\<forall>n\<in>set ns. depth n < d"
  shows "tot (calc_loop gt t isExReg mu y ns)"
  using assms(2)
proof (induction ns arbitrary: y rule: induct_list012)
  case (3 n1 n2 ns)
  then show ?case unfolding calc_loop.simps by (intro tot_rules ends_term [OF e]) auto
qed (auto intro: tot_rules)

lemma tot_calculation:
  "ends_below (depth node) gt gs \<Longrightarrow> tot (genTermCalculation gt node isExReg mu)"
  unfolding genTermCalculation_def by (intro tot_rules tot_calc_loop) (auto intro: depth_child)

lemma tot_identifier [tot_rules]: "tot (genTermIdentifier node ref mu y)"
  unfolding genTermIdentifier_def Let_def by (intro tot_rules)

section \<open>Indices and calls\<close>

lemma tot_index_term:
  assumes e: "ends_below d gt gs" and "depth n < d"
  shows "tot (index_term gt n)" "tot (index_id gt n)"
  using assms(2) by (auto simp: index_term_def index_id_def intro!: tot_rules ends_term [OF e])

lemma tot_split_index:
  assumes e: "ends_below d gt gs" and n: "depth n < d"
  shows "tot (split_index gt c k n)"
proof -
  have "\<And>a. a \<in> set (getChildList n) \<Longrightarrow> depth a < d" using depth_child n less_trans by blast
  then show ?thesis
    unfolding split_index_def Let_def
    by (intro tot_rules tot_index_term [OF e]) (use n in auto)
qed

lemma tot_add_index [tot_rules]: "tot (add_index d acc i)" "tot (fit_offset idn m c)"
  unfolding add_index_def fit_offset_def Let_def by (intro tot_rules)+

lemma tot_decode_indices:
  assumes e: "ends_below d gt gs" and "\<forall>n\<in>set ns. depth n < d"
  shows "tot (decode_indices gt idn sub k i c ns)"
  using assms(2)
proof (induction ns arbitrary: k i c)
  case (Cons n ns)
  have "\<And>a as. getChildList n = a # as \<Longrightarrow> depth a < d" using hd_depth [of n] Cons.prems by (auto intro: less_trans)
  then show ?case
    unfolding decode_indices.simps
    by (intro tot_rules tot_split_index [OF e] Cons.IH) (use Cons.prems in auto)
qed (auto intro: tot_rules)

lemma tot_decode_array:
  assumes e: "ends_below (depth node) gt gs"
  shows "tot (decode_array gt node)"
  unfolding decode_array_def Let_def
  by (intro tot_rules tot_decode_indices [OF e]) (use depth_child [of _ node] in auto)

lemma tot_direct:
  assumes e: "ends_below (depth node) gt gs"
  shows "tot (genTermDirectIndexing gt node ref y)"
  unfolding genTermDirectIndexing_def Let_def by (intro tot_rules tot_decode_array [OF e])

lemma tot_pointer_parts:
  assumes e: "ends_below d gt gs" and "depth n < d"
  shows "tot (pointer_at p i c)" "tot (pointer_variable gt p n c)" "tot (pointer_whole gt p n)"
  unfolding pointer_variable_def pointer_whole_def pointer_at_def
  by (intro tot_rules tot_index_term [OF e] assms(2))+

lemma tot_pointer_sum:
  assumes e: "ends_below d gt gs" and "depth n < d" "depth v < d"
  shows "tot (pointer_sum gt p n v k sign)"
  unfolding pointer_sum_def by (intro tot_rules tot_pointer_parts [OF e] assms(2,3))

lemma tot_pointer:
  assumes e: "ends_below (depth node) gt gs"
  shows "tot (genTermPointerIndexing gt node)"
proof -
  have below: "depth b < depth node \<Longrightarrow> c \<in> set (getChildList b) \<Longrightarrow> depth c < depth node" for b c
    using depth_child less_trans by blast
  show ?thesis
    unfolding genTermPointerIndexing_def pointer_at_def
    by (intro tot_rules tot_pointer_sum [OF e] tot_pointer_parts [OF e])
      (metis below depth_child list.set_intros(1) list.set_intros(2))+
qed

lemma tot_int_argument:
  assumes e: "ends_below d gt gs" and "depth n < d"
  shows "tot (int_argument cx gt instrs n)"
  unfolding int_argument_def by (intro tot_rules ends_term [OF e]) (use assms(2) in auto)

lemma tot_first_argument:
  assumes e: "ends_below d gt gs" and "depth n < d"
  shows "tot (first_argument cx gt f n)"
  unfolding first_argument_def by (intro tot_rules tot_int_argument [OF e] ends_term [OF e]) (use assms(2) in auto)

lemma tot_second_argument:
  assumes e: "ends_below d gt gs" and "\<And>b. m = Some b \<Longrightarrow> depth b < d"
  shows "tot (second_argument cx gt f m)"
  unfolding second_argument_def by (intro tot_rules tot_int_argument [OF e] ends_term [OF e]) (use assms(2) in auto)

lemma tot_check_argument [tot_rules]: "tot (check_argument k q)"
  unfolding check_argument_def by (intro tot_rules)

lemma operand_nodes_in: "operand_nodes oc n1 ns = Inr (Some b, sw) \<Longrightarrow> b \<in> set (n1 # ns)"
  by (auto simp: operand_nodes_def acc_arguments_def res_bind_eq_Inr_iff split: list.splits if_splits)

lemma argument_depth:
  assumes "deref (getChild ts node) = Inr args" and "c \<in> set (getChildList args)"
  shows "depth c < depth node"
proof -
  have "depth args < depth node"
    using assms(1) by (auto simp: deref_def res_of_option_def intro: depth_getChild split: option.splits)
  then show ?thesis using depth_child [OF assms(2)] by simp
qed

lemma tot_apply_opcode:
  assumes e: "ends_below (depth node) gt gs"
  shows "tot (apply_opcode cx gt node oc mu)"
proof (unfold apply_opcode_def, rule tot_gres_bind)
  fix args
  assume a: "deref (getChild [eTOKEN_argument_expression_list] node) = Inr args"
  have second: "depth b < depth node" if "getChildList args = n1 # ns" "operand_nodes oc n1 ns = Inr (Some b, sw)" for n1 ns b sw
    using argument_depth [OF a, of b] operand_nodes_in [OF that(2)] that(1) by simp
  show "tot (case getChildList args of
       [] \<Rightarrow> gfail CompileError
     | n1 # ns \<Rightarrow>
       gbind (gres (operand_nodes oc n1 ns)) (\<lambda>(n2, swap).
       gbind (gres (GetMuOpcodeDef oc)) (\<lambda>d.
       gbind (first_argument cx gt d n1) (\<lambda>x1.
       gbind (second_argument cx gt d n2) (\<lambda>x2.
       gbind (check_argument (od_x1_type d) x1) (\<lambda>_.
       gbind (if n2 = None then gret () else check_argument (od_x2_type d) x2) (\<lambda>_.
       gbind (if od_y_type d = eMuOpcodeDefDataTypeInt then gret MU_Result
              else if od_y_type d = eMuOpcodeDefDataTypeFloat
              then gbind (temp_private (if od_y_vector d then VECTOR_DEPTH else 0)) (\<lambda>i. gret (MU_Storage i 0 False))
              else gret MU_Null) (\<lambda>y.
       gbind (gres (deref x1)) (\<lambda>u1. gbind (gres (deref x2)) (\<lambda>u2.
       gbind (emit_MU (if swap then oc + 4 else oc) u1 u2 y None) (\<lambda>_.
       gbind (if y = MU_Result then gbind (copy_to_temp False IMU_Result) (\<lambda>i. gret (IMU_Integer i)) else gret y) (\<lambda>y.
       if mu then found y else gbind (gres (Convert2IMU y)) (\<lambda>t. gret (t, False))))))))))))))"
  proof (cases "getChildList args")
    case (Cons n1 ns)
    then have "depth n1 < depth node" using argument_depth [OF a] by simp
    then show ?thesis
      unfolding Cons list.case
      by (intro tot_gres_bind tot_case_prod) (intro tot_rules tot_first_argument [OF e] tot_second_argument [OF e]; use second [OF Cons] in simp)
  qed (simp add: tot_rules)
qed

lemma tot_pass_parameter:
  assumes e: "ends_below d gt gs" and "depth n < d"
  shows "tot (pass_parameter cx gt w parm n cs)"
  unfolding pass_parameter_def by (intro tot_rules ends_term [OF e]) (use assms(2) in auto)

lemma tot_pass_width:
  assumes e: "ends_below d gt gs" and "\<forall>n\<in>set ns. depth n < d"
  shows "tot (pass_width cx gt ids w count ns cs)"
  using assms(2)
proof (induction ns arbitrary: count cs)
  case (Cons n ns)
  then show ?case unfolding pass_width.simps by (intro tot_rules tot_pass_parameter [OF e]) auto
qed (auto intro!: tot_rules)

lemma tot_pass_widths:
  assumes e: "ends_below d gt gs" and "\<forall>n\<in>set args. depth n < d"
  shows "tot (pass_widths cx gt ids rv args ws r)"
proof (induction ws arbitrary: r)
  case (Cons w ws)
  then show ?case by (cases r) (auto intro!: tot_rules tot_pass_width [OF e assms(2)])
qed (auto intro: tot_rules)

lemma tot_function_call:
  assumes e: "ends_below (depth node) gt gs"
  shows "tot (genTermFunctionCall cx gt node name mu)"
proof -
  have "\<forall>n\<in>set (getChildList args). depth n < depth node"
    if "deref (getChild [eTOKEN_argument_expression_list] node) = Inr args" for args
  proof -
    have "depth args < depth node"
      using that by (auto simp: deref_def res_of_option_def intro: depth_getChild split: option.splits)
    then show ?thesis using depth_child less_trans by blast
  qed
  then show ?thesis
    unfolding genTermFunctionCall_def Let_def call_result_def
    by (intro tot_rules tot_gres_bind tot_pass_widths [OF e])
qed

lemma tot_function:
  assumes e: "ends_below (depth node) gt gs"
  shows "tot (genTermFunction cx gt node mu)"
  unfolding genTermFunction_def by (intro tot_rules tot_apply_opcode [OF e] tot_function_call [OF e])

lemma behind_depth: "behind_operator n = Some c \<Longrightarrow> depth c < depth n"
  using depth_child_from [of c "[eTOKEN_unary_operator]" n] by (auto simp: behind_operator_def split: list.splits)

lemma tot_genTerm_body:
  assumes e: "\<And>n. m = Some n \<Longrightarrow> ends_below (depth n) gt gs"
  shows "tot (genTerm_body cx gt gs m x r u y)"
proof (cases m)
  case (Some n)
  then have e: "ends_below (depth n) gt gs" using e by simp
  show ?thesis
    unfolding Some genTerm_body_def option.case genTerm_node_def Let_def
    by (intro tot_rules ends_term [OF e] tot_conditional [OF e] tot_assignment [OF e] tot_post [OF e] tot_pre [OF e]
        tot_function [OF e] tot_calculation [OF e] tot_direct [OF e] tot_pointer [OF e])
      (auto dest: behind_depth hd_depth split: list.splits)
qed (auto simp: genTerm_body_def intro: tot_rules)


section \<open>Statements\<close>

lemma tot_all_but_last: "(\<And>x. x \<in> set xs \<Longrightarrow> tot (f x)) \<Longrightarrow> (\<And>x. x \<in> set xs \<Longrightarrow> tot (g x)) \<Longrightarrow> tot (all_but_last f g xs)"
  by (induction f g xs rule: all_but_last.induct) (auto intro!: tot_rules)

lemma tot_gen_return:
  assumes e: "ends_below (depth n) gt gs"
  shows "tot (gen_return cx gt a n)"
  unfolding gen_return_def return_float_def return_int_def Let_def
  by (intro tot_rules ends_term [OF e]) (auto dest: depth_getChild)

lemma tot_gen_jump: "ends_below (depth n) gt gs \<Longrightarrow> tot (gen_jump cx gt a n)"
  unfolding gen_jump_def by (intro tot_rules tot_gen_return)

lemma tot_gen_logical: "ends_below (depth n) gt gs \<Longrightarrow> tot (gen_logical gs a n)"
  unfolding gen_logical_def Let_def
  by (intro tot_rules tot_all_but_last) (auto intro: ends_stmt depth_child)

lemma tot_gen_comparison:
  assumes e: "ends_below (depth n) gt gs"
  shows "tot (gen_comparison gt a n)"
  unfolding gen_comparison_def Let_def
  by (intro tot_gres_bind tot_rules ends_term [OF e]) (auto dest: depth_child_at hd2_depth split: list.splits)

lemma tot_gen_condition [tot_rules]: "tot (gen_condition a reverse t)"
  unfolding gen_condition_def fuse_condition_def Let_def by (intro tot_rules)

lemma negated_depth: "negated n = Inr (Some c, neg) \<Longrightarrow> depth c \<le> depth n"
  using depth_child_from [of c "[eTOKEN_unary_operator]" n]
  by (auto simp: negated_def res_bind_eq_Inr_iff split: list.splits if_splits)

lemma tot_gen_expression:
  assumes e: "ends_below (Suc (depth n)) gt gs"
  shows "tot (gen_expression gt a n)"
proof -
  have neg: "tot (gbind (gres (negated n)) (\<lambda>(m, neg).
           gbind (need NullPointer (gt m False False mu None)) (\<lambda>t. gen_condition a (sa_reverse a \<noteq> neg) t)))" for mu
    by (rule tot_gres_bind) (auto intro!: tot_rules ends_term [OF e] dest: negated_depth)
  then show ?thesis
    unfolding gen_expression_def
    by (intro tot_if tot_gbind [OF tot_gget] tot_gbind [OF tot_gres] neg) (intro tot_rules ends_term [OF e], simp)
qed

lemma tot_genStatement_body:
  assumes e: "ends_below (depth n) gt gs" and gt: "\<And>m x r u y. (\<And>c. m = Some c \<Longrightarrow> depth c \<le> depth n) \<Longrightarrow> tot (gt m x r u y)"
  shows "tot (genStatement_body cx gt gs a n)"
proof -
  have "ends_below (Suc (depth n)) gt (\<lambda>a n. gret ())"
    using gt by (auto simp: ends_below_def less_Suc_eq_le intro: tot_rules)
  then show ?thesis
    unfolding genStatement_body_def
    by (intro tot_rules tot_gen_jump [OF e] tot_gen_logical [OF e] tot_gen_comparison [OF e] tot_gen_expression ends_stmt [OF e] depth_child)
qed

lemma tot_fuel:
  "(\<And>n. m = Some n \<Longrightarrow> 2 * depth n + 2 \<le> k) \<Longrightarrow> 0 < k \<Longrightarrow> tot (genTerm_f cx k m x r u y)"
  "2 * depth n + 3 \<le> k \<Longrightarrow> tot (genStatement_f cx k a n)"
proof (induction k arbitrary: m x r u y a n)
  case (Suc k)
  have below: "ends_below d (genTerm_f cx k) (genStatement_f cx k)" if "2 * d + 1 \<le> k" for d
  proof -
    have "tot (genStatement_f cx k a c)" if "depth c < d" for a c
      using that \<open>2 * d + 1 \<le> k\<close> by (intro Suc.IH(2)) simp
    moreover have "tot (genTerm_f cx k m x r u y)" if "\<forall>n. m = Some n \<longrightarrow> depth n < d" for m x r u y
      using that \<open>2 * d + 1 \<le> k\<close> by (intro Suc.IH(1)) auto
    ultimately show ?thesis unfolding ends_below_def by blast
  qed
  {
    case 1
    then show ?case
      by (auto intro!: tot_genTerm_body below)
  next
    case 2
    then have "tot (genTerm_f cx k m x r u y)" if "\<And>c. m = Some c \<Longrightarrow> depth c \<le> depth n" for m x r u y
      using that 2 by (intro Suc.IH(1)) fastforce+
    then show ?case using 2 by (auto intro!: tot_genStatement_body below)
  }
qed simp_all

lemma tot_genTerm [tot_rules]: "tot (genTerm cx n mu)" and tot_genStatement [tot_rules]: "tot (genStatement cx a n)"
  unfolding genTerm_def genStatement_def by (rule tot_fuel; simp)+

section \<open>Blocks\<close>

lemma tot_process_init [tot_rules]: "tot (process_init vals n)"
proof -
  have "tot (init_value i pr sub p)" for i pr sub p unfolding init_value_def by (intro tot_rules)
  then have "tot (init_identifier vals i)" for i unfolding init_identifier_def Let_def by (intro tot_rules)
  then show ?thesis unfolding process_init_def by (cases n) (auto intro!: tot_rules split: option.split)
qed

lemma tot_set_jump [tot_rules]: "tot (set_jump i)"
  unfolding set_jump_def by (intro tot_rules)

text \<open>Blocks nested below a node return.\<close>

definition blocks_end :: "nat \<Rightarrow> gen_block \<Rightarrow> bool" where
  "blocks_end d pb \<longleftrightarrow> (\<forall>ba n. depth n < d \<longrightarrow> tot (pb ba n))"

lemma blocks_endD: "blocks_end d pb \<Longrightarrow> depth n < d \<Longrightarrow> tot (pb ba n)"
  by (simp add: blocks_end_def)

lemma tot_separately: "tot m \<Longrightarrow> tot (separately m)"
  by (auto simp: separately_def tot_def gbind_def split: option.split sum.split)

lemma tot_selection:
  assumes b: "blocks_end d pb" and "\<forall>n\<in>set ns. depth n < d" and gs: "\<And>a n. tot (gs a n)"
  shows "tot (genSelectionStatement gs pb ba ns)"
  using assms(2)
proof (induction ns rule: induct_list012)
  case (3 c t f)
  then show ?case
    unfolding genSelectionStatement.simps
    by (intro tot_rules tot_separately gs blocks_endD [OF b]) (auto simp: 3)
qed (auto intro: tot_rules)

lemma depth_substitute: "depth (substituteGenIdentifier x v n) = depth n"
proof -
  have c: "depth (substitute_child x v n) = depth n" for n
    by (induction n rule: depth.induct) (auto simp: comp_def cong: map_cong)
  show ?thesis by (cases n) (auto simp: c comp_def)
qed

lemma tot_switch_heads [tot_rules]: "tot (switch_heads mu t ns r)"
proof (induction ns arbitrary: r)
  case (Cons n ns)
  have "tot (case_jump mu u i c)" for u i c unfolding case_jump_def by (intro tot_rules)
  then show ?case by (cases r) (auto simp: Let_def intro!: tot_rules Cons.IH)
qed (auto intro: tot_rules)

lemma label_rest_depth: "label_rest n = Inr c \<Longrightarrow> depth c < depth n"
  by (auto simp: label_rest_def dest: set_dropWhileD intro!: depth_child split: list.splits)
    (metis list.set_intros(1) set_dropWhileD)

lemma tot_switch_bodies:
  assumes b: "blocks_end d pb" and "\<forall>n\<in>set ns. depth n < d"
  shows "tot (switch_bodies pb ba ns is)"
  using assms(2)
proof (induction ns arbitrary: "is")
  case (Cons n ns)
  have n: "depth n < d" using Cons.prems by simp
  show ?case
  proof (cases "is")
    case (Cons i js)
    then show ?thesis
      unfolding Cons switch_bodies.simps Let_def
      by (intro tot_gres_bind tot_rules blocks_endD [OF b] Cons.IH)
        (use n Cons.prems in \<open>auto dest!: depth_getChild label_rest_depth depth_child_at\<close>)
  qed (simp add: tot_rules)
qed (auto intro: tot_rules)

lemma tot_switch:
  assumes b: "blocks_end (depth n) pb"
  shows "tot (genSwitchStatement cx pb ba n)"
  unfolding genSwitchStatement_def Let_def
  by (intro tot_rules tot_switch_bodies [OF b] ballI depth_child_from)

lemma tot_loops:
  assumes b: "blocks_end d pb" and "\<forall>n\<in>set cs. depth n < d"
  shows "tot (while_block cx pb ba cs)" "tot (do_block cx pb ba cs)"
  unfolding while_block_def do_block_def Let_def
  by (intro tot_rules blocks_endD [OF b]; use assms(2) in simp)+

lemma tot_for_block:
  assumes b: "blocks_end d pb" and "\<And>n. m4 = Some n \<Longrightarrow> depth n < d"
  shows "tot (for_block cx pb ba m1 m2 m3 m4)"
  unfolding for_block_def Let_def
  by (intro tot_rules blocks_endD [OF b]; use assms(2) in simp)+

lemma tot_copies:
  assumes b: "blocks_end d pb" and "\<And>n. m = Some n \<Longrightarrow> depth n < d"
  shows "tot (unrolled_copies pb ba x m vs)"
  using assms(2)
proof (induction vs arbitrary: m)
  case (Cons v vs)
  have "tot (unrolled_copies pb ba x (map_option (substituteGenIdentifier x v) m) vs)"
    by (rule Cons.IH) (use Cons.prems in \<open>auto simp: depth_substitute\<close>)
  then show ?case
    unfolding unrolled_copies.simps Let_def
    by (intro tot_rules blocks_endD [OF b]) (use Cons.prems in \<open>auto simp: depth_substitute\<close>)
qed (auto intro: tot_rules)

lemma last_index_reached:
  assumes "last_index a b s eq = Some l" and "if up then 0 \<le> s else s < 0" and "if up then a \<le> l else l \<le> a"
  shows "s \<noteq> 0 \<and> (\<exists>n. l = a + int n * s \<and> n < Suc (nat \<bar>l - a\<bar>))"
proof -
  obtain q where s: "s \<noteq> 0" and "l = (if \<not> eq \<and> a + q * s = b then a + q * s - s else a + q * s)"
    using last_index_Some [OF assms(1)] by metis
  then obtain m where m: "l = a + m * s" by (metis add_diff_eq left_diff_distrib mult_1)
  have m0: "0 \<le> m"
    using assms(2,3) s unfolding m by (cases up) (auto simp: zero_le_mult_iff mult_le_0_iff)
  have "m \<le> \<bar>m * s\<bar>" using m0 s by (auto simp: abs_mult mult_le_cancel_left1)
  then show ?thesis using s m m0 by (intro conjI exI [of _ "nat m"]) auto
qed

lemma tot_unrolled:
  assumes b: "blocks_end d pb" and "\<And>n. m4 = Some n \<Longrightarrow> depth n < d"
    and u: "loopUnroll I m1 m2 m3 m4 = Inr (Some r)"
  shows "tot (unrolled_block pb ba m4 r)"
proof -
  obtain a l step x where r: "r = (a, l, step, x)" by (cases r)
  obtain s1 s2 s3 where m: "m1 = Some s1" "m2 = Some s2" "m3 = Some s3"
    using u by (cases m1; cases m2; cases m3) (auto simp: loopUnroll_def refuse_def)
  obtain to up eq where "last_index a to step eq = Some l" "if up then 0 \<le> step else step < 0" "if up then a \<le> l else l \<le> a"
    using loopUnroll_accepts u unfolding m r by metis
  then obtain n where "step \<noteq> 0" "l = a + int n * step" "n < Suc (nat \<bar>l - a\<bar>)"
    using last_index_reached by blast
  then obtain vs where vs: "unroll_indices (Suc (nat \<bar>l - a\<bar>)) a l step = Some vs"
    using unroll_indices_steps by metis
  show ?thesis
    unfolding r unrolled_block_def prod.case vs option.case by (intro tot_rules tot_copies [OF b]) (use assms(2) in auto)
qed

lemma nth_opt_in: "nth_opt xs k = Some x \<Longrightarrow> x \<in> set xs"
  by (auto simp: nth_opt_def split: if_splits)

lemma tot_iteration_for:
  assumes b: "blocks_end (depth n) pb"
  shows "tot (iteration_for cx pb ba (getChildList n))"
proof -
  have "depth c < depth n"
    if "(if 4 < length (getChildList n) then nth_opt (getChildList n) 4 else nth_opt (getChildList n) 3) = Some c" for c
    using that by (auto dest!: nth_opt_in intro: depth_child split: if_splits)
  note last = this
  have "tot (gbind (if strcaseeq p ''unroll'' then gres (loopUnroll I m1 m2 m3 m4) else gret None)
     (\<lambda>u. case u of Some r \<Rightarrow> unrolled_block pb ba m4 r | None \<Rightarrow> for_block cx pb ba m1 m2 m3 m4))"
    if "\<And>c. m4 = Some c \<Longrightarrow> depth c < depth n" for p I m1 m2 m3 m4
  proof (cases "strcaseeq p ''unroll''")
    case True
    then show ?thesis
      by (simp only: if_True) (intro tot_gres_bind tot_case_option; (rule tot_for_block [OF b], erule that | rule tot_unrolled [OF b]); simp add: that)
  next
    case False
    then show ?thesis by (simp add: tot_for_block [OF b] that)
  qed
  then show ?thesis
    unfolding iteration_for_def Let_def
    by (intro tot_case_list tot_gbind [OF tot_gget] tot_gfail) (use last in blast)
qed

lemma tot_gen_block_kind:
  assumes b: "blocks_end (depth n4) pb" and bn: "blocks_end (depth n) pb"
  shows "tot (gen_block_kind cx pb ba n n4)"
  unfolding gen_block_kind_def Let_def
  by (intro tot_rules tot_loops [OF b] tot_iteration_for [OF b] tot_switch [OF b] tot_selection [OF bn] ballI depth_child depth_child_from)

lemma tot_process_code_block_body:
  assumes b: "blocks_end (depth n) pb"
  shows "tot (process_code_block_body cx vals pb ba n)"
proof -
  have sub: "blocks_end (depth c) pb" if "depth c \<le> depth n" for c
    using b that by (auto simp: blocks_end_def)
  have "tot (gen_item pb ba c)" if "c \<in> set (getChildList n)" for c
    unfolding gen_item_def
    by (intro tot_if tot_gfail tot_gres_bind blocks_endD [OF b]) (use depth_child [OF that] in \<open>auto dest: depth_child_at\<close>)
  moreover have "tot (gbind (gres (child_at 1 n)) (gen_block_kind cx pb ba n))"
    by (intro tot_gres_bind tot_gen_block_kind b sub) (auto dest: depth_child_at)
  moreover have "tot (gen_block_kind cx pb ba n n)" by (intro tot_gen_block_kind b)
  ultimately show ?thesis
    unfolding process_code_block_body_def by (intro tot_gbind [OF tot_process_init] tot_if tot_gmap)
qed

lemma tot_process_code_block [tot_rules]: "tot (process_code_block cx vals ba n)"
proof -
  have "depth n < k \<Longrightarrow> tot (process_code_block_f cx vals k ba n)" for k
  proof (induction k arbitrary: ba n)
    case (Suc k)
    then show ?case unfolding process_code_block_f.simps
      by (intro tot_process_code_block_body) (auto simp: blocks_end_def)
  qed simp
  then show ?thesis unfolding process_code_block_def by blast
qed

section \<open>The program\<close>

lemma tot_gen_functions: "tot (gen_functions root addr vals k fs)"
proof (induction fs arbitrary: k)
  case (Cons f fs)
  have "tot (enter_parameter i)" for i unfolding enter_parameter_def Let_def by (intro tot_rules)
  then have "tot (process_func_entry f b)" for f b unfolding process_func_entry_def by (intro tot_rules)
  moreover have "tot (process_func_exit i)" for i unfolding process_func_exit_def by (intro tot_rules)
  moreover have "tot (mark_begin l k name)" for l k name unfolding mark_begin_def by (intro tot_rules)
  moreover have "tot (\<lambda>s. Some (Inr ((), s\<lparr>g_block := ids\<rparr>)))" for ids by (simp add: tot_def)
  ultimately have "tot (gen_function root addr vals k f)" for k unfolding gen_function_def by (intro tot_rules)
  then show ?case unfolding gen_functions.simps by (intro tot_rules Cons.IH)
qed (auto intro: tot_rules)

text \<open>
  C6: code generation ends for every tree, whether it is a program or not: \<open>gen\<close> returns a program or an error.
  The fuel given to expressions and conditions, to blocks and to unrolled loops never runs out.
\<close>

theorem gen_terminates: "gen root addr vals I L \<noteq> None"
proof -
  let ?fs = "filter (\<lambda>n. getID n = eTOKEN_function_definition2) (getChildList root)"
  have "tot (gbind (gen_functions root addr vals 0 ?fs) (\<lambda>blocks. gres (func_nodes ?fs blocks)))"
    by (intro tot_rules tot_gen_functions)
  then have "gbind (gen_functions root addr vals 0 ?fs) (\<lambda>blocks. gres (func_nodes ?fs blocks))
      \<lparr>g_code = [], g_lst = [], g_ids = I, g_block = []\<rparr> \<noteq> None"
    unfolding tot_def by blast
  then show ?thesis
    unfolding gen_def Let_def by (auto split: sum.split option.split)
qed


end
