(* ===== verification/GenSem.thy ===== *)
theory GenSem
  imports GenEnds
begin

text \<open>
  What the generated scalar code computes: integer expressions, conditions with short-circuit evaluation, and
  assignments, compared with the values of the expressions in the syntax tree.
\<close>

section \<open>Running generated code\<close>

text \<open>
  The scalar unit: the operation of every opcode, and the operands that are neither variables nor literals. A branch
  looks at the result of the operation of its instruction.
\<close>

record scalar =
  sc_op :: "int \<Rightarrow> int \<Rightarrow> int \<Rightarrow> int"
  sc_ext :: "cTerm \<Rightarrow> int"

type_synonym regs = "nat \<Rightarrow> int"

definition opnd :: "scalar \<Rightarrow> regs \<Rightarrow> cTerm \<Rightarrow> int" where
  "opnd M \<sigma> t = (case t of IMU_Integer i \<Rightarrow> \<sigma> i | IMU_Constant c \<Rightarrow> c | IMU_Zero \<Rightarrow> 0 | _ \<Rightarrow> sc_ext M t)"

definition opnd_opt :: "scalar \<Rightarrow> regs \<Rightarrow> cTerm option \<Rightarrow> int" where
  "opnd_opt M \<sigma> m = (case m of None \<Rightarrow> 0 | Some t \<Rightarrow> opnd M \<sigma> t)"

definition scalar_result :: "scalar \<Rightarrow> regs \<Rightarrow> cInstruction \<Rightarrow> int" where
  "scalar_result M \<sigma> ins =
     sc_op M (imu_oc (m_imu ins)) (opnd_opt M \<sigma> (imu_x1 (m_imu ins))) (opnd_opt M \<sigma> (imu_x2 (m_imu ins)))"

definition scalar_exec :: "scalar \<Rightarrow> cInstruction \<Rightarrow> regs \<Rightarrow> regs" where
  "scalar_exec M ins \<sigma> =
     (if imu_oc (m_imu ins) > 0
      then (case imu_y (m_imu ins) of Some (IMU_Integer i) \<Rightarrow> \<sigma>(i := scalar_result M \<sigma> ins) | _ \<Rightarrow> \<sigma>) else \<sigma>)"

definition scalar_jumps :: "scalar \<Rightarrow> cInstruction \<Rightarrow> regs \<Rightarrow> bool" where
  "scalar_jumps M ins \<sigma> \<longleftrightarrow>
     (let oc = ctl_oc (m_control ins) in oc = OPCODE_JUMP \<or> oc > 0 \<and> jump_taken oc (scalar_result M \<sigma> ins) = Inr True)"

text \<open>
  A run through a piece of code whose jumps lead forward or out of it. It falls out at the end or leaves with a
  jump, to an instruction or to the one after it.
\<close>

datatype outcome = Falls regs | Leaves "nat option" bool regs

definition behind :: "nat \<Rightarrow> bool \<Rightarrow> nat list \<Rightarrow> nat list" where
  "behind j after is = (let rest = dropWhile (\<lambda>k. k \<noteq> j) is in if after then tl rest else rest)"

lemma length_behind: "length (behind j after is) \<le> length is"
  using length_dropWhile_le [of "\<lambda>k. k \<noteq> j" "is"] by (auto simp: behind_def Let_def)

function fwd :: "scalar \<Rightarrow> cInstruction list \<Rightarrow> nat list \<Rightarrow> regs \<Rightarrow> outcome" where
  "fwd M code [] \<sigma> = Falls \<sigma>"
| "fwd M code (i # is) \<sigma> =
     (let ins = code ! i; \<sigma>' = scalar_exec M ins \<sigma>; after = ctl_jumpAfter (m_control ins) in
      if scalar_jumps M ins \<sigma>
      then (case ctl_jumpInstruction (m_control ins) of
          None \<Rightarrow> Leaves None after \<sigma>'
        | Some j \<Rightarrow> if j \<in> set is then fwd M code (behind j after is) \<sigma>' else Leaves (Some j) after \<sigma>')
      else fwd M code is \<sigma>')"
  by pat_completeness auto
termination
  by (relation "measure (\<lambda>(M, code, is, \<sigma>). length is)") (auto simp: less_Suc_eq_le length_behind)

definition resume :: "scalar \<Rightarrow> cInstruction list \<Rightarrow> nat list \<Rightarrow> outcome \<Rightarrow> outcome" where
  "resume M code ys r =
     (case r of
        Falls \<sigma> \<Rightarrow> fwd M code ys \<sigma>
      | Leaves m after \<sigma> \<Rightarrow>
          (case m of Some j \<Rightarrow> if j \<in> set ys then fwd M code (behind j after ys) \<sigma> else r | None \<Rightarrow> r))"

lemma behind_append:
  "j \<in> set xs \<Longrightarrow> behind j after (xs @ ys) = behind j after xs @ ys"
  "j \<notin> set xs \<Longrightarrow> behind j after (xs @ ys) = behind j after ys"
proof -
  assume j: "j \<in> set xs"
  then have "dropWhile (\<lambda>k. k \<noteq> j) xs \<noteq> []" by (auto simp: dropWhile_eq_Nil_conv)
  with j show "behind j after (xs @ ys) = behind j after xs @ ys"
    by (auto simp: behind_def Let_def dropWhile_append1 tl_append2)
next
  assume "j \<notin> set xs"
  then have "dropWhile (\<lambda>k. k \<noteq> j) (xs @ ys) = dropWhile (\<lambda>k. k \<noteq> j) ys" by (intro dropWhile_append2) auto
  then show "behind j after (xs @ ys) = behind j after ys"
    by (simp add: behind_def Let_def)
qed

lemma fwd_append: "fwd M code (xs @ ys) \<sigma> = resume M code ys (fwd M code xs \<sigma>)"
proof (induction M code xs \<sigma> rule: fwd.induct)
  case (2 M code i xs \<sigma>)
  define ins where "ins = code ! i"
  define \<tau> where "\<tau> = scalar_exec M ins \<sigma>"
  show ?case
  proof (cases "scalar_jumps M ins \<sigma>")
    case False
    then show ?thesis using 2(2) [OF ins_def \<tau>_def refl] by (simp add: ins_def [symmetric] \<tau>_def [symmetric] Let_def)
  next
    case True
    show ?thesis
    proof (cases "ctl_jumpInstruction (m_control ins)")
      case (Some j)
      then show ?thesis
        using True 2(1) [OF ins_def \<tau>_def refl True Some]
        by (cases "j \<in> set xs") (auto simp: ins_def [symmetric] \<tau>_def [symmetric] Let_def behind_append resume_def)
    qed (use True in \<open>simp add: ins_def [symmetric] Let_def resume_def\<close>)
  qed
qed (simp add: resume_def)

lemma set_behind: "set (behind j after is) \<subseteq> set is"
proof -
  have "set (tl xs) \<subseteq> set xs" for xs :: "nat list" by (cases xs) auto
  then show ?thesis by (auto simp: behind_def Let_def dest!: subsetD dest: set_dropWhileD)
qed

lemma fwd_cong: "\<forall>i\<in>set is. code ! i = code' ! i \<Longrightarrow> fwd M code is \<sigma> = fwd M code' is \<sigma>"
proof (induction M code "is" \<sigma> rule: fwd.induct)
  case (2 M code i "is" \<sigma>)
  have "fwd M code is \<tau> = fwd M code' is \<tau>" if "\<tau> = scalar_exec M (code ! i) \<sigma>" "\<not> scalar_jumps M (code ! i) \<sigma>" for \<tau>
    using 2(2) [OF refl that(1) refl that(2)] 2(3) by simp
  moreover have "fwd M code (behind j after is) \<tau> = fwd M code' (behind j after is) \<tau>"
    if "\<tau> = scalar_exec M (code ! i) \<sigma>" "scalar_jumps M (code ! i) \<sigma>" "ctl_jumpInstruction (m_control (code ! i)) = Some j"
      "j \<in> set is" "after = ctl_jumpAfter (m_control (code ! i))" for j after \<tau>
    using 2(1) [OF refl that(1,5,2,3,4)] 2(3) set_behind [of j after "is"] by (meson list.set_intros(2) subsetD)
  ultimately show ?case using 2(3) by (simp add: Let_def split: option.split)
qed simp

lemma resume_simps [simp]:
  "resume M code ys (Falls \<sigma>) = fwd M code ys \<sigma>"
  "j \<in> set ys \<Longrightarrow> resume M code ys (Leaves (Some j) after \<sigma>) = fwd M code (behind j after ys) \<sigma>"
  "j \<notin> set ys \<Longrightarrow> resume M code ys (Leaves (Some j) after \<sigma>) = Leaves (Some j) after \<sigma>"
  by (simp_all add: resume_def)

declare fwd.simps(2) [simp del]

lemma opnd_simps [simp]: "opnd M \<sigma> (IMU_Integer i) = \<sigma> i" "opnd M \<sigma> (IMU_Constant c) = c" "opnd M \<sigma> IMU_Zero = 0"
  by (simp_all add: opnd_def)

section \<open>The values in the source\<close>

text \<open>
  Integer expressions without side effects and conditions over them: literals, integer variables, operators (a
  node may have many operands and is read from the left), \<open>-x\<close>, \<open>c ? x : y\<close>; comparisons, \<open>&&\<close>, \<open>||\<close>,
  variables and literals as conditions, and \<open>!x\<close> of those. Right shifts are left out: their opcode depends
  on how the first operand was declared.
\<close>

definition op_code :: "eTOKEN \<Rightarrow> int" where
  "op_code t =
     (if t = eTOKEN_additive_expression_add then IOPCODE_ADD
      else if t = eTOKEN_additive_expression_sub then IOPCODE_SUB
      else if t = eTOKEN_multiplicative_expression_mul then IOPCODE_MUL
      else if t = eTOKEN_shift_expression_shl then IOPCODE_SHL
      else if t = eTOKEN_inclusive_or_expression then IOPCODE_OR
      else if t = eTOKEN_and_expression then IOPCODE_AND
      else IOPCODE_XOR)"

definition int_tokens :: "eTOKEN list" where
  "int_tokens =
     [eTOKEN_additive_expression_add, eTOKEN_additive_expression_sub, eTOKEN_multiplicative_expression_mul,
      eTOKEN_shift_expression_shl, eTOKEN_inclusive_or_expression, eTOKEN_and_expression, eTOKEN_exclusive_or_expression]"

definition compares :: "eTOKEN \<Rightarrow> int \<Rightarrow> int \<Rightarrow> bool" where
  "compares t a b =
     (if t = eTOKEN_equality_expression_eq then a = b
      else if t = eTOKEN_equality_expression_ne then a \<noteq> b
      else if t = eTOKEN_relational_expression_le then a \<le> b
      else if t = eTOKEN_relational_expression_lt then a < b
      else if t = eTOKEN_relational_expression_ge then a \<ge> b
      else a > b)"

definition var_value :: "regs \<Rightarrow> nat option \<Rightarrow> int" where
  "var_value \<sigma> m = (case m of Some i \<Rightarrow> \<sigma> i | None \<Rightarrow> 0)"

fun ival :: "scalar \<Rightarrow> regs \<Rightarrow> cAstNode \<Rightarrow> int" and cval :: "scalar \<Rightarrow> regs \<Rightarrow> cAstNode \<Rightarrow> bool" where
  "ival M \<sigma> (AstComposite t b cs) =
     (let vs = map (ival M \<sigma>) cs in
      if t = eTOKEN_conditional_expression then (if map (cval M \<sigma>) cs ! 0 then vs ! 1 else vs ! 2)
      else if t = eTOKEN_unary_expression then sc_op M IOPCODE_SUB 0 (vs ! 1)
      else if t = eTOKEN_expression then vs ! 0
      else foldl (sc_op M (op_code t)) (hd vs) (tl vs))"
| "ival M \<sigma> (AstInt t c u g) = c"
| "ival M \<sigma> (AstIdentifier t s m) = var_value \<sigma> m"
| "ival M \<sigma> _ = 0"
| "cval M \<sigma> (AstComposite t b cs) =
     (let vs = map (ival M \<sigma>) cs; bs = map (cval M \<sigma>) cs in
      if t = eTOKEN_logical_and_expression then list_all (\<lambda>v. v) bs
      else if t = eTOKEN_logical_or_expression then list_ex (\<lambda>v. v) bs
      else if t = eTOKEN_expression then bs ! 0
      else if t = eTOKEN_unary_expression then \<not> bs ! 1
      else compares t (vs ! 0) (vs ! 1))"
| "cval M \<sigma> (AstInt t c u g) = (c \<noteq> 0)"
| "cval M \<sigma> (AstIdentifier t s m) = (var_value \<sigma> m \<noteq> 0)"
| "cval M \<sigma> _ = False"

definition int_var :: "idents \<Rightarrow> nat option \<Rightarrow> bool" where
  "int_var I m = (case m of None \<Rightarrow> False
     | Some i \<Rightarrow> i < length I \<and> m_class (ident_at I i) = CInteger \<and> m_num_dim (ident_at I i) = 0)"

definition is_unary :: "string \<Rightarrow> cAstNode \<Rightarrow> bool" where
  "is_unary u n \<longleftrightarrow> n = AstString eTOKEN_unary_operator u"

definition simple_condition :: "idents \<Rightarrow> cAstNode \<Rightarrow> bool" where
  "simple_condition I n =
     (case n of
        AstInt t c u g \<Rightarrow> t = eTOKEN_I_CONSTANT
      | AstIdentifier t s m \<Rightarrow> t = eTOKEN_IDENTIFIER \<and> special_term s = None \<and> int_var I m \<and> m_name (ident_at I (the m)) \<noteq> []
      | _ \<Rightarrow> False)"

fun int_expr :: "idents \<Rightarrow> cAstNode \<Rightarrow> bool" and cond_expr :: "idents \<Rightarrow> cAstNode \<Rightarrow> bool" where
  "int_expr I (AstComposite t b cs) =
     (let es = map (int_expr I) cs in
      if t = eTOKEN_conditional_expression then length cs = 3 \<and> map (cond_expr I) cs ! 0 \<and> es ! 1 \<and> es ! 2
      else if t = eTOKEN_unary_expression then length cs = 2 \<and> is_unary ''-'' (cs ! 0) \<and> es ! 1
      else if t = eTOKEN_expression then length cs = 1 \<and> es ! 0
      else t \<in> set int_tokens \<and> 2 \<le> length cs \<and> list_all (\<lambda>v. v) es)"
| "int_expr I (AstInt t c u g) = (t = eTOKEN_I_CONSTANT)"
| "int_expr I (AstIdentifier t s m) = (t = eTOKEN_IDENTIFIER \<and> special_term s = None \<and> int_var I m)"
| "int_expr I _ = False"
| "cond_expr I (AstComposite t b cs) =
     (let es = map (int_expr I) cs; bs = map (cond_expr I) cs in
      if t = eTOKEN_logical_and_expression \<or> t = eTOKEN_logical_or_expression then cs \<noteq> [] \<and> list_all (\<lambda>v. v) bs
      else if t = eTOKEN_expression then length cs = 1 \<and> bs ! 0
      else if t = eTOKEN_unary_expression then length cs = 2 \<and> is_unary ''!'' (cs ! 0) \<and> simple_condition I (cs ! 1)
      else t \<in> set comparison_tokens \<and> length cs = 2 \<and> es ! 0 \<and> es ! 1)"
| "cond_expr I n = simple_condition I n"

text \<open>The values depend on the variables only that the function has.\<close>

lemma var_value_cong: "int_var I m \<Longrightarrow> \<forall>i<length I. \<sigma> i = \<tau> i \<Longrightarrow> var_value \<sigma> m = var_value \<tau> m"
  by (auto simp: int_var_def var_value_def split: option.splits)

lemma simple_value_cong:
  "simple_condition I n \<Longrightarrow> \<forall>i<length I. \<sigma> i = \<tau> i \<Longrightarrow> cval M \<sigma> n = cval M \<tau> n"
  using var_value_cong [of I _ \<sigma> \<tau>] by (auto simp: simple_condition_def split: cAstNode.splits)

lemma value_cong_both:
  assumes a: "\<forall>i<length I. \<sigma> i = \<tau> i"
  shows "(int_expr I n \<longrightarrow> ival M \<sigma> n = ival M \<tau> n) \<and> (cond_expr I n \<longrightarrow> cval M \<sigma> n = cval M \<tau> n)"
proof (induction n)
  case (AstComposite t b cs)
  have i: "ival M \<sigma> (cs ! k) = ival M \<tau> (cs ! k)" if "k < length cs" "int_expr I (cs ! k)" for k
    using AstComposite.IH that by simp
  have c: "cval M \<sigma> (cs ! k) = cval M \<tau> (cs ! k)" if "k < length cs" "cond_expr I (cs ! k)" for k
    using AstComposite.IH that by simp
  have im: "map (ival M \<sigma>) cs = map (ival M \<tau>) cs" if "list_all (\<lambda>v. v) (map (int_expr I) cs)"
    using AstComposite.IH that by (auto simp: list_all_iff)
  have cm: "map (cval M \<sigma>) cs = map (cval M \<tau>) cs" if "list_all (\<lambda>v. v) (map (cond_expr I) cs)"
    using AstComposite.IH that by (auto simp: list_all_iff)
  have "int_expr I (AstComposite t b cs) \<Longrightarrow> ival M \<sigma> (AstComposite t b cs) = ival M \<tau> (AstComposite t b cs)"
    using i c by (auto simp: Let_def dest!: im split: if_splits simp del: list.map map_eq_conv)
  moreover have "cval M \<sigma> (AstComposite t b cs) = cval M \<tau> (AstComposite t b cs)" if "cond_expr I (AstComposite t b cs)"
    using that i c simple_value_cong [OF _ a, of "cs ! 1" M]
    by (auto simp: Let_def dest!: cm split: if_splits simp del: list.map map_eq_conv)
  ultimately show ?case by blast
qed (use var_value_cong [OF _ a] simple_value_cong [OF _ a] in \<open>auto simp del: cval.simps\<close>)

lemma value_cong:
  "int_expr I n \<Longrightarrow> \<forall>i<length I. \<sigma> i = \<tau> i \<Longrightarrow> ival M \<sigma> n = ival M \<tau> n"
  "cond_expr I n \<Longrightarrow> \<forall>i<length I. \<sigma> i = \<tau> i \<Longrightarrow> cval M \<sigma> n = cval M \<tau> n"
  using value_cong_both by blast+

section \<open>How the state grows\<close>

definition grows :: "gstate \<Rightarrow> gstate \<Rightarrow> bool" where
  "grows s s' \<longleftrightarrow> prefix (g_code s) (g_code s') \<and> prefix (g_ids s) (g_ids s')"

definition adds :: "gstate \<Rightarrow> gstate \<Rightarrow> nat list \<Rightarrow> bool" where
  "adds s s' new \<longleftrightarrow> grows s s' \<and> g_lst s' = g_lst s @ new \<and> distinct new \<and> set new \<subseteq> {length (g_code s)..<length (g_code s')}"

lemma grows_refl [simp]: "grows s s"
  by (simp add: grows_def)

lemma grows_trans: "grows s s1 \<Longrightarrow> grows s1 s2 \<Longrightarrow> grows s s2"
  by (auto simp: grows_def intro: prefix_order.trans)

lemma grows_length: "grows s s' \<Longrightarrow> length (g_code s) \<le> length (g_code s') \<and> length (g_ids s) \<le> length (g_ids s')"
  by (auto simp: grows_def prefix_length_le)

lemma grows_code: "grows s s' \<Longrightarrow> i < length (g_code s) \<Longrightarrow> g_code s' ! i = g_code s ! i"
  by (auto simp: grows_def prefix_def nth_append)

lemma grows_ident: "grows s s' \<Longrightarrow> i < length (g_ids s) \<Longrightarrow> ident_at (g_ids s') i = ident_at (g_ids s) i"
  by (auto simp: grows_def prefix_def ident_at_def nth_append)

lemma adds_refl [simp]: "adds s s []"
  by (simp add: adds_def)

lemma adds_trans: "adds s s1 a \<Longrightarrow> adds s1 s2 b \<Longrightarrow> adds s s2 (a @ b)"
  using grows_length [of s s1] grows_length [of s1 s2] by (fastforce simp: adds_def intro: grows_trans)

lemma adds_grows: "adds s s' new \<Longrightarrow> grows s s'"
  by (simp add: adds_def)

lemma fwd_grows:
  assumes "adds s s1 new" and "grows s1 s2"
  shows "fwd M (g_code s2) new \<sigma> = fwd M (g_code s1) new \<sigma>"
  by (intro fwd_cong ballI grows_code [OF assms(2)]) (use assms(1) in \<open>auto simp: adds_def\<close>)

lemma int_var_grows: "grows s s' \<Longrightarrow> int_var (g_ids s) m \<Longrightarrow> int_var (g_ids s') m"
  by (auto simp: int_var_def grows_ident dest: grows_length split: option.splits)

lemma simple_grows:
  assumes "grows s s'" and "simple_condition (g_ids s) n"
  shows "simple_condition (g_ids s') n"
proof (cases n)
  case (AstIdentifier t v m)
  then obtain i where "m = Some i" "i < length (g_ids s)"
    using assms(2) by (auto simp: simple_condition_def int_var_def split: option.splits)
  then show ?thesis
    using AstIdentifier assms int_var_grows grows_ident by (auto simp: simple_condition_def)
qed (use assms(2) in \<open>auto simp: simple_condition_def\<close>)

lemma expr_grows_both:
  assumes g: "grows s s'"
  shows "(int_expr (g_ids s) n \<longrightarrow> int_expr (g_ids s') n) \<and> (cond_expr (g_ids s) n \<longrightarrow> cond_expr (g_ids s') n)"
proof (induction n)
  case (AstComposite t b cs)
  have i: "int_expr (g_ids s') (cs ! k)" if "k < length cs" "int_expr (g_ids s) (cs ! k)" for k
    using AstComposite.IH that by simp
  have c: "cond_expr (g_ids s') (cs ! k)" if "k < length cs" "cond_expr (g_ids s) (cs ! k)" for k
    using AstComposite.IH that by simp
  have "int_expr (g_ids s) (AstComposite t b cs) \<Longrightarrow> int_expr (g_ids s') (AstComposite t b cs)"
    using i c AstComposite.IH by (auto simp: Let_def list_all_iff split: if_splits)
  moreover have "cond_expr (g_ids s) (AstComposite t b cs) \<Longrightarrow> cond_expr (g_ids s') (AstComposite t b cs)"
    using i c AstComposite.IH simple_grows [OF g] by (auto simp: Let_def list_all_iff split: if_splits)
  ultimately show ?case by blast
qed (use simple_grows [OF g] int_var_grows [OF g] in auto)

lemma expr_grows:
  "grows s s' \<Longrightarrow> int_expr (g_ids s) n \<Longrightarrow> int_expr (g_ids s') n"
  "grows s s' \<Longrightarrow> cond_expr (g_ids s) n \<Longrightarrow> cond_expr (g_ids s') n"
  using expr_grows_both by blast+

section \<open>Single steps of the generator\<close>

definition plus_instr :: "cInstruction \<Rightarrow> gstate \<Rightarrow> gstate" where
  "plus_instr ins s = s\<lparr>g_code := g_code s @ [ins], g_lst := g_lst s @ [length (g_code s)]\<rparr>"

definition temp_var :: cIdentifier where
  "temp_var = (blank_cIdentifier CInteger)\<lparr>m_persistent := False, m_persistentIndex := -1, m_isUnsigned := False, m_useForMuIndex := False\<rparr>"

definition plus_temp :: "gstate \<Rightarrow> gstate" where
  "plus_temp s = s\<lparr>g_ids := g_ids s @ [temp_var], g_block := g_block s @ [length (g_ids s)]\<rparr>"

lemma gbind_run: "m s = Some (Inr (a, s1)) \<Longrightarrow> gbind m f s = f a s1"
  by (simp add: gbind_def)

lemma gret_run: "gret a s = Some (Inr (a, s))"
  by (simp add: gret_def)

lemma new_temp_var: "new_cIdentifierInteger True None False False (-1) = Inr temp_var"
  by code_simp

lemma temp_int_run: "temp_int s = Some (Inr (length (g_ids s), plus_temp s))"
  by (simp add: temp_int_def new_id_def new_temp_var plus_temp_def)

lemma emit_IMU_run:
  "\<not> is_MU x1 \<Longrightarrow> \<not> is_MU x2 \<Longrightarrow> \<not> is_MU y \<Longrightarrow>
   emit_IMU oc x1 x2 y s = Some (Inr ((), plus_instr (createIMU oc (Some x1) (Some x2) (Some y) new_cInstruction) s))"
  by (simp add: emit_IMU_def cast_IMU_def emit_def new_instr_def set_instr_def append_instr_def gbind_def gret_def plus_instr_def)

lemma emit_branch_run:
  "\<not> is_MU x1 \<Longrightarrow> \<not> is_MU x2 \<Longrightarrow>
   emit_branch oc x1 x2 y j after s = Some (Inr (length (g_code s),
     plus_instr (createConditionalJump oc IOPCODE_SUB (Some x1) (Some x2) y j after new_cInstruction) s))"
  by (simp add: emit_branch_def cast_IMU_def emit_def new_instr_def set_instr_def append_instr_def gbind_def gret_def plus_instr_def)

lemma plus_sel [simp]:
  "g_code (plus_instr ins s) = g_code s @ [ins]" "g_ids (plus_instr ins s) = g_ids s"
  "g_lst (plus_instr ins s) = g_lst s @ [length (g_code s)]"
  "g_code (plus_temp s) = g_code s" "g_ids (plus_temp s) = g_ids s @ [temp_var]" "g_lst (plus_temp s) = g_lst s"
  by (simp_all add: plus_instr_def plus_temp_def)

lemma adds_plus_instr: "adds s (plus_instr ins s) [length (g_code s)]"
  by (simp add: adds_def grows_def)

lemma adds_plus_temp: "adds s (plus_temp s) []"
  by (simp add: adds_def grows_def)

lemma fwd_plus_instr:
  assumes "\<not> scalar_jumps M ins \<sigma>"
  shows "fwd M (g_code (plus_instr ins s)) [length (g_code s)] \<sigma> = Falls (scalar_exec M ins \<sigma>)"
  using assms by (simp add: fwd.simps(2) Let_def)

lemma imu_exec:
  "0 < oc \<Longrightarrow> scalar_exec M (createIMU oc (Some x1) (Some x2) (Some (IMU_Integer i)) new_cInstruction) \<sigma>
     = \<sigma>(i := sc_op M oc (opnd M \<sigma> x1) (opnd M \<sigma> x2))"
  "\<not> scalar_jumps M (createIMU oc (Some x1) (Some x2) (Some y) new_cInstruction) \<sigma>"
  by (simp_all add: scalar_exec_def scalar_jumps_def scalar_result_def opnd_opt_def createIMU_def new_cInstruction_def)

text \<open>The result of an expression and what its code does; a condition branches or falls through.\<close>

definition operand_of :: "gstate \<Rightarrow> cTerm \<Rightarrow> bool" where
  "operand_of s t \<longleftrightarrow> (case t of IMU_Integer i \<Rightarrow> i < length (g_ids s) | IMU_Constant c \<Rightarrow> True | _ \<Rightarrow> False)"

definition keeps_old :: "gstate \<Rightarrow> regs \<Rightarrow> regs \<Rightarrow> bool" where
  "keeps_old s \<sigma> \<sigma>' \<longleftrightarrow> (\<forall>i<length (g_ids s). \<sigma>' i = \<sigma> i)"

definition value_code :: "scalar \<Rightarrow> gstate \<Rightarrow> gstate \<Rightarrow> nat list \<Rightarrow> cTerm \<Rightarrow> (regs \<Rightarrow> int) \<Rightarrow> bool" where
  "value_code M s s' new t f \<longleftrightarrow> adds s s' new \<and> operand_of s' t \<and>
     (\<forall>\<sigma>. \<exists>\<sigma>'. fwd M (g_code s') new \<sigma> = Falls \<sigma>' \<and> opnd M \<sigma>' t = f \<sigma> \<and> keeps_old s \<sigma> \<sigma>')"

definition branch_code :: "scalar \<Rightarrow> gstate \<Rightarrow> gstate \<Rightarrow> nat list \<Rightarrow> nat \<Rightarrow> bool \<Rightarrow> (regs \<Rightarrow> bool) \<Rightarrow> bool" where
  "branch_code M s s' new b after f \<longleftrightarrow> adds s s' new \<and>
     (\<forall>\<sigma>. \<exists>\<sigma>'. fwd M (g_code s') new \<sigma> = (if f \<sigma> then Leaves (Some b) after \<sigma>' else Falls \<sigma>') \<and> keeps_old s \<sigma> \<sigma>')"

lemma operand_not_MU: "operand_of s t \<Longrightarrow> \<not> is_MU t"
  by (cases t) (auto simp: operand_of_def)

lemma operand_grows: "operand_of s t \<Longrightarrow> grows s s' \<Longrightarrow> operand_of s' t"
  by (cases t) (auto simp: operand_of_def dest: grows_length)

lemma opnd_kept: "operand_of s t \<Longrightarrow> keeps_old s \<sigma> \<sigma>' \<Longrightarrow> opnd M \<sigma>' t = opnd M \<sigma> t"
  by (cases t) (auto simp: operand_of_def keeps_old_def opnd_def)

lemma keeps_old_refl [simp]: "keeps_old s \<sigma> \<sigma>"
  by (simp add: keeps_old_def)

lemma keeps_old_trans: "keeps_old s \<sigma> \<sigma>' \<Longrightarrow> keeps_old s' \<sigma>' \<tau> \<Longrightarrow> grows s s' \<Longrightarrow> keeps_old s \<sigma> \<tau>"
  using grows_length [of s s'] by (fastforce simp: keeps_old_def)

text \<open>Code for one value and then code for another one, whose value may use the first.\<close>

lemma value_code_seq:
  assumes a: "value_code M s s1 new1 t1 f" and b: "value_code M s1 s2 new2 t2 g"
    and h: "\<And>\<sigma> \<sigma>'. opnd M \<sigma>' t1 = f \<sigma> \<Longrightarrow> keeps_old s \<sigma> \<sigma>' \<Longrightarrow> g \<sigma>' = h \<sigma>"
  shows "value_code M s s2 (new1 @ new2) t2 h"
proof -
  have ad: "adds s s1 new1" "adds s1 s2 new2" and t2: "operand_of s2 t2"
    using a b by (simp_all add: value_code_def)
  have "\<exists>\<sigma>'. fwd M (g_code s2) (new1 @ new2) \<sigma> = Falls \<sigma>' \<and> opnd M \<sigma>' t2 = h \<sigma> \<and> keeps_old s \<sigma> \<sigma>'" for \<sigma>
  proof -
    obtain \<sigma>1 where 1: "fwd M (g_code s1) new1 \<sigma> = Falls \<sigma>1" "opnd M \<sigma>1 t1 = f \<sigma>" "keeps_old s \<sigma> \<sigma>1"
      using a unfolding value_code_def by blast
    obtain \<sigma>2 where 2: "fwd M (g_code s2) new2 \<sigma>1 = Falls \<sigma>2" "opnd M \<sigma>2 t2 = g \<sigma>1" "keeps_old s1 \<sigma>1 \<sigma>2"
      using b unfolding value_code_def by blast
    have "fwd M (g_code s2) (new1 @ new2) \<sigma> = Falls \<sigma>2"
      by (simp add: fwd_append fwd_grows [OF ad(1) adds_grows [OF ad(2)]] 1(1) 2(1))
    then show ?thesis using 1 2 h keeps_old_trans [OF 1(3) 2(3) adds_grows [OF ad(1)]] by auto
  qed
  then show ?thesis using adds_trans [OF ad] t2 by (simp add: value_code_def)
qed

section \<open>Expressions\<close>

text \<open>What the theorems need to know of the scalar unit: adding nothing, and the sign of a difference.\<close>

definition scalar_unit :: "scalar \<Rightarrow> bool" where
  "scalar_unit M \<longleftrightarrow>
     (\<forall>v. sc_op M IOPCODE_ADD v 0 = v \<and> sc_op M IOPCODE_ADD 0 v = v) \<and>
     (\<forall>a b. sgn (sc_op M IOPCODE_SUB a b) = sgn (a - b))"

definition good_term :: "scalar \<Rightarrow> gen_term \<Rightarrow> cAstNode \<Rightarrow> bool" where
  "good_term M gt n \<longleftrightarrow> (\<forall>s. int_expr (g_ids s) n \<longrightarrow>
     (\<exists>t s' new. gt (Some n) False False False None s = Some (Inr ((Some t, False), s')) \<and>
        value_code M s s' new t (\<lambda>\<sigma>. ival M \<sigma> n)))"

definition good_cond :: "scalar \<Rightarrow> gen_stmt \<Rightarrow> cAstNode \<Rightarrow> bool" where
  "good_cond M gs n \<longleftrightarrow> (\<forall>s a b. cond_expr (g_ids s) n \<longrightarrow> sa_logic a \<longrightarrow> sa_br a = Some b \<longrightarrow> b < length (g_code s) \<longrightarrow>
     (\<exists>s' new. gs a n s = Some (Inr ((), s')) \<and>
        branch_code M s s' new b (sa_brAfter a) (\<lambda>\<sigma>. cval M \<sigma> n \<noteq> sa_reverse a)))"

lemma good_termE:
  assumes "good_term M gt n" and "int_expr (g_ids s) n"
  obtains t s' new where "gt (Some n) False False False None s = Some (Inr ((Some t, False), s'))"
    "value_code M s s' new t (\<lambda>\<sigma>. ival M \<sigma> n)"
  using assms unfolding good_term_def by blast

lemma good_condE:
  assumes "good_cond M gs n" and "cond_expr (g_ids s) n" "sa_logic a" "sa_br a = Some b" "b < length (g_code s)"
  obtains s' new where "gs a n s = Some (Inr ((), s'))"
    "branch_code M s s' new b (sa_brAfter a) (\<lambda>\<sigma>. cval M \<sigma> n \<noteq> sa_reverse a)"
  using assms unfolding good_cond_def by blast

lemma need_run: "m s = Some (Inr ((Some t, b), s')) \<Longrightarrow> need e m s = Some (Inr (t, s'))"
  by (simp add: need_def gbind_def gret_def)

lemma value_codeD:
  assumes "value_code M s s' new t f"
  shows "adds s s' new" "operand_of s' t" "grows s s'"
  using assms adds_grows unfolding value_code_def by blast+

lemma value_same_state: "value_code M s s [] t f \<longleftrightarrow> operand_of s t \<and> (\<forall>\<sigma>. opnd M \<sigma> t = f \<sigma>)"
  by (auto simp: value_code_def intro: keeps_old_refl)

text \<open>An operation on two operands that are there: a new variable gets the result.\<close>

lemma calc_IMU_code:
  assumes x: "operand_of s x1" "operand_of s x2" and t: "t \<in> set int_tokens"
  shows "\<exists>s'. calc_IMU t x1 x2 s = Some (Inr (IMU_Integer (length (g_ids s)), s')) \<and>
    value_code M s s' [length (g_code s)] (IMU_Integer (length (g_ids s)))
      (\<lambda>\<sigma>. sc_op M (op_code t) (opnd M \<sigma> x1) (opnd M \<sigma> x2))"
proof -
  let ?i = "length (g_ids s)"
  let ?ins = "createIMU (op_code t) (Some x1) (Some x2) (Some (IMU_Integer ?i)) new_cInstruction"
  let ?s = "plus_instr ?ins (plus_temp s)"
  have n: "\<not> is_MU x1" "\<not> is_MU x2" using x operand_not_MU by blast+
  have oc: "imu_operator (g_ids s) t x1 = Inr (op_code t)" "0 < op_code t"
    using t by (auto simp: int_tokens_def imu_operator_def op_code_def)
  have "calc_IMU t x1 x2 s = Some (Inr (IMU_Integer ?i, ?s))"
    using n by (simp add: calc_IMU_def oc gbind_def gget_def temp_int_run emit_IMU_run gret_run)
  moreover have "adds s ?s [length (g_code s)]"
    using adds_trans [OF adds_plus_temp adds_plus_instr [of "plus_temp s" ?ins]] by simp
  moreover have "fwd M (g_code ?s) [length (g_code s)] \<sigma> = Falls (\<sigma>(?i := sc_op M (op_code t) (opnd M \<sigma> x1) (opnd M \<sigma> x2)))" for \<sigma>
  proof -
    have "fwd M (g_code ?s) [length (g_code (plus_temp s))] \<sigma> = Falls (scalar_exec M ?ins \<sigma>)"
      by (rule fwd_plus_instr [OF imu_exec(2)])
    then show ?thesis by (simp only: plus_sel(4) imu_exec(1) [OF oc(2)])
  qed
  ultimately show ?thesis
    by (auto simp: value_code_def operand_of_def keeps_old_def)
qed

lemma int_tokens_calc: "t \<in> set int_tokens \<Longrightarrow> t \<in> set calculation_tokens"
  by (auto simp: int_tokens_def calculation_tokens_def)

text \<open>The loop over the operands behind the first one.\<close>

lemma calc_loop_code:
  assumes "\<forall>n\<in>set ns. good_term M gt n" and "\<forall>n\<in>set ns. int_expr (g_ids s) n" and "operand_of s x" and t: "t \<in> set int_tokens"
  shows "\<exists>z s' new. calc_loop gt t False False (Some x) (m # ns) s = Some (Inr (Some z, s')) \<and>
    value_code M s s' new z (\<lambda>\<sigma>. foldl (sc_op M (op_code t)) (opnd M \<sigma> x) (map (ival M \<sigma>) ns))"
  using assms(1-3)
proof (induction ns arbitrary: m x s)
  case Nil
  then show ?case by (intro exI [of _ x] exI [of _ s] exI [of _ "[]"]) (simp add: gret_run value_same_state)
next
  case (Cons n ns)
  obtain t2 s1 new1 where g: "gt (Some n) False False False None s = Some (Inr ((Some t2, False), s1))"
    and v1: "value_code M s s1 new1 t2 (\<lambda>\<sigma>. ival M \<sigma> n)"
    using good_termE [of M gt n s] Cons.prems by auto
  have gr: "grows s s1" using value_codeD(3) [OF v1] .
  have ops: "operand_of s1 x" "operand_of s1 t2"
    using operand_grows [OF Cons.prems(3) gr] value_codeD(2) [OF v1] by simp_all
  obtain s2 where c: "calc_IMU t x t2 s1 = Some (Inr (IMU_Integer (length (g_ids s1)), s2))"
    and v2: "value_code M s1 s2 [length (g_code s1)] (IMU_Integer (length (g_ids s1)))
      (\<lambda>\<sigma>. sc_op M (op_code t) (opnd M \<sigma> x) (opnd M \<sigma> t2))"
    using calc_IMU_code [OF ops t] by blast
  let ?y = "IMU_Integer (length (g_ids s1))"
  have v12: "value_code M s s2 (new1 @ [length (g_code s1)]) ?y
      (\<lambda>\<sigma>. sc_op M (op_code t) (opnd M \<sigma> x) (ival M \<sigma> n))"
    by (rule value_code_seq [OF v1 v2]) (use opnd_kept [OF Cons.prems(3)] in simp)
  have g2: "grows s s2" and y: "operand_of s2 ?y" using value_codeD [OF v12] by simp_all
  obtain z s3 new3 where l: "calc_loop gt t False False (Some ?y) (n # ns) s2 = Some (Inr (Some z, s3))"
    and v3: "value_code M s2 s3 new3 z (\<lambda>\<sigma>. foldl (sc_op M (op_code t)) (opnd M \<sigma> ?y) (map (ival M \<sigma>) ns))"
    using Cons.IH [of s2 ?y n] Cons.prems expr_grows(1) [OF g2] y by auto
  have "value_code M s s3 ((new1 @ [length (g_code s1)]) @ new3) z
      (\<lambda>\<sigma>. foldl (sc_op M (op_code t)) (opnd M \<sigma> x) (map (ival M \<sigma>) (n # ns)))"
  proof (rule value_code_seq [OF v12 v3])
    fix \<sigma> \<sigma>' assume "opnd M \<sigma>' ?y = sc_op M (op_code t) (opnd M \<sigma> x) (ival M \<sigma> n)" and k: "keeps_old s \<sigma> \<sigma>'"
    moreover have "map (ival M \<sigma>') ns = map (ival M \<sigma>) ns"
      using Cons.prems(2) k value_cong(1) [of "g_ids s" _ \<sigma>' \<sigma> M] by (simp add: keeps_old_def)
    ultimately show "foldl (sc_op M (op_code t)) (opnd M \<sigma>' ?y) (map (ival M \<sigma>') ns) =
        foldl (sc_op M (op_code t)) (opnd M \<sigma> x) (map (ival M \<sigma>) (n # ns))"
      by (simp del: map_eq_conv)
  qed
  moreover have "calc_loop gt t False False (Some x) (m # n # ns) s = Some (Inr (Some z, s3))"
    using l by (simp add: gbind_def need_def gret_def g c)
  ultimately show ?case by blast
qed

lemma calculation_code:
  assumes "\<forall>n\<in>set cs. good_term M gt n" and "\<forall>n\<in>set cs. int_expr (g_ids s) n" and t: "t \<in> set int_tokens" and "2 \<le> length cs"
  shows "\<exists>z s' new. genTermCalculation gt (AstComposite t b cs) False False s = Some (Inr ((Some z, False), s')) \<and>
    value_code M s s' new z (\<lambda>\<sigma>. foldl (sc_op M (op_code t)) (hd (map (ival M \<sigma>) cs)) (tl (map (ival M \<sigma>) cs)))"
proof -
  obtain n m ns where cs: "cs = n # m # ns" using assms(4) by (cases cs; cases "tl cs") auto
  obtain x s1 new1 where g: "gt (Some n) False False False None s = Some (Inr ((Some x, False), s1))"
    and v1: "value_code M s s1 new1 x (\<lambda>\<sigma>. ival M \<sigma> n)"
    using good_termE [of M gt n s] assms(1,2) cs by auto
  have gr: "grows s s1" and x: "operand_of s1 x" using value_codeD [OF v1] by simp_all
  obtain z s2 new2 where l: "calc_loop gt t False False (Some x) (n # m # ns) s1 = Some (Inr (Some z, s2))"
    and v2: "value_code M s1 s2 new2 z (\<lambda>\<sigma>. foldl (sc_op M (op_code t)) (opnd M \<sigma> x) (map (ival M \<sigma>) (m # ns)))"
    using calc_loop_code [of "m # ns" M gt s1 x t n] assms(1,2) expr_grows(1) [OF gr] x t cs by auto
  have "value_code M s s2 (new1 @ new2) z (\<lambda>\<sigma>. foldl (sc_op M (op_code t)) (hd (map (ival M \<sigma>) cs)) (tl (map (ival M \<sigma>) cs)))"
  proof (rule value_code_seq [OF v1 v2])
    fix \<sigma> \<sigma>' assume "opnd M \<sigma>' x = ival M \<sigma> n" and k: "keeps_old s \<sigma> \<sigma>'"
    moreover have "map (ival M \<sigma>') (m # ns) = map (ival M \<sigma>) (m # ns)"
      using assms(2) cs k value_cong(1) [of "g_ids s" _ \<sigma>' \<sigma> M] by (simp add: keeps_old_def)
    ultimately show "foldl (sc_op M (op_code t)) (opnd M \<sigma>' x) (map (ival M \<sigma>') (m # ns)) =
        foldl (sc_op M (op_code t)) (hd (map (ival M \<sigma>) cs)) (tl (map (ival M \<sigma>) cs))"
      unfolding cs by (simp only: list.map list.sel)
  qed
  moreover have "calc_loop gt t False False None (n # m # ns) s = Some (Inr (Some z, s2))"
    using l by (simp add: gbind_def need_def gret_def g)
  ultimately show ?thesis
    unfolding genTermCalculation_def getID.simps getChildList.simps cs by (auto simp: gbind_def gret_run)
qed


lemmas run_simps = gbind_def gret_def gget_def need_def found_def temp_int_run emit_IMU_run emit_branch_run

definition leaf_term :: "cAstNode \<Rightarrow> cTerm" where
  "leaf_term n = (case n of AstInt t c u g \<Rightarrow> IMU_Constant c | AstIdentifier t v m \<Rightarrow> IMU_Integer (the m) | _ \<Rightarrow> IMU_Null)"

lemma leaf_code:
  assumes "int_expr (g_ids s) n" and "getChildList n = []"
  shows "genTerm_body cx gt gs (Some n) False False False y s = Some (Inr ((Some (leaf_term n), False), s))" (is ?run)
    and "value_code M s s [] (leaf_term n) (\<lambda>\<sigma>. ival M \<sigma> n)" (is ?val)
proof -
  have "?run \<and> ?val"
  proof (cases n)
    case (AstInt t c u g)
    then show ?thesis
      using assms by (auto simp: leaf_term_def genTerm_body_def genTerm_node_def Let_def calculation_tokens_def run_simps value_same_state
          operand_of_def)
  next
    case (AstIdentifier t v m)
    then obtain i where i: "t = eTOKEN_IDENTIFIER" "special_term v = None" "m = Some i" "i < length (g_ids s)"
      "m_class (ident_at (g_ids s) i) = CInteger" "m_num_dim (ident_at (g_ids s) i) = 0"
      using assms(1) by (auto simp: int_var_def split: option.splits)
    have k: "isKindOf (ident_at (g_ids s) i) c = (c \<in> {CInteger, CFixed, CIdentifier})"
      if "c \<in> {CInteger, CShared, CPrivate, CExReg}" for c
      using that by (auto simp: isKindOf_def i(5) cls_isKindOf.simps)
    have "genTermIdentifier n False False y s = Some (Inr ((Some (IMU_Integer i), False), s))"
      using i k by (simp add: genTermIdentifier_def AstIdentifier run_simps Let_def)
    then show ?thesis
      using i by (auto simp: AstIdentifier leaf_term_def genTerm_body_def genTerm_node_def Let_def calculation_tokens_def
          value_same_state operand_of_def var_value_def)
  next
    case (AstComposite t b cs)
    then have False using assms by (auto simp: Let_def split: if_splits)
    then show ?thesis ..
  qed (use assms in auto)
  then show ?run ?val by blast+
qed

text \<open>The instruction that puts an operand into a variable, behind code that computes the operand.\<close>

definition sets_code :: "scalar \<Rightarrow> gstate \<Rightarrow> gstate \<Rightarrow> nat list \<Rightarrow> nat \<Rightarrow> (regs \<Rightarrow> int) \<Rightarrow> bool" where
  "sets_code M s s' new z f \<longleftrightarrow> adds s s' new \<and> new \<noteq> [] \<and>
     (\<forall>\<sigma>. \<exists>\<sigma>'. fwd M (g_code s') new \<sigma> = Falls \<sigma>' \<and> \<sigma>' z = f \<sigma> \<and> (\<forall>i<length (g_ids s). i \<noteq> z \<longrightarrow> \<sigma>' i = \<sigma> i))"

lemma assign_instr_code:
  fixes z :: nat and oc :: int and x1 x2 :: cTerm
  assumes v: "value_code M s s1 new t f" and oc: "0 < oc"
    and g: "\<And>\<sigma> \<sigma>1. opnd M \<sigma>1 t = f \<sigma> \<Longrightarrow> keeps_old s \<sigma> \<sigma>1 \<Longrightarrow> sc_op M oc (opnd M \<sigma>1 x1) (opnd M \<sigma>1 x2) = h \<sigma>"
  defines "s2 \<equiv> plus_instr (createIMU oc (Some x1) (Some x2) (Some (IMU_Integer z)) new_cInstruction) s1"
  shows "sets_code M s s2 (new @ [length (g_code s1)]) z h"
proof -
  let ?ins = "createIMU oc (Some x1) (Some x2) (Some (IMU_Integer z)) new_cInstruction"
  have ad: "adds s s1 new" "adds s1 s2 [length (g_code s1)]"
    using value_codeD(1) [OF v] by (simp_all add: s2_def adds_plus_instr)
  have "\<exists>\<sigma>'. fwd M (g_code s2) (new @ [length (g_code s1)]) \<sigma> = Falls \<sigma>' \<and> \<sigma>' z = h \<sigma> \<and>
      (\<forall>i<length (g_ids s). i \<noteq> z \<longrightarrow> \<sigma>' i = \<sigma> i)" for \<sigma>
  proof -
    obtain \<sigma>1 where 1: "fwd M (g_code s1) new \<sigma> = Falls \<sigma>1" "opnd M \<sigma>1 t = f \<sigma>" "keeps_old s \<sigma> \<sigma>1"
      using v unfolding value_code_def by blast
    have "fwd M (g_code s2) [length (g_code s1)] \<sigma>1 = Falls (scalar_exec M ?ins \<sigma>1)"
      unfolding s2_def by (rule fwd_plus_instr [OF imu_exec(2)])
    then have "fwd M (g_code s2) (new @ [length (g_code s1)]) \<sigma> = Falls (\<sigma>1(z := h \<sigma>))"
      by (simp add: fwd_append fwd_grows [OF ad(1) adds_grows [OF ad(2)]] 1 imu_exec(1) [OF oc] g)
    then show ?thesis using 1(3) by (auto simp: keeps_old_def)
  qed
  then show ?thesis using adds_trans [OF ad] by (simp add: sets_code_def)
qed

lemma set_instr_code:
  fixes z :: nat and oc :: int and x1 x2 :: cTerm
  assumes "value_code M s s1 new t f" and "0 < oc" and "\<And>\<sigma>. sc_op M oc (opnd M \<sigma> x1) (opnd M \<sigma> x2) = h (opnd M \<sigma> t)"
  shows "sets_code M s (plus_instr (createIMU oc (Some x1) (Some x2) (Some (IMU_Integer z)) new_cInstruction) s1)
    (new @ [length (g_code s1)]) z (\<lambda>\<sigma>. h (f \<sigma>))"
  by (rule assign_instr_code [OF assms(1,2)]) (simp add: assms(3))

text \<open>An operation on the variable that was just set.\<close>

lemma sets_code_then:
  assumes a: "sets_code M s s1 new z f" and oc: "0 < oc"
  shows "sets_code M s (plus_instr (createIMU oc (Some (IMU_Integer z)) (Some (IMU_Integer z)) (Some (IMU_Integer z)) new_cInstruction) s1)
    (new @ [length (g_code s1)]) z (\<lambda>\<sigma>. sc_op M oc (f \<sigma>) (f \<sigma>))" (is "sets_code M s ?s2 _ z _")
proof -
  have ad: "adds s s1 new" "adds s1 ?s2 [length (g_code s1)]"
    using a by (simp_all add: sets_code_def adds_plus_instr)
  have "\<exists>\<sigma>'. fwd M (g_code ?s2) (new @ [length (g_code s1)]) \<sigma> = Falls \<sigma>' \<and> \<sigma>' z = sc_op M oc (f \<sigma>) (f \<sigma>) \<and>
      (\<forall>i<length (g_ids s). i \<noteq> z \<longrightarrow> \<sigma>' i = \<sigma> i)" for \<sigma>
  proof -
    obtain \<sigma>1 where 1: "fwd M (g_code s1) new \<sigma> = Falls \<sigma>1" "\<sigma>1 z = f \<sigma>" "\<forall>i<length (g_ids s). i \<noteq> z \<longrightarrow> \<sigma>1 i = \<sigma> i"
      using a unfolding sets_code_def by blast
    have "fwd M (g_code ?s2) [length (g_code s1)] \<sigma>1 = Falls (\<sigma>1(z := sc_op M oc (f \<sigma>) (f \<sigma>)))"
      using fwd_plus_instr [OF imu_exec(2)] imu_exec(1) [OF oc] 1(2) by simp
    then have "fwd M (g_code ?s2) (new @ [length (g_code s1)]) \<sigma> = Falls (\<sigma>1(z := sc_op M oc (f \<sigma>) (f \<sigma>)))"
      by (simp only: fwd_append fwd_grows [OF ad(1) adds_grows [OF ad(2)]] 1(1) resume_simps)
    then show ?thesis using 1(3) by auto
  qed
  then show ?thesis using adds_trans [OF ad] by (simp add: sets_code_def)
qed

lemma sets_new_var:
  assumes "sets_code M s s' new z f" and "length (g_ids s) \<le> z" and "z < length (g_ids s')"
  shows "value_code M s s' new (IMU_Integer z) f"
  using assms by (auto simp: sets_code_def value_code_def operand_of_def keeps_old_def)

lemma adds_from_temp: "adds (plus_temp s) s' new \<Longrightarrow> adds s s' new"
  using adds_trans [OF adds_plus_temp] by fastforce

lemma value_from_temp: "value_code M (plus_temp s) s' new t f \<Longrightarrow> value_code M s s' new t f"
  unfolding value_code_def using adds_from_temp by (fastforce simp: keeps_old_def)

lemma minus_code:
  assumes good: "good_term M gt n" and i: "int_expr (g_ids s) n"
  shows "\<exists>t s' new. genTermPreIncrementDecrement gt (AstComposite eTOKEN_unary_expression b [AstString eTOKEN_unary_operator ''-'', n]) False False s
      = Some (Inr ((Some t, False), s')) \<and> value_code M s s' new t (\<lambda>\<sigma>. sc_op M IOPCODE_SUB 0 (ival M \<sigma> n))"
proof -
  let ?z = "length (g_ids s)"
  have "int_expr (g_ids (plus_temp s)) n" using expr_grows(1) [OF adds_grows [OF adds_plus_temp] i] .
  then obtain x s1 new where g: "gt (Some n) False False False None (plus_temp s) = Some (Inr ((Some x, False), s1))"
    and v: "value_code M (plus_temp s) s1 new x (\<lambda>\<sigma>. ival M \<sigma> n)"
    using good_termE [OF good] by metis
  let ?s = "plus_instr (createIMU IOPCODE_SUB (Some IMU_Zero) (Some x) (Some (IMU_Integer ?z)) new_cInstruction) s1"
  have nm: "\<not> is_MU x" using value_codeD(2) [OF v] operand_not_MU by blast
  have "sets_code M s ?s (new @ [length (g_code s1)]) ?z (\<lambda>\<sigma>. sc_op M IOPCODE_SUB 0 (ival M \<sigma> n))"
    using set_instr_code [OF value_from_temp [OF v], of IOPCODE_SUB IMU_Zero x "sc_op M IOPCODE_SUB 0"] by simp
  moreover have "?z < length (g_ids ?s)" using grows_length [OF value_codeD(3) [OF v]] by simp
  ultimately have "value_code M s ?s (new @ [length (g_code s1)]) (IMU_Integer ?z) (\<lambda>\<sigma>. sc_op M IOPCODE_SUB 0 (ival M \<sigma> n))"
    using sets_new_var by blast
  then show ?thesis
    using nm by (auto simp: genTermPreIncrementDecrement_def run_simps g)
qed


lemma value_plus_temp: "value_code M s s' new t f \<Longrightarrow> value_code M s (plus_temp s') new t f"
  using adds_trans [OF _ adds_plus_temp] operand_grows [OF _ adds_grows [OF adds_plus_temp]]
  unfolding value_code_def by fastforce

lemma behind_False: "j \<notin> set xs \<Longrightarrow> behind j False (xs @ j # ys) = j # ys"
  and behind_True: "j \<notin> set xs \<Longrightarrow> behind j True (xs @ j # ys) = ys"
  by (simp_all add: behind_append) (simp_all add: behind_def)

text \<open>
  The order of the code of \<open>c ? x : y\<close>: the condition, which leaves to behind the jump; one value and the jump to the
  end; the other value; the end.
\<close>

lemma choice_runs:
  assumes c: "fwd M C new1 \<sigma> = (if f \<sigma> then Leaves (Some j) True \<sigma>1 else Falls \<sigma>1)"
    and x: "fwd M C new2 \<sigma>1 = Falls \<sigma>2" and y: "fwd M C new3 \<sigma>1 = Falls \<sigma>3"
    and J: "C ! j = createUnconditionalJump OPCODE_JUMP (Some e) False new_cInstruction" and E: "C ! e = new_cInstruction"
    and out: "j \<notin> set new2" "e \<notin> set new3"
  shows "fwd M C (new1 @ new2 @ [j] @ new3 @ [e]) \<sigma> = Falls (if f \<sigma> then \<sigma>3 else \<sigma>2)"
proof -
  have e: "fwd M C [e] \<tau> = Falls \<tau>" for \<tau>
    by (simp add: fwd.simps(2) E scalar_jumps_def scalar_exec_def new_cInstruction_def)
  have j: "fwd M C ([j] @ new3 @ [e]) \<tau> = Falls \<tau>" for \<tau>
  proof -
    have "scalar_jumps M (C ! j) \<tau>" "scalar_exec M (C ! j) \<tau> = \<tau>"
      by (simp_all add: J scalar_jumps_def scalar_exec_def createUnconditionalJump_def new_cInstruction_def)
    then show ?thesis using e behind_False [OF out(2), of "[]"]
      by (simp add: fwd.simps(2) Let_def J createUnconditionalJump_def)
  qed
  show ?thesis
  proof (cases "f \<sigma>")
    case True
    have "behind j True (new2 @ [j] @ new3 @ [e]) = new3 @ [e]"
      using behind_True [OF out(1), of "new3 @ [e]"] by simp
    then show ?thesis using True c y e by (simp add: fwd_append del: append.simps append_assoc)
  next
    case False
    then show ?thesis using c x j by (simp add: fwd_append)
  qed
qed


end
