(* ===== verification/GenCode.thy ===== *)
theory GenCode
  imports GenSem
begin

text \<open>
  Correctness of the code for conditional expressions and conditions, and of the generator for expressions,
  conditions and assignments as a whole.
\<close>

section \<open>Conditional expressions\<close>

definition set_lst :: "nat list \<Rightarrow> gstate \<Rightarrow> gstate" where
  "set_lst is s = s\<lparr>g_lst := g_lst s @ is\<rparr>"

definition set_code :: "nat \<Rightarrow> cInstruction \<Rightarrow> gstate \<Rightarrow> gstate" where
  "set_code i ins s = s\<lparr>g_code := (g_code s)[i := ins]\<rparr>"

definition two_more :: "gstate \<Rightarrow> gstate" where
  "two_more s = s\<lparr>g_code := g_code s @ [new_cInstruction, new_cInstruction]\<rparr>"

lemma state_sel [simp]:
  "g_code (set_lst is s) = g_code s" "g_ids (set_lst is s) = g_ids s" "g_lst (set_lst is s) = g_lst s @ is"
  "g_code (set_code i ins s) = (g_code s)[i := ins]" "g_ids (set_code i ins s) = g_ids s" "g_lst (set_code i ins s) = g_lst s"
  "g_code (two_more s) = g_code s @ [new_cInstruction, new_cInstruction]" "g_ids (two_more s) = g_ids s" "g_lst (two_more s) = g_lst s"
  by (simp_all add: set_lst_def set_code_def two_more_def)

lemma append_run: "append_instr i s = Some (Inr ((), set_lst [i] s))"
  by (simp add: append_instr_def set_lst_def)

lemma set_instr_run: "set_instr i (\<lambda>ins. Inr (f ins)) s = Some (Inr ((), set_code i (f (g_code s ! i)) s))"
  by (simp add: set_instr_def set_code_def)

lemma new_instr_run: "new_instr s = Some (Inr (length (g_code s), s\<lparr>g_code := g_code s @ [new_cInstruction]\<rparr>))"
  by (simp add: new_instr_def)

definition choice_target :: "cTerm option \<Rightarrow> gstate \<Rightarrow> nat \<times> gstate" where
  "choice_target y s = (case y of Some (IMU_Integer z) \<Rightarrow> (z, s) | _ \<Rightarrow> (length (g_ids s), plus_temp s))"

lemma conditional_run:
  fixes s :: gstate and y :: "cTerm option"
  defines "e \<equiv> length (g_code s)"
  assumes c: "gs \<lparr>sa_reverse = True, sa_hasExit = False, sa_exit = None, sa_br = Some (Suc e),
                  sa_brAfter = True, sa_blockExit = None, sa_blockCont = None, sa_logic = True\<rparr> c (two_more s) = Some (Inr ((), s2))"
    and a: "gt (Some a) False False False None s2 = Some (Inr ((Some x1, b1), s3))" and n1: "\<not> is_MU x1"
    and y: "y = None \<or> y = Some (IMU_Integer w)" and z: "choice_target y s3 = (z, s4)"
    and s7: "s7 = set_lst [Suc e] (set_code (Suc e) (createUnconditionalJump OPCODE_JUMP (Some e) False (g_code s5 ! Suc e)) s5)"
    and s5: "s5 = plus_instr (createIMU IOPCODE_ADD (Some x1) (Some IMU_Zero) (Some (IMU_Integer z)) new_cInstruction) s4"
    and d: "gt (Some d) False False False None s7 = Some (Inr ((Some x2, b2), s8))" and n2: "\<not> is_MU x2"
  shows "genTermConditionalExpression gt gs (AstComposite t b [c, a, d]) False y s =
    Some (Inr ((Some (IMU_Integer z), y \<noteq> None),
      set_lst [e] (plus_instr (createIMU IOPCODE_ADD (Some x2) (Some IMU_Zero) (Some (IMU_Integer z)) new_cInstruction) s8)))"
proof -
  have two: "s\<lparr>g_code := (g_code s @ [new_cInstruction]) @ [new_cInstruction]\<rparr> = two_more s"
    by (simp add: two_more_def)
  have zz: "(z, s4) = (case y of None \<Rightarrow> (length (g_ids s3), plus_temp s3) | Some _ \<Rightarrow> (w, s3))"
    using y z by (auto simp: choice_target_def)
  show ?thesis
    using c a d n1 n2 y zz two
    by (auto simp: genTermConditionalExpression_def run_simps new_instr_run assign_term_def append_run set_instr_run
        e_def [symmetric] s5 s7 emit_IMU_run)
qed

lemma value_grows: "value_code M s s' new t f \<Longrightarrow> int_expr (g_ids s) n \<Longrightarrow> int_expr (g_ids s') n"
  using expr_grows(1) value_codeD(3) by blast

lemma conditional_code:
  assumes gc: "good_cond M gs c" and ga: "good_term M gt a" and gd: "good_term M gt d" and unit: "scalar_unit M"
    and e: "cond_expr (g_ids s) c" "int_expr (g_ids s) a" "int_expr (g_ids s) d"
    and y: "y = None \<or> y = Some (IMU_Integer w) \<and> w < length (g_ids s)"
  shows "\<exists>z s' new. genTermConditionalExpression gt gs (AstComposite t b [c, a, d]) False y s = Some (Inr ((Some (IMU_Integer z), y \<noteq> None), s')) \<and>
    (if y = None then length (g_ids s) \<le> z else z = w) \<and> z < length (g_ids s') \<and>
    sets_code M s s' new z (\<lambda>\<sigma>. if cval M \<sigma> c then ival M \<sigma> a else ival M \<sigma> d)"
proof -
  define e0 where "e0 = length (g_code s)"
  let ?args = "\<lparr>sa_reverse = True, sa_hasExit = False, sa_exit = None, sa_br = Some (Suc e0),
                  sa_brAfter = True, sa_blockExit = None, sa_blockCont = None, sa_logic = True\<rparr>"
  have e1: "cond_expr (g_ids (two_more s)) c" using e by simp
  obtain s2 new2 where c: "gs ?args c (two_more s) = Some (Inr ((), s2))"
    and b2: "branch_code M (two_more s) s2 new2 (Suc e0) True (\<lambda>\<sigma>. cval M \<sigma> c \<noteq> True)"
    using good_condE [OF gc e1, of ?args "Suc e0"] by (auto simp: e0_def)
  have ad2: "adds (two_more s) s2 new2" and g2: "grows (two_more s) s2"
    using b2 adds_grows unfolding branch_code_def by blast+
  have i2: "int_expr (g_ids s2) a" "int_expr (g_ids s2) d" using expr_grows(1) [OF g2] e by simp_all
  obtain x1 s3 new3 where a: "gt (Some a) False False False None s2 = Some (Inr ((Some x1, False), s3))"
    and v3: "value_code M s2 s3 new3 x1 (\<lambda>\<sigma>. ival M \<sigma> a)"
    using good_termE [OF ga i2(1)] by blast
  obtain z s4 where z: "choice_target y s3 = (z, s4)" by (cases "choice_target y s3")
  have g3: "grows s2 s3" using value_codeD(3) [OF v3] .
  have len: "length (g_ids s) \<le> length (g_ids s2)" "length (g_ids s2) \<le> length (g_ids s3)"
    using grows_length [OF g2] grows_length [OF g3] by simp_all
  have s4: "grows s3 s4" "z < length (g_ids s4)" "if y = None then length (g_ids s3) \<le> z else z = w"
    and v4: "value_code M s2 s4 new3 x1 (\<lambda>\<sigma>. ival M \<sigma> a)"
    using y z v3 value_plus_temp [OF v3] len adds_grows [OF adds_plus_temp] by (auto simp: choice_target_def)
  define s5 where "s5 = plus_instr (createIMU IOPCODE_ADD (Some x1) (Some IMU_Zero) (Some (IMU_Integer z)) new_cInstruction) s4"
  define J where "J = createUnconditionalJump OPCODE_JUMP (Some e0) False new_cInstruction"
  define s7 where "s7 = set_lst [Suc e0] (set_code (Suc e0) (createUnconditionalJump OPCODE_JUMP (Some e0) False (g_code s5 ! Suc e0)) s5)"
  have set5: "sets_code M s2 s5 (new3 @ [length (g_code s4)]) z (\<lambda>\<sigma>. ival M \<sigma> a)"
    using set_instr_code [OF v4, of IOPCODE_ADD x1 IMU_Zero "\<lambda>v. v"] unit unfolding s5_def scalar_unit_def by simp
  have g5: "grows s2 s5" using set5 adds_grows unfolding sets_code_def by blast
  have at5: "g_code s5 ! e0 = new_cInstruction" "g_code s5 ! Suc e0 = new_cInstruction" "Suc e0 < length (g_code s5)"
    using grows_code [OF grows_trans [OF g2 g5]] grows_length [OF grows_trans [OF g2 g5]] by (simp_all add: e0_def nth_append)
  have ids7: "g_ids s7 = g_ids s5" by (simp add: s7_def)
  have i7: "int_expr (g_ids s7) d" using expr_grows(1) [OF g5] i2 ids7 by simp
  obtain x2 s8 new8 where d: "gt (Some d) False False False None s7 = Some (Inr ((Some x2, False), s8))"
    and v8: "value_code M s7 s8 new8 x2 (\<lambda>\<sigma>. ival M \<sigma> d)"
    using good_termE [OF gd i7] by blast
  define s9 where "s9 = plus_instr (createIMU IOPCODE_ADD (Some x2) (Some IMU_Zero) (Some (IMU_Integer z)) new_cInstruction) s8"
  have set9: "sets_code M s7 s9 (new8 @ [length (g_code s8)]) z (\<lambda>\<sigma>. ival M \<sigma> d)"
    using set_instr_code [OF v8, of IOPCODE_ADD x2 IMU_Zero "\<lambda>v. v"] unit unfolding s9_def scalar_unit_def by simp
  have g9: "grows s7 s9" using set9 adds_grows unfolding sets_code_def by blast
  let ?new = "new2 @ (new3 @ [length (g_code s4)]) @ [Suc e0] @ (new8 @ [length (g_code s8)]) @ [e0]"
  let ?s = "set_lst [e0] s9"
  have run: "genTermConditionalExpression gt gs (AstComposite t b [c, a, d]) False y s = Some (Inr ((Some (IMU_Integer z), y \<noteq> None), ?s))"
    unfolding s9_def e0_def
    by (rule conditional_run [where gs = gs and gt = gt and s = s and ?s2.0 = s2 and ?s3.0 = s3 and ?s4.0 = s4 and ?s5.0 = s5 and
          ?s7.0 = s7 and ?x1.0 = x1 and ?b1.0 = False and ?b2.0 = False and w = w])
      (use c a d y z operand_not_MU value_codeD(2) [OF v3] value_codeD(2) [OF v8] in \<open>auto simp: e0_def s5_def s7_def\<close>)
  have g02: "grows s s2" and g05: "grows s s5" using grows_trans [OF _ g2] grows_trans [OF _ grows_trans [OF g2 g5]]
    by (simp_all add: grows_def)
  have pre7: "prefix (g_code s) (g_code s7)"
  proof -
    obtain zs where "g_code s5 = g_code s @ zs" using g05 by (auto simp: grows_def prefix_def)
    then show ?thesis by (simp add: s7_def e0_def list_update_append)
  qed
  have gr: "grows s ?s"
    using pre7 g05 g9 ids7 by (auto simp: grows_def intro: prefix_order.trans)
  have same5: "g_code s9 ! i = g_code s5 ! i" if "i < length (g_code s5)" "i \<noteq> Suc e0" for i
    using grows_code [OF g9, of i] that by (simp add: s7_def)
  have same2: "g_code s9 ! i = g_code s2 ! i" if "i < length (g_code s2)" "i \<noteq> Suc e0" for i
    using same5 [of i] grows_code [OF g5 that(1)] grows_length [OF g5] that by simp
  have news: "set new2 \<subseteq> {Suc (Suc e0)..<length (g_code s2)}" "set (new3 @ [length (g_code s4)]) \<subseteq> {length (g_code s2)..<length (g_code s5)}"
    "set (new8 @ [length (g_code s8)]) \<subseteq> {length (g_code s5)..<length (g_code s9)}"
    using ad2 set5 set9 unfolding adds_def sets_code_def by (auto simp: e0_def s7_def)
  have l2: "Suc (Suc e0) \<le> length (g_code s2)" using grows_length [OF g2] by (simp add: e0_def)
  have l5: "length (g_code s2) \<le> length (g_code s5)" "length (g_code s5) \<le> length (g_code s9)"
    using grows_length [OF g5] grows_length [OF g9] by (simp_all add: s7_def)
  have lst: "g_lst ?s = g_lst s @ ?new"
    using ad2 set5 set9 unfolding adds_def sets_code_def by (simp add: s7_def)
  have "distinct new2" "distinct (new3 @ [length (g_code s4)])" "distinct (new8 @ [length (g_code s8)])"
    using ad2 set5 set9 unfolding adds_def sets_code_def by blast+
  then have dist: "distinct ?new" using news l2 l5 by fastforce
  have ads: "adds s ?s ?new"
    using gr lst news l2 l5 dist unfolding adds_def e0_def by auto
  have run_all: "\<exists>\<sigma>'. fwd M (g_code ?s) ?new \<sigma> = Falls \<sigma>' \<and> \<sigma>' z = (if cval M \<sigma> c then ival M \<sigma> a else ival M \<sigma> d) \<and>
      (\<forall>i<length (g_ids s). i \<noteq> z \<longrightarrow> \<sigma>' i = \<sigma> i)" for \<sigma>
  proof -
    obtain \<sigma>1 where 1: "fwd M (g_code s2) new2 \<sigma> = (if cval M \<sigma> c \<noteq> True then Leaves (Some (Suc e0)) True \<sigma>1 else Falls \<sigma>1)"
      "keeps_old (two_more s) \<sigma> \<sigma>1"
      using b2 unfolding branch_code_def by blast
    obtain \<sigma>2 where 2: "fwd M (g_code s5) (new3 @ [length (g_code s4)]) \<sigma>1 = Falls \<sigma>2" "\<sigma>2 z = ival M \<sigma>1 a"
      "\<forall>i<length (g_ids s2). i \<noteq> z \<longrightarrow> \<sigma>2 i = \<sigma>1 i"
      using set5 unfolding sets_code_def by blast
    obtain \<sigma>3 where 3: "fwd M (g_code s9) (new8 @ [length (g_code s8)]) \<sigma>1 = Falls \<sigma>3" "\<sigma>3 z = ival M \<sigma>1 d"
      "\<forall>i<length (g_ids s7). i \<noteq> z \<longrightarrow> \<sigma>3 i = \<sigma>1 i"
      using set9 unfolding sets_code_def by blast
    have "fwd M (g_code s9) new2 \<sigma> = fwd M (g_code s2) new2 \<sigma>"
      by (intro fwd_cong ballI same2) (use news(1) in auto)
    moreover have "fwd M (g_code s9) (new3 @ [length (g_code s4)]) \<sigma>1 = fwd M (g_code s5) (new3 @ [length (g_code s4)]) \<sigma>1"
      by (intro fwd_cong ballI same5) (use news(2) l2 in auto)
    moreover have "g_code s9 ! Suc e0 = J" "g_code s9 ! e0 = new_cInstruction"
      using grows_code [OF g9, of "Suc e0"] same5 [of e0] at5 by (simp_all add: s7_def J_def)
    ultimately have "fwd M (g_code s9) ?new \<sigma> = Falls (if cval M \<sigma> c \<noteq> True then \<sigma>3 else \<sigma>2)"
      using 1(1) 2(1) 3(1) news l2 l5 unfolding J_def by (intro choice_runs [where j = "Suc e0"]) auto
    moreover have "\<forall>i<length (g_ids s). \<sigma>1 i = \<sigma> i" using 1(2) by (simp add: keeps_old_def)
    moreover from this have "ival M \<sigma>1 a = ival M \<sigma> a" "ival M \<sigma>1 d = ival M \<sigma> d"
      using value_cong(1) [OF e(2)] value_cong(1) [OF e(3)] by blast+
    moreover have "length (g_ids s) \<le> length (g_ids s7)"
      using grows_length [OF g05] ids7 by simp
    ultimately show ?thesis using 2 3 len by auto
  qed
  have "z < length (g_ids ?s)" using s4(2) grows_length [OF g9] ids7 by (simp add: s5_def)
  then show ?thesis
    using run ads run_all s4(3) len unfolding sets_code_def by (intro exI [of _ z] exI [of _ ?s] exI [of _ ?new]) (auto split: if_splits)
qed


section \<open>Conditions\<close>

lemma integer_not_float: "\<not> cls_isKindOf CInteger CFloat"
  by (simp add: cls_isKindOf.simps)

lemma not_float:
  "int_var I m \<Longrightarrow> (case m of None \<Rightarrow> Inl CompileError | Some i \<Rightarrow> Inr (isKindOf (ident_at I i) CFloat)) = Inr False"
  by (auto simp: int_var_def isKindOf_def integer_not_float split: option.splits)

lemma anyIsMU_False: "\<forall>c\<in>set cs. expressionIsMU I c = Inr False \<Longrightarrow> anyIsMU I cs = Inr False"
  by (induction cs) auto

lemma simple_not_MU: "simple_condition I n \<Longrightarrow> expressionIsMU I n = Inr False"
  using not_float by (auto simp: simple_condition_def split: cAstNode.splits)

lemma set_two: "length cs = 2 \<Longrightarrow> set cs = {cs ! 0, cs ! 1}"
  by (cases cs; cases "tl cs") auto

lemma set_three: "length cs = 3 \<Longrightarrow> set cs = {cs ! 0, cs ! 1, cs ! 2}"
  by (cases cs; cases "tl cs"; cases "tl (tl cs)") auto

lemma set_one: "length cs = 1 \<Longrightarrow> set cs = {cs ! 0}"
  by (cases cs) auto

text \<open>The children of an expression or condition: expressions, conditions or an operator.\<close>

definition child_ok :: "idents \<Rightarrow> cAstNode \<Rightarrow> bool" where
  "child_ok I c \<longleftrightarrow> int_expr I c \<or> cond_expr I c \<or> is_unary ''-'' c \<or> is_unary ''!'' c \<or> simple_condition I c"

lemma children_ok:
  assumes "int_expr I (AstComposite t b cs) \<or> cond_expr I (AstComposite t b cs)"
  shows "\<forall>c\<in>set cs. child_ok I c" and "t \<noteq> eTOKEN_postfix_expression4"
  using assms
  by (auto simp: Let_def list_all_iff child_ok_def int_tokens_def comparison_tokens_def set_one set_two set_three split: if_splits)

lemma not_MU: "int_expr I n \<or> cond_expr I n \<Longrightarrow> expressionIsMU I n = Inr False"
proof (induction n)
  case (AstComposite t b cs)
  have "expressionIsMU I c = Inr False" if "c \<in> set cs" for c
    using children_ok(1) [OF AstComposite.prems] AstComposite.IH [OF that] that simple_not_MU [of I c]
    by (auto simp: child_ok_def is_unary_def)
  then show ?case using anyIsMU_False children_ok(2) [OF AstComposite.prems] by simp
qed (use not_float [of I] simple_not_MU [of I] in \<open>auto simp: simple_condition_def\<close>)

text \<open>The branch of a comparison.\<close>

lemma sign_laws:
  assumes "scalar_unit M"
  shows "(sc_op M IOPCODE_SUB a b < 0) = (a < b)" "(sc_op M IOPCODE_SUB a b > 0) = (a > b)" "(sc_op M IOPCODE_SUB a b = 0) = (a = b)"
    "(sc_op M IOPCODE_SUB a b \<le> 0) = (a \<le> b)" "(sc_op M IOPCODE_SUB a b \<ge> 0) = (a \<ge> b)"
proof -
  have "sgn (sc_op M IOPCODE_SUB a b) = sgn (a - b)" using assms by (simp add: scalar_unit_def)
  then show "(sc_op M IOPCODE_SUB a b < 0) = (a < b)" "(sc_op M IOPCODE_SUB a b > 0) = (a > b)" "(sc_op M IOPCODE_SUB a b = 0) = (a = b)"
    "(sc_op M IOPCODE_SUB a b \<le> 0) = (a \<le> b)" "(sc_op M IOPCODE_SUB a b \<ge> 0) = (a \<ge> b)"
    by (auto simp: sgn_if split: if_splits)
qed

lemma compare_taken:
  assumes "scalar_unit M" and "t \<in> set comparison_tokens"
  shows "(jump_taken (compare_IMU t rv) (sc_op M IOPCODE_SUB a b) = Inr True) = (compares t a b \<noteq> rv)"
    and "0 < compare_IMU t rv" "compare_IMU t rv \<noteq> OPCODE_JUMP"
  using assms(2) sign_laws [OF assms(1)]
  by (auto simp: comparison_tokens_def compare_IMU_def compares_def jump_taken_def)

lemma branch_exec:
  "scalar_exec M (createConditionalJump oc IOPCODE_SUB (Some x1) (Some x2) None j after new_cInstruction) \<sigma> = \<sigma>"
  "0 < oc \<Longrightarrow> oc \<noteq> OPCODE_JUMP \<Longrightarrow>
   scalar_jumps M (createConditionalJump oc IOPCODE_SUB (Some x1) (Some x2) None j after new_cInstruction) \<sigma> =
     (jump_taken oc (sc_op M IOPCODE_SUB (opnd M \<sigma> x1) (opnd M \<sigma> x2)) = Inr True)"
  "ctl_jumpInstruction (m_control (createConditionalJump oc IOPCODE_SUB (Some x1) (Some x2) None j after new_cInstruction)) = j"
  "ctl_jumpAfter (m_control (createConditionalJump oc IOPCODE_SUB (Some x1) (Some x2) None j after new_cInstruction)) = after"
  by (simp_all add: scalar_exec_def scalar_jumps_def scalar_result_def opnd_opt_def createConditionalJump_def
      createUnconditionalJump_def createIMU_def new_cInstruction_def)

lemma branch_instr_code:
  assumes a: "adds s s1 new" and run: "\<And>\<sigma>. \<exists>\<sigma>1. fwd M (g_code s1) new \<sigma> = Falls \<sigma>1 \<and> keeps_old s \<sigma> \<sigma>1 \<and>
      (jump_taken oc (sc_op M IOPCODE_SUB (opnd M \<sigma>1 x1) (opnd M \<sigma>1 x2)) = Inr True) = f \<sigma>"
    and oc: "0 < oc" "oc \<noteq> OPCODE_JUMP"
  shows "branch_code M s (plus_instr (createConditionalJump oc IOPCODE_SUB (Some x1) (Some x2) None (Some b) after new_cInstruction) s1)
    (new @ [length (g_code s1)]) b after f"
proof -
  let ?ins = "createConditionalJump oc IOPCODE_SUB (Some x1) (Some x2) None (Some b) after new_cInstruction"
  let ?s = "plus_instr ?ins s1"
  have ad: "adds s1 ?s [length (g_code s1)]" by (rule adds_plus_instr)
  have "\<exists>\<sigma>'. fwd M (g_code ?s) (new @ [length (g_code s1)]) \<sigma> = (if f \<sigma> then Leaves (Some b) after \<sigma>' else Falls \<sigma>') \<and> keeps_old s \<sigma> \<sigma>'" for \<sigma>
  proof -
    obtain \<sigma>1 where 1: "fwd M (g_code s1) new \<sigma> = Falls \<sigma>1" "keeps_old s \<sigma> \<sigma>1"
      "(jump_taken oc (sc_op M IOPCODE_SUB (opnd M \<sigma>1 x1) (opnd M \<sigma>1 x2)) = Inr True) = f \<sigma>"
      using run by blast
    have "fwd M (g_code ?s) [length (g_code s1)] \<sigma>1 = (if f \<sigma> then Leaves (Some b) after \<sigma>1 else Falls \<sigma>1)"
      using 1(3) by (simp add: fwd.simps(2) Let_def branch_exec(1,3,4) branch_exec(2) [OF oc])
    moreover have "fwd M (g_code ?s) new \<sigma> = Falls \<sigma>1" using fwd_grows [OF a adds_grows [OF ad]] 1(1) by simp
    ultimately show ?thesis using 1(2) by (intro exI [of _ \<sigma>1]) (simp only: fwd_append resume_simps)
  qed
  then show ?thesis using adds_trans [OF a ad] by (simp add: branch_code_def)
qed

lemma comparison_code:
  assumes gl: "good_term M gt l" and gr: "good_term M gt r" and unit: "scalar_unit M" and t: "t \<in> set comparison_tokens"
    and e: "int_expr (g_ids s) l" "int_expr (g_ids s) r" and br: "sa_br a = Some b"
  shows "\<exists>s' new. gen_comparison gt a (AstComposite t i [l, r]) s = Some (Inr ((), s')) \<and>
    branch_code M s s' new b (sa_brAfter a) (\<lambda>\<sigma>. compares t (ival M \<sigma> l) (ival M \<sigma> r) \<noteq> sa_reverse a)"
proof -
  obtain x1 s1 new1 where l: "gt (Some l) False False False None s = Some (Inr ((Some x1, False), s1))"
    and v1: "value_code M s s1 new1 x1 (\<lambda>\<sigma>. ival M \<sigma> l)"
    using good_termE [OF gl e(1)] by blast
  have e2: "int_expr (g_ids s1) r" using value_grows [OF v1 e(2)] .
  obtain x2 s2 new2 where r: "gt (Some r) False False False None s1 = Some (Inr ((Some x2, False), s2))"
    and v2: "value_code M s1 s2 new2 x2 (\<lambda>\<sigma>. ival M \<sigma> r)"
    using good_termE [OF gr e2] by blast
  let ?s = "plus_instr (createConditionalJump (compare_IMU t (sa_reverse a)) IOPCODE_SUB (Some x1) (Some x2) None (Some b) (sa_brAfter a) new_cInstruction) s2"
  have "branch_code M s ?s ((new1 @ new2) @ [length (g_code s2)]) b (sa_brAfter a)
      (\<lambda>\<sigma>. compares t (ival M \<sigma> l) (ival M \<sigma> r) \<noteq> sa_reverse a)"
  proof (rule branch_instr_code [OF adds_trans [OF value_codeD(1) [OF v1] value_codeD(1) [OF v2]] _ compare_taken(2,3) [OF unit t]])
    fix \<sigma>
    obtain \<sigma>1 where 1: "fwd M (g_code s1) new1 \<sigma> = Falls \<sigma>1" "opnd M \<sigma>1 x1 = ival M \<sigma> l" "keeps_old s \<sigma> \<sigma>1"
      using v1 unfolding value_code_def by blast
    obtain \<sigma>2 where 2: "fwd M (g_code s2) new2 \<sigma>1 = Falls \<sigma>2" "opnd M \<sigma>2 x2 = ival M \<sigma>1 r" "keeps_old s1 \<sigma>1 \<sigma>2"
      using v2 unfolding value_code_def by blast
    have "opnd M \<sigma>2 x1 = ival M \<sigma> l" using opnd_kept [OF value_codeD(2) [OF v1] 2(3)] 1(2) by simp
    moreover have "ival M \<sigma>1 r = ival M \<sigma> r" using value_cong(1) [OF e(2)] 1(3) by (auto simp: keeps_old_def)
    moreover have "fwd M (g_code s2) (new1 @ new2) \<sigma> = Falls \<sigma>2"
      by (simp add: fwd_append fwd_grows [OF value_codeD(1) [OF v1] value_codeD(3) [OF v2]] 1 2)
    ultimately show "\<exists>\<sigma>1. fwd M (g_code s2) (new1 @ new2) \<sigma> = Falls \<sigma>1 \<and> keeps_old s \<sigma> \<sigma>1 \<and>
        (jump_taken (compare_IMU t (sa_reverse a)) (sc_op M IOPCODE_SUB (opnd M \<sigma>1 x1) (opnd M \<sigma>1 x2)) = Inr True) =
        (compares t (ival M \<sigma> l) (ival M \<sigma> r) \<noteq> sa_reverse a)"
      using 2(2) compare_taken(1) [OF unit t] keeps_old_trans [OF 1(3) 2(3) value_codeD(3) [OF v1]] by auto
  qed
  moreover have "gen_comparison gt a (AstComposite t i [l, r]) s = Some (Inr ((), ?s))"
    using l r not_MU [of _ l] not_MU [of _ r] e operand_not_MU value_codeD(2) [OF v1] value_codeD(2) [OF v2]
      operand_not_MU [OF value_codeD(2) [OF v1]] br
    by (simp add: gen_comparison_def child_at_def run_simps)
  ultimately show ?thesis by blast
qed


text \<open>A variable or a literal as a condition, and its negation.\<close>

definition good_leaf :: "gen_term \<Rightarrow> cAstNode \<Rightarrow> bool" where
  "good_leaf gt n \<longleftrightarrow> (\<forall>s. int_expr (g_ids s) n \<longrightarrow> getChildList n = [] \<longrightarrow>
     gt (Some n) False False False None s = Some (Inr ((Some (leaf_term n), False), s)))"

lemma simple_leaf:
  assumes "simple_condition I n"
  shows "int_expr I n" "getChildList n = []" "cval M \<sigma> n = (ival M \<sigma> n \<noteq> 0)"
    "leaf_term n = IMU_Integer i \<longrightarrow> m_name (ident_at I i) \<noteq> []"
  using assms by (auto simp: simple_condition_def leaf_term_def split: cAstNode.splits)

lemma simple_condition_code:
  assumes leaf: "good_leaf gt n" and unit: "scalar_unit M" and e: "simple_condition (g_ids s) n" and br: "sa_br a = Some b"
  shows "\<exists>s' new. gbind (need NullPointer (gt (Some n) False False False None)) (gen_condition a rv) s = Some (Inr ((), s')) \<and>
    branch_code M s s' new b (sa_brAfter a) (\<lambda>\<sigma>. cval M \<sigma> n \<noteq> rv)"
proof -
  let ?t = "leaf_term n"
  let ?oc = "if rv then OPCODE_JUMP_EQ else OPCODE_JUMP_NE"
  let ?s = "plus_instr (createConditionalJump ?oc IOPCODE_SUB (Some ?t) (Some IMU_Zero) None (Some b) (sa_brAfter a) new_cInstruction) s"
  have v: "value_code M s s [] ?t (\<lambda>\<sigma>. ival M \<sigma> n)" using leaf_code(2) simple_leaf(1,2) [OF e] by blast
  have "branch_code M s ?s ([] @ [length (g_code s)]) b (sa_brAfter a) (\<lambda>\<sigma>. cval M \<sigma> n \<noteq> rv)"
  proof (rule branch_instr_code)
    fix \<sigma>
    have "opnd M \<sigma> ?t = ival M \<sigma> n" using v by (simp add: value_same_state)
    then show "\<exists>\<sigma>1. fwd M (g_code s) [] \<sigma> = Falls \<sigma>1 \<and> keeps_old s \<sigma> \<sigma>1 \<and>
        (jump_taken ?oc (sc_op M IOPCODE_SUB (opnd M \<sigma>1 ?t) (opnd M \<sigma>1 IMU_Zero)) = Inr True) = (cval M \<sigma> n \<noteq> rv)"
      using sign_laws(3) [OF unit, of "ival M \<sigma> n" 0] simple_leaf(3) [OF e, of M \<sigma>] by (auto simp: jump_taken_def)
  qed auto
  moreover have "gbind (need NullPointer (gt (Some n) False False False None)) (gen_condition a rv) s = Some (Inr ((), ?s))"
    using leaf simple_leaf(1,2) [OF e] simple_leaf(4) [OF e] operand_not_MU [OF value_codeD(2) [OF v]] br
    by (auto simp: good_leaf_def gen_condition_def run_simps split: cTerm.split)
  ultimately show ?thesis by blast
qed

lemma expression_code:
  assumes leaf: "good_leaf gt n" and unit: "scalar_unit M" and e: "simple_condition (g_ids s) n" and br: "sa_br a = Some b" "sa_logic a"
  shows "\<exists>s' new. gen_expression gt a n s = Some (Inr ((), s')) \<and>
      branch_code M s s' new b (sa_brAfter a) (\<lambda>\<sigma>. cval M \<sigma> n \<noteq> sa_reverse a)"
    and "\<exists>s' new. gen_expression gt a (AstComposite eTOKEN_unary_expression i [AstString eTOKEN_unary_operator ''!'', n]) s = Some (Inr ((), s')) \<and>
      branch_code M s s' new b (sa_brAfter a) (\<lambda>\<sigma>. (\<not> cval M \<sigma> n) \<noteq> sa_reverse a)"
proof -
  have "gen_expression gt a n s = gbind (need NullPointer (gt (Some n) False False False None)) (gen_condition a (sa_reverse a)) s"
    using simple_not_MU [OF e] simple_leaf(2) [OF e] br(2) by (simp add: gen_expression_def negated_def gbind_gget)
  then show "\<exists>s' new. gen_expression gt a n s = Some (Inr ((), s')) \<and>
      branch_code M s s' new b (sa_brAfter a) (\<lambda>\<sigma>. cval M \<sigma> n \<noteq> sa_reverse a)"
    using simple_condition_code [OF leaf unit e br(1), of "sa_reverse a"] by simp
next
  let ?n = "AstComposite eTOKEN_unary_expression i [AstString eTOKEN_unary_operator ''!'', n]"
  have "gen_expression gt a ?n s = gbind (need NullPointer (gt (Some n) False False False None)) (gen_condition a (\<not> sa_reverse a)) s"
    using simple_not_MU [OF e] br(2) by (simp add: gen_expression_def negated_def gbind_gget)
  then show "\<exists>s' new. gen_expression gt a ?n s = Some (Inr ((), s')) \<and>
      branch_code M s s' new b (sa_brAfter a) (\<lambda>\<sigma>. (\<not> cval M \<sigma> n) \<noteq> sa_reverse a)"
    using simple_condition_code [OF leaf unit e br(1), of "\<not> sa_reverse a"] by simp
qed


section \<open>Sequences of conditions\<close>

text \<open>Conditions that leave for the same place: together they leave when one of them does.\<close>

lemma branch_code_seq:
  assumes a: "branch_code M s s1 new1 b after f" and c: "branch_code M s1 s2 new2 b after g" and b: "b < length (g_code s)"
    and h: "\<And>\<sigma> \<sigma>'. keeps_old s \<sigma> \<sigma>' \<Longrightarrow> g \<sigma>' = g \<sigma>"
  shows "branch_code M s s2 (new1 @ new2) b after (\<lambda>\<sigma>. f \<sigma> \<or> g \<sigma>)"
proof -
  have ad: "adds s s1 new1" "adds s1 s2 new2" using a c by (simp_all add: branch_code_def)
  have nb: "b \<notin> set new2" using ad(2) b grows_length [OF adds_grows [OF ad(1)]] by (auto simp: adds_def)
  have "\<exists>\<sigma>'. fwd M (g_code s2) (new1 @ new2) \<sigma> = (if f \<sigma> \<or> g \<sigma> then Leaves (Some b) after \<sigma>' else Falls \<sigma>') \<and> keeps_old s \<sigma> \<sigma>'" for \<sigma>
  proof -
    obtain \<sigma>1 where 1: "fwd M (g_code s1) new1 \<sigma> = (if f \<sigma> then Leaves (Some b) after \<sigma>1 else Falls \<sigma>1)" "keeps_old s \<sigma> \<sigma>1"
      using a unfolding branch_code_def by blast
    obtain \<sigma>2 where 2: "fwd M (g_code s2) new2 \<sigma>1 = (if g \<sigma>1 then Leaves (Some b) after \<sigma>2 else Falls \<sigma>2)" "keeps_old s1 \<sigma>1 \<sigma>2"
      using c unfolding branch_code_def by blast
    have k: "keeps_old s \<sigma> \<sigma>2" using keeps_old_trans [OF 1(2) 2(2) adds_grows [OF ad(1)]] .
    have "fwd M (g_code s2) (new1 @ new2) \<sigma> = (if f \<sigma> then Leaves (Some b) after \<sigma>1
        else if g \<sigma> then Leaves (Some b) after \<sigma>2 else Falls \<sigma>2)"
      using h [OF 1(2)] nb by (simp add: fwd_append fwd_grows [OF ad(1) adds_grows [OF ad(2)]] 1(1) 2(1))
    then show ?thesis using k 1(2) by (cases "f \<sigma>") auto
  qed
  then show ?thesis using adds_trans [OF ad] by (simp add: branch_code_def)
qed

lemma branch_code_cong: "branch_code M s s' new b after f \<Longrightarrow> (\<And>\<sigma>. f \<sigma> = g \<sigma>) \<Longrightarrow> branch_code M s s' new b after g"
  by (simp add: branch_code_def)

lemma any_cval_cong:
  "\<forall>c\<in>set cs. cond_expr (g_ids s) c \<Longrightarrow> keeps_old s \<sigma> \<sigma>' \<Longrightarrow> (\<exists>c\<in>set cs. cval M \<sigma>' c \<noteq> rv) = (\<exists>c\<in>set cs. cval M \<sigma> c \<noteq> rv)"
  using value_cong(2) [of "g_ids s" _ \<sigma>' \<sigma> M] by (auto simp: keeps_old_def)

lemma straight_code:
  assumes "\<forall>c\<in>set cs. good_cond M gs c" and "\<forall>c\<in>set cs. cond_expr (g_ids s) c" and a: "sa_logic a" "sa_br a = Some b"
    and b: "b < length (g_code s)"
  shows "\<exists>s' new. gmap (gs a) cs s = Some (Inr ((), s')) \<and>
    branch_code M s s' new b (sa_brAfter a) (\<lambda>\<sigma>. \<exists>c\<in>set cs. cval M \<sigma> c \<noteq> sa_reverse a)"
  using assms(1,2) b
proof (induction cs arbitrary: s)
  case Nil
  then show ?case by (intro exI [of _ s] exI [of _ "[]"]) (auto simp: gret_run branch_code_def intro: keeps_old_refl)
next
  case (Cons c cs)
  obtain s1 new1 where 1: "gs a c s = Some (Inr ((), s1))" "branch_code M s s1 new1 b (sa_brAfter a) (\<lambda>\<sigma>. cval M \<sigma> c \<noteq> sa_reverse a)"
    using good_condE [of M gs c s a b] Cons.prems a by auto
  have g: "grows s s1" using 1(2) adds_grows unfolding branch_code_def by blast
  obtain s2 new2 where 2: "gmap (gs a) cs s1 = Some (Inr ((), s2))"
    "branch_code M s1 s2 new2 b (sa_brAfter a) (\<lambda>\<sigma>. \<exists>c\<in>set cs. cval M \<sigma> c \<noteq> sa_reverse a)"
    using Cons.IH [of s1] Cons.prems expr_grows(2) [OF g] grows_length [OF g] by auto
  have cs: "\<forall>c\<in>set cs. cond_expr (g_ids s) c" using Cons.prems by simp
  have "branch_code M s s2 (new1 @ new2) b (sa_brAfter a)
      (\<lambda>\<sigma>. cval M \<sigma> c \<noteq> sa_reverse a \<or> (\<exists>c\<in>set cs. cval M \<sigma> c \<noteq> sa_reverse a))"
    by (rule branch_code_seq [OF 1(2) 2(2) Cons.prems(3)]) (rule any_cval_cong [OF cs])
  then have "branch_code M s s2 (new1 @ new2) b (sa_brAfter a) (\<lambda>\<sigma>. \<exists>c\<in>set (c # cs). cval M \<sigma> c \<noteq> sa_reverse a)"
    by (rule branch_code_cong) auto
  moreover have "gmap (gs a) (c # cs) s = Some (Inr ((), s2))" using 1(1) 2(1) by (simp add: gbind_run)
  ultimately show ?case by blast
qed

text \<open>
  The other way: all operands but the last leave to the end \<open>i\<close> of the condition, which is appended later, when they
  settle it.
\<close>

definition settles_code :: "scalar \<Rightarrow> gstate \<Rightarrow> gstate \<Rightarrow> nat list \<Rightarrow> nat \<Rightarrow> nat \<Rightarrow> bool \<Rightarrow> (regs \<Rightarrow> bool) \<Rightarrow> bool" where
  "settles_code M s s' new i b after f \<longleftrightarrow> adds s s' new \<and>
     (\<forall>\<sigma>. \<exists>\<sigma>'. keeps_old s \<sigma> \<sigma>' \<and> (if f \<sigma> then fwd M (g_code s') new \<sigma> = Leaves (Some b) after \<sigma>'
        else fwd M (g_code s') new \<sigma> \<in> {Leaves (Some i) True \<sigma>', Falls \<sigma>'}))"

lemma settles_code_seq:
  assumes a: "branch_code M s s1 new1 i True f" and c: "settles_code M s1 s2 new2 i b after g"
    and i: "i < length (g_code s)" and h: "\<And>\<sigma> \<sigma>'. keeps_old s \<sigma> \<sigma>' \<Longrightarrow> g \<sigma>' = g \<sigma>"
  shows "settles_code M s s2 (new1 @ new2) i b after (\<lambda>\<sigma>. \<not> f \<sigma> \<and> g \<sigma>)"
proof -
  have ad: "adds s s1 new1" "adds s1 s2 new2" using a c by (simp_all add: branch_code_def settles_code_def)
  have ni: "i \<notin> set new2" using ad(2) i grows_length [OF adds_grows [OF ad(1)]] by (auto simp: adds_def)
  have "\<exists>\<sigma>'. keeps_old s \<sigma> \<sigma>' \<and> (if \<not> f \<sigma> \<and> g \<sigma> then fwd M (g_code s2) (new1 @ new2) \<sigma> = Leaves (Some b) after \<sigma>'
        else fwd M (g_code s2) (new1 @ new2) \<sigma> \<in> {Leaves (Some i) True \<sigma>', Falls \<sigma>'})" for \<sigma>
  proof -
    obtain \<sigma>1 where 1: "fwd M (g_code s1) new1 \<sigma> = (if f \<sigma> then Leaves (Some i) True \<sigma>1 else Falls \<sigma>1)" "keeps_old s \<sigma> \<sigma>1"
      using a unfolding branch_code_def by blast
    obtain \<sigma>2 where 2: "keeps_old s1 \<sigma>1 \<sigma>2" "if g \<sigma>1 then fwd M (g_code s2) new2 \<sigma>1 = Leaves (Some b) after \<sigma>2
        else fwd M (g_code s2) new2 \<sigma>1 \<in> {Leaves (Some i) True \<sigma>2, Falls \<sigma>2}"
      using c unfolding settles_code_def by blast
    have k: "keeps_old s \<sigma> \<sigma>2" using keeps_old_trans [OF 1(2) 2(1) adds_grows [OF ad(1)]] .
    have "fwd M (g_code s2) (new1 @ new2) \<sigma> = (if f \<sigma> then Leaves (Some i) True \<sigma>1 else fwd M (g_code s2) new2 \<sigma>1)"
      using ni by (simp add: fwd_append fwd_grows [OF ad(1) adds_grows [OF ad(2)]] 1(1))
    then show ?thesis using h [OF 1(2)] 2(2) k 1(2) by (cases "f \<sigma>") (fastforce split: if_splits)+
  qed
  then show ?thesis using adds_trans [OF ad] by (simp add: settles_code_def)
qed

lemma all_but_last_code:
  assumes "\<forall>c\<in>set cs. good_cond M gs c" and "\<forall>c\<in>set cs. cond_expr (g_ids s) c" and "cs \<noteq> []" and a: "sa_logic a" "sa_br a = Some b"
    and b: "b < length (g_code s)" "i < length (g_code s)"
  shows "\<exists>s' new. all_but_last (gs (a\<lparr>sa_reverse := \<not> sa_reverse a, sa_br := Some i, sa_brAfter := True\<rparr>)) (gs a) cs s = Some (Inr ((), s')) \<and>
    settles_code M s s' new i b (sa_brAfter a) (\<lambda>\<sigma>. \<forall>c\<in>set cs. cval M \<sigma> c \<noteq> sa_reverse a)"
  using assms(1-3) b
proof (induction cs arbitrary: s rule: induct_list012)
  case (2 c)
  obtain s1 new1 where 1: "gs a c s = Some (Inr ((), s1))" "branch_code M s s1 new1 b (sa_brAfter a) (\<lambda>\<sigma>. cval M \<sigma> c \<noteq> sa_reverse a)"
    using good_condE [of M gs c s a b] 2 a by auto
  have "settles_code M s s1 new1 i b (sa_brAfter a) (\<lambda>\<sigma>. \<forall>c\<in>set [c]. cval M \<sigma> c \<noteq> sa_reverse a)"
    unfolding settles_code_def
  proof (intro conjI allI)
    fix \<sigma> show "\<exists>\<sigma>'. keeps_old s \<sigma> \<sigma>' \<and> (if \<forall>c\<in>set [c]. cval M \<sigma> c \<noteq> sa_reverse a
        then fwd M (g_code s1) new1 \<sigma> = Leaves (Some b) (sa_brAfter a) \<sigma>'
        else fwd M (g_code s1) new1 \<sigma> \<in> {Leaves (Some i) True \<sigma>', Falls \<sigma>'})"
      using 1(2) unfolding branch_code_def by (metis (full_types) insertI1 insertI2 list.set_intros(1) set_ConsD list.set(1) empty_iff)
  qed (use 1(2) in \<open>simp add: branch_code_def\<close>)
  then show ?case using 1(1) by auto
next
  case (3 c d cs)
  let ?a = "a\<lparr>sa_reverse := \<not> sa_reverse a, sa_br := Some i, sa_brAfter := True\<rparr>"
  obtain s1 new1 where 1: "gs ?a c s = Some (Inr ((), s1))" "branch_code M s s1 new1 i True (\<lambda>\<sigma>. cval M \<sigma> c \<noteq> (\<not> sa_reverse a))"
    using good_condE [of M gs c s ?a i] 3 a by auto
  have g: "grows s s1" using 1(2) adds_grows unfolding branch_code_def by blast
  obtain s2 new2 where 2: "all_but_last (gs ?a) (gs a) (d # cs) s1 = Some (Inr ((), s2))"
    "settles_code M s1 s2 new2 i b (sa_brAfter a) (\<lambda>\<sigma>. \<forall>c\<in>set (d # cs). cval M \<sigma> c \<noteq> sa_reverse a)"
    using 3(2) [of s1] 3(3-) expr_grows(2) [OF g] grows_length [OF g] by auto
  have "settles_code M s s2 (new1 @ new2) i b (sa_brAfter a)
      (\<lambda>\<sigma>. \<not> (cval M \<sigma> c \<noteq> (\<not> sa_reverse a)) \<and> (\<forall>c\<in>set (d # cs). cval M \<sigma> c \<noteq> sa_reverse a))"
  proof (rule settles_code_seq [OF 1(2) 2(2) 3(7)])
    fix \<sigma> \<sigma>' assume "keeps_old s \<sigma> \<sigma>'"
    then have "(\<exists>c\<in>set (d # cs). cval M \<sigma>' c \<noteq> (\<not> sa_reverse a)) = (\<exists>c\<in>set (d # cs). cval M \<sigma> c \<noteq> (\<not> sa_reverse a))"
      using any_cval_cong [of "d # cs" s \<sigma> \<sigma>' M "\<not> sa_reverse a"] 3(4) by simp
    then show "(\<forall>c\<in>set (d # cs). cval M \<sigma>' c \<noteq> sa_reverse a) = (\<forall>c\<in>set (d # cs). cval M \<sigma> c \<noteq> sa_reverse a)"
      by blast
  qed
  then have "settles_code M s s2 (new1 @ new2) i b (sa_brAfter a) (\<lambda>\<sigma>. \<forall>c\<in>set (c # d # cs). cval M \<sigma> c \<noteq> sa_reverse a)"
    by (simp add: settles_code_def)
  moreover have "all_but_last (gs ?a) (gs a) (c # d # cs) s = Some (Inr ((), s2))" using 1(1) 2(1) by (simp add: gbind_run)
  ultimately show ?case by blast
qed simp


text \<open>The settled condition: the end of it does nothing.\<close>

definition one_more :: "gstate \<Rightarrow> gstate" where
  "one_more s = s\<lparr>g_code := g_code s @ [new_cInstruction]\<rparr>"

lemma one_more_sel [simp]:
  "g_code (one_more s) = g_code s @ [new_cInstruction]" "g_ids (one_more s) = g_ids s" "g_lst (one_more s) = g_lst s"
  by (simp_all add: one_more_def)

lemma settled_code:
  assumes c: "settles_code M (one_more s) s1 new (length (g_code s)) b after f" and b: "b < length (g_code s)"
  shows "branch_code M s (set_lst [length (g_code s)] s1) (new @ [length (g_code s)]) b after f"
proof -
  let ?i = "length (g_code s)"
  have ad: "adds (one_more s) s1 new" using c by (simp add: settles_code_def)
  have nop: "g_code s1 ! ?i = new_cInstruction" using grows_code [OF adds_grows [OF ad], of ?i] by (simp add: nth_append)
  have end_runs: "fwd M (g_code s1) [?i] \<tau> = Falls \<tau>" for \<tau>
    by (simp add: fwd.simps(2) nop scalar_jumps_def scalar_exec_def new_cInstruction_def)
  have "\<exists>\<sigma>'. fwd M (g_code s1) (new @ [?i]) \<sigma> = (if f \<sigma> then Leaves (Some b) after \<sigma>' else Falls \<sigma>') \<and> keeps_old s \<sigma> \<sigma>'" for \<sigma>
  proof -
    obtain \<sigma>1 where 1: "keeps_old (one_more s) \<sigma> \<sigma>1" "if f \<sigma> then fwd M (g_code s1) new \<sigma> = Leaves (Some b) after \<sigma>1
        else fwd M (g_code s1) new \<sigma> \<in> {Leaves (Some ?i) True \<sigma>1, Falls \<sigma>1}"
      using c unfolding settles_code_def by blast
    have "behind ?i True [?i] = []" using behind_True [of ?i "[]" "[]"] by simp
    then have "fwd M (g_code s1) (new @ [?i]) \<sigma> = (if f \<sigma> then Leaves (Some b) after \<sigma>1 else Falls \<sigma>1)"
      using 1(2) end_runs b by (cases "f \<sigma>") (auto simp: fwd_append)
    then show ?thesis using 1(1) by (auto simp: keeps_old_def)
  qed
  moreover have "adds s (set_lst [?i] s1) (new @ [?i])"
    using ad grows_length [OF adds_grows [OF ad]] by (auto simp: adds_def grows_def intro: prefix_order.trans append_prefixD)
  ultimately show ?thesis by (simp add: branch_code_def)
qed

lemma logical_code:
  assumes g: "\<forall>c\<in>set cs. good_cond M gs c" and e: "cond_expr (g_ids s) (AstComposite t i cs)"
    and t: "t = eTOKEN_logical_and_expression \<or> t = eTOKEN_logical_or_expression"
    and a: "sa_logic a" "sa_br a = Some b" and b: "b < length (g_code s)"
  shows "\<exists>s' new. gen_logical gs a (AstComposite t i cs) s = Some (Inr ((), s')) \<and>
    branch_code M s s' new b (sa_brAfter a) (\<lambda>\<sigma>. cval M \<sigma> (AstComposite t i cs) \<noteq> sa_reverse a)"
proof -
  have cs: "\<forall>c\<in>set cs. cond_expr (g_ids s) c" "cs \<noteq> []"
    using e t by (auto simp: list_all_iff)
  have al: "a\<lparr>sa_logic := True\<rparr> = a" using a(1) by simp
  have v: "cval M \<sigma> (AstComposite t i cs) = (if t = eTOKEN_logical_and_expression then \<forall>c\<in>set cs. cval M \<sigma> c else \<exists>c\<in>set cs. cval M \<sigma> c)" for \<sigma>
    using t by (auto simp: list_all_iff list_ex_iff)
  show ?thesis
  proof (cases "(t = eTOKEN_logical_or_expression \<and> \<not> sa_reverse a) \<or> (t = eTOKEN_logical_and_expression \<and> sa_reverse a)")
    case True
    obtain s' new where 1: "gmap (gs a) cs s = Some (Inr ((), s'))"
      "branch_code M s s' new b (sa_brAfter a) (\<lambda>\<sigma>. \<exists>c\<in>set cs. cval M \<sigma> c \<noteq> sa_reverse a)"
      using straight_code [OF g cs(1) a b] by blast
    have "branch_code M s s' new b (sa_brAfter a) (\<lambda>\<sigma>. cval M \<sigma> (AstComposite t i cs) \<noteq> sa_reverse a)"
      by (rule branch_code_cong [OF 1(2)]) (use True in \<open>auto simp del: cval.simps simp: v\<close>)
    moreover have "gen_logical gs a (AstComposite t i cs) s = Some (Inr ((), s'))"
      using True 1(1) by (simp add: gen_logical_def al)
    ultimately show ?thesis by blast
  next
    case False
    obtain s1 new where 1: "all_but_last (gs (a\<lparr>sa_reverse := \<not> sa_reverse a, sa_br := Some (length (g_code s)), sa_brAfter := True\<rparr>)) (gs a) cs (one_more s)
        = Some (Inr ((), s1))"
      "settles_code M (one_more s) s1 new (length (g_code s)) b (sa_brAfter a) (\<lambda>\<sigma>. \<forall>c\<in>set cs. cval M \<sigma> c \<noteq> sa_reverse a)"
      using all_but_last_code [OF g, of "one_more s" a b "length (g_code s)"] cs a b by auto
    have "branch_code M s (set_lst [length (g_code s)] s1) (new @ [length (g_code s)]) b (sa_brAfter a)
        (\<lambda>\<sigma>. cval M \<sigma> (AstComposite t i cs) \<noteq> sa_reverse a)"
      by (rule branch_code_cong [OF settled_code [OF 1(2) b]]) (use False t in \<open>auto simp del: cval.simps simp: v\<close>)
    moreover have "gen_logical gs a (AstComposite t i cs) s = Some (Inr ((), set_lst [length (g_code s)] s1))"
      using False 1(1) by (auto simp: gen_logical_def al run_simps new_instr_run one_more_def append_run)
    ultimately show ?thesis by blast
  qed
qed


section \<open>The generator for expressions and conditions\<close>

text \<open>A place \<open>y\<close> for the result may be passed; a conditional expression uses it, the others do not look at it.\<close>

fun takes_place :: "cAstNode \<Rightarrow> bool" where
  "takes_place (AstComposite t b cs) \<longleftrightarrow>
     cs \<noteq> [] \<and> (t = eTOKEN_conditional_expression \<or> t = eTOKEN_expression \<and> map takes_place cs ! 0)"
| "takes_place _ \<longleftrightarrow> False"

definition gives_value :: "scalar \<Rightarrow> gen_term \<Rightarrow> cAstNode \<Rightarrow> bool" where
  "gives_value M gt n \<longleftrightarrow> (\<forall>s y w. int_expr (g_ids s) n \<longrightarrow> y = None \<or> y = Some (IMU_Integer w) \<and> w < length (g_ids s) \<longrightarrow>
     (if y \<noteq> None \<and> takes_place n
      then \<exists>s' new. gt (Some n) False False False y s = Some (Inr ((Some (IMU_Integer w), True), s')) \<and> sets_code M s s' new w (\<lambda>\<sigma>. ival M \<sigma> n)
      else \<exists>t s' new. gt (Some n) False False False y s = Some (Inr ((Some t, False), s')) \<and> value_code M s s' new t (\<lambda>\<sigma>. ival M \<sigma> n)))"

lemma gives_valueD:
  assumes "gives_value M gt n" and "int_expr (g_ids s) n"
  shows "y = None \<or> y = Some (IMU_Integer w) \<and> \<not> takes_place n \<and> w < length (g_ids s) \<Longrightarrow>
      \<exists>t s' new. gt (Some n) False False False y s = Some (Inr ((Some t, False), s')) \<and> value_code M s s' new t (\<lambda>\<sigma>. ival M \<sigma> n)"
    and "takes_place n \<Longrightarrow> w < length (g_ids s) \<Longrightarrow>
      \<exists>s' new. gt (Some n) False False False (Some (IMU_Integer w)) s = Some (Inr ((Some (IMU_Integer w), True), s')) \<and>
        sets_code M s s' new w (\<lambda>\<sigma>. ival M \<sigma> n)"
  using assms(1) [unfolded gives_value_def, rule_format, OF assms(2), of y w]
    assms(1) [unfolded gives_value_def, rule_format, OF assms(2), of "Some (IMU_Integer w)" w]
  by (auto split: if_splits)

lemma gives_valueI:
  assumes "\<And>s y w. int_expr (g_ids s) n \<Longrightarrow> y = None \<or> y = Some (IMU_Integer w) \<and> w < length (g_ids s) \<Longrightarrow>
      y = None \<or> \<not> takes_place n \<Longrightarrow>
      \<exists>t s' new. gt (Some n) False False False y s = Some (Inr ((Some t, False), s')) \<and> value_code M s s' new t (\<lambda>\<sigma>. ival M \<sigma> n)"
    and "\<And>s w. int_expr (g_ids s) n \<Longrightarrow> takes_place n \<Longrightarrow> w < length (g_ids s) \<Longrightarrow>
      \<exists>s' new. gt (Some n) False False False (Some (IMU_Integer w)) s = Some (Inr ((Some (IMU_Integer w), True), s')) \<and>
        sets_code M s s' new w (\<lambda>\<sigma>. ival M \<sigma> n)"
  shows "gives_value M gt n"
  using assms unfolding gives_value_def by (auto split: if_splits)

lemma gives_good: "gives_value M gt n \<Longrightarrow> good_term M gt n"
  using gives_valueD(1) [of M gt n _ None] unfolding good_term_def by blast

lemma int_expr_cases:
  assumes "int_expr I (AstComposite t b cs)"
  obtains (cond) c a d where "t = eTOKEN_conditional_expression" "cs = [c, a, d]" "cond_expr I c" "int_expr I a" "int_expr I d"
  | (minus) n where "t = eTOKEN_unary_expression" "cs = [AstString eTOKEN_unary_operator ''-'', n]" "int_expr I n"
  | (single) n where "t = eTOKEN_expression" "cs = [n]" "int_expr I n"
  | (calc) "t \<in> set int_tokens" "2 \<le> length cs" "\<forall>c\<in>set cs. int_expr I c"
proof -
  have three: "\<exists>c a d. cs = [c, a, d]" if "length cs = 3" using that by (auto simp: length_Suc_conv numeral_eq_Suc)
  have two: "\<exists>c a. cs = [c, a]" if "length cs = 2" using that by (auto simp: length_Suc_conv numeral_eq_Suc)
  have one: "\<exists>c. cs = [c]" if "length cs = 1" using that by (auto simp: length_Suc_conv)
  consider "t = eTOKEN_conditional_expression" | "t = eTOKEN_unary_expression" | "t = eTOKEN_expression" | "t \<in> set int_tokens"
    using assms by (auto simp: Let_def split: if_splits)
  then show ?thesis
  proof cases
    case 1
    then obtain c a d where "cs = [c, a, d]" using assms three by (auto simp: Let_def)
    then show ?thesis using assms that(1) 1 by auto
  next
    case 2
    then obtain m n where "cs = [m, n]" using assms two by (auto simp: Let_def)
    then show ?thesis using assms that(2) 2 by (auto simp: is_unary_def)
  next
    case 3
    then obtain n where "cs = [n]" using assms one by (auto simp: Let_def)
    then show ?thesis using assms that(3) 3 by auto
  next
    case 4 then show ?thesis using assms that(4) by (auto simp: int_tokens_def list_all_iff)
  qed
qed

lemma term_step:
  assumes g: "\<forall>c. depth c < depth n \<longrightarrow> gives_value M gt c \<and> good_cond M gs c" and unit: "scalar_unit M"
  shows "gives_value M (genTerm_body cx gt gs) n"
proof (cases "getChildList n = []")
  case True
  then have "\<not> takes_place n" by (cases n) auto
  then show ?thesis using leaf_code True by (intro gives_valueI) blast+
next
  case False
  then obtain t b cs where n: "n = AstComposite t b cs" by (cases n) auto
  have sub: "gives_value M gt c" "good_term M gt c" "good_cond M gs c" if "c \<in> set cs" for c
    using g depth_child [of c n] that gives_good by (auto simp: n)
  have conditional: "\<exists>z s' new. genTerm_body cx gt gs (Some n) False False False y s = Some (Inr ((Some (IMU_Integer z), y \<noteq> None), s')) \<and>
      (if y = None then length (g_ids s) \<le> z else z = w) \<and> z < length (g_ids s') \<and> sets_code M s s' new z (\<lambda>\<sigma>. ival M \<sigma> n)"
    if c: "t = eTOKEN_conditional_expression" "int_expr (g_ids s) n" and y: "y = None \<or> y = Some (IMU_Integer w) \<and> w < length (g_ids s)"
    for s :: gstate and y w
    using c(2) [unfolded n]
  proof (cases rule: int_expr_cases)
    case (cond c a d)
    have "genTerm_body cx gt gs (Some n) False False False y s = genTermConditionalExpression gt gs n False y s"
      using c by (simp add: n genTerm_body_def genTerm_node_def)
    moreover have "(\<lambda>\<sigma>. ival M \<sigma> n) = (\<lambda>\<sigma>. if cval M \<sigma> c then ival M \<sigma> a else ival M \<sigma> d)"
      using cond by (simp add: n fun_eq_iff)
    ultimately show ?thesis using conditional_code [of M gs c gt a d s y w t b] sub cond y unit by (simp add: n)
  qed (use c in \<open>auto simp: int_tokens_def\<close>)
  have alone: "\<exists>m. cs = [m] \<and> int_expr (g_ids s) m \<and> (\<forall>\<sigma>. ival M \<sigma> n = ival M \<sigma> m) \<and> takes_place n = takes_place m \<and> gives_value M gt m \<and>
      (\<forall>y. genTerm_body cx gt gs (Some n) False False False y s = gt (Some m) False False False y s)"
    if c: "t = eTOKEN_expression" "int_expr (g_ids s) n" for s :: gstate
    using c(2) [unfolded n]
  proof (cases rule: int_expr_cases)
    case (single m)
    then show ?thesis using sub by (auto simp: n genTerm_body_def genTerm_node_def)
  qed (use c in \<open>auto simp: int_tokens_def\<close>)
  show ?thesis
  proof (rule gives_valueI)
    fix s :: gstate and y w
    assume e: "int_expr (g_ids s) n" and y: "y = None \<or> y = Some (IMU_Integer w) \<and> w < length (g_ids s)" and
      p: "y = None \<or> \<not> takes_place n"
    show "\<exists>u s' new. genTerm_body cx gt gs (Some n) False False False y s = Some (Inr ((Some u, False), s')) \<and>
        value_code M s s' new u (\<lambda>\<sigma>. ival M \<sigma> n)"
      using e [unfolded n]
    proof (cases rule: int_expr_cases)
      case (cond c a d)
      then have "y = None" using p by (simp add: n)
      then show ?thesis using conditional [of s y w] cond(1) e sets_new_var by fastforce
    next
      case (minus m)
      have "getChild [eTOKEN_unary_operator] n = Some (AstString eTOKEN_unary_operator ''-'')"
        using minus by (simp add: n getChild_def)
      then have "genTerm_body cx gt gs (Some n) False False False y s = genTermPreIncrementDecrement gt n False False s"
        using minus by (simp add: n genTerm_body_def genTerm_node_def)
      moreover have "(\<lambda>\<sigma>. ival M \<sigma> n) = (\<lambda>\<sigma>. sc_op M IOPCODE_SUB 0 (ival M \<sigma> m))" using minus by (simp add: n)
      ultimately show ?thesis
        using minus_code [OF sub(2) minus(3), of b] minus by (auto simp: n)
    next
      case (single m)
      then show ?thesis using alone [of s] e gives_valueD(1) [of M gt m s y w] y p by auto
    next
      case calc
      have "genTerm_body cx gt gs (Some n) False False False y s = genTermCalculation gt n False False s"
        using calc(1) int_tokens_calc [OF calc(1)] by (auto simp: n int_tokens_def genTerm_body_def genTerm_node_def Let_def)
      moreover have "(\<lambda>\<sigma>. ival M \<sigma> n) = (\<lambda>\<sigma>. foldl (sc_op M (op_code t)) (hd (map (ival M \<sigma>) cs)) (tl (map (ival M \<sigma>) cs)))"
        using calc(1) by (auto simp: n fun_eq_iff int_tokens_def Let_def)
      ultimately show ?thesis
        using calculation_code [of cs M gt s t b] sub(2) calc by (auto simp: n)
    qed
  next
    fix s :: gstate and w
    assume e: "int_expr (g_ids s) n" and p: "takes_place n" "w < length (g_ids s)"
    show "\<exists>s' new. genTerm_body cx gt gs (Some n) False False False (Some (IMU_Integer w)) s = Some (Inr ((Some (IMU_Integer w), True), s')) \<and>
        sets_code M s s' new w (\<lambda>\<sigma>. ival M \<sigma> n)"
    proof (cases "t = eTOKEN_conditional_expression")
      case True
      then show ?thesis using conditional [OF True e, of "Some (IMU_Integer w)" w] p by auto
    next
      case False
      then have "t = eTOKEN_expression" using p by (simp add: n)
      then show ?thesis using alone [of s] e gives_valueD(2) [of M gt _ s w] p by auto
    qed
  qed
qed

lemma cond_step:
  assumes g: "\<forall>c. depth c < depth n \<longrightarrow> good_term M gt c \<and> good_leaf gt c \<and> good_cond M gs c" and l: "good_leaf gt n" and unit: "scalar_unit M"
  shows "good_cond M (genStatement_body cx gt gs) n"
  unfolding good_cond_def
proof (intro allI impI)
  fix s :: gstate and a :: stmt_args and b
  assume e: "cond_expr (g_ids s) n" and a: "sa_logic a" "sa_br a = Some b" and b: "b < length (g_code s)"
  let ?G = "\<lambda>s' new. genStatement_body cx gt gs a n s = Some (Inr ((), s')) \<and>
    branch_code M s s' new b (sa_brAfter a) (\<lambda>\<sigma>. cval M \<sigma> n \<noteq> sa_reverse a)"
  show "\<exists>s' new. ?G s' new"
  proof (cases n)
    case n: (AstComposite t i cs)
    have sub: "good_term M gt c" "good_leaf gt c" "good_cond M gs c" if "c \<in> set cs" for c
      using g depth_child [of c n] that by (auto simp: n)
    have two: "\<exists>c d. cs = [c, d]" if "length cs = 2" using that by (auto simp: length_Suc_conv numeral_eq_Suc)
    consider "t = eTOKEN_logical_and_expression \<or> t = eTOKEN_logical_or_expression" | "t = eTOKEN_expression"
      | "t = eTOKEN_unary_expression" | "t \<in> set comparison_tokens"
      using e by (auto simp: n Let_def split: if_splits)
    then show ?thesis
    proof cases
      case 1
      then have "genStatement_body cx gt gs a n = gen_logical gs a n" by (auto simp: n genStatement_body_def)
      then show ?thesis using logical_code [of cs M gs s t i a b] sub(3) e 1 a b by (auto simp only: n)
    next
      case 2
      then obtain c where c: "cs = [c]" "cond_expr (g_ids s) c" using e by (auto simp: n length_Suc_conv)
      have "genStatement_body cx gt gs a n = gmap (gs a) [c]" using 2 c by (simp add: n genStatement_body_def)
      moreover have "(\<lambda>\<sigma>. cval M \<sigma> n \<noteq> sa_reverse a) = (\<lambda>\<sigma>. \<exists>c\<in>set [c]. cval M \<sigma> c \<noteq> sa_reverse a)"
        using 2 c by (simp add: n)
      ultimately show ?thesis using straight_code [of "[c]" M gs s a b] sub(3) c a b by simp
    next
      case 3
      then obtain u c where "cs = [u, c]" using e two by (auto simp: n)
      then have c: "cs = [AstString eTOKEN_unary_operator ''!'', c]" "simple_condition (g_ids s) c"
        using e 3 by (auto simp: n is_unary_def)
      have "genStatement_body cx gt gs a n = gen_expression gt a n" using 3 by (simp add: n genStatement_body_def comparison_tokens_def)
      moreover have "(\<lambda>\<sigma>. cval M \<sigma> n \<noteq> sa_reverse a) = (\<lambda>\<sigma>. (\<not> cval M \<sigma> c) \<noteq> sa_reverse a)"
        using 3 c by (simp add: n)
      ultimately show ?thesis
        using expression_code(2) [OF sub(2) unit c(2) a(2,1), of i] 3 c by (simp add: n)
    next
      case 4
      then obtain c d where cs: "cs = [c, d]" using e two by (auto simp: n Let_def comparison_tokens_def)
      then have c: "cs = [c, d]" "int_expr (g_ids s) c" "int_expr (g_ids s) d"
        using 4 e by (auto simp: n comparison_tokens_def)
      have "genStatement_body cx gt gs a n = gen_comparison gt a n"
        using 4 by (auto simp: n genStatement_body_def comparison_tokens_def)
      moreover have "(\<lambda>\<sigma>. cval M \<sigma> n \<noteq> sa_reverse a) = (\<lambda>\<sigma>. compares t (ival M \<sigma> c) (ival M \<sigma> d) \<noteq> sa_reverse a)"
        using 4 c by (auto simp: n comparison_tokens_def fun_eq_iff Let_def)
      ultimately show ?thesis
        using comparison_code [of M gt c d t s a b i] sub(1) unit 4 c a by (auto simp: n)
    qed
  qed (use e expression_code(1) [OF l unit _ a(2,1), of s] in \<open>auto simp: genStatement_body_def simple_condition_def comparison_tokens_def\<close>)
qed

lemma leaf_step: "good_leaf (genTerm_body cx gt gs) n"
  using leaf_code(1) unfolding good_leaf_def by blast

lemma generators_good:
  assumes unit: "scalar_unit M"
  shows "(2 * depth n + 2 \<le> k \<longrightarrow> gives_value M (genTerm_f cx k) n) \<and>
    (2 * depth n + 2 \<le> k \<longrightarrow> good_leaf (genTerm_f cx k) n) \<and> (2 * depth n + 3 \<le> k \<longrightarrow> good_cond M (genStatement_f cx k) n)"
proof (induction k arbitrary: n)
  case (Suc k)
  have t: "genTerm_f cx (Suc k) = genTerm_body cx (genTerm_f cx k) (genStatement_f cx k)"
    and s: "genStatement_f cx (Suc k) = genStatement_body cx (genTerm_f cx k) (genStatement_f cx k)"
    by (auto simp: fun_eq_iff)
  have "gives_value M (genTerm_f cx (Suc k)) n" if "2 * depth n + 2 \<le> Suc k"
    unfolding t by (rule term_step [OF _ unit]) (use Suc.IH that in auto)
  moreover have "good_leaf (genTerm_f cx (Suc k)) n"
    unfolding t by (rule leaf_step)
  moreover have "good_cond M (genStatement_f cx (Suc k)) n" if "2 * depth n + 3 \<le> Suc k"
    unfolding s by (rule cond_step [OF _ _ unit]) (use Suc.IH that gives_good in auto)
  ultimately show ?case by blast
qed simp

section \<open>Conditions, values and assignments\<close>

text \<open>The arguments for a condition that branches to (or behind) an instruction, for a statement, and an assignment.\<close>

definition condition_args :: "bool \<Rightarrow> nat \<Rightarrow> bool \<Rightarrow> stmt_args" where
  "condition_args rv b after =
     \<lparr>sa_reverse = rv, sa_hasExit = False, sa_exit = None, sa_br = Some b, sa_brAfter = after,
      sa_blockExit = None, sa_blockCont = None, sa_logic = True\<rparr>"

lemma genStatement_branches:
  assumes "scalar_unit M" and "cond_expr (g_ids s) c" and "sa_logic a" "sa_br a = Some b" "b < length (g_code s)"
  shows "\<exists>s' new. genStatement cx a c s = Some (Inr ((), s')) \<and>
    branch_code M s s' new b (sa_brAfter a) (\<lambda>\<sigma>. cval M \<sigma> c \<noteq> sa_reverse a)"
proof -
  have "good_cond M (genStatement_f cx (2 * depth c + 3)) c" using generators_good [OF assms(1)] by blast
  from good_condE [OF this assms(2-5)] show ?thesis unfolding genStatement_def by metis
qed

lemma genTerm_value:
  assumes "scalar_unit M" and "int_expr (g_ids s) n"
  shows "\<exists>t s' new. genTerm cx n False s = Some (Inr ((Some t, False), s')) \<and> value_code M s s' new t (\<lambda>\<sigma>. ival M \<sigma> n)"
proof -
  have "gives_value M (genTerm_f cx (2 * depth n + 2)) n" using generators_good [OF assms(1)] by blast
  then show ?thesis
    using good_termE [OF gives_good] assms(2) unfolding genTerm_def by metis
qed

text \<open>
  Assignments to an integer variable. For \<open>op=\<close> the place is passed to the right side too, so that a conditional
  expression overwrites it before the operation.
\<close>

definition assigned :: "scalar \<Rightarrow> eTOKEN \<Rightarrow> cAstNode \<Rightarrow> nat \<Rightarrow> regs \<Rightarrow> int" where
  "assigned M op e w \<sigma> =
     (case assign_op False op of
        Inl _ \<Rightarrow> ival M \<sigma> e
      | Inr oc \<Rightarrow> sc_op M oc (if takes_place e then ival M \<sigma> e else \<sigma> w) (ival M \<sigma> e))"

definition int_assignment :: "idents \<Rightarrow> cAstNode \<Rightarrow> bool" where
  "int_assignment I n \<longleftrightarrow> (\<exists>b v w p q e. n = AstComposite eTOKEN_assignment_expression b [AstIdentifier eTOKEN_IDENTIFIER v (Some w), AstToken p q [], e] \<and>
     (p = eTOKEN_assignment_operator \<or> (\<exists>oc. assign_op False p = Inr oc)) \<and>
     int_expr I (AstIdentifier eTOKEN_IDENTIFIER v (Some w)) \<and> int_expr I e)"

lemma assign_op_plain: "assign_op False eTOKEN_assignment_operator = Inl CompileError"
  by (simp add: assign_op_def)

lemma assign_op_positive: "assign_op False p = Inr oc \<Longrightarrow> 0 < oc"
  by (auto simp: assign_op_def split: if_splits)

lemma integer_not_double:
  assumes "int_var I (Some w)"
  shows "isDouble I (IMU_Integer w) = False"
proof -
  have "\<not> cls_isKindOf CInteger CExReg" by (simp add: cls_isKindOf.simps)
  then show ?thesis using assms by (auto simp: isDouble_def isKindOf_def int_var_def add_new_def split: list.split)
qed

lemma assignment_code:
  assumes g: "gives_value M gt e" and l: "good_leaf gt (AstIdentifier eTOKEN_IDENTIFIER v (Some w))" and unit: "scalar_unit M"
    and x: "int_expr (g_ids s) (AstIdentifier eTOKEN_IDENTIFIER v (Some w))" and e: "int_expr (g_ids s) e"
    and p: "p = eTOKEN_assignment_operator \<or> assign_op False p = Inr oc"
  shows "\<exists>s' new. genTermAssignmentExpression gt (AstComposite t b [AstIdentifier eTOKEN_IDENTIFIER v (Some w), AstToken p q r, e]) s
      = Some (Inr ((Some (IMU_Integer w), False), s')) \<and> sets_code M s s' new w (assigned M p e w)"
proof -
  let ?y = "IMU_Integer w"
  let ?n = "AstComposite t b [AstIdentifier eTOKEN_IDENTIFIER v (Some w), AstToken p q r, e]"
  have w: "w < length (g_ids s)" using x by (simp add: int_var_def)
  have y: "gt (Some (AstIdentifier eTOKEN_IDENTIFIER v (Some w))) False False False None s = Some (Inr ((Some ?y, False), s))"
    using l x by (simp add: good_leaf_def leaf_term_def)
  have d: "isDouble (g_ids s) ?y = False" using x integer_not_double by simp
  note run = genTermAssignmentExpression_def run_simps y ids_of_def d
  show ?thesis
  proof (cases "takes_place e")
    case True
    obtain s1 new where 1: "gt (Some e) False False False (Some ?y) s = Some (Inr ((Some ?y, True), s1))"
      "sets_code M s s1 new w (\<lambda>\<sigma>. ival M \<sigma> e)"
      using gives_valueD(2) [OF g e True w] by blast
    show ?thesis
    proof (cases "p = eTOKEN_assignment_operator")
      case True
      then have "genTermAssignmentExpression gt ?n s = Some (Inr ((Some ?y, False), s1))" using 1(1) by (simp add: run)
      moreover have "assigned M p e w = (\<lambda>\<sigma>. ival M \<sigma> e)" using True by (simp add: assigned_def assign_op_plain fun_eq_iff)
      ultimately show ?thesis using 1(2) by auto
    next
      case False
      then have oc: "assign_op False p = Inr oc" using p by simp
      have "genTermAssignmentExpression gt ?n s =
          Some (Inr ((Some ?y, False), plus_instr (createIMU oc (Some ?y) (Some ?y) (Some ?y) new_cInstruction) s1))"
        using False 1(1) oc by (simp add: run)
      moreover have "assigned M p e w = (\<lambda>\<sigma>. sc_op M oc (ival M \<sigma> e) (ival M \<sigma> e))" using oc True by (simp add: assigned_def fun_eq_iff \<open>takes_place e\<close>)
      ultimately show ?thesis using sets_code_then [OF 1(2) assign_op_positive [OF oc]] by auto
    qed
  next
    case False
    obtain u s1 new where 1: "gt (Some e) False False False (Some ?y) s = Some (Inr ((Some u, False), s1))"
      "value_code M s s1 new u (\<lambda>\<sigma>. ival M \<sigma> e)"
      using gives_valueD(1) [OF g e, of "Some ?y" w] False w by blast
    have u: "\<not> is_MU u" using operand_not_MU [OF value_codeD(2) [OF 1(2)]] .
    show ?thesis
    proof (cases "p = eTOKEN_assignment_operator")
      case True
      then have "genTermAssignmentExpression gt ?n s =
          Some (Inr ((Some ?y, False), plus_instr (createIMU IOPCODE_ADD (Some IMU_Zero) (Some u) (Some ?y) new_cInstruction) s1))"
        using 1(1) u by (simp add: run)
      moreover have "assigned M p e w = (\<lambda>\<sigma>. ival M \<sigma> e)" using True by (simp add: assigned_def assign_op_plain fun_eq_iff)
      ultimately show ?thesis
        using set_instr_code [OF 1(2), of IOPCODE_ADD IMU_Zero u "\<lambda>v. v" w] unit by (auto simp: scalar_unit_def)
    next
      case False
      then have oc: "assign_op False p = Inr oc" using p by simp
      have "genTermAssignmentExpression gt ?n s =
          Some (Inr ((Some ?y, False), plus_instr (createIMU oc (Some ?y) (Some u) (Some ?y) new_cInstruction) s1))"
        using False 1(1) oc u by (simp add: run)
      moreover have "assigned M p e w = (\<lambda>\<sigma>. sc_op M oc (\<sigma> w) (ival M \<sigma> e))" using oc by (simp add: assigned_def fun_eq_iff \<open>\<not> takes_place e\<close>)
      moreover have "sets_code M s (plus_instr (createIMU oc (Some ?y) (Some u) (Some ?y) new_cInstruction) s1) (new @ [length (g_code s1)]) w
          (\<lambda>\<sigma>. sc_op M oc (\<sigma> w) (ival M \<sigma> e))"
        by (rule assign_instr_code [OF 1(2) assign_op_positive [OF oc]]) (use w in \<open>simp add: keeps_old_def\<close>)
      ultimately show ?thesis by auto
    qed
  qed
qed


end
