(* ===== verification/GenProg.thy ===== *)
theory GenProg
  imports GenCode
begin

text \<open>
  Correctness of the code for statements: assignments, sequences and selections of \<open>process_code_block\<close>, with the
  properties of the generator as a whole.
\<close>

section \<open>Statements without control flow\<close>

text \<open>
  What a statement does to the variables. An expression statement is a list of assignments; the meaning of
  \<open>x op= e\<close> is that of the language, the old value of \<open>x\<close> combined with the value of \<open>e\<close>.
\<close>

definition assign_value :: "scalar \<Rightarrow> eTOKEN \<Rightarrow> int \<Rightarrow> int \<Rightarrow> int" where
  "assign_value M op old v = (case assign_op False op of Inl _ \<Rightarrow> v | Inr oc \<Rightarrow> sc_op M oc old v)"

definition run_assignment :: "scalar \<Rightarrow> cAstNode list \<Rightarrow> regs \<Rightarrow> regs" where
  "run_assignment M cs \<sigma> =
     (case cs of
        [AstIdentifier i v (Some w), p, e] \<Rightarrow> \<sigma>(w := assign_value M (getID p) (\<sigma> w) (ival M \<sigma> e))
      | _ \<Rightarrow> \<sigma>)"

fun assignment_ok :: "idents \<Rightarrow> cAstNode list \<Rightarrow> bool" where
  "assignment_ok I [AstIdentifier i v (Some w), AstToken p q r, e] \<longleftrightarrow>
     int_expr I (AstIdentifier i v (Some w)) \<and> int_expr I e \<and>
     (p = eTOKEN_assignment_operator \<or> (case assign_op False p of Inr oc \<Rightarrow> \<not> takes_place e | Inl _ \<Rightarrow> False))"
| "assignment_ok I _ \<longleftrightarrow> False"

lemma assignment_okE:
  assumes "assignment_ok I cs"
  obtains v w p q r e oc where "cs = [AstIdentifier eTOKEN_IDENTIFIER v (Some w), AstToken p q r, e]"
    "int_expr I (AstIdentifier eTOKEN_IDENTIFIER v (Some w))" "int_expr I e"
    "p = eTOKEN_assignment_operator \<or> assign_op False p = Inr oc \<and> \<not> takes_place e"
  using assms by (elim assignment_ok.elims(2)) (auto split: sum.splits)

fun effect_ok :: "idents \<Rightarrow> cAstNode \<Rightarrow> bool" where
  "effect_ok I (AstComposite t b cs) =
     (if t = eTOKEN_expression then list_all (\<lambda>v. v) (map (effect_ok I) cs)
      else t = eTOKEN_assignment_expression \<and> assignment_ok I cs)"
| "effect_ok I _ = False"

fun run_effect :: "scalar \<Rightarrow> cAstNode \<Rightarrow> regs \<Rightarrow> regs" where
  "run_effect M (AstComposite t b cs) \<sigma> =
     (if t = eTOKEN_expression then fold (\<lambda>f. f) (map (run_effect M) cs) \<sigma> else run_assignment M cs \<sigma>)"
| "run_effect M _ \<sigma> = \<sigma>"

definition same_vars :: "idents \<Rightarrow> regs \<Rightarrow> regs \<Rightarrow> bool" where
  "same_vars I \<sigma> \<tau> \<longleftrightarrow> (\<forall>i<length I. \<sigma> i = \<tau> i)"

text \<open>Code that ends with what a statement does to the variables that were there.\<close>

definition block_code :: "scalar \<Rightarrow> gstate \<Rightarrow> gstate \<Rightarrow> nat list \<Rightarrow> (regs \<Rightarrow> regs) \<Rightarrow> bool" where
  "block_code M s s' new F \<longleftrightarrow> adds s s' new \<and>
     (\<forall>\<sigma>. \<exists>\<sigma>'. fwd M (g_code s') new \<sigma> = Falls \<sigma>' \<and> same_vars (g_ids s) \<sigma>' (F \<sigma>))"

definition keeps_vars :: "idents \<Rightarrow> (regs \<Rightarrow> regs) \<Rightarrow> bool" where
  "keeps_vars I F \<longleftrightarrow> (\<forall>\<sigma> \<tau>. same_vars I \<sigma> \<tau> \<longrightarrow> same_vars I (F \<sigma>) (F \<tau>))"

lemma same_vars_trans: "same_vars I \<sigma> \<tau> \<Longrightarrow> same_vars I \<tau> \<upsilon> \<Longrightarrow> same_vars I \<sigma> \<upsilon>"
  by (simp add: same_vars_def)

lemma same_vars_grows: "grows s s' \<Longrightarrow> same_vars (g_ids s') \<sigma> \<tau> \<Longrightarrow> same_vars (g_ids s) \<sigma> \<tau>"
  using grows_length [of s s'] by (simp add: same_vars_def)

lemma block_code_seq:
  assumes a: "block_code M s s1 new1 F" and b: "block_code M s1 s2 new2 G" and r: "keeps_vars (g_ids s) G"
  shows "block_code M s s2 (new1 @ new2) (\<lambda>\<sigma>. G (F \<sigma>))"
proof -
  have ad: "adds s s1 new1" "adds s1 s2 new2" using a b by (simp_all add: block_code_def)
  have "\<exists>\<sigma>'. fwd M (g_code s2) (new1 @ new2) \<sigma> = Falls \<sigma>' \<and> same_vars (g_ids s) \<sigma>' (G (F \<sigma>))" for \<sigma>
  proof -
    obtain \<sigma>1 where 1: "fwd M (g_code s1) new1 \<sigma> = Falls \<sigma>1" "same_vars (g_ids s) \<sigma>1 (F \<sigma>)"
      using a unfolding block_code_def by blast
    obtain \<sigma>2 where 2: "fwd M (g_code s2) new2 \<sigma>1 = Falls \<sigma>2" "same_vars (g_ids s1) \<sigma>2 (G \<sigma>1)"
      using b unfolding block_code_def by blast
    have "fwd M (g_code s2) (new1 @ new2) \<sigma> = Falls \<sigma>2"
      by (simp add: fwd_append fwd_grows [OF ad(1) adds_grows [OF ad(2)]] 1(1) 2(1))
    moreover have "same_vars (g_ids s) (G \<sigma>1) (G (F \<sigma>))" using r 1(2) by (simp add: keeps_vars_def)
    ultimately show ?thesis using same_vars_trans [OF same_vars_grows [OF adds_grows [OF ad(1)] 2(2)]] by blast
  qed
  then show ?thesis using adds_trans [OF ad] by (simp add: block_code_def)
qed

lemma block_code_cong: "block_code M s s' new F \<Longrightarrow> (\<And>\<sigma>. F \<sigma> = G \<sigma>) \<Longrightarrow> block_code M s s' new G"
  by (simp add: block_code_def)

lemma block_code_nothing: "block_code M s s [] (\<lambda>\<sigma>. \<sigma>)"
  by (auto simp: block_code_def same_vars_def)

lemma block_codeD: "block_code M s s' new F \<Longrightarrow> adds s s' new" "block_code M s s' new F \<Longrightarrow> grows s s'"
  using adds_grows by (auto simp: block_code_def)

section \<open>Assignments\<close>

lemma genTerm_f_Suc: "genTerm_f cx (Suc k) = genTerm_body cx (genTerm_f cx k) (genStatement_f cx k)"
  and genStatement_f_Suc: "genStatement_f cx (Suc k) = genStatement_body cx (genTerm_f cx k) (genStatement_f cx k)"
  by (auto simp: fun_eq_iff)

lemma assignment_statement_f:
  assumes n_def: "n = AstComposite eTOKEN_assignment_expression b [AstIdentifier eTOKEN_IDENTIFIER v (Some w), AstToken p q r, e]"
    and unit: "scalar_unit M" and x: "int_expr (g_ids s) (AstIdentifier eTOKEN_IDENTIFIER v (Some w))" and e: "int_expr (g_ids s) e"
    and p: "p = eTOKEN_assignment_operator \<or> assign_op False p = Inr oc" and a: "\<not> sa_logic a" and k: "2 * depth n + 3 \<le> k"
  shows "\<exists>s' new. genStatement_f cx k a n s = Some (Inr ((), s')) \<and> sets_code M s s' new w (assigned M p e w)"
proof -
  obtain j where j: "k = Suc (Suc j)" "2 * depth e + 2 \<le> j" "2 \<le> j"
    using k depth_child [of e n] by (cases k; cases "k - 1") (auto simp: n_def)
  let ?gt = "genTerm_f cx j"
  have g: "gives_value M ?gt e" "good_leaf ?gt (AstIdentifier eTOKEN_IDENTIFIER v (Some w))"
    using generators_good [OF unit, of e j cx] generators_good [OF unit, of "AstIdentifier eTOKEN_IDENTIFIER v (Some w)" j cx] j by auto
  have "genStatement_f cx k a n = gbind (genTerm_f cx (Suc j) (Some n) False False False None) (\<lambda>_. gret ())"
    using a by (simp add: j(1) genStatement_f_Suc genStatement_body_def gen_expression_def n_def comparison_tokens_def del: genTerm_f.simps genStatement_f.simps)
  moreover have "genTerm_f cx (Suc j) (Some n) False False False None = genTermAssignmentExpression ?gt n"
    by (simp add: genTerm_f_Suc genTerm_body_def genTerm_node_def n_def del: genTerm_f.simps)
  ultimately have "genStatement_f cx k a n s = gbind (genTermAssignmentExpression ?gt n) (\<lambda>_. gret ()) s" by simp
  moreover obtain s' new where "genTermAssignmentExpression ?gt n s = Some (Inr ((Some (IMU_Integer w), False), s'))"
    "sets_code M s s' new w (assigned M p e w)"
    using assignment_code [OF g unit x e p] unfolding n_def by blast
  ultimately show ?thesis by (auto simp: gbind_def gret_def)
qed

lemma sets_block: "sets_code M s s' new w f \<Longrightarrow> block_code M s s' new (\<lambda>\<sigma>. \<sigma>(w := f \<sigma>)) \<and> new \<noteq> []"
  unfolding sets_code_def block_code_def same_vars_def by (metis fun_upd_apply)

definition code_wf :: "gstate \<Rightarrow> bool" where
  "code_wf s \<longleftrightarrow> distinct (g_lst s) \<and> set (g_lst s) \<subseteq> {..<length (g_code s)}"

lemma adds_wf: "adds s s' new \<Longrightarrow> code_wf s \<Longrightarrow> code_wf s'"
  using grows_length [OF adds_grows, of s s' new] by (fastforce simp: adds_def code_wf_def)

text \<open>A list of statements one after the other. \<open>Q\<close> are those that are known to leave code behind.\<close>

lemma gmap_code:
  assumes "\<And>c s'. c \<in> set cs \<Longrightarrow> grows s s' \<Longrightarrow> code_wf s' \<Longrightarrow>
      \<exists>s'' new. f c s' = Some (Inr ((), s'')) \<and> block_code M s' s'' new (R c) \<and> (Q c \<longrightarrow> new \<noteq> [])"
    and "\<And>c I. c \<in> set cs \<Longrightarrow> prefix (g_ids s) I \<Longrightarrow> keeps_vars I (R c)" and "code_wf s"
  shows "\<exists>s' new. gmap f cs s = Some (Inr ((), s')) \<and> block_code M s s' new (fold R cs) \<and> (list_ex Q cs \<longrightarrow> new \<noteq> [])"
  using assms
proof (induction cs arbitrary: s)
  case Nil
  show ?case using block_code_nothing [of M s] by (auto simp: gret_run id_def)
next
  case (Cons c cs)
  obtain s1 new1 where 1: "f c s = Some (Inr ((), s1))" "block_code M s s1 new1 (R c)" "Q c \<longrightarrow> new1 \<noteq> []"
    using Cons.prems(1) [of c s] Cons.prems(3) by auto
  have g: "grows s s1" and wf: "code_wf s1" using block_codeD [OF 1(2)] adds_wf Cons.prems(3) by blast+
  obtain s2 new2 where 2: "gmap f cs s1 = Some (Inr ((), s2))" "block_code M s1 s2 new2 (fold R cs)" "list_ex Q cs \<longrightarrow> new2 \<noteq> []"
    using Cons.IH [of s1] Cons.prems(1,2) grows_trans [OF g] wf g unfolding grows_def
    by (smt (verit) list.set_intros(2) prefix_order.trans)
  have "keeps_vars (g_ids s) (fold R cs)"
    using Cons.prems(2) [of _ "g_ids s"]
  proof (induction cs)
    case (Cons d ds)
    then have "keeps_vars (g_ids s) (R d)" "keeps_vars (g_ids s) (fold R ds)" by auto
    then show ?case by (simp add: keeps_vars_def)
  qed (simp add: keeps_vars_def)
  then have "block_code M s s2 (new1 @ new2) (\<lambda>\<sigma>. fold R cs (R c \<sigma>))" by (rule block_code_seq [OF 1(2) 2(2)])
  then have "block_code M s s2 (new1 @ new2) (fold R (c # cs))" by (rule block_code_cong) simp
  moreover have "gmap f (c # cs) s = Some (Inr ((), s2))" using 1(1) 2(1) by (simp add: gbind_run)
  moreover have "list_ex Q (c # cs) \<longrightarrow> new1 @ new2 \<noteq> []" using 1(3) 2(3) by auto
  ultimately show ?case by blast
qed


lemma keeps_assignment:
  assumes "assignment_ok I cs"
  shows "keeps_vars I (run_assignment M cs)"
proof -
  obtain v w p q r e where cs: "cs = [AstIdentifier eTOKEN_IDENTIFIER v (Some w), AstToken p q r, e]" and e: "int_expr I e"
    using assignment_okE [OF assms] by metis
  show ?thesis
    unfolding keeps_vars_def
  proof (intro allI impI)
    fix \<sigma> \<tau> assume a: "same_vars I \<sigma> \<tau>"
    then have "ival M \<sigma> e = ival M \<tau> e" using value_cong(1) [OF e] by (simp add: same_vars_def)
    then show "same_vars I (run_assignment M cs \<sigma>) (run_assignment M cs \<tau>)"
      using a by (simp add: cs run_assignment_def same_vars_def)
  qed
qed

lemma keeps_fold: "\<forall>c\<in>set cs. keeps_vars I (R c) \<Longrightarrow> keeps_vars I (fold R cs)"
  by (induction cs) (auto simp: keeps_vars_def)

lemma fold_run: "fold (\<lambda>f. f) (map R cs) = fold R cs"
  by (simp add: fold_map comp_def)

lemma keeps_effect: "effect_ok I n \<Longrightarrow> keeps_vars I (run_effect M n)"
proof (induction n)
  case (AstComposite t b cs)
  show ?case
  proof (cases "t = eTOKEN_expression")
    case True
    then have "run_effect M (AstComposite t b cs) = fold (run_effect M) cs"
      by (simp add: fold_run fun_eq_iff)
    moreover have "\<forall>c\<in>set cs. keeps_vars I (run_effect M c)" using AstComposite True by (auto simp: list_all_iff)
    ultimately show ?thesis using keeps_fold [of cs I "run_effect M"] by simp
  next
    case False
    then have "run_effect M (AstComposite t b cs) = run_assignment M cs" by (simp add: fun_eq_iff)
    then show ?thesis using AstComposite.prems False keeps_assignment by simp
  qed
qed auto

lemma assignment_ok_grows:
  fixes s s' :: gstate
  assumes g: "prefix (g_ids s) (g_ids s')" and a: "assignment_ok (g_ids s) cs"
  shows "assignment_ok (g_ids s') cs"
proof -
  have "grows (s\<lparr>g_code := []\<rparr>) (s'\<lparr>g_code := []\<rparr>)" using g by (simp add: grows_def)
  then have "int_expr (g_ids s) n \<Longrightarrow> int_expr (g_ids s') n" for n using expr_grows(1) by fastforce
  then show ?thesis using a by (elim assignment_ok.elims(2)) (auto simp del: int_expr.simps)
qed

lemma effect_ok_grows:
  fixes s s' :: gstate
  shows "prefix (g_ids s) (g_ids s') \<Longrightarrow> effect_ok (g_ids s) n \<Longrightarrow> effect_ok (g_ids s') n"
proof (induction n)
  case (AstComposite t b cs)
  then show ?case using assignment_ok_grows [of s s' cs] by (auto simp: list_all_iff split: if_splits)
qed auto

text \<open>Which statements leave code behind for certain.\<close>

fun makes_code :: "cAstNode \<Rightarrow> bool" where
  "makes_code (AstComposite t b cs) \<longleftrightarrow>
     t \<noteq> eTOKEN_declaration \<and>
     (t = eTOKEN_assignment_expression \<or> t = eTOKEN_selection_statement \<or> list_ex (\<lambda>v. v) (map makes_code cs))"
| "makes_code _ \<longleftrightarrow> False"

lemma list_ex_map: "list_ex (\<lambda>v. v) (map f cs) = list_ex f cs"
  by (simp add: list_ex_iff)

lemma effect_code:
  assumes unit: "scalar_unit M"
  shows "effect_ok (g_ids s) n \<Longrightarrow> \<not> sa_logic a \<Longrightarrow> code_wf s \<Longrightarrow> 2 * depth n + 3 \<le> k \<Longrightarrow>
    \<exists>s' new. genStatement_f cx k a n s = Some (Inr ((), s')) \<and> block_code M s s' new (run_effect M n) \<and> (makes_code n \<longrightarrow> new \<noteq> [])"
proof (induction n arbitrary: s k)
  case (AstComposite t b cs)
  let ?n = "AstComposite t b cs"
  show ?case
  proof (cases "t = eTOKEN_expression")
    case True
    obtain j where j: "k = Suc j" using AstComposite.prems(4) by (cases k) auto
    have run: "genStatement_f cx k a ?n = gmap (genStatement_f cx j a) cs"
      using True by (simp add: j genStatement_body_def fun_eq_iff)
    have sem: "run_effect M ?n = fold (run_effect M) cs" using True by (simp add: fold_run fun_eq_iff)
    have "\<exists>s' new. gmap (genStatement_f cx j a) cs s = Some (Inr ((), s')) \<and> block_code M s s' new (fold (run_effect M) cs) \<and>
        (list_ex makes_code cs \<longrightarrow> new \<noteq> [])"
    proof (rule gmap_code)
      fix c s' assume c: "c \<in> set cs" "grows s s'" "code_wf s'"
      have "effect_ok (g_ids s') c" using AstComposite.prems(1) True c effect_ok_grows [of s s' c]
        by (auto simp: list_all_iff grows_def)
      moreover have "2 * depth c + 3 \<le> j" using AstComposite.prems(4) depth_child [of c ?n] c(1) j by simp
      ultimately show "\<exists>s'' new. genStatement_f cx j a c s' = Some (Inr ((), s'')) \<and> block_code M s' s'' new (run_effect M c) \<and>
          (makes_code c \<longrightarrow> new \<noteq> [])"
        using AstComposite.IH [OF c(1), of s' j] AstComposite.prems(2) c(3) by blast
    next
      fix c I assume "c \<in> set cs" "prefix (g_ids s) I"
      then show "keeps_vars I (run_effect M c)"
        using AstComposite.prems(1) True effect_ok_grows [of s "s\<lparr>g_ids := I\<rparr>" c] keeps_effect by (auto simp: list_all_iff)
    qed (fact AstComposite.prems(3))
    then show ?thesis unfolding run sem using True by (auto simp: list_ex_map)
  next
    case False
    then have t: "t = eTOKEN_assignment_expression" and ok: "assignment_ok (g_ids s) cs" using AstComposite.prems(1) by auto
    obtain v w p q r e oc where cs: "cs = [AstIdentifier eTOKEN_IDENTIFIER v (Some w), AstToken p q r, e]"
      and x: "int_expr (g_ids s) (AstIdentifier eTOKEN_IDENTIFIER v (Some w))" "int_expr (g_ids s) e"
      and p: "p = eTOKEN_assignment_operator \<or> assign_op False p = Inr oc \<and> \<not> takes_place e"
      using assignment_okE [OF ok] by metis
    then have p': "p = eTOKEN_assignment_operator \<or> assign_op False p = Inr oc" by blast
    have n: "?n = AstComposite eTOKEN_assignment_expression b [AstIdentifier eTOKEN_IDENTIFIER v (Some w), AstToken p q r, e]"
      by (simp add: t cs)
    obtain s' new where 1: "genStatement_f cx k a ?n s = Some (Inr ((), s'))" "sets_code M s s' new w (assigned M p e w)"
      using assignment_statement_f [OF n unit x p' AstComposite.prems(2,4)] by blast
    have "assigned M p e w \<sigma> = assign_value M p (\<sigma> w) (ival M \<sigma> e)" for \<sigma>
      using p by (auto simp: assigned_def assign_value_def assign_op_plain)
    then have "run_effect M ?n = (\<lambda>\<sigma>. \<sigma>(w := assigned M p e w \<sigma>))"
      using False by (simp add: cs run_assignment_def fun_eq_iff)
    then show ?thesis using 1(1) sets_block [OF 1(2)] by (metis (no_types))
  qed
qed auto


section \<open>Selections\<close>

text \<open>The list under a selection: a condition, a statement, and after \<open>else\<close> a statement or such a list again.\<close>

fun tests :: "cAstNode list \<Rightarrow> cAstNode list" where
  "tests (c # t # rest) = c # tests rest"
| "tests _ = []"

fun bodies :: "cAstNode list \<Rightarrow> cAstNode list" where
  "bodies [c, t] = [t]"
| "bodies [c, t, f] = [t, f]"
| "bodies (c # t # c2 # t2 # rest) = t # bodies (c2 # t2 # rest)"
| "bodies _ = []"

fun taken_branch :: "(cAstNode \<Rightarrow> bool) \<Rightarrow> cAstNode list \<Rightarrow> cAstNode option" where
  "taken_branch cv [c, t] = (if cv c then Some t else None)"
| "taken_branch cv [c, t, f] = Some (if cv c then t else f)"
| "taken_branch cv (c # t # c2 # t2 # rest) = (if cv c then Some t else taken_branch cv (c2 # t2 # rest))"
| "taken_branch cv _ = None"

lemma bodies_subset: "set (bodies cs) \<subseteq> set cs"
  by (induction cs rule: bodies.induct) auto

lemma taken_body: "taken_branch cv cs = Some n \<Longrightarrow> n \<in> set (bodies cs)"
  by (induction cv cs rule: taken_branch.induct) (auto split: if_splits)

definition last_opt :: "'a list \<Rightarrow> 'a option" where
  "last_opt xs = (if xs = [] then None else Some (last xs))"

lemma get_last_run: "get_last s = Some (Inr (last_opt (g_lst s), s))"
  by (simp add: get_last_def last_opt_def)

lemma insert_behind_last:
  assumes "distinct xs"
  shows "list_insert_after (last_opt xs) ys (xs @ zs) = xs @ ys @ zs"
proof (cases xs rule: rev_cases)
  case (snoc as a)
  then show ?thesis using assms list_insert_after_split [of a as ys zs] by (simp add: last_opt_def)
qed (simp add: last_opt_def)

text \<open>The condition is generated last, into a list of its own that is put in front.\<close>

lemma condition_in_front:
  assumes unit: "scalar_unit M" and ad: "adds s s1 tail" and wf: "code_wf s" and e: "e < length (g_code s1)" and d: "cond_expr (g_ids s) d"
  shows "\<exists>s2 new. gbind (separately (genStatement cx (in_block ba True (Some e) True True) d)) (\<lambda>code. insert_instr code (last_opt (g_lst s))) s1
      = Some (Inr ((), s2)) \<and> adds s s2 (new @ tail) \<and> grows s1 s2 \<and> set new \<subseteq> {length (g_code s1)..} \<and>
    (\<forall>\<sigma>. \<exists>\<sigma>'. fwd M (g_code s2) new \<sigma> = (if \<not> cval M \<sigma> d then Leaves (Some e) True \<sigma>' else Falls \<sigma>') \<and> same_vars (g_ids s) \<sigma>' \<sigma>)"
proof -
  let ?s = "s1\<lparr>g_lst := []\<rparr>" and ?a = "in_block ba True (Some e) True True"
  have g: "grows s s1" using adds_grows [OF ad] .
  then have "cond_expr (g_ids ?s) d" using expr_grows(2) d by fastforce
  then obtain s2 new where 2: "genStatement cx ?a d ?s = Some (Inr ((), s2))"
    "branch_code M ?s s2 new e True (\<lambda>\<sigma>. cval M \<sigma> d \<noteq> True)"
    using genStatement_branches [OF unit, of ?s d ?a e cx] e by (auto simp: in_block_def)
  have a2: "adds ?s s2 new" using 2(2) by (simp add: branch_code_def)
  have n: "g_lst s2 = new" "g_lst s1 = g_lst s @ tail" using a2 ad by (simp_all add: adds_def)
  let ?t = "s2\<lparr>g_lst := g_lst s @ new @ tail\<rparr>"
  have "gbind (separately (genStatement cx ?a d)) (\<lambda>code. insert_instr code (last_opt (g_lst s))) s1 = Some (Inr ((), ?t))"
    using 2(1) wf by (simp add: separately_def gbind_def insert_instr_def n insert_behind_last code_wf_def)
  moreover have "grows s1 ?t" using a2 by (simp add: adds_def grows_def)
  moreover have "adds s ?t (new @ tail)"
    using a2 ad grows_trans [OF g \<open>grows s1 ?t\<close>] grows_length [OF g] grows_length [OF \<open>grows s1 ?t\<close>]
    by (fastforce simp: adds_def)
  moreover have "set new \<subseteq> {length (g_code s1)..}" using a2 by (auto simp: adds_def)
  moreover have "\<exists>\<sigma>'. fwd M (g_code ?t) new \<sigma> = (if \<not> cval M \<sigma> d then Leaves (Some e) True \<sigma>' else Falls \<sigma>') \<and> same_vars (g_ids s) \<sigma>' \<sigma>" for \<sigma>
    using 2(2) grows_length [OF g] unfolding branch_code_def keeps_old_def same_vars_def by fastforce
  ultimately show ?thesis by blast
qed

lemma behind_last: "xs \<noteq> [] \<Longrightarrow> distinct xs \<Longrightarrow> behind (last xs) True xs = []"
  using behind_True [of "last xs" "butlast xs" "[]"] by (metis append_butlast_last_id distinct_append disjoint_iff list.set_intros(1))

lemma piece_last:
  assumes ad: "adds s s1 new" and ne: "new \<noteq> []" and wf: "code_wf s"
  shows "g_lst s1 = g_lst s @ new" "last_opt (g_lst s1) = Some (last new)" "distinct new" "last new < length (g_code s1)"
    "length (g_code s) \<le> last new" "last_opt (g_lst s1) \<noteq> last_opt (g_lst s)"
proof -
  have sub: "set new \<subseteq> {length (g_code s)..<length (g_code s1)}" using ad by (simp add: adds_def)
  show 1: "g_lst s1 = g_lst s @ new" "last_opt (g_lst s1) = Some (last new)" "distinct new" "last new < length (g_code s1)"
    "length (g_code s) \<le> last new"
    using ad ne sub last_in_set [OF ne] by (auto simp: adds_def last_opt_def subset_iff)
  have "last (g_lst s) < length (g_code s)" if "g_lst s \<noteq> []"
    using wf last_in_set [OF that] by (auto simp: code_wf_def)
  then show "last_opt (g_lst s1) \<noteq> last_opt (g_lst s)" using 1(2,5) by (auto simp: last_opt_def split: if_splits)
qed

lemma if_code:
  assumes unit: "scalar_unit M" and wf: "code_wf s" and c: "getChildList c = [d]" "cond_expr (g_ids s) d"
    and t: "pb ba t s = Some (Inr ((), s1))" "block_code M s s1 new1 F" "new1 \<noteq> []" and k: "keeps_vars (g_ids s) F"
  shows "\<exists>s' new. genSelectionStatement (genStatement cx) pb ba [c, t] s = Some (Inr ((), s')) \<and>
    block_code M s s' new (\<lambda>\<sigma>. if cval M \<sigma> d then F \<sigma> else \<sigma>) \<and> new \<noteq> []"
proof -
  have ad: "adds s s1 new1" using t(2) by (simp add: block_code_def)
  note l = piece_last [OF ad t(3) wf]
  obtain s2 new where 2: "gbind (separately (genStatement cx (in_block ba True (Some (last new1)) True True) d)) (\<lambda>code. insert_instr code (last_opt (g_lst s))) s1
      = Some (Inr ((), s2))" "adds s s2 (new @ new1)" "grows s1 s2"
    and run: "\<And>\<sigma>. \<exists>\<sigma>'. fwd M (g_code s2) new \<sigma> = (if \<not> cval M \<sigma> d then Leaves (Some (last new1)) True \<sigma>' else Falls \<sigma>') \<and> same_vars (g_ids s) \<sigma>' \<sigma>"
    using condition_in_front [OF unit ad wf l(4) c(2), of cx ba] by blast
  have "genSelectionStatement (genStatement cx) pb ba [c, t] s = Some (Inr ((), s2))"
    using t(1) l(6) c(1) 2(1) by (simp add: gbind_def get_last_run gret_def child_at_def gres_def l(2))
  moreover have "\<exists>\<sigma>'. fwd M (g_code s2) (new @ new1) \<sigma> = Falls \<sigma>' \<and> same_vars (g_ids s) \<sigma>' (if cval M \<sigma> d then F \<sigma> else \<sigma>)" for \<sigma>
  proof -
    obtain \<sigma>1 where 1: "fwd M (g_code s2) new \<sigma> = (if \<not> cval M \<sigma> d then Leaves (Some (last new1)) True \<sigma>1 else Falls \<sigma>1)" "same_vars (g_ids s) \<sigma>1 \<sigma>"
      using run by blast
    obtain \<sigma>2 where b: "fwd M (g_code s1) new1 \<sigma>1 = Falls \<sigma>2" "same_vars (g_ids s) \<sigma>2 (F \<sigma>1)"
      using t(2) unfolding block_code_def by blast
    have "fwd M (g_code s2) (new @ new1) \<sigma> = Falls (if cval M \<sigma> d then \<sigma>2 else \<sigma>1)"
      using 1(1) b(1) t(3) l(3) fwd_grows [OF ad 2(3)] behind_last [OF t(3) l(3)] by (simp add: fwd_append)
    moreover have "same_vars (g_ids s) (F \<sigma>1) (F \<sigma>)" using k 1(2) by (simp add: keeps_vars_def)
    ultimately show ?thesis using 1(2) b(2) same_vars_trans by (cases "cval M \<sigma> d") auto
  qed
  ultimately show ?thesis
    using 2(2) t(3) by (intro exI [of _ s2] exI [of _ "new @ new1"]) (simp add: block_code_def del: genSelectionStatement.simps)
qed


text \<open>With \<open>else\<close>: behind the first statement a jump to the end is put in, and the condition leaves to behind the jump.\<close>

definition put_jump :: "nat \<Rightarrow> nat list \<Rightarrow> gstate \<Rightarrow> gstate" where
  "put_jump e order s = s\<lparr>g_code := g_code s @ [createUnconditionalJump OPCODE_JUMP (Some e) True new_cInstruction], g_lst := order\<rparr>"

lemma else_runs:
  assumes c: "fwd M C new \<sigma> = (if f then Leaves (Some i) True \<sigma>1 else Falls \<sigma>1)"
    and x: "fwd M C new1 \<sigma>1 = Falls \<sigma>2" and y: "fwd M C new2 \<sigma>1 = Falls \<sigma>3"
    and J: "C ! i = createUnconditionalJump OPCODE_JUMP (Some (last new2)) True new_cInstruction"
    and n: "i \<notin> set new1" "new2 \<noteq> []" "distinct new2"
  shows "fwd M C (new @ new1 @ [i] @ new2) \<sigma> = Falls (if f then \<sigma>3 else \<sigma>2)"
proof -
  have j: "fwd M C ([i] @ new2) \<tau> = Falls \<tau>" for \<tau>
  proof -
    have "scalar_jumps M (C ! i) \<tau>" "scalar_exec M (C ! i) \<tau> = \<tau>"
      by (simp_all add: J scalar_jumps_def scalar_exec_def createUnconditionalJump_def new_cInstruction_def)
    then show ?thesis using n behind_last [OF n(2,3)]
      by (simp add: fwd.simps(2) Let_def J createUnconditionalJump_def)
  qed
  show ?thesis
  proof (cases f)
    case True
    have "behind i True (new1 @ [i] @ new2) = new2" using behind_True [OF n(1), of new2] by simp
    then show ?thesis using True c y by (simp add: fwd_append del: append.simps append_assoc)
  next
    case False
    then show ?thesis using c x j by (simp add: fwd_append)
  qed
qed

lemma else_code:
  assumes unit: "scalar_unit M" and wf: "code_wf s" and c: "getChildList c = [d]" "cond_expr (g_ids s) d"
    and t: "pb ba t s = Some (Inr ((), s1))" "block_code M s s1 new1 F" "new1 \<noteq> []" "keeps_vars (g_ids s) F"
    and f: "(if fs = [] then pb ba f else genSelectionStatement (genStatement cx) pb ba (f # fs)) s1 = Some (Inr ((), s2))"
      "block_code M s1 s2 new2 G" "new2 \<noteq> []" "keeps_vars (g_ids s) G"
  shows "\<exists>s' new. genSelectionStatement (genStatement cx) pb ba (c # t # f # fs) s = Some (Inr ((), s')) \<and>
    block_code M s s' new (\<lambda>\<sigma>. if cval M \<sigma> d then F \<sigma> else G \<sigma>) \<and> new \<noteq> []"
proof -
  let ?i = "length (g_code s2)"
  have ad: "adds s s1 new1" "adds s1 s2 new2" using t(2) f(2) by (simp_all add: block_code_def)
  note l1 = piece_last [OF ad(1) t(3) wf]
  have wf1: "code_wf s1" using adds_wf [OF ad(1) wf] .
  note l2 = piece_last [OF ad(2) f(3) wf1]
  define s3 where "s3 = put_jump (last new2) (g_lst s @ new1 @ [?i] @ new2) s2"
  have g12: "grows s s1" "grows s1 s2" "grows s2 s3" using ad adds_grows by (auto simp: s3_def put_jump_def grows_def)
  have a3: "adds s s3 (new1 @ [?i] @ new2)"
    using ad grows_trans [OF g12(1) grows_trans [OF g12(2,3)]] grows_length [OF g12(1)] grows_length [OF g12(2)]
    by (fastforce simp: adds_def s3_def put_jump_def)
  obtain s4 new where 4: "gbind (separately (genStatement cx (in_block ba True (Some ?i) True True) d)) (\<lambda>code. insert_instr code (last_opt (g_lst s))) s3
      = Some (Inr ((), s4))" "adds s s4 (new @ new1 @ [?i] @ new2)" "grows s3 s4"
    and run: "\<And>\<sigma>. \<exists>\<sigma>'. fwd M (g_code s4) new \<sigma> = (if \<not> cval M \<sigma> d then Leaves (Some ?i) True \<sigma>' else Falls \<sigma>') \<and> same_vars (g_ids s) \<sigma>' \<sigma>"
    using condition_in_front [OF unit a3 wf _ c(2), of ?i cx ba] by (auto simp: s3_def put_jump_def)
  have ins: "list_insert_after (Some (last new1)) [?i] (g_lst s2) = g_lst s @ new1 @ [?i] @ new2"
    using insert_behind_last [of "g_lst s1" "[?i]" new2] wf1 l1(2) by (simp add: code_wf_def l2(1) l1(1))
  have "gbind get_last (\<lambda>end2. gbind new_instr (\<lambda>i. gbind (set_instr i (\<lambda>ins. Inr (createUnconditionalJump OPCODE_JUMP end2 True ins)))
      (\<lambda>_. gbind (insert_instr [i] (Some (last new1))) (\<lambda>_. gret (Some i))))) s2 = Some (Inr (Some ?i, s3))"
    by (simp add: gbind_def get_last_run new_instr_def set_instr_def insert_instr_def gret_def ins l2(2) s3_def put_jump_def)
  then have "genSelectionStatement (genStatement cx) pb ba (c # t # f # fs) s = Some (Inr ((), s4))"
    using t(1) f(1) c(1) 4(1)
    by (simp only: genSelectionStatement.simps) (simp add: gbind_def get_last_run child_at_def gres_def gret_def l1(2) split: if_splits)
  moreover have "\<exists>\<sigma>'. fwd M (g_code s4) (new @ new1 @ [?i] @ new2) \<sigma> = Falls \<sigma>' \<and>
      same_vars (g_ids s) \<sigma>' (if cval M \<sigma> d then F \<sigma> else G \<sigma>)" for \<sigma>
  proof -
    obtain \<sigma>1 where 1: "fwd M (g_code s4) new \<sigma> = (if \<not> cval M \<sigma> d then Leaves (Some ?i) True \<sigma>1 else Falls \<sigma>1)" "same_vars (g_ids s) \<sigma>1 \<sigma>"
      using run by blast
    obtain \<sigma>2 where 2: "fwd M (g_code s1) new1 \<sigma>1 = Falls \<sigma>2" "same_vars (g_ids s) \<sigma>2 (F \<sigma>1)"
      using t(2) unfolding block_code_def by blast
    obtain \<sigma>3 where 3: "fwd M (g_code s2) new2 \<sigma>1 = Falls \<sigma>3" "same_vars (g_ids s1) \<sigma>3 (G \<sigma>1)"
      using f(2) unfolding block_code_def by blast
    have "g_code s4 ! ?i = createUnconditionalJump OPCODE_JUMP (Some (last new2)) True new_cInstruction"
      using grows_code [OF 4(3), of ?i] by (simp add: s3_def put_jump_def)
    moreover have "?i \<notin> set new1" using ad(1) grows_length [OF g12(2)] by (auto simp: adds_def)
    moreover have "fwd M (g_code s4) new1 \<sigma>1 = Falls \<sigma>2"
      using fwd_grows [OF ad(1) grows_trans [OF g12(2) grows_trans [OF g12(3) 4(3)]]] 2(1) by simp
    moreover have "fwd M (g_code s4) new2 \<sigma>1 = Falls \<sigma>3"
      using fwd_grows [OF ad(2) grows_trans [OF g12(3) 4(3)]] 3(1) by simp
    ultimately have "fwd M (g_code s4) (new @ new1 @ [?i] @ new2) \<sigma> = Falls (if \<not> cval M \<sigma> d then \<sigma>3 else \<sigma>2)"
      using else_runs [OF 1(1)] f(3) l2(3) by blast
    moreover have "same_vars (g_ids s) (F \<sigma>1) (F \<sigma>)" "same_vars (g_ids s) (G \<sigma>1) (G \<sigma>)"
      using t(4) f(4) 1(2) by (simp_all add: keeps_vars_def)
    ultimately show ?thesis using 2(2) same_vars_grows [OF g12(1) 3(2)] same_vars_trans by (cases "cval M \<sigma> d") auto
  qed
  ultimately show ?thesis
    using 4(2) by (intro exI [of _ s4] exI [of _ "new @ new1 @ [?i] @ new2"]) (simp add: block_code_def del: genSelectionStatement.simps)
qed


lemma select_code:
  assumes unit: "scalar_unit M"
  shows "2 \<le> length cs \<Longrightarrow> code_wf s \<Longrightarrow> \<forall>c\<in>set (tests cs). \<exists>d. getChildList c = [d] \<and> cond_expr (g_ids s) d \<Longrightarrow>
    (\<And>n s'. n \<in> set (bodies cs) \<Longrightarrow> grows s s' \<Longrightarrow> code_wf s' \<Longrightarrow>
       \<exists>s'' new. pb ba n s' = Some (Inr ((), s'')) \<and> block_code M s' s'' new (R n) \<and> new \<noteq> []) \<Longrightarrow>
    (\<And>n I. n \<in> set (bodies cs) \<Longrightarrow> prefix (g_ids s) I \<Longrightarrow> keeps_vars I (R n)) \<Longrightarrow>
    \<exists>s' new. genSelectionStatement (genStatement cx) pb ba cs s = Some (Inr ((), s')) \<and>
      block_code M s s' new (\<lambda>\<sigma>. case taken_branch (\<lambda>c. cval M \<sigma> (hd (getChildList c))) cs of None \<Rightarrow> \<sigma> | Some n \<Rightarrow> R n \<sigma>) \<and> new \<noteq> []"
proof (induction cs arbitrary: s rule: bodies.induct)
  case (1 c t)
  obtain d where d: "getChildList c = [d]" "cond_expr (g_ids s) d" using 1(3) by auto
  obtain s1 new1 where t: "pb ba t s = Some (Inr ((), s1))" "block_code M s s1 new1 (R t)" "new1 \<noteq> []"
    using 1(4) [of t s] 1(2) by auto
  have "keeps_vars (g_ids s) (R t)" using 1(5) [of t "g_ids s"] by simp
  then obtain s' new where 2: "genSelectionStatement (genStatement cx) pb ba [c, t] s = Some (Inr ((), s'))"
    "block_code M s s' new (\<lambda>\<sigma>. if cval M \<sigma> d then R t \<sigma> else \<sigma>)" "new \<noteq> []"
    using if_code [where pb = pb and ba = ba and t = t and F = "R t", OF unit 1(2) d t] by blast
  have "block_code M s s' new (\<lambda>\<sigma>. case taken_branch (\<lambda>c. cval M \<sigma> (hd (getChildList c))) [c, t] of None \<Rightarrow> \<sigma> | Some n \<Rightarrow> R n \<sigma>)"
    by (rule block_code_cong [OF 2(2)]) (simp add: d)
  then show ?case using 2 by blast
next
  case (2 c t f)
  obtain d where d: "getChildList c = [d]" "cond_expr (g_ids s) d" using 2(3) by auto
  obtain s1 new1 where t: "pb ba t s = Some (Inr ((), s1))" "block_code M s s1 new1 (R t)" "new1 \<noteq> []"
    using 2(4) [of t s] 2(2) by auto
  have w: "code_wf s1" "grows s s1" using block_codeD [OF t(2)] adds_wf 2(2) by blast+
  obtain s2 new2 where f: "pb ba f s1 = Some (Inr ((), s2))" "block_code M s1 s2 new2 (R f)" "new2 \<noteq> []"
    using 2(4) [of f s1] w by auto
  have k: "keeps_vars (g_ids s) (R t)" "keeps_vars (g_ids s) (R f)" using 2(5) [of _ "g_ids s"] by simp_all
  obtain s' new where 3: "genSelectionStatement (genStatement cx) pb ba [c, t, f] s = Some (Inr ((), s'))"
    "block_code M s s' new (\<lambda>\<sigma>. if cval M \<sigma> d then R t \<sigma> else R f \<sigma>)" "new \<noteq> []"
    using else_code [where pb = pb and ba = ba and t = t and F = "R t" and f = f and fs = "[]" and G = "R f" and cx = cx, OF unit 2(2) d t k(1), of s2 new2] f k(2)
    by (simp del: genSelectionStatement.simps) blast
  have "block_code M s s' new (\<lambda>\<sigma>. case taken_branch (\<lambda>c. cval M \<sigma> (hd (getChildList c))) [c, t, f] of None \<Rightarrow> \<sigma> | Some n \<Rightarrow> R n \<sigma>)"
    by (rule block_code_cong [OF 3(2)]) (simp add: d)
  then show ?case using 3 by blast
next
  case (3 c t c2 t2 rest)
  let ?cv = "\<lambda>\<sigma> c. cval M \<sigma> (hd (getChildList c))"
  let ?G = "\<lambda>\<sigma>. case taken_branch (?cv \<sigma>) (c2 # t2 # rest) of None \<Rightarrow> \<sigma> | Some n \<Rightarrow> R n \<sigma>"
  obtain d where d: "getChildList c = [d]" "cond_expr (g_ids s) d" using 3(4) by auto
  obtain s1 new1 where t: "pb ba t s = Some (Inr ((), s1))" "block_code M s s1 new1 (R t)" "new1 \<noteq> []"
    using 3(5) [of t s] 3(3) by auto
  have w: "code_wf s1" "grows s s1" using block_codeD [OF t(2)] adds_wf 3(3) by blast+
  have "\<exists>s2 new2. genSelectionStatement (genStatement cx) pb ba (c2 # t2 # rest) s1 = Some (Inr ((), s2)) \<and> block_code M s1 s2 new2 ?G \<and> new2 \<noteq> []"
  proof (rule 3(1))
    show "\<forall>c\<in>set (tests (c2 # t2 # rest)). \<exists>d. getChildList c = [d] \<and> cond_expr (g_ids s1) d"
      using 3(4) expr_grows(2) [OF w(2)] by (metis list.set_intros(2) tests.simps(1))
    show "\<exists>s'' new. pb ba n s' = Some (Inr ((), s'')) \<and> block_code M s' s'' new (R n) \<and> new \<noteq> []"
      if "n \<in> set (bodies (c2 # t2 # rest))" "grows s1 s'" "code_wf s'" for n s'
      using 3(5) [of n s'] that grows_trans [OF w(2)] by simp
    show "keeps_vars I (R n)" if "n \<in> set (bodies (c2 # t2 # rest))" "prefix (g_ids s1) I" for n I
      using 3(6) [of n I] that w(2) prefix_order.trans unfolding grows_def by auto
  qed (use w in auto)
  then obtain s2 new2 where f: "genSelectionStatement (genStatement cx) pb ba (c2 # t2 # rest) s1 = Some (Inr ((), s2))"
    "block_code M s1 s2 new2 ?G" "new2 \<noteq> []" by blast
  have same: "taken_branch (?cv \<sigma>) (c2 # t2 # rest) = taken_branch (?cv \<tau>) (c2 # t2 # rest)" if "same_vars (g_ids s) \<sigma> \<tau>" for \<sigma> \<tau>
  proof -
    have "taken_branch (?cv \<sigma>) xs = taken_branch (?cv \<tau>) xs"
      if x: "\<forall>c\<in>set (tests xs). \<exists>d. getChildList c = [d] \<and> cond_expr (g_ids s) d" for xs
      using x
    proof (induction xs rule: bodies.induct)
      case (3 c t c2 t2 rest)
      then show ?case using value_cong(2) [of "g_ids s" _ \<sigma> \<tau> M] \<open>same_vars (g_ids s) \<sigma> \<tau>\<close> by (auto simp: same_vars_def)
    qed (use value_cong(2) [of "g_ids s" _ \<sigma> \<tau> M] \<open>same_vars (g_ids s) \<sigma> \<tau>\<close> in \<open>auto simp: same_vars_def\<close>)
    then show ?thesis using 3(4) by simp
  qed
  have k: "keeps_vars (g_ids s) (R t)" using 3(6) [of t "g_ids s"] by simp
  have k2: "keeps_vars (g_ids s) ?G"
    unfolding keeps_vars_def
  proof (intro allI impI)
    fix \<sigma> \<tau> assume a: "same_vars (g_ids s) \<sigma> \<tau>"
    have "keeps_vars (g_ids s) (R n)" if "taken_branch (?cv \<tau>) (c2 # t2 # rest) = Some n" for n
      using taken_body [OF that] 3(6) [of n "g_ids s"] by simp
    then show "same_vars (g_ids s) (?G \<sigma>) (?G \<tau>)"
      using a same [OF a] by (auto simp: keeps_vars_def simp del: taken_branch.simps split: option.split)
  qed
  obtain s' new where 4: "genSelectionStatement (genStatement cx) pb ba (c # t # c2 # t2 # rest) s = Some (Inr ((), s'))"
    "block_code M s s' new (\<lambda>\<sigma>. if cval M \<sigma> d then R t \<sigma> else ?G \<sigma>)" "new \<noteq> []"
    using else_code [where pb = pb and ba = ba and t = t and F = "R t" and f = c2 and fs = "t2 # rest" and G = ?G and cx = cx, OF unit 3(3) d t k, of s2 new2] f k2
    by (simp del: genSelectionStatement.simps taken_branch.simps) blast
  have "block_code M s s' new (\<lambda>\<sigma>. case taken_branch (?cv \<sigma>) (c # t # c2 # t2 # rest) of None \<Rightarrow> \<sigma> | Some n \<Rightarrow> R n \<sigma>)"
    by (rule block_code_cong [OF 4(2)]) (simp add: d)
  then show ?case using 4(1,3) by blast
qed auto


section \<open>Blocks\<close>

text \<open>
  Statements without loops, jumps and initial values: lists of items, declarations, expression statements and
  selections whose branches leave code behind.
\<close>

function run_stmt :: "scalar \<Rightarrow> cAstNode \<Rightarrow> regs \<Rightarrow> regs" where
  "run_stmt M (AstComposite t b cs) \<sigma> =
     (if t = eTOKEN_selection_statement
      then (case taken_branch (\<lambda>c. cval M \<sigma> (hd (getChildList c))) cs of None \<Rightarrow> \<sigma> | Some n \<Rightarrow> run_stmt M n \<sigma>)
      else if t \<in> {eTOKEN_block_item_list, eTOKEN_block_item} then fold (\<lambda>f. f) (map (run_stmt M) cs) \<sigma>
      else if t = eTOKEN_declaration then \<sigma>
      else fold (\<lambda>f. f) (map (run_effect M) cs) \<sigma>)"
| "run_stmt M (AstToken t p g) \<sigma> = \<sigma>"
| "run_stmt M (AstInt t c u g) \<sigma> = \<sigma>"
| "run_stmt M (AstFloat t f) \<sigma> = \<sigma>"
| "run_stmt M (AstString t v) \<sigma> = \<sigma>"
| "run_stmt M (AstIdentifier t v m) \<sigma> = \<sigma>"
  by pat_completeness auto

lemma taken_size: "taken_branch cv cs = Some n \<Longrightarrow> size n < size (AstComposite t b cs)"
  using taken_body [of cv cs n] bodies_subset [of cs] size_list_estimation' [of n cs "size n" size] by fastforce

termination run_stmt
  by (relation "measure (\<lambda>(M, n, \<sigma>). size n)") (auto dest: taken_size [of _ _ _ 0 None] simp: less_Suc_eq_le size_list_estimation')

definition test_ok :: "idents \<Rightarrow> cAstNode \<Rightarrow> bool" where
  "test_ok I c \<longleftrightarrow> (case getChildList c of [d] \<Rightarrow> cond_expr I d | _ \<Rightarrow> False)"

lemma test_okD: "test_ok I c \<Longrightarrow> \<exists>d. getChildList c = [d] \<and> cond_expr I d"
  by (auto simp: test_ok_def split: list.splits)

function stmt_ok :: "idents \<Rightarrow> cAstNode \<Rightarrow> bool" where
  "stmt_ok I (AstComposite t b cs) \<longleftrightarrow>
     (if t = eTOKEN_selection_statement
      then 2 \<le> length cs \<and> getID (cs ! 0) = eTOKEN_expression \<and> list_all (test_ok I) (tests cs) \<and>
           list_all (\<lambda>v. v) (map (\<lambda>n. makes_code n \<and> getID n \<noteq> eTOKEN_block_item \<and> stmt_ok I n) (bodies cs))
      else if t = eTOKEN_block_item_list then list_all (\<lambda>v. v) (map (\<lambda>n. getID n = eTOKEN_block_item \<and> stmt_ok I n) cs)
      else if t = eTOKEN_block_item then length cs = 1 \<and> list_all (\<lambda>v. v) (map (\<lambda>n. getID n \<noteq> eTOKEN_block_item \<and> stmt_ok I n) cs)
      else t = eTOKEN_declaration \<or> t \<in> {eTOKEN_expression, eTOKEN_expression_statement, eTOKEN_compound_statement} \<and> list_all (effect_ok I) cs)"
| "stmt_ok I (AstToken t p g) \<longleftrightarrow> False"
| "stmt_ok I (AstInt t c u g) \<longleftrightarrow> False"
| "stmt_ok I (AstFloat t f) \<longleftrightarrow> False"
| "stmt_ok I (AstString t v) \<longleftrightarrow> False"
| "stmt_ok I (AstIdentifier t v m) \<longleftrightarrow> False"
  by pat_completeness auto

lemma body_size: "n \<in> set (bodies cs) \<Longrightarrow> size n < Suc (size_list size cs)"
  using bodies_subset [of cs] size_list_estimation' [of n cs "size n" size] by fastforce

termination stmt_ok
  by (relation "measure (\<lambda>(I, n). size n)") (auto dest: body_size simp: less_Suc_eq_le size_list_estimation')


lemma stmt_okE:
  assumes "stmt_ok I n"
  obtains (selection) b cs where "n = AstComposite eTOKEN_selection_statement b cs" "2 \<le> length cs" "getID (cs ! 0) = eTOKEN_expression"
      "\<forall>c\<in>set (tests cs). test_ok I c" "\<forall>m\<in>set (bodies cs). makes_code m \<and> getID m \<noteq> eTOKEN_block_item \<and> stmt_ok I m"
  | (items) b cs where "n = AstComposite eTOKEN_block_item_list b cs" "\<forall>m\<in>set cs. getID m = eTOKEN_block_item \<and> stmt_ok I m"
  | (item) b m where "n = AstComposite eTOKEN_block_item b [m]" "getID m \<noteq> eTOKEN_block_item" "stmt_ok I m"
  | (decl) b cs where "n = AstComposite eTOKEN_declaration b cs"
  | (effects) t b cs where "n = AstComposite t b cs" "t \<in> {eTOKEN_expression, eTOKEN_expression_statement, eTOKEN_compound_statement}"
      "\<forall>c\<in>set cs. effect_ok I c"
proof (cases n)
  case (AstComposite t b cs)
  have one: "\<exists>m. cs = [m]" if "length cs = 1" using that by (auto simp: length_Suc_conv)
  show ?thesis
    using assms AstComposite that one by (auto simp: list_all_iff split: if_splits)
qed (use assms in auto)

lemma run_stmt_simps:
  "run_stmt M (AstComposite eTOKEN_block_item_list b cs) = fold (run_stmt M) cs"
  "run_stmt M (AstComposite eTOKEN_block_item b cs) = fold (run_stmt M) cs"
  "run_stmt M (AstComposite eTOKEN_declaration b cs) = (\<lambda>\<sigma>. \<sigma>)"
  "t \<in> {eTOKEN_expression, eTOKEN_expression_statement, eTOKEN_compound_statement} \<Longrightarrow>
     run_stmt M (AstComposite t b cs) = fold (run_effect M) cs"
  "run_stmt M (AstComposite eTOKEN_selection_statement b cs) =
     (\<lambda>\<sigma>. case taken_branch (\<lambda>c. cval M \<sigma> (hd (getChildList c))) cs of None \<Rightarrow> \<sigma> | Some n \<Rightarrow> run_stmt M n \<sigma>)"
  by (auto simp: fun_eq_iff fold_run)

lemma taken_branch_cong:
  assumes "\<forall>c\<in>set (tests cs). test_ok I c" and "same_vars I \<sigma> \<tau>"
  shows "taken_branch (\<lambda>c. cval M \<sigma> (hd (getChildList c))) cs = taken_branch (\<lambda>c. cval M \<tau> (hd (getChildList c))) cs"
proof -
  have "cval M \<sigma> (hd (getChildList c)) = cval M \<tau> (hd (getChildList c))" if "test_ok I c" for c
    using that value_cong(2) [of I _ \<sigma> \<tau> M] assms(2) by (auto simp: test_ok_def same_vars_def split: list.splits)
  then show ?thesis using assms(1) by (induction cs rule: bodies.induct) auto
qed

lemma keeps_stmt: "stmt_ok I n \<Longrightarrow> keeps_vars I (run_stmt M n)"
proof (induction n rule: measure_induct_rule [of size])
  case (less n)
  from less.prems show ?case
  proof (cases rule: stmt_okE)
    case (selection b cs)
    show ?thesis
      unfolding keeps_vars_def
    proof (intro allI impI)
      fix \<sigma> \<tau> assume a: "same_vars I \<sigma> \<tau>"
      have "keeps_vars I (run_stmt M m)" if "m \<in> set (bodies cs)" for m
        using less.IH [of m] selection that body_size [OF that] by simp
      then show "same_vars I (run_stmt M n \<sigma>) (run_stmt M n \<tau>)"
        unfolding selection(1) run_stmt_simps taken_branch_cong [OF selection(4) a]
        using a by (auto simp: keeps_vars_def dest: taken_body split: option.split)
    qed
  next
    case (items b cs)
    then show ?thesis
      using less.IH keeps_fold [of cs I "run_stmt M"] size_list_estimation' [of _ cs _ size] by (simp add: run_stmt_simps less_Suc_eq_le)
  next
    case (item b m)
    then show ?thesis using less.IH [of m] by (simp add: run_stmt_simps keeps_vars_def)
  next
    case (decl b cs)
    then show ?thesis by (simp add: run_stmt_simps keeps_vars_def)
  next
    case (effects t b cs)
    then show ?thesis using keeps_effect keeps_fold [of cs I "run_effect M"] by (simp add: run_stmt_simps(4))
  qed
qed

lemma stmt_ok_grows:
  fixes s s' :: gstate
  assumes g: "grows s s'"
  shows "stmt_ok (g_ids s) n \<Longrightarrow> stmt_ok (g_ids s') n"
proof (induction n rule: measure_induct_rule [of size])
  case (less n)
  have e: "effect_ok (g_ids s) m \<Longrightarrow> effect_ok (g_ids s') m" for m using effect_ok_grows g by (auto simp: grows_def)
  have t: "test_ok (g_ids s) m \<Longrightarrow> test_ok (g_ids s') m" for m
    using expr_grows(2) [OF g] by (auto simp: test_ok_def split: list.splits)
  from less.prems show ?case
  proof (cases rule: stmt_okE)
    case (selection b cs)
    have "stmt_ok (g_ids s') m" if "m \<in> set (bodies cs)" for m
      using less.IH [of m] selection that body_size [OF that] by simp
    then show ?thesis using selection t by (simp add: list_all_iff)
  next
    case (items b cs)
    then show ?thesis using less.IH size_list_estimation' [of _ cs _ size] by (simp add: list_all_iff less_Suc_eq_le)
  next
    case (item b m)
    then show ?thesis using less.IH [of m] by simp
  next
    case (effects t b cs)
    then show ?thesis using e by (auto simp: list_all_iff)
  qed simp
qed


lemma no_initial_values:
  assumes "\<forall>i. vals i = []"
  shows "process_init vals n s = Some (Inr ((), s))"
proof -
  have "init_identifier vals i s = Some (Inr ((), s))" for i
    using assms by (simp add: init_identifier_def gbind_def gget_def gret_def Let_def)
  then have "gmap (init_identifier vals) is s = Some (Inr ((), s))" for "is"
    by (induction "is") (simp_all add: gret_def gbind_def)
  then show ?thesis by (auto simp: process_init_def gret_def split: cAstNode.split option.split)
qed

lemma process_code_block_code:
  assumes unit: "scalar_unit M" and vals: "\<forall>i. vals i = []"
  shows "stmt_ok (g_ids s) n \<Longrightarrow> getID n \<noteq> eTOKEN_block_item \<Longrightarrow> code_wf s \<Longrightarrow> depth n < k \<Longrightarrow>
    \<exists>s' new. process_code_block_f cx vals k ba n s = Some (Inr ((), s')) \<and> block_code M s s' new (run_stmt M n) \<and> (makes_code n \<longrightarrow> new \<noteq> [])"
proof (induction k arbitrary: n s)
  case (Suc k)
  let ?pb = "process_code_block_f cx vals k"
  let ?run = "process_code_block_f cx vals (Suc k) ba n s"
  have init: "?run = (if getID n = eTOKEN_block_item_list then gmap (gen_item ?pb ba) (getChildList n)
     else if getID n = eTOKEN_labeled_statement then gbind (gres (child_at 1 n)) (gen_block_kind cx ?pb ba n)
     else gen_block_kind cx ?pb ba n n) s"
    by (simp add: process_code_block_body_def gbind_def no_initial_values [OF vals])
  from Suc.prems(1) show ?case
  proof (cases rule: stmt_okE)
    case (selection b cs)
    have "child_from [eTOKEN_expression] n = cs" using selection(1-3) by (cases cs) auto
    then have run: "?run = genSelectionStatement (genStatement cx) ?pb ba cs s"
      unfolding init by (simp add: selection(1) gen_block_kind_def)
    have "\<exists>s' new. genSelectionStatement (genStatement cx) ?pb ba cs s = Some (Inr ((), s')) \<and>
      block_code M s s' new (\<lambda>\<sigma>. case taken_branch (\<lambda>c. cval M \<sigma> (hd (getChildList c))) cs of None \<Rightarrow> \<sigma> | Some n \<Rightarrow> run_stmt M n \<sigma>) \<and> new \<noteq> []"
    proof (rule select_code [OF unit selection(2) Suc.prems(3)])
      show "\<forall>c\<in>set (tests cs). \<exists>d. getChildList c = [d] \<and> cond_expr (g_ids s) d"
        using selection(4) test_okD by blast
    next
      fix m s' assume m: "m \<in> set (bodies cs)" "grows s s'" "code_wf s'"
      have "stmt_ok (g_ids s') m" using selection(5) m stmt_ok_grows by blast
      moreover have "depth m < k" using Suc.prems(4) depth_child [of m n] bodies_subset [of cs] m(1) selection(1) by auto
      ultimately show "\<exists>s'' new. ?pb ba m s' = Some (Inr ((), s'')) \<and> block_code M s' s'' new (run_stmt M m) \<and> new \<noteq> []"
        using Suc.IH [of s' m] selection(5) m by blast
    next
      fix m I assume m: "m \<in> set (bodies cs)" "prefix (g_ids s) I"
      then have "stmt_ok I m" using stmt_ok_grows [of s "s\<lparr>g_ids := I\<rparr>" m] selection(5) by (simp add: grows_def)
      then show "keeps_vars I (run_stmt M m)" by (rule keeps_stmt)
    qed
    then show ?thesis unfolding run unfolding selection(1) run_stmt_simps by blast
  next
    case (items b cs)
    have run: "?run = gmap (gen_item ?pb ba) cs s" unfolding init by (simp add: items(1))
    have "\<exists>s' new. gmap (gen_item ?pb ba) cs s = Some (Inr ((), s')) \<and> block_code M s s' new (fold (run_stmt M) cs) \<and> (list_ex makes_code cs \<longrightarrow> new \<noteq> [])"
    proof (rule gmap_code)
      fix c s' assume c: "c \<in> set cs" "grows s s'" "code_wf s'"
      have "stmt_ok (g_ids s') c" using items(2) c stmt_ok_grows by blast
      then obtain b' m where m: "c = AstComposite eTOKEN_block_item b' [m]" "getID m \<noteq> eTOKEN_block_item" "stmt_ok (g_ids s') m"
        using items(2) c(1) by (cases rule: stmt_okE) auto
      have "depth m < k" using Suc.prems(4) depth_child [of c n] depth_child [of m c] c(1) m(1) items(1) by simp
      then obtain s'' new where 2: "?pb ba m s' = Some (Inr ((), s''))" "block_code M s' s'' new (run_stmt M m)" "makes_code m \<longrightarrow> new \<noteq> []"
        using Suc.IH [of s' m] m c(3) by blast
      have "gen_item ?pb ba c s' = ?pb ba m s'" by (simp add: gen_item_def m(1) child_at_def)
      moreover have "run_stmt M c = run_stmt M m" by (simp add: m(1) run_stmt_simps fun_eq_iff)
      ultimately show "\<exists>s'' new. gen_item ?pb ba c s' = Some (Inr ((), s'')) \<and> block_code M s' s'' new (run_stmt M c) \<and> (makes_code c \<longrightarrow> new \<noteq> [])"
        using 2 by (auto simp: m(1))
    next
      fix c I assume c: "c \<in> set cs" "prefix (g_ids s) I"
      then have "stmt_ok I c" using stmt_ok_grows [of s "s\<lparr>g_ids := I\<rparr>" c] items(2) by (simp add: grows_def)
      then show "keeps_vars I (run_stmt M c)" by (rule keeps_stmt)
    qed (fact Suc.prems(3))
    then show ?thesis unfolding run unfolding items(1) run_stmt_simps by (auto simp: list_ex_map)
  next
    case (item b m)
    then show ?thesis using Suc.prems(2) by simp
  next
    case (decl b cs)
    have "?run = Some (Inr ((), s))" unfolding init by (simp add: decl gen_block_kind_def gret_def)
    then show ?thesis unfolding decl run_stmt_simps using block_code_nothing [of M s] by auto
  next
    case (effects t b cs)
    let ?a = "in_block ba True None False False"
    have run: "?run = gmap (genStatement cx ?a) cs s" unfolding init using effects(2) by (auto simp: effects(1) gen_block_kind_def)
    have "\<exists>s' new. gmap (genStatement cx ?a) cs s = Some (Inr ((), s')) \<and> block_code M s s' new (fold (run_effect M) cs) \<and> (list_ex makes_code cs \<longrightarrow> new \<noteq> [])"
    proof (rule gmap_code)
      fix c s' assume c: "c \<in> set cs" "grows s s'" "code_wf s'"
      have "effect_ok (g_ids s') c" using effects(3) c effect_ok_grows by (auto simp: grows_def)
      then show "\<exists>s'' new. genStatement cx ?a c s' = Some (Inr ((), s'')) \<and> block_code M s' s'' new (run_effect M c) \<and> (makes_code c \<longrightarrow> new \<noteq> [])"
        using effect_code [OF unit, of s' c ?a "2 * depth c + 3" cx] c(3) by (simp add: genStatement_def in_block_def)
    next
      fix c I assume c: "c \<in> set cs" "prefix (g_ids s) I"
      then have "effect_ok I c" using effect_ok_grows [of s "s\<lparr>g_ids := I\<rparr>" c] effects(3) by simp
      then show "keeps_vars I (run_effect M c)" by (rule keeps_effect)
    qed (fact Suc.prems(3))
    then show ?thesis unfolding run unfolding effects(1) run_stmt_simps(4) [OF effects(2)] using effects(2) by (auto simp: list_ex_map)
  qed
qed simp


section \<open>The properties\<close>

text \<open>A scalar unit without overflow, three integer variables, and a state before any code, for the concrete cases.\<close>

definition plain_unit :: scalar where
  "plain_unit =
     \<lparr>sc_op = (\<lambda>oc a b. if oc = IOPCODE_ADD then a + b else if oc = IOPCODE_SUB then a - b else if oc = IOPCODE_MUL then a * b else 0),
      sc_ext = (\<lambda>t. 0)\<rparr>"

definition abc_ids :: idents where
  "abc_ids = map (\<lambda>x. (blank_cIdentifier CInteger)\<lparr>m_name := [x]\<rparr>) ''abc''"

definition abc_state :: gstate where
  "abc_state = \<lparr>g_code = [new_cInstruction], g_lst = [0], g_ids = abc_ids, g_block = []\<rparr>"

definition abc_var :: "nat \<Rightarrow> cAstNode" where
  "abc_var i = AstIdentifier eTOKEN_IDENTIFIER [''abc'' ! i] (Some i)"

definition abc_set :: "nat \<Rightarrow> eTOKEN \<Rightarrow> cAstNode \<Rightarrow> cAstNode" where
  "abc_set i p e = AstComposite eTOKEN_assignment_expression None [abc_var i, AstToken p 0 [], e]"

definition node_of :: "eTOKEN \<Rightarrow> cAstNode list \<Rightarrow> cAstNode" where
  "node_of t cs = AstComposite t None cs"

definition abc_ctx :: genctx where
  "abc_ctx = \<lparr>cx_root = node_of eTOKEN_translation_unit [], cx_func = node_of eTOKEN_function_definition2 [], cx_addr = (\<lambda>i. 0)\<rparr>"

definition abc_block :: block_args where
  "abc_block = \<lparr>ba_hasExit = False, ba_exit = None, ba_blockExit = None, ba_blockCont = None\<rparr>"

lemma plain_unit_ok: "scalar_unit plain_unit"
  by (simp add: scalar_unit_def plain_unit_def)

text \<open>\<open>b < 3 && !a || a == c\<close>\<close>

definition abc_cond :: cAstNode where
  "abc_cond = node_of eTOKEN_logical_or_expression
     [node_of eTOKEN_logical_and_expression
        [node_of eTOKEN_relational_expression_lt [abc_var 1, literal 3],
         node_of eTOKEN_unary_expression [AstString eTOKEN_unary_operator ''!'', abc_var 0]],
      node_of eTOKEN_equality_expression_eq [abc_var 0, abc_var 2]]"

text \<open>\<open>if (b < 3 && !a || a == c) c = a - b * 2; else if (b) { b -= 1; a = c ? a : 7; } else a = b;\<close>\<close>

definition abc_stmt :: cAstNode where
  "abc_stmt = node_of eTOKEN_selection_statement
     [node_of eTOKEN_expression [abc_cond],
      node_of eTOKEN_expression_statement [abc_set 2 eTOKEN_assignment_operator
        (node_of eTOKEN_additive_expression_sub [abc_var 0, node_of eTOKEN_multiplicative_expression_mul [abc_var 1, literal 2]])],
      node_of eTOKEN_expression [abc_var 1],
      node_of eTOKEN_block_item_list
        [node_of eTOKEN_block_item [node_of eTOKEN_expression_statement [abc_set 1 eTOKEN_SUB_ASSIGN (literal 1)]],
         node_of eTOKEN_block_item [node_of eTOKEN_expression_statement [abc_set 0 eTOKEN_assignment_operator
           (node_of eTOKEN_conditional_expression [abc_var 2, abc_var 0, literal 7])]]],
      node_of eTOKEN_expression_statement [abc_set 0 eTOKEN_assignment_operator (abc_var 1)]]"

lemma abc_ok: "cond_expr abc_ids abc_cond" "stmt_ok abc_ids abc_stmt"
  by code_simp+

lemma abc_runs:
  "map (run_stmt plain_unit abc_stmt (\<lambda>i. [0, 1, 5] ! i)) [0, 1, 2] = [0, 1, -2]"
  "map (run_stmt plain_unit abc_stmt (\<lambda>i. [2, 4, 1] ! i)) [0, 1, 2] = [2, 3, 1]"
  "map (run_stmt plain_unit abc_stmt (\<lambda>i. [2, 0, 1] ! i)) [0, 1, 2] = [0, 0, 1]"
  by code_simp+





definition abc_args :: stmt_args where
  "abc_args = \<lparr>sa_reverse = True, sa_hasExit = False, sa_exit = None, sa_br = Some 0, sa_brAfter = True,
     sa_blockExit = None, sa_blockCont = None, sa_logic = True\<rparr>"


text \<open>
  C30: \<open>x op= c ? a : b\<close> loses \<open>x\<close>. The place of the result is handed to the right side whatever the assignment is,
  so that a conditional expression writes its value there first; the operation then combines the value with itself,
  as if \<open>x\<close> had held it.
\<close>

theorem compound_assignment_loses_old_value:
  assumes "scalar_unit M" and "int_expr (g_ids s) (AstIdentifier eTOKEN_IDENTIFIER v (Some w))"
    and "int_expr (g_ids s) (AstComposite eTOKEN_conditional_expression b [c, x, y])" and "assign_op False p = Inr oc" and "\<not> sa_logic a"
  shows "\<exists>s' new. genStatement cx a (AstComposite eTOKEN_assignment_expression b
        [AstIdentifier eTOKEN_IDENTIFIER v (Some w), AstToken p q r, AstComposite eTOKEN_conditional_expression b [c, x, y]]) s
      = Some (Inr ((), s')) \<and> g_lst s' = g_lst s @ new \<and>
    (\<forall>\<sigma>. \<exists>\<sigma>'. fwd M (g_code s') new \<sigma> = Falls \<sigma>' \<and>
      \<sigma>' w = sc_op M oc (if cval M \<sigma> c then ival M \<sigma> x else ival M \<sigma> y) (if cval M \<sigma> c then ival M \<sigma> x else ival M \<sigma> y))"
proof -
  let ?e = "AstComposite eTOKEN_conditional_expression b [c, x, y]"
  let ?n = "AstComposite eTOKEN_assignment_expression b [AstIdentifier eTOKEN_IDENTIFIER v (Some w), AstToken p q r, ?e]"
  have p: "p = eTOKEN_assignment_operator \<or> assign_op False p = Inr oc" using assms(4) by blast
  obtain s' new where 1: "genStatement cx a ?n s = Some (Inr ((), s'))" "sets_code M s s' new w (assigned M p ?e w)"
    using assignment_statement_f [OF refl assms(1,2,3) p assms(5), of b q r "2 * depth ?n + 3" cx] unfolding genStatement_def by blast
  have v: "assigned M p ?e w = (\<lambda>\<sigma>. sc_op M oc (if cval M \<sigma> c then ival M \<sigma> x else ival M \<sigma> y) (if cval M \<sigma> c then ival M \<sigma> x else ival M \<sigma> y))"
    using assms(4) by (simp add: assigned_def fun_eq_iff)
  show ?thesis using 1 unfolding sets_code_def adds_def v by blast
qed

text \<open>\<open>a += b ? c : 7\<close> with \<open>a = 100\<close>, \<open>b = 1\<close>, \<open>c = 5\<close> makes \<open>a\<close> 10 and not 105.\<close>

theorem compound_assignment_loses_old_value_witness:
  "\<exists>s' new \<sigma>'. genStatement abc_ctx (abc_args\<lparr>sa_logic := False\<rparr>) (abc_set 0 eTOKEN_ADD_ASSIGN
       (node_of eTOKEN_conditional_expression [abc_var 1, abc_var 2, literal 7])) abc_state = Some (Inr ((), s')) \<and>
     g_lst s' = 0 # new \<and> fwd plain_unit (g_code s') new (\<lambda>i. [100, 1, 5] ! i) = Falls \<sigma>' \<and> \<sigma>' 0 = 10"
proof -
  let ?\<sigma> = "\<lambda>i. [100, 1, 5] ! i :: int" and ?e = "AstComposite eTOKEN_conditional_expression None [abc_var 1, abc_var 2, literal 7]"
  have h: "int_expr (g_ids abc_state) (AstIdentifier eTOKEN_IDENTIFIER ''a'' (Some 0))" "int_expr (g_ids abc_state) ?e"
    "assign_op False eTOKEN_ADD_ASSIGN = Inr IOPCODE_ADD" "\<not> sa_logic (abc_args\<lparr>sa_logic := False\<rparr>)"
    by code_simp+
  obtain s' new where 1: "genStatement abc_ctx (abc_args\<lparr>sa_logic := False\<rparr>) (AstComposite eTOKEN_assignment_expression None
      [AstIdentifier eTOKEN_IDENTIFIER ''a'' (Some 0), AstToken eTOKEN_ADD_ASSIGN 0 [], ?e]) abc_state = Some (Inr ((), s'))"
      "g_lst s' = g_lst abc_state @ new"
    and 2: "\<forall>\<sigma>. \<exists>\<sigma>'. fwd plain_unit (g_code s') new \<sigma> = Falls \<sigma>' \<and> \<sigma>' 0 = sc_op plain_unit IOPCODE_ADD
      (if cval plain_unit \<sigma> (abc_var 1) then ival plain_unit \<sigma> (abc_var 2) else ival plain_unit \<sigma> (literal 7))
      (if cval plain_unit \<sigma> (abc_var 1) then ival plain_unit \<sigma> (abc_var 2) else ival plain_unit \<sigma> (literal 7))"
    using compound_assignment_loses_old_value [OF plain_unit_ok h, of abc_ctx 0 "[]"] by blast
  have "cval plain_unit ?\<sigma> (abc_var 1)" "ival plain_unit ?\<sigma> (abc_var 2) = 5"
    by (simp_all add: abc_var_def var_value_def)
  then have "sc_op plain_unit IOPCODE_ADD
      (if cval plain_unit ?\<sigma> (abc_var 1) then ival plain_unit ?\<sigma> (abc_var 2) else ival plain_unit ?\<sigma> (literal 7))
      (if cval plain_unit ?\<sigma> (abc_var 1) then ival plain_unit ?\<sigma> (abc_var 2) else ival plain_unit ?\<sigma> (literal 7)) = 10"
    by (simp add: plain_unit_def)
  with 2 obtain \<sigma>' where "fwd plain_unit (g_code s') new ?\<sigma> = Falls \<sigma>'" "\<sigma>' 0 = 10" by metis
  then show ?thesis using 1 by (auto simp: abc_set_def abc_var_def node_of_def abc_state_def)
qed

text \<open>
  C31: an empty statement behind \<open>else\<close> becomes a jump to itself. In \<open>if (c) t; else {}\<close> the jump that is put behind
  the code of \<open>t\<close> goes to behind the last instruction of the \<open>else\<close> part, and as that part is empty, this is the
  last instruction of \<open>t\<close>, which the jump itself follows.
\<close>

theorem empty_else_jumps_to_itself:
  assumes "getChildList c = [d]" and "getID c = eTOKEN_expression" and "cond_expr (g_ids s) d" and "stmt_ok (g_ids s) t"
    and "makes_code t" and "getID t \<noteq> eTOKEN_block_item" and "\<forall>i. vals i = []" and "distinct (g_lst s)"
    and "set (g_lst s) \<subseteq> {..<length (g_code s)}"
  shows "\<exists>s' before e i. process_code_block cx vals ba
        (AstComposite eTOKEN_selection_statement b [c, t, AstComposite eTOKEN_compound_statement None []]) s = Some (Inr ((), s')) \<and>
    g_lst s' = before @ [e, i] \<and> prefix (g_lst s) before \<and> distinct (g_lst s') \<and>
    ctl_oc (m_control (g_code s' ! i)) = OPCODE_JUMP \<and> ctl_jumpInstruction (m_control (g_code s' ! i)) = Some e \<and>
    ctl_jumpAfter (m_control (g_code s' ! i))"
proof -
  let ?f = "AstComposite eTOKEN_compound_statement None []"
  let ?n = "AstComposite eTOKEN_selection_statement b [c, t, ?f]"
  let ?pb = "process_code_block_f cx vals (depth ?n)"
  have wf: "code_wf s" using assms(8,9) by (simp add: code_wf_def)
  have "depth t < depth ?n" by (intro depth_child) simp
  then obtain s1 new1 where t: "?pb ba t s = Some (Inr ((), s1))" "block_code plain_unit s s1 new1 (run_stmt plain_unit t)" "new1 \<noteq> []"
    using process_code_block_code [OF plain_unit_ok assms(7,4,6) wf, of "depth ?n" cx ba] assms(5) by blast
  have ad: "adds s s1 new1" using t(2) by (simp add: block_code_def)
  note l = piece_last [OF ad t(3) wf]
  have wf1: "code_wf s1" using adds_wf [OF ad wf] .
  have f: "?pb ba ?f s1 = Some (Inr ((), s1))"
    by (cases "depth ?n") (auto simp: process_code_block_body_def process_init_def gen_block_kind_def gret_def)
  let ?i = "length (g_code s1)"
  define s3 where "s3 = put_jump (last new1) (g_lst s @ new1 @ [?i]) s1"
  have a3: "adds s s3 (new1 @ [?i])"
    using ad grows_length [OF adds_grows [OF ad]] by (fastforce simp: adds_def grows_def s3_def put_jump_def)
  obtain s4 new where 4: "gbind (separately (genStatement cx (in_block ba True (Some ?i) True True) d)) (\<lambda>code. insert_instr code (last_opt (g_lst s))) s3
      = Some (Inr ((), s4))" "adds s s4 (new @ new1 @ [?i])" "grows s3 s4"
    using condition_in_front [OF plain_unit_ok a3 wf _ assms(3), of ?i cx ba] by (auto simp: s3_def put_jump_def)
  have ins: "list_insert_after (Some (last new1)) [?i] (g_lst s1) = g_lst s @ new1 @ [?i]"
    using insert_behind_last [of "g_lst s1" "[?i]" "[]"] wf1 l(2) by (simp add: code_wf_def l(1))
  have "gbind get_last (\<lambda>end2. gbind new_instr (\<lambda>i. gbind (set_instr i (\<lambda>ins. Inr (createUnconditionalJump OPCODE_JUMP end2 True ins)))
      (\<lambda>_. gbind (insert_instr [i] (Some (last new1))) (\<lambda>_. gret (Some i))))) s1 = Some (Inr (Some ?i, s3))"
    by (simp add: gbind_def get_last_run new_instr_def set_instr_def insert_instr_def gret_def ins l(2) s3_def put_jump_def)
  then have "genSelectionStatement (genStatement cx) ?pb ba [c, t, ?f] s = Some (Inr ((), s4))"
    using t(1) f assms(1) 4(1)
    by (simp only: genSelectionStatement.simps) (simp add: gbind_def get_last_run child_at_def gres_def gret_def l(2))
  then have "process_code_block cx vals ba ?n s = Some (Inr ((), s4))"
    using assms(2) by (simp add: process_code_block_def process_code_block_body_def gbind_def no_initial_values [OF assms(7)] gen_block_kind_def
        del: genSelectionStatement.simps)
  moreover have "g_lst s4 = (g_lst s @ new @ butlast new1) @ [last new1, ?i]" using 4(2) t(3) by (simp add: adds_def)
  moreover have "g_code s4 ! ?i = createUnconditionalJump OPCODE_JUMP (Some (last new1)) True new_cInstruction"
    using grows_code [OF 4(3), of ?i] by (simp add: s3_def put_jump_def)
  moreover have "distinct (g_lst s4)" using adds_wf [OF 4(2) wf] by (simp add: code_wf_def)
  ultimately show ?thesis
    by (intro exI [of _ s4] exI [of _ "g_lst s @ new @ butlast new1"] exI [of _ "last new1"] exI [of _ ?i])
      (simp add: createUnconditionalJump_def)
qed

theorem empty_else_jumps_to_itself_witness:
  "\<exists>s' before e i. process_code_block abc_ctx (\<lambda>_. []) abc_block (node_of eTOKEN_selection_statement
       [node_of eTOKEN_expression [abc_cond], node_of eTOKEN_expression_statement [abc_set 0 eTOKEN_assignment_operator (literal 1)],
        node_of eTOKEN_compound_statement []]) abc_state = Some (Inr ((), s')) \<and> g_lst s' = before @ [e, i] \<and>
     ctl_jumpInstruction (m_control (g_code s' ! i)) = Some e \<and> ctl_jumpAfter (m_control (g_code s' ! i))"
proof -
  let ?t = "node_of eTOKEN_expression_statement [abc_set 0 eTOKEN_assignment_operator (literal 1)]"
  have "cond_expr (g_ids abc_state) abc_cond" using abc_ok by (simp add: abc_state_def)
  moreover have "stmt_ok (g_ids abc_state) ?t" by code_simp
  moreover have "makes_code ?t" "getID ?t \<noteq> eTOKEN_block_item" "getChildList (node_of eTOKEN_expression [abc_cond]) = [abc_cond]"
    "getID (node_of eTOKEN_expression [abc_cond]) = eTOKEN_expression" "distinct (g_lst abc_state)"
    "set (g_lst abc_state) \<subseteq> {..<length (g_code abc_state)}"
    by (simp_all add: node_of_def abc_set_def abc_state_def)
  ultimately show ?thesis
    using empty_else_jumps_to_itself [of "node_of eTOKEN_expression [abc_cond]" abc_cond abc_state ?t "\<lambda>_. []" abc_ctx abc_block None]
    unfolding node_of_def by blast
qed


end
