(* ===== verification/Spec2Isabelle.thy ===== *)
theory Spec2Isabelle
  imports CList ConstTab Indep Blocks Usage FuncInfo Encode Decode Place Optimize FoldEnds ConstAlloc Prune GenProg
begin

text \<open>
  A model of the pcore compiler of ztachip (\<open>SW/compiler\<close>) and proofs about it.

  The compiler reads C-like kernels and writes two things: the code image of the pcore processors
  (from \<open>instruction.cpp\<close>) and a program for the host processor. The model covers the way from the syntax
  tree to the image: pruning (\<open>prune.cpp\<close>), code generation (\<open>gen.cpp\<close>), optimisation and packing
  (\<open>instruction.cpp\<close>), allocation (\<open>graph.cpp\<close>) and encoding.

  \<^item> \<open>Config\<close>: the opcode tables (\<open>config.cpp\<close>) and the machine constants of \<open>base/zta.h\<close>.
  \<^item> \<open>CStrings\<close>: names and strings (\<open>util.cpp\<close>). \<open>CList\<close>: the intrusive doubly linked list
    (\<open>util.cpp\<close>) that holds instructions, identifiers and tree nodes; the other theories use the
    sequences that it is shown to represent.
  \<^item> \<open>CFloat\<close>: the values of \<open>float\<close> as the compiler computes with them. \<open>ConstTab\<close>: the table of
    constants (\<open>const.cpp\<close>).
  \<^item> \<open>Ident\<close>, \<open>Scope\<close>: identifiers, their classes, vectors of identifiers, and what a pointer may
    point to (\<open>ident.cpp\<close>).
  \<^item> \<open>Term\<close>, \<open>Indep\<close>: operands (\<open>term.cpp\<close>), and when two of them do not touch the same machine cells.
  \<^item> \<open>Instr\<close>: instructions and the queries about one instruction (\<open>instruction.cpp\<close>). \<open>Simplify\<close>:
    constant evaluation inside one instruction. \<open>Flow\<close>, \<open>Blocks\<close>, \<open>Usage\<close>: the walks over one function.
  \<^item> \<open>Jumps\<close>: tidying of jumps and of assignments to the lane mask. \<open>Pack\<close>: operations of different
    units put into one instruction, and what the machine computes before and after.
  \<^item> \<open>Liveness\<close>, \<open>Coloring\<close>, \<open>RegSem\<close>: register allocation (\<open>graph.cpp\<close>) and its correctness.
  \<^item> \<open>Alloc\<close>, \<open>Place\<close>: registers and memory for the colours and the variables (\<open>buildFunc\<close> of
    \<open>graph.cpp\<close>, with the kernel classes of \<open>class.cpp\<close>), and that they do not overlap.
  \<^item> \<open>FuncInfo\<close>, \<open>Encode\<close>, \<open>Decode\<close>: the code image, and that what is written can be read back.
  \<^item> \<open>Steps\<close>: runs of a straight piece of code on one lane, and when a walk that changes instructions
    one by one keeps what the runs compute; the passes below rest on its locales.
  \<^item> \<open>Fold\<close>, \<open>FoldEnds\<close>: propagation of constants (\<open>constantFolding\<close>) keeps what a piece of code
    computes, and its repetition ends. \<open>Subst\<close>: removal of redundant assignments
    (\<open>substituteAssignment\<close>). \<open>Common\<close>: \<open>findCommonExpression\<close>, which also removes assignments nobody reads.
  \<^item> \<open>Fuse\<close>: multiplications joined with additions to an accumulator (\<open>fm_int\<close>, \<open>fm_post\<close>).
    \<open>Optimize\<close>: the order in which \<open>cInstruction::Optimize\<close> repeats all these passes, as a partial
    function, since it may not return.
  \<^item> \<open>ConstAlloc\<close>: the addresses of the constants (\<open>cConstant::Allocate\<close>).
  \<^item> \<open>Ast\<close>: the syntax tree and the queries about it (\<open>ast.cpp\<close>). \<open>FloatOps\<close>, \<open>Prune\<close>: constants folded
    in \<open>float\<close>, nodes joined (\<open>prune.cpp\<close>), and what that does to the values of expressions.
  \<^item> \<open>GenBase\<close>, \<open>GenTerm\<close>: code for expressions (the functions \<open>genTerm...\<close> of \<open>gen.cpp\<close>) in a state with
    the instructions, the list that is written to and the identifiers. \<open>Unroll\<close>: \<open>loopUnroll\<close>, and that an
    unrolled loop runs through the indices of the loop. \<open>GenStmt\<close>: \<open>genStatement\<close>, conditions and jumps.
    \<open>GenBlock\<close>: selection, switch, loops, functions, and \<open>gen\<close>, the entry.
  \<^item> \<open>GenEnds\<close>: the generators take fuel from the depth of the tree (two units for each level, since a
    condition may be generated as an expression of the same node), and that is always enough.
  \<^item> \<open>GenSem\<close>, \<open>GenCode\<close>: what the generated scalar code computes, compared with the source: integer
    expressions, conditions with short-circuit evaluation, conditional expressions, assignments.
    \<open>GenProg\<close>: sequences and selections, the correctness of \<open>process_code_block\<close> for code without loops,
    jumps and initial values, and two cases that are compiled to something else. A scalar unit is a parameter:
    what its operations compute, of which the theorems need that adding 0 changes nothing and that differences
    have the right sign.

  Conventions. The compiler ends with a message and an exit code when it calls \<open>error\<close>; such an end,
  a failed \<open>assert\<close>, a failed \<open>CAST\<close>, a null pointer read and undefined behaviour are values of
  \<open>cerror\<close>. A pointer to an identifier or an instruction is its number. In the compiler \<open>bool\<close> is
  \<open>int\<close> (\<open>util.h\<close>). Loops without an obvious bound are \<open>while_option\<close> or take fuel; the theorems
  that the pass returns say how much is enough.

  Not modelled: the parser (generated from a grammar), the scanner of declarations that turns the tree into
  identifiers (\<open>ident.cpp\<close>; its results, identifiers with initial values, are the input of \<open>gen\<close>), the driver,
  printing, the generator of the host program (\<open>mcore.cpp\<close>, which copies text), and the runtimes and
  applications beside the compiler.
\<close>

end
